(* ===== verification/Prelude.thy ===== *)
theory Prelude
  imports Main "HOL-Library.Word"
begin

unbundle bit_operations_syntax

text \<open>
  What the component theories share: the machine types of the driver, the C library's
  character classification in the "C" locale, memory reads that can leave an object, the
  case-insensitive comparison of \<^verbatim>\<open>driver/utility.cc\<close>, and the lemma collections
  the component proofs draw from.
\<close>

section \<open>Machine types\<close>

type_synonym u8 = "8 word"
type_synonym u16 = "16 word"
type_synonym u32 = "32 word"
type_synonym u64 = "64 word"

text \<open>
  C strings are byte lists without their terminating NUL. Offsets into them are natural
  numbers; a read at the length yields the terminator, a read past it is \<open>None\<close>.
\<close>

definition cget :: "string \<Rightarrow> nat \<Rightarrow> char" where
  "cget s i = (if i < length s then s ! i else CHR 0x00)"

definition byte_at :: "string \<Rightarrow> nat \<Rightarrow> char option" where
  "byte_at s i = (if i < length s then Some (s ! i) else None)"

named_theorems bufsimps \<open>reads and writes of byte buffers\<close>

lemma cget_in [bufsimps]: "i < length s \<Longrightarrow> cget s i = s ! i"
  by (simp add: cget_def)

lemma cget_end [bufsimps]: "length s \<le> i \<Longrightarrow> cget s i = CHR 0x00"
  by (simp add: cget_def)

lemma byte_at_Some [bufsimps]: "byte_at s i = Some c \<longleftrightarrow> i < length s \<and> s ! i = c"
  by (auto simp: byte_at_def)

section \<open>Character classes of the C library\<close>

definition code :: "char \<Rightarrow> nat" where
  "code c = of_char c"

definition isspace_c :: "char \<Rightarrow> bool" where
  "isspace_c c \<longleftrightarrow> code c = 32 \<or> (9 \<le> code c \<and> code c \<le> 13)"

definition isdigit_c :: "char \<Rightarrow> bool" where
  "isdigit_c c \<longleftrightarrow> 48 \<le> code c \<and> code c \<le> 57"

definition toupper_c :: "char \<Rightarrow> char" where
  "toupper_c c = (if 97 \<le> code c \<and> code c \<le> 122 then char_of (code c - 32) else c)"

definition tolower_c :: "char \<Rightarrow> char" where
  "tolower_c c = (if 65 \<le> code c \<and> code c \<le> 90 then char_of (code c + 32) else c)"

lemma code_less_256: "code c < 256"
  by (simp add: code_def)

lemma code_inj: "code c = code d \<longleftrightarrow> c = d"
  by (simp add: code_def)

lemma code_char_of [simp]: "n < 256 \<Longrightarrow> code (char_of n) = n"
  by (simp add: code_def)

lemma toupper_c_idem [simp]: "toupper_c (toupper_c c) = toupper_c c"
  using code_less_256 [of c] by (auto simp: toupper_c_def)

lemma toupper_c_NUL: "toupper_c c = CHR 0x00 \<longleftrightarrow> c = CHR 0x00"
proof
  assume a: "toupper_c c = CHR 0x00"
  show "c = CHR 0x00"
  proof (cases "97 \<le> code c \<and> code c \<le> 122")
    case True
    have "code c - 32 < 256"
      using code_less_256 [of c] by linarith
    with True have "code (toupper_c c) = code c - 32"
      by (simp add: toupper_c_def)
    with a True show ?thesis by (simp add: code_def)
  next
    case False
    with a show ?thesis by (auto simp: toupper_c_def split: if_splits)
  qed
qed (simp add: toupper_c_def code_def)

section \<open>Case-insensitive comparison\<close>

text \<open>
  \<open>myodbc_casecmp\<close> compares at most \<open>len\<close> bytes; the value is the number of bytes that
  were left when a difference was found (the byte that differs counted), 0 when there was
  none. Null pointers are \<open>None\<close>. The arguments are the bytes from the pointers on; a
  read at the end of either yields its terminator.
\<close>

fun casecmp_loop :: "nat \<Rightarrow> string \<Rightarrow> string \<Rightarrow> int" where
  "casecmp_loop 0 s t = 0"
| "casecmp_loop (Suc n) s t =
     (if toupper_c (cget s 0) = toupper_c (cget t 0) then casecmp_loop n (tl s) (tl t)
      else int (Suc n))"

fun myodbc_casecmp :: "string option \<Rightarrow> string option \<Rightarrow> nat \<Rightarrow> int" where
  "myodbc_casecmp None None len = 0"
| "myodbc_casecmp None (Some t) len = 1"
| "myodbc_casecmp (Some s) None len = 1"
| "myodbc_casecmp (Some s) (Some t) len = casecmp_loop len s t"

lemma casecmp_loop_nonneg: "0 \<le> casecmp_loop n s t"
  by (induction n s t rule: casecmp_loop.induct) auto

lemma casecmp_loop_0_iff:
  "length t = n \<Longrightarrow> CHR 0x00 \<notin> set t \<Longrightarrow>
     casecmp_loop n s t = 0 \<longleftrightarrow> n \<le> length s \<and> map toupper_c (take n s) = map toupper_c t"
proof (induction n s t rule: casecmp_loop.induct)
  case (1 s t)
  then show ?case by simp
next
  case (2 n s t)
  then obtain b t' where t: "t = b # t'" by (cases t) auto
  have nz: "toupper_c b \<noteq> CHR 0x00"
    using 2 t by (auto simp: toupper_c_NUL)
  show ?case
  proof (cases s)
    case Nil
    have "toupper_c (CHR 0x00) = CHR 0x00" by (simp add: toupper_c_NUL)
    with Nil nz t show ?thesis by (auto simp: cget_def)
  next
    case (Cons a s')
    with 2 t show ?thesis by (auto simp: cget_def)
  qed
qed

section \<open>Words as numbers\<close>

text \<open>
  Bit operations of the source read as arithmetic on \<open>unat\<close>: masks are remainders, shifts
  are products and quotients, and an \<open>OR\<close> with disjoint bits is a sum.
\<close>

named_theorems wordarith \<open>bit operations as arithmetic\<close>

lemma not_bit_small: "n < 2 ^ k \<Longrightarrow> k \<le> j \<Longrightarrow> \<not> bit (n::nat) j"
  by (metis bit_take_bit_iff linorder_not_le take_bit_nat_eq_self)

lemma unat_or_shifted:
  fixes b c :: "'a::len word"
  assumes b: "unat b < 2 ^ k" and c: "unat c * 2 ^ k < 2 ^ LENGTH('a)"
  shows "unat (push_bit k c OR b) = unat c * 2 ^ k + unat b"
proof -
  have "unat (push_bit k c OR b) = push_bit k (unat c) OR unat b"
    using c by (simp add: unsigned_or_eq unsigned_push_bit_eq take_bit_nat_eq_self push_bit_nat_def)
  also have "\<dots> = push_bit k (unat c) + unat b"
    using not_bit_small [OF b] by (intro disjunctive_add [symmetric]) (auto simp: bit_push_bit_iff)
  finally show ?thesis by (simp add: push_bit_nat_def)
qed

lemma unat_drop [wordarith]: "unat (drop_bit k (w::'a::len word)) = unat w div 2 ^ k"
  by (simp add: unat_drop_bit_eq drop_bit_nat_def)

lemma unat_mask: "unat ((w::'a::len word) AND mask k) = unat w mod 2 ^ k"
  by (simp add: take_bit_eq_mask [symmetric] unsigned_take_bit_eq take_bit_nat_def)

lemma unat_and_masks [wordarith]:
  "unat ((w::'a::len word) AND 0x3f) = unat w mod 64"
  "unat (w AND 0x1f) = unat w mod 32"
  "unat (w AND 0x0f) = unat w mod 16"
  "unat (w AND 0x07) = unat w mod 8"
  "unat (w AND 0x7f) = unat w mod 128"
  "unat (w AND 0x3ff) = unat w mod 1024"
  "unat (w AND 0xffff) = unat w mod 65536"
  using unat_mask [of w 6] unat_mask [of w 5] unat_mask [of w 4] unat_mask [of w 3]
    unat_mask [of w 7] unat_mask [of w 10] unat_mask [of w 16]
  by (simp_all add: mask_eq_exp_minus_1)

lemma unat_ucast_mod [wordarith]:
  "unat (ucast (w::'a::len word) :: 'b::len word) = unat w mod 2 ^ LENGTH('b)"
  by (simp add: unsigned_ucast_eq take_bit_nat_def)

lemma unat_or_const [wordarith]:
  fixes b :: u32
  shows "unat b < 32 \<Longrightarrow> unat (0xc0 OR b) = 192 + unat b"
    "unat b < 16 \<Longrightarrow> unat (0xe0 OR b) = 224 + unat b"
    "unat b < 16 \<Longrightarrow> unat (0xf0 OR b) = 240 + unat b"
    "unat b < 64 \<Longrightarrow> unat (0x80 OR b) = 128 + unat b"
    "unat b < 1024 \<Longrightarrow> unat (0xd800 OR b) = 55296 + unat b"
    "unat b < 1024 \<Longrightarrow> unat (0xdc00 OR b) = 56320 + unat b"
  using unat_or_shifted [of b 6 3] unat_or_shifted [of b 4 14] unat_or_shifted [of b 4 15]
    unat_or_shifted [of b 6 2] unat_or_shifted [of b 10 54] unat_or_shifted [of b 10 55]
  by simp_all

lemma div_mod_digit:
  fixes d :: nat
  assumes "d < k"
  shows "(a * k + d) div k = a" "(a * k + d) mod k = d"
  using assms by simp_all

lemma unat_ucast_8_32 [simp]: "unat (ucast (b::u8) :: u32) = unat b"
proof -
  have "unat b < 256" using unsigned_less [of b, where 'a=nat] by simp
  then show ?thesis by (simp add: unat_ucast_mod)
qed

lemma unat_ucast_16_32 [simp]: "unat (ucast (b::u16) :: u32) = unat b"
proof -
  have "unat b < 65536" using unsigned_less [of b, where 'a=nat] by simp
  then show ?thesis by (simp add: unat_ucast_mod)
qed

section \<open>Lists\<close>

lemma nth_list_update_cases:
  "i < length xs \<Longrightarrow> (xs[i := c]) ! j = (if i = j then c else xs ! j)"
  by simp

lemma takeWhile_nth_all:
  "i < length (takeWhile P xs) \<Longrightarrow> P (xs ! i)"
  using nth_mem [of i "takeWhile P xs"] by (auto simp: takeWhile_nth dest: set_takeWhileD)

end
