(* ===== verification/Transcode.thy ===== *)
theory Transcode
  imports Prelude
begin

unbundle bit_operations_syntax

text \<open>
  The raw Unicode conversions of \<^verbatim>\<open>util/unicode_transcode.cc\<close>. A pointer argument is
  the list of code units from the pointer on; the value is the number of units the function
  reports with what it stored through its output pointer, and \<open>None\<close> stands for a read
  past the last unit of the list. Stores into narrower units truncate (\<open>ucast\<close>).
\<close>

section \<open>UTF-16\<close>

definition utf16toutf32 :: "u16 list \<Rightarrow> (nat \<times> u32) option" where
  "utf16toutf32 i =
     (case i of
        [] \<Rightarrow> None
      | u # rest \<Rightarrow>
          if 0xd800 \<le> u \<and> u \<le> 0xdbff then
            (let hi = 0x10000 OR push_bit 10 (ucast u AND 0x3ff) in
             case rest of
               [] \<Rightarrow> None
             | v # _ \<Rightarrow> if v < 0xdc00 \<or> v > 0xdfff then Some (0, hi)
                       else Some (2, hi OR (ucast v AND 0x3ff)))
          else Some (1, ucast u))"

definition utf32toutf16 :: "u32 \<Rightarrow> nat \<times> u16 list" where
  "utf32toutf16 i =
     (if i < 0xffff then (1, [ucast (i AND 0xffff)])
      else if i < 0x10ffff then
        (let j = i - 0x10000 in
         (2, [ucast (0xd800 OR drop_bit 10 j), ucast (0xdc00 OR (j AND 0x3ff))]))
      else (0, []))"

section \<open>UTF-8\<close>

text \<open>The loop over the continuation bytes: \<open>x\<close> of them are still to come.\<close>

fun utf8_cont :: "nat \<Rightarrow> u8 list \<Rightarrow> u32 \<Rightarrow> (bool \<times> u32) option" where
  "utf8_cont 0 bs u = Some (True, u)"
| "utf8_cont (Suc x) [] u = None"
| "utf8_cont (Suc x) (b # bs) u =
     (let u' = push_bit 6 u OR (ucast b AND 0x3f) in
      if drop_bit 6 b \<noteq> 2 then Some (False, u') else utf8_cont x bs u')"

definition utf8toutf32 :: "u8 list \<Rightarrow> (nat \<times> u32) option" where
  "utf8toutf32 i =
     (case i of
        [] \<Rightarrow> None
      | b # bs \<Rightarrow>
          if b < 0x80 then Some (1, ucast b)
          else
            (let (len, u) =
               (if b < 0xe0 then (2, ucast b AND 0x1f)
                else if b < 0xf0 then (3, ucast b AND 0x0f)
                else (4, ucast b AND 0x07))
             in case utf8_cont (len - 1) bs u of
                  None \<Rightarrow> None
                | Some (ok, u') \<Rightarrow> Some (if ok then len else 0, u')))"

text \<open>The loop that stores the continuation bytes, \<open>x\<close> of them.\<close>

fun utf8_tail :: "nat \<Rightarrow> u32 \<Rightarrow> u8 list" where
  "utf8_tail 0 i = []"
| "utf8_tail (Suc x) i = ucast (0x80 OR (drop_bit (6 * x) i AND 0x3f)) # utf8_tail x i"

definition utf32toutf8 :: "u32 \<Rightarrow> nat \<times> u8 list" where
  "utf32toutf8 i =
     (if i < 0x80 then (1, [ucast (i AND 0x7f)])
      else if i < 0x800 then (2, ucast (0xc0 OR drop_bit 6 i) # utf8_tail 1 i)
      else if i < 0x10000 then (3, ucast (0xe0 OR drop_bit 12 i) # utf8_tail 2 i)
      else if i < 0x10ffff then (4, ucast (0xf0 OR drop_bit 18 i) # utf8_tail 3 i)
      else (0, []))"

section \<open>UTF-8 lemmas\<close>

lemma utf8_tail_byte:
  "unat (ucast (0x80 OR (drop_bit (6 * x) (i::u32) AND 0x3f)) :: u8) = 128 + unat i div 64 ^ x mod 64"
proof -
  have "unat i div 64 ^ x mod 64 < 64" by simp
  then show ?thesis by (simp add: wordarith power_mult)
qed

lemma length_utf8_tail [simp]: "length (utf8_tail x i) = x"
  by (induction x) auto

lemma cont_step:
  fixes b :: u8 and u :: u32
  assumes b: "unat b = 128 + d" "d < 64" and u: "unat u < 2 ^ 26"
  shows "drop_bit 6 b = 2" "unat (push_bit 6 u OR (ucast b AND 0x3f)) = unat u * 64 + d"
proof -
  have "(128 + d) div 64 = 2" using div_mod_digit(1) [OF b(2), of 2] by simp
  then have "unat (drop_bit 6 b) = unat (2::u8)"
    by (simp only: unat_drop b) simp
  then show "drop_bit 6 b = 2" by (simp only: word_unat_eq_iff)
  have "(128 + d) mod 64 = d" using div_mod_digit(2) [OF b(2), of 2] by simp
  then have d: "unat (ucast b AND 0x3f :: u32) = d"
    by (simp only: unat_and_masks unat_ucast_8_32 b)
  have "unat u * 64 < 2 ^ 32" using u by simp
  with d b(2) show "unat (push_bit 6 u OR (ucast b AND 0x3f)) = unat u * 64 + d"
    by (subst unat_or_shifted) simp_all
qed

lemma utf8_cont_tail:
  "(unat u + 1) * 64 ^ x \<le> 2 ^ 32 \<Longrightarrow>
     \<exists>u'. utf8_cont x (utf8_tail x i @ rest) u = Some (True, u') \<and>
          unat u' = unat u * 64 ^ x + unat i mod 64 ^ x"
proof (induction x arbitrary: u)
  case 0
  then show ?case by simp
next
  case (Suc x)
  define b :: u8 where "b = ucast (0x80 OR (drop_bit (6 * x) i AND 0x3f))"
  define d where "d = unat i div 64 ^ x mod 64"
  let ?u = "push_bit 6 u OR (ucast b AND 0x3f)"
  have b: "unat b = 128 + d" "d < 64"
    unfolding b_def d_def by (rule utf8_tail_byte) simp
  have le: "(unat u + 1) * 64 * 64 ^ x \<le> 2 ^ 32" using Suc.prems by (simp add: algebra_simps)
  moreover have "(unat u + 1) * 64 * 1 \<le> (unat u + 1) * 64 * 64 ^ x" by (rule mult_le_mono) auto
  ultimately have "(unat u + 1) * 64 * 1 \<le> 2 ^ 32" by (rule order_trans [rotated])
  then have u26: "unat u < 2 ^ 26" by simp
  note st = cont_step [OF b u26]
  have "(unat ?u + 1) * 64 ^ x \<le> (unat u + 1) * 64 * 64 ^ x"
    using st(2) b(2) by (intro mult_le_mono) auto
  with le have "(unat ?u + 1) * 64 ^ x \<le> 2 ^ 32" by linarith
  from Suc.IH [OF this] obtain u' where
    u': "utf8_cont x (utf8_tail x i @ rest) ?u = Some (True, u')"
      "unat u' = unat ?u * 64 ^ x + unat i mod 64 ^ x" by blast
  have "unat i mod (64 ^ x * 64) = 64 ^ x * d + unat i mod 64 ^ x"
    by (simp add: d_def mod_mult2_eq)
  then have "unat u' = unat u * 64 ^ Suc x + unat i mod 64 ^ Suc x"
    using u'(2) st(2) by (simp add: algebra_simps)
  moreover have "utf8_cont (Suc x) (utf8_tail (Suc x) i @ rest) u = Some (True, u')"
    using u'(1) st(1) by (simp add: Let_def b_def)
  ultimately show ?case by blast
qed

text \<open>What the decoder makes of a lead byte and the tail of the encoder.\<close>

lemma utf8toutf32_lead:
  assumes lead: "0x80 \<le> b"
    "b < 0xe0 \<longrightarrow> len = 2 \<and> unat b mod 32 = p" 
    "0xe0 \<le> b \<longrightarrow> b < 0xf0 \<longrightarrow> len = 3 \<and> unat b mod 16 = p"
    "0xf0 \<le> b \<longrightarrow> len = 4 \<and> unat b mod 8 = p"
    and p: "unat i div 64 ^ (len - 1) = p"
  shows "utf8toutf32 (b # utf8_tail (len - 1) i @ rest) = Some (len, i)"
proof -
  define u :: u32 where "u = (if b < 0xe0 then ucast b AND 0x1f
      else if b < 0xf0 then ucast b AND 0x0f else ucast b AND 0x07)"
  have u: "unat u = p" and "len = 2 \<and> p < 32 \<or> len = 3 \<and> p < 16 \<or> len = 4 \<and> p < 8"
    using lead by (auto simp: u_def wordarith not_less)
  then have "(unat u + 1) * 64 ^ (len - 1) \<le> 2 ^ 32" by auto
  from utf8_cont_tail [OF this, of i rest] obtain u' where
    u': "utf8_cont (len - 1) (utf8_tail (len - 1) i @ rest) u = Some (True, u')"
      "unat u' = p * 64 ^ (len - 1) + unat i mod 64 ^ (len - 1)" using u by auto
  then have "unat u' = unat i" unfolding p [symmetric] by (simp only: div_mult_mod_eq)
  then have "u' = i" by (simp only: word_unat_eq_iff)
  moreover have "utf8toutf32 (b # utf8_tail (len - 1) i @ rest) =
      (case utf8_cont (len - 1) (utf8_tail (len - 1) i @ rest) u of
         None \<Rightarrow> None | Some (ok, u') \<Rightarrow> Some (if ok then len else 0, u'))"
    using lead by (auto simp: utf8toutf32_def u_def Let_def not_less)
  ultimately show ?thesis using u' by simp
qed

lemma utf8_lead_2:
  fixes i :: u32
  assumes "128 \<le> unat i" "unat i < 2048"
  shows "utf8toutf32 (ucast (0xc0 OR drop_bit 6 i) # utf8_tail 1 i @ rest) = Some (2, i)"
proof -
  define b :: u8 where "b = ucast (0xc0 OR drop_bit 6 i)"
  define p where "p = unat i div 64"
  have p: "p < 32" unfolding p_def by (rule less_mult_imp_div_less) (use assms in simp)
  have b: "unat b = 192 + p"
    using p by (simp add: b_def p_def wordarith)
  have "(192 + p) mod 32 = p"
    using div_mod_digit(2) [of p 32 6] p by simp
  then have "utf8toutf32 (b # utf8_tail (2 - 1) i @ rest) = Some (2, i)"
    using p by (intro utf8toutf32_lead [where p = p]) (simp_all add: b p_def word_le_nat_alt word_less_nat_alt)
  then show ?thesis by (simp add: b_def)
qed

lemma utf8_lead_3:
  fixes i :: u32
  assumes "2048 \<le> unat i" "unat i < 65536"
  shows "utf8toutf32 (ucast (0xe0 OR drop_bit 12 i) # utf8_tail 2 i @ rest) = Some (3, i)"
proof -
  define b :: u8 where "b = ucast (0xe0 OR drop_bit 12 i)"
  define p where "p = unat i div 4096"
  have p: "p < 16" unfolding p_def by (rule less_mult_imp_div_less) (use assms in simp)
  have b: "unat b = 224 + p"
    using p by (simp add: b_def p_def wordarith)
  have "(224 + p) mod 16 = p"
    using div_mod_digit(2) [of p 16 14] p by simp
  then have "utf8toutf32 (b # utf8_tail (3 - 1) i @ rest) = Some (3, i)"
    using p by (intro utf8toutf32_lead [where p = p]) (simp_all add: b p_def word_le_nat_alt word_less_nat_alt)
  then show ?thesis by (simp add: b_def)
qed

lemma utf8_lead_4:
  fixes i :: u32
  assumes "65536 \<le> unat i" "unat i < 1114111"
  shows "utf8toutf32 (ucast (0xf0 OR drop_bit 18 i) # utf8_tail 3 i @ rest) = Some (4, i)"
proof -
  define b :: u8 where "b = ucast (0xf0 OR drop_bit 18 i)"
  define p where "p = unat i div 262144"
  have p: "p < 8" unfolding p_def by (rule less_mult_imp_div_less) (use assms in simp)
  have b: "unat b = 240 + p"
    using p by (simp add: b_def p_def wordarith)
  have "(240 + p) mod 8 = p"
    using div_mod_digit(2) [of p 8 30] p by simp
  then have "utf8toutf32 (b # utf8_tail (4 - 1) i @ rest) = Some (4, i)"
    using p by (intro utf8toutf32_lead [where p = p]) (simp_all add: b p_def word_le_nat_alt word_less_nat_alt)
  then show ?thesis by (simp add: b_def)
qed

lemma utf8_roundtrip:
  assumes "i < 0x10ffff"
  shows "utf8toutf32 (snd (utf32toutf8 i) @ rest) = Some (fst (utf32toutf8 i), i)"
proof -
  have lt: "unat i < 1114111" using assms by (simp add: word_less_nat_alt)
  consider (1) "unat i < 128" | (2) "128 \<le> unat i" "unat i < 2048"
    | (3) "2048 \<le> unat i" "unat i < 65536" | (4) "65536 \<le> unat i" by linarith
  then show ?thesis
  proof cases
    case 1
    then have "(ucast (i AND 0x7f) :: u8) < 0x80" "(ucast (ucast (i AND 0x7f) :: u8) :: u32) = i"
      by (simp_all add: word_less_nat_alt word_unat_eq_iff wordarith)
    with 1 show ?thesis by (simp add: utf32toutf8_def utf8toutf32_def word_less_nat_alt)
  next
    case 2
    with utf8_lead_2 [OF 2, of rest] show ?thesis
      by (simp add: utf32toutf8_def word_less_nat_alt)
  next
    case 3
    with utf8_lead_3 [OF 3, of rest] show ?thesis
      by (simp add: utf32toutf8_def word_less_nat_alt)
  next
    case 4
    with lt utf8_lead_4 [OF 4 lt, of rest] show ?thesis
      by (simp add: utf32toutf8_def word_less_nat_alt)
  qed
qed

section \<open>UTF-16 lemmas\<close>

lemma or_bit16:
  "bit (j::u32) 16 \<Longrightarrow> 0x10000 OR j = j"
  "\<not> bit (j::u32) 16 \<Longrightarrow> 0x10000 OR j = j + 0x10000"
proof -
  have p: "bit (0x10000::u32) n \<longleftrightarrow> n = 16" for n
    using bit_exp_iff [of 16 n, where 'a = u32] by auto
  show "bit j 16 \<Longrightarrow> 0x10000 OR j = j"
    by (rule bit_word_eqI) (auto simp only: bit_or_iff p)
  show "\<not> bit j 16 \<Longrightarrow> 0x10000 OR j = j + 0x10000"
    using disjunctive_add [of j "0x10000"] p by (metis or.commute)
qed

lemma utf16_surrogates:
  assumes "0x10000 \<le> i" "i < 0x10ffff"
  shows "utf16toutf32 (snd (utf32toutf16 i) @ rest) = Some (2, 0x10000 OR (i - 0x10000))"
proof -
  define j where "j = i - 0x10000"
  define h l where "h = unat j div 1024" and "l = unat j mod 1024"
  have "unat j = unat i - 65536"
    using assms by (simp add: j_def unat_sub word_le_nat_alt)
  then have "unat j < 1024 * 1024" using assms by (simp add: word_less_nat_alt)
  then have h: "h < 1024" and l: "l < 1024" and j: "unat j = h * 1024 + l"
    unfolding h_def l_def by (auto intro: less_mult_imp_div_less)
  define u v :: u16 where "u = ucast (0xd800 OR drop_bit 10 j)" and "v = ucast (0xdc00 OR (j AND 0x3ff))"
  have u: "unat u = 55296 + h" using h by (simp add: u_def wordarith h_def)
  have v: "unat v = 56320 + l" using l by (simp add: v_def wordarith l_def)
  have enc: "snd (utf32toutf16 i) = [u, v]"
    using assms by (simp add: utf32toutf16_def u_def v_def j_def Let_def not_less word_less_nat_alt word_le_nat_alt)
  have hm: "unat (ucast u AND 0x3ff :: u32) = h" 
    using div_mod_digit(2) [OF h, of 54] u by (simp only: unat_and_masks unat_ucast_16_32) simp
  have lm: "unat (ucast v AND 0x3ff :: u32) = l"
    using div_mod_digit(2) [OF l, of 55] v by (simp only: unat_and_masks unat_ucast_16_32) simp
  have "unat (push_bit 10 (ucast u AND 0x3ff) OR (ucast v AND 0x3ff) :: u32) = unat j"
    unfolding j using h l hm lm by (subst unat_or_shifted) simp_all
  then have "push_bit 10 (ucast u AND 0x3ff) OR (ucast v AND 0x3ff) = j"
    by (simp only: word_unat_eq_iff)
  moreover have "0xd800 \<le> u" "u \<le> 0xdbff" "0xdc00 \<le> v" "v \<le> 0xdfff"
    using h l by (simp_all add: word_le_nat_alt u v)
  ultimately show ?thesis
    unfolding enc j_def [symmetric]
    by (simp add: utf16toutf32_def Let_def not_less or.assoc)
qed

lemma utf16_bmp_roundtrip:
  assumes "i < 0xffff" and "i < 0xd800 \<or> 0xdbff < i"
  shows "utf32toutf16 i = (1, [ucast i]) \<and> utf16toutf32 (ucast i # rest) = Some (1, i)"
proof -
  have n: "unat i < 65535" using assms(1) by (simp add: word_less_nat_alt)
  then have u: "unat (ucast i :: u16) = unat i" and m: "(ucast (i AND 0xffff) :: u16) = ucast i"
    by (simp_all add: wordarith word_unat_eq_iff)
  then have "(ucast (ucast i :: u16) :: u32) = i"
    by (simp add: word_unat_eq_iff)
  with assms u m show ?thesis
    by (auto simp: utf32toutf16_def utf16toutf32_def word_le_nat_alt word_less_nat_alt)
qed

lemma utf16_supplementary_exact:
  assumes "0x10000 \<le> i" "i < 0x10ffff"
  shows "utf16toutf32 (snd (utf32toutf16 i) @ rest) =
    Some (2, if bit (i - 0x10000) 16 then i - 0x10000 else i)"
  unfolding utf16_surrogates [OF assms] by (auto simp: or_bit16)

section \<open>Properties of the codecs\<close>

text \<open>C37: every code point below U+10FFFF, surrogates included, is decoded by \<open>utf8toutf32\<close> from
  the bytes \<open>utf32toutf8\<close> wrote for it, whatever follows them, and the byte count reported by
  the encoder is the count the decoder consumes.\<close>

theorem utf8_codec_roundtrip:
  assumes "i < 0x10ffff"
  shows "utf8toutf32 (snd (utf32toutf8 i) @ rest) = Some (fst (utf32toutf8 i), i)"
  using assms by (rule utf8_roundtrip)

theorem utf8_codec_roundtrip_witness:
  "utf8toutf32 (snd (utf32toutf8 0x20ac) @ [1, 2]) = Some (fst (utf32toutf8 0x20ac), 0x20ac)"
  by (rule utf8_codec_roundtrip) simp

text \<open>UTF-16 encoding followed by decoding is exact for a supplementary character of an odd
  plane (bit 16 of the offset clear) and loses bit 16 for the others: \<open>utf16toutf32\<close> combines
  the surrogates with a bitwise or of \<^verbatim>\<open>0x10000\<close> where an addition is meant, so that U+20000 is
  decoded as U+10000.\<close>

theorem utf16_supplementary:
  assumes "0x10000 \<le> i" "i < 0x10ffff"
  shows "utf16toutf32 (snd (utf32toutf16 i) @ rest) =
    Some (2, if bit (i - 0x10000) 16 then i - 0x10000 else i)"
  using assms by (rule utf16_supplementary_exact)

theorem utf16_supplementary_witness:
  "utf16toutf32 (snd (utf32toutf16 0x20000) @ []) = Some (2, 0x10000)"
proof -
  have "bit (0x20000 - 0x10000 :: u32) 16" by code_simp
  moreover have "(0x10000 :: u32) \<le> 0x20000" "(0x20000 :: u32) < 0x10ffff" by simp_all
  ultimately show ?thesis using utf16_supplementary [where i = "0x20000" and rest = "[]"] by simp
qed

text \<open>A character of the basic plane below U+FFFF that is no high surrogate is encoded as one
  unit equal to it and decoded back.\<close>

theorem utf16_basic_plane:
  assumes "i < 0xffff" and "i < 0xd800 \<or> 0xdbff < i"
  shows "utf32toutf16 i = (1, [ucast i]) \<and> utf16toutf32 (ucast i # rest) = Some (1, i)"
  using assms by (rule utf16_bmp_roundtrip)

theorem utf16_basic_plane_witness:
  "utf32toutf16 0x20ac = (1, [0x20ac]) \<and> utf16toutf32 (0x20ac # []) = Some (1, 0x20ac)"
  using utf16_basic_plane [where i = "0x20ac" and rest = "[]"] by simp

end
