(* ===== verification/Charset.thy ===== *)
theory Charset
  imports Prelude
begin

unbundle bit_operations_syntax

text \<open>
  The character-set operations the driver calls through \<^verbatim>\<open>cs->cset\<close>: reading one
  character of UTF-8 (\<^verbatim>\<open>mysql_strings/mb_wc.h\<close>) and classifying the character at a
  position (\<^verbatim>\<open>ctype-mb.cc\<close>, \<^verbatim>\<open>ctype-simple.cc\<close>). The argument is the
  bytes from the pointer up to the end the caller passes. The data pages of the Unicode
  character types above page 0 are a parameter (\<open>pages\<close>): they are generated tables.
\<close>

section \<open>Return codes and class bits\<close>

definition MY_CS_ILSEQ :: int where "MY_CS_ILSEQ = 0"
definition MY_CS_ILUNI :: int where "MY_CS_ILUNI = 0"
definition MY_CS_TOOSMALL :: int where "MY_CS_TOOSMALL = -101"
definition MY_CS_TOOSMALL2 :: int where "MY_CS_TOOSMALL2 = -102"
definition MY_CS_TOOSMALL3 :: int where "MY_CS_TOOSMALL3 = -103"
definition MY_CS_TOOSMALL4 :: int where "MY_CS_TOOSMALL4 = -104"

lemmas MY_CS_defs = MY_CS_ILSEQ_def MY_CS_ILUNI_def MY_CS_TOOSMALL_def MY_CS_TOOSMALL2_def
  MY_CS_TOOSMALL3_def MY_CS_TOOSMALL4_def

definition MY_SPC :: nat where "MY_SPC = 8"
definition MY_CTR :: nat where "MY_CTR = 32"

text \<open>A class mask has the bit: \<open>ctype & _MY_SPC\<close>, \<open>ctype & _MY_CTR\<close>.\<close>

definition has_class :: "nat \<Rightarrow> nat \<Rightarrow> bool" where
  "has_class m b \<longleftrightarrow> m AND b \<noteq> 0"

section \<open>UTF-8, up to four bytes\<close>

text \<open>\<open>(s[1] & 0xc0) == 0x80\<close>, and the code points of the longer sequences.\<close>

definition is_cont :: "char \<Rightarrow> bool" where
  "is_cont c \<longleftrightarrow> code c div 64 = 2"

definition wc3 :: "string \<Rightarrow> nat" where
  "wc3 s = (code (s ! 0) mod 16) * 4096 + (code (s ! 1) mod 64) * 64 + code (s ! 2) mod 64"

definition wc4 :: "string \<Rightarrow> nat" where
  "wc4 s = (code (s ! 0) mod 8) * 262144 + (code (s ! 1) mod 64) * 4096
     + (code (s ! 2) mod 64) * 64 + code (s ! 3) mod 64"

definition my_mb_wc_utf8mb4 :: "string \<Rightarrow> int \<times> nat" where
  "my_mb_wc_utf8mb4 s =
     (if s = [] then (MY_CS_TOOSMALL, 0)
      else
        let c = code (s ! 0) in
        if c < 0x80 then (1, c)
        else if c < 0xe0 then
          (if c < 0xc2 then (MY_CS_ILSEQ, 0)
           else if length s < 2 then (MY_CS_TOOSMALL2, 0)
           else if \<not> is_cont (s ! 1) then (MY_CS_ILSEQ, 0)
           else (2, (c mod 32) * 64 + code (s ! 1) mod 64))
        else if c < 0xf0 then
          (if length s < 3 then (MY_CS_TOOSMALL3, 0)
           else if \<not> is_cont (s ! 1) \<or> \<not> is_cont (s ! 2) then (MY_CS_ILSEQ, 0)
           else if wc3 s < 0x800 then (MY_CS_ILSEQ, wc3 s)
           else if 0xd800 \<le> wc3 s \<and> wc3 s \<le> 0xdfff then (MY_CS_ILSEQ, wc3 s)
           else (3, wc3 s))
        else if length s < 4 then (MY_CS_TOOSMALL4, 0)
        else if c div 8 \<noteq> 30 \<or> \<not> is_cont (s ! 1) \<or> \<not> is_cont (s ! 2) \<or> \<not> is_cont (s ! 3)
          then (MY_CS_ILSEQ, 0)
        else if wc4 s < 0x10000 \<or> wc4 s > 0x10ffff then (MY_CS_ILSEQ, wc4 s) else (4, wc4 s))"

section \<open>Character classes\<close>

definition uctype_page00 :: "nat list" where
  "uctype_page00 = [
    32, 32, 32, 32, 32, 32, 32, 32, 32, 32, 32, 32, 32, 32, 32, 32, 32, 32, 32, 32, 32, 32, 32, 32,
    32, 32, 32, 32, 32, 32, 32, 32, 8, 16, 16, 16, 16, 16, 16, 16, 16, 16, 16, 16, 16, 16, 16, 16,
    4, 4, 4, 4, 4, 4, 4, 4, 4, 4, 16, 16, 16, 16, 16, 16, 16, 129, 129, 129, 129, 129, 129, 129,
    129, 129, 129, 129, 129, 129, 129, 129, 129, 129, 129, 129, 129, 129, 129, 129, 129, 129, 129, 16, 16, 16, 16, 16,
    16, 130, 130, 130, 130, 130, 130, 130, 130, 130, 130, 130, 130, 130, 130, 130, 130, 130, 130, 130, 130, 130, 130, 130,
    130, 130, 130, 16, 16, 16, 16, 32, 32, 32, 32, 32, 32, 32, 32, 32, 32, 32, 32, 32, 32, 32, 32, 32,
    32, 32, 32, 32, 32, 32, 32, 32, 32, 32, 32, 32, 32, 32, 32, 32, 8, 16, 16, 16, 16, 16, 16, 16,
    16, 16, 2, 16, 16, 32, 16, 16, 16, 16, 20, 20, 16, 2, 16, 16, 16, 20, 2, 16, 20, 20, 20, 16,
    1, 1, 1, 1, 1, 1, 1, 1, 1, 1, 1, 1, 1, 1, 1, 1, 1, 1, 1, 1, 1, 1, 1, 16,
    1, 1, 1, 1, 1, 1, 1, 2, 2, 2, 2, 2, 2, 2, 2, 2, 2, 2, 2, 2, 2, 2, 2, 2,
    2, 2, 2, 2, 2, 2, 2, 16, 2, 2, 2, 2, 2, 2, 2, 2]"

definition my_mb_ctype_mb :: "(string \<Rightarrow> int \<times> nat) \<Rightarrow> (nat \<Rightarrow> nat) \<Rightarrow> string \<Rightarrow> nat \<times> int" where
  "my_mb_ctype_mb mb_wc pages s =
     (let (res, wc) = mb_wc s in
      (if res \<le> 0 \<or> wc > 0xffff then 0
       else if wc < 256 then uctype_page00 ! wc else pages wc, res))"

definition ctype_latin1 :: "nat list" where
  "ctype_latin1 = [
    0, 32, 32, 32, 32, 32, 32, 32, 32, 32, 40, 40, 40, 40, 40, 32, 32, 32, 32, 32, 32, 32, 32, 32,
    32, 32, 32, 32, 32, 32, 32, 32, 32, 72, 16, 16, 16, 16, 16, 16, 16, 16, 16, 16, 16, 16, 16, 16,
    16, 132, 132, 132, 132, 132, 132, 132, 132, 132, 132, 16, 16, 16, 16, 16, 16, 16, 129, 129, 129, 129, 129, 129,
    1, 1, 1, 1, 1, 1, 1, 1, 1, 1, 1, 1, 1, 1, 1, 1, 1, 1, 1, 1, 16, 16, 16, 16,
    16, 16, 130, 130, 130, 130, 130, 130, 2, 2, 2, 2, 2, 2, 2, 2, 2, 2, 2, 2, 2, 2, 2, 2,
    2, 2, 2, 2, 16, 16, 16, 16, 32, 16, 0, 16, 2, 16, 16, 16, 16, 16, 16, 1, 16, 1, 0, 1,
    0, 0, 16, 16, 16, 16, 16, 16, 16, 16, 16, 2, 16, 2, 0, 2, 1, 72, 16, 16, 16, 16, 16, 16,
    16, 16, 16, 16, 16, 16, 16, 16, 16, 16, 16, 16, 16, 16, 16, 16, 16, 16, 16, 16, 16, 16, 16, 16,
    16, 1, 1, 1, 1, 1, 1, 1, 1, 1, 1, 1, 1, 1, 1, 1, 1, 1, 1, 1, 1, 1, 1, 1,
    16, 1, 1, 1, 1, 1, 1, 1, 2, 2, 2, 2, 2, 2, 2, 2, 2, 2, 2, 2, 2, 2, 2, 2,
    2, 2, 2, 2, 2, 2, 2, 2, 16, 2, 2, 2, 2, 2, 2, 2, 2]"

definition my_mb_ctype_8bit :: "nat list \<Rightarrow> string \<Rightarrow> nat \<times> int" where
  "my_mb_ctype_8bit table s =
     (if s = [] then (0, MY_CS_TOOSMALL) else (table ! (code (s ! 0) + 1), 1))"

text \<open>The two classifiers the driver is used with: the Unicode transport and the ANSI default.\<close>

definition ctype_utf8mb4 :: "(nat \<Rightarrow> nat) \<Rightarrow> string \<Rightarrow> nat \<times> int" where
  "ctype_utf8mb4 pages = my_mb_ctype_mb my_mb_wc_utf8mb4 pages"

definition ctype_8bit_latin1 :: "string \<Rightarrow> nat \<times> int" where
  "ctype_8bit_latin1 = my_mb_ctype_8bit ctype_latin1"

section \<open>What the driver relies on\<close>

text \<open>
  The contract of a classifier: a character that is reported complete lies within the bytes
  passed in, an empty input is reported as too small, and ASCII bytes are single characters.
\<close>

locale classifier =
  fixes cs :: "string \<Rightarrow> nat \<times> int"
  assumes whole: "0 < snd (cs s) \<Longrightarrow> snd (cs s) \<le> int (length s)"
    and nothing: "snd (cs []) < 0"
    and ascii: "s \<noteq> [] \<Longrightarrow> code (s ! 0) < 128 \<Longrightarrow> snd (cs s) = 1"
begin

lemma progress: "s \<noteq> [] \<Longrightarrow> code (s ! 0) < 128 \<Longrightarrow> nat \<bar>snd (cs s)\<bar> = 1"
  by (simp add: ascii)

end

lemma fst_if_le:
  "(P \<Longrightarrow> fst x \<le> k) \<Longrightarrow> (\<not> P \<Longrightarrow> fst y \<le> k) \<Longrightarrow> fst (if P then x else y) \<le> (k :: int)"
  by simp

lemma utf8mb4_bound: "fst (my_mb_wc_utf8mb4 s) \<le> int (length s)"
proof (cases "s = []")
  case False
  then have s: "1 \<le> length s" by (cases s) auto
  show ?thesis
    unfolding my_mb_wc_utf8mb4_def Let_def MY_CS_defs
    by (intro fst_if_le; use s in \<open>simp only: fst_conv; linarith\<close>)
qed (simp add: my_mb_wc_utf8mb4_def MY_CS_defs)

lemma utf8mb4_ascii: "s \<noteq> [] \<Longrightarrow> code (s ! 0) < 128 \<Longrightarrow> my_mb_wc_utf8mb4 s = (1, code (s ! 0))"
  by (simp add: my_mb_wc_utf8mb4_def)

interpretation utf8mb4: classifier "ctype_utf8mb4 pages"
proof unfold_locales
  fix s
  show "snd (ctype_utf8mb4 pages s) \<le> int (length s)"
    using utf8mb4_bound [of s]
    by (simp add: ctype_utf8mb4_def my_mb_ctype_mb_def split_beta Let_def)
  show "snd (ctype_utf8mb4 pages []) < 0"
    by (simp add: ctype_utf8mb4_def my_mb_ctype_mb_def my_mb_wc_utf8mb4_def MY_CS_defs)
  assume "s \<noteq> []" "code (s ! 0) < 128"
  then show "snd (ctype_utf8mb4 pages s) = 1"
    by (simp add: ctype_utf8mb4_def my_mb_ctype_mb_def utf8mb4_ascii)
qed

interpretation latin1: classifier ctype_8bit_latin1
  by unfold_locales
    (auto simp: ctype_8bit_latin1_def my_mb_ctype_8bit_def MY_CS_defs neq_Nil_conv)

end
