(* ===== verification/WString.thy ===== *)
theory WString
  imports Transcode Charset
begin

unbundle bit_operations_syntax

text \<open>
  \<^verbatim>\<open>util/stringutil.cc\<close> for the build in which \<open>SQLWCHAR\<close> is a 16-bit unit (Windows
  and the unixODBC builds): the UTF-8 / wide conversions the Unicode entry points use, the
  wide-string helpers of the installer, and the quoting of connection-string values.

  A wide string is the list of units from the pointer on; a unit 0, or the end of the list,
  is its terminator. A destination buffer is the list of its cells, and a store outside it is
  \<open>None\<close>.
\<close>

section \<open>Stores into buffers\<close>

definition poke :: "'a list \<Rightarrow> nat \<Rightarrow> 'a \<Rightarrow> 'a list option" where
  "poke mem k v = (if k < length mem then Some (mem[k := v]) else None)"

lemma poke_Some [bufsimps]: "poke mem k v = Some m \<longleftrightarrow> k < length mem \<and> m = mem[k := v]"
  by (auto simp: poke_def)

lemma poke_None [bufsimps]: "poke mem k v = None \<longleftrightarrow> length mem \<le> k"
  by (auto simp: poke_def)

section \<open>Wide strings\<close>

fun wcslen :: "u16 list \<Rightarrow> nat" where
  "wcslen [] = 0"
| "wcslen (c # cs) = (if c = 0 then 0 else Suc (wcslen cs))"

definition sqlwcharlen :: "u16 list option \<Rightarrow> nat" where
  "sqlwcharlen wstr = (case wstr of None \<Rightarrow> 0 | Some s \<Rightarrow> wcslen s)"

definition wtop :: "u16 list \<Rightarrow> u16" where
  "wtop s = (case s of [] \<Rightarrow> 0 | c # _ \<Rightarrow> c)"

text \<open>\<open>c -= ('a' - 'A')\<close> for every unit from \<open>'a'\<close> on.\<close>

definition wupper :: "u16 \<Rightarrow> u16" where
  "wupper c = (if c \<ge> 97 then c - 32 else c)"

fun sqlwcharcasecmp :: "u16 list \<Rightarrow> u16 list \<Rightarrow> int" where
  "sqlwcharcasecmp s1 s2 =
     (case (s1, s2) of
        (c1 # r1, c2 # r2) \<Rightarrow>
          if c1 \<noteq> 0 \<and> c2 \<noteq> 0 then
            (if wupper c1 \<noteq> wupper c2 then 1 else sqlwcharcasecmp r1 r2)
          else if c1 \<noteq> c2 then 1 else 0
      | _ \<Rightarrow> if wtop s1 \<noteq> wtop s2 then 1 else 0)"

declare sqlwcharcasecmp.simps [simp del]

text \<open>The offset of the first occurrence, if the terminator does not come first.\<close>

fun sqlwcharchr :: "u16 list \<Rightarrow> u16 \<Rightarrow> nat option" where
  "sqlwcharchr [] w = None"
| "sqlwcharchr (c # cs) w =
     (if c = 0 then None else if c = w then Some 0 else map_option Suc (sqlwcharchr cs w))"

text \<open>\<open>charlen\<close> is \<open>None\<close> for \<open>SQL_NTS\<close>. The copy of the units and the terminator after them.\<close>

definition sqlwchardup :: "u16 list \<Rightarrow> nat option \<Rightarrow> u16 list" where
  "sqlwchardup wstr charlen =
     (let chars = (case charlen of None \<Rightarrow> wcslen wstr | Some n \<Rightarrow> n) in take chars wstr @ [0])"

fun wtoul_loop :: "u16 list \<Rightarrow> u64 \<Rightarrow> u64" where
  "wtoul_loop [] res = res"
| "wtoul_loop (c # cs) res =
     (if c = 0 \<or> c < 48 \<or> c > 57 then res else wtoul_loop cs (res * 10 + ucast (c - 48)))"

definition sqlwchartoul :: "u16 list option \<Rightarrow> u64" where
  "sqlwchartoul wstr = (case wstr of None \<Rightarrow> 0 | Some s \<Rightarrow> wtoul_loop s 0)"

text \<open>
  \<open>sqlwcharfromul\<close>: the first loop counts the digits, the second stores them from the last
  to the first; the count is the only place that is known to be free in the buffer.
\<close>

fun count_digits :: "nat \<Rightarrow> nat" where
  "count_digits v1 = (if v1 > 0 then Suc (count_digits (v1 div 10)) else 0)"

declare count_digits.simps [simp del]

fun store_digits :: "nat \<Rightarrow> nat \<Rightarrow> u16 list \<Rightarrow> u16 list option" where
  "store_digits v1 chars mem =
     (if v1 > 0 then
        (if chars = 0 then None
         else Option.bind (poke mem (chars - 1) (48 + of_nat (v1 mod 10)))
                (store_digits (v1 div 10) (chars - 1)))
      else Some mem)"

declare store_digits.simps [simp del]

definition sqlwcharfromul :: "u16 list \<Rightarrow> u64 \<Rightarrow> u16 list option" where
  "sqlwcharfromul mem v =
     Option.bind (poke mem (count_digits (unat v)) 0)
       (store_digits (unat v) (count_digits (unat v)))"

text \<open>
  The copy loop of \<open>sqlwcharncat2\<close>: \<open>while (*src && *n && (*n)--) *dest++ = *src++\<close>. The
  state is the memory, the offset of \<open>dest\<close> and the remaining count.
\<close>

fun ncat2_loop :: "u16 list \<Rightarrow> nat \<Rightarrow> u16 list \<Rightarrow> nat \<Rightarrow> (u16 list \<times> nat \<times> nat) option" where
  "ncat2_loop mem k [] n = Some (mem, k, n)"
| "ncat2_loop mem k (c # cs) n =
     (if c = 0 \<or> n = 0 then Some (mem, k, n)
      else Option.bind (poke mem k c) (\<lambda>m. ncat2_loop m (Suc k) cs (n - 1)))"

text \<open>The memory, the count left and the value returned. \<open>n\<close> is \<open>None\<close> for a null pointer.\<close>

definition sqlwcharncat2 :: "u16 list \<Rightarrow> u16 list \<Rightarrow> nat option \<Rightarrow> (u16 list \<times> nat option \<times> nat) option" where
  "sqlwcharncat2 mem src n =
     (case n of
        None \<Rightarrow> Some (mem, None, 0)
      | Some n0 \<Rightarrow>
          if n0 = 0 then Some (mem, Some 0, 0)
          else
            let orig = wcslen mem in
            case ncat2_loop mem orig src n0 of
              None \<Rightarrow> None
            | Some (m, k, n1) \<Rightarrow>
                if n1 \<noteq> 0 then map_option (\<lambda>m'. (m', Some n1, k - orig)) (poke m k 0)
                else if k = 0 then None
                else map_option (\<lambda>m'. (m', Some n1, k - orig)) (poke m (k - 1) 0))"

text \<open>
  The copy loop of \<open>sqlwcharncpy\<close>: \<open>while (*src && n--)\<close>. The decrement is made whenever a
  source unit is left, so a count of 0 wraps to the largest \<open>size_t\<close>.
\<close>

fun ncpy_loop :: "u16 list \<Rightarrow> nat \<Rightarrow> u16 list \<Rightarrow> u64 \<Rightarrow> (u16 list \<times> nat \<times> u64) option" where
  "ncpy_loop mem k [] n = Some (mem, k, n)"
| "ncpy_loop mem k (c # cs) n =
     (if c = 0 then Some (mem, k, n)
      else if n = 0 then Some (mem, k, n - 1)
      else Option.bind (poke mem k c) (\<lambda>m. ncpy_loop m (Suc k) cs (n - 1)))"

definition sqlwcharncpy :: "u16 list \<Rightarrow> u16 list \<Rightarrow> u64 \<Rightarrow> u16 list option" where
  "sqlwcharncpy mem src n =
     (case ncpy_loop mem 0 src n of
        None \<Rightarrow> None
      | Some (m, k, n1) \<Rightarrow>
          if n1 \<noteq> 0 then poke m k 0 else if k = 0 then None else poke m (k - 1) 0)"

text \<open>\<open>len\<close> is \<open>None\<close> for \<open>(size_t)-1\<close>.\<close>

definition myodbc_strlwr :: "string \<Rightarrow> nat option \<Rightarrow> string" where
  "myodbc_strlwr target len =
     (let n = (case len of None \<Rightarrow> length target | Some n \<Rightarrow> n) in
      map tolower_c (take n target) @ drop n target)"

section \<open>Conversions between UTF-8 and wide strings\<close>

definition MAX_BYTES_PER_UTF8_CP :: nat where
  "MAX_BYTES_PER_UTF8_CP = 4"

text \<open>
  The loop of \<open>sqlwchar_as_utf8_ext\<close>: \<open>n\<close> units are left before \<open>str_end\<close>; the bytes stored
  so far and the flag for four-byte characters are carried along.
\<close>

function as_utf8_loop :: "nat \<Rightarrow> u16 list \<Rightarrow> u8 list \<Rightarrow> bool \<Rightarrow> (u8 list \<times> bool) option" where
  "as_utf8_loop n str u8 mb4 =
     (if n = 0 then Some (u8, mb4)
      else case utf16toutf32 str of
        None \<Rightarrow> None
      | Some (consumed, u32) \<Rightarrow>
          if consumed = 0 then Some (u8, mb4)
          else as_utf8_loop (n - consumed) (drop consumed str)
                 (u8 @ snd (utf32toutf8 u32)) (mb4 \<or> fst (utf32toutf8 u32) = 4))"
  by pat_completeness auto
termination
  by (relation "measure fst") auto

declare as_utf8_loop.simps [simp del]

definition sqlwchar_as_utf8_ext :: "u16 list option \<Rightarrow> int option \<Rightarrow> (u8 list \<times> bool) option" where
  "sqlwchar_as_utf8_ext str len =
     (let n = (case len of None \<Rightarrow> int (sqlwcharlen str) | Some l \<Rightarrow> l) in
      case str of
        None \<Rightarrow> Some ([], False)
      | Some s \<Rightarrow> if n \<le> 0 then Some ([], False) else as_utf8_loop (nat n) s [] False)"

text \<open>\<open>SQL_NTS\<close> is -3. The bytes with the terminator the function stores, or a null pointer.\<close>

definition sqlwchar_as_utf8 :: "u16 list option \<Rightarrow> int \<Rightarrow> u8 list option option" where
  "sqlwchar_as_utf8 str len =
     (let n = (if len = -3 then int (sqlwcharlen str) else len) in
      case str of
        None \<Rightarrow> Some None
      | Some s \<Rightarrow>
          if n \<le> 0 then Some None
          else map_option (\<lambda>(bs, _). Some (bs @ [0])) (sqlwchar_as_utf8_ext str (Some n)))"

function from_utf8_loop :: "nat \<Rightarrow> nat \<Rightarrow> u8 list \<Rightarrow> u16 list \<Rightarrow> u16 list option" where
  "from_utf8_loop left out_max inp out =
     (if left = 0 \<or> out_max \<le> length out then Some out
      else case utf8toutf32 inp of
        None \<Rightarrow> None
      | Some (consumed, u32) \<Rightarrow>
          if consumed = 0 then Some out
          else from_utf8_loop (left - consumed) out_max (drop consumed inp)
                 (out @ snd (utf32toutf16 u32)))"
  by pat_completeness auto
termination
  by (relation "measure fst") auto

declare from_utf8_loop.simps [simp del]

text \<open>The units stored, the terminator last, and the count as a \<open>SQLSMALLINT\<close>.\<close>

definition utf8_as_sqlwchar :: "nat \<Rightarrow> u8 list \<Rightarrow> nat \<Rightarrow> (u16 list \<times> int) option" where
  "utf8_as_sqlwchar out_max inp in_len =
     map_option (\<lambda>out. (out @ [0], sint (of_nat (length out) :: u16)))
       (from_utf8_loop in_len out_max inp [])"

text \<open>
  \<open>wchar_t_as_sqlwchar\<close> where \<open>wchar_t\<close> is wider than \<open>SQLWCHAR\<close>: at most 1023 characters.
\<close>

definition wchar_t_as_sqlwchar :: "u32 list \<Rightarrow> nat \<Rightarrow> u16 list" where
  "wchar_t_as_sqlwchar wfrom len =
     concat (map (\<lambda>c. snd (utf32toutf16 c)) (take (min len 1023) wfrom)) @ [0]"

section \<open>Connection-string values\<close>

definition escape_brackets :: "u16 list \<Rightarrow> bool \<Rightarrow> u16 list" where
  "escape_brackets val add_start_end =
     (if \<not> add_start_end \<and> (val = [] \<or> 125 \<notin> set val) then val
      else
        (if add_start_end then [123] else []) @
        concat (map (\<lambda>c. if c = 125 then [125, 125] else [c]) val) @
        (if add_start_end then [125] else []))"

section \<open>The conversions\<close>

lemma utf8_length: "fst (utf32toutf8 i) = length (snd (utf32toutf8 i))"
  by (simp add: utf32toutf8_def)

lemma utf16_length: "fst (utf32toutf16 i) = length (snd (utf32toutf16 i))"
  by (simp add: utf32toutf16_def Let_def)

lemma utf8_length_bounds: "length (snd (utf32toutf8 i)) \<le> 4"
  by (simp add: utf32toutf8_def)

lemma utf8_length_pos: "i < 0x10ffff \<Longrightarrow> 0 < length (snd (utf32toutf8 i))"
  by (simp add: utf32toutf8_def)

lemma utf16_length_bounds: "length (snd (utf32toutf16 i)) \<le> 2"
  by (simp add: utf32toutf16_def Let_def)

lemma utf8_length_bmp: "i < 0x10000 \<Longrightarrow> fst (utf32toutf8 i) \<noteq> 4"
  by (simp add: utf32toutf8_def)

lemma utf16toutf32_consumed: "utf16toutf32 s = Some (n, u) \<Longrightarrow> n \<le> 2"
  by (auto simp: utf16toutf32_def Let_def split: list.splits if_splits)

text \<open>A unit that stands for itself: a BMP character that both codecs accept.\<close>

definition bmp_unit :: "u16 \<Rightarrow> bool" where
  "bmp_unit u \<longleftrightarrow> u < 0xffff \<and> (u < 0xd800 \<or> 0xdbff < u)"

lemma bmp_unit_codec:
  assumes "bmp_unit u"
  shows "utf16toutf32 (u # rest) = Some (1, ucast u)" "utf32toutf16 (ucast u) = (1, [u])"
    "(ucast u :: u32) < 0xffff"
proof -
  have "unat (ucast u :: u32) = unat u" by simp
  moreover have "unat u < 65535 \<and> (unat u < 55296 \<or> 56319 < unat u)"
    using assms by (simp add: bmp_unit_def word_less_nat_alt)
  ultimately have lt: "(ucast u :: u32) < 0xffff" and
    "(ucast u :: u32) < 0xd800 \<or> 0xdbff < (ucast u :: u32)"
    by (simp_all add: word_less_nat_alt)
  then show "(ucast u :: u32) < 0xffff" "utf16toutf32 (u # rest) = Some (1, ucast u)"
      "utf32toutf16 (ucast u) = (1, [u])"
    using utf16_bmp_roundtrip [of "ucast u" rest] by (simp_all add: ucast_down_ucast_id is_down)
qed

definition utf8_of_units :: "u16 list \<Rightarrow> u8 list" where
  "utf8_of_units us = concat (map (\<lambda>u. snd (utf32toutf8 (ucast u))) us)"

lemma as_utf8_loop_bmp:
  "list_all bmp_unit us \<Longrightarrow>
     as_utf8_loop (length us) (us @ rest) bs mb4 = Some (bs @ utf8_of_units us, mb4)"
proof (induction us arbitrary: bs)
  case Nil
  then show ?case by (simp add: as_utf8_loop.simps utf8_of_units_def)
next
  case (Cons u us)
  note c = bmp_unit_codec(1) [of u "us @ rest"] bmp_unit_codec(2,3) [of u]
  have "(ucast u :: u32) < 0x10000"
    using c(3) Cons.prems by (simp add: word_less_nat_alt)
  then have "fst (utf32toutf8 (ucast u)) \<noteq> 4" by (rule utf8_length_bmp)
  with Cons c(1) show ?case
    by (subst as_utf8_loop.simps) (simp add: utf8_of_units_def)
qed

lemma from_utf8_loop_bmp:
  "list_all bmp_unit us \<Longrightarrow> length out + length us \<le> out_max \<Longrightarrow>
     from_utf8_loop (length (utf8_of_units us)) out_max (utf8_of_units us @ rest) out = Some (out @ us)"
proof (induction us arbitrary: out)
  case Nil
  then show ?case by (simp add: from_utf8_loop.simps utf8_of_units_def)
next
  case (Cons u us)
  define bs where "bs = snd (utf32toutf8 (ucast u))"
  note c = bmp_unit_codec [of u]
  have lt: "(ucast u :: u32) < 0x10ffff"
    using c(3) Cons.prems by (simp add: word_less_nat_alt)
  have bs: "0 < length bs" unfolding bs_def using lt by (rule utf8_length_pos)
  have dec: "utf8toutf32 (bs @ utf8_of_units us @ rest) = Some (length bs, ucast u)"
    using utf8_roundtrip [OF lt] by (simp add: bs_def utf8_length)
  have eq: "utf8_of_units (u # us) = bs @ utf8_of_units us"
    by (simp add: utf8_of_units_def bs_def)
  have "from_utf8_loop (length (utf8_of_units (u # us))) out_max (utf8_of_units (u # us) @ rest) out
      = from_utf8_loop (length (utf8_of_units us)) out_max (utf8_of_units us @ rest) (out @ [u])"
    using bs dec Cons.prems c(2) unfolding eq by (subst from_utf8_loop.simps) simp
  also have "\<dots> = Some ((out @ [u]) @ us)"
    using Cons.prems by (intro Cons.IH) auto
  finally show ?case by simp
qed

lemma wcslen_append_NUL: "0 \<notin> set us \<Longrightarrow> wcslen (us @ 0 # rest) = length us"
  by (induction us) auto

text \<open>C38: a wide string that is not empty, has fewer than 2^15 units and no null unit inside, and whose
  units are all characters of the basic plane (below U+FFFF, no high surrogates), comes back as it was, with its
  terminator and its length, when it is converted to UTF-8 by \<open>sqlwchar_as_utf8\<close> (called with
  \<open>SQL_NTS\<close>) and back by \<open>utf8_as_sqlwchar\<close> into a buffer that has room for its units. The bound on
  the length is that of \<open>SQLSMALLINT\<close>, in which the length is returned.\<close>

theorem wide_utf8_roundtrip:
  assumes "list_all bmp_unit us" "us \<noteq> []" "0 \<notin> set us" "length us \<le> out_max" "length us < 2 ^ 15"
  shows "\<exists>bs. sqlwchar_as_utf8 (Some (us @ [0])) (-3) = Some (Some (bs @ [0])) \<and>
           utf8_as_sqlwchar out_max (bs @ [0]) (length bs) = Some (us @ [0], int (length us))"
proof -
  have len: "sqlwcharlen (Some (us @ [0])) = length us"
    using assms(3) by (simp add: sqlwcharlen_def wcslen_append_NUL)
  have "sqlwchar_as_utf8 (Some (us @ [0])) (-3) = Some (Some (utf8_of_units us @ [0]))"
    using assms as_utf8_loop_bmp [OF assms(1), of "[0]" "[]" False]
    by (simp add: sqlwchar_as_utf8_def sqlwchar_as_utf8_ext_def len)
  moreover have "sint (of_nat (length us) :: u16) = int (length us)"
    using assms(5) by (simp add: signed_of_nat signed_take_bit_int_eq_self)
  then have "utf8_as_sqlwchar out_max (utf8_of_units us @ [0]) (length (utf8_of_units us)) =
      Some (us @ [0], int (length us))"
    using from_utf8_loop_bmp [OF assms(1), of "[]" out_max "[0]"] assms(4)
    by (simp add: utf8_as_sqlwchar_def)
  ultimately show ?thesis by blast
qed

theorem wide_utf8_roundtrip_witness:
  "\<exists>bs. sqlwchar_as_utf8 (Some ([0x61, 0x20ac] @ [0])) (-3) = Some (Some (bs @ [0])) \<and>
     utf8_as_sqlwchar 2 (bs @ [0]) (length bs) = Some ([0x61, 0x20ac] @ [0], int (length [0x61, 0x20ac :: u16]))"
  by (rule wide_utf8_roundtrip) (simp_all add: bmp_unit_def)

lemma from_utf8_loop_length:
  "from_utf8_loop left out_max inp out = Some r \<Longrightarrow> length out \<le> out_max + 1 \<Longrightarrow> length r \<le> out_max + 1"
proof (induction left out_max inp out rule: from_utf8_loop.induct)
  case (1 left out_max inp out)
  show ?case
  proof (cases "left = 0 \<or> out_max \<le> length out")
    case True
    with 1 show ?thesis by (simp add: from_utf8_loop.simps)
  next
    case False
    with "1.prems" obtain c u where d: "utf8toutf32 inp = Some (c, u)"
      by (auto simp: from_utf8_loop.simps [of left] split: option.splits)
    show ?thesis
    proof (cases "c = 0")
      case True
      with 1 False d show ?thesis by (simp add: from_utf8_loop.simps [of left])
    next
      case c: False
      have "length (out @ snd (utf32toutf16 u)) \<le> out_max + 1"
        using False utf16_length_bounds [of u] by simp
      then show ?thesis
        using "1.IH" [OF False d refl c] "1.prems"(1) False d c
        by (simp add: from_utf8_loop.simps [of left])
    qed
  qed
qed

text \<open>\<open>utf8_as_sqlwchar\<close> stores at most \<open>out_max + 2\<close> units, the last of them the terminator. The
  bound is that of the code: a surrogate pair may start in the last of the \<open>out_max\<close> places, and
  the terminator comes after it.\<close>

theorem utf8_as_sqlwchar_stores:
  assumes "utf8_as_sqlwchar out_max inp in_len = Some (units, n)"
  shows "length units \<le> out_max + 2 \<and> last units = 0"
  using assms from_utf8_loop_length [of in_len out_max inp "[]"]
  by (auto simp: utf8_as_sqlwchar_def)

theorem utf8_as_sqlwchar_stores_witness:
  "utf8_as_sqlwchar 1 [0xf0, 0x90, 0x80, 0x80] 4 = Some ([0xd800, 0xdc00, 0], 2) \<and>
   length [0xd800, 0xdc00, 0 :: u16] \<le> 1 + 2"
proof -
  have "utf8_as_sqlwchar 1 [0xf0, 0x90, 0x80, 0x80] 4 = Some ([0xd800, 0xdc00, 0], 2)" by code_simp
  with utf8_as_sqlwchar_stores [OF this] show ?thesis by blast
qed

lemma as_utf8_loop_length:
  "as_utf8_loop n str bs mb4 = Some (r, f) \<Longrightarrow> length r \<le> length bs + MAX_BYTES_PER_UTF8_CP * n"
proof (induction n str bs mb4 rule: as_utf8_loop.induct)
  case (1 n str bs mb4)
  show ?case
  proof (cases "n = 0")
    case True
    with 1 show ?thesis by (simp add: as_utf8_loop.simps)
  next
    case False
    with "1.prems" obtain c u where d: "utf16toutf32 str = Some (c, u)"
      by (auto simp: as_utf8_loop.simps [of n] split: option.splits)
    show ?thesis
    proof (cases "c = 0")
      case True
      with 1 False d show ?thesis by (simp add: as_utf8_loop.simps [of n])
    next
      case c: False
      have "length r \<le> length (bs @ snd (utf32toutf8 u)) + MAX_BYTES_PER_UTF8_CP * (n - c)"
        using "1.IH" [OF False d refl c] "1.prems" False d c
        by (simp add: as_utf8_loop.simps [of n])
      also have "\<dots> \<le> length bs + 4 + 4 * (n - 1)"
        using utf8_length_bounds [of u] c by (simp add: MAX_BYTES_PER_UTF8_CP_def)
      finally show ?thesis using False by (simp add: MAX_BYTES_PER_UTF8_CP_def)
    qed
  qed
qed

subsection \<open>Decimal numbers\<close>

text \<open>The digits of a number, most significant first; none for 0.\<close>

fun wdigits :: "nat \<Rightarrow> u16 list" where
  "wdigits v = (if v > 0 then wdigits (v div 10) @ [48 + of_nat (v mod 10)] else [])"

declare wdigits.simps [simp del]

lemma length_wdigits: "length (wdigits v) = count_digits v"
  by (induction v rule: wdigits.induct) (simp add: wdigits.simps count_digits.simps)

lemma store_digits_eq:
  "length mem \<ge> count_digits v \<Longrightarrow> 
     store_digits v (count_digits v) mem = Some (wdigits v @ drop (count_digits v) mem)"
proof (induction v arbitrary: mem rule: wdigits.induct)
  case (1 v)
  show ?case
  proof (cases "v > 0")
    case True
    let ?k = "count_digits (v div 10)"
    let ?m = "mem[?k := 48 + of_nat (v mod 10)]"
    have k: "count_digits v = Suc ?k" using True by (simp add: count_digits.simps [of v])
    with "1.prems" have "store_digits (v div 10) ?k ?m = Some (wdigits (v div 10) @ drop ?k ?m)"
      by (intro "1.IH" [OF True]) simp
    moreover have "drop ?k ?m = (48 + of_nat (v mod 10)) # drop (Suc ?k) mem"
      using "1.prems" k by (subst Cons_nth_drop_Suc [symmetric]) auto
    ultimately show ?thesis
      using True k "1.prems" by (simp add: store_digits.simps [of v] wdigits.simps [of v] poke_def)
  qed (simp add: store_digits.simps wdigits.simps count_digits.simps)
qed

lemma sqlwcharfromul_eq:
  assumes "count_digits (unat v) < length mem"
  shows "sqlwcharfromul mem v =
    Some (wdigits (unat v) @ 0 # drop (Suc (count_digits (unat v))) mem)"
  using assms store_digits_eq [of "unat v" "mem[count_digits (unat v) := 0]"]
  by (simp add: sqlwcharfromul_def poke_def Cons_nth_drop_Suc [symmetric])

lemma digit_unit:
  assumes "d < 10"
  shows "(48 + of_nat d :: u16) \<noteq> 0" "\<not> (48 + of_nat d :: u16) < 48" "\<not> (48 + of_nat d :: u16) > 57"
    "(ucast (48 + of_nat d - 48 :: u16) :: u64) = of_nat d"
proof -
  have d: "unat (of_nat d :: u16) = d" using assms by (simp add: unsigned_of_nat take_bit_nat_eq_self)
  then have u: "unat (48 + of_nat d :: u16) = 48 + d" using assms by (subst unat_add_lem [THEN iffD1]) auto
  then show "(48 + of_nat d :: u16) \<noteq> 0" by (metis add_is_0 unsigned_0 zero_neq_numeral)
  show "\<not> (48 + of_nat d :: u16) < 48" "\<not> (48 + of_nat d :: u16) > 57"
    using assms u by (simp_all add: word_less_nat_alt)
  show "(ucast (48 + of_nat d - 48 :: u16) :: u64) = of_nat d"
    using assms by (simp add: word_unat_eq_iff unat_ucast_mod d unsigned_of_nat take_bit_nat_eq_self)
qed

lemma wtoul_wdigits:
  "wtoul_loop (wdigits v @ ds) r = wtoul_loop ds (r * 10 ^ count_digits v + of_nat v)"
proof (induction v arbitrary: ds r rule: wdigits.induct)
  case (1 v)
  show ?case
  proof (cases "v > 0")
    case True
    have "v mod 10 < 10" by simp
    note d = digit_unit [OF this]
    have "(of_nat v :: u64) = of_nat (10 * (v div 10) + v mod 10)" by simp
    also have "\<dots> = 10 * of_nat (v div 10) + of_nat (v mod 10)" by (simp only: of_nat_add of_nat_mult) simp
    finally have v: "(of_nat v :: u64) = 10 * of_nat (v div 10) + of_nat (v mod 10)" .
    show ?thesis
      using True "1.IH" [OF True] d
      by (simp add: wdigits.simps [of v] count_digits.simps [of v] v algebra_simps)
  qed (simp add: wdigits.simps count_digits.simps)
qed

text \<open>An unsigned long written by \<open>sqlwcharfromul\<close> into a buffer with a place for the terminator
  after the digits is read back by \<open>sqlwchartoul\<close> as the same 64-bit value, and no store leaves the
  buffer.\<close>

theorem ul_roundtrip:
  assumes "count_digits (unat v) < length mem"
  shows "\<exists>mem'. sqlwcharfromul mem v = Some mem' \<and> sqlwchartoul (Some mem') = v \<and> length mem' = length mem"
proof -
  let ?m = "wdigits (unat v) @ 0 # drop (Suc (count_digits (unat v))) mem"
  have "sqlwchartoul (Some ?m) = v"
    by (simp add: sqlwchartoul_def wtoul_wdigits)
  with sqlwcharfromul_eq [OF assms] assms show ?thesis
    by (simp add: length_wdigits)
qed

theorem ul_roundtrip_witness:
  "\<exists>mem'. sqlwcharfromul (replicate 6 7) 4711 = Some mem' \<and> sqlwchartoul (Some mem') = 4711 \<and>
     length mem' = length (replicate 6 (7 :: u16))"
  by (rule ul_roundtrip) code_simp

subsection \<open>Copies into bounded buffers\<close>

lemma ncpy_loop_eq:
  "0 \<notin> set src \<Longrightarrow> k + min (length src) (unat n) \<le> length mem \<Longrightarrow>
     ncpy_loop mem k src n =
       Some (take k mem @ take (unat n) src @ drop (k + min (length src) (unat n)) mem,
             k + min (length src) (unat n),
             if unat n < length src then - 1 else n - of_nat (length src))"
proof (induction src arbitrary: mem k n)
  case Nil
  then show ?case by simp
next
  case (Cons c cs)
  show ?case
  proof (cases "n = 0")
    case True
    with Cons.prems show ?thesis by simp
  next
    case False
    then have n: "unat (n - 1) = unat n - 1" "0 < unat n"
      by (simp_all add: unat_minus_one unat_gt_0)
    have k: "k < length mem" using Cons.prems n by simp
    have IH: "ncpy_loop (mem[k := c]) (Suc k) cs (n - 1) =
       Some (take (Suc k) (mem[k := c]) @ take (unat (n - 1)) cs @
               drop (Suc k + min (length cs) (unat (n - 1))) (mem[k := c]),
             Suc k + min (length cs) (unat (n - 1)),
             if unat (n - 1) < length cs then - 1 else n - 1 - of_nat (length cs))"
      using Cons.prems n by (intro Cons.IH) auto
    have "take (Suc k) (mem[k := c]) = take k mem @ [c]"
      using k by (simp add: take_Suc_conv_app_nth)
    moreover have "take (unat n) (c # cs) = c # take (unat n - 1) cs"
      using n by (cases "unat n") auto
    moreover have "k + min (length (c # cs)) (unat n) = Suc (k + min (length cs) (unat n - 1))"
      using n by (simp add: min_def) linarith
    ultimately show ?thesis
      using False Cons.prems k IH n by (auto simp: poke_def algebra_simps)
  qed
qed

text \<open>\<open>sqlwcharncpy\<close> into a buffer of exactly \<open>n\<close> units copies a shorter string with its terminator
  and keeps the rest of the buffer, truncates a string of \<open>n\<close> units to \<open>n - 1\<close> of them and the
  terminator, and for every longer string stores outside the buffer: the loop test takes one from \<open>n\<close>
  once more when it is 0, and the terminator then goes one place beyond the end.\<close>

theorem sqlwcharncpy_exact:
  assumes "0 \<notin> set src" "n \<noteq> 0" "length mem = unat n" "length src < 2 ^ 64"
  shows "sqlwcharncpy mem src n =
    (if length src < unat n then Some (src @ 0 # drop (Suc (length src)) mem)
     else if length src = unat n then Some (take (unat n - 1) src @ [0])
     else None)"
proof -
  have n: "0 < unat n" using assms(2) by (simp add: unat_gt_0)
  note loop = ncpy_loop_eq [OF assms(1), of 0 n mem]
  consider (fits) "length src < unat n" | (full) "length src = unat n" | (over) "unat n < length src"
    by linarith
  then show ?thesis
  proof cases
    case fits
    have "unat (of_nat (length src) :: u64) = length src"
      using assms(4) by (simp add: unsigned_of_nat take_bit_nat_eq_self)
    then have "n - of_nat (length src) \<noteq> 0" using fits by auto
    with fits assms(3) loop show ?thesis
      by (simp add: sqlwcharncpy_def poke_def list_update_append Cons_nth_drop_Suc [symmetric])
  next
    case full
    then have "n - of_nat (length src) = 0" by simp
    moreover obtain f x where "src = f @ [x]" using full n by (cases src rule: rev_cases) auto
    ultimately show ?thesis
      using full n assms(3) loop
      by (auto simp add: sqlwcharncpy_def poke_def list_update_append)
  next
    case over
    with assms(3) loop show ?thesis
      by (simp add: sqlwcharncpy_def poke_def)
  qed
qed

theorem sqlwcharncpy_exact_witness:
  "sqlwcharncpy [9, 9] [5, 6, 7] 2 = None \<and> sqlwcharncpy [9, 9, 9, 9] [5, 6] 4 = Some [5, 6, 0, 9]"
  using sqlwcharncpy_exact [of "[5, 6, 7]" 2 "[9, 9]"] sqlwcharncpy_exact [of "[5, 6]" 4 "[9, 9, 9, 9]"]
  by simp

lemma wcslen_le: "wcslen s \<le> length s"
  by (induction s) auto

lemma ncat2_loop_eq:
  "0 \<notin> set src \<Longrightarrow> k + min (length src) n \<le> length mem \<Longrightarrow>
     ncat2_loop mem k src n =
       Some (take k mem @ take n src @ drop (k + min (length src) n) mem,
             k + min (length src) n, n - length src)"
proof (induction src arbitrary: mem k n)
  case Nil
  then show ?case by simp
next
  case (Cons c cs)
  show ?case
  proof (cases "n = 0")
    case True
    with Cons.prems show ?thesis by simp
  next
    case False
    then obtain m where n: "n = Suc m" by (cases n) auto
    have k: "k < length mem" using Cons.prems n by simp
    have "ncat2_loop (mem[k := c]) (Suc k) cs m =
       Some (take (Suc k) (mem[k := c]) @ take m cs @
               drop (Suc k + min (length cs) m) (mem[k := c]),
             Suc k + min (length cs) m, m - length cs)"
      using Cons.prems n by (intro Cons.IH) auto
    moreover have "take (Suc k) (mem[k := c]) = take k mem @ [c]"
      using k by (simp add: take_Suc_conv_app_nth)
    ultimately show ?thesis
      using n Cons.prems k by (auto simp: poke_def)
  qed
qed

text \<open>\<open>sqlwcharncat2\<close> never stores beyond the \<open>n\<close> units it is given after the string in the
  buffer: it appends a source shorter than \<open>n\<close> with its terminator, reduces \<open>n\<close> by its length and
  returns it; a longer one is cut to \<open>n - 1\<close> units, and \<open>n\<close> becomes 0.\<close>

theorem sqlwcharncat2_bounded:
  assumes "0 \<notin> set dst" "0 \<notin> set src" "0 < n" "length dst + n \<le> length mem"
    "mem = dst @ 0 # pad"
  shows "sqlwcharncat2 mem src (Some n) =
    (if length src < n
     then Some (dst @ src @ 0 # drop (Suc (length dst + length src)) mem, Some (n - length src), length src)
     else Some (dst @ take (n - 1) src @ 0 # drop (length dst + n) mem, Some 0, n))"
proof -
  have orig: "wcslen mem = length dst"
    using assms(1,5) by (simp add: wcslen_append_NUL)
  have "length dst + min (length src) n \<le> length mem" using assms(4) by simp
  note loop = ncat2_loop_eq [OF assms(2) this]
  have dst: "take (length dst) mem = dst" using assms(5) by simp
  show ?thesis
  proof (cases "length src < n")
    case True
    then have "drop (length dst + length src) mem =
        mem ! (length dst + length src) # drop (Suc (length dst + length src)) mem"
      using assms(4) by (intro Cons_nth_drop_Suc [symmetric]) simp
    with True loop dst orig assms(3,4) show ?thesis
      by (simp add: sqlwcharncat2_def Let_def poke_def list_update_append min_def)
  next
    case False
    then obtain m where m: "n = Suc m" "m < length src" using assms(3) by (cases n) auto
    then have "take n src = take m src @ [src ! m]" by (simp add: take_Suc_conv_app_nth)
    moreover have "min (length src) n = Suc m" "n - length src = 0" using m by auto
    ultimately show ?thesis
      using False loop dst orig m assms(4)
      by (simp add: sqlwcharncat2_def Let_def poke_def list_update_append min_def)
  qed
qed

theorem sqlwcharncat2_bounded_witness:
  "sqlwcharncat2 [5, 0, 8, 8] [6, 7, 9] (Some 3) = Some ([5, 6, 7, 0], Some 0, 3)"
proof -
  have "\<not> length [6, 7, 9 :: u16] < 3" "take (3 - 1) [6, 7, 9 :: u16] = [6, 7]"
      "drop (length [5 :: u16] + 3) [5, 0, 8, 8 :: u16] = []"
    by (simp_all add: numeral_2_eq_2 numeral_3_eq_3)
  moreover have "sqlwcharncat2 [5, 0, 8, 8] [6, 7, 9] (Some 3) =
    (if length [6, 7, 9 :: u16] < 3
     then Some ([5] @ [6, 7, 9] @ 0 # drop (Suc (length [5 :: u16] + length [6, 7, 9 :: u16])) [5, 0, 8, 8],
       Some (3 - length [6, 7, 9 :: u16]), length [6, 7, 9 :: u16])
     else Some ([5] @ take (3 - 1) [6, 7, 9] @ 0 # drop (length [5 :: u16] + 3) [5, 0, 8, 8], Some 0, 3))"
    by (rule sqlwcharncat2_bounded [where pad = "[8, 8]"]) simp_all
  ultimately show ?thesis by simp
qed

subsection \<open>Comparison without case\<close>

text \<open>\<open>sqlwcharcasecmp\<close> returns 0 exactly for strings that agree after the folding of \<open>wupper\<close>,
  which takes 32 from every unit from \<^verbatim>\<open>'a'\<close> on and not of the letters alone.\<close>

theorem sqlwcharcasecmp_spec:
  assumes "0 \<notin> set s" "0 \<notin> set t"
  shows "sqlwcharcasecmp s t = (if map wupper s = map wupper t then 0 else 1)"
  using assms
proof (induction s t rule: sqlwcharcasecmp.induct)
  case (1 s t)
  then show ?case
    by (cases s; cases t) (auto simp: sqlwcharcasecmp.simps wtop_def)
qed

theorem sqlwcharcasecmp_spec_witness:
  "sqlwcharcasecmp [0x44, 0x53] [0x64, 0x73] = 0 \<and> sqlwcharcasecmp [0x7b] [0x5b] = 0"
proof -
  have "map wupper [0x44, 0x53] = map wupper [0x64, 0x73]" "map wupper [0x7b] = map wupper [0x5b]"
    by code_simp+
  moreover have "(0 :: u16) \<notin> set [0x44, 0x53]" "(0 :: u16) \<notin> set [0x64, 0x73]"
      "(0 :: u16) \<notin> set [0x7b]" "(0 :: u16) \<notin> set [0x5b]" by simp_all
  ultimately show ?thesis
    using sqlwcharcasecmp_spec [of "[0x44, 0x53]" "[0x64, 0x73]"]
      sqlwcharcasecmp_spec [of "[0x7b]" "[0x5b]"] by simp
qed

lemma sqlwcharcasecmp_brackets:
  "sqlwcharcasecmp [123] [91] = 0" 
  by (simp add: sqlwcharcasecmp.simps wupper_def wtop_def)

subsection \<open>Quoting\<close>

text \<open>Reading a quoted value back: a doubled bracket stands for one.\<close>

fun unescape_brackets :: "u16 list \<Rightarrow> u16 list" where
  "unescape_brackets (c # d # cs) =
     (if c = 125 \<and> d = 125 then 125 # unescape_brackets cs else c # unescape_brackets (d # cs))"
| "unescape_brackets cs = cs"

lemma unescape_escape:
  "unescape_brackets (concat (map (\<lambda>c. if c = 125 then [125, 125] else [c]) val)) = val"
proof (induction val)
  case (Cons c val)
  show ?case
  proof (cases "c = 125")
    case False
    with Cons show ?thesis by (cases "concat (map (\<lambda>c. if c = 125 then [125, 125] else [c]) val)") auto
  qed (simp add: Cons)
qed simp

lemma unescape_plain: "125 \<notin> set val \<Longrightarrow> unescape_brackets val = val"
  by (induction val rule: unescape_brackets.induct) auto

text \<open>A connection-string value quoted by \<open>escape_brackets\<close> is read back by undoubling its closing
  brackets, with and without the enclosing braces.\<close>

theorem escape_brackets_roundtrip:
  "unescape_brackets (escape_brackets val False) = val \<and>
   (\<exists>body. escape_brackets val True = [123] @ body @ [125] \<and> unescape_brackets body = val)"
  by (auto simp: escape_brackets_def unescape_escape unescape_plain)

end
