(* ===== verification/Parse.thy ===== *)
theory Parse
  imports Charset
begin

unbundle bit_operations_syntax

text \<open>
  \<^verbatim>\<open>driver/parse.cc\<close> and \<^verbatim>\<open>driver/parse.h\<close>: the query tokenizer, the parameter
  markers it finds, the query type it detects, the braces it removes, and the rewriting of
  ODBC function escapes. Pointers into the query buffer are offsets; the buffer is the bytes
  before \<open>query_end\<close>. The character classifier of the connection's charset is the argument
  \<open>cs\<close>, called on the bytes from the position to the end.
\<close>

section \<open>Queries and parser states\<close>

datatype query_type =
    myqtSelect | myqtInsert | myqtUpdate | myqtCall | myqtShow | myqtUse
  | myqtCreateTable | myqtCreateProc | myqtCreateFunc | myqtDropProc | myqtDropFunc
  | myqtOptimize | myqtOther

record parsed_query =
  query :: string
  last_char :: "nat option"
  token2 :: "nat list"
  param_pos :: "nat list"
  qtype :: query_type
  is_batch :: "nat option"

type_synonym ctype_fn = "string \<Rightarrow> nat \<times> int"

record parser =
  pos :: nat
  bytes_at_pos :: nat
  ctype :: nat
  quote :: "char option"
  pq :: parsed_query
  hash_comment :: bool
  dash_comment :: bool
  c_style_comment :: bool

text \<open>The row of \<open>query_types_array\<close>: returns rows, preparable, server version needed.\<close>

fun query_types_array :: "query_type \<Rightarrow> bool \<times> bool \<times> string option" where
  "query_types_array myqtSelect = (True, True, None)"
| "query_types_array myqtInsert = (False, True, None)"
| "query_types_array myqtUpdate = (False, True, None)"
| "query_types_array myqtCall = (True, True, Some ''5.5.3'')"
| "query_types_array myqtShow = (True, True, None)"
| "query_types_array myqtUse = (False, False, None)"
| "query_types_array myqtCreateTable = (False, False, None)"
| "query_types_array myqtCreateProc = (False, False, None)"
| "query_types_array myqtCreateFunc = (False, False, None)"
| "query_types_array myqtDropProc = (False, False, None)"
| "query_types_array myqtDropFunc = (False, False, None)"
| "query_types_array myqtOptimize = (False, True, Some ''5.0.23'')"
| "query_types_array myqtOther = (False, True, None)"

text \<open>\<open>ansi_syntax_markers\<close> (the build with the newline as line end).\<close>

definition quote_markers :: "char list" where
  "quote_markers = [CHR 0x27, CHR 0x22, CHR 0x60]"

definition query_sep :: "string list" where
  "query_sep = ['';'', [CHR 0x5C, CHR 0x67]]"

definition escape_char :: char where "escape_char = CHR 0x5C"
definition odbc_open :: char where "odbc_open = CHR 0x7B"
definition odbc_close :: char where "odbc_close = CHR 0x7D"
definition param_marker :: char where "param_marker = CHR 0x3F"
definition hash_mark :: string where "hash_mark = ''#''"
definition dash_mark :: string where "dash_mark = ''-- ''"
definition c_open_mark :: string where "c_open_mark = ''/*''"
definition c_close_mark :: string where "c_close_mark = ''*/''"
definition c_var_mark :: string where "c_var_mark = ''/*!''"
definition new_line_end :: string where "new_line_end = [CHR 0x0A]"

text \<open>\<open>MY_PARSED_QUERY::reset\<close>; a null query is not modelled.\<close>

definition pq_reset :: "string \<Rightarrow> parsed_query" where
  "pq_reset q = \<lparr>query = q, last_char = None, token2 = [], param_pos = [],
     qtype = myqtOther, is_batch = None\<rparr>"

definition get_token :: "parsed_query \<Rightarrow> nat \<Rightarrow> nat option" where
  "get_token q index = (if index < length (token2 q) then Some (token2 q ! index) else None)"

definition get_param_pos :: "parsed_query \<Rightarrow> nat \<Rightarrow> nat option" where
  "get_param_pos q index = (if index < length (param_pos q) then Some (param_pos q ! index) else None)"

definition token_count :: "parsed_query \<Rightarrow> nat" where
  "token_count q = length (token2 q)"

definition returns_result :: "parsed_query \<Rightarrow> bool" where
  "returns_result q = fst (query_types_array (qtype q))"

text \<open>\<open>min_version\<close> stands for \<open>is_minimum_version\<close> of \<^verbatim>\<open>driver/utility.cc\<close>.\<close>

definition preparable_on_server :: "(string \<Rightarrow> string \<Rightarrow> bool) \<Rightarrow> parsed_query \<Rightarrow> string \<Rightarrow> bool" where
  "preparable_on_server min_version q server_version =
     (case query_types_array (qtype q) of
        (_, prep, needed) \<Rightarrow>
          if prep then (case needed of None \<Rightarrow> True | Some v \<Rightarrow> min_version server_version v)
          else False)"

definition is_select_statement :: "parsed_query \<Rightarrow> bool" where
  "is_select_statement q = (qtype q = myqtSelect)"

definition is_call_procedure :: "parsed_query \<Rightarrow> bool" where
  "is_call_procedure q = (qtype q = myqtCall)"

section \<open>Comparisons at a position\<close>

definition at_end :: "parser \<Rightarrow> bool" where
  "at_end p \<longleftrightarrow> length (query (pq p)) \<le> pos p"

definition parser_compare :: "parser \<Rightarrow> string \<Rightarrow> bool" where
  "parser_compare p str \<longleftrightarrow>
     pos p + length str \<le> length (query (pq p)) \<and>
     take (length str) (drop (pos p) (query (pq p))) = str"

text \<open>A null position is a null pointer for \<open>myodbc_casecmp\<close>, which then reports a difference.\<close>

definition case_compare :: "parsed_query \<Rightarrow> nat option \<Rightarrow> string \<Rightarrow> bool" where
  "case_compare q p str =
     (case p of
        None \<Rightarrow> myodbc_casecmp None (Some str) (length str) = 0
      | Some i \<Rightarrow>
          i + length str \<le> length (query q) \<and>
          myodbc_casecmp (Some (drop i (query q))) (Some str) (length str) = 0)"

definition get_cursor_name :: "parsed_query \<Rightarrow> nat option" where
  "get_cursor_name q =
     (let tcount = token_count q in
      if tcount > 4 \<and>
         case_compare q (get_token q (tcount - 4)) ''WHERE'' \<and>
         case_compare q (get_token q (tcount - 3)) ''CURRENT'' \<and>
         case_compare q (get_token q (tcount - 2)) ''OF''
      then get_token q (tcount - 1) else None)"

section \<open>Stepping through the characters\<close>

definition get_ctype :: "ctype_fn \<Rightarrow> parser \<Rightarrow> parser" where
  "get_ctype cs p =
     (if \<not> at_end p then
        let (m, byte_count) = cs (drop (pos p) (query (pq p)))
        in p\<lparr>ctype := m, bytes_at_pos := nat \<bar>byte_count\<bar>\<rparr>
      else p\<lparr>bytes_at_pos := 0\<rparr>)"

definition step_char :: "ctype_fn \<Rightarrow> parser \<Rightarrow> parser" where
  "step_char cs p =
     (let p' = p\<lparr>pos := pos p + (if bytes_at_pos p \<noteq> 0 then bytes_at_pos p else 1)\<rparr>
      in if \<not> at_end p' then get_ctype cs p' else p')"

definition init_parser :: "ctype_fn \<Rightarrow> parsed_query \<Rightarrow> parser" where
  "init_parser cs q =
     get_ctype cs \<lparr>pos = 0, bytes_at_pos = 0, ctype = 0, quote = None, pq = q,
       hash_comment = False, dash_comment = False, c_style_comment = False\<rparr>"

definition is_space :: "parser \<Rightarrow> bool" where
  "is_space p = has_class (ctype p) MY_SPC"

definition is_spl_char :: "parser \<Rightarrow> bool" where
  "is_spl_char p = has_class (ctype p) MY_CTR"

text \<open>One byte at the position that equals a one-byte marker.\<close>

definition at_marker :: "parser \<Rightarrow> char \<Rightarrow> bool" where
  "at_marker p c \<longleftrightarrow> bytes_at_pos p = 1 \<and> byte_at (query (pq p)) (pos p) = Some c"

definition is_escape :: "parser \<Rightarrow> bool" where
  "is_escape p = at_marker p escape_char"

definition is_quote :: "parser \<Rightarrow> char option" where
  "is_quote p = find (at_marker p) quote_markers"

definition is_closing_quote :: "parser \<Rightarrow> bool" where
  "is_closing_quote p = (case quote p of None \<Rightarrow> False | Some c \<Rightarrow> at_marker p c)"

definition is_param_marker :: "parser \<Rightarrow> bool" where
  "is_param_marker p = at_marker p param_marker"

text \<open>The loops below advance by at least one byte in every round.\<close>

lemma query_get_ctype [simp]: "pq (get_ctype cs p) = pq p" "pos (get_ctype cs p) = pos p"
    "quote (get_ctype cs p) = quote p" "hash_comment (get_ctype cs p) = hash_comment p"
    "dash_comment (get_ctype cs p) = dash_comment p" "c_style_comment (get_ctype cs p) = c_style_comment p"
  by (simp_all add: get_ctype_def split: prod.split)

lemma step_char_frame [simp]: "pq (step_char cs p) = pq p" "quote (step_char cs p) = quote p"
    "hash_comment (step_char cs p) = hash_comment p"
    "dash_comment (step_char cs p) = dash_comment p" "c_style_comment (step_char cs p) = c_style_comment p"
  by (simp_all add: step_char_def Let_def)

lemma pos_step_char [simp]:
  "pos (step_char cs p) = pos p + (if bytes_at_pos p \<noteq> 0 then bytes_at_pos p else 1)"
  by (simp add: step_char_def Let_def)

lemma pos_step_char_less: "pos p < pos (step_char cs p)"
  by simp

function skip_spaces :: "ctype_fn \<Rightarrow> parser \<Rightarrow> parser" where
  "skip_spaces cs p =
     (if \<not> at_end p \<and> (is_space p \<or> is_spl_char p) then skip_spaces cs (step_char cs p) else p)"
  by pat_completeness auto
termination
  by (relation "measure (\<lambda>(cs, p). length (query (pq p)) - pos p)") (auto simp: at_end_def)

declare skip_spaces.simps [simp del]

definition in_comment :: "parser \<Rightarrow> bool" where
  "in_comment p \<longleftrightarrow>
     (hash_comment p \<and> \<not> parser_compare p new_line_end) \<or>
     (dash_comment p \<and> \<not> parser_compare p new_line_end) \<or>
     (c_style_comment p \<and> \<not> parser_compare p c_close_mark)"

function skip_comment :: "ctype_fn \<Rightarrow> parser \<Rightarrow> parser" where
  "skip_comment cs p =
     (if \<not> at_end p \<and> in_comment p then skip_comment cs (step_char cs p) else p)"
  by pat_completeness auto
termination
  by (relation "measure (\<lambda>(cs, p). length (query (pq p)) - pos p)") (auto simp: at_end_def)

declare skip_comment.simps [simp del]

definition is_comment :: "parser \<Rightarrow> bool \<times> parser" where
  "is_comment p0 =
     (let p = p0\<lparr>hash_comment := False, dash_comment := False, c_style_comment := False\<rparr> in
      if parser_compare p hash_mark then (True, p\<lparr>hash_comment := True\<rparr>)
      else if parser_compare p dash_mark then (True, p\<lparr>dash_comment := True\<rparr>)
      else if parser_compare p c_var_mark then (False, p)
      else if parser_compare p c_open_mark then (True, p\<lparr>c_style_comment := True\<rparr>)
      else (False, p))"

definition add_token :: "parser \<Rightarrow> parser" where
  "add_token p =
     (if \<not> at_end p then p\<lparr>pq := (pq p)\<lparr>token2 := token2 (pq p) @ [pos p]\<rparr>\<rparr> else p)"

definition add_parameter :: "parser \<Rightarrow> parser" where
  "add_parameter p = p\<lparr>pq := (pq p)\<lparr>param_pos := param_pos (pq p) @ [pos p]\<rparr>\<rparr>"

text \<open>The parser after the separator, when there is one at the position.\<close>

definition is_query_separator :: "ctype_fn \<Rightarrow> parser \<Rightarrow> parser option" where
  "is_query_separator cs p =
     (case find (parser_compare p) query_sep of
        None \<Rightarrow> None
      | Some sep \<Rightarrow> Some (get_ctype cs (p\<lparr>pos := pos p + length sep\<rparr>)))"

text \<open>
  \<open>find_closing_quote\<close>: the parser after the quoted text and the position of the last closing
  quote seen. A quote right after a closing quote opens the next piece, whatever its type.
\<close>

function find_closing_quote :: "ctype_fn \<Rightarrow> parser \<Rightarrow> nat option \<Rightarrow> parser \<times> nat option" where
  "find_closing_quote cs p closing =
     (if at_end p then (p, closing)
      else if is_escape p then find_closing_quote cs (step_char cs (step_char cs p)) closing
      else if is_closing_quote p then
        (let p' = get_ctype cs (step_char cs p) in
         if bytes_at_pos p' = 0 \<or> is_quote p' = None then (p', Some (pos p))
         else find_closing_quote cs (step_char cs (p'\<lparr>quote := is_quote p'\<rparr>)) (Some (pos p)))
      else find_closing_quote cs (step_char cs p) closing)"
  by pat_completeness auto
termination
  by (relation "measure (\<lambda>(cs, p, c). length (query (pq p)) - pos p)")
    (auto simp: at_end_def Let_def)

declare find_closing_quote.simps [simp del]


section \<open>The tokenizer\<close>

lemma pos_skip_spaces: "pos p \<le> pos (skip_spaces cs p)"
proof (induction cs p rule: skip_spaces.induct)
  case (1 cs p)
  then show ?case by (subst skip_spaces.simps) (auto intro: order_trans [rotated])
qed

lemma skip_spaces_frame [simp]: "pq (skip_spaces cs p) = pq p" "quote (skip_spaces cs p) = quote p"
  by (induction cs p rule: skip_spaces.induct; subst skip_spaces.simps; simp)+

lemma pos_skip_comment: "pos p \<le> pos (skip_comment cs p)"
proof (induction cs p rule: skip_comment.induct)
  case (1 cs p)
  then show ?case by (subst skip_comment.simps) (auto intro: order_trans [rotated])
qed

lemma skip_comment_frame [simp]: "pq (skip_comment cs p) = pq p" "quote (skip_comment cs p) = quote p"
  by (induction cs p rule: skip_comment.induct; subst skip_comment.simps; simp)+

lemma add_token_simps [simp]: "pos (add_token p) = pos p" "query (pq (add_token p)) = query (pq p)"
    "quote (add_token p) = quote p" "bytes_at_pos (add_token p) = bytes_at_pos p"
    "last_char (pq (add_token p)) = last_char (pq p)" "param_pos (pq (add_token p)) = param_pos (pq p)"
    "ctype (add_token p) = ctype p"
  by (simp_all add: add_token_def)

text \<open>The body of the loop from the test for a separator on.\<close>

definition tok_rest :: "ctype_fn \<Rightarrow> parser \<Rightarrow> parser" where
  "tok_rest cs p =
     (case is_query_separator cs p of
        Some p1 \<Rightarrow> add_token (skip_spaces cs p1)
      | None \<Rightarrow>
          let p1 = p\<lparr>pq := (pq p)\<lparr>last_char := Some (pos p)\<rparr>\<rparr> in
          case is_quote p1 of
            Some q \<Rightarrow> step_char cs (add_token (p1\<lparr>quote := Some q\<rparr>))
          | None \<Rightarrow>
              (case is_comment p1 of
                 (True, p2) \<Rightarrow> skip_comment cs p2
               | (False, p2) \<Rightarrow>
                   if is_param_marker p2 then step_char cs (add_parameter p2)
                   else step_char cs p2))"

text \<open>One round of the loop of \<open>tokenize\<close>.\<close>

definition tok_step :: "ctype_fn \<Rightarrow> parser \<Rightarrow> parser" where
  "tok_step cs p =
     (case quote p of
        Some _ \<Rightarrow>
          (let (p1, closing) = find_closing_quote cs p None
           in p1\<lparr>pq := (pq p1)\<lparr>last_char := closing\<rparr>, quote := None\<rparr>)
      | None \<Rightarrow>
          if is_space p then
            (let p1 = skip_spaces cs (step_char cs p)
             in if at_end p1 then p1 else tok_rest cs (add_token p1))
          else tok_rest cs p)"

text \<open>Every round moves the position forward and leaves the bytes of the query alone.\<close>

lemma find_closing_quote_frame:
  "pq (fst (find_closing_quote cs p c)) = pq p \<and> pos p \<le> pos (fst (find_closing_quote cs p c))"
proof (induction cs p c rule: find_closing_quote.induct)
  case (1 cs p c)
  then show ?case
    by (subst (1 2) find_closing_quote.simps) (force simp: Let_def intro: order_trans [rotated])
qed

lemma find_closing_quote_progress:
  assumes "\<not> at_end p"
  shows "pos p < pos (fst (find_closing_quote cs p c))"
proof -
  have less: "pos p < pos r \<Longrightarrow> pos p < pos (fst (find_closing_quote cs r d))" for r d
    using find_closing_quote_frame [of cs r d] by linarith
  show ?thesis using assms
    by (subst find_closing_quote.simps) (auto simp: Let_def intro!: less)
qed

lemma is_query_separator_Some:
  "is_query_separator cs p = Some p1 \<Longrightarrow> pos p < pos p1 \<and> pq p1 = pq p"
  by (auto simp: is_query_separator_def query_sep_def split: if_splits)

lemma is_comment_frame:
  "is_comment p = (b, p1) \<Longrightarrow> pq p1 = pq p \<and> pos p1 = pos p \<and> quote p1 = quote p
     \<and> bytes_at_pos p1 = bytes_at_pos p \<and> ctype p1 = ctype p"
  by (auto simp: is_comment_def Let_def split: if_splits)

lemma parser_compare_hd:
  assumes "parser_compare p (c # str)"
  shows "byte_at (query (pq p)) (pos p) = Some c"
proof -
  have "pos p < length (query (pq p))" "take (Suc (length str)) (drop (pos p) (query (pq p))) = c # str"
    using assms by (auto simp: parser_compare_def)
  moreover from this have "query (pq p) ! pos p = c"
    by (simp add: Cons_nth_drop_Suc [symmetric])
  ultimately show ?thesis by (simp add: byte_at_def)
qed

lemma is_comment_opens:
  "is_comment p = (True, p1) \<Longrightarrow> in_comment p1 \<and> \<not> at_end p1"
  by (auto simp: is_comment_def Let_def in_comment_def hash_mark_def dash_mark_def c_open_mark_def
      c_var_mark_def new_line_end_def c_close_mark_def at_end_def bufsimps
      dest!: parser_compare_hd split: if_splits)

lemma tok_rest_frame:
  assumes "\<not> at_end p"
  shows "pos p < pos (tok_rest cs p)" "query (pq (tok_rest cs p)) = query (pq p)"
proof -
  have com: "pos p < pos (skip_comment cs p2)" if "is_comment p1 = (True, p2)" "pos p1 = pos p" for p1 p2
  proof -
    have "in_comment p2 \<and> \<not> at_end p2" using that(1) by (rule is_comment_opens)
    then have "skip_comment cs p2 = skip_comment cs (step_char cs p2)" by (subst skip_comment.simps) simp
    moreover have "pos p2 < pos (step_char cs p2)" by (rule pos_step_char_less)
    ultimately show ?thesis
      using pos_skip_comment [of "step_char cs p2" cs] is_comment_frame [OF that(1)] that(2) by simp
  qed
  have sep: "pos p < pos (skip_spaces cs p1)" if "is_query_separator cs p = Some p1" for p1
    using is_query_separator_Some [OF that] pos_skip_spaces [of p1 cs] by simp
  show "pos p < pos (tok_rest cs p)"
    using sep
    by (auto simp: tok_rest_def Let_def add_parameter_def split: option.splits prod.splits bool.splits
        dest: is_comment_frame com)
  show "query (pq (tok_rest cs p)) = query (pq p)"
    by (auto simp: tok_rest_def Let_def add_parameter_def split: option.splits prod.splits bool.splits
        dest: is_comment_frame is_query_separator_Some)
qed


lemma tok_step_frame:
  assumes "\<not> at_end p"
  shows "pos p < pos (tok_step cs p)" "query (pq (tok_step cs p)) = query (pq p)"
proof -
  have sp: "pos p < pos (skip_spaces cs (step_char cs p))"
    using pos_skip_spaces [of "step_char cs p" cs] pos_step_char_less [of p cs] by linarith
  have rest: "pos p < pos (tok_rest cs (add_token (skip_spaces cs (step_char cs p))))"
      "query (pq (tok_rest cs (add_token (skip_spaces cs (step_char cs p))))) = query (pq p)"
    if "\<not> at_end (skip_spaces cs (step_char cs p))"
    using tok_rest_frame [of "add_token (skip_spaces cs (step_char cs p))" cs] that sp
    by (simp_all add: at_end_def)
  show "pos p < pos (tok_step cs p)"
    using find_closing_quote_progress [OF assms, of cs None] tok_rest_frame(1) [OF assms, of cs] sp rest(1)
    by (simp add: tok_step_def Let_def split_beta split: option.split)
  show "query (pq (tok_step cs p)) = query (pq p)"
    using find_closing_quote_frame [of cs p None] tok_rest_frame(2) [OF assms, of cs] rest(2)
    by (simp add: tok_step_def Let_def split_beta split: option.split)
qed

function tok_loop :: "ctype_fn \<Rightarrow> parser \<Rightarrow> parser" where
  "tok_loop cs p = (if at_end p then p else tok_loop cs (tok_step cs p))"
  by pat_completeness auto
termination
proof (relation "measure (\<lambda>(cs, p). length (query (pq p)) - pos p)")
  fix cs p
  assume "\<not> at_end p"
  with tok_step_frame [OF this, of cs]
  show "((cs, tok_step cs p), cs, p) \<in> measure (\<lambda>(cs, p). length (query (pq p)) - pos p)"
    by (simp add: at_end_def)
qed simp

declare tok_loop.simps [simp del]

definition tokenize :: "ctype_fn \<Rightarrow> parser \<Rightarrow> parser" where
  "tokenize cs p = tok_loop cs (add_token (skip_spaces cs p))"

section \<open>The type of the query\<close>

text \<open>\<open>QUERY_TYPE_RESOLVING\<close>: keyword, first and last token, type, and-rule, or-rule.\<close>

datatype resolving =
  Resolving (kw: string) (pos_from: nat) (pos_thru: nat) (rtype: query_type)
    "resolving option" "resolving option"

definition func_rule :: resolving where
  "func_rule = Resolving ''FUNCTION'' 1 4 myqtCreateFunc None None"
definition proc_rule :: resolving where
  "proc_rule = Resolving ''PROCEDURE'' 1 4 myqtCreateProc None (Some func_rule)"
definition drop_func_rule :: resolving where
  "drop_func_rule = Resolving ''FUNCTION'' 1 4 myqtDropFunc None None"
definition drop_proc_rule :: resolving where
  "drop_proc_rule = Resolving ''PROCEDURE'' 1 4 myqtDropProc None (Some drop_func_rule)"
definition crt_table_rule :: resolving where
  "crt_table_rule = Resolving ''TABLE'' 1 2 myqtCreateTable None (Some proc_rule)"

definition rules :: "resolving list" where
  "rules =
     [Resolving ''SELECT'' 0 0 myqtSelect None None,
      Resolving ''CALL'' 0 0 myqtCall None None,
      Resolving ''INSERT'' 0 0 myqtInsert None None,
      Resolving ''UPDATE'' 0 0 myqtUpdate None None,
      Resolving ''SHOW'' 0 0 myqtShow None None,
      Resolving ''CREATE'' 0 0 myqtOther (Some crt_table_rule) None,
      Resolving ''DROP'' 0 0 myqtOther (Some drop_proc_rule) None,
      Resolving ''USE'' 0 0 myqtUse None None,
      Resolving ''OPTIMIZE'' 0 0 myqtOptimize None None]"

text \<open>
  The last token a rule looks at: \<open>token_count() - 1\<close> is a \<open>size_t\<close>, so it is no limit when
  there is no token.
\<close>

definition rule_limit :: "nat \<Rightarrow> nat \<Rightarrow> nat \<Rightarrow> nat" where
  "rule_limit lo hi cnt =
     (let last = (if hi > 0 then hi else lo)
      in if cnt = 0 then last else min last (cnt - 1))"

fun process_rule :: "parsed_query \<Rightarrow> resolving \<Rightarrow> bool \<times> parsed_query" where
  "process_rule q (Resolving keyword lo hi ty and_rule or_rule) =
     (if list_ex (\<lambda>i. case_compare q (get_token q i) keyword)
           [lo..<Suc (rule_limit lo hi (token_count q))]
      then (case and_rule of
              Some r \<Rightarrow> process_rule q r
            | None \<Rightarrow> (True, q\<lparr>qtype := ty\<rparr>))
      else (case or_rule of
              Some r \<Rightarrow> process_rule q r
            | None \<Rightarrow> (False, q)))"

fun detect_query_type :: "parsed_query \<Rightarrow> resolving list \<Rightarrow> query_type \<times> parsed_query" where
  "detect_query_type q [] = (myqtOther, q)"
| "detect_query_type q (r # rs) =
     (case process_rule q r of
        (True, q') \<Rightarrow> (qtype q', q')
      | (False, q') \<Rightarrow> detect_query_type q' rs)"

section \<open>Braces\<close>

definition remove_braces :: "ctype_fn \<Rightarrow> parser \<Rightarrow> bool \<times> parser" where
  "remove_braces cs p =
     (case token2 (pq p) of
        [] \<Rightarrow> (False, p)
      | token # _ \<Rightarrow>
          (case last_char (pq p) of
             None \<Rightarrow> (False, p)
           | Some lc \<Rightarrow>
               if cget (query (pq p)) token = odbc_open \<and> cget (query (pq p)) lc = odbc_close then
                 let q1 = (pq p)\<lparr>query := (query (pq p))[token := CHR 0x20, lc := CHR 0x20]\<rparr>;
                     p1 = get_ctype cs (p\<lparr>pos := token, pq := q1\<rparr>);
                     q2 = (if is_space p1 then q1\<lparr>token2 := tl (token2 q1)\<rparr> else q1);
                     q3 = (if token_count q2 \<noteq> 0 \<and> Some lc = get_token q2 (token_count q2 - 1)
                           then q2\<lparr>token2 := butlast (token2 q2)\<rparr> else q2)
                 in (True, p1\<lparr>pq := q3\<lparr>last_char := None\<rparr>\<rparr>)
               else (False, p)))"

definition parse :: "ctype_fn \<Rightarrow> parsed_query \<Rightarrow> parsed_query" where
  "parse cs q =
     (let p = tokenize cs (init_parser cs q);
          p' = snd (remove_braces cs p)
      in snd (detect_query_type (pq p') rules))"


section \<open>ODBC function escapes\<close>

text \<open>
  \<open>rewrite_odbc_function_escapes\<close>: one pass over the bytes. The stack holds one flag per open
  brace, whether it opened \<open>{fn\<close>; its top is the head of the list. The index is kept in the
  state because a round may consume two bytes.
\<close>

record rw_state =
  rw_query :: string
  escapes :: "bool list"
  rw_quote :: "char option"
  line_comment :: bool
  block_comment :: bool

definition is_fn_keyword :: "string \<Rightarrow> nat \<Rightarrow> bool" where
  "is_fn_keyword q k \<longleftrightarrow>
     k + 2 < length q \<and> (q ! k = CHR ''f'' \<or> q ! k = CHR ''F'') \<and>
     (q ! (k + 1) = CHR ''n'' \<or> q ! (k + 1) = CHR ''N'') \<and> isspace_c (q ! (k + 2))"

text \<open>\<open>while (keyword < length && isspace(query[keyword])) ++keyword\<close>.\<close>

definition skip_isspace :: "string \<Rightarrow> nat \<Rightarrow> nat" where
  "skip_isspace q i = i + length (takeWhile isspace_c (drop i q))"

text \<open>
  One round at index \<open>i\<close>: the state and the number of bytes consumed beyond the first. The
  three modes of the scan, then the bytes that open a mode, then the braces.
\<close>

definition rw_in_line :: "rw_state \<Rightarrow> char \<Rightarrow> rw_state \<times> nat" where
  "rw_in_line st ch =
     ((if ch = CHR 0x0A \<or> ch = CHR 0x0D then st\<lparr>line_comment := False\<rparr> else st), 0)"

definition rw_in_block :: "rw_state \<Rightarrow> nat \<Rightarrow> char \<Rightarrow> rw_state \<times> nat" where
  "rw_in_block st i ch =
     (if ch = CHR ''*'' \<and> byte_at (rw_query st) (i + 1) = Some (CHR ''/'')
      then (st\<lparr>block_comment := False\<rparr>, 1) else (st, 0))"

definition rw_in_quote :: "rw_state \<Rightarrow> nat \<Rightarrow> char \<Rightarrow> char \<Rightarrow> rw_state \<times> nat" where
  "rw_in_quote st i qc ch =
     (if ch = CHR 0x5C \<and> i + 1 < length (rw_query st) then (st, 1)
      else if ch = qc then
        (if byte_at (rw_query st) (i + 1) = Some qc then (st, 1)
         else (st\<lparr>rw_quote := None\<rparr>, 0))
      else (st, 0))"

definition opens_line_comment :: "string \<Rightarrow> nat \<Rightarrow> char \<Rightarrow> bool" where
  "opens_line_comment q i ch \<longleftrightarrow>
     ch = CHR ''#'' \<or>
     (ch = CHR ''-'' \<and> i + 2 < length q \<and> q ! (i + 1) = CHR ''-'' \<and> isspace_c (q ! (i + 2)))"

definition rw_open_brace :: "rw_state \<Rightarrow> nat \<Rightarrow> rw_state" where
  "rw_open_brace st i =
     (let q = rw_query st; k = skip_isspace q (i + 1); fn = is_fn_keyword q k
      in st\<lparr>rw_query := (if fn then q[i := CHR 0x20, k := CHR 0x20, k + 1 := CHR 0x20] else q),
            escapes := fn # escapes st\<rparr>)"

definition rw_close_brace :: "rw_state \<Rightarrow> nat \<Rightarrow> rw_state" where
  "rw_close_brace st i =
     st\<lparr>rw_query := (if hd (escapes st) then (rw_query st)[i := CHR 0x20] else rw_query st),
        escapes := tl (escapes st)\<rparr>"

definition rw_normal :: "rw_state \<Rightarrow> nat \<Rightarrow> char \<Rightarrow> rw_state \<times> nat" where
  "rw_normal st i ch =
     (if opens_line_comment (rw_query st) i ch then (st\<lparr>line_comment := True\<rparr>, 0)
      else if ch = CHR ''/'' \<and> byte_at (rw_query st) (i + 1) = Some (CHR ''*'')
      then (st\<lparr>block_comment := True\<rparr>, 1)
      else if ch \<in> set quote_markers then (st\<lparr>rw_quote := Some ch\<rparr>, 0)
      else if ch = odbc_open then (rw_open_brace st i, 0)
      else if ch = odbc_close \<and> escapes st \<noteq> [] then (rw_close_brace st i, 0)
      else (st, 0))"

definition rw_step :: "rw_state \<Rightarrow> nat \<Rightarrow> rw_state \<times> nat" where
  "rw_step st i =
     (let ch = rw_query st ! i in
      if line_comment st then rw_in_line st ch
      else if block_comment st then rw_in_block st i ch
      else case rw_quote st of
          Some qc \<Rightarrow> rw_in_quote st i qc ch
        | None \<Rightarrow> rw_normal st i ch)"

lemma length_rw_open [simp]: "length (rw_query (rw_open_brace st i)) = length (rw_query st)"
  by (simp add: rw_open_brace_def Let_def)

lemma length_rw_close [simp]: "length (rw_query (rw_close_brace st i)) = length (rw_query st)"
  by (simp add: rw_close_brace_def)

lemma length_rw_modes [simp]:
  "length (rw_query (fst (rw_in_line st ch))) = length (rw_query st)"
  "length (rw_query (fst (rw_in_block st i ch))) = length (rw_query st)"
  "length (rw_query (fst (rw_in_quote st i qc ch))) = length (rw_query st)"
  "length (rw_query (fst (rw_normal st i ch))) = length (rw_query st)"
  by (simp_all add: rw_in_line_def rw_in_block_def rw_in_quote_def rw_normal_def)

lemma length_rw_step [simp]: "length (rw_query (fst (rw_step st i))) = length (rw_query st)"
  by (simp add: rw_step_def Let_def split: option.split)

function rw_loop :: "rw_state \<Rightarrow> nat \<Rightarrow> rw_state" where
  "rw_loop st i =
     (if i < length (rw_query st)
      then rw_loop (fst (rw_step st i)) (Suc (i + snd (rw_step st i))) else st)"
  by pat_completeness auto
termination
  by (relation "measure (\<lambda>(st, i). length (rw_query st) - i)") auto

declare rw_loop.simps [simp del]

definition rewrite_odbc_function_escapes :: "parsed_query \<Rightarrow> parsed_query" where
  "rewrite_odbc_function_escapes q =
     q\<lparr>query := rw_query (rw_loop \<lparr>rw_query = query q, escapes = [], rw_quote = None,
                  line_comment = False, block_comment = False\<rparr> 0)\<rparr>"

section \<open>Statements recognised by their first words\<close>

definition skip_leading_spaces :: "string \<Rightarrow> string" where
  "skip_leading_spaces str = dropWhile isspace_c str"

definition starts_nocase :: "string \<Rightarrow> string \<Rightarrow> bool" where
  "starts_nocase q w \<longleftrightarrow> myodbc_casecmp (Some q) (Some w) (length w) = 0"

definition is_set_names_statement :: "string \<Rightarrow> bool" where
  "is_set_names_statement q = starts_nocase (skip_leading_spaces q) ''SET NAMES''"

text \<open>The first word and a space after it: \<open>*(query+n) != '\0' && isspace(*(query+n))\<close>.\<close>

definition first_word :: "string \<Rightarrow> string \<Rightarrow> bool" where
  "first_word q w \<longleftrightarrow> starts_nocase q w \<and> cget q (length w) \<noteq> CHR 0x00
     \<and> isspace_c (cget q (length w))"

definition is_drop_procedure :: "string \<Rightarrow> bool" where
  "is_drop_procedure q =
     (if first_word q ''DROP''
      then starts_nocase (skip_leading_spaces (drop 5 q)) ''PROCEDURE'' else False)"

definition is_drop_function :: "string \<Rightarrow> bool" where
  "is_drop_function q =
     (if first_word q ''DROP''
      then starts_nocase (skip_leading_spaces (drop 5 q)) ''FUNCTION'' else False)"

definition is_create_procedure :: "string \<Rightarrow> bool" where
  "is_create_procedure q =
     (if first_word q ''CREATE'' then
        let r = skip_leading_spaces (drop 7 q)
        in if starts_nocase r ''DEFINER'' then True else starts_nocase r ''PROCEDURE''
      else False)"

definition is_create_function :: "string \<Rightarrow> bool" where
  "is_create_function q =
     (if first_word q ''CREATE''
      then starts_nocase (skip_leading_spaces (drop 7 q)) ''FUNCTION'' else False)"

definition is_use_db :: "string \<Rightarrow> bool" where
  "is_use_db q = first_word q ''USE''"

text \<open>\<open>stmt_returns_result\<close>: every value of the enumeration is at most \<open>myqtOther\<close>.\<close>

definition stmt_returns_result :: "parsed_query \<Rightarrow> bool" where
  "stmt_returns_result q = fst (query_types_array (qtype q))"

section \<open>Tokens by white space\<close>

text \<open>\<open>myodbc_isspace(charset, pos, end)\<close>, and \<open>*pos < 0\<close> for a signed \<open>char\<close>.\<close>

definition isspace_at :: "ctype_fn \<Rightarrow> string \<Rightarrow> nat \<Rightarrow> nat \<Rightarrow> bool" where
  "isspace_at cs buf b e = has_class (fst (cs (drop b (take e buf)))) MY_SPC"

definition high_byte :: "char \<Rightarrow> bool" where
  "high_byte c \<longleftrightarrow> 128 \<le> code c"

text \<open>
  \<open>mystr_get_prev_token\<close> searches backwards from \<open>pos\<close>: the offset of the token it returns and
  the new value of \<open>*query\<close>.
\<close>

fun prev_token_from :: "ctype_fn \<Rightarrow> string \<Rightarrow> nat \<Rightarrow> nat \<Rightarrow> nat \<Rightarrow> nat \<times> nat" where
  "prev_token_from cs buf e start p =
     (if p \<le> start then (start, start)
      else if high_byte (cget buf (p - 1)) \<or> \<not> isspace_at cs buf (p - 1) e
      then prev_token_from cs buf e start (p - 1)
      else (p, p - 1))"

declare prev_token_from.simps [simp del]

definition mystr_get_prev_token :: "ctype_fn \<Rightarrow> string \<Rightarrow> nat \<Rightarrow> nat \<Rightarrow> nat \<times> nat" where
  "mystr_get_prev_token cs buf query_pos start = prev_token_from cs buf query_pos start query_pos"

text \<open>
  \<open>find_token\<close>: the last token (not the first of the text) that starts with the target, going
  backwards. \<open>lim\<close> is the end of the part still to be searched.
\<close>

lemma prev_token_from_stop: "p \<le> start \<Longrightarrow> prev_token_from cs buf e start p = (start, start)"
  by (simp add: prev_token_from.simps)

lemma prev_token_from_le: "start < p \<Longrightarrow> snd (prev_token_from cs buf e start p) < p"
proof (induction cs buf e start p rule: prev_token_from.induct)
  case (1 cs buf e start p)
  show ?case
  proof (cases "start < p - 1")
    case True
    with 1 show ?thesis by (subst prev_token_from.simps) fastforce
  next
    case False
    with "1.prems" show ?thesis by (subst prev_token_from.simps) (simp add: prev_token_from_stop)
  qed
qed

lemma prev_token_from_start:
  "fst (prev_token_from cs buf e start p) \<noteq> start \<Longrightarrow> start < p"
  by (subst (asm) prev_token_from.simps) (simp split: if_splits)

function find_token_from :: "ctype_fn \<Rightarrow> string \<Rightarrow> nat \<Rightarrow> nat \<Rightarrow> string \<Rightarrow> nat option" where
  "find_token_from cs buf start lim target =
     (let r = mystr_get_prev_token cs buf lim start in
      if fst r = start then None
      else if myodbc_casecmp (Some (drop (fst r) buf)) (Some target) (length target) = 0
      then Some (fst r)
      else find_token_from cs buf start (snd r) target)"
  by pat_completeness auto
termination
proof (relation "measure (\<lambda>(cs, buf, start, lim, target). lim)")
  fix cs :: ctype_fn and buf start lim target r
  assume "r = mystr_get_prev_token cs buf lim start" "fst r \<noteq> start"
  then show "((cs, buf, start, snd r, target), cs, buf, start, lim, target)
      \<in> measure (\<lambda>(cs, buf, start, lim, target). lim)"
    using prev_token_from_le [of start lim cs buf lim] prev_token_from_start [of cs buf lim start lim]
    by (auto simp: mystr_get_prev_token_def)
qed simp

declare find_token_from.simps [simp del]

definition find_token :: "ctype_fn \<Rightarrow> string \<Rightarrow> nat \<Rightarrow> nat \<Rightarrow> string \<Rightarrow> nat option" where
  "find_token cs buf b e target = find_token_from cs buf b e target"

end
