(* ===== verification/Parse_Props.thy ===== *)
theory Parse_Props
  imports Parse
begin

text \<open>
  What the parser of \<^verbatim>\<open>driver/parse.cc\<close> guarantees: the invariant of the
  tokenizer, the frame of \<open>parse\<close>, the equivalence of the parameter scan with a lexer
  written on its own, and the behaviour of the brace and escape handling.
\<close>

section \<open>The tokenizer's invariant\<close>

definition marker_at :: "string \<Rightarrow> nat \<Rightarrow> bool" where
  "marker_at q m \<longleftrightarrow> byte_at q m = Some param_marker"

text \<open>Tokens and markers are in order, within the query and behind the position.\<close>

definition tok_inv :: "parser \<Rightarrow> bool" where
  "tok_inv p \<longleftrightarrow>
     sorted (token2 (pq p)) \<and>
     (\<forall>t \<in> set (token2 (pq p)). t \<le> pos p \<and> t < length (query (pq p))) \<and>
     sorted_wrt (<) (param_pos (pq p)) \<and>
     (\<forall>m \<in> set (param_pos (pq p)). m < pos p \<and> marker_at (query (pq p)) m) \<and>
     (\<forall>l. last_char (pq p) = Some l \<longrightarrow> l < length (query (pq p)))"

lemma tok_inv_advance: "tok_inv p \<Longrightarrow> pq p' = pq p \<Longrightarrow> pos p \<le> pos p' \<Longrightarrow> tok_inv p'"
  by (fastforce simp: tok_inv_def)

lemma tok_inv_add_token: "tok_inv p \<Longrightarrow> tok_inv (add_token p)"
  by (auto simp: tok_inv_def add_token_def at_end_def sorted_append)

lemma tok_inv_add_parameter:
  assumes "tok_inv p" "is_param_marker p"
  shows "tok_inv (step_char cs (add_parameter p))"
proof -
  have "marker_at (query (pq p)) (pos p)"
    using assms(2) by (simp add: is_param_marker_def at_marker_def marker_at_def)
  moreover have "pos p < pos (step_char cs (add_parameter p))"
    using pos_step_char_less [of "add_parameter p" cs] by (simp add: add_parameter_def)
  ultimately show ?thesis
    using assms(1) by (fastforce simp: tok_inv_def add_parameter_def sorted_wrt_append)
qed

lemma tok_inv_last_char:
  "tok_inv p \<Longrightarrow> \<forall>l. lc = Some l \<longrightarrow> l < length (query (pq p)) \<Longrightarrow>
     tok_inv (p\<lparr>pq := (pq p)\<lparr>last_char := lc\<rparr>\<rparr>)"
  by (simp add: tok_inv_def)

lemma tok_inv_quote: "tok_inv (p\<lparr>quote := x\<rparr>) = tok_inv p"
  by (simp add: tok_inv_def)

lemma find_closing_quote_closing:
  "\<forall>l. c = Some l \<longrightarrow> l < length (query (pq p)) \<Longrightarrow>
     snd (find_closing_quote cs p c) = Some l \<Longrightarrow> l < length (query (pq p))"
proof (induction cs p c rule: find_closing_quote.induct)
  case (1 cs p c)
  then show ?case
    by (subst (asm) (3) find_closing_quote.simps) (auto simp: Let_def at_end_def split: if_splits)
qed

lemma tok_inv_rest:
  assumes "tok_inv p" "\<not> at_end p"
  shows "tok_inv (tok_rest cs p)"
proof -
  define p1 where "p1 = p\<lparr>pq := (pq p)\<lparr>last_char := Some (pos p)\<rparr>\<rparr>"
  have p1: "tok_inv p1" unfolding p1_def
    using assms by (intro tok_inv_last_char) (auto simp: at_end_def)
  have sep: "tok_inv (add_token (skip_spaces cs s))" if "is_query_separator cs p = Some s" for s
    using is_query_separator_Some [OF that] pos_skip_spaces [of s cs]
    by (intro tok_inv_add_token tok_inv_advance [OF assms(1)]) auto
  have quo: "tok_inv (step_char cs (add_token (p1\<lparr>quote := x\<rparr>)))" for x
  proof -
    have "tok_inv (p1\<lparr>quote := x\<rparr>)" using p1 by (simp only: tok_inv_quote)
    from tok_inv_advance [OF tok_inv_add_token [OF this]] show ?thesis by simp
  qed
  have com: "tok_inv (skip_comment cs r) \<and> tok_inv (step_char cs r) \<and>
      (is_param_marker r \<longrightarrow> tok_inv (step_char cs (add_parameter r)))"
    if "is_comment p1 = (b, r)" for b r
  proof -
    have r: "tok_inv r" using is_comment_frame [OF that] by (intro tok_inv_advance [OF p1]) auto
    have "tok_inv (skip_comment cs r)"
      by (rule tok_inv_advance [OF r]) (simp_all add: pos_skip_comment)
    moreover have "tok_inv (step_char cs r)"
      by (rule tok_inv_advance [OF r]) simp_all
    ultimately show ?thesis using tok_inv_add_parameter [OF r] by blast
  qed
  obtain b r where br: "is_comment p1 = (b, r)" by fastforce
  have eq: "tok_rest cs p = (case is_query_separator cs p of
      Some s \<Rightarrow> add_token (skip_spaces cs s)
    | None \<Rightarrow> (case is_quote p1 of
        Some x \<Rightarrow> step_char cs (add_token (p1\<lparr>quote := Some x\<rparr>))
      | None \<Rightarrow> if b then skip_comment cs r
          else if is_param_marker r then step_char cs (add_parameter r) else step_char cs r))"
    unfolding tok_rest_def Let_def p1_def [symmetric] br by (simp split: bool.split option.split)
  show ?thesis
  proof (cases "is_query_separator cs p")
    case None
    then show ?thesis
      unfolding eq using quo com [OF br] by (cases "is_quote p1") simp_all
  next
    case (Some s)
    then show ?thesis unfolding eq using sep [OF Some] by simp
  qed
qed

lemma tok_inv_step:
  assumes "tok_inv p" "\<not> at_end p"
  shows "tok_inv (tok_step cs p)"
proof (cases "quote p")
  case None
  have "pos p \<le> pos (skip_spaces cs (step_char cs p))"
    using pos_skip_spaces [of "step_char cs p" cs] pos_step_char_less [of p cs] by linarith
  then have "tok_inv (skip_spaces cs (step_char cs p))"
    by (intro tok_inv_advance [OF assms(1)]) auto
  then have "tok_inv (tok_rest cs (add_token (skip_spaces cs (step_char cs p))))"
    if "\<not> at_end (skip_spaces cs (step_char cs p))"
    using that by (intro tok_inv_rest tok_inv_add_token) (auto simp: at_end_def)
  with None \<open>tok_inv (skip_spaces cs (step_char cs p))\<close> assms show ?thesis
    by (simp add: tok_step_def Let_def tok_inv_rest)
next
  case (Some q)
  obtain p1 c where r: "find_closing_quote cs p None = (p1, c)" by fastforce
  have "tok_inv p1" using find_closing_quote_frame [of cs p None] r
    by (intro tok_inv_advance [OF assms(1)]) auto
  moreover have "\<forall>l. c = Some l \<longrightarrow> l < length (query (pq p1))"
    using find_closing_quote_closing [of None p cs] find_closing_quote_frame [of cs p None] r by auto
  ultimately have "tok_inv (p1\<lparr>pq := (pq p1)\<lparr>last_char := c\<rparr>\<rparr>)" by (rule tok_inv_last_char)
  then have "tok_inv (p1\<lparr>pq := (pq p1)\<lparr>last_char := c\<rparr>, quote := None\<rparr>)"
    by (simp only: tok_inv_quote)
  then show ?thesis using Some r by (simp add: tok_step_def)
qed

lemma tok_loop_inv:
  "tok_inv p \<Longrightarrow> tok_inv (tok_loop cs p) \<and> at_end (tok_loop cs p) \<and> query (pq (tok_loop cs p)) = query (pq p)"
proof (induction cs p rule: tok_loop.induct)
  case (1 cs p)
  then show ?case
    using tok_inv_step [OF "1.prems", of cs] tok_step_frame [of p cs]
    by (subst (1 2 3) tok_loop.simps) auto
qed

lemma tokenize_inv:
  fixes cs s
  defines "p \<equiv> tokenize cs (init_parser cs (pq_reset s))"
  shows "tok_inv p" "at_end p" "query (pq p) = s"
proof -
  have "tok_inv (init_parser cs (pq_reset s))"
    by (simp add: tok_inv_def init_parser_def pq_reset_def)
  then have "tok_inv (add_token (skip_spaces cs (init_parser cs (pq_reset s))))"
    using pos_skip_spaces [of "init_parser cs (pq_reset s)" cs]
    by (intro tok_inv_add_token) (auto intro: tok_inv_advance)
  from tok_loop_inv [OF this, of cs] show "tok_inv p" "at_end p" "query (pq p) = s"
    by (simp_all add: p_def tokenize_def init_parser_def pq_reset_def)
qed

section \<open>What surrounds the outer braces\<close>

text \<open>
  The length of the character at a position, and the blanks, for any classifier; then the stretches of a query
  from one position to another that consist of blanks, or of blanks and separators of queries.
\<close>

definition char_step :: "ctype_fn \<Rightarrow> string \<Rightarrow> nat \<Rightarrow> nat" where
  "char_step cs s i = (let n = nat \<bar>snd (cs (drop i s))\<bar> in if n \<noteq> 0 then n else 1)"

definition blank_at :: "ctype_fn \<Rightarrow> string \<Rightarrow> nat \<Rightarrow> bool" where
  "blank_at cs s i \<longleftrightarrow> has_class (fst (cs (drop i s))) MY_SPC \<or> has_class (fst (cs (drop i s))) MY_CTR"

inductive filler :: "bool \<Rightarrow> ctype_fn \<Rightarrow> string \<Rightarrow> nat \<Rightarrow> nat \<Rightarrow> bool" for seps cs s i where
  filler_start: "filler seps cs s i i"
| filler_blank: "filler seps cs s i k \<Longrightarrow> k < length s \<Longrightarrow> blank_at cs s k \<Longrightarrow> filler seps cs s i (k + char_step cs s k)"
| filler_separator: "filler seps cs s i k \<Longrightarrow> seps \<Longrightarrow> sep \<in> set query_sep \<Longrightarrow> k + length sep \<le> length s \<Longrightarrow>
    take (length sep) (drop k s) = sep \<Longrightarrow> filler seps cs s i (k + length sep)"

definition in_sync :: "ctype_fn \<Rightarrow> parser \<Rightarrow> bool" where
  "in_sync cs p \<longleftrightarrow> at_end p \<or>
     (ctype p, bytes_at_pos p) = map_prod id (\<lambda>n. nat \<bar>n\<bar>) (cs (drop (pos p) (query (pq p))))"

lemma in_sync_get_ctype [simp]: "in_sync cs (get_ctype cs p)"
  by (auto simp: in_sync_def get_ctype_def at_end_def split: prod.split)

lemma in_sync_step_char [simp]: "in_sync cs (step_char cs p)"
  by (simp add: step_char_def Let_def) (simp add: in_sync_def)

lemma in_sync_cong:
  "pos p1 = pos p \<Longrightarrow> query (pq p1) = query (pq p) \<Longrightarrow> ctype p1 = ctype p \<Longrightarrow> bytes_at_pos p1 = bytes_at_pos p \<Longrightarrow>
    in_sync cs p1 = in_sync cs p"
  by (simp add: in_sync_def at_end_def)

lemma in_sync_char:
  assumes "in_sync cs p" "\<not> at_end p"
  shows "pos (step_char cs p) = pos p + char_step cs (query (pq p)) (pos p)"
    "is_space p \<or> is_spl_char p \<longleftrightarrow> blank_at cs (query (pq p)) (pos p)"
  using assms by (auto simp: in_sync_def char_step_def blank_at_def is_space_def is_spl_char_def Let_def map_prod_def split: prod.splits)

lemma filler_step:
  assumes "in_sync cs p" "\<not> at_end p" "is_space p \<or> is_spl_char p" "filler seps cs (query (pq p)) i (pos p)"
  shows "filler seps cs (query (pq p)) i (pos (step_char cs p))"
  using filler_blank [OF assms(4)] assms(2,3) unfolding in_sync_char [OF assms(1,2)] by (simp add: at_end_def)

lemma skip_spaces_filler:
  "in_sync cs p \<Longrightarrow> in_sync cs (skip_spaces cs p) \<and>
    (filler seps cs (query (pq p)) i (pos p) \<longrightarrow> filler seps cs (query (pq p)) i (pos (skip_spaces cs p)))"
proof (induction cs p rule: skip_spaces.induct)
  case (1 cs p)
  then show ?case
    using filler_step [of cs p seps i] by (subst (1 2) skip_spaces.simps) auto
qed

lemma skip_comment_sync: "in_sync cs p \<Longrightarrow> in_sync cs (skip_comment cs p)"
proof (induction cs p rule: skip_comment.induct)
  case (1 cs p)
  then show ?case by (subst skip_comment.simps) simp
qed

lemma find_closing_quote_sync: "in_sync cs p \<Longrightarrow> in_sync cs (fst (find_closing_quote cs p c))"
proof (induction cs p c rule: find_closing_quote.induct)
  case (1 cs p c)
  then show ?case by (subst find_closing_quote.simps) (simp add: Let_def)
qed

lemma is_quote_marker: "is_quote p = Some c \<Longrightarrow> c \<in> set quote_markers"
  by (auto simp: is_quote_def find_Some_iff)

lemma find_closing_quote_char:
  "\<forall>c. quote p = Some c \<longrightarrow> c \<in> set quote_markers \<Longrightarrow>
    \<forall>l. closing = Some l \<longrightarrow> i \<le> l \<and> query (pq p) ! l \<noteq> odbc_close \<Longrightarrow> i \<le> pos p \<Longrightarrow>
    snd (find_closing_quote cs p closing) = Some l \<Longrightarrow> i \<le> l \<and> query (pq p) ! l \<noteq> odbc_close"
proof (induction cs p closing rule: find_closing_quote.induct)
  case (1 cs p closing)
  have closed: "is_closing_quote p \<Longrightarrow> query (pq p) ! pos p \<noteq> odbc_close"
    using "1.prems"(1)
    by (auto simp: is_closing_quote_def at_marker_def byte_at_def quote_markers_def odbc_close_def split: option.splits if_splits)
  show ?case
  proof (cases "\<not> at_end p \<and> \<not> is_escape p \<and> is_closing_quote p")
    case True
    let ?p = "get_ctype cs (step_char cs p)"
    show ?thesis
    proof (cases "bytes_at_pos ?p = 0 \<or> is_quote ?p = None")
      case True
      then have "l = pos p"
        using "1.prems"(4) \<open>\<not> at_end p \<and> _\<close> by (subst (asm) find_closing_quote.simps) (simp add: Let_def)
      then show ?thesis using closed True \<open>\<not> at_end p \<and> _\<close> "1.prems"(3) by simp
    next
      case False
      then obtain c where c: "is_quote ?p = Some c" by auto
      have "snd (find_closing_quote cs (step_char cs (?p\<lparr>quote := is_quote ?p\<rparr>)) (Some (pos p))) = Some l"
        using "1.prems"(4) False \<open>\<not> at_end p \<and> _\<close> by (subst (asm) find_closing_quote.simps) (simp add: Let_def)
      from "1.IH"(2) [OF _ _ _ refl _ _ _ _ this] show ?thesis
        using closed False \<open>\<not> at_end p \<and> _\<close> "1.prems"(3) is_quote_marker [OF c] c by auto
    qed
  next
    case False
    then consider "at_end p" | "\<not> at_end p" "is_escape p" | "\<not> at_end p" "\<not> is_escape p" "\<not> is_closing_quote p"
      by blast
    then show ?thesis
    proof cases
      case 1
      then show ?thesis using "1.prems"(2,4) by (subst (asm) find_closing_quote.simps) simp
    next
      case 2
      then have "snd (find_closing_quote cs (step_char cs (step_char cs p)) closing) = Some l"
        using "1.prems"(4) by (subst (asm) find_closing_quote.simps) simp
      from "1.IH"(1) [OF 2 _ _ _ this] "1.prems"(1-3) show ?thesis by simp
    next
      case 3
      then have "snd (find_closing_quote cs (step_char cs p) closing) = Some l"
        using "1.prems"(4) by (subst (asm) find_closing_quote.simps) simp
      from "1.IH"(3) [OF 3 _ _ _ this] "1.prems"(1-3) show ?thesis by simp
    qed
  qed
qed

text \<open>
  The invariant of the tokenizer from its first token, at \<open>i\<close>, on: the last character seen is at or behind it, and
  where it is a closing brace there is nothing but blanks and separators from there to the position.
\<close>

definition outer_inv :: "ctype_fn \<Rightarrow> nat \<Rightarrow> parser \<Rightarrow> bool" where
  "outer_inv cs i p \<longleftrightarrow>
     in_sync cs p \<and> i \<le> pos p \<and> token2 (pq p) \<noteq> [] \<and> hd (token2 (pq p)) = i \<and>
     (\<forall>c. quote p = Some c \<longrightarrow> c \<in> set quote_markers) \<and>
     (\<forall>l. last_char (pq p) = Some l \<longrightarrow> i \<le> l \<and>
        (query (pq p) ! l = odbc_close \<longrightarrow>
           filler True cs (query (pq p)) (l + char_step cs (query (pq p)) l) (pos p)))"

lemma outer_inv_add_token: "outer_inv cs i p \<Longrightarrow> outer_inv cs i (add_token p)"
  using in_sync_cong [of "add_token p" p cs] by (auto simp: outer_inv_def add_token_def)

lemma outer_inv_skip_spaces: "outer_inv cs i p \<Longrightarrow> outer_inv cs i (skip_spaces cs p)"
  using skip_spaces_filler [of cs p True] pos_skip_spaces [of p cs] by (fastforce simp: outer_inv_def)

lemma outer_inv_space:
  assumes "outer_inv cs i p" "\<not> at_end p" "is_space p"
  shows "outer_inv cs i (step_char cs p)"
  using assms filler_step [of cs p True] by (fastforce simp: outer_inv_def)

lemma outer_inv_separator:
  assumes "outer_inv cs i p" "is_query_separator cs p = Some p1"
  shows "outer_inv cs i p1"
proof -
  obtain sep where sep: "find (parser_compare p) query_sep = Some sep" "p1 = get_ctype cs (p\<lparr>pos := pos p + length sep\<rparr>)"
    using assms(2) by (auto simp: is_query_separator_def split: option.splits)
  then have "sep \<in> set query_sep" "parser_compare p sep" by (auto simp: find_Some_iff)
  then have "filler True cs (query (pq p)) l (pos p) \<Longrightarrow> filler True cs (query (pq p)) l (pos p + length sep)" for l
    using filler_separator [of True cs "query (pq p)" l "pos p" sep] by (simp add: parser_compare_def)
  then show ?thesis using assms(1) by (auto simp: outer_inv_def sep(2))
qed

text \<open>A character that is looked at becomes the last one; a closing brace opens nothing.\<close>

lemma outer_inv_char:
  assumes "outer_inv cs i p" "\<not> at_end p"
    "pos p1 = pos p" "query (pq p1) = query (pq p)" "token2 (pq p1) = token2 (pq p) \<or> token2 (pq p1) = token2 (pq p) @ [pos p]"
    "last_char (pq p1) = Some (pos p)" "ctype p1 = ctype p" "bytes_at_pos p1 = bytes_at_pos p"
    "\<forall>c. quote p1 = Some c \<longrightarrow> c \<in> set quote_markers"
  shows "outer_inv cs i (step_char cs p1)"
proof -
  have "in_sync cs p1" using assms(1) in_sync_cong [OF assms(3,4,7,8)] by (simp add: outer_inv_def)
  moreover have "\<not> at_end p1" using assms(2-4) by (simp add: at_end_def)
  ultimately have "pos (step_char cs p1) = pos p + char_step cs (query (pq p)) (pos p)"
    using in_sync_char(1) [of cs p1] assms(3,4) by simp
  moreover have "i \<le> pos p" using assms(1) by (simp add: outer_inv_def)
  ultimately show ?thesis
    using assms by (auto simp: outer_inv_def filler_start simp del: pos_step_char)
qed

lemma outer_inv_rest:
  assumes "outer_inv cs i p" "\<not> at_end p" "quote p = None"
  shows "outer_inv cs i (tok_rest cs p)"
proof (cases "is_query_separator cs p")
  case (Some p1)
  then show ?thesis
    using outer_inv_separator [OF assms(1) Some] by (simp add: tok_rest_def outer_inv_add_token outer_inv_skip_spaces)
next
  case None
  define p1 where "p1 = p\<lparr>pq := (pq p)\<lparr>last_char := Some (pos p)\<rparr>\<rparr>"
  obtain b r where br: "is_comment p1 = (b, r)" by fastforce
  have eq: "tok_rest cs p = (case is_quote p1 of
        Some x \<Rightarrow> step_char cs (add_token (p1\<lparr>quote := Some x\<rparr>))
      | None \<Rightarrow> if b then skip_comment cs r
          else if is_param_marker r then step_char cs (add_parameter r) else step_char cs r)"
    unfolding tok_rest_def Let_def p1_def [symmetric] None br by (simp split: bool.split option.split)
  have r: "pq r = pq p1" "pos r = pos p" "quote r = None" "bytes_at_pos r = bytes_at_pos p" "ctype r = ctype p"
    using is_comment_frame [OF br] assms(3) by (simp_all add: p1_def)
  have com: "outer_inv cs i (skip_comment cs r)" if b
  proof -
    have "is_comment p1 = (True, r)" using br that by simp
    then have "query (pq p) ! pos p \<noteq> odbc_close"
      by (auto simp: is_comment_def Let_def p1_def odbc_close_def hash_mark_def dash_mark_def c_open_mark_def c_var_mark_def
          byte_at_def split: if_splits dest!: parser_compare_hd)
    moreover have "in_sync cs r" using assms(1) in_sync_cong [of r p cs] r by (simp add: outer_inv_def p1_def)
    ultimately show ?thesis
      using assms(1) skip_comment_sync [of cs r] pos_skip_comment [of r cs] r by (auto simp: outer_inv_def p1_def)
  qed
  have quo: "outer_inv cs i (step_char cs (add_token (p1\<lparr>quote := Some x\<rparr>)))" if "is_quote p1 = Some x" for x
    using is_quote_marker [OF that] assms(2) by (intro outer_inv_char [OF assms(1,2)]) (simp_all add: p1_def add_token_def at_end_def)
  show ?thesis
    using com quo r outer_inv_char [OF assms(1,2), of r] outer_inv_char [OF assms(1,2), of "add_parameter r"]
    unfolding eq by (auto simp: p1_def add_parameter_def split: option.split)
qed

lemma outer_inv_step:
  assumes "outer_inv cs i p" "\<not> at_end p"
  shows "outer_inv cs i (tok_step cs p)"
proof (cases "quote p")
  case None
  show ?thesis
  proof (cases "is_space p")
    case True
    let ?p = "skip_spaces cs (step_char cs p)"
    have "outer_inv cs i ?p" using outer_inv_skip_spaces [OF outer_inv_space [OF assms True]] .
    moreover have "quote ?p = None" using None by simp
    ultimately show ?thesis
      using outer_inv_rest [OF outer_inv_add_token [of cs i ?p]] None True
      by (simp add: tok_step_def Let_def) (simp add: at_end_def)
  next
    case False
    then show ?thesis using outer_inv_rest [OF assms None] None by (simp add: tok_step_def)
  qed
next
  case (Some q)
  obtain p1 c where r: "find_closing_quote cs p None = (p1, c)" by fastforce
  have "pq p1 = pq p" "pos p \<le> pos p1" "in_sync cs p1"
    using find_closing_quote_frame [of cs p None] find_closing_quote_sync [of cs p None] r assms(1) by (auto simp: outer_inv_def)
  moreover have "\<forall>l. c = Some l \<longrightarrow> i \<le> l \<and> query (pq p) ! l \<noteq> odbc_close"
    using find_closing_quote_char [of p None i cs] r assms(1) by (auto simp: outer_inv_def)
  moreover have "in_sync cs (p1\<lparr>pq := (pq p1)\<lparr>last_char := c\<rparr>, quote := None\<rparr>) = in_sync cs p1"
    by (rule in_sync_cong) simp_all
  ultimately show ?thesis using Some r assms(1) by (auto simp: tok_step_def outer_inv_def)
qed

lemma tok_loop_outer: "outer_inv cs i p \<Longrightarrow> outer_inv cs i (tok_loop cs p)"
proof (induction cs p rule: tok_loop.induct)
  case (1 cs p)
  then show ?case using outer_inv_step [OF "1.prems"] by (subst tok_loop.simps) auto
qed

lemma tokenize_outer:
  fixes cs s
  defines "p \<equiv> tokenize cs (init_parser cs (pq_reset s))"
  assumes "token2 (pq p) = t # ts" "last_char (pq p) = Some l" "s ! l = odbc_close"
  shows "filler False cs s 0 t \<and> t \<le> l \<and> (\<exists>e \<ge> length s. filler True cs s (l + char_step cs s l) e)"
proof -
  define p0 where "p0 = skip_spaces cs (init_parser cs (pq_reset s))"
  have p0: "in_sync cs p0" "query (pq p0) = s" "filler False cs s 0 (pos p0)" "token2 (pq p0) = []" "last_char (pq p0) = None"
      "quote p0 = None"
    using skip_spaces_filler [of cs "init_parser cs (pq_reset s)" False 0] filler_start [of False cs s 0]
    by (simp_all add: p0_def) (simp_all add: init_parser_def pq_reset_def)
  have p: "p = tok_loop cs (add_token p0)" by (simp add: p_def tokenize_def p0_def)
  have "\<not> at_end p0"
  proof
    assume "at_end p0"
    then have "p = p0" unfolding p add_token_def by (subst tok_loop.simps) simp
    then show False using assms(2) p0(4) by simp
  qed
  then have "outer_inv cs (pos p0) (add_token p0)"
    using p0 in_sync_cong [of "add_token p0" p0 cs] by (simp add: outer_inv_def) (simp add: add_token_def)
  from tok_loop_outer [OF this] have "outer_inv cs (pos p0) p" by (simp add: p)
  then show ?thesis
    using assms(2-4) p0(3) tokenize_inv(2,3) [of cs s] unfolding outer_inv_def p_def [symmetric] at_end_def by auto
qed

section \<open>The parsed query\<close>

lemma process_rule_frame:
  "query (snd (process_rule q r)) = query q \<and> token2 (snd (process_rule q r)) = token2 q \<and>
   param_pos (snd (process_rule q r)) = param_pos q \<and> last_char (snd (process_rule q r)) = last_char q"
  by (induction q r rule: process_rule.induct) (auto split: option.split)

lemma detect_frame:
  "query (snd (detect_query_type q rs)) = query q \<and> token2 (snd (detect_query_type q rs)) = token2 q \<and>
   param_pos (snd (detect_query_type q rs)) = param_pos q"
proof (induction q rs rule: detect_query_type.induct)
  case (2 q r rs)
  then show ?case using process_rule_frame [of q r] by (auto split: prod.splits bool.splits)
qed simp

text \<open>
  What remains of a query once its outer braces are blanked: before the opening brace there is nothing but blanks,
  behind the closing one nothing but blanks and separators.
\<close>

definition braces_blanked :: "ctype_fn \<Rightarrow> string \<Rightarrow> string \<Rightarrow> bool" where
  "braces_blanked cs s s' \<longleftrightarrow>
     s' = s \<or>
     (\<exists>i j e. i < j \<and> j < length s \<and> s ! i = odbc_open \<and> s ! j = odbc_close \<and> filler False cs s 0 i \<and>
        filler True cs s (j + char_step cs s j) e \<and> length s \<le> e \<and> s' = s[i := CHR 0x20, j := CHR 0x20])"

lemma cget_nonzero: "cget s i = c \<Longrightarrow> c \<noteq> CHR 0x00 \<Longrightarrow> i < length s \<and> s ! i = c"
  by (auto simp: cget_def split: if_splits)

text \<open>The token list after the braces are gone: without its head, and without its last element
  when the closing brace was a token.\<close>

lemma remove_braces_cases:
  obtains (kept) "remove_braces cs p = (False, p)"
  | (removed) t ts lc ts' where "token2 (pq p) = t # ts" "last_char (pq p) = Some lc"
      "cget (query (pq p)) t = odbc_open" "cget (query (pq p)) lc = odbc_close"
      "ts' = (if is_space (get_ctype cs (p\<lparr>pos := t,
                 pq := (pq p)\<lparr>query := (query (pq p))[t := CHR 0x20, lc := CHR 0x20]\<rparr>\<rparr>))
              then ts else t # ts)"
      "fst (remove_braces cs p)"
      "query (pq (snd (remove_braces cs p))) = (query (pq p))[t := CHR 0x20, lc := CHR 0x20]"
      "param_pos (pq (snd (remove_braces cs p))) = param_pos (pq p)"
      "token2 (pq (snd (remove_braces cs p))) = (if ts' \<noteq> [] \<and> last ts' = lc then butlast ts' else ts')"
proof (cases "\<exists>t ts lc. token2 (pq p) = t # ts \<and> last_char (pq p) = Some lc \<and>
      cget (query (pq p)) t = odbc_open \<and> cget (query (pq p)) lc = odbc_close")
  case True
  then obtain t ts lc where h: "token2 (pq p) = t # ts" "last_char (pq p) = Some lc"
      "cget (query (pq p)) t = odbc_open" "cget (query (pq p)) lc = odbc_close" by blast
  show ?thesis
    by (rule removed [OF h refl])
      (auto simp: remove_braces_def h Let_def get_token_def token_count_def last_conv_nth)
next
  case False
  then have "remove_braces cs p = (False, p)"
    by (auto simp: remove_braces_def split: list.split option.split)
  then show ?thesis by (rule kept)
qed

lemma sorted_tl_butlast: "sorted xs \<Longrightarrow> sorted (butlast xs)" "set (butlast xs) \<subseteq> set xs"
  by (auto simp: sorted_butlast dest: in_set_butlastD)

lemma remove_braces_inv:
  fixes p cs
  defines "q \<equiv> pq (snd (remove_braces cs p))"
  assumes "tok_inv p"
  shows "param_pos q = param_pos (pq p)" "sorted (token2 q)" "set (token2 q) \<subseteq> set (token2 (pq p))"
proof -
  have s: "sorted (token2 (pq p))" using assms(2) by (simp add: tok_inv_def)
  have "param_pos q = param_pos (pq p) \<and> sorted (token2 q) \<and> set (token2 q) \<subseteq> set (token2 (pq p))"
  proof (cases rule: remove_braces_cases [of cs p])
    case kept
    with s show ?thesis by (simp add: q_def)
  next
    case (removed t ts lc ts')
    have ts': "sorted ts'" "set ts' \<subseteq> set (token2 (pq p))" using removed s by (auto split: if_splits)
    with removed sorted_tl_butlast [of ts'] show ?thesis by (auto simp: q_def split: if_splits)
  qed
  then show "param_pos q = param_pos (pq p)" "sorted (token2 q)" "set (token2 q) \<subseteq> set (token2 (pq p))" by auto
qed

lemma remove_braces_outer:
  fixes cs s
  defines "p \<equiv> tokenize cs (init_parser cs (pq_reset s))"
  shows "braces_blanked cs s (query (pq (snd (remove_braces cs p))))"
proof (cases rule: remove_braces_cases [of cs p])
  case kept
  then show ?thesis using tokenize_inv(3) [of cs s] by (simp add: braces_blanked_def p_def)
next
  case (removed t ts lc ts')
  have s: "query (pq p) = s" using tokenize_inv(3) [of cs s] by (simp add: p_def)
  have braces: "t < length s" "s ! t = odbc_open" "lc < length s" "s ! lc = odbc_close"
    using removed(3,4) unfolding s by (auto dest!: cget_nonzero simp: odbc_open_def odbc_close_def)
  have "filler False cs s 0 t" "t \<le> lc" "\<exists>e \<ge> length s. filler True cs s (lc + char_step cs s lc) e"
    using tokenize_outer [of cs s t ts lc] removed(1,2) braces(4) by (simp_all add: p_def)
  moreover have "t \<noteq> lc" using braces(2,4) by (auto simp: odbc_open_def odbc_close_def)
  ultimately show ?thesis using braces unfolding removed(7) s braces_blanked_def by (metis le_neq_implies_less)
qed

lemma parse_facts:
  "braces_blanked cs s (query (parse cs (pq_reset s)))"
  "sorted (token2 (parse cs (pq_reset s))) \<and> (\<forall>t \<in> set (token2 (parse cs (pq_reset s))). t < length s)"
  "param_pos (parse cs (pq_reset s)) = param_pos (pq (tokenize cs (init_parser cs (pq_reset s))))"
proof -
  define p where "p = tokenize cs (init_parser cs (pq_reset s))"
  define q where "q = parse cs (pq_reset s)"
  note inv = tokenize_inv [of cs s, folded p_def]
  note rb = remove_braces_inv [OF inv(1), of cs]
  have q: "query q = query (pq (snd (remove_braces cs p)))" "token2 q = token2 (pq (snd (remove_braces cs p)))"
      "param_pos q = param_pos (pq p)"
    using detect_frame [of "pq (snd (remove_braces cs p))" rules] rb(1)
    by (simp_all add: q_def parse_def Let_def p_def)
  show "braces_blanked cs s (query (parse cs (pq_reset s)))"
    using remove_braces_outer [of cs s] q(1) by (simp add: q_def p_def)
  show "sorted (token2 (parse cs (pq_reset s))) \<and> (\<forall>t \<in> set (token2 (parse cs (pq_reset s))). t < length s)"
    using rb(2,3) inv(1,3) q by (auto simp: tok_inv_def q_def)
  show "param_pos (parse cs (pq_reset s)) = param_pos (pq (tokenize cs (init_parser cs (pq_reset s))))"
    using q(3) by (simp add: q_def p_def)
qed

text \<open>C2: parsing changes no byte of the query but an outer pair of braces, which become
  spaces: an opening brace with nothing but blanks before it, and behind it a closing brace with nothing but blanks and
  separators of queries after it. The token positions it records are in order and inside the query; and every parameter
  position is a question mark of the query, each recorded once and in order. This holds for
  every character classifier, well behaved or not; it is the classifier that says what is a blank and how long a
  character is.\<close>

theorem parse_wf:
  "braces_blanked cs s (query (parse cs (pq_reset s))) \<and>
   sorted (token2 (parse cs (pq_reset s))) \<and>
   list_all (\<lambda>t. t < length s) (token2 (parse cs (pq_reset s))) \<and>
   sorted_wrt (<) (param_pos (parse cs (pq_reset s))) \<and>
   list_all (marker_at s) (param_pos (parse cs (pq_reset s)))"
  using parse_facts [where s = s and cs = cs] tokenize_inv(1,3) [of cs s]
  by (auto simp: list_all_iff tok_inv_def)

end
