(* ===== verification/Parse_Lex.thy ===== *)
theory Parse_Lex
  imports Parse_Props
begin

unbundle bit_operations_syntax

text \<open>
  The parameter scan of the tokenizer against a lexer of its own: for ASCII queries, and for every character classifier that meets the interface \<open>sql_classifier\<close>, the
  markers the tokenizer records are those the lexer finds. The interface is met by the two
  classifiers of \<^verbatim>\<open>mysql_strings\<close> the driver is used with.
\<close>

section \<open>A lexer for parameter markers\<close>

declare pos_step_char [simp del]

datatype lex_mode = Text | Quoted char | Line | Block

definition opens_line :: "char \<Rightarrow> string \<Rightarrow> bool" where
  "opens_line c cs \<longleftrightarrow> c = CHR ''#'' \<or> (c = CHR ''-'' \<and> take 2 cs = ''- '')"

text \<open>A block comment; \<open>/*!\<close> opens none, its text is part of the query.\<close>

definition opens_block :: "char \<Rightarrow> string \<Rightarrow> bool" where
  "opens_block c cs \<longleftrightarrow> c = CHR ''/'' \<and> take 1 cs = ''*'' \<and> take 2 cs \<noteq> ''*!''"

text \<open>
  The opening mark of a block comment is left one byte at a time, so that its asterisk may be that
  of the closing mark; and the closing mark is ordinary text, so that its slash may open another.
\<close>

fun lex_markers :: "nat \<Rightarrow> lex_mode \<Rightarrow> string \<Rightarrow> nat list" where
  "lex_markers i m [] = []"
| "lex_markers i Text (c # cs) =
     (if c \<in> set quote_markers then lex_markers (Suc i) (Quoted c) cs
      else if opens_line c cs then lex_markers (Suc i) Line cs
      else if opens_block c cs then lex_markers (Suc i) Block cs
      else if c = param_marker then i # lex_markers (Suc i) Text cs
      else lex_markers (Suc i) Text cs)"
| "lex_markers i (Quoted q) (c # cs) =
     (if c = escape_char then
        (case cs of [] \<Rightarrow> [] | d # ds \<Rightarrow> lex_markers (Suc (Suc i)) (Quoted q) ds)
      else if c = q then lex_markers (Suc i) Text cs
      else lex_markers (Suc i) (Quoted q) cs)"
| "lex_markers i Line (c # cs) =
     (if c = CHR 0x0A then lex_markers (Suc i) Text cs else lex_markers (Suc i) Line cs)"
| "lex_markers i Block (c # cs) =
     (if c = CHR ''*'' \<and> take 1 cs = ''/'' then lex_markers (Suc i) Text cs else lex_markers (Suc i) Block cs)"

definition lex_from :: "string \<Rightarrow> lex_mode \<Rightarrow> nat \<Rightarrow> nat list" where
  "lex_from s m i = lex_markers i m (drop i s)"

definition ascii_only :: "string \<Rightarrow> bool" where
  "ascii_only s = list_all (\<lambda>c. code c < 128) s"

text \<open>Bytes that mean something to the lexer.\<close>

definition lex_special :: "char \<Rightarrow> bool" where
  "lex_special c \<longleftrightarrow> c \<in> set quote_markers \<or> c = CHR ''#'' \<or> c = CHR ''-'' \<or> c = CHR ''/'' \<or> c = param_marker"

text \<open>What the parser needs of a classifier beyond the contract: none of these bytes is a space
  or a control character, and the blank is a space.\<close>

locale sql_classifier = classifier +
  assumes special: "s \<noteq> [] \<Longrightarrow> lex_special (s ! 0) \<Longrightarrow>
      \<not> has_class (fst (cs s)) MY_SPC \<and> \<not> has_class (fst (cs s)) MY_CTR"
    and blank: "s \<noteq> [] \<Longrightarrow> s ! 0 = CHR 0x20 \<Longrightarrow> has_class (fst (cs s)) MY_SPC"
begin

definition synced :: "parser \<Rightarrow> bool" where
  "synced p \<longleftrightarrow> at_end p \<or> (bytes_at_pos p = 1 \<and> ctype p = fst (cs (drop (pos p) (query (pq p)))))"

lemma at_pos:
  assumes "ascii_only (query (pq p))" "\<not> at_end p"
  shows "drop (pos p) (query (pq p)) \<noteq> []" "drop (pos p) (query (pq p)) ! 0 = query (pq p) ! pos p"
    "code (query (pq p) ! pos p) < 128"
  using assms by (auto simp: at_end_def ascii_only_def list_all_iff)

lemma get_ctype_synced:
  assumes "ascii_only (query (pq p))"
  shows "synced (get_ctype cs p)"
  using at_pos [OF assms] progress [of "drop (pos p) (query (pq p))"]
  by (cases "at_end p") (auto simp: synced_def get_ctype_def at_end_def split: prod.split)

lemma get_ctype_end: "at_end (get_ctype cs p) \<Longrightarrow> bytes_at_pos (get_ctype cs p) = 0"
  by (auto simp: get_ctype_def at_end_def split: prod.splits)

lemma step_synced:
  assumes "ascii_only (query (pq p))"
  shows "synced (step_char cs p)"
proof -
  let ?r = "p\<lparr>pos := pos p + (if bytes_at_pos p \<noteq> 0 then bytes_at_pos p else 1)\<rparr>"
  show ?thesis
    using get_ctype_synced [of ?r] assms
    by (auto simp: step_char_def Let_def synced_def)
qed

lemma step_pos: "synced p \<Longrightarrow> \<not> at_end p \<Longrightarrow> pos (step_char cs p) = Suc (pos p)"
  by (simp add: synced_def pos_step_char)

lemma at_marker_iff: "synced p \<Longrightarrow> \<not> at_end p \<Longrightarrow> at_marker p c \<longleftrightarrow> query (pq p) ! pos p = c"
  by (auto simp: synced_def at_marker_def byte_at_def at_end_def)

lemma lex_from_Cons:
  "i < length s \<Longrightarrow> lex_from s m i = lex_markers i m (s ! i # drop (Suc i) s)"
  by (simp add: lex_from_def Cons_nth_drop_Suc)

lemma lex_from_end: "length s \<le> i \<Longrightarrow> lex_from s m i = []"
  by (simp add: lex_from_def)

lemma lex_from_skip:
  assumes "i < length s" "\<not> lex_special (s ! i)"
  shows "lex_from s Text i = lex_from s Text (Suc i)"
  using assms unfolding lex_from_Cons [OF assms(1)]
  by (auto simp: lex_special_def opens_line_def opens_block_def lex_from_def)

lemma skip_spaces_lex:
  "ascii_only (query (pq p)) \<Longrightarrow> synced p \<Longrightarrow>
     synced (skip_spaces cs p) \<and>
     lex_from (query (pq p)) Text (pos (skip_spaces cs p)) = lex_from (query (pq p)) Text (pos p)"
proof (induction "length (query (pq p)) - pos p" arbitrary: p rule: less_induct)
  case less
  show ?case
  proof (cases "\<not> at_end p \<and> (is_space p \<or> is_spl_char p)")
    case True
    then have "\<not> lex_special (query (pq p) ! pos p)"
      using special [of "drop (pos p) (query (pq p))"] at_pos [OF less.prems(1)] less.prems(2)
      by (auto simp: is_space_def is_spl_char_def synced_def)
    then have eq: "lex_from (query (pq p)) Text (pos p) = lex_from (query (pq p)) Text (pos (step_char cs p))"
      using True less.prems step_pos [of p] lex_from_skip [of "pos p" "query (pq p)"]
      by (auto simp: at_end_def)
    have "length (query (pq (step_char cs p))) - pos (step_char cs p) < length (query (pq p)) - pos p"
      using True pos_step_char_less [of p cs] by (auto simp: at_end_def)
    from less.hyps [OF this] eq show ?thesis
      using less.prems step_synced [of p] True by (subst (1 2) skip_spaces.simps) simp
  next
    case False
    then have "skip_spaces cs p = p" by (subst skip_spaces.simps) auto
    with less.prems show ?thesis by simp
  qed
qed

lemma lex_quoted_escape:
  assumes "i < length s" "s ! i = escape_char"
  shows "lex_from s (Quoted q) i = lex_from s (Quoted q) (i + 2)"
proof (cases "Suc i < length s")
  case True
  then have "drop (Suc i) s = s ! Suc i # drop (i + 2) s" by (simp add: Cons_nth_drop_Suc)
  then show ?thesis unfolding lex_from_Cons [OF assms(1)] using assms(2) by (simp add: lex_from_def)
next
  case False
  then show ?thesis unfolding lex_from_Cons [OF assms(1)] using assms(2) by (simp add: lex_from_def)
qed

lemma is_quote_iff:
  "synced p \<Longrightarrow> \<not> at_end p \<Longrightarrow>
     is_quote p = (if query (pq p) ! pos p \<in> set quote_markers then Some (query (pq p) ! pos p) else None)"
  by (auto simp: is_quote_def quote_markers_def at_marker_iff)

lemma find_closing_quote_lex:
  "ascii_only (query (pq p)) \<Longrightarrow> synced p \<Longrightarrow> quote p = Some qc \<Longrightarrow> qc \<in> set quote_markers \<Longrightarrow>
     synced (fst (find_closing_quote cs p c)) \<and>
     lex_from (query (pq p)) Text (pos (fst (find_closing_quote cs p c))) =
       lex_from (query (pq p)) (Quoted qc) (pos p)"
proof (induction "length (query (pq p)) - pos p" arbitrary: p qc c rule: less_induct)
  case less
  let ?s = "query (pq p)"
  have adv: "length (query (pq r)) - pos r < length ?s - pos p" if "pq r = pq p" "pos p < pos r" "\<not> at_end p" for r
    using that by (simp add: at_end_def)
  have syn: "synced (step_char cs r)" if "pq r = pq p" for r
    using step_synced [of r] less.prems(1) that by simp
  have qe: "qc \<noteq> escape_char" using less.prems(4) by (auto simp: quote_markers_def escape_char_def)
  show ?case
  proof (cases "at_end p")
    case True
    then show ?thesis
      using less.prems by (subst (1 2) find_closing_quote.simps) (simp add: at_end_def lex_from_end)
  next
    case False
    note ne = False
    then have i: "pos p < length ?s" by (simp add: at_end_def)
    note mk = at_marker_iff [OF less.prems(2) ne]
    note st = step_pos [OF less.prems(2) ne]
    consider (esc) "?s ! pos p = escape_char" | (close) "?s ! pos p = qc" | (other) "?s ! pos p \<noteq> escape_char" "?s ! pos p \<noteq> qc"
      by blast
    then show ?thesis
    proof cases
      case esc
      let ?r = "step_char cs (step_char cs p)"
      have "pos p < pos ?r" using pos_step_char_less [of p cs] pos_step_char_less [of "step_char cs p" cs] by linarith
      note IH = less.hyps [of ?r qc c, OF adv [OF _ this ne]]
      have "lex_from ?s (Quoted qc) (pos ?r) = lex_from ?s (Quoted qc) (pos p + 2)"
      proof (cases "at_end (step_char cs p)")
        case True
        then have "length ?s \<le> pos p + 2" "length ?s \<le> pos ?r"
          using st pos_step_char_less [of "step_char cs p" cs]
          by (simp_all add: at_end_def)
        then show ?thesis by (simp add: lex_from_end)
      next
        case False
        then show ?thesis using step_pos [OF syn [OF refl] False] st by simp
      qed
      then have "lex_from ?s (Quoted qc) (pos ?r) = lex_from ?s (Quoted qc) (pos p)"
        using lex_quoted_escape [OF i esc] by simp
      moreover have "find_closing_quote cs p c = find_closing_quote cs ?r c"
        using ne esc mk by (subst find_closing_quote.simps) (simp add: is_escape_def)
      ultimately show ?thesis using IH less.prems syn by simp
    next
      case close
      let ?r = "get_ctype cs (step_char cs p)"
      have r: "synced ?r" "pos ?r = Suc (pos p)"
        using get_ctype_synced [of "step_char cs p"] less.prems(1) st by simp_all
      have lex: "lex_from ?s (Quoted qc) (pos p) = lex_from ?s Text (Suc (pos p))"
        unfolding lex_from_Cons [OF i] using close qe by (simp add: lex_from_def)
      have eq: "find_closing_quote cs p c =
          (if bytes_at_pos ?r = 0 \<or> is_quote ?r = None then (?r, Some (pos p))
           else find_closing_quote cs (step_char cs (?r\<lparr>quote := is_quote ?r\<rparr>)) (Some (pos p)))"
        using ne close qe mk less.prems(3)
        by (subst find_closing_quote.simps) (simp add: is_escape_def is_closing_quote_def Let_def)
      show ?thesis
      proof (cases "bytes_at_pos ?r = 0 \<or> is_quote ?r = None")
        case True
        then show ?thesis using eq r lex by simp
      next
        case False
        then have ner: "\<not> at_end ?r" using get_ctype_end [of "step_char cs p"] by auto
        define q2 where "q2 = ?s ! Suc (pos p)"
        have q2: "is_quote ?r = Some q2" "q2 \<in> set quote_markers"
          using False is_quote_iff [OF r(1) ner] r(2) by (auto simp: q2_def split: if_splits)
        let ?t = "step_char cs (?r\<lparr>quote := is_quote ?r\<rparr>)"
        have "synced (?r\<lparr>quote := is_quote ?r\<rparr>)" "\<not> at_end (?r\<lparr>quote := is_quote ?r\<rparr>)"
          using r(1) ner by (simp_all add: synced_def at_end_def)
        from step_pos [OF this] have t: "pos ?t = Suc (Suc (pos p))" using r(2) by simp
        have i2: "Suc (pos p) < length ?s" using ner r(2) by (simp add: at_end_def)
        have "lex_from ?s Text (Suc (pos p)) = lex_from ?s (Quoted q2) (Suc (Suc (pos p)))"
          unfolding lex_from_Cons [OF i2] using q2(2) by (simp add: q2_def lex_from_def)
        moreover have "pos p < pos ?t" using t by simp
        note IH = less.hyps [of ?t q2 "Some (pos p)", OF adv [OF _ this ne]]
        ultimately show ?thesis
          using IH eq False t lex q2 less.prems syn [of "?r\<lparr>quote := is_quote ?r\<rparr>"] by simp
      qed
    next
      case other
      let ?r = "step_char cs p"
      note IH = less.hyps [of ?r qc c, OF adv [OF _ pos_step_char_less ne]]
      have "lex_from ?s (Quoted qc) (pos p) = lex_from ?s (Quoted qc) (Suc (pos p))"
        unfolding lex_from_Cons [OF i] using other by (simp add: lex_from_def)
      moreover have "find_closing_quote cs p c = find_closing_quote cs ?r c"
        using ne other mk less.prems(3)
        by (subst find_closing_quote.simps) (simp add: is_escape_def is_closing_quote_def)
      ultimately show ?thesis using IH st less.prems syn by simp
    qed
  qed
qed

end

lemma parser_compare_one: "parser_compare p [c] \<longleftrightarrow> byte_at (query (pq p)) (pos p) = Some c"
proof
  assume "byte_at (query (pq p)) (pos p) = Some c"
  then have "pos p < length (query (pq p))" "query (pq p) ! pos p = c" by (auto simp: bufsimps)
  then show "parser_compare p [c]" by (simp add: parser_compare_def Cons_nth_drop_Suc [symmetric])
qed (rule parser_compare_hd)

lemma parser_compare_Cons:
  "parser_compare p (c # str) \<longleftrightarrow>
     byte_at (query (pq p)) (pos p) = Some c \<and> take (length str) (drop (Suc (pos p)) (query (pq p))) = str"
proof (cases "pos p < length (query (pq p))")
  case True
  then have d: "drop (pos p) (query (pq p)) = query (pq p) ! pos p # drop (Suc (pos p)) (query (pq p))"
    by (simp add: Cons_nth_drop_Suc)
  have "Suc (pos p + length str) \<le> length (query (pq p))"
    if "take (length str) (drop (Suc (pos p)) (query (pq p))) = str"
  proof -
    have "length str = min (length (query (pq p)) - Suc (pos p)) (length str)"
      using arg_cong [OF that, of length] by simp
    with True show ?thesis by linarith
  qed
  with True show ?thesis by (auto simp: parser_compare_def d byte_at_def)
qed (auto simp: parser_compare_def byte_at_def)

text \<open>The lexer's mode in a parser state, and the markers found and still to come.\<close>

definition mode_of :: "parser \<Rightarrow> lex_mode" where
  "mode_of p = (case quote p of None \<Rightarrow> Text | Some q \<Rightarrow> Quoted q)"

definition all_markers :: "parser \<Rightarrow> nat list" where
  "all_markers p = param_pos (pq p) @ lex_from (query (pq p)) (mode_of p) (pos p)"

lemma lex_special_seps: "\<not> lex_special (CHR '';'')" "\<not> lex_special (CHR 0x5C)" "\<not> lex_special (CHR 0x67)"
  by (simp_all add: lex_special_def quote_markers_def param_marker_def)

context sql_classifier
begin

definition ok :: "parser \<Rightarrow> bool" where
  "ok p \<longleftrightarrow> synced p \<and> ascii_only (query (pq p)) \<and> (\<forall>q. quote p = Some q \<longrightarrow> q \<in> set quote_markers)"

lemma skip_comment_lex:
  "ascii_only (query (pq p)) \<Longrightarrow> synced p \<Longrightarrow> hash_comment p \<or> dash_comment p \<Longrightarrow> \<not> c_style_comment p \<Longrightarrow>
     synced (skip_comment cs p) \<and>
     lex_from (query (pq p)) Text (pos (skip_comment cs p)) = lex_from (query (pq p)) Line (pos p)"
proof (induction "length (query (pq p)) - pos p" arbitrary: p rule: less_induct)
  case less
  let ?s = "query (pq p)"
  show ?case
  proof (cases "at_end p")
    case True
    then have "skip_comment cs p = p" by (subst skip_comment.simps) simp
    with True less.prems show ?thesis by (simp add: at_end_def lex_from_end)
  next
    case False
    then have i: "pos p < length ?s" by (simp add: at_end_def)
    have inc: "in_comment p \<longleftrightarrow> ?s ! pos p \<noteq> CHR 0x0A"
      using less.prems i by (auto simp: in_comment_def new_line_end_def parser_compare_one byte_at_def)
    show ?thesis
    proof (cases "?s ! pos p = CHR 0x0A")
      case True
      then have "skip_comment cs p = p" using inc by (subst skip_comment.simps) simp
      moreover have "lex_from ?s Text (pos p) = lex_from ?s Line (pos p)"
        unfolding lex_from_Cons [OF i] using True
        by (simp add: opens_line_def opens_block_def quote_markers_def param_marker_def)
      ultimately show ?thesis using less.prems by simp
    next
      case nl: False
      have "length (query (pq (step_char cs p))) - pos (step_char cs p) < length ?s - pos p"
        using i pos_step_char_less [of p cs] by simp
      note IH = less.hyps [OF this]
      have "skip_comment cs p = skip_comment cs (step_char cs p)"
        using False nl inc by (subst skip_comment.simps) simp
      moreover have "lex_from ?s Line (pos p) = lex_from ?s Line (pos (step_char cs p))"
        unfolding lex_from_Cons [OF i] step_pos [OF less.prems(2) False] using nl by (simp add: lex_from_def)
      ultimately show ?thesis using IH less.prems step_synced [of p] by simp
    qed
  qed
qed

lemma skip_block_lex:
  "ascii_only (query (pq p)) \<Longrightarrow> synced p \<Longrightarrow> \<not> hash_comment p \<and> \<not> dash_comment p \<Longrightarrow> c_style_comment p \<Longrightarrow>
     synced (skip_comment cs p) \<and>
     lex_from (query (pq p)) Text (pos (skip_comment cs p)) = lex_from (query (pq p)) Block (pos p)"
proof (induction "length (query (pq p)) - pos p" arbitrary: p rule: less_induct)
  case less
  let ?s = "query (pq p)"
  show ?case
  proof (cases "at_end p")
    case True
    then have "skip_comment cs p = p" by (subst skip_comment.simps) simp
    with True less.prems show ?thesis by (simp add: at_end_def lex_from_end)
  next
    case False
    then have i: "pos p < length ?s" by (simp add: at_end_def)
    let ?close = "?s ! pos p = CHR ''*'' \<and> take 1 (drop (Suc (pos p)) ?s) = ''/''"
    have inc: "in_comment p \<longleftrightarrow> \<not> ?close"
      using less.prems i by (auto simp: in_comment_def c_close_mark_def parser_compare_Cons byte_at_def)
    show ?thesis
    proof (cases ?close)
      case True
      then have "skip_comment cs p = p" using inc by (subst skip_comment.simps) simp
      moreover have "lex_from ?s Text (pos p) = lex_from ?s Block (pos p)"
        unfolding lex_from_Cons [OF i] using True
        by (simp add: opens_line_def opens_block_def quote_markers_def param_marker_def)
      ultimately show ?thesis using less.prems by simp
    next
      case nc: False
      have "length (query (pq (step_char cs p))) - pos (step_char cs p) < length ?s - pos p"
        using i pos_step_char_less [of p cs] by simp
      note IH = less.hyps [OF this]
      have "skip_comment cs p = skip_comment cs (step_char cs p)"
        using False nc inc by (subst skip_comment.simps) simp
      moreover have "lex_from ?s Block (pos p) = lex_from ?s Block (pos (step_char cs p))"
        unfolding lex_from_Cons [OF i] step_pos [OF less.prems(2) False] using nc by (auto simp add: lex_from_def)
      ultimately show ?thesis using IH less.prems step_synced [of p] by simp
    qed
  qed
qed

lemma is_comment_lex:
  assumes "\<not> at_end p" "is_comment p = (b, r)"
  defines "c \<equiv> query (pq p) ! pos p" and "ds \<equiv> drop (Suc (pos p)) (query (pq p))"
  shows "b \<longleftrightarrow> opens_line c ds \<or> opens_block c ds"
    "opens_line c ds \<Longrightarrow> (hash_comment r \<or> dash_comment r) \<and> \<not> c_style_comment r"
    "opens_block c ds \<Longrightarrow> \<not> hash_comment r \<and> \<not> dash_comment r \<and> c_style_comment r"
proof -
  have byte: "byte_at (query (pq p)) (pos p) = Some c"
    using assms(1) by (simp add: byte_at_def at_end_def c_def)
  note defs = is_comment_def Let_def hash_mark_def dash_mark_def c_var_mark_def c_open_mark_def
    parser_compare_Cons opens_line_def opens_block_def numeral_2_eq_2 ds_def [symmetric] byte
  show "b \<longleftrightarrow> opens_line c ds \<or> opens_block c ds"
    using assms(2) by (auto simp: defs split: if_splits)
  show "opens_line c ds \<Longrightarrow> (hash_comment r \<or> dash_comment r) \<and> \<not> c_style_comment r"
    using assms(2) by (auto simp: defs split: if_splits)
  show "opens_block c ds \<Longrightarrow> \<not> hash_comment r \<and> \<not> dash_comment r \<and> c_style_comment r"
    using assms(2) by (auto simp: defs split: if_splits)
qed

lemma tok_rest_lex:
  assumes ok: "ok p" and ne: "\<not> at_end p" and q: "quote p = None"
  shows "ok (tok_rest cs p) \<and> all_markers (tok_rest cs p) = all_markers p"
proof -
  let ?s = "query (pq p)" and ?c = "query (pq p) ! pos p"
  have i: "pos p < length ?s" using ne by (simp add: at_end_def)
  have asc: "ascii_only ?s" using ok by (simp add: ok_def)
  have syn: "synced p" using ok by (simp add: ok_def)
  define p1 where "p1 = p\<lparr>pq := (pq p)\<lparr>last_char := Some (pos p)\<rparr>\<rparr>"
  have p1: "ok p1" "\<not> at_end p1" "synced p1" using ok ne by (simp_all add: p1_def ok_def synced_def at_end_def)
  have lexi: "lex_from ?s Text (pos p) = lex_markers (pos p) Text (?c # drop (Suc (pos p)) ?s)"
    by (rule lex_from_Cons [OF i])
  show ?thesis
  proof (cases "is_query_separator cs p")
    case (Some r)
    then obtain sep where sep: "sep \<in> set query_sep" "parser_compare p sep"
        "r = get_ctype cs (p\<lparr>pos := pos p + length sep\<rparr>)"
      by (auto simp: is_query_separator_def find_Some_iff in_set_conv_nth split: option.splits)
    have r: "synced r" "pq r = pq p" "pos r = pos p + length sep" "quote r = None"
      using sep(3) asc q get_ctype_synced [of "p\<lparr>pos := pos p + length sep\<rparr>"] by simp_all
    have "lex_from ?s Text (pos p) = lex_from ?s Text (pos p + length sep)"
    proof (cases "sep = '';''")
      case True
      then have "?c = CHR '';''" using sep(2) by (auto simp: parser_compare_one bufsimps)
      then show ?thesis using True i lex_from_skip [of "pos p" ?s] lex_special_seps by simp
    next
      case False
      then have g: "sep = [CHR 0x5C, CHR 0x67]" using sep(1) by (simp add: query_sep_def)
      then have c: "?c = CHR 0x5C" "take 1 (drop (Suc (pos p)) ?s) = [CHR 0x67]"
        using sep(2) by (auto simp: parser_compare_Cons bufsimps)
      have "Suc (pos p) < length ?s"
        using c(2) by (cases "Suc (pos p) < length ?s") simp_all
      moreover from this c(2) have "?s ! Suc (pos p) = CHR 0x67" by (simp add: Cons_nth_drop_Suc [symmetric])
      ultimately have "Suc (pos p) < length ?s \<and> ?s ! Suc (pos p) = CHR 0x67" by blast
      then show ?thesis
        using g c(1) i lex_from_skip [of "pos p" ?s] lex_from_skip [of "Suc (pos p)" ?s] lex_special_seps
        by simp
    qed
    moreover have "tok_rest cs p = add_token (skip_spaces cs r)" using Some by (simp add: tok_rest_def)
    moreover have "synced (add_token t) = synced t" for t
      by (simp add: synced_def at_end_def)
    ultimately show ?thesis
      using skip_spaces_lex [of r] r asc ok q by (simp add: ok_def all_markers_def mode_of_def)
  next
    case None
    obtain b r where br: "is_comment p1 = (b, r)" by fastforce
    have eq: "tok_rest cs p = (case is_quote p1 of
        Some x \<Rightarrow> step_char cs (add_token (p1\<lparr>quote := Some x\<rparr>))
      | None \<Rightarrow> if b then skip_comment cs r
          else if is_param_marker r then step_char cs (add_parameter r) else step_char cs r)"
      unfolding tok_rest_def Let_def p1_def [symmetric] br None by (simp split: bool.split option.split)
    have qi: "is_quote p1 = (if ?c \<in> set quote_markers then Some ?c else None)"
      using is_quote_iff [OF p1(3,2)] by (simp add: p1_def)
    note fr = is_comment_frame [OF br]
    have r: "synced r" "\<not> at_end r" "pq r = pq p1" "pos r = pos p" "quote r = None" "query (pq r) = ?s"
      using p1(3,2) fr q by (simp_all add: synced_def at_end_def p1_def)
    let ?line = "opens_line ?c (drop (Suc (pos p)) ?s)" and ?block = "opens_block ?c (drop (Suc (pos p)) ?s)"
    have cm: "b \<longleftrightarrow> ?line \<or> ?block" "?line \<Longrightarrow> (hash_comment r \<or> dash_comment r) \<and> \<not> c_style_comment r"
        "?block \<Longrightarrow> \<not> hash_comment r \<and> \<not> dash_comment r \<and> c_style_comment r"
      using is_comment_lex [OF p1(2) br] by (simp_all add: p1_def)
    consider (quo) "?c \<in> set quote_markers" | (com) "?c \<notin> set quote_markers" "?line"
      | (blk) "?c \<notin> set quote_markers" "?block"
      | (par) "?c \<notin> set quote_markers" "\<not> b" "?c = param_marker"
      | (oth) "?c \<notin> set quote_markers" "\<not> b" "?c \<noteq> param_marker"
      using cm(1) by blast
    then show ?thesis
    proof cases
      case quo
      let ?t = "add_token (p1\<lparr>quote := Some ?c\<rparr>)"
      have t: "synced ?t" "\<not> at_end ?t" "query (pq ?t) = ?s" "pos ?t = pos p"
        using p1(3,2) by (simp_all add: synced_def at_end_def p1_def)
      have "tok_rest cs p = step_char cs ?t" using eq qi quo by simp
      moreover have "lex_from ?s Text (pos p) = lex_from ?s (Quoted ?c) (Suc (pos p))"
        using lexi quo by (simp add: lex_from_def)
      ultimately show ?thesis
        using step_synced [of ?t] step_pos [OF t(1,2)] t asc ok quo q
        by (simp add: ok_def all_markers_def mode_of_def p1_def)
    next
      case com
      have "tok_rest cs p = skip_comment cs r" using eq qi com cm(1) by simp
      moreover have "lex_from ?s Text (pos p) = lex_from ?s Line (Suc (pos p))"
        using com lexi by (auto simp: lex_from_def)
      moreover have "lex_from ?s Line (pos p) = lex_from ?s Line (Suc (pos p))"
        unfolding lex_from_Cons [OF i] using com by (auto simp: lex_from_def opens_line_def)
      ultimately show ?thesis
        using skip_comment_lex [of r] cm(2) com r asc ok q
        by (simp add: ok_def all_markers_def mode_of_def p1_def)
    next
      case blk
      have nl: "\<not> ?line" using blk by (auto simp: opens_line_def opens_block_def)
      have "tok_rest cs p = skip_comment cs r" using eq qi blk cm(1) by simp
      moreover have "lex_from ?s Text (pos p) = lex_from ?s Block (Suc (pos p))"
        using blk nl lexi by (simp add: lex_from_def)
      moreover have "lex_from ?s Block (pos p) = lex_from ?s Block (Suc (pos p))"
        unfolding lex_from_Cons [OF i] using blk by (auto simp: lex_from_def opens_block_def)
      ultimately show ?thesis
        using skip_block_lex [of r] cm(3) blk r asc ok q
        by (simp add: ok_def all_markers_def mode_of_def p1_def)
    next
      case par
      have "is_param_marker r" using par at_marker_iff [OF r(1,2)] r by (simp add: is_param_marker_def)
      then have "tok_rest cs p = step_char cs (add_parameter r)" using eq qi par by simp
      moreover have "synced (add_parameter r)" "\<not> at_end (add_parameter r)"
        using r(1,2) by (simp_all add: synced_def add_parameter_def at_end_def)
      moreover have "lex_from ?s Text (pos p) = pos p # lex_from ?s Text (Suc (pos p))"
        using lexi par cm(1) by (simp add: lex_from_def)
      ultimately show ?thesis
        using step_synced [of "add_parameter r"] step_pos [of "add_parameter r"] r asc ok q
        by (simp add: ok_def all_markers_def mode_of_def p1_def add_parameter_def)
    next
      case oth
      have "\<not> is_param_marker r" using oth at_marker_iff [OF r(1,2)] r by (simp add: is_param_marker_def)
      then have "tok_rest cs p = step_char cs r" using eq qi oth by simp
      moreover have "lex_from ?s Text (pos p) = lex_from ?s Text (Suc (pos p))"
        using lexi oth cm(1) by (simp add: lex_from_def)
      ultimately show ?thesis
        using step_synced [of r] step_pos [of r] r asc ok q
        by (simp add: ok_def all_markers_def mode_of_def p1_def)
    qed
  qed
qed

lemma tok_step_lex:
  assumes ok: "ok p" and ne: "\<not> at_end p"
  shows "ok (tok_step cs p) \<and> all_markers (tok_step cs p) = all_markers p"
proof (cases "quote p")
  case (Some q)
  let ?r = "fst (find_closing_quote cs p None)"
  have q: "q \<in> set quote_markers" "ascii_only (query (pq p))" "synced p"
    using ok Some by (auto simp: ok_def)
  have "tok_step cs p = ?r\<lparr>pq := (pq ?r)\<lparr>last_char := snd (find_closing_quote cs p None)\<rparr>, quote := None\<rparr>"
    by (simp add: tok_step_def Some split_beta)
  moreover have "pq ?r = pq p" using find_closing_quote_frame [of cs p None] by simp
  ultimately show ?thesis
    using find_closing_quote_lex [OF q(2,3) Some q(1), of None] ok Some
    by (simp add: ok_def all_markers_def mode_of_def synced_def at_end_def)
next
  case None
  show ?thesis
  proof (cases "is_space p")
    case False
    then show ?thesis using tok_rest_lex [OF ok ne None] None by (simp add: tok_step_def)
  next
    case True
    let ?p1 = "skip_spaces cs (step_char cs p)"
    have s1: "skip_spaces cs p = ?p1" using ne True by (subst skip_spaces.simps) simp
    have p1: "ok ?p1" "all_markers ?p1 = all_markers p" "quote ?p1 = None"
      using skip_spaces_lex [of p] ok None unfolding s1
      by (simp_all add: ok_def all_markers_def mode_of_def)
    have eq: "tok_step cs p = (if at_end ?p1 then ?p1 else tok_rest cs (add_token ?p1))"
      using None True by (simp add: tok_step_def Let_def)
    have t: "ok (add_token ?p1)" "all_markers (add_token ?p1) = all_markers p" "quote (add_token ?p1) = None"
      using p1 by (simp_all add: ok_def all_markers_def mode_of_def synced_def at_end_def)
    show ?thesis
    proof (cases "at_end ?p1")
      case True
      then show ?thesis using eq p1 by simp
    next
      case False
      then have "\<not> at_end (add_token ?p1)" by (simp add: at_end_def)
      from tok_rest_lex [OF t(1) this t(3)] show ?thesis using eq False t(2) by simp
    qed
  qed
qed

lemma tok_loop_lex: "ok p \<Longrightarrow> param_pos (pq (tok_loop cs p)) = all_markers p"
proof (induction "length (query (pq p)) - pos p" arbitrary: p rule: less_induct)
  case less
  show ?case
  proof (cases "at_end p")
    case True
    then show ?thesis
      by (subst tok_loop.simps) (simp add: all_markers_def lex_from_end at_end_def)
  next
    case False
    have "length (query (pq (tok_step cs p))) - pos (tok_step cs p) < length (query (pq p)) - pos p"
      using tok_step_frame [OF False, of cs] False by (simp add: at_end_def)
    from less.hyps [OF this] tok_step_lex [OF less.prems False] show ?thesis
      using False by (subst tok_loop.simps) simp
  qed
qed

lemma tokenize_lex:
  assumes "ascii_only s"
  shows "param_pos (pq (tokenize cs (init_parser cs (pq_reset s)))) = lex_markers 0 Text s"
proof -
  let ?p = "init_parser cs (pq_reset s)"
  have a: "query (pq ?p) = s" "pos ?p = 0" "quote ?p = None" "param_pos (pq ?p) = []" "ascii_only s"
    using assms by (simp_all add: init_parser_def pq_reset_def)
  have syn: "synced ?p" unfolding init_parser_def using get_ctype_synced a(5) by (simp add: pq_reset_def)
  let ?q = "add_token (skip_spaces cs ?p)"
  have "ok ?q" "all_markers ?q = lex_markers 0 Text s"
    using skip_spaces_lex [of ?p] syn a assms
    by (simp_all add: ok_def all_markers_def mode_of_def synced_def at_end_def lex_from_def)
  then show ?thesis using tok_loop_lex [of ?q] by (simp add: tokenize_def)
qed

lemma parse_lex:
  assumes "ascii_only s"
  shows "param_pos (parse cs (pq_reset s)) = lex_markers 0 Text s"
  using tokenize_lex [OF assms] parse_facts(3) [of cs s] by simp

end

lemma special_codes: "lex_special c \<Longrightarrow> code c \<in> set [34, 39, 96, 35, 45, 47, 63]"
  by (auto simp: lex_special_def quote_markers_def param_marker_def code_def)

lemma special_tables:
  "list_all (\<lambda>k. \<not> has_class (uctype_page00 ! k) MY_SPC \<and> \<not> has_class (uctype_page00 ! k) MY_CTR) [34, 39, 96, 35, 45, 47, 63]"
  "list_all (\<lambda>k. \<not> has_class (ctype_latin1 ! (k + 1)) MY_SPC \<and> \<not> has_class (ctype_latin1 ! (k + 1)) MY_CTR) [34, 39, 96, 35, 45, 47, 63]"
  "has_class (uctype_page00 ! 32) MY_SPC" "has_class (ctype_latin1 ! 33) MY_SPC"
  by code_simp+

lemma utf8mb4_class:
  "s \<noteq> [] \<Longrightarrow> code (s ! 0) < 128 \<Longrightarrow> fst (ctype_utf8mb4 pages s) = uctype_page00 ! code (s ! 0)"
  by (simp add: ctype_utf8mb4_def my_mb_ctype_mb_def utf8mb4_ascii)

lemma latin1_class: "s \<noteq> [] \<Longrightarrow> fst (ctype_8bit_latin1 s) = ctype_latin1 ! (code (s ! 0) + 1)"
  by (simp add: ctype_8bit_latin1_def my_mb_ctype_8bit_def)

lemma special_ascii: "lex_special c \<Longrightarrow> code c < 128"
  using special_codes [of c] by auto

interpretation utf8mb4_sql: sql_classifier "ctype_utf8mb4 pages"
proof unfold_locales
  fix s :: string
  assume s: "s \<noteq> []"
  show "\<not> has_class (fst (ctype_utf8mb4 pages s)) MY_SPC \<and> \<not> has_class (fst (ctype_utf8mb4 pages s)) MY_CTR"
    if "lex_special (s ! 0)"
    using special_codes [OF that] special_tables(1) unfolding utf8mb4_class [OF s special_ascii [OF that]] list_all_iff
    by blast
  show "has_class (fst (ctype_utf8mb4 pages s)) MY_SPC" if "s ! 0 = CHR 0x20"
  proof -
    have "code (s ! 0) = 32" using that by (simp add: code_def)
    then show ?thesis using utf8mb4_class [OF s, of pages] special_tables(3) by simp
  qed
qed

interpretation latin1_sql: sql_classifier ctype_8bit_latin1
proof unfold_locales
  fix s :: string
  assume s: "s \<noteq> []"
  show "\<not> has_class (fst (ctype_8bit_latin1 s)) MY_SPC \<and> \<not> has_class (fst (ctype_8bit_latin1 s)) MY_CTR"
    if "lex_special (s ! 0)"
    using special_codes [OF that] special_tables(2) unfolding latin1_class [OF s] list_all_iff
    by blast
  show "has_class (fst (ctype_8bit_latin1 s)) MY_SPC" if "s ! 0 = CHR 0x20"
  proof -
    have "code (s ! 0) = 32" using that by (simp add: code_def)
    then show ?thesis using latin1_class [OF s] special_tables(4) by simp
  qed
qed

text \<open>C1: for ASCII queries, the parameter markers the driver's parser records are exactly those of
  the lexer: the question marks outside quoted text, line comments and block comments, with the
  backslash escaping inside quotes and the text of \<open>/*! ... */\<close> taken as part of the query.
  This holds for the classifier of the Unicode transport and for that of the ANSI default.\<close>

theorem parse_finds_markers:
  assumes "ascii_only s"
  shows "param_pos (parse (ctype_utf8mb4 pages) (pq_reset s)) = lex_markers 0 Text s \<and>
    param_pos (parse ctype_8bit_latin1 (pq_reset s)) = lex_markers 0 Text s"
  using utf8mb4_sql.parse_lex [OF assms] latin1_sql.parse_lex [OF assms] by blast

theorem parse_finds_markers_witness:
  "param_pos (parse ctype_8bit_latin1 (pq_reset ''INSERT t VALUES (?, \"?\", /*?*/ /*!?*/) -- ?'')) = [17, 34]"
proof -
  let ?s = "''INSERT t VALUES (?, \"?\", /*?*/ /*!?*/) -- ?''"
  have "ascii_only ?s" by code_simp
  moreover have "lex_markers 0 Text ?s = [17, 34]" by code_simp
  ultimately show ?thesis using parse_finds_markers [of ?s] by simp
qed

end
