(* ===== verification/Diag.thy ===== *)
theory Diag
  imports Prelude
begin

text \<open>
  \<^verbatim>\<open>driver/error.cc\<close> and \<^verbatim>\<open>driver/error.h\<close>: the table of SQLSTATEs, which is global and
  rewritten when an environment asks for ODBC 2 behaviour (\<open>myodbc_ov_init\<close> of
  \<^verbatim>\<open>driver/info.cc\<close>), the error record of a handle, the translation of server errors, and the
  diagnostics functions. \<open>MYODBC_STRDRIVERID\<close> comes from a generated header and is the argument
  \<open>drv\<close>; the error numbers of \<^verbatim>\<open>mysqld_error.h\<close>, which is no file of the repository, are the
  argument \<open>er\<close>.
\<close>

section \<open>Return codes\<close>

definition SQL_SUCCESS :: int where "SQL_SUCCESS = 0"
definition SQL_SUCCESS_WITH_INFO :: int where "SQL_SUCCESS_WITH_INFO = 1"
definition SQL_ERROR :: int where "SQL_ERROR = - 1"
definition SQL_INVALID_HANDLE :: int where "SQL_INVALID_HANDLE = - 2"
definition SQL_NO_DATA_FOUND :: int where "SQL_NO_DATA_FOUND = 100"

lemmas retcodes = SQL_SUCCESS_def SQL_SUCCESS_WITH_INFO_def SQL_ERROR_def SQL_INVALID_HANDLE_def
  SQL_NO_DATA_FOUND_def

definition SQL_HANDLE_ENV :: int where "SQL_HANDLE_ENV = 1"
definition SQL_HANDLE_DBC :: int where "SQL_HANDLE_DBC = 2"
definition SQL_HANDLE_STMT :: int where "SQL_HANDLE_STMT = 3"
definition SQL_HANDLE_DESC :: int where "SQL_HANDLE_DESC = 4"

lemmas handle_types = SQL_HANDLE_ENV_def SQL_HANDLE_DBC_def SQL_HANDLE_STMT_def SQL_HANDLE_DESC_def

section \<open>The table of errors\<close>

record err_str =
  es_sqlstate :: string
  es_message :: string
  es_retcode :: int

datatype myodbc_errid =
    MYERR_01000 | MYERR_01004 | MYERR_01S02 | MYERR_01S03 | MYERR_01S04 | MYERR_01S06 | MYERR_07001
  | MYERR_07005 | MYERR_07006 | MYERR_07009 | MYERR_08002 | MYERR_08003 | MYERR_24000 | MYERR_25000
  | MYERR_25S01 | MYERR_34000 | MYERR_HYT00 | MYERR_S1000 | MYERR_S1001 | MYERR_S1002 | MYERR_S1003
  | MYERR_S1004 | MYERR_S1007 | MYERR_S1009 | MYERR_S1010 | MYERR_S1011 | MYERR_S1012 | MYERR_S1013
  | MYERR_S1015 | MYERR_S1016 | MYERR_S1017 | MYERR_S1024 | MYERR_S1090 | MYERR_S1091 | MYERR_S1092
  | MYERR_S1093 | MYERR_S1095 | MYERR_S1106 | MYERR_S1107 | MYERR_S1109 | MYERR_S1C00 | MYERR_21S01
  | MYERR_23000 | MYERR_42000 | MYERR_42S01 | MYERR_42S02 | MYERR_42S12 | MYERR_42S21 | MYERR_42S22
  | MYERR_08S01 | MYERR_08004 | MYERR_HY008

text \<open>The enumeration in its order; \<open>errid_ord\<close> is the number of a constant.\<close>

definition errids :: "myodbc_errid list" where
  "errids = [
    MYERR_01000, MYERR_01004, MYERR_01S02, MYERR_01S03, MYERR_01S04, MYERR_01S06, MYERR_07001,
    MYERR_07005, MYERR_07006, MYERR_07009, MYERR_08002, MYERR_08003, MYERR_24000, MYERR_25000,
    MYERR_25S01, MYERR_34000, MYERR_HYT00, MYERR_S1000, MYERR_S1001, MYERR_S1002, MYERR_S1003,
    MYERR_S1004, MYERR_S1007, MYERR_S1009, MYERR_S1010, MYERR_S1011, MYERR_S1012, MYERR_S1013,
    MYERR_S1015, MYERR_S1016, MYERR_S1017, MYERR_S1024, MYERR_S1090, MYERR_S1091, MYERR_S1092,
    MYERR_S1093, MYERR_S1095, MYERR_S1106, MYERR_S1107, MYERR_S1109, MYERR_S1C00, MYERR_21S01,
    MYERR_23000, MYERR_42000, MYERR_42S01, MYERR_42S02, MYERR_42S12, MYERR_42S21, MYERR_42S22,
    MYERR_08S01, MYERR_08004, MYERR_HY008]"

definition errid_ord :: "myodbc_errid \<Rightarrow> nat" where
  "errid_ord e = length (takeWhile (\<lambda>x. x \<noteq> e) errids)"

definition myodbc3_errors :: "err_str list" where
  "myodbc3_errors = map (\<lambda>(s, m, r). \<lparr>es_sqlstate = s, es_message = m, es_retcode = r\<rparr>) [
    (''01000'', ''General warning'', 1),
    (''01004'', ''String data, right truncated'', 1),
    (''01S02'', ''Option value changed'', 1),
    (''01S03'', ''No rows updated/deleted'', 1),
    (''01S04'', ''More than one row updated/deleted'', 1),
    (''01S06'', ''Attempt to fetch before the result set returned the first rowset'', 1),
    (''07001'', ''SQLBindParameter not used for all parameters'', - 1),
    (''07005'', ''Prepared statement not a cursor-specification'', - 1),
    (''07006'', ''Restricted data type attribute violation'', - 1),
    (''07009'', ''Invalid descriptor index'', - 1),
    (''08002'', ''Connection name in use'', - 1),
    (''08003'', ''Connection does not exist'', - 1),
    (''24000'', ''Invalid cursor state'', - 1),
    (''25000'', ''Invalid transaction state'', - 1),
    (''25S01'', ''Transaction state unknown'', - 1),
    (''34000'', ''Invalid cursor name'', - 1),
    (''HYT00'', ''Timeout expired'', - 1),
    (''HY000'', ''General driver defined error'', - 1),
    (''HY001'', ''Memory allocation error'', - 1),
    (''HY002'', ''Invalid column number'', - 1),
    (''HY003'', ''Invalid application buffer type'', - 1),
    (''HY004'', ''Invalid SQL data type'', - 1),
    (''HY007'', ''Associated statement is not prepared'', - 1),
    (''HY009'', ''Invalid use of null pointer'', - 1),
    (''HY010'', ''Function sequence error'', - 1),
    (''HY011'', ''Attribute can not be set now'', - 1),
    (''HY012'', ''Invalid transaction operation code'', - 1),
    (''HY013'', ''Memory management error'', - 1),
    (''HY015'', ''No cursor name available'', - 1),
    (''HY016'', ''Cannot modify an implementation row descriptor'', - 1),
    (''HY017'', ''Invalid use of an automatically allocated descriptor handle'', - 1),
    (''HY024'', ''Invalid attribute value'', - 1),
    (''HY090'', ''Invalid string or buffer length'', - 1),
    (''HY091'', ''Invalid descriptor field identifier'', - 1),
    (''HY092'', ''Invalid attribute/option identifier'', - 1),
    (''HY093'', ''Invalid parameter number'', - 1),
    (''HY095'', ''Function type out of range'', - 1),
    (''HY106'', ''Fetch type out of range'', - 1),
    (''HY107'', ''Row value out of range'', - 1),
    (''HY109'', ''Invalid cursor position'', - 1),
    (''HYC00'', ''Optional feature not implemented'', - 1),
    (''21S01'', ''Column count does not match value count'', - 1),
    (''23000'', ''Integrity constraint violation'', - 1),
    (''42000'', ''Syntax error or access violation'', - 1),
    (''42S01'', ''Base table or view already exists '', - 1),
    (''42S02'', ''Base table or view not found'', - 1),
    (''42S12'', ''Index not found'', - 1),
    (''42S21'', ''Column already exists'', - 1),
    (''42S22'', ''Column not found'', - 1),
    (''08S01'', ''Communication link failure'', - 1),
    (''08004'', ''Server rejected the connection'', - 1),
    (''HY008'', ''Operation canceled'', - 1)]"

text \<open>The globals: the table, the flag of \<open>myodbc_ov_init\<close> and the three type codes it sets.\<close>

record diag_globals =
  errors :: "err_str list"
  ov2_inited :: bool
  sql_timestamp :: string
  sql_date :: string
  sql_time :: string

definition initial_globals :: diag_globals where
  "initial_globals = \<lparr>errors = myodbc3_errors, ov2_inited = False,
     sql_timestamp = ''93'', sql_date = ''91'', sql_time = ''92''\<rparr>"

definition err_at :: "err_str list \<Rightarrow> myodbc_errid \<Rightarrow> err_str" where
  "err_at tab e = tab ! errid_ord e"

definition set_state :: "myodbc_errid \<Rightarrow> string \<Rightarrow> err_str list \<Rightarrow> err_str list" where
  "set_state e s tab = tab[errid_ord e := (err_at tab e)\<lparr>es_sqlstate := s\<rparr>]"

text \<open>The loop over \<open>MYERR_S1000 .. MYERR_S1C00\<close> that writes the first two characters.\<close>

definition set_classes :: "char \<Rightarrow> char \<Rightarrow> err_str list \<Rightarrow> err_str list" where
  "set_classes c d tab =
     fold (\<lambda>i t. t[i := (t ! i)\<lparr>es_sqlstate := c # d # drop 2 (es_sqlstate (t ! i))\<rparr>])
       [errid_ord MYERR_S1000..<Suc (errid_ord MYERR_S1C00)] tab"

definition myodbc_sqlstate2_init :: "err_str list \<Rightarrow> err_str list" where
  "myodbc_sqlstate2_init tab =
     fold (\<lambda>(e, s). set_state e s)
       [(MYERR_07005, ''24000''), (MYERR_42000, ''37000''), (MYERR_42S01, ''S0001''),
        (MYERR_42S02, ''S0002''), (MYERR_42S12, ''S0012''), (MYERR_42S21, ''S0021''),
        (MYERR_42S22, ''S0022''), (MYERR_HYT00, ''S1T00''), (MYERR_HY008, ''S1008'')]
       (set_classes (CHR ''S'') (CHR ''1'') tab)"

definition myodbc_sqlstate3_init :: "err_str list \<Rightarrow> err_str list" where
  "myodbc_sqlstate3_init tab =
     fold (\<lambda>(e, s). set_state e s)
       [(MYERR_07005, ''07005''), (MYERR_42000, ''42000''), (MYERR_42S01, ''42S01''),
        (MYERR_42S02, ''42S02''), (MYERR_42S12, ''42S12''), (MYERR_42S21, ''42S21''),
        (MYERR_42S22, ''42S22'')]
       (set_classes (CHR ''H'') (CHR ''Y'') tab)"

definition SQL_OV_ODBC2 :: int where "SQL_OV_ODBC2 = 2"

definition myodbc_ov_init :: "int \<Rightarrow> diag_globals \<Rightarrow> diag_globals" where
  "myodbc_ov_init odbc_version g =
     (if odbc_version = SQL_OV_ODBC2 then
        g\<lparr>sql_timestamp := ''11'', sql_date := ''9'', sql_time := ''10'',
          errors := myodbc_sqlstate2_init (errors g), ov2_inited := True\<rparr>
      else if \<not> ov2_inited g then g
      else g\<lparr>ov2_inited := False, sql_timestamp := ''93'', sql_date := ''91'', sql_time := ''92'',
             errors := myodbc_sqlstate3_init (errors g)\<rparr>)"

section \<open>Error records\<close>

record myerror =
  retcode :: int
  current :: int
  message :: string
  native_error :: int
  sqlstate :: string

definition no_error :: myerror where
  "no_error = \<lparr>retcode = 0, current = 0, message = '''', native_error = 0, sqlstate = ''''\<rparr>"

definition myerror_clear :: "myerror \<Rightarrow> myerror" where
  "myerror_clear e = e\<lparr>retcode := 0, message := '''', current := 0, native_error := 0, sqlstate := ''''\<rparr>"

definition MYODBC_ERROR_PREFIX :: "string \<Rightarrow> string" where
  "MYODBC_ERROR_PREFIX drv = ''[MySQL][ODBC '' @ drv @ '' Driver]''"

definition MYODBC_ERROR_CODE_START :: int where "MYODBC_ERROR_CODE_START = 500"

text \<open>The two constructors; null texts are \<open>None\<close>.\<close>

definition myerror_errid :: "err_str list \<Rightarrow> myodbc_errid \<Rightarrow> string option \<Rightarrow> int \<Rightarrow> string \<Rightarrow> myerror" where
  "myerror_errid tab errid errtext errcode prefix =
     \<lparr>retcode = es_retcode (err_at tab errid), current = 0,
      message = prefix @ (case errtext of Some t \<Rightarrow> t | None \<Rightarrow> es_message (err_at tab errid)),
      native_error = (if errcode \<noteq> 0 then errcode else int (errid_ord errid) + MYODBC_ERROR_CODE_START),
      sqlstate = es_sqlstate (err_at tab errid)\<rparr>"

definition myerror_state ::
    "string \<Rightarrow> string option \<Rightarrow> string option \<Rightarrow> int \<Rightarrow> string option \<Rightarrow> myerror" where
  "myerror_state drv state msg errcode prefix =
     \<lparr>retcode = SQL_ERROR, current = 0,
      message = (case prefix of Some p \<Rightarrow> p | None \<Rightarrow> MYODBC_ERROR_PREFIX drv) @
        (case msg of Some m \<Rightarrow> m | None \<Rightarrow> ''''),
      native_error = errcode,
      sqlstate = (case state of Some s \<Rightarrow> s | None \<Rightarrow> '''')\<rparr>"

text \<open>\<open>DBC::set_error(state, message, errcode)\<close> keeps the other fields of the record.\<close>

definition dbc_set_error :: "string \<Rightarrow> string option \<Rightarrow> string \<Rightarrow> int \<Rightarrow> myerror \<Rightarrow> int \<times> myerror" where
  "dbc_set_error drv state msg errcode e =
     (SQL_ERROR, e\<lparr>sqlstate := (case state of Some s \<Rightarrow> s | None \<Rightarrow> ''''),
        message := MYODBC_ERROR_PREFIX drv @ msg, native_error := errcode\<rparr>)"

definition dbc_set_errid ::
    "string \<Rightarrow> err_str list \<Rightarrow> myodbc_errid \<Rightarrow> string option \<Rightarrow> int \<Rightarrow> int \<times> myerror" where
  "dbc_set_errid drv tab errid errtext errcode =
     (let e = myerror_errid tab errid errtext errcode (MYODBC_ERROR_PREFIX drv) in (retcode e, e))"

definition set_env_error ::
    "string \<Rightarrow> err_str list \<Rightarrow> myodbc_errid \<Rightarrow> string option \<Rightarrow> int \<Rightarrow> int \<times> myerror" where
  "set_env_error drv tab errid errtext errcode =
     (let e = myerror_errid tab errid errtext errcode (MYODBC_ERROR_PREFIX drv) in (retcode e, e))"

definition set_desc_error :: "string \<Rightarrow> string option \<Rightarrow> string option \<Rightarrow> int \<Rightarrow> int \<times> myerror" where
  "set_desc_error drv state msg errcode =
     (SQL_ERROR, myerror_state drv state msg errcode (Some (MYODBC_ERROR_PREFIX drv)))"

text \<open>
  \<open>set_handle_error\<close>: the code returned and the new error of the handle, if it has one. The
  prefix of a statement is that of its connection (\<open>stmt->dbc->st_error_prefix\<close>), and that of a
  descriptor the one of the connection of its statement (\<open>desc->stmt->dbc->st_error_prefix\<close>).
  \<open>my_SQLAllocDesc\<close> creates descriptors whose \<open>stmt\<close> is null: for these the argument is \<open>None\<close>,
  and so is the result, because the code follows the null pointer.
\<close>

definition set_handle_error ::
    "string \<Rightarrow> string option \<Rightarrow> err_str list \<Rightarrow> int \<Rightarrow> myodbc_errid \<Rightarrow> string option \<Rightarrow> int
      \<Rightarrow> (int \<times> myerror option) option" where
  "set_handle_error drv st_error_prefix tab HandleType errid errtext errcode =
     (if HandleType = SQL_HANDLE_ENV then
        Some (map_prod (\<lambda>r. r) Some (set_env_error drv tab errid errtext errcode))
      else if HandleType = SQL_HANDLE_DBC then
        Some (map_prod (\<lambda>r. r) Some (dbc_set_errid drv tab errid errtext errcode))
      else if HandleType = SQL_HANDLE_STMT \<or> HandleType = SQL_HANDLE_DESC then
        map_option (\<lambda>prefix. let e = myerror_errid tab errid errtext errcode prefix in (retcode e, Some e))
          st_error_prefix
      else Some (SQL_INVALID_HANDLE, None))"

section \<open>Server errors\<close>

text \<open>The server's error names the driver refers to; their numbers are a parameter.\<close>

datatype er_name =
    ER_DBACCESS_DENIED_ERROR | ER_ACCESS_DENIED_ERROR | ER_WRONG_VALUE_COUNT | ER_DUP_ENTRY
  | ER_DUP_KEY | ER_NO_DB_ERROR | ER_BAD_DB_ERROR | ER_PARSE_ERROR | ER_SP_DOES_NOT_EXIST
  | ER_TABLE_EXISTS_ERROR | ER_FILE_NOT_FOUND | ER_NO_SUCH_TABLE | ER_CANT_OPEN_FILE
  | ER_BAD_TABLE_ERROR | ER_NO_SUCH_INDEX | ER_CANT_DROP_FIELD_OR_KEY | ER_DUP_FIELDNAME
  | ER_BAD_FIELD_ERROR | ER_CLIENT_INTERACTION_TIMEOUT | ER_MUST_CHANGE_PASSWORD_LOGIN

definition CR_UNKNOWN_ERROR :: nat where "CR_UNKNOWN_ERROR = 2000"
definition CR_SOCKET_CREATE_ERROR :: nat where "CR_SOCKET_CREATE_ERROR = 2001"
definition CR_CONNECTION_ERROR :: nat where "CR_CONNECTION_ERROR = 2002"
definition CR_CONN_HOST_ERROR :: nat where "CR_CONN_HOST_ERROR = 2003"
definition CR_IPSOCK_ERROR :: nat where "CR_IPSOCK_ERROR = 2004"
definition CR_UNKNOWN_HOST :: nat where "CR_UNKNOWN_HOST = 2005"
definition CR_SERVER_GONE_ERROR :: nat where "CR_SERVER_GONE_ERROR = 2006"
definition CR_OUT_OF_MEMORY :: nat where "CR_OUT_OF_MEMORY = 2008"
definition CR_SERVER_HANDSHAKE_ERR :: nat where "CR_SERVER_HANDSHAKE_ERR = 2012"
definition CR_SERVER_LOST :: nat where "CR_SERVER_LOST = 2013"
definition CR_AUTH_PLUGIN_CANNOT_LOAD_ERROR :: nat where "CR_AUTH_PLUGIN_CANNOT_LOAD_ERROR = 2059"

lemmas client_errors = CR_UNKNOWN_ERROR_def CR_SOCKET_CREATE_ERROR_def CR_CONNECTION_ERROR_def
  CR_CONN_HOST_ERROR_def CR_IPSOCK_ERROR_def CR_UNKNOWN_HOST_def CR_SERVER_GONE_ERROR_def
  CR_OUT_OF_MEMORY_def CR_SERVER_HANDSHAKE_ERR_def CR_SERVER_LOST_def
  CR_AUTH_PLUGIN_CANNOT_LOAD_ERROR_def

definition strstr_found :: "string \<Rightarrow> string \<Rightarrow> bool" where
  "strstr_found hay needle = list_ex (\<lambda>i. take (length needle) (drop i hay) = needle) [0..<Suc (length hay)]"

text \<open>The tests made before the switch: the driver's own state or that of a server message.\<close>

definition state_by_text :: "err_str list \<Rightarrow> myodbc_errid \<Rightarrow> nat \<Rightarrow> string option \<Rightarrow> string" where
  "state_by_text tab errid mysql_err text =
     (let found = (\<lambda>w. case text of Some t \<Rightarrow> strstr_found t w | None \<Rightarrow> False) in
      if mysql_err = 3024 then es_sqlstate (err_at tab MYERR_HYT00)
      else if mysql_err = 1317 then es_sqlstate (err_at tab MYERR_HY008)
      else if mysql_err = 1105 \<and> found ''context canceled'' then es_sqlstate (err_at tab MYERR_HY008)
      else if found ''there is no user'' then ''28000''
      else es_sqlstate (err_at tab errid))"

definition translate_error ::
    "(er_name \<Rightarrow> nat) \<Rightarrow> err_str list \<Rightarrow> myodbc_errid \<Rightarrow> nat \<Rightarrow> string option \<Rightarrow> string" where
  "translate_error er tab errid mysql_err text =
     (if mysql_err \<in> set [er ER_DBACCESS_DENIED_ERROR, er ER_ACCESS_DENIED_ERROR] then ''28000''
      else if mysql_err = er ER_WRONG_VALUE_COUNT then ''21S01''
      else if mysql_err \<in> set [er ER_DUP_ENTRY, er ER_DUP_KEY] then ''23000''
      else if mysql_err \<in> set [er ER_NO_DB_ERROR, er ER_BAD_DB_ERROR] then ''3D000''
      else if mysql_err \<in> set [er ER_PARSE_ERROR, er ER_SP_DOES_NOT_EXIST]
        then es_sqlstate (err_at tab MYERR_42000)
      else if mysql_err = er ER_TABLE_EXISTS_ERROR then es_sqlstate (err_at tab MYERR_42S01)
      else if mysql_err \<in> set [er ER_FILE_NOT_FOUND, er ER_NO_SUCH_TABLE, er ER_CANT_OPEN_FILE,
          er ER_BAD_TABLE_ERROR] then es_sqlstate (err_at tab MYERR_42S02)
      else if mysql_err \<in> set [er ER_NO_SUCH_INDEX, er ER_CANT_DROP_FIELD_OR_KEY]
        then es_sqlstate (err_at tab MYERR_42S12)
      else if mysql_err = er ER_DUP_FIELDNAME then es_sqlstate (err_at tab MYERR_42S21)
      else if mysql_err = er ER_BAD_FIELD_ERROR then es_sqlstate (err_at tab MYERR_42S22)
      else if mysql_err \<in> set [CR_SOCKET_CREATE_ERROR, CR_CONN_HOST_ERROR, CR_IPSOCK_ERROR,
          CR_UNKNOWN_HOST] then ''08001''
      else if mysql_err \<in> set [CR_SERVER_HANDSHAKE_ERR, CR_CONNECTION_ERROR, CR_SERVER_GONE_ERROR,
          CR_SERVER_LOST, er ER_CLIENT_INTERACTION_TIMEOUT] then ''08S01''
      else if mysql_err \<in> set [er ER_MUST_CHANGE_PASSWORD_LOGIN, CR_AUTH_PLUGIN_CANNOT_LOAD_ERROR]
        then ''08004''
      else state_by_text tab errid mysql_err text)"

definition is_connection_lost :: "(er_name \<Rightarrow> nat) \<Rightarrow> nat \<Rightarrow> bool" where
  "is_connection_lost er errcode \<longleftrightarrow>
     errcode = CR_SERVER_GONE_ERROR \<or> errcode = CR_SERVER_LOST \<or>
     errcode = er ER_CLIENT_INTERACTION_TIMEOUT"

text \<open>\<open>err\<close> and \<open>text\<close> are \<open>mysql_errno\<close> and \<open>mysql_error\<close> of the connection.\<close>

definition handle_connection_error ::
    "string \<Rightarrow> string \<Rightarrow> (er_name \<Rightarrow> nat) \<Rightarrow> nat \<Rightarrow> string \<Rightarrow> myerror \<Rightarrow> int \<times> myerror" where
  "handle_connection_error drv st_error_prefix er err text old =
     (let set_error = (\<lambda>state. let e = myerror_state drv (Some state) (Some text) (int err) (Some st_error_prefix)
          in (retcode e, e)) in
      if err = 0 then (SQL_SUCCESS, old)
      else if err \<in> set [CR_SERVER_GONE_ERROR, CR_SERVER_LOST, er ER_CLIENT_INTERACTION_TIMEOUT]
        then set_error ''08S01''
      else if err = CR_OUT_OF_MEMORY then set_error ''HY001''
      else set_error ''HY000'')"

section \<open>Reading diagnostics\<close>

text \<open>\<open>handle\<close> is the error record of the handle, or \<open>None\<close> for a null handle.\<close>

definition MySQLGetDiagRec ::
    "int \<Rightarrow> myerror option \<Rightarrow> int \<Rightarrow> int \<times> (string \<times> int \<times> string) option" where
  "MySQLGetDiagRec handle_type handle record =
     (case handle of
        None \<Rightarrow> (SQL_ERROR, None)
      | Some error \<Rightarrow>
          if record \<le> 0 then (SQL_ERROR, None)
          else if record > 1 then (SQL_NO_DATA_FOUND, None)
          else if handle_type \<notin> set [SQL_HANDLE_STMT, SQL_HANDLE_DBC, SQL_HANDLE_ENV, SQL_HANDLE_DESC]
            then (SQL_INVALID_HANDLE, None)
          else if message error = '''' then (SQL_NO_DATA_FOUND, Some (''00000'', 0, ''''))
          else (SQL_SUCCESS, Some (sqlstate error, native_error error, message error)))"

definition odbc3_subclasses :: "string list" where
  "odbc3_subclasses = [''01S00'', ''01S01'', ''01S02'', ''01S06'', ''01S07'', ''07S01'',
    ''08S01'', ''21S01'', ''21S02'', ''25S01'', ''25S02'', ''25S03'', ''42S01'', ''42S02'',
    ''42S11'', ''42S12'', ''42S21'', ''42S22'', ''HY095'', ''HY097'', ''HY098'', ''HY099'',
    ''HY100'', ''HY101'', ''HY105'', ''HY107'', ''HY109'', ''HY110'', ''HY111'', ''HYT00'',
    ''HYT01'', ''IM001'', ''IM002'', ''IM003'', ''IM004'', ''IM005'', ''IM006'', ''IM007'',
    ''IM008'', ''IM010'', ''IM011'', ''IM012'']"

definition is_odbc3_subclass :: "string \<Rightarrow> bool" where
  "is_odbc3_subclass state = (if state = '''' then False else state \<in> set odbc3_subclasses)"

text \<open>The identifiers of \<open>MySQLGetDiagField\<close>, with the numbers of the ODBC headers.\<close>

definition SQL_DIAG_CURSOR_ROW_COUNT :: int where "SQL_DIAG_CURSOR_ROW_COUNT = - 1249"
definition SQL_DIAG_ROW_NUMBER :: int where "SQL_DIAG_ROW_NUMBER = - 1248"
definition SQL_DIAG_COLUMN_NUMBER :: int where "SQL_DIAG_COLUMN_NUMBER = - 1247"
definition SQL_DIAG_RETURNCODE :: int where "SQL_DIAG_RETURNCODE = 1"
definition SQL_DIAG_NUMBER :: int where "SQL_DIAG_NUMBER = 2"
definition SQL_DIAG_ROW_COUNT :: int where "SQL_DIAG_ROW_COUNT = 3"
definition SQL_DIAG_SQLSTATE :: int where "SQL_DIAG_SQLSTATE = 4"
definition SQL_DIAG_NATIVE :: int where "SQL_DIAG_NATIVE = 5"
definition SQL_DIAG_MESSAGE_TEXT :: int where "SQL_DIAG_MESSAGE_TEXT = 6"
definition SQL_DIAG_DYNAMIC_FUNCTION :: int where "SQL_DIAG_DYNAMIC_FUNCTION = 7"
definition SQL_DIAG_CLASS_ORIGIN :: int where "SQL_DIAG_CLASS_ORIGIN = 8"
definition SQL_DIAG_SUBCLASS_ORIGIN :: int where "SQL_DIAG_SUBCLASS_ORIGIN = 9"
definition SQL_DIAG_CONNECTION_NAME :: int where "SQL_DIAG_CONNECTION_NAME = 10"
definition SQL_DIAG_SERVER_NAME :: int where "SQL_DIAG_SERVER_NAME = 11"
definition SQL_DIAG_DYNAMIC_FUNCTION_CODE :: int where "SQL_DIAG_DYNAMIC_FUNCTION_CODE = 12"

lemmas diag_ids = SQL_DIAG_CURSOR_ROW_COUNT_def SQL_DIAG_ROW_NUMBER_def SQL_DIAG_COLUMN_NUMBER_def
  SQL_DIAG_RETURNCODE_def SQL_DIAG_NUMBER_def SQL_DIAG_ROW_COUNT_def SQL_DIAG_SQLSTATE_def
  SQL_DIAG_NATIVE_def SQL_DIAG_MESSAGE_TEXT_def SQL_DIAG_DYNAMIC_FUNCTION_def
  SQL_DIAG_CLASS_ORIGIN_def SQL_DIAG_SUBCLASS_ORIGIN_def SQL_DIAG_CONNECTION_NAME_def
  SQL_DIAG_SERVER_NAME_def SQL_DIAG_DYNAMIC_FUNCTION_CODE_def

text \<open>
  What the function reads of a handle: its error, the rows of the result of a statement, its
  affected rows, and the names of the data source of the connection. \<open>SQL_COLUMN_NUMBER_UNKNOWN\<close>
  and \<open>SQL_ROW_NUMBER_UNKNOWN\<close> are -2.
\<close>

record diag_handle =
  dh_error :: myerror
  dh_result :: "nat option"
  dh_affected_rows :: int
  dh_dsn :: "string option"
  dh_server :: "string option"

datatype diag_value = DNum int | DStr "string option"

definition diag_record_field :: "int \<Rightarrow> diag_value \<Rightarrow> int \<times> diag_value option" where
  "diag_record_field record v =
     (if record \<le> 0 then (SQL_ERROR, None) else (SQL_SUCCESS, Some v))"

definition diag_stmt_field :: "int \<Rightarrow> diag_value \<Rightarrow> int \<times> diag_value option" where
  "diag_stmt_field handle_type v =
     (if handle_type \<noteq> SQL_HANDLE_STMT then (SQL_ERROR, None) else (SQL_SUCCESS, Some v))"

definition class_origin :: "string \<Rightarrow> string" where
  "class_origin state =
     (if state \<noteq> '''' \<and> state ! 0 = CHR ''I'' \<and> cget state 1 = CHR ''M'' then ''ODBC 3.0''
      else ''ISO 9075'')"

definition MySQLGetDiagField ::
    "int \<Rightarrow> diag_handle option \<Rightarrow> int \<Rightarrow> int \<Rightarrow> int \<times> diag_value option" where
  "MySQLGetDiagField handle_type handle record identifier =
     (case handle of
        None \<Rightarrow> (SQL_ERROR, None)
      | Some h \<Rightarrow>
          if handle_type \<notin> set [SQL_HANDLE_DESC, SQL_HANDLE_STMT, SQL_HANDLE_DBC, SQL_HANDLE_ENV]
            then (SQL_ERROR, None)
          else if record > 1 then (SQL_NO_DATA_FOUND, None)
          else if identifier = SQL_DIAG_CURSOR_ROW_COUNT then
            diag_stmt_field handle_type (DNum (case dh_result h of None \<Rightarrow> 0 | Some n \<Rightarrow> int n))
          else if identifier = SQL_DIAG_DYNAMIC_FUNCTION then
            diag_stmt_field handle_type (DStr (Some ''''))
          else if identifier = SQL_DIAG_DYNAMIC_FUNCTION_CODE then diag_stmt_field handle_type (DNum 0)
          else if identifier = SQL_DIAG_NUMBER then (SQL_SUCCESS, Some (DNum 1))
          else if identifier = SQL_DIAG_RETURNCODE then (SQL_SUCCESS, Some (DNum (retcode (dh_error h))))
          else if identifier = SQL_DIAG_ROW_COUNT then
            diag_stmt_field handle_type (DNum (dh_affected_rows h))
          else if identifier = SQL_DIAG_CLASS_ORIGIN then
            diag_record_field record (DStr (Some (class_origin (sqlstate (dh_error h)))))
          else if identifier = SQL_DIAG_COLUMN_NUMBER then diag_record_field record (DNum (- 2))
          else if identifier = SQL_DIAG_CONNECTION_NAME then
            diag_record_field record
              (DStr (if handle_type = SQL_HANDLE_ENV then Some '''' else dh_dsn h))
          else if identifier = SQL_DIAG_MESSAGE_TEXT then
            diag_record_field record (DStr (Some (message (dh_error h))))
          else if identifier = SQL_DIAG_NATIVE then (SQL_SUCCESS, Some (DNum (native_error (dh_error h))))
          else if identifier = SQL_DIAG_ROW_NUMBER then diag_record_field record (DNum (- 2))
          else if identifier = SQL_DIAG_SERVER_NAME then
            diag_record_field record
              (DStr (if handle_type = SQL_HANDLE_ENV then Some '''' else dh_server h))
          else if identifier = SQL_DIAG_SQLSTATE then
            diag_record_field record (DStr (Some (sqlstate (dh_error h))))
          else if identifier = SQL_DIAG_SUBCLASS_ORIGIN then
            diag_record_field record
              (DStr (Some (if is_odbc3_subclass (sqlstate (dh_error h)) then ''ODBC 3.0'' else ''ISO 9075'')))
          else (SQL_ERROR, None))"

section \<open>The table through the changes of version\<close>

definition odbc2_errors :: "err_str list" where
  "odbc2_errors = myodbc_sqlstate2_init myodbc3_errors"

definition restored_errors :: "err_str list" where
  "restored_errors = set_state MYERR_HY008 ''S1008'' (set_state MYERR_HYT00 ''S1T00'' myodbc3_errors)"

lemma sqlstate2_init_tables:
  "myodbc_sqlstate2_init odbc2_errors = odbc2_errors"
  "myodbc_sqlstate2_init restored_errors = odbc2_errors"
  "myodbc_sqlstate3_init odbc2_errors = restored_errors"
  by code_simp+

inductive ov_reach :: "diag_globals \<Rightarrow> bool \<Rightarrow> bool" where
  start: "ov_reach initial_globals False"
| init: "ov_reach g seen \<Longrightarrow> ov_reach (myodbc_ov_init v g) (seen \<or> v = SQL_OV_ODBC2)"

lemma ov_reach_table:
  "ov_reach g seen \<Longrightarrow>
     errors g = (if ov2_inited g then odbc2_errors else if seen then restored_errors else myodbc3_errors)
     \<and> (ov2_inited g \<longrightarrow> seen)"
proof (induction rule: ov_reach.induct)
  case start
  then show ?case by (simp add: initial_globals_def)
next
  case (init g seen v)
  then show ?case
    using sqlstate2_init_tables by (auto simp: myodbc_ov_init_def odbc2_errors_def [symmetric])
qed

lemma table_classes:
  "list_all (\<lambda>t. list_all (\<lambda>r. length (es_sqlstate r) = 5 \<and>
      (es_retcode r = SQL_SUCCESS_WITH_INFO \<longleftrightarrow> take 2 (es_sqlstate r) = ''01'') \<and>
      (es_retcode r \<in> set [SQL_SUCCESS_WITH_INFO, SQL_ERROR]) \<and> es_message r \<noteq> '''') t \<and> length t = 52)
     [myodbc3_errors, odbc2_errors, restored_errors]"
  by code_simp

lemma errid_in: "e \<in> set errids"
  by (cases e) (simp_all add: errids_def)

lemma errid_ord_less: "errid_ord e < length errids"
proof -
  obtain ys zs where h: "errids = ys @ e # zs" "e \<notin> set ys"
    using split_list_first [OF errid_in [of e]] by blast
  have "takeWhile (\<lambda>x. x \<noteq> e) (us @ e # ws) = us" if "e \<notin> set us" for us ws
    using that by (induction us) auto
  then show ?thesis unfolding errid_ord_def h(1) using h(2) by simp
qed

lemma errid_ord_nth: "errids ! errid_ord e = e"
  using nth_length_takeWhile [of "\<lambda>x. x \<noteq> e" errids] errid_ord_less [of e]
  by (simp add: errid_ord_def)

lemma errid_ord_inject: "errid_ord a = errid_ord b \<longleftrightarrow> a = b"
  by (metis errid_ord_nth)

text \<open>The order of the enumeration, which the driver's loops and comparisons use.\<close>

instantiation myodbc_errid :: linorder
begin

definition less_eq_myodbc_errid :: "myodbc_errid \<Rightarrow> myodbc_errid \<Rightarrow> bool" where
  "less_eq_myodbc_errid a b \<longleftrightarrow> errid_ord a \<le> errid_ord b"

definition less_myodbc_errid :: "myodbc_errid \<Rightarrow> myodbc_errid \<Rightarrow> bool" where
  "less_myodbc_errid a b \<longleftrightarrow> errid_ord a < errid_ord b"

instance
  by standard (auto simp: less_eq_myodbc_errid_def less_myodbc_errid_def errid_ord_inject)

end

lemma length_tables: "ov_reach g seen \<Longrightarrow> length (errors g) = length errids"
proof -
  assume "ov_reach g seen"
  then have "errors g \<in> set [myodbc3_errors, odbc2_errors, restored_errors]"
    using ov_reach_table [of g seen] by (cases "ov2_inited g") auto
  moreover have "length errids = 52" by code_simp
  ultimately show ?thesis using table_classes by (auto simp: list_all_iff)
qed

text \<open>A table of errors reached by any sequence of version changes is well formed for every
  error the driver can name: five characters of state, a text, and a return code that is
  \<open>SQL_SUCCESS_WITH_INFO\<close> exactly for the states of class 01.\<close>

theorem err_table_wf:
  assumes "ov_reach g seen"
  shows "length (es_sqlstate (err_at (errors g) e)) = 5 \<and> es_message (err_at (errors g) e) \<noteq> '''' \<and>
    es_retcode (err_at (errors g) e) \<in> {SQL_SUCCESS_WITH_INFO, SQL_ERROR} \<and>
    (es_retcode (err_at (errors g) e) = SQL_SUCCESS_WITH_INFO
      \<longleftrightarrow> take 2 (es_sqlstate (err_at (errors g) e)) = ''01'')"
proof -
  have "errors g \<in> set [myodbc3_errors, odbc2_errors, restored_errors]"
    using ov_reach_table [OF assms] by (cases "ov2_inited g") auto
  moreover have "err_at (errors g) e \<in> set (errors g)"
    using length_tables [OF assms] errid_ord_less [of e] by (simp add: err_at_def)
  ultimately show ?thesis using table_classes by (fastforce simp: list_all_iff)
qed

theorem err_table_wf_witness:
  "length (es_sqlstate (err_at (errors (myodbc_ov_init 2 initial_globals)) MYERR_HYT00)) = 5"
proof -
  have "ov_reach (myodbc_ov_init 2 initial_globals) (False \<or> 2 = SQL_OV_ODBC2)"
    by (intro ov_reach.intros)
  from err_table_wf [OF this] show ?thesis by blast
qed

text \<open>After any sequence of version changes, an environment of ODBC 3 sees the original table,
  unless an environment of ODBC 2 was ever opened: then the states of \<open>MYERR_HYT00\<close> and
  \<open>MYERR_HY008\<close> remain those of ODBC 2, because \<open>myodbc_sqlstate3_init\<close> does not restore them, and
  every other entry is the original.\<close>

theorem ov_init_restores:
  assumes "ov_reach g seen" "\<not> ov2_inited g"
  shows "errors g = (if seen
    then set_state MYERR_HY008 ''S1008'' (set_state MYERR_HYT00 ''S1T00'' myodbc3_errors)
    else myodbc3_errors)"
  using ov_reach_table [OF assms(1)] assms(2) by (simp add: restored_errors_def)

theorem ov_init_restores_witness:
  "es_sqlstate (err_at (errors (myodbc_ov_init 3 (myodbc_ov_init 2 initial_globals))) MYERR_HYT00) = ''S1T00''"
proof -
  let ?g = "myodbc_ov_init 3 (myodbc_ov_init 2 initial_globals)"
  have "ov_reach ?g ((False \<or> 2 = SQL_OV_ODBC2) \<or> 3 = SQL_OV_ODBC2)" by (intro ov_reach.intros)
  moreover have "\<not> ov2_inited ?g" by (simp add: myodbc_ov_init_def SQL_OV_ODBC2_def)
  ultimately have "errors ?g = set_state MYERR_HY008 ''S1008'' (set_state MYERR_HYT00 ''S1T00'' myodbc3_errors)"
    using ov_init_restores by (simp add: SQL_OV_ODBC2_def)
  moreover have "es_sqlstate (err_at (set_state MYERR_HY008 ''S1008'' (set_state MYERR_HYT00 ''S1T00''
      myodbc3_errors)) MYERR_HYT00) = ''S1T00''" by code_simp
  ultimately show ?thesis by simp
qed

section \<open>Server errors and lost connections\<close>

text \<open>What the server's header documents: one number per name, none in the client's range.\<close>

definition server_codes :: "(er_name \<Rightarrow> nat) \<Rightarrow> bool" where
  "server_codes er \<longleftrightarrow> inj er \<and> (\<forall>x. 0 < er x \<and> (er x < 2000 \<or> 2999 < er x))"

text \<open>An error that \<open>is_connection_lost\<close> takes for a lost connection becomes SQLSTATE 08S01
  both in \<open>translate_error\<close>, whatever the text and the driver's own error, and in
  \<open>handle_connection_error\<close>; no other error becomes 08S01 in \<open>handle_connection_error\<close>.\<close>

theorem connection_lost_state:
  assumes "server_codes er" "is_connection_lost er err"
  shows "translate_error er tab errid err text = ''08S01'' \<and>
    handle_connection_error drv prefix er err msg old =
      (SQL_ERROR, \<lparr>retcode = SQL_ERROR, current = 0, message = prefix @ msg, native_error = int err,
         sqlstate = ''08S01''\<rparr>)"
proof -
  have "er x < 2000 \<or> 2999 < er x" "0 < er x" for x
    using assms(1) by (auto simp: server_codes_def)
  then have r: "er x \<noteq> k" if "2000 \<le> k" "k \<le> 2999" for x k
    using that by (meson leD not_le)
  consider (client) "err = 2006 \<or> err = 2013" | (server) "err = er ER_CLIENT_INTERACTION_TIMEOUT"
    using assms(2) by (auto simp: is_connection_lost_def client_errors)
  then show ?thesis
  proof cases
    case client
    then have "err \<noteq> er x" for x using r [of err x] by auto
    with client show ?thesis
      by (auto simp: translate_error_def handle_connection_error_def client_errors Let_def myerror_state_def
          SQL_ERROR_def)
  next
    case server
    have "er x = er y \<longleftrightarrow> x = y" for x y
      using assms(1) by (auto simp: server_codes_def inj_def)
    moreover have "(er ER_CLIENT_INTERACTION_TIMEOUT = 0) = False"
      using assms(1) by (metis server_codes_def less_numeral_extra(3))
    ultimately show ?thesis
      using server r [symmetric] by (simp add: translate_error_def handle_connection_error_def client_errors Let_def
          myerror_state_def SQL_ERROR_def r)
  qed
qed

text \<open>The numbers of the server's documentation.\<close>

fun mysql_er :: "er_name \<Rightarrow> nat" where
  "mysql_er ER_DBACCESS_DENIED_ERROR = 1044"
| "mysql_er ER_ACCESS_DENIED_ERROR = 1045"
| "mysql_er ER_WRONG_VALUE_COUNT = 1058"
| "mysql_er ER_DUP_ENTRY = 1062"
| "mysql_er ER_DUP_KEY = 1022"
| "mysql_er ER_NO_DB_ERROR = 1046"
| "mysql_er ER_BAD_DB_ERROR = 1049"
| "mysql_er ER_PARSE_ERROR = 1064"
| "mysql_er ER_SP_DOES_NOT_EXIST = 1305"
| "mysql_er ER_TABLE_EXISTS_ERROR = 1050"
| "mysql_er ER_FILE_NOT_FOUND = 1017"
| "mysql_er ER_NO_SUCH_TABLE = 1146"
| "mysql_er ER_CANT_OPEN_FILE = 1016"
| "mysql_er ER_BAD_TABLE_ERROR = 1051"
| "mysql_er ER_NO_SUCH_INDEX = 1082"
| "mysql_er ER_CANT_DROP_FIELD_OR_KEY = 1091"
| "mysql_er ER_DUP_FIELDNAME = 1060"
| "mysql_er ER_BAD_FIELD_ERROR = 1054"
| "mysql_er ER_CLIENT_INTERACTION_TIMEOUT = 4031"
| "mysql_er ER_MUST_CHANGE_PASSWORD_LOGIN = 1862"

lemma mysql_er_codes: "server_codes mysql_er"
proof -
  have "x = y" if "mysql_er x = mysql_er y" for x y
    using that by (cases x; cases y; simp)
  moreover have "0 < mysql_er x \<and> (mysql_er x < 2000 \<or> 2999 < mysql_er x)" for x
    by (cases x) simp_all
  ultimately show ?thesis by (auto simp: server_codes_def inj_def)
qed

theorem connection_lost_state_witness:
  "translate_error mysql_er myodbc3_errors MYERR_S1000 2013 None = ''08S01'' \<and>
   translate_error mysql_er myodbc3_errors MYERR_S1000 4031 None = ''08S01''"
proof -
  have "is_connection_lost mysql_er 2013" "is_connection_lost mysql_er 4031"
    by (simp_all add: is_connection_lost_def client_errors)
  with connection_lost_state [OF mysql_er_codes] show ?thesis by blast
qed

section \<open>An error reported is the error read\<close>

text \<open>C36: the error that \<open>set_handle_error\<close> records on an environment, a connection, a statement, or a
  descriptor that belongs to a statement is what the diagnostics functions return for record 1 of that handle:
  the state of the table, the native code given (or 500 plus the number of the error) and the prefixed text; the
  return code is that of the table, and there is no record 2. For a statement or its descriptor the prefix of the
  connection must not be empty (connecting sets it). For a descriptor that the application
  allocated, which has no statement, the call follows a null pointer instead of recording anything.\<close>

theorem set_error_then_diag:
  assumes "set_handle_error drv prefix tab ht errid text errcode = Some (rc, Some e)" "prefix \<noteq> Some ''''"
    "dh_error h = e"
  shows "rc = es_retcode (err_at tab errid) \<and>
    (ht = SQL_HANDLE_ENV \<or> ht = SQL_HANDLE_DBC \<or> prefix \<noteq> None) \<and>
    MySQLGetDiagRec ht (Some e) 1 = (SQL_SUCCESS, Some (es_sqlstate (err_at tab errid),
      if errcode = 0 then 500 + int (errid_ord errid) else errcode,
      (if ht = SQL_HANDLE_ENV \<or> ht = SQL_HANDLE_DBC then MYODBC_ERROR_PREFIX drv else the prefix) @
        (case text of Some t \<Rightarrow> t | None \<Rightarrow> es_message (err_at tab errid)))) \<and>
    MySQLGetDiagRec ht (Some e) 2 = (SQL_NO_DATA_FOUND, None) \<and>
    MySQLGetDiagField ht (Some h) 1 SQL_DIAG_SQLSTATE =
      (SQL_SUCCESS, Some (DStr (Some (es_sqlstate (err_at tab errid))))) \<and>
    MySQLGetDiagField ht (Some h) 0 SQL_DIAG_RETURNCODE = (SQL_SUCCESS, Some (DNum rc)) \<and>
    set_handle_error drv None tab SQL_HANDLE_DESC errid text errcode = None"
proof -
  let ?p = "if ht = SQL_HANDLE_ENV \<or> ht = SQL_HANDLE_DBC then MYODBC_ERROR_PREFIX drv else the prefix"
  have ht: "ht \<in> set [SQL_HANDLE_STMT, SQL_HANDLE_DBC, SQL_HANDLE_ENV, SQL_HANDLE_DESC]"
    and e: "e = myerror_errid tab errid text errcode ?p" "rc = retcode e"
    and given: "ht = SQL_HANDLE_ENV \<or> ht = SQL_HANDLE_DBC \<or> prefix \<noteq> None"
    using assms(1)
    by (auto simp: set_handle_error_def set_env_error_def dbc_set_errid_def Let_def handle_types split: if_splits)
  have "?p \<noteq> ''''" using assms(2) given by (auto simp: MYODBC_ERROR_PREFIX_def)
  then have "message e \<noteq> ''''" by (simp add: e(1) myerror_errid_def)
  moreover have "set [SQL_HANDLE_STMT, SQL_HANDLE_DBC, SQL_HANDLE_ENV, SQL_HANDLE_DESC] =
      set [SQL_HANDLE_DESC, SQL_HANDLE_STMT, SQL_HANDLE_DBC, SQL_HANDLE_ENV]" by auto
  moreover have "MySQLGetDiagRec ht (Some e) 1 = (SQL_SUCCESS, Some (sqlstate e, native_error e, message e))"
    "MySQLGetDiagRec ht (Some e) 2 = (SQL_NO_DATA_FOUND, None)"
    using calculation(1) ht by (simp_all add: MySQLGetDiagRec_def)
  moreover have "MySQLGetDiagField ht (Some h) 1 SQL_DIAG_SQLSTATE = (SQL_SUCCESS, Some (DStr (Some (sqlstate e))))"
      "MySQLGetDiagField ht (Some h) 0 SQL_DIAG_RETURNCODE = (SQL_SUCCESS, Some (DNum (retcode e)))"
    using ht calculation(2) assms(3)
    by (simp_all only: MySQLGetDiagField_def option.case) (simp_all add: diag_ids diag_record_field_def)
  moreover have "sqlstate e = es_sqlstate (err_at tab errid)" "retcode e = es_retcode (err_at tab errid)"
      "native_error e = (if errcode = 0 then 500 + int (errid_ord errid) else errcode)"
      "message e = ?p @ (case text of Some t \<Rightarrow> t | None \<Rightarrow> es_message (err_at tab errid))"
    by (simp_all add: e(1) myerror_errid_def MYODBC_ERROR_CODE_START_def)
  moreover have "set_handle_error drv None tab SQL_HANDLE_DESC errid text errcode = None"
    by (simp add: set_handle_error_def handle_types)
  ultimately show ?thesis using e(2) given by (simp only: simp_thms)
qed

theorem set_error_then_diag_witness:
  "\<exists>rc e. set_handle_error ''9.9'' (Some ''[P]'') myodbc3_errors SQL_HANDLE_STMT MYERR_S1106 None 0 = Some (rc, Some e) \<and>
     fst (MySQLGetDiagRec SQL_HANDLE_STMT (Some e) 1) = SQL_SUCCESS"
proof -
  obtain rc e where e: "set_handle_error ''9.9'' (Some ''[P]'') myodbc3_errors SQL_HANDLE_STMT MYERR_S1106 None 0 =
      Some (rc, Some e)"
    by (simp add: set_handle_error_def handle_types Let_def)
  have "dh_error \<lparr>dh_error = e, dh_result = None, dh_affected_rows = 0, dh_dsn = None, dh_server = None\<rparr> = e"
    by simp
  from set_error_then_diag [OF e _ this] e show ?thesis by simp
qed

text \<open>An error set with an explicit SQLSTATE on a connection leaves the return code of its
  diagnostics as it was: after \<open>DBC::set_error(state, message, code)\<close> returned \<open>SQL_ERROR\<close> on a
  connection without errors, \<open>SQL_DIAG_RETURNCODE\<close> still reports 0, while the record is there.\<close>

theorem dbc_set_error_keeps_retcode:
  assumes "dh_error h = snd (dbc_set_error drv (Some state) msg native no_error)"
  shows "fst (dbc_set_error drv (Some state) msg native no_error) = SQL_ERROR \<and>
    MySQLGetDiagField SQL_HANDLE_DBC (Some h) 0 SQL_DIAG_RETURNCODE = (SQL_SUCCESS, Some (DNum SQL_SUCCESS)) \<and>
    MySQLGetDiagRec SQL_HANDLE_DBC (Some (dh_error h)) 1 =
      (SQL_SUCCESS, Some (state, native, MYODBC_ERROR_PREFIX drv @ msg))"
  using assms
  by (simp add: dbc_set_error_def no_error_def MySQLGetDiagField_def MySQLGetDiagRec_def diag_ids
      handle_types retcodes MYODBC_ERROR_PREFIX_def)

theorem dbc_set_error_keeps_retcode_witness:
  "fst (dbc_set_error ''9'' (Some ''HY024'') ''Invalid attribute value'' 0 no_error) = SQL_ERROR"
  using dbc_set_error_keeps_retcode [where h = "\<lparr>dh_error = snd (dbc_set_error ''9'' (Some ''HY024'')
      ''Invalid attribute value'' 0 no_error), dh_result = None, dh_affected_rows = 0, dh_dsn = None, dh_server = None\<rparr>"]
  by simp

end
