(* ===== verification/TempBuf.thy ===== *)
theory TempBuf
  imports Prelude
begin

text \<open>
  \<open>tempBuf\<close> of \<^verbatim>\<open>driver/parse.h\<close> and \<^verbatim>\<open>driver/utility.cc\<close>: the growing byte buffer that
  queries, parameter data and descriptor names are collected in. A cell of the allocated memory
  that was never written is \<open>None\<close>; its length is \<open>buf_len\<close>. A C++ exception is the result
  \<open>None\<close> of an operation. Allocation does not fail, and pointers into the buffer are offsets.
\<close>

section \<open>The buffer and its operations\<close>

record temp_buf =
  tb_buf :: "char option list"
  cur_pos :: nat

definition buf_len :: "temp_buf \<Rightarrow> nat" where
  "buf_len b = length (tb_buf b)"

definition extend_buffer :: "nat \<Rightarrow> temp_buf \<Rightarrow> temp_buf option" where
  "extend_buffer len b =
     (if cur_pos b > buf_len b then None
      else if len > buf_len b - cur_pos b
      then Some (b\<lparr>tb_buf := tb_buf b @ replicate len None\<rparr>) else Some b)"

definition new_temp_buf :: "nat \<Rightarrow> temp_buf option" where
  "new_temp_buf sz =
     (let b = \<lparr>tb_buf = [], cur_pos = 0\<rparr> in if sz \<noteq> 0 then extend_buffer sz b else Some b)"

text \<open>\<open>memcpy\<close> into the cells from the position on; writing past the end is \<open>None\<close>.\<close>

definition poke_bytes :: "nat \<Rightarrow> string \<Rightarrow> char option list \<Rightarrow> char option list option" where
  "poke_bytes i bs cells =
     (if i + length bs \<le> length cells
      then Some (take i cells @ map Some bs @ drop (i + length bs) cells) else None)"

definition add_to_buffer :: "string \<Rightarrow> temp_buf \<Rightarrow> temp_buf option" where
  "add_to_buffer from b =
     (if cur_pos b > buf_len b then None
      else
        let len = length from;
            extend_by = (if buf_len b - cur_pos b \<ge> len then 0 else buf_len b - cur_pos b + len)
        in Option.bind (extend_buffer extend_by b) (\<lambda>b1.
             map_option (\<lambda>cells. b1\<lparr>tb_buf := cells, cur_pos := cur_pos b1 + len\<rparr>)
               (poke_bytes (cur_pos b1) from (tb_buf b1))))"

text \<open>The overloads with a pointer \<open>to\<close> into the buffer.\<close>

definition extend_buffer_to :: "nat \<Rightarrow> nat \<Rightarrow> temp_buf \<Rightarrow> temp_buf option" where
  "extend_buffer_to to len b = extend_buffer len (b\<lparr>cur_pos := to\<rparr>)"

definition add_to_buffer_to :: "nat \<Rightarrow> string \<Rightarrow> temp_buf \<Rightarrow> temp_buf option" where
  "add_to_buffer_to to from b =
     (let b1 = b\<lparr>cur_pos := to\<rparr>
      in if cur_pos b1 > buf_len b1 then None else add_to_buffer from b1)"

fun remove_trail_zeroes_from :: "char option list \<Rightarrow> nat \<Rightarrow> nat" where
  "remove_trail_zeroes_from cells 0 = 0"
| "remove_trail_zeroes_from cells (Suc p) =
     (if cells ! p = Some (CHR 0x00) then remove_trail_zeroes_from cells p else Suc p)"

definition remove_trail_zeroes :: "temp_buf \<Rightarrow> temp_buf" where
  "remove_trail_zeroes b = b\<lparr>cur_pos := remove_trail_zeroes_from (tb_buf b) (cur_pos b)\<rparr>"

definition tb_reset :: "temp_buf \<Rightarrow> temp_buf" where
  "tb_reset b = b\<lparr>cur_pos := 0\<rparr>"

text \<open>The assignment: a fresh buffer of the same size with the bytes before the position.\<close>

definition tb_assign :: "temp_buf \<Rightarrow> temp_buf" where
  "tb_assign b =
     \<lparr>tb_buf = take (cur_pos b) (tb_buf b) @ replicate (buf_len b - cur_pos b) None, cur_pos = cur_pos b\<rparr>"

section \<open>The contents\<close>

text \<open>The position is in the memory and all bytes before it have been written.\<close>

definition tb_wf :: "temp_buf \<Rightarrow> bool" where
  "tb_wf b \<longleftrightarrow> cur_pos b \<le> buf_len b \<and> None \<notin> set (take (cur_pos b) (tb_buf b))"

definition contents :: "temp_buf \<Rightarrow> string" where
  "contents b = map the (take (cur_pos b) (tb_buf b))"

lemma new_temp_buf_wf: "new_temp_buf sz = Some b \<Longrightarrow> tb_wf b \<and> contents b = ''''"
  by (auto simp: new_temp_buf_def extend_buffer_def Let_def tb_wf_def contents_def buf_len_def
      split: if_splits)

lemma new_temp_buf_Some: "\<exists>b. new_temp_buf sz = Some b \<and> sz \<le> buf_len b"
  by (auto simp: new_temp_buf_def extend_buffer_def Let_def buf_len_def)

lemma extend_buffer_wf:
  assumes "tb_wf b"
  shows "\<exists>b1. extend_buffer len b = Some b1 \<and> tb_wf b1 \<and> contents b1 = contents b
    \<and> cur_pos b1 = cur_pos b \<and> cur_pos b1 + len \<le> buf_len b1"
  using assms by (auto simp: extend_buffer_def tb_wf_def contents_def buf_len_def)

lemma add_to_buffer_wf:
  assumes "tb_wf b"
  shows "\<exists>b1. add_to_buffer s b = Some b1 \<and> tb_wf b1 \<and> contents b1 = contents b @ s"
proof -
  define e where "e = (if buf_len b - cur_pos b \<ge> length s then 0 else buf_len b - cur_pos b + length s)"
  obtain b0 where b0: "extend_buffer e b = Some b0" "tb_wf b0" "contents b0 = contents b"
      "cur_pos b0 = cur_pos b" "cur_pos b0 + e \<le> buf_len b0"
    using extend_buffer_wf [OF assms, of e] by blast
  have "buf_len b \<le> buf_len b0"
    using b0(1) by (auto simp: extend_buffer_def buf_len_def split: if_splits)
  then have fits: "cur_pos b0 + length s \<le> length (tb_buf b0)"
    using b0(4,5) by (auto simp: e_def buf_len_def split: if_splits)
  let ?b1 = "b0\<lparr>tb_buf := take (cur_pos b0) (tb_buf b0) @ map Some s @ drop (cur_pos b0 + length s) (tb_buf b0),
      cur_pos := cur_pos b0 + length s\<rparr>"
  have "add_to_buffer s b = Some ?b1"
    using assms b0(1) fits
    by (simp add: add_to_buffer_def Let_def e_def [symmetric] poke_bytes_def tb_wf_def)
  moreover have "tb_wf ?b1" using b0(2) fits by (auto simp: tb_wf_def buf_len_def)
  moreover have "contents ?b1 = contents b0 @ s"
    using fits by (simp add: contents_def comp_def)
  ultimately show ?thesis using b0(3) by auto
qed

lemma take_snoc_None: "None \<notin> set (take n cells) \<Longrightarrow> m \<le> n \<Longrightarrow> None \<notin> set (take m cells)"
  using set_take_subset_set_take by fastforce

lemma remove_trail_zeroes_from_contents:
  "p \<le> length cells \<Longrightarrow> None \<notin> set (take p cells) \<Longrightarrow>
     remove_trail_zeroes_from cells p \<le> p \<and>
     map the (take (remove_trail_zeroes_from cells p) cells) =
       rev (dropWhile (\<lambda>c. c = CHR 0x00) (rev (map the (take p cells))))"
proof (induction p)
  case (Suc p)
  then have t: "take (Suc p) cells = take p cells @ [cells ! p]" by (simp add: take_Suc_conv_app_nth)
  with Suc.prems have "None \<noteq> cells ! p" and set: "None \<notin> set (take p cells)" by auto
  then obtain c where "cells ! p = Some c" by (cases "cells ! p") auto
  with Suc t set show ?case by auto
qed simp

lemma remove_trail_zeroes_wf:
  assumes "tb_wf b"
  shows "tb_wf (remove_trail_zeroes b) \<and>
    contents (remove_trail_zeroes b) = rev (dropWhile (\<lambda>c. c = CHR 0x00) (rev (contents b)))"
proof -
  let ?p = "remove_trail_zeroes_from (tb_buf b) (cur_pos b)"
  have b: "cur_pos b \<le> length (tb_buf b)" "None \<notin> set (take (cur_pos b) (tb_buf b))"
    using assms by (simp_all add: tb_wf_def buf_len_def)
  note z = remove_trail_zeroes_from_contents [OF b]
  moreover have "None \<notin> set (take ?p (tb_buf b))" using take_snoc_None [OF b(2)] z by blast
  ultimately show ?thesis
    using b by (simp add: remove_trail_zeroes_def tb_wf_def buf_len_def contents_def)
qed

lemma tb_reset_wf: "tb_wf b \<Longrightarrow> tb_wf (tb_reset b) \<and> contents (tb_reset b) = ''''"
  by (simp add: tb_wf_def tb_reset_def contents_def)

lemma tb_assign_wf: "tb_wf b \<Longrightarrow> tb_wf (tb_assign b) \<and> contents (tb_assign b) = contents b"
  by (auto simp: tb_wf_def tb_assign_def contents_def buf_len_def)

section \<open>Appending in pieces\<close>

fun add_all :: "(string \<Rightarrow> 'b \<Rightarrow> 'b option) \<Rightarrow> string list \<Rightarrow> 'b \<Rightarrow> 'b option" where
  "add_all f [] b = Some b"
| "add_all f (s # ss) b = Option.bind (f s b) (add_all f ss)"

text \<open>What the clients of a growing buffer rely on: an append succeeds and appends.\<close>

locale byte_sink =
  fixes add :: "string \<Rightarrow> 'b \<Rightarrow> 'b option" and wf :: "'b \<Rightarrow> bool" and text_of :: "'b \<Rightarrow> string"
  assumes add_ok: "wf b \<Longrightarrow> \<exists>b1. add s b = Some b1 \<and> wf b1 \<and> text_of b1 = text_of b @ s"
begin

lemma add_all_ok: "wf b \<Longrightarrow> \<exists>b1. add_all add ss b = Some b1 \<and> wf b1 \<and> text_of b1 = text_of b @ concat ss"
proof (induction ss arbitrary: b)
  case (Cons s ss)
  obtain b1 where "add s b = Some b1" "wf b1" "text_of b1 = text_of b @ s"
    using add_ok [OF Cons.prems] by blast
  with Cons.IH [of b1] show ?case by auto
qed simp

text \<open>How the bytes are cut into pieces does not matter.\<close>

lemma add_all_pieces:
  assumes "wf b" "concat ss = concat ts" "add_all add ss b = Some x" "add_all add ts b = Some y"
  shows "text_of x = text_of y"
  using add_all_ok [OF assms(1), of ss] add_all_ok [OF assms(1), of ts] assms(2-4) by auto

end

interpretation tb: byte_sink add_to_buffer tb_wf contents
  by unfold_locales (rule add_to_buffer_wf)

section \<open>Sequences of operations\<close>

datatype tb_op = Add string | Extend nat | Reset | TrimZeroes | Assign

fun tb_step :: "tb_op \<Rightarrow> temp_buf \<Rightarrow> temp_buf option" where
  "tb_step (Add s) b = add_to_buffer s b"
| "tb_step (Extend n) b = extend_buffer n b"
| "tb_step Reset b = Some (tb_reset b)"
| "tb_step TrimZeroes b = Some (remove_trail_zeroes b)"
| "tb_step Assign b = Some (tb_assign b)"

text \<open>The same operations on the string the buffer stands for.\<close>

fun tb_spec :: "tb_op \<Rightarrow> string \<Rightarrow> string" where
  "tb_spec (Add s) t = t @ s"
| "tb_spec (Extend n) t = t"
| "tb_spec Reset t = ''''"
| "tb_spec TrimZeroes t = rev (dropWhile (\<lambda>c. c = CHR 0x00) (rev t))"
| "tb_spec Assign t = t"

fun tb_run :: "tb_op list \<Rightarrow> temp_buf \<Rightarrow> temp_buf option" where
  "tb_run [] b = Some b"
| "tb_run (x # xs) b = Option.bind (tb_step x b) (tb_run xs)"

lemma tb_step_refines:
  assumes "tb_wf b"
  shows "\<exists>b1. tb_step x b = Some b1 \<and> tb_wf b1 \<and> contents b1 = tb_spec x (contents b)"
proof (cases x)
  case (Add s)
  then show ?thesis using add_to_buffer_wf [OF assms, of s] by simp
next
  case (Extend n)
  then show ?thesis using extend_buffer_wf [OF assms, of n] by auto
qed (simp_all add: assms tb_reset_wf remove_trail_zeroes_wf tb_assign_wf)

lemma tb_run_refines:
  "tb_wf b \<Longrightarrow> \<exists>b1. tb_run xs b = Some b1 \<and> tb_wf b1 \<and> contents b1 = fold tb_spec xs (contents b)"
proof (induction xs arbitrary: b)
  case (Cons x xs)
  obtain b1 where "tb_step x b = Some b1" "tb_wf b1" "contents b1 = tb_spec x (contents b)"
    using tb_step_refines [OF Cons.prems] by blast
  with Cons.IH [of b1] show ?case by auto
qed simp

text \<open>C40: a buffer of any initial size, after any sequence of appends, extensions, resets, trims of
  trailing zeroes and assignments, holds exactly the bytes the same sequence yields on strings; no
  operation throws or writes outside the memory, and no unwritten byte is part of the contents.\<close>

theorem temp_buf_refines:
  "\<exists>b b1. new_temp_buf sz = Some b \<and> tb_run xs b = Some b1 \<and> cur_pos b1 \<le> buf_len b1 \<and>
     take (cur_pos b1) (tb_buf b1) = map Some (fold tb_spec xs '''')"
proof -
  obtain b where b: "new_temp_buf sz = Some b" "tb_wf b" "contents b = ''''"
    using new_temp_buf_Some new_temp_buf_wf by blast
  obtain b1 where b1: "tb_run xs b = Some b1" "tb_wf b1" "contents b1 = fold tb_spec xs ''''"
    using tb_run_refines [OF b(2), of xs] b(3) by auto
  have "map Some (map the cs) = cs" if "None \<notin> set cs" for cs :: "char option list"
    using that by (induction cs) auto
  with b1(2,3) have "take (cur_pos b1) (tb_buf b1) = map Some (fold tb_spec xs '''')"
    by (metis contents_def tb_wf_def)
  with b b1 show ?thesis by (auto simp: tb_wf_def)
qed

end
