(* ===== verification/Desc.thy ===== *)
theory Desc
  imports TempBuf Diag
begin

unbundle bit_operations_syntax

text \<open>
  \<^verbatim>\<open>driver/desc.cc\<close>, the structures \<open>DESC\<close> and \<open>DESCREC\<close> of \<^verbatim>\<open>driver/driver.h\<close>, and the type
  functions of \<^verbatim>\<open>driver/utility.cc\<close> they use. The code reads and writes the fields of a
  descriptor through their offsets in the structures; here the fields of a structure are a
  function from their names to their values. The checks by \<open>assert\<close> are off, as the build sets
  \<^verbatim>\<open>NDEBUG\<close>. Undefined behaviour (a null pointer followed, a store that does not fit the field) is
  the result \<open>None\<close>. The ODBC constants have the numbers of the ODBC headers.
\<close>

section \<open>Fields\<close>

datatype desc_ref_type = DESC_IMP | DESC_APP
datatype desc_desc_type = DESC_PARAM | DESC_ROW | DESC_UNKNOWN
datatype fld_loc = DESC_HDR | DESC_REC

definition P_RI :: int where "P_RI = 1"
definition P_WI :: int where "P_WI = 2"
definition P_RA :: int where "P_RA = 4"
definition P_WA :: int where "P_WA = 8"

definition P_ROW :: "int \<Rightarrow> int" where "P_ROW p = p"
definition P_PAR :: "int \<Rightarrow> int" where "P_PAR p = push_bit 4 p"

definition PR_RIR :: int where "PR_RIR = P_ROW P_RI"
definition PR_RAR :: int where "PR_RAR = P_ROW P_RA"
definition PR_WAR :: int where "PR_WAR = P_ROW P_WA OR PR_RAR"
definition PR_RIP :: int where "PR_RIP = P_PAR P_RI"
definition PR_WIP :: int where "PR_WIP = P_PAR P_WI OR PR_RIP"
definition PR_RAP :: int where "PR_RAP = P_PAR P_RI"
definition PR_WAP :: int where "PR_WAP = P_PAR P_WA OR PR_RAP"

definition SQL_NTS :: int where "SQL_NTS = - 3"
definition SQL_IS_POINTER :: int where "SQL_IS_POINTER = - 4"
definition SQL_IS_UINTEGER :: int where "SQL_IS_UINTEGER = - 5"
definition SQL_IS_INTEGER :: int where "SQL_IS_INTEGER = - 6"
definition SQL_IS_USMALLINT :: int where "SQL_IS_USMALLINT = - 7"
definition SQL_IS_SMALLINT :: int where "SQL_IS_SMALLINT = - 8"
definition SQL_IS_ULEN :: int where "SQL_IS_ULEN = - 9"
definition SQL_IS_LEN :: int where "SQL_IS_LEN = - 10"

lemmas buf_types = SQL_NTS_def SQL_IS_POINTER_def SQL_IS_UINTEGER_def SQL_IS_INTEGER_def
  SQL_IS_USMALLINT_def SQL_IS_SMALLINT_def SQL_IS_ULEN_def SQL_IS_LEN_def

datatype fieldname =
    F_alloc_type | F_array_size | F_array_status_ptr | F_bind_offset_ptr
  | F_bind_type | F_count | F_rows_processed_ptr | F_auto_unique_value
  | F_base_column_name | F_base_table_name | F_case_sensitive | F_catalog_name
  | F_concise_type | F_data_ptr | F_display_size | F_fixed_prec_scale
  | F_indicator_ptr | F_label | F_length | F_literal_prefix
  | F_literal_suffix | F_local_type_name | F_name | F_nullable
  | F_num_prec_radix | F_octet_length | F_octet_length_ptr | F_parameter_type
  | F_precision | F_rowver | F_scale | F_schema_name
  | F_searchable | F_table_name | F_type | F_type_name
  | F_unnamed | F_is_unsigned | F_updatable | F_datetime_interval_code
  | F_datetime_interval_precision

text \<open>The \<open>HDR_FLD\<close> and \<open>REC_FLD\<close> declarations: permissions, type and place of each field.\<close>

definition field_table :: "(fieldname \<times> int \<times> int \<times> fld_loc) list" where
  "field_table = [
     (F_alloc_type, P_RI OR P_RA, SQL_IS_SMALLINT, DESC_HDR),
     (F_array_size, P_RA OR P_WA, SQL_IS_ULEN, DESC_HDR),
     (F_array_status_ptr, P_RI OR P_WI OR P_RA OR P_WA, SQL_IS_POINTER, DESC_HDR),
     (F_bind_offset_ptr, P_RA OR P_WA, SQL_IS_POINTER, DESC_HDR),
     (F_bind_type, P_RA OR P_WA, SQL_IS_INTEGER, DESC_HDR),
     (F_count, P_RI OR P_WI OR P_RA OR P_WA, SQL_IS_LEN, DESC_HDR),
     (F_rows_processed_ptr, P_RI OR P_WI, SQL_IS_POINTER, DESC_HDR),
     (F_auto_unique_value, PR_RIR, SQL_IS_INTEGER, DESC_REC),
     (F_base_column_name, PR_RIR, SQL_IS_POINTER, DESC_REC),
     (F_base_table_name, PR_RIR, SQL_IS_POINTER, DESC_REC),
     (F_case_sensitive, PR_RIR OR PR_RIP, SQL_IS_INTEGER, DESC_REC),
     (F_catalog_name, PR_RIR, SQL_IS_POINTER, DESC_REC),
     (F_concise_type, PR_WAR OR PR_WAP OR PR_RIR OR PR_WIP, SQL_IS_SMALLINT, DESC_REC),
     (F_data_ptr, PR_WAR OR PR_WAP, SQL_IS_POINTER, DESC_REC),
     (F_display_size, PR_RIR, SQL_IS_LEN, DESC_REC),
     (F_fixed_prec_scale, PR_RIR OR PR_RIP, SQL_IS_SMALLINT, DESC_REC),
     (F_indicator_ptr, PR_WAR OR PR_WAP, SQL_IS_POINTER, DESC_REC),
     (F_label, PR_RIR, SQL_IS_POINTER, DESC_REC),
     (F_length, PR_WAR OR PR_WAP OR PR_RIR OR PR_WIP, SQL_IS_ULEN, DESC_REC),
     (F_literal_prefix, PR_RIR, SQL_IS_POINTER, DESC_REC),
     (F_literal_suffix, PR_RIR, SQL_IS_POINTER, DESC_REC),
     (F_local_type_name, PR_RIR OR PR_RIP, SQL_IS_POINTER, DESC_REC),
     (F_name, PR_RIR OR PR_WIP, SQL_NTS, DESC_REC),
     (F_nullable, PR_RIR OR PR_RIP, SQL_IS_SMALLINT, DESC_REC),
     (F_num_prec_radix, PR_WAR OR PR_WAP OR PR_RIR OR PR_WIP, SQL_IS_INTEGER, DESC_REC),
     (F_octet_length, PR_WAR OR PR_WAP OR PR_RIR OR PR_WIP, SQL_IS_LEN, DESC_REC),
     (F_octet_length_ptr, PR_WAR OR PR_WAP, SQL_IS_POINTER, DESC_REC),
     (F_parameter_type, PR_WIP, SQL_IS_SMALLINT, DESC_REC),
     (F_precision, PR_WAR OR PR_WAP OR PR_RIR OR PR_WIP, SQL_IS_SMALLINT, DESC_REC),
     (F_rowver, PR_RIR OR PR_RIP, SQL_IS_SMALLINT, DESC_REC),
     (F_scale, PR_WAR OR PR_WAP OR PR_RIR OR PR_WIP, SQL_IS_SMALLINT, DESC_REC),
     (F_schema_name, PR_RIR, SQL_IS_POINTER, DESC_REC),
     (F_searchable, PR_RIR, SQL_IS_SMALLINT, DESC_REC),
     (F_table_name, PR_RIR, SQL_IS_POINTER, DESC_REC),
     (F_type, PR_WAR OR PR_WAP OR PR_RIR OR PR_WIP, SQL_IS_SMALLINT, DESC_REC),
     (F_type_name, PR_RIR OR PR_RIP, SQL_IS_POINTER, DESC_REC),
     (F_unnamed, PR_RIR OR PR_WIP, SQL_IS_SMALLINT, DESC_REC),
     (F_is_unsigned, PR_RIR OR PR_RIP, SQL_IS_SMALLINT, DESC_REC),
     (F_updatable, PR_RIR, SQL_IS_SMALLINT, DESC_REC),
     (F_datetime_interval_code, PR_WAR OR PR_WAP OR PR_RIR OR PR_WIP, SQL_IS_SMALLINT, DESC_REC),
     (F_datetime_interval_precision, PR_WAR OR PR_WAP OR PR_RIR OR PR_WIP, SQL_IS_INTEGER, DESC_REC)]"

definition SQL_DESC_ALLOC_TYPE :: int where "SQL_DESC_ALLOC_TYPE = 1099"
definition SQL_DESC_ARRAY_SIZE :: int where "SQL_DESC_ARRAY_SIZE = 20"
definition SQL_DESC_ARRAY_STATUS_PTR :: int where "SQL_DESC_ARRAY_STATUS_PTR = 21"
definition SQL_DESC_BIND_OFFSET_PTR :: int where "SQL_DESC_BIND_OFFSET_PTR = 24"
definition SQL_DESC_BIND_TYPE :: int where "SQL_DESC_BIND_TYPE = 25"
definition SQL_DESC_COUNT :: int where "SQL_DESC_COUNT = 1001"
definition SQL_DESC_ROWS_PROCESSED_PTR :: int where "SQL_DESC_ROWS_PROCESSED_PTR = 34"
definition SQL_DESC_AUTO_UNIQUE_VALUE :: int where "SQL_DESC_AUTO_UNIQUE_VALUE = 11"
definition SQL_DESC_BASE_COLUMN_NAME :: int where "SQL_DESC_BASE_COLUMN_NAME = 22"
definition SQL_DESC_BASE_TABLE_NAME :: int where "SQL_DESC_BASE_TABLE_NAME = 23"
definition SQL_DESC_CASE_SENSITIVE :: int where "SQL_DESC_CASE_SENSITIVE = 12"
definition SQL_DESC_CATALOG_NAME :: int where "SQL_DESC_CATALOG_NAME = 17"
definition SQL_DESC_CONCISE_TYPE :: int where "SQL_DESC_CONCISE_TYPE = 2"
definition SQL_DESC_DATA_PTR :: int where "SQL_DESC_DATA_PTR = 1010"
definition SQL_DESC_DISPLAY_SIZE :: int where "SQL_DESC_DISPLAY_SIZE = 6"
definition SQL_DESC_FIXED_PREC_SCALE :: int where "SQL_DESC_FIXED_PREC_SCALE = 9"
definition SQL_DESC_INDICATOR_PTR :: int where "SQL_DESC_INDICATOR_PTR = 1009"
definition SQL_DESC_LABEL :: int where "SQL_DESC_LABEL = 18"
definition SQL_DESC_LENGTH :: int where "SQL_DESC_LENGTH = 1003"
definition SQL_DESC_LITERAL_PREFIX :: int where "SQL_DESC_LITERAL_PREFIX = 27"
definition SQL_DESC_LITERAL_SUFFIX :: int where "SQL_DESC_LITERAL_SUFFIX = 28"
definition SQL_DESC_LOCAL_TYPE_NAME :: int where "SQL_DESC_LOCAL_TYPE_NAME = 29"
definition SQL_DESC_NAME :: int where "SQL_DESC_NAME = 1011"
definition SQL_DESC_NULLABLE :: int where "SQL_DESC_NULLABLE = 1008"
definition SQL_DESC_NUM_PREC_RADIX :: int where "SQL_DESC_NUM_PREC_RADIX = 32"
definition SQL_DESC_OCTET_LENGTH :: int where "SQL_DESC_OCTET_LENGTH = 1013"
definition SQL_DESC_OCTET_LENGTH_PTR :: int where "SQL_DESC_OCTET_LENGTH_PTR = 1004"
definition SQL_DESC_PARAMETER_TYPE :: int where "SQL_DESC_PARAMETER_TYPE = 33"
definition SQL_DESC_PRECISION :: int where "SQL_DESC_PRECISION = 1005"
definition SQL_DESC_ROWVER :: int where "SQL_DESC_ROWVER = 35"
definition SQL_DESC_SCALE :: int where "SQL_DESC_SCALE = 1006"
definition SQL_DESC_SCHEMA_NAME :: int where "SQL_DESC_SCHEMA_NAME = 16"
definition SQL_DESC_SEARCHABLE :: int where "SQL_DESC_SEARCHABLE = 13"
definition SQL_DESC_TABLE_NAME :: int where "SQL_DESC_TABLE_NAME = 15"
definition SQL_DESC_TYPE :: int where "SQL_DESC_TYPE = 1002"
definition SQL_DESC_TYPE_NAME :: int where "SQL_DESC_TYPE_NAME = 14"
definition SQL_DESC_UNNAMED :: int where "SQL_DESC_UNNAMED = 1012"
definition SQL_DESC_UNSIGNED :: int where "SQL_DESC_UNSIGNED = 8"
definition SQL_DESC_UPDATABLE :: int where "SQL_DESC_UPDATABLE = 10"
definition SQL_DESC_DATETIME_INTERVAL_CODE :: int where "SQL_DESC_DATETIME_INTERVAL_CODE = 1007"
definition SQL_DESC_DATETIME_INTERVAL_PRECISION :: int where "SQL_DESC_DATETIME_INTERVAL_PRECISION = 26"

lemmas desc_ids = SQL_DESC_ALLOC_TYPE_def SQL_DESC_ARRAY_SIZE_def SQL_DESC_ARRAY_STATUS_PTR_def SQL_DESC_BIND_OFFSET_PTR_def SQL_DESC_BIND_TYPE_def SQL_DESC_COUNT_def SQL_DESC_ROWS_PROCESSED_PTR_def SQL_DESC_AUTO_UNIQUE_VALUE_def SQL_DESC_BASE_COLUMN_NAME_def SQL_DESC_BASE_TABLE_NAME_def SQL_DESC_CASE_SENSITIVE_def SQL_DESC_CATALOG_NAME_def SQL_DESC_CONCISE_TYPE_def SQL_DESC_DATA_PTR_def SQL_DESC_DISPLAY_SIZE_def SQL_DESC_FIXED_PREC_SCALE_def SQL_DESC_INDICATOR_PTR_def SQL_DESC_LABEL_def SQL_DESC_LENGTH_def SQL_DESC_LITERAL_PREFIX_def SQL_DESC_LITERAL_SUFFIX_def SQL_DESC_LOCAL_TYPE_NAME_def SQL_DESC_NAME_def SQL_DESC_NULLABLE_def SQL_DESC_NUM_PREC_RADIX_def SQL_DESC_OCTET_LENGTH_def SQL_DESC_OCTET_LENGTH_PTR_def SQL_DESC_PARAMETER_TYPE_def SQL_DESC_PRECISION_def SQL_DESC_ROWVER_def SQL_DESC_SCALE_def SQL_DESC_SCHEMA_NAME_def SQL_DESC_SEARCHABLE_def SQL_DESC_TABLE_NAME_def SQL_DESC_TYPE_def SQL_DESC_TYPE_NAME_def SQL_DESC_UNNAMED_def SQL_DESC_UNSIGNED_def SQL_DESC_UPDATABLE_def SQL_DESC_DATETIME_INTERVAL_CODE_def SQL_DESC_DATETIME_INTERVAL_PRECISION_def

text \<open>The switch of \<open>getfield\<close>.\<close>

definition field_ids :: "(int \<times> fieldname) list" where
  "field_ids = [
     (SQL_DESC_ALLOC_TYPE, F_alloc_type),
     (SQL_DESC_ARRAY_SIZE, F_array_size),
     (SQL_DESC_ARRAY_STATUS_PTR, F_array_status_ptr),
     (SQL_DESC_BIND_OFFSET_PTR, F_bind_offset_ptr),
     (SQL_DESC_BIND_TYPE, F_bind_type),
     (SQL_DESC_COUNT, F_count),
     (SQL_DESC_ROWS_PROCESSED_PTR, F_rows_processed_ptr),
     (SQL_DESC_AUTO_UNIQUE_VALUE, F_auto_unique_value),
     (SQL_DESC_BASE_COLUMN_NAME, F_base_column_name),
     (SQL_DESC_BASE_TABLE_NAME, F_base_table_name),
     (SQL_DESC_CASE_SENSITIVE, F_case_sensitive),
     (SQL_DESC_CATALOG_NAME, F_catalog_name),
     (SQL_DESC_CONCISE_TYPE, F_concise_type),
     (SQL_DESC_DATA_PTR, F_data_ptr),
     (SQL_DESC_DISPLAY_SIZE, F_display_size),
     (SQL_DESC_FIXED_PREC_SCALE, F_fixed_prec_scale),
     (SQL_DESC_INDICATOR_PTR, F_indicator_ptr),
     (SQL_DESC_LABEL, F_label),
     (SQL_DESC_LENGTH, F_length),
     (SQL_DESC_LITERAL_PREFIX, F_literal_prefix),
     (SQL_DESC_LITERAL_SUFFIX, F_literal_suffix),
     (SQL_DESC_LOCAL_TYPE_NAME, F_local_type_name),
     (SQL_DESC_NAME, F_name),
     (SQL_DESC_NULLABLE, F_nullable),
     (SQL_DESC_NUM_PREC_RADIX, F_num_prec_radix),
     (SQL_DESC_OCTET_LENGTH, F_octet_length),
     (SQL_DESC_OCTET_LENGTH_PTR, F_octet_length_ptr),
     (SQL_DESC_PARAMETER_TYPE, F_parameter_type),
     (SQL_DESC_PRECISION, F_precision),
     (SQL_DESC_ROWVER, F_rowver),
     (SQL_DESC_SCALE, F_scale),
     (SQL_DESC_SCHEMA_NAME, F_schema_name),
     (SQL_DESC_SEARCHABLE, F_searchable),
     (SQL_DESC_TABLE_NAME, F_table_name),
     (SQL_DESC_TYPE, F_type),
     (SQL_DESC_TYPE_NAME, F_type_name),
     (SQL_DESC_UNNAMED, F_unnamed),
     (SQL_DESC_UNSIGNED, F_is_unsigned),
     (SQL_DESC_UPDATABLE, F_updatable),
     (SQL_DESC_DATETIME_INTERVAL_CODE, F_datetime_interval_code),
     (SQL_DESC_DATETIME_INTERVAL_PRECISION, F_datetime_interval_precision)]"

record desc_field =
  perms :: int
  data_type :: int
  loc :: fld_loc
  offset :: fieldname

definition getfield :: "int \<Rightarrow> desc_field option" where
  "getfield fldid =
     Option.bind (map_of field_ids fldid) (\<lambda>f.
       map_option (\<lambda>(p, t, l). \<lparr>perms = p, data_type = t, loc = l, offset = f\<rparr>) (map_of field_table f))"

section \<open>Types and codes\<close>

definition SQL_DATETIME :: int where "SQL_DATETIME = 9"
definition SQL_INTERVAL :: int where "SQL_INTERVAL = 10"
definition SQL_C_TIMESTAMP :: int where "SQL_C_TIMESTAMP = 11"
definition SQL_C_TYPE_DATE :: int where "SQL_C_TYPE_DATE = 91"
definition SQL_C_TYPE_TIME :: int where "SQL_C_TYPE_TIME = 92"
definition SQL_C_TYPE_TIMESTAMP :: int where "SQL_C_TYPE_TIMESTAMP = 93"
definition SQL_C_NUMERIC :: int where "SQL_C_NUMERIC = 2"
definition SQL_C_DEFAULT :: int where "SQL_C_DEFAULT = 99"
definition SQL_VARCHAR :: int where "SQL_VARCHAR = 12"
definition SQL_CODE_DATE :: int where "SQL_CODE_DATE = 1"
definition SQL_CODE_TIME :: int where "SQL_CODE_TIME = 2"
definition SQL_CODE_TIMESTAMP :: int where "SQL_CODE_TIMESTAMP = 3"

lemmas type_codes = SQL_DATETIME_def SQL_INTERVAL_def SQL_C_TIMESTAMP_def SQL_C_TYPE_DATE_def
  SQL_C_TYPE_TIME_def SQL_C_TYPE_TIMESTAMP_def SQL_C_NUMERIC_def SQL_C_DEFAULT_def SQL_VARCHAR_def
  SQL_CODE_DATE_def SQL_CODE_TIME_def SQL_CODE_TIMESTAMP_def

text \<open>The interval types \<open>SQL_C_INTERVAL_*\<close> and their codes \<open>SQL_CODE_*\<close>, year first.\<close>

definition interval_codes :: "(int \<times> int) list" where
  "interval_codes = [(101, 1), (102, 2), (103, 3), (104, 4), (105, 5), (106, 6), (107, 7),
     (108, 8), (109, 9), (110, 10), (111, 11), (112, 12), (113, 13)]"

definition get_dticode_from_concise_type :: "int \<Rightarrow> int" where
  "get_dticode_from_concise_type concise_type =
     (if concise_type = SQL_C_TYPE_DATE then SQL_CODE_DATE
      else if concise_type = SQL_C_TYPE_TIME then SQL_CODE_TIME
      else if concise_type = SQL_C_TIMESTAMP \<or> concise_type = SQL_C_TYPE_TIMESTAMP then SQL_CODE_TIMESTAMP
      else case map_of interval_codes concise_type of Some c \<Rightarrow> c | None \<Rightarrow> 0)"

definition get_concise_type_from_datetime_code :: "int \<Rightarrow> int" where
  "get_concise_type_from_datetime_code dticode =
     (if dticode = SQL_CODE_DATE then SQL_C_TYPE_DATE
      else if dticode = SQL_CODE_TIME then SQL_C_TYPE_DATE
      else if dticode = SQL_CODE_TIMESTAMP then SQL_C_TYPE_TIMESTAMP
      else 0)"

definition get_concise_type_from_interval_code :: "int \<Rightarrow> int" where
  "get_concise_type_from_interval_code dticode =
     (case map_of (map prod.swap interval_codes) dticode of Some t \<Rightarrow> t | None \<Rightarrow> 0)"

definition get_type_from_concise_type :: "int \<Rightarrow> int" where
  "get_type_from_concise_type concise_type =
     (if concise_type \<in> set [SQL_C_TYPE_DATE, SQL_C_TYPE_TIME, SQL_C_TYPE_TIMESTAMP] then SQL_DATETIME
      else if concise_type \<in> set (map fst interval_codes) then SQL_INTERVAL
      else concise_type)"

section \<open>Descriptors\<close>

text \<open>
  The value of a field: a number, an address, a string literal of the driver, or the start of
  the parameter buffer of the record it is in.
\<close>

datatype dval = Num int | Ptr u64 | Lit string | ParBuf

type_synonym field_vals = "fieldname \<Rightarrow> dval"

record par_struct =
  tempbuf :: temp_buf
  is_dae :: int
  real_param_done :: bool

record row_struct =
  row_field :: dval
  datalen :: int
  row_type_name :: string

record descrec =
  vals :: field_vals
  par :: par_struct
  row :: row_struct
  m_desc_type :: desc_desc_type
  m_ref_type :: desc_ref_type

datatype my_state = ST_UNKNOWN | ST_PREPARED | ST_PRE_EXECUTED | ST_EXECUTED

text \<open>The part of the statement (and its connection) that the functions of a descriptor use.\<close>

record desc_stmt =
  bookmarks :: nat
  st_state :: my_state
  st_error_prefix :: string
  st_error :: myerror

record desc =
  hdr :: field_vals
  bookmark_count :: int
  desc_type :: desc_desc_type
  ref_type :: desc_ref_type
  bookmark2 :: "descrec list"
  records2 :: "descrec list"
  d_error :: myerror
  d_stmt :: "desc_stmt option"

definition is_apd :: "desc \<Rightarrow> bool" where
  "is_apd d \<longleftrightarrow> desc_type d = DESC_PARAM \<and> ref_type d = DESC_APP"
definition is_ipd :: "desc \<Rightarrow> bool" where
  "is_ipd d \<longleftrightarrow> desc_type d = DESC_PARAM \<and> ref_type d = DESC_IMP"
definition is_ard :: "desc \<Rightarrow> bool" where
  "is_ard d \<longleftrightarrow> desc_type d = DESC_ROW \<and> ref_type d = DESC_APP"
definition is_ird :: "desc \<Rightarrow> bool" where
  "is_ird d \<longleftrightarrow> desc_type d = DESC_ROW \<and> ref_type d = DESC_IMP"

lemmas desc_kinds = is_apd_def is_ipd_def is_ard_def is_ird_def

section \<open>New records\<close>

text \<open>The values a structure starts with: 0 for a number, a null pointer for a pointer.\<close>

definition zero_val :: "fieldname \<Rightarrow> dval" where
  "zero_val f =
     (case map_of field_table f of
        Some (_, t, _) \<Rightarrow> if t = SQL_IS_POINTER \<or> t = SQL_NTS then Ptr 0 else Num 0
      | None \<Rightarrow> Num 0)"

definition par_reset :: "par_struct \<Rightarrow> par_struct" where
  "par_reset p = p\<lparr>tempbuf := tb_reset (tempbuf p), is_dae := 0\<rparr>"

definition row_reset :: "row_struct \<Rightarrow> row_struct" where
  "row_reset r = r\<lparr>row_field := Ptr 0, datalen := 0, row_type_name := ''''\<rparr>"

definition desc_rec_init_apd :: "descrec \<Rightarrow> descrec" where
  "desc_rec_init_apd r = r\<lparr>vals := (vals r)(F_concise_type := Num SQL_C_DEFAULT, F_data_ptr := Ptr 0,
     F_indicator_ptr := Ptr 0, F_octet_length_ptr := Ptr 0, F_type := Num SQL_C_DEFAULT),
     par := par_reset (par r)\<rparr>"

text \<open>\<open>SQL_TRUE\<close>, \<open>SQL_NULLABLE\<close>, \<open>SQL_PARAM_INPUT\<close> and \<open>SQL_UNNAMED\<close> are 1, \<open>SQL_NULLABLE_UNKNOWN\<close> is 2.\<close>

definition desc_rec_init_ipd :: "descrec \<Rightarrow> descrec" where
  "desc_rec_init_ipd r = r\<lparr>vals := (vals r)(F_fixed_prec_scale := Num 1, F_local_type_name := Lit '''',
     F_nullable := Num 1, F_parameter_type := Num 1, F_type_name := Lit ''VARCHAR'',
     F_is_unsigned := Num 0, F_name := Lit '''')\<rparr>"

definition desc_rec_init_ard :: "descrec \<Rightarrow> descrec" where
  "desc_rec_init_ard r = r\<lparr>vals := (vals r)(F_concise_type := Num SQL_C_DEFAULT, F_data_ptr := Ptr 0,
     F_indicator_ptr := Ptr 0, F_octet_length_ptr := Ptr 0, F_type := Num SQL_C_DEFAULT)\<rparr>"

definition desc_rec_init_ird :: "descrec \<Rightarrow> descrec" where
  "desc_rec_init_ird r = r\<lparr>vals := (vals r)(F_auto_unique_value := Num 0, F_case_sensitive := Num 1,
     F_concise_type := Num SQL_VARCHAR, F_display_size := Num 100, F_fixed_prec_scale := Num 1,
     F_length := Num 100, F_nullable := Num 2, F_type := Num SQL_VARCHAR, F_type_name := Lit ''VARCHAR'',
     F_unnamed := Num 1, F_is_unsigned := Num 0)\<rparr>"

definition reset_to_defaults :: "descrec \<Rightarrow> descrec" where
  "reset_to_defaults r0 =
     (let r = r0\<lparr>par := par_reset (par r0), row := row_reset (row r0)\<rparr> in
      if m_desc_type r = DESC_PARAM \<and> m_ref_type r = DESC_APP then desc_rec_init_apd r
      else if m_desc_type r = DESC_PARAM \<and> m_ref_type r = DESC_IMP then desc_rec_init_ipd r
      else if m_desc_type r = DESC_ROW \<and> m_ref_type r = DESC_APP then desc_rec_init_ard r
      else if m_desc_type r = DESC_ROW \<and> m_ref_type r = DESC_IMP then desc_rec_init_ird r
      else r)"

text \<open>The constructor; the type name of the row starts with a terminator after its reset.\<close>

definition new_descrec :: "desc_desc_type \<Rightarrow> desc_ref_type \<Rightarrow> descrec" where
  "new_descrec dt rt = reset_to_defaults
     \<lparr>vals = zero_val, par = \<lparr>tempbuf = \<lparr>tb_buf = [], cur_pos = 0\<rparr>, is_dae = 0, real_param_done = False\<rparr>,
      row = \<lparr>row_field = Ptr 0, datalen = 0, row_type_name = ''''\<rparr>, m_desc_type = dt, m_ref_type = rt\<rparr>"

text \<open>\<open>SQL_BIND_BY_COLUMN\<close> is 0.\<close>

definition new_desc :: "desc_stmt option \<Rightarrow> int \<Rightarrow> desc_ref_type \<Rightarrow> desc_desc_type \<Rightarrow> desc" where
  "new_desc st alloc rt dt =
     \<lparr>hdr = zero_val(F_alloc_type := Num alloc, F_array_size := Num 1), bookmark_count = 0,
      desc_type = dt, ref_type = rt, bookmark2 = [], records2 = [], d_error = no_error, d_stmt = st\<rparr>"

definition desc_reset :: "desc \<Rightarrow> desc" where
  "desc_reset d = d\<lparr>records2 := []\<rparr>"

definition free_paramdata :: "desc \<Rightarrow> desc" where
  "free_paramdata d = d\<lparr>records2 := map (\<lambda>r. r\<lparr>par := par_reset (par r)\<rparr>) (records2 d)\<rparr>"

text \<open>\<open>rcount\<close> stores the number of records in \<open>count\<close>.\<close>

definition rcount :: "desc \<Rightarrow> nat \<times> desc" where
  "rcount d = (length (records2 d), d\<lparr>hdr := (hdr d)(F_count := Num (int (length (records2 d))))\<rparr>)"

section \<open>Records by number\<close>

text \<open>Where a record is: in the bookmark vector or in the records.\<close>

datatype rec_ref = Bookmark nat | Record nat

definition SQL_UB_OFF :: nat where "SQL_UB_OFF = 0"
definition SQL_UB_VARIABLE :: nat where "SQL_UB_VARIABLE = 2"

definition stmt_set_error :: "string \<Rightarrow> string \<Rightarrow> int \<Rightarrow> desc_stmt \<Rightarrow> desc_stmt" where
  "stmt_set_error state msg errcode s =
     s\<lparr>st_error := myerror_state '''' (Some state) (Some msg) errcode (Some (st_error_prefix s))\<rparr>"

text \<open>The bookmark record, added when there is none and the caller wants one.\<close>

definition get_bookmark :: "desc \<Rightarrow> bool \<Rightarrow> (rec_ref option \<times> desc) option" where
  "get_bookmark d expand =
     (let d1 = (if expand \<and> bookmark_count d = 0
                then d\<lparr>bookmark2 := bookmark2 d @ [new_descrec (desc_type d) (ref_type d)],
                       bookmark_count := bookmark_count d + 1\<rparr>
                else d)
      in if bookmark2 d1 = [] then None else Some (Some (Bookmark (length (bookmark2 d1) - 1)), d1))"

definition expand_records :: "desc \<Rightarrow> nat \<Rightarrow> desc" where
  "expand_records d n =
     (let d1 = snd (rcount d) in
      d1\<lparr>records2 := records2 d1 @
           replicate (Suc n - length (records2 d1)) (reset_to_defaults (new_descrec (desc_type d) (ref_type d)))\<rparr>)"

definition desc_get_rec :: "desc \<Rightarrow> int \<Rightarrow> bool \<Rightarrow> (rec_ref option \<times> desc) option" where
  "desc_get_rec d recnum expand =
     (if recnum = - 1 \<and> d_stmt d = None then None
      else if recnum = - 1 \<and> bookmarks (the (d_stmt d)) = SQL_UB_VARIABLE then get_bookmark d expand
      else if recnum < 0 then
        (case d_stmt d of
           None \<Rightarrow> None
         | Some s \<Rightarrow> Some (None, d\<lparr>d_stmt := Some (stmt_set_error ''07009'' ''Invalid descriptor index'' (int (errid_ord MYERR_07009)) s)\<rparr>))
      else
        let d1 = (if expand then expand_records d (nat recnum) else d);
            (n, d2) = rcount d1
        in Some (if nat recnum < n then Some (Record (nat recnum)) else None, d2))"

definition the_rec :: "desc \<Rightarrow> rec_ref \<Rightarrow> descrec" where
  "the_rec d r = (case r of Bookmark i \<Rightarrow> bookmark2 d ! i | Record i \<Rightarrow> records2 d ! i)"

definition upd_rec :: "rec_ref \<Rightarrow> (descrec \<Rightarrow> descrec) \<Rightarrow> desc \<Rightarrow> desc" where
  "upd_rec r f d =
     (case r of
        Bookmark i \<Rightarrow> d\<lparr>bookmark2 := (bookmark2 d)[i := f (bookmark2 d ! i)]\<rparr>
      | Record i \<Rightarrow> d\<lparr>records2 := (records2 d)[i := f (records2 d ! i)]\<rparr>)"

section \<open>Values at their width\<close>

text \<open>A number converted to the C type of a field or of a buffer.\<close>

definition cast_to :: "int \<Rightarrow> int \<Rightarrow> int option" where
  "cast_to t n =
     (if t = SQL_IS_SMALLINT then Some (sint (of_int n :: u16))
      else if t = SQL_IS_USMALLINT then Some (uint (of_int n :: u16))
      else if t = SQL_IS_INTEGER then Some (sint (of_int n :: u32))
      else if t = SQL_IS_UINTEGER then Some (uint (of_int n :: u32))
      else if t = SQL_IS_LEN then Some (sint (of_int n :: u64))
      else if t = SQL_IS_ULEN then Some (uint (of_int n :: u64))
      else None)"

text \<open>The pointer-sized value an application passes, as a number.\<close>

definition ptr_num :: "dval \<Rightarrow> int" where
  "ptr_num v = (case v of Ptr a \<Rightarrow> uint a | _ \<Rightarrow> 0)"

definition apply_desc_val :: "dval \<Rightarrow> int \<Rightarrow> dval \<Rightarrow> int \<Rightarrow> dval option" where
  "apply_desc_val old dest_type src buflen =
     (if buflen \<in> set [SQL_IS_SMALLINT, SQL_IS_INTEGER, SQL_IS_LEN, SQL_IS_USMALLINT, SQL_IS_UINTEGER, SQL_IS_ULEN]
      then (case cast_to dest_type (ptr_num src) of Some n \<Rightarrow> Some (Num n) | None \<Rightarrow> Some old)
      else if buflen \<in> set [SQL_NTS, SQL_IS_POINTER] then
        (if dest_type \<in> set [SQL_IS_POINTER, SQL_NTS] then Some src
         else if dest_type \<in> set [SQL_IS_LEN, SQL_IS_ULEN] then map_option Num (cast_to dest_type (ptr_num src))
         else None)
      else Some old)"

section \<open>Reading and writing fields\<close>

definition rec_perms :: "desc \<Rightarrow> int \<Rightarrow> int \<Rightarrow> int" where
  "rec_perms d app imp =
     (let p = (case ref_type d of DESC_APP \<Rightarrow> app | DESC_IMP \<Rightarrow> imp)
      in case desc_type d of DESC_PARAM \<Rightarrow> P_PAR p | DESC_ROW \<Rightarrow> P_ROW p | DESC_UNKNOWN \<Rightarrow> p)"

definition hdr_denied :: "desc \<Rightarrow> desc_field \<Rightarrow> int \<Rightarrow> int \<Rightarrow> bool" where
  "hdr_denied d fld app imp \<longleftrightarrow>
     (ref_type d = DESC_APP \<and> NOT (perms fld) AND app \<noteq> 0) \<or>
     (ref_type d = DESC_IMP \<and> NOT (perms fld) AND imp \<noteq> 0)"

definition rec_denied :: "desc \<Rightarrow> desc_field \<Rightarrow> int \<Rightarrow> int \<Rightarrow> bool" where
  "rec_denied d fld app imp \<longleftrightarrow> NOT (perms fld) AND rec_perms d app imp = rec_perms d app imp"

definition type_mismatch :: "desc_field \<Rightarrow> int \<Rightarrow> bool" where
  "type_mismatch fld buflen \<longleftrightarrow>
     (data_type fld = SQL_IS_POINTER \<and> buflen \<noteq> SQL_IS_POINTER) \<or>
     (data_type fld \<noteq> SQL_IS_POINTER \<and> buflen = SQL_IS_POINTER)"

text \<open>The value stored through \<open>valptr\<close>, if any.\<close>

definition read_value :: "dval \<Rightarrow> int \<Rightarrow> int \<Rightarrow> dval option" where
  "read_value src dt buflen =
     (if buflen = SQL_IS_POINTER then Some src
      else case src of
        Num n \<Rightarrow> if cast_to dt 0 = None then None else map_option Num (cast_to buflen n)
      | _ \<Rightarrow> None)"

text \<open>
  The result of an access: the return code, what was stored through the application's pointer,
  and the descriptor; \<open>None\<close> for undefined behaviour. The field is looked at before it is
  compared with null.
\<close>

definition get_fail :: "string \<Rightarrow> string \<Rightarrow> string \<Rightarrow> myodbc_errid \<Rightarrow> desc \<Rightarrow> (int \<times> dval option \<times> desc) option" where
  "get_fail drv state msg errid d =
     (let (rc, e) = set_desc_error drv (Some state) (Some msg) (int (errid_ord errid))
      in Some (rc, None, d\<lparr>d_error := e\<rparr>))"

definition MySQLGetDescField ::
    "string \<Rightarrow> desc \<Rightarrow> int \<Rightarrow> int \<Rightarrow> int \<Rightarrow> (int \<times> dval option \<times> desc) option" where
  "MySQLGetDescField drv d0 recnum fldid buflen =
     (let d = d0\<lparr>d_error := myerror_clear (d_error d0)\<rparr> in
      if is_ird d \<and> d_stmt d = None then None
      else if is_ird d \<and> st_state (the (d_stmt d)) = ST_UNKNOWN then
        get_fail drv ''HY007'' ''Associated statement is not prepared'' MYERR_S1007 d
      else case getfield fldid of
        None \<Rightarrow> None
      | Some fld \<Rightarrow>
          if loc fld = DESC_HDR \<and> hdr_denied d fld P_RA P_RI then
            get_fail drv ''HY091'' ''Invalid descriptor field identifier'' MYERR_S1091 d
          else if loc fld = DESC_REC \<and> rec_denied d fld P_RA P_RI then
            get_fail drv ''HY091'' ''Invalid descriptor field identifier'' MYERR_S1091 d
          else if loc fld = DESC_REC \<and> (recnum < 1 \<or> int (length (records2 d)) < recnum) then
            get_fail drv ''07009'' ''Invalid descriptor index'' MYERR_07009
              (if recnum < 1 then d else snd (rcount d))
          else
            let d1 = snd (rcount d);
                d2 = (if loc fld = DESC_REC \<or> fldid = SQL_DESC_COUNT then d1 else d);
                src = (case loc fld of
                         DESC_HDR \<Rightarrow> hdr d2 (offset fld)
                       | DESC_REC \<Rightarrow> vals (records2 d2 ! nat (recnum - 1)) (offset fld))
            in if type_mismatch fld buflen then
                 get_fail drv ''HY015'' ''Invalid parameter type'' MYERR_S1015 d2
               else Some (SQL_SUCCESS, read_value src (data_type fld) buflen, d2))"

text \<open>\<open>DESC::set_error\<close> takes its prefix from the statement.\<close>

definition desc_set_error :: "string \<Rightarrow> string \<Rightarrow> myodbc_errid \<Rightarrow> desc \<Rightarrow> (int \<times> desc) option" where
  "desc_set_error state msg errid d =
     (case d_stmt d of
        None \<Rightarrow> None
      | Some s \<Rightarrow> Some (SQL_ERROR, d\<lparr>d_error := (d_error d)\<lparr>sqlstate := state,
            message := st_error_prefix s @ msg, native_error := int (errid_ord errid)\<rparr>\<rparr>))"

text \<open>The name of a parameter is appended to the record's buffer, with its terminator.\<close>

definition par_add :: "string \<Rightarrow> descrec \<Rightarrow> descrec option" where
  "par_add chunk r =
     map_option (\<lambda>b. r\<lparr>par := (par r)\<lparr>tempbuf := b\<rparr>\<rparr>) (add_to_buffer chunk (tempbuf (par r)))"

text \<open>
  The work after a successful store: the general type, the code and the defaults of a numeric
  column, and the mark of a bound parameter.
\<close>

definition num_of :: "dval \<Rightarrow> int" where
  "num_of v = (case v of Num n \<Rightarrow> n | _ \<Rightarrow> 0)"

definition sync_types :: "int \<Rightarrow> field_vals \<Rightarrow> field_vals" where
  "sync_types fldid v =
     (if fldid = SQL_DESC_TYPE then v(F_concise_type := v F_type, F_datetime_interval_code := Num 0)
      else if fldid = SQL_DESC_CONCISE_TYPE then
        v(F_type := Num (get_type_from_concise_type (num_of (v F_concise_type))),
          F_datetime_interval_code := Num (get_dticode_from_concise_type (num_of (v F_concise_type))))
      else if fldid = SQL_DESC_DATETIME_INTERVAL_CODE then
        v(F_concise_type := Num
            (if num_of (v F_type) = SQL_DATETIME
             then get_concise_type_from_datetime_code (num_of (v F_datetime_interval_code))
             else get_concise_type_from_interval_code (num_of (v F_datetime_interval_code))))
      else v)"

definition numeric_defaults :: "bool \<Rightarrow> int \<Rightarrow> field_vals \<Rightarrow> field_vals" where
  "numeric_defaults ard fldid v =
     (if (fldid = SQL_DESC_TYPE \<or> fldid = SQL_DESC_CONCISE_TYPE) \<and> ard \<and> num_of (v F_type) = SQL_C_NUMERIC
      then v(F_precision := Num 38, F_scale := Num 0) else v)"

definition bound_ids :: "int list" where
  "bound_ids = [SQL_DESC_DATA_PTR, SQL_DESC_OCTET_LENGTH_PTR, SQL_DESC_INDICATOR_PTR]"

definition post_set :: "desc \<Rightarrow> int \<Rightarrow> bool \<Rightarrow> descrec \<Rightarrow> descrec" where
  "post_set d fldid nonnull r =
     (let r1 = (if is_ard d \<or> is_apd d \<or> is_ipd d
                then r\<lparr>vals := numeric_defaults (is_ard d) fldid (sync_types fldid (vals r))\<rparr> else r)
      in if is_apd d \<and> nonnull \<and> fldid \<in> set bound_ids
         then r1\<lparr>par := (par r1)\<lparr>real_param_done := True\<rparr>\<rparr> else r1)"

text \<open>The store into a record: unbind, store, then the work after it.\<close>

definition set_in_rec ::
    "desc \<Rightarrow> desc_field \<Rightarrow> int \<Rightarrow> dval \<Rightarrow> int \<Rightarrow> descrec \<Rightarrow> descrec option" where
  "set_in_rec d fld fldid val buflen r =
     (let r1 = (if fldid \<in> set bound_ids then r else r\<lparr>vals := (vals r)(F_data_ptr := Ptr 0)\<rparr>)
      in map_option (\<lambda>v. post_set d fldid (val \<noteq> Ptr 0) (r1\<lparr>vals := (vals r1)(offset fld := v)\<rparr>))
           (apply_desc_val (vals r1 (offset fld)) (data_type fld) val buflen))"

text \<open>
  The part after the checks of the identifier: \<open>ref\<close> is the record, or \<open>None\<close> for the header.
  \<open>cstr\<close> is the C string at an address.
\<close>

definition set_checked ::
    "(u64 \<Rightarrow> string option) \<Rightarrow> desc \<Rightarrow> rec_ref option \<Rightarrow> desc_field \<Rightarrow> int \<Rightarrow> u64 \<Rightarrow> int \<Rightarrow> (int \<times> desc) option" where
  "set_checked cstr d ref fld fldid val buflen0 =
     (let buflen = (if buflen0 = 0 then data_type fld else buflen0) in
      if type_mismatch fld buflen then desc_set_error ''HY015'' ''Invalid parameter type'' MYERR_S1015 d
      else if fldid = SQL_DESC_UNNAMED \<and> val = 0 then
        desc_set_error ''HY092'' ''Invalid attribute/option identifier'' MYERR_S1092 d
      else case ref of
        None \<Rightarrow>
          Option.bind (if fldid = SQL_DESC_COUNT
                then map_option snd (desc_get_rec d (sint (ucast (val - 1) :: u32)) True) else Some d)
              (\<lambda>d1. map_option (\<lambda>v. (SQL_SUCCESS, d1\<lparr>hdr := (hdr d1)(offset fld := v)\<rparr>))
                (apply_desc_val (hdr d1 (offset fld)) (data_type fld) (Ptr val) buflen))
      | Some r \<Rightarrow>
          (if fldid = SQL_DESC_NAME then
             Option.bind (cstr val) (\<lambda>s.
               Option.bind (par_add (s @ [CHR 0x00]) (the_rec d r)) (\<lambda>x.
                 map_option (\<lambda>x1. (SQL_SUCCESS, upd_rec r (\<lambda>_. x1) d))
                   (set_in_rec d fld fldid ParBuf buflen x)))
           else
             map_option (\<lambda>x1. (SQL_SUCCESS, upd_rec r (\<lambda>_. x1) d))
               (set_in_rec d fld fldid (Ptr val) buflen (the_rec d r))))"

text \<open>The part that knows the field: its permissions, its record, the store.\<close>

definition set_located ::
    "(u64 \<Rightarrow> string option) \<Rightarrow> desc \<Rightarrow> int \<Rightarrow> desc_field \<Rightarrow> int \<Rightarrow> u64 \<Rightarrow> int \<Rightarrow> (int \<times> desc) option" where
  "set_located cstr d recnum fld fldid val buflen =
     (case loc fld of
        DESC_HDR \<Rightarrow>
          if hdr_denied d fld P_WA P_WI then
            desc_set_error ''HY091'' ''Invalid descriptor field identifier'' MYERR_S1091 d
          else set_checked cstr d None fld fldid val buflen
      | DESC_REC \<Rightarrow>
          if rec_denied d fld P_WA P_WI then
            desc_set_error ''HY091'' ''Invalid descriptor field identifier'' MYERR_S1091 d
          else if recnum < 1 \<and> d_stmt d = None then None
          else if recnum < 1 \<and> bookmarks (the (d_stmt d)) = SQL_UB_OFF then
            desc_set_error ''07009'' ''Invalid descriptor index'' MYERR_07009 d
          else
            Option.bind (desc_get_rec d (recnum - 1) True) (\<lambda>(r, d1).
              if r = None then None else set_checked cstr d1 r fld fldid val buflen))"

definition set_field ::
    "(u64 \<Rightarrow> string option) \<Rightarrow> desc \<Rightarrow> int \<Rightarrow> int \<Rightarrow> u64 \<Rightarrow> int \<Rightarrow> (int \<times> desc) option" where
  "set_field cstr d0 recnum fldid val buflen =
     (let d = d0\<lparr>d_error := myerror_clear (d_error d0)\<rparr> in
      if is_ird d \<and> fldid \<notin> set [SQL_DESC_ARRAY_STATUS_PTR, SQL_DESC_ROWS_PROCESSED_PTR] then
        desc_set_error ''HY016'' ''Cannot modify an implementation row descriptor'' MYERR_S1016 d
      else case getfield fldid of
        None \<Rightarrow> desc_set_error ''HY091'' ''Invalid descriptor field identifier'' MYERR_S1091 d
      | Some fld \<Rightarrow> set_located cstr d recnum fld fldid val buflen)"

text \<open>
  \<open>*dest = *src\<close> copies every member, the kind of descriptor, the statement and the allocation
  type included.
\<close>

definition MySQLCopyDesc :: "string \<Rightarrow> desc \<Rightarrow> desc \<Rightarrow> (int \<times> desc) option" where
  "MySQLCopyDesc drv src dest0 =
     (let dest = dest0\<lparr>d_error := myerror_clear (d_error dest0)\<rparr>;
          fail = (\<lambda>state msg errid. let (rc, e) = set_desc_error drv (Some state) (Some msg) (int (errid_ord errid))
            in Some (rc, dest\<lparr>d_error := e\<rparr>)) in
      if is_ird dest then fail ''HY016'' ''Cannot modify an implementation row descriptor'' MYERR_S1016
      else if is_ird src \<and> d_stmt src = None then None
      else if is_ird src \<and> st_state (the (d_stmt src)) = ST_UNKNOWN then
        fail ''HY007'' ''Associated statement is not prepared'' MYERR_S1007
      else Some (SQL_SUCCESS, src))"

text \<open>The calls in the context of a statement, which takes the error over.\<close>

definition stmt_SQLSetDescField ::
    "(u64 \<Rightarrow> string option) \<Rightarrow> myerror \<Rightarrow> desc \<Rightarrow> int \<Rightarrow> int \<Rightarrow> u64 \<Rightarrow> int \<Rightarrow> (int \<times> myerror \<times> desc) option" where
  "stmt_SQLSetDescField cstr err d recnum fldid val buflen =
     map_option (\<lambda>(rc, d1). (rc, if rc \<noteq> SQL_SUCCESS then d_error d1 else err, d1))
       (set_field cstr d recnum fldid val buflen)"

definition stmt_SQLGetDescField ::
    "string \<Rightarrow> myerror \<Rightarrow> desc \<Rightarrow> int \<Rightarrow> int \<Rightarrow> int \<Rightarrow> (int \<times> dval option \<times> myerror \<times> desc) option" where
  "stmt_SQLGetDescField drv err d recnum fldid buflen =
     map_option (\<lambda>(rc, v, d1). (rc, v, if rc \<noteq> SQL_SUCCESS then d_error d1 else err, d1))
       (MySQLGetDescField drv d recnum fldid buflen)"

section \<open>Data at execution and output streams\<close>

text \<open>
  \<open>ptr_offset_adjust\<close>: \<open>bind_offset\<close> is the value behind the offset pointer. \<open>mem\<close> is the
  \<open>SQLLEN\<close> or \<open>SQLULEN\<close> at an address. \<open>SQL_DATA_AT_EXEC\<close> is -2, \<open>SQL_LEN_DATA_AT_EXEC_OFFSET\<close> is -100.
\<close>

definition ptr_offset_adjust :: "u64 \<Rightarrow> u64 option \<Rightarrow> int \<Rightarrow> int \<Rightarrow> u64 \<Rightarrow> u64" where
  "ptr_offset_adjust ptr bind_offset bind_type default_size rown =
     (let off = (case bind_offset of Some o1 \<Rightarrow> o1 | None \<Rightarrow> 0)
        + (if bind_type = 0 then of_int default_size * rown else of_int bind_type * rown)
      in if ptr = 0 then 0 else ptr + off)"

definition ptr_of :: "dval \<Rightarrow> u64" where
  "ptr_of v = (case v of Ptr a \<Rightarrow> a | _ \<Rightarrow> 0)"

definition is_data_at_exec :: "(u64 \<Rightarrow> u64) \<Rightarrow> u64 \<Rightarrow> bool" where
  "is_data_at_exec mem p \<longleftrightarrow> p \<noteq> 0 \<and> (sint (mem p) = - 2 \<or> sint (mem p) \<le> - 100)"

definition rec_at_exec :: "(u64 \<Rightarrow> u64) \<Rightarrow> desc \<Rightarrow> descrec \<Rightarrow> bool" where
  "rec_at_exec mem d r =
     (let bo = ptr_of (hdr d F_bind_offset_ptr)
      in is_data_at_exec mem (ptr_offset_adjust (ptr_of (vals r F_octet_length_ptr))
           (if bo = 0 then None else Some (mem bo)) (num_of (hdr d F_bind_type)) 8 0))"

fun find_dae_from :: "(descrec \<Rightarrow> bool) \<Rightarrow> descrec list \<Rightarrow> int \<Rightarrow> int" where
  "find_dae_from t [] i = - 1"
| "find_dae_from t (r # rs) i = (if t r then i else find_dae_from t rs (i + 1))"

definition desc_find_dae_rec :: "(u64 \<Rightarrow> u64) \<Rightarrow> desc \<Rightarrow> int" where
  "desc_find_dae_rec mem d = find_dae_from (rec_at_exec mem d) (records2 d) 0"

text \<open>
  The next output stream among the parameters from number \<open>i\<close> on: its number, its column in
  the result of output parameters. \<open>SQL_PARAM_INPUT_OUTPUT\<close> is 2, \<open>SQL_PARAM_OUTPUT\<close> 4,
  \<open>SQL_PARAM_INPUT_OUTPUT_STREAM\<close> 8 and \<open>SQL_PARAM_OUTPUT_STREAM\<close> 16.
\<close>

fun find_outstream :: "int list \<Rightarrow> nat \<Rightarrow> nat \<Rightarrow> (nat \<times> nat) option" where
  "find_outstream [] i column = None"
| "find_outstream (t # ts) i column =
     (if t = 8 \<or> t = 16 then Some (i, Suc column)
      else if t = 2 \<or> t = 4 then find_outstream ts (Suc i) (Suc column)
      else find_outstream ts (Suc i) column)"

definition desc_find_outstream_rec :: "desc \<Rightarrow> nat option \<Rightarrow> nat \<Rightarrow> (nat \<times> nat) option" where
  "desc_find_outstream_rec ipd recnum res_col_num =
     (let start = (case recnum of None \<Rightarrow> 0 | Some n \<Rightarrow> Suc n)
      in find_outstream (map (\<lambda>r. num_of (vals r F_parameter_type)) (drop start (records2 ipd))) start res_col_num)"

section \<open>The table of fields\<close>

definition field_list :: "(int \<times> desc_field) list" where
  "field_list = map (\<lambda>(i, f). (i, the (getfield i))) field_ids"

lemma getfield_in: "getfield fldid = Some fld \<Longrightarrow> (fldid, fld) \<in> set field_list"
proof -
  assume g: "getfield fldid = Some fld"
  then obtain f where "map_of field_ids fldid = Some f" by (auto simp: getfield_def bind_eq_Some_conv)
  then have "(fldid, f) \<in> set field_ids" by (rule map_of_SomeD)
  then have "(\<lambda>(i, f). (i, the (getfield i))) (fldid, f) \<in> set field_list"
    unfolding field_list_def set_map by (rule imageI)
  with g show ?thesis by simp
qed

text \<open>What the proofs need of the table, computed field by field.\<close>

definition numeric_types :: "int list" where
  "numeric_types = [SQL_IS_SMALLINT, SQL_IS_USMALLINT, SQL_IS_INTEGER, SQL_IS_UINTEGER, SQL_IS_LEN, SQL_IS_ULEN]"

lemma field_table_facts:
  "list_all (\<lambda>(i, f). (loc f = DESC_REC \<longrightarrow> NOT (perms f) AND P_PAR P_RA = P_PAR P_RA) \<and>
     data_type f \<in> set (SQL_IS_POINTER # SQL_NTS # numeric_types) \<and>
     (loc f = DESC_REC \<longrightarrow> NOT (perms f) AND P_RA = P_RA \<longrightarrow> NOT (perms f) AND P_WA = P_WA) \<and>
     (i \<in> set [SQL_DESC_ARRAY_STATUS_PTR, SQL_DESC_ROWS_PROCESSED_PTR] \<longrightarrow> data_type f = SQL_IS_POINTER) \<and>
     (offset f = F_count \<longleftrightarrow> i = SQL_DESC_COUNT) \<and>
     (offset f = F_alloc_type \<longrightarrow> NOT (perms f) AND P_WA \<noteq> 0 \<and> NOT (perms f) AND P_WI \<noteq> 0 \<and> loc f = DESC_HDR) \<and>
     (i = SQL_DESC_NAME \<longrightarrow> loc f = DESC_REC \<and> data_type f = SQL_NTS \<and> NOT (perms f) AND P_WA = P_WA))
   field_list"
  by code_simp

lemma field_offsets:
  "list_all (\<lambda>(i, f). (i = SQL_DESC_TYPE \<longleftrightarrow> offset f = F_type) \<and> (i = SQL_DESC_CONCISE_TYPE \<longleftrightarrow> offset f = F_concise_type) \<and>
     (i = SQL_DESC_DATETIME_INTERVAL_CODE \<longleftrightarrow> offset f = F_datetime_interval_code) \<and>
     (offset f = F_data_ptr \<longleftrightarrow> i = SQL_DESC_DATA_PTR)) field_list"
  by code_simp

section \<open>Records\<close>

lemma desc_get_rec_expand:
  assumes "0 \<le> n"
  shows "\<exists>d1. desc_get_rec d n True = Some (Some (Record (nat n)), d1) \<and>
    d1 = d\<lparr>records2 := records2 d1, hdr := (hdr d)(F_count := Num (int (length (records2 d1))))\<rparr> \<and>
    (\<exists>xs. records2 d1 = records2 d @ xs) \<and> nat n < length (records2 d1)"
  using assms by (auto simp: desc_get_rec_def expand_records_def rcount_def Let_def)

lemma cast_to_cast: "cast_to t n = Some m \<Longrightarrow> cast_to t m = Some m"
  by (auto simp: cast_to_def split: if_splits)

lemma field_offset:
  assumes "(fldid, fld) \<in> set field_list"
  shows "fldid = SQL_DESC_TYPE \<longleftrightarrow> offset fld = F_type" "fldid = SQL_DESC_CONCISE_TYPE \<longleftrightarrow> offset fld = F_concise_type"
    "fldid = SQL_DESC_DATETIME_INTERVAL_CODE \<longleftrightarrow> offset fld = F_datetime_interval_code"
    "fldid = SQL_DESC_DATA_PTR \<longleftrightarrow> offset fld = F_data_ptr"
  using bspec [OF field_offsets [unfolded list_all_iff] assms] by (simp_all only: prod.case)

lemma post_set_own:
  assumes "(fldid, fld) \<in> set field_list"
  shows "vals (post_set d fldid b r) (offset fld) = vals r (offset fld)"
proof -
  note o = field_offset [OF assms]
  consider "fldid = SQL_DESC_TYPE" | "fldid = SQL_DESC_CONCISE_TYPE" | "fldid = SQL_DESC_DATETIME_INTERVAL_CODE"
    | (other) "fldid \<noteq> SQL_DESC_TYPE" "fldid \<noteq> SQL_DESC_CONCISE_TYPE" "fldid \<noteq> SQL_DESC_DATETIME_INTERVAL_CODE"
    by blast
  then show ?thesis
  proof cases
    case 1
    moreover have "offset fld = F_type" using 1 o(1) by simp
    ultimately show ?thesis by (simp add: post_set_def Let_def numeric_defaults_def sync_types_def)
  next
    case 2
    moreover have "offset fld = F_concise_type" using 2 o(2) by simp
    ultimately show ?thesis by (simp add: post_set_def Let_def numeric_defaults_def sync_types_def desc_ids)
  next
    case 3
    moreover have "offset fld = F_datetime_interval_code" using 3 o(3) by simp
    ultimately show ?thesis by (simp add: post_set_def Let_def numeric_defaults_def sync_types_def desc_ids)
  next
    case other
    then show ?thesis by (simp add: post_set_def Let_def numeric_defaults_def sync_types_def)
  qed
qed

end
