(* ===== verification/Desc_Props.thy ===== *)
theory Desc_Props
  imports Desc
begin

unbundle bit_operations_syntax

text \<open>
  What reads and stores of descriptor fields do to a descriptor: what a store leaves alone, what
  is read after it, which accesses are refused, and what the copy of a descriptor does to the
  target.
\<close>

section \<open>What a store leaves alone\<close>

text \<open>The kind of a descriptor, its statement's connection and its allocation are not touched.\<close>

definition same_kind :: "desc \<Rightarrow> desc \<Rightarrow> bool" where
  "same_kind d d1 \<longleftrightarrow> desc_type d1 = desc_type d \<and> ref_type d1 = ref_type d \<and>
     hdr d1 F_alloc_type = hdr d F_alloc_type \<and> (d_stmt d1 = None \<longleftrightarrow> d_stmt d = None)"

text \<open>Every record but number \<open>k\<close> is as it was; records may have been added at the end.\<close>

definition recs_frame :: "int \<Rightarrow> desc \<Rightarrow> desc \<Rightarrow> bool" where
  "recs_frame k d d1 \<longleftrightarrow> length (records2 d) \<le> length (records2 d1) \<and>
     (\<forall>i < length (records2 d). int i \<noteq> k \<longrightarrow> records2 d1 ! i = records2 d ! i)"

lemma same_kind_trans: "same_kind a b \<Longrightarrow> same_kind b c \<Longrightarrow> same_kind a c"
  by (simp add: same_kind_def)

lemma recs_frame_trans: "recs_frame k a b \<Longrightarrow> recs_frame k b c \<Longrightarrow> recs_frame k a c"
  by (auto simp: recs_frame_def)

lemma desc_get_rec_frame:
  assumes "desc_get_rec d n e = Some (r, d1)"
  shows "same_kind d d1 \<and> recs_frame k d d1 \<and> (r = None \<or> r = Some (Record (nat n)) \<and> 0 \<le> n \<or> (\<exists>i. r = Some (Bookmark i)) \<and> n = -1)"
  using assms
  by (auto simp: desc_get_rec_def get_bookmark_def expand_records_def rcount_def Let_def same_kind_def recs_frame_def
      nth_append split: if_splits option.splits)

lemma desc_set_error_frame:
  "desc_set_error state msg errid d = Some (rc, d1) \<Longrightarrow>
     same_kind d d1 \<and> recs_frame k d d1 \<and> records2 d1 = records2 d \<and> bookmark2 d1 = bookmark2 d \<and> hdr d1 = hdr d \<and>
     rc = SQL_ERROR \<and> sqlstate (d_error d1) = state \<and> d_stmt d \<noteq> None"
  by (auto simp: desc_set_error_def same_kind_def recs_frame_def split: option.splits)

lemma desc_set_error_Some: "d_stmt d \<noteq> None \<Longrightarrow> \<exists>d1. desc_set_error state msg errid d = Some (SQL_ERROR, d1)"
  by (auto simp: desc_set_error_def)

lemma upd_rec_frame:
  "same_kind d (upd_rec r f d) \<and> recs_frame (case r of Record i \<Rightarrow> int i | Bookmark i \<Rightarrow> -1) d (upd_rec r f d)"
  by (auto simp: upd_rec_def same_kind_def recs_frame_def split: rec_ref.splits)

lemma set_checked_frame:
  assumes "set_checked cstr d ref fld fldid val buflen = Some (rc, d1)" "(fldid, fld) \<in> set field_list"
    "ref = None \<Longrightarrow> offset fld \<noteq> F_alloc_type"
  shows "same_kind d d1 \<and> (rc = SQL_ERROR \<and> records2 d1 = records2 d \<and> hdr d1 = hdr d \<and> d_stmt d \<noteq> None \<or> rc = SQL_SUCCESS) \<and>
    recs_frame (case ref of Some (Record i) \<Rightarrow> int i | _ \<Rightarrow> - 1) d d1"
proof -
  define bl where "bl = (if buflen = 0 then data_type fld else buflen)"
  consider (mism) "type_mismatch fld bl"
    | (unnamed) "\<not> type_mismatch fld bl" "fldid = SQL_DESC_UNNAMED \<and> val = 0"
    | (ok) "\<not> type_mismatch fld bl" "\<not> (fldid = SQL_DESC_UNNAMED \<and> val = 0)" by blast
  then show ?thesis
  proof cases
    case mism
    then show ?thesis using assms(1) desc_set_error_frame
      by (fastforce simp: set_checked_def Let_def bl_def [symmetric])
  next
    case unnamed
    then show ?thesis using assms(1) desc_set_error_frame
      by (fastforce simp: set_checked_def Let_def bl_def [symmetric])
  next
    case ok
    show ?thesis
    proof (cases ref)
      case None
      then obtain d2 v where d2: "(if fldid = SQL_DESC_COUNT
            then map_option snd (desc_get_rec d (sint (ucast (val - 1) :: u32)) True) else Some d) = Some d2"
          "rc = SQL_SUCCESS" "d1 = d2\<lparr>hdr := (hdr d2)(offset fld := v)\<rparr>"
        using assms(1) ok by (auto simp: set_checked_def Let_def bl_def [symmetric] bind_eq_Some_conv)
      have "same_kind d d2 \<and> recs_frame (- 1) d d2"
        using d2(1) desc_get_rec_frame [of d _ True _ d2 "- 1"]
        by (auto split: if_splits simp: same_kind_def recs_frame_def)
      then show ?thesis using d2 assms(3) None by (auto simp: same_kind_def recs_frame_def)
    next
      case (Some r)
      then have "\<exists>f. rc = SQL_SUCCESS \<and> d1 = upd_rec r f d"
        using assms(1) ok
        by (auto simp: set_checked_def Let_def bl_def [symmetric] bind_eq_Some_conv split: if_splits)
      then show ?thesis using upd_rec_frame [where d = d and r = r] Some by (auto split: rec_ref.splits)
    qed
  qed
qed

lemma alloc_not_writable:
  assumes "(fldid, fld) \<in> set field_list" "offset fld = F_alloc_type"
  shows "loc fld = DESC_HDR \<and> hdr_denied d fld P_WA P_WI"
proof -
  have "NOT (perms fld) AND P_WA \<noteq> 0 \<and> NOT (perms fld) AND P_WI \<noteq> 0 \<and> loc fld = DESC_HDR"
    using bspec [OF field_table_facts [unfolded list_all_iff] assms(1)] assms(2) unfolding prod.case by blast
  then show ?thesis by (cases "ref_type d") (auto simp: hdr_denied_def)
qed

lemma set_located_frame:
  assumes "set_located cstr d recnum fld fldid val buflen = Some (rc, d1)" "(fldid, fld) \<in> set field_list"
  shows "same_kind d d1 \<and> recs_frame (recnum - 1) d d1 \<and>
    (rc = SQL_ERROR \<and> d_stmt d \<noteq> None \<and> (\<forall>f. f \<noteq> F_count \<longrightarrow> hdr d1 f = hdr d f) \<and>
       take (length (records2 d)) (records2 d1) = records2 d \<or> rc = SQL_SUCCESS)"
proof -
  have err: ?thesis if "desc_set_error state msg errid d = Some (rc, d1)" for state msg errid
    using desc_set_error_frame [OF that] by simp
  show ?thesis
  proof (cases "loc fld")
    case DESC_HDR
    show ?thesis
    proof (cases "hdr_denied d fld P_WA P_WI")
      case True
      then show ?thesis using assms(1) DESC_HDR err by (simp add: set_located_def)
    next
      case False
      then have "offset fld \<noteq> F_alloc_type" using alloc_not_writable [OF assms(2)] by blast
      then have "same_kind d d1 \<and> (rc = SQL_ERROR \<and> records2 d1 = records2 d \<and> hdr d1 = hdr d \<and> d_stmt d \<noteq> None \<or>
          rc = SQL_SUCCESS) \<and> recs_frame (- 1) d d1"
        using set_checked_frame [of cstr d None fld fldid val buflen rc d1] assms False DESC_HDR
        by (simp add: set_located_def)
      moreover have "recs_frame (- 1) d d1 \<Longrightarrow> recs_frame (recnum - 1) d d1" by (auto simp: recs_frame_def)
      ultimately show ?thesis by auto
    qed
  next
    case DESC_REC
    consider (den) "rec_denied d fld P_WA P_WI" | (off) "\<not> rec_denied d fld P_WA P_WI" "recnum < 1" "d_stmt d \<noteq> None"
          "bookmarks (the (d_stmt d)) = SQL_UB_OFF"
      | (rec) "\<not> rec_denied d fld P_WA P_WI" "\<not> (recnum < 1 \<and> d_stmt d = None)"
          "\<not> (recnum < 1 \<and> bookmarks (the (d_stmt d)) = SQL_UB_OFF)"
      | (ub) "\<not> rec_denied d fld P_WA P_WI" "recnum < 1 \<and> d_stmt d = None" by argo
    then show ?thesis
    proof cases
      case den
      then show ?thesis using assms(1) DESC_REC err by (simp add: set_located_def)
    next
      case off
      then have "desc_set_error ''07009'' ''Invalid descriptor index'' MYERR_07009 d = Some (rc, d1)"
        using assms(1) DESC_REC by (auto simp: set_located_def split: if_splits)
      then show ?thesis by (rule err)
    next
      case ub
      then show ?thesis using assms(1) DESC_REC by (simp add: set_located_def)
    next
      case rec
      then obtain r d2 where d2: "desc_get_rec d (recnum - 1) True = Some (Some r, d2)"
          "set_checked cstr d2 (Some r) fld fldid val buflen = Some (rc, d1)"
        using assms(1) DESC_REC by (auto simp: set_located_def bind_eq_Some_conv split: if_splits)
      have f1: "same_kind d d2" "recs_frame k d d2"
          "r = Record (nat (recnum - 1)) \<and> 0 \<le> recnum - 1 \<or> (\<exists>i. r = Bookmark i) \<and> recnum - 1 = - 1" for k
        using desc_get_rec_frame [OF d2(1), of k] by auto
      have h2: "\<forall>f. f \<noteq> F_count \<longrightarrow> hdr d2 f = hdr d f" "take (length (records2 d)) (records2 d2) = records2 d"
        using d2(1) f1(2) [of "- 1"] by (auto simp: desc_get_rec_def get_bookmark_def expand_records_def rcount_def Let_def
            split: if_splits option.splits)
      have f2: "same_kind d2 d1 \<and> (rc = SQL_ERROR \<and> records2 d1 = records2 d2 \<and> hdr d1 = hdr d2 \<and> d_stmt d2 \<noteq> None \<or> rc = SQL_SUCCESS) \<and>
          recs_frame (case r of Record i \<Rightarrow> int i | Bookmark i \<Rightarrow> - 1) d2 d1"
        using set_checked_frame [OF d2(2) assms(2)] by (cases r) simp_all
      then have "recs_frame (recnum - 1) d2 d1" using f1(3) by (auto simp: recs_frame_def)
      then show ?thesis
        using f1(1,2) f2 h2 same_kind_trans [of d d2 d1] recs_frame_trans [of "recnum - 1" d d2 d1]
        by (auto simp: same_kind_def)
    qed
  qed
qed

lemma set_field_frame:
  assumes "set_field cstr d recnum fldid val buflen = Some (rc, d1)"
  shows "same_kind d d1 \<and> recs_frame (recnum - 1) d d1 \<and>
    (rc = SQL_ERROR \<and> d_stmt d \<noteq> None \<and> (\<forall>f. f \<noteq> F_count \<longrightarrow> hdr d1 f = hdr d f) \<and>
       take (length (records2 d)) (records2 d1) = records2 d \<or> rc = SQL_SUCCESS)"
proof -
  define c where "c = d\<lparr>d_error := myerror_clear (d_error d)\<rparr>"
  have cd: "same_kind d x = same_kind c x" "recs_frame k d x = recs_frame k c x" "records2 c = records2 d"
      "hdr c = hdr d" "d_stmt c = d_stmt d" for x k
    by (simp_all add: c_def same_kind_def recs_frame_def)
  have err: "same_kind c d1 \<and> recs_frame (recnum - 1) c d1 \<and> rc = SQL_ERROR \<and> d_stmt d \<noteq> None \<and>
      hdr d1 = hdr d \<and> take (length (records2 d)) (records2 d1) = records2 d"
    if "desc_set_error state msg errid c = Some (rc, d1)" for state msg errid
    using desc_set_error_frame [OF that] cd by simp
  have eq: "set_field cstr d recnum fldid val buflen =
      (if is_ird c \<and> fldid \<notin> set [SQL_DESC_ARRAY_STATUS_PTR, SQL_DESC_ROWS_PROCESSED_PTR]
       then desc_set_error ''HY016'' ''Cannot modify an implementation row descriptor'' MYERR_S1016 c
       else case getfield fldid of
          None \<Rightarrow> desc_set_error ''HY091'' ''Invalid descriptor field identifier'' MYERR_S1091 c
        | Some fld \<Rightarrow> set_located cstr c recnum fld fldid val buflen)"
    by (simp add: set_field_def set_located_def Let_def c_def [symmetric])
  show ?thesis
  proof (cases "is_ird c \<and> fldid \<notin> set [SQL_DESC_ARRAY_STATUS_PTR, SQL_DESC_ROWS_PROCESSED_PTR] \<or> getfield fldid = None")
    case True
    then obtain st msg errid where "desc_set_error st msg errid c = Some (rc, d1)"
      using assms eq by (auto split: if_splits)
    from err [OF this] show ?thesis by (simp add: cd)
  next
    case False
    then obtain fld where g: "getfield fldid = Some fld" by auto
    then have in_list: "(fldid, fld) \<in> set field_list" by (rule getfield_in)
    have loc: "set_located cstr c recnum fld fldid val buflen = Some (rc, d1)"
      using assms False g eq by (auto split: if_splits)
    from set_located_frame [OF loc in_list] show ?thesis by (simp add: cd)
  qed
qed














definition sample_stmt :: desc_stmt where
  "sample_stmt = \<lparr>bookmarks = 0, st_state = ST_PREPARED, st_error_prefix = ''[P]'', st_error = no_error\<rparr>"

definition sample_ard :: desc where
  "sample_ard = new_desc (Some sample_stmt) 1 DESC_APP DESC_ROW"



section \<open>When a store returns\<close>

text \<open>
  The reasons for an error about the field and the value, and about the number of the record. \<open>bl\<close> is the type
  the application gave for the value, its own type for 0.
\<close>

definition store_refused :: "desc \<Rightarrow> int \<Rightarrow> desc_field \<Rightarrow> u64 \<Rightarrow> int \<Rightarrow> bool" where
  "store_refused d fldid fld val bl \<longleftrightarrow>
     is_ird d \<and> fldid \<notin> set [SQL_DESC_ARRAY_STATUS_PTR, SQL_DESC_ROWS_PROCESSED_PTR] \<or>
     (case loc fld of DESC_HDR \<Rightarrow> hdr_denied d fld P_WA P_WI | DESC_REC \<Rightarrow> rec_denied d fld P_WA P_WI) \<or>
     type_mismatch fld bl \<or> fldid = SQL_DESC_UNNAMED \<and> val = 0"

definition bookmarks_counted :: "desc \<Rightarrow> bool" where
  "bookmarks_counted d \<longleftrightarrow> bookmark_count d = 0 \<or> bookmark2 d \<noteq> []"

definition record_number_ok :: "desc \<Rightarrow> int \<Rightarrow> bool" where
  "record_number_ok d recnum \<longleftrightarrow>
     1 \<le> recnum \<or>
     (case d_stmt d of
        None \<Rightarrow> False
      | Some s \<Rightarrow> bookmarks s = SQL_UB_OFF \<or> recnum = 0 \<and> bookmarks s = SQL_UB_VARIABLE \<and> bookmarks_counted d)"

text \<open>
  A store that is defined: on an application-allocated descriptor, which has no statement to report to, none that
  would be refused; a record number from 1 on, or 0 for the bookmark record where the statement has bookmarks; a
  count that is positive, or a statement; a string length only for a string, a pointer or a length; a name that is a C string,
  for records whose buffers are well formed.
\<close>

definition store_defined :: "(u64 \<Rightarrow> string option) \<Rightarrow> desc \<Rightarrow> int \<Rightarrow> int \<Rightarrow> u64 \<Rightarrow> int \<Rightarrow> bool" where
  "store_defined cstr d recnum fldid val buflen \<longleftrightarrow>
     (case getfield fldid of
        None \<Rightarrow> d_stmt d \<noteq> None
      | Some fld \<Rightarrow>
          let bl = (if buflen = 0 then data_type fld else buflen) in
          (d_stmt d \<noteq> None \<or> \<not> store_refused d fldid fld val bl) \<and>
          (loc fld = DESC_REC \<longrightarrow> record_number_ok d recnum) \<and>
          (fldid = SQL_DESC_COUNT \<longrightarrow> 0 \<le> sint (ucast (val - 1) :: u32) \<or> d_stmt d \<noteq> None \<and> bookmarks_counted d) \<and>
          (bl = SQL_NTS \<longrightarrow> data_type fld \<in> set [SQL_IS_POINTER, SQL_NTS, SQL_IS_LEN, SQL_IS_ULEN]) \<and>
          (fldid = SQL_DESC_NAME \<longrightarrow>
             cstr val \<noteq> None \<and> list_all (\<lambda>r. tb_wf (tempbuf (par r))) (records2 d @ bookmark2 d)))"

lemma par_reset_wf: "tb_wf (tempbuf p) \<Longrightarrow> tb_wf (tempbuf (par_reset p))"
  by (simp add: par_reset_def tb_reset_def tb_wf_def buf_len_def)

lemma par_reset_to_defaults: "par (reset_to_defaults r) = par_reset (par_reset (par r)) \<or> par (reset_to_defaults r) = par_reset (par r)"
  by (simp add: reset_to_defaults_def Let_def desc_rec_init_apd_def desc_rec_init_ipd_def desc_rec_init_ard_def desc_rec_init_ird_def)

lemma new_descrec_wf: "tb_wf (tempbuf (par (new_descrec dt rt)))" "tb_wf (tempbuf (par (reset_to_defaults (new_descrec dt rt))))"
proof -
  have empty: "tb_wf \<lparr>tb_buf = [], cur_pos = 0\<rparr>" by (simp add: tb_wf_def buf_len_def)
  have reset: "tb_wf (tempbuf (par r)) \<Longrightarrow> tb_wf (tempbuf (par (reset_to_defaults r)))" for r
    using par_reset_to_defaults [of r] by (auto intro!: par_reset_wf)
  show "tb_wf (tempbuf (par (new_descrec dt rt)))" unfolding new_descrec_def by (rule reset) (simp add: empty)
  then show "tb_wf (tempbuf (par (reset_to_defaults (new_descrec dt rt))))" by (rule reset)
qed

lemma get_bookmark_returns:
  assumes "bookmarks_counted d"
  shows "\<exists>r d1. get_bookmark d True = Some (Some r, d1) \<and> d_stmt d1 = d_stmt d \<and>
    (list_all (\<lambda>r. tb_wf (tempbuf (par r))) (bookmark2 d) \<longrightarrow> tb_wf (tempbuf (par (the_rec d1 r))))"
proof (cases "bookmark_count d = 0")
  case True
  then show ?thesis using new_descrec_wf(1) by (simp add: get_bookmark_def the_rec_def)
next
  case False
  then have "bookmark2 d \<noteq> []" using assms by (simp add: bookmarks_counted_def)
  moreover from this have "bookmark2 d ! (length (bookmark2 d) - 1) \<in> set (bookmark2 d)" by simp
  ultimately show ?thesis using False by (auto simp: get_bookmark_def the_rec_def list_all_iff)
qed

lemma desc_get_rec_returns:
  assumes "0 \<le> n \<or> (\<exists>s. d_stmt d = Some s \<and> n = - 1 \<and> bookmarks s = SQL_UB_VARIABLE \<and> bookmarks_counted d)"
  shows "\<exists>r d1. desc_get_rec d n True = Some (Some r, d1) \<and> (d_stmt d1 = None \<longleftrightarrow> d_stmt d = None) \<and>
    (list_all (\<lambda>r. tb_wf (tempbuf (par r))) (records2 d @ bookmark2 d) \<longrightarrow> tb_wf (tempbuf (par (the_rec d1 r))))"
proof (cases "0 \<le> n")
  case True
  then have n: "nat n < length (records2 d) + (Suc (nat n) - length (records2 d))" by simp
  have "\<exists>d1. desc_get_rec d n True = Some (Some (Record (nat n)), d1) \<and> d_stmt d1 = d_stmt d \<and> nat n < length (records2 d1) \<and>
      set (records2 d1) \<subseteq> insert (reset_to_defaults (new_descrec (desc_type d) (ref_type d))) (set (records2 d))"
    using True n by (auto simp: desc_get_rec_def expand_records_def rcount_def Let_def)
  then obtain d1 where d1: "desc_get_rec d n True = Some (Some (Record (nat n)), d1)" "d_stmt d1 = d_stmt d"
      "nat n < length (records2 d1)" "set (records2 d1) \<subseteq> insert (reset_to_defaults (new_descrec (desc_type d) (ref_type d))) (set (records2 d))"
    by blast
  then have "records2 d1 ! nat n \<in> insert (reset_to_defaults (new_descrec (desc_type d) (ref_type d))) (set (records2 d))"
    using nth_mem by blast
  then show ?thesis using d1(1,2) new_descrec_wf(2) by (auto simp: the_rec_def list_all_iff)
next
  case False
  then show ?thesis using assms get_bookmark_returns [of d] by (auto simp: desc_get_rec_def)
qed

lemma cast_to_length: "t = SQL_IS_LEN \<or> t = SQL_IS_ULEN \<Longrightarrow> cast_to t n \<noteq> None"
  by (auto simp: cast_to_def)

lemma apply_desc_val_returns:
  assumes "\<not> type_mismatch fld bl" "bl = SQL_NTS \<longrightarrow> data_type fld \<in> set [SQL_IS_POINTER, SQL_NTS, SQL_IS_LEN, SQL_IS_ULEN]"
  shows "apply_desc_val old (data_type fld) src bl \<noteq> None"
proof (cases "bl \<in> set [SQL_NTS, SQL_IS_POINTER]")
  case True
  then have t: "data_type fld \<in> set [SQL_IS_POINTER, SQL_NTS] \<or> data_type fld \<in> set [SQL_IS_LEN, SQL_IS_ULEN]"
    using assms unfolding type_mismatch_def by (auto simp only: list.set insert_iff empty_iff)
  then have "data_type fld \<in> set [SQL_IS_POINTER, SQL_NTS] \<or> (\<exists>n. cast_to (data_type fld) (ptr_num src) = Some n)"
    using cast_to_length [of "data_type fld" "ptr_num src"] by (simp only: list.set insert_iff empty_iff) blast
  with t True show ?thesis
    unfolding apply_desc_val_def by (auto simp del: list.set split: option.split)
next
  case False
  then show ?thesis unfolding apply_desc_val_def if_not_P [OF False] by (simp del: list.set split: option.split)
qed

lemma set_in_rec_returns:
  "\<not> type_mismatch fld bl \<Longrightarrow> bl = SQL_NTS \<longrightarrow> data_type fld \<in> set [SQL_IS_POINTER, SQL_NTS, SQL_IS_LEN, SQL_IS_ULEN] \<Longrightarrow>
    \<exists>x. set_in_rec d fld fldid v bl r = Some x"
  using apply_desc_val_returns [of fld bl] by (auto simp: set_in_rec_def Let_def)

lemma set_checked_returns:
  assumes "d_stmt d \<noteq> None \<or> \<not> (type_mismatch fld bl \<or> fldid = SQL_DESC_UNNAMED \<and> val = 0)"
    "bl = (if buflen = 0 then data_type fld else buflen)"
    "bl = SQL_NTS \<longrightarrow> data_type fld \<in> set [SQL_IS_POINTER, SQL_NTS, SQL_IS_LEN, SQL_IS_ULEN]"
    "ref = None \<and> fldid = SQL_DESC_COUNT \<longrightarrow> 0 \<le> sint (ucast (val - 1) :: u32) \<or> d_stmt d \<noteq> None \<and> bookmarks_counted d"
    "\<And>r. ref = Some r \<Longrightarrow> fldid = SQL_DESC_NAME \<Longrightarrow> cstr val \<noteq> None \<and> tb_wf (tempbuf (par (the_rec d r)))"
  shows "set_checked cstr d ref fld fldid val buflen \<noteq> None"
proof (cases "type_mismatch fld bl \<or> fldid = SQL_DESC_UNNAMED \<and> val = 0")
  case True
  then show ?thesis using assms(1,2) desc_set_error_Some [of d] by (fastforce simp: set_checked_def Let_def)
next
  case False
  have no: "type_mismatch fld bl = False" "(fldid = SQL_DESC_UNNAMED \<and> val = 0) = False" using False by blast+
  note set = set_in_rec_returns [OF _ assms(3)] apply_desc_val_returns [OF _ assms(3)]
  show ?thesis
  proof (cases ref)
    case None
    have "desc_get_rec d (sint (ucast (val - 1) :: u32)) True \<noteq> None" if "fldid = SQL_DESC_COUNT"
    proof (cases "0 \<le> sint (ucast (val - 1) :: u32)")
      case True
      then show ?thesis using desc_get_rec_returns [of "sint (ucast (val - 1) :: u32)" d] by auto
    next
      case False
      then have "d_stmt d \<noteq> None \<and> bookmarks_counted d" using assms(4) None that by simp
      then show ?thesis using get_bookmark_returns [of d] False
        by (auto simp: desc_get_rec_def)
    qed
    then show ?thesis
      using False set(2) unfolding set_checked_def Let_def assms(2) [symmetric] None option.case
      by (auto simp: bind_eq_None_conv simp del: not_None_eq)
  next
    case (Some r)
    show ?thesis
    proof (cases "fldid = SQL_DESC_NAME")
      case True
      obtain str where str: "cstr val = Some str" using assms(5) [OF Some True] by auto
      obtain x where x: "par_add (str @ [CHR 0x00]) (the_rec d r) = Some x"
        using add_to_buffer_wf [of "tempbuf (par (the_rec d r))" "str @ [CHR 0x00]"] assms(5) [OF Some True]
        by (auto simp: par_add_def)
      obtain y where y: "set_in_rec d fld fldid ParBuf bl x = Some y" using set(1) False by blast
      show ?thesis
        unfolding set_checked_def Let_def assms(2) [symmetric] Some option.case str x bind.bind_lunit no if_False if_P [OF True]
        by (simp add: y)
    next
      case other: False
      obtain y where y: "set_in_rec d fld fldid (Ptr val) bl (the_rec d r) = Some y" using set(1) False by blast
      show ?thesis
        unfolding set_checked_def Let_def assms(2) [symmetric] Some option.case no if_False if_not_P [OF other]
        by (simp add: y)
    qed
  qed
qed

lemma set_field_returns:
  assumes "store_defined cstr d recnum fldid val buflen"
  shows "set_field cstr d recnum fldid val buflen \<noteq> None"
proof -
  define c where "c = d\<lparr>d_error := myerror_clear (d_error d)\<rparr>"
  have c: "d_stmt c = d_stmt d" "is_ird c = is_ird d" "hdr_denied c = hdr_denied d" "rec_denied c = rec_denied d"
      "records2 c = records2 d" "bookmark2 c = bookmark2 d" "bookmarks_counted c = bookmarks_counted d"
    by (auto simp: c_def is_ird_def hdr_denied_def rec_denied_def rec_perms_def bookmarks_counted_def fun_eq_iff)
  have err: "d_stmt d \<noteq> None \<Longrightarrow> desc_set_error state msg errid c \<noteq> None" for state msg errid
    using desc_set_error_Some [of c state msg errid] c(1) by auto
  show ?thesis
  proof (cases "getfield fldid")
    case None
    then have "d_stmt d \<noteq> None" using assms by (simp add: store_defined_def)
    then show ?thesis using None err by (simp add: set_field_def Let_def flip: c_def)
  next
    case (Some fld)
    define bl where "bl = (if buflen = 0 then data_type fld else buflen)"
    note s = assms [unfolded store_defined_def Some option.case Let_def bl_def [symmetric]]
    show ?thesis
    proof (cases "is_ird d \<and> fldid \<notin> set [SQL_DESC_ARRAY_STATUS_PTR, SQL_DESC_ROWS_PROCESSED_PTR] \<or>
        (case loc fld of DESC_HDR \<Rightarrow> hdr_denied d fld P_WA P_WI | DESC_REC \<Rightarrow> rec_denied d fld P_WA P_WI)")
      case True
      then have "store_refused d fldid fld val bl" unfolding store_refused_def by blast
      then have "d_stmt d \<noteq> None" using s by blast
      then show ?thesis
        using True err unfolding set_field_def Let_def c_def [symmetric] c(2) Some
        by (auto simp: set_located_def c split: fld_loc.splits)
    next
      case False
      have chk: "set_checked cstr e ref fld fldid val buflen \<noteq> None"
        if "d_stmt e = None \<longleftrightarrow> d_stmt d = None"
           "ref = None \<longrightarrow> bookmarks_counted e = bookmarks_counted d"
           "\<And>r. ref = Some r \<Longrightarrow> list_all (\<lambda>r. tb_wf (tempbuf (par r))) (records2 d @ bookmark2 d) \<longrightarrow>
              tb_wf (tempbuf (par (the_rec e r)))" for e ref
      proof (rule set_checked_returns [where bl = bl])
        show "d_stmt e \<noteq> None \<or> \<not> (type_mismatch fld bl \<or> fldid = SQL_DESC_UNNAMED \<and> val = 0)"
          using conjunct1 [OF s] that(1) by (auto simp: store_refused_def)
        show "bl = (if buflen = 0 then data_type fld else buflen)" by (rule bl_def)
        show "bl = SQL_NTS \<longrightarrow> data_type fld \<in> set [SQL_IS_POINTER, SQL_NTS, SQL_IS_LEN, SQL_IS_ULEN]" using s by blast
        show "ref = None \<and> fldid = SQL_DESC_COUNT \<longrightarrow> 0 \<le> sint (ucast (val - 1) :: u32) \<or> d_stmt e \<noteq> None \<and> bookmarks_counted e"
          using s that(1,2) by auto
        show "cstr val \<noteq> None \<and> tb_wf (tempbuf (par (the_rec e r)))" if "ref = Some r" "fldid = SQL_DESC_NAME" for r
          using s \<open>\<And>r. ref = Some r \<Longrightarrow> _\<close> that by blast
      qed
      have "set_located cstr c recnum fld fldid val buflen \<noteq> None"
      proof (cases "loc fld")
        case DESC_HDR
        then show ?thesis using False chk [of c None] c by (simp add: set_located_def)
      next
        case DESC_REC
        have n: "record_number_ok d recnum" using s DESC_REC by blast
        show ?thesis
        proof (cases "recnum < 1 \<and> (\<exists>s. d_stmt d = Some s \<and> bookmarks s = SQL_UB_OFF)")
          case True
          then show ?thesis using DESC_REC False err c by (auto simp: set_located_def)
        next
          case no: False
          then have "0 \<le> recnum - 1 \<or> (\<exists>s. d_stmt c = Some s \<and> recnum - 1 = - 1 \<and> bookmarks s = SQL_UB_VARIABLE \<and> bookmarks_counted c)"
            using n c(1,7) by (auto simp: record_number_ok_def split: option.splits)
          from desc_get_rec_returns [OF this] obtain r d1 where d1: "desc_get_rec c (recnum - 1) True = Some (Some r, d1)"
              "d_stmt d1 = None \<longleftrightarrow> d_stmt d = None"
              "list_all (\<lambda>r. tb_wf (tempbuf (par r))) (records2 d @ bookmark2 d) \<longrightarrow> tb_wf (tempbuf (par (the_rec d1 r)))"
            unfolding c(1,5,6) by metis
          have "set_checked cstr d1 (Some r) fld fldid val buflen \<noteq> None" by (rule chk) (use d1 in auto)
          moreover have "\<not> rec_denied c fld P_WA P_WI" using False DESC_REC c(4) by simp
          moreover have "\<not> (recnum < 1 \<and> d_stmt c = None)" using n c(1) by (cases "d_stmt d") (auto simp: record_number_ok_def)
          moreover have "\<not> (recnum < 1 \<and> bookmarks (the (d_stmt c)) = SQL_UB_OFF)" using no calculation(3) c(1) by auto
          ultimately show ?thesis by (auto simp: set_located_def DESC_REC d1(1) simp del: not_None_eq)
        qed
      qed
      moreover have "\<not> (is_ird c \<and> fldid \<notin> set [SQL_DESC_ARRAY_STATUS_PTR, SQL_DESC_ROWS_PROCESSED_PTR])"
        using False unfolding c(2) by blast
      ultimately show ?thesis unfolding set_field_def Let_def c_def [symmetric] by (simp only: if_False Some option.case simp_thms)
    qed
  qed
qed

section \<open>Reading what was stored\<close>

text \<open>The value a store of \<open>val\<close> leaves in a field of the given type.\<close>

definition stored_value :: "int \<Rightarrow> u64 \<Rightarrow> dval option" where
  "stored_value t val = (if t = SQL_IS_POINTER then Some (Ptr val) else map_option Num (cast_to t (uint val)))"

lemma apply_own_type:
  assumes "t \<in> set (SQL_IS_POINTER # numeric_types)"
  shows "apply_desc_val old t (Ptr val) t = stored_value t val \<and> stored_value t val \<noteq> None"
  using assms by (auto simp: apply_desc_val_def stored_value_def cast_to_def ptr_num_def numeric_types_def buf_types)

lemma read_own_type:
  assumes "t \<in> set (SQL_IS_POINTER # numeric_types)" "stored_value t val = Some v"
  shows "read_value v t t = Some v"
proof (cases "t = SQL_IS_POINTER")
  case True
  then show ?thesis by (simp add: read_value_def)
next
  case False
  then obtain n where n: "cast_to t (uint val) = Some n" "v = Num n" using assms by (auto simp: stored_value_def)
  then have "cast_to t 0 \<noteq> None" by (auto simp: cast_to_def split: if_splits)
  with n cast_to_cast [OF n(1)] False show ?thesis by (simp add: read_value_def)
qed

lemma set_field_ard:
  assumes "is_ard d" "getfield fldid = Some fld" "loc fld = DESC_REC" "\<not> rec_denied d fld P_WA P_WI" "1 \<le> recnum"
    "data_type fld \<in> set (SQL_IS_POINTER # numeric_types)" "fldid \<noteq> SQL_DESC_UNNAMED" "fldid \<noteq> SQL_DESC_NAME"
  shows "\<exists>d1. set_field cstr d recnum fldid val (data_type fld) = Some (SQL_SUCCESS, d1) \<and>
    is_ard d1 \<and> nat (recnum - 1) < length (records2 d1) \<and>
    stored_value (data_type fld) val = Some (vals (records2 d1 ! nat (recnum - 1)) (offset fld))"
proof -
  define c where "c = d\<lparr>d_error := myerror_clear (d_error d)\<rparr>"
  have c: "is_ard c" "\<not> is_ird c" "rec_denied c fld P_WA P_WI = rec_denied d fld P_WA P_WI"
    using assms(1) by (simp_all add: c_def desc_kinds rec_denied_def rec_perms_def)
  obtain d2 where d2: "desc_get_rec c (recnum - 1) True = Some (Some (Record (nat (recnum - 1))), d2)"
      "d2 = c\<lparr>records2 := records2 d2, hdr := (hdr c)(F_count := Num (int (length (records2 d2))))\<rparr>"
      "nat (recnum - 1) < length (records2 d2)"
    using desc_get_rec_expand [of "recnum - 1" c] assms(5) by auto
  let ?t = "data_type fld" and ?k = "nat (recnum - 1)"
  have t: "?t \<noteq> 0" "\<not> type_mismatch fld ?t"
    using assms(6) by (auto simp: type_mismatch_def numeric_types_def buf_types)
  define r where "r = records2 d2 ! ?k"
  obtain v where v: "stored_value ?t val = Some v" "\<And>old. apply_desc_val old ?t (Ptr val) ?t = Some v"
    using apply_own_type [OF assms(6)] by fastforce
  define r1 where "r1 = (if fldid \<in> set bound_ids then r else r\<lparr>vals := (vals r)(F_data_ptr := Ptr 0)\<rparr>)"
  define r2 where "r2 = post_set d2 fldid (Ptr val \<noteq> Ptr 0) (r1\<lparr>vals := (vals r1)(offset fld := v)\<rparr>)"
  have "set_in_rec d2 fld fldid (Ptr val) ?t r = Some r2"
    by (simp add: set_in_rec_def Let_def r1_def [symmetric] r2_def v(2))
  then have sc: "set_checked cstr d2 (Some (Record ?k)) fld fldid val ?t =
      Some (SQL_SUCCESS, d2\<lparr>records2 := (records2 d2)[?k := r2]\<rparr>)"
    using t assms(7,8) by (simp add: set_checked_def Let_def the_rec_def upd_rec_def r_def)
  have "set_field cstr d recnum fldid val ?t = Some (SQL_SUCCESS, d2\<lparr>records2 := (records2 d2)[?k := r2]\<rparr>)"
    using assms(2-5) c d2(1) sc by (simp add: set_field_def set_located_def Let_def c_def [symmetric])
  moreover have "vals r2 (offset fld) = v"
    unfolding r2_def using post_set_own [OF getfield_in [OF assms(2)]] by simp
  moreover have "is_ard d2" using c(1) by (subst d2(2)) (simp add: desc_kinds)
  ultimately show ?thesis using v(1) d2(3) by (auto simp: desc_kinds)
qed

text \<open>On an application row descriptor, a field of a record that may be written and holds a number
  or an address is read back as it was stored: storing \<open>val\<close> in record \<open>recnum\<close>, which is created
  with all before it when it does not exist, and reading the field with its own type succeed and
  yield \<open>val\<close> converted to the width and sign of the field.\<close>

theorem ard_field_roundtrip:
  assumes "is_ard d" "getfield fldid = Some fld" "loc fld = DESC_REC" "\<not> rec_denied d fld P_WA P_WI" "1 \<le> recnum"
    "data_type fld \<in> set (SQL_IS_POINTER # numeric_types)" "fldid \<noteq> SQL_DESC_UNNAMED" "fldid \<noteq> SQL_DESC_NAME"
  shows "\<exists>d1 d2. set_field cstr d recnum fldid val (data_type fld) = Some (SQL_SUCCESS, d1) \<and>
    MySQLGetDescField drv d1 recnum fldid (data_type fld) = Some (SQL_SUCCESS, stored_value (data_type fld) val, d2)"
proof -
  obtain d1 where d1: "set_field cstr d recnum fldid val (data_type fld) = Some (SQL_SUCCESS, d1)"
      "is_ard d1" "nat (recnum - 1) < length (records2 d1)"
      "stored_value (data_type fld) val = Some (vals (records2 d1 ! nat (recnum - 1)) (offset fld))"
    using set_field_ard [OF assms] by blast
  have t: "\<not> type_mismatch fld (data_type fld)"
    using assms(6) by (auto simp: type_mismatch_def numeric_types_def buf_types)
  have row: "\<not> rec_denied d1 fld P_RA P_RI"
  proof
    assume "rec_denied d1 fld P_RA P_RI"
    then have "NOT (perms fld) AND P_RA = P_RA"
      using d1(2) by (simp add: rec_denied_def rec_perms_def is_ard_def P_ROW_def)
    then have "NOT (perms fld) AND P_WA = P_WA"
      using bspec [OF field_table_facts [unfolded list_all_iff] getfield_in [OF assms(2)]] assms(3)
      unfolding prod.case by blast
    then show False using assms(1,4) by (simp add: rec_denied_def rec_perms_def is_ard_def P_ROW_def)
  qed
  have rc: "records2 (d1\<lparr>d_error := e\<rparr>) = records2 d1" for e by simp
  have "\<exists>d2. MySQLGetDescField drv d1 recnum fldid (data_type fld) =
      Some (SQL_SUCCESS, read_value (vals (records2 d1 ! nat (recnum - 1)) (offset fld)) (data_type fld) (data_type fld), d2)"
    using d1(2,3) row t assms(2,3,5)
    by (auto simp: MySQLGetDescField_def Let_def rcount_def rec_denied_def rec_perms_def desc_kinds)
  then show ?thesis using d1(1,4) read_own_type [OF assms(6) d1(4)] by auto
qed

lemma precision_field:
  "getfield SQL_DESC_PRECISION = Some \<lparr>perms = 189, data_type = - 8, loc = DESC_REC, offset = F_precision\<rparr>"
  by code_simp

theorem ard_field_roundtrip_witness:
  "\<exists>d1 d2. set_field (\<lambda>_. None) sample_ard 2 SQL_DESC_PRECISION 0x1ffff (- 8) = Some (SQL_SUCCESS, d1) \<and>
     MySQLGetDescField ''9'' d1 2 SQL_DESC_PRECISION (- 8) = Some (SQL_SUCCESS, Some (Num (- 1)), d2)"
proof -
  let ?f = "\<lparr>perms = 189, data_type = - 8, loc = DESC_REC, offset = F_precision\<rparr>"
  have "is_ard sample_ard" by (simp add: sample_ard_def new_desc_def desc_kinds)
  moreover have "\<not> rec_denied sample_ard ?f P_WA P_WI" by code_simp
  moreover have "data_type ?f \<in> set (SQL_IS_POINTER # numeric_types)"
    "SQL_DESC_PRECISION \<noteq> SQL_DESC_UNNAMED" "SQL_DESC_PRECISION \<noteq> SQL_DESC_NAME"
    by (simp_all add: numeric_types_def buf_types desc_ids)
  moreover have "stored_value (- 8) 0x1ffff = Some (Num (- 1))" by code_simp
  ultimately show ?thesis
    using ard_field_roundtrip [OF _ precision_field, of sample_ard 2 "\<lambda>_. None" "0x1ffff" "''9''"] by simp
qed

section \<open>Refused accesses\<close>

text \<open>No record field of an application parameter descriptor can be read: \<open>MySQLGetDescField\<close>
  refuses every one of them with HY091, the writable ones included, because \<open>PR_RAP\<close> is defined by
  the permission of the implementation descriptors.\<close>

theorem apd_records_unreadable:
  assumes "is_apd d" "getfield fldid = Some fld" "loc fld = DESC_REC"
  shows "\<exists>d1. MySQLGetDescField drv d recnum fldid buflen = Some (SQL_ERROR, None, d1) \<and>
    sqlstate (d_error d1) = ''HY091''"
proof -
  have "NOT (perms fld) AND P_PAR P_RA = P_PAR P_RA"
    using bspec [OF field_table_facts [unfolded list_all_iff] getfield_in [OF assms(2)]] assms(3)
    unfolding prod.case by blast
  then have "rec_denied (d\<lparr>d_error := e\<rparr>) fld P_RA P_RI" for e
    using assms(1) by (simp add: rec_denied_def rec_perms_def is_apd_def)
  moreover have "\<not> is_ird (d\<lparr>d_error := e\<rparr>)" for e using assms(1) by (simp add: desc_kinds)
  ultimately show ?thesis
    using assms(2,3) by (simp add: MySQLGetDescField_def Let_def get_fail_def set_desc_error_def myerror_state_def)
qed

lemma concise_field: "getfield SQL_DESC_CONCISE_TYPE = Some \<lparr>perms = 189, data_type = - 8, loc = DESC_REC, offset = F_concise_type\<rparr>"
  by code_simp

theorem apd_records_unreadable_witness:
  "\<exists>d1. MySQLGetDescField ''9'' (new_desc (Some sample_stmt) 1 DESC_APP DESC_PARAM) 1 SQL_DESC_CONCISE_TYPE (- 8) =
     Some (SQL_ERROR, None, d1) \<and> sqlstate (d_error d1) = ''HY091''"
  by (rule apd_records_unreadable [OF _ concise_field]) (simp_all add: new_desc_def desc_kinds)

text \<open>For a field identifier the driver does not know, storing is refused with HY091, but reading
  follows a null pointer: \<open>MySQLGetDescField\<close> looks at the permissions of the field before it
  compares the field with null.\<close>

theorem unknown_field_read_undefined:
  assumes "getfield fldid = None" "\<not> is_ird d" "d_stmt d = Some s"
  shows "MySQLGetDescField drv d recnum fldid buflen = None \<and>
    (\<exists>d1. set_field cstr d recnum fldid val buflen = Some (SQL_ERROR, d1) \<and> sqlstate (d_error d1) = ''HY091'')"
proof -
  have "\<not> is_ird (d\<lparr>d_error := e\<rparr>)" for e using assms(2) by (simp add: is_ird_def)
  with assms(1,3) show ?thesis
    by (simp add: MySQLGetDescField_def set_field_def Let_def desc_set_error_def)
qed

theorem unknown_field_read_undefined_witness:
  "MySQLGetDescField ''9'' sample_ard 1 4711 (- 8) = None"
proof -
  have "getfield 4711 = None" by code_simp
  moreover have "\<not> is_ird sample_ard" "d_stmt sample_ard = Some sample_stmt"
    by (simp_all add: sample_ard_def new_desc_def desc_kinds)
  ultimately show ?thesis using unknown_field_read_undefined by blast
qed

text \<open>An implementation row descriptor cannot be modified: a store into any field but its two
  header pointers is refused with HY016 and leaves header and records as they were.\<close>

theorem ird_readonly:
  assumes "is_ird d" "d_stmt d = Some s" "fldid \<noteq> SQL_DESC_ARRAY_STATUS_PTR" "fldid \<noteq> SQL_DESC_ROWS_PROCESSED_PTR"
  shows "\<exists>d1. set_field cstr d recnum fldid val buflen = Some (SQL_ERROR, d1) \<and> sqlstate (d_error d1) = ''HY016'' \<and>
    hdr d1 = hdr d \<and> records2 d1 = records2 d \<and> bookmark2 d1 = bookmark2 d"
proof -
  have "is_ird (d\<lparr>d_error := e\<rparr>)" for e using assms(1) by (simp add: is_ird_def)
  with assms(2-4) show ?thesis by (simp add: set_field_def Let_def desc_set_error_def)
qed

theorem ird_readonly_witness:
  "\<exists>d1. set_field (\<lambda>_. None) (new_desc (Some sample_stmt) 1 DESC_IMP DESC_ROW) 1 SQL_DESC_TYPE 4 0 = Some (SQL_ERROR, d1)
     \<and> records2 d1 = []"
proof -
  have "is_ird (new_desc (Some sample_stmt) 1 DESC_IMP DESC_ROW)" "d_stmt (new_desc (Some sample_stmt) 1 DESC_IMP DESC_ROW) = Some sample_stmt"
    "records2 (new_desc (Some sample_stmt) 1 DESC_IMP DESC_ROW) = []"
    by (simp_all add: new_desc_def desc_kinds)
  with ird_readonly [OF this(1,2), where fldid = SQL_DESC_TYPE and cstr = "\<lambda>_. None" and recnum = 1 and val = 4 and buflen = 0]
  show ?thesis by (auto simp: desc_ids)
qed

text \<open>A store into an explicitly allocated descriptor, which belongs to no statement, either
  succeeds or has no defined behaviour: every error path of \<open>DESC::set_field\<close> takes the error
  prefix from the statement's connection.\<close>

theorem explicit_desc_error_undefined:
  assumes "d_stmt d = None" "set_field cstr d recnum fldid val buflen = Some (rc, d1)"
  shows "rc = SQL_SUCCESS"
  using set_field_frame [OF assms(2)] assms(1) by blast

theorem explicit_desc_error_undefined_witness:
  "\<exists>d1. set_field (\<lambda>_. None) (new_desc None 2 DESC_APP DESC_UNKNOWN) 1 SQL_DESC_TYPE 4 0 = Some (SQL_SUCCESS, d1)"
proof -
  have "map_option (\<lambda>_. ()) (set_field (\<lambda>_. None) (new_desc None 2 DESC_APP DESC_UNKNOWN) 1 SQL_DESC_TYPE 4 0) = Some ()"
    by code_simp
  then obtain rc d1 where d1: "set_field (\<lambda>_. None) (new_desc None 2 DESC_APP DESC_UNKNOWN) 1 SQL_DESC_TYPE 4 0 = Some (rc, d1)"
    by auto
  moreover have "d_stmt (new_desc None 2 DESC_APP DESC_UNKNOWN) = None" by (simp add: new_desc_def)
  ultimately show ?thesis using explicit_desc_error_undefined by blast
qed

section \<open>Copies\<close>

text \<open>Copying a prepared statement's row descriptor into an application descriptor succeeds and
  makes the target an implementation row descriptor: it cannot be modified any more (HY016), because
  the copy takes over the kind of the source together with its records.\<close>

theorem copy_ird_locks_target:
  assumes "is_ird src" "d_stmt src = Some s" "st_state s \<noteq> ST_UNKNOWN" "\<not> is_ird dest"
    "fldid \<noteq> SQL_DESC_ARRAY_STATUS_PTR" "fldid \<noteq> SQL_DESC_ROWS_PROCESSED_PTR"
  shows "\<exists>d1 d2. MySQLCopyDesc drv src dest = Some (SQL_SUCCESS, d1) \<and> records2 d1 = records2 src \<and>
    set_field cstr d1 recnum fldid val buflen = Some (SQL_ERROR, d2) \<and> sqlstate (d_error d2) = ''HY016''"
proof -
  have "is_ird (src\<lparr>d_error := e\<rparr>)" "\<not> is_ird (dest\<lparr>d_error := e\<rparr>)" for e
    using assms(1,4) by (simp_all add: is_ird_def)
  with assms show ?thesis
    by (simp add: MySQLCopyDesc_def set_field_def Let_def desc_set_error_def)
qed

theorem copy_ird_locks_target_witness:
  "\<exists>d1. MySQLCopyDesc ''9'' (new_desc (Some sample_stmt) 1 DESC_IMP DESC_ROW) sample_ard = Some (SQL_SUCCESS, d1) \<and>
     (\<exists>d2. set_field (\<lambda>_. None) d1 1 SQL_DESC_DATA_PTR 0x1000 0 = Some (SQL_ERROR, d2))"
proof -
  have "is_ird (new_desc (Some sample_stmt) 1 DESC_IMP DESC_ROW)" "d_stmt (new_desc (Some sample_stmt) 1 DESC_IMP DESC_ROW) = Some sample_stmt"
    "st_state sample_stmt \<noteq> ST_UNKNOWN" "\<not> is_ird sample_ard"
    by (simp_all add: new_desc_def desc_kinds sample_ard_def sample_stmt_def)
  from copy_ird_locks_target [OF this, where fldid = SQL_DESC_DATA_PTR and drv = "''9''" and cstr = "\<lambda>_. None"
      and recnum = 1 and val = "0x1000" and buflen = 0]
  show ?thesis by (auto simp: desc_ids)
qed

section \<open>Concise types and codes\<close>

lemma interval_code_table:
  "list_all (\<lambda>(t, c). get_dticode_from_concise_type t = c \<and> get_concise_type_from_interval_code c = t \<and>
     get_type_from_concise_type t = SQL_INTERVAL) interval_codes"
  by code_simp

text \<open>The general type and the code derived from the concise type of an interval determine it
  again; for the datetime types they do so for dates and timestamps, while the code of a time leads
  back to the type of a date.\<close>

theorem concise_type_codes:
  "(\<forall>t \<in> set (map fst interval_codes). get_type_from_concise_type t = SQL_INTERVAL \<and>
      get_concise_type_from_interval_code (get_dticode_from_concise_type t) = t) \<and>
   (\<forall>t \<in> {SQL_C_TYPE_DATE, SQL_C_TYPE_TIME, SQL_C_TYPE_TIMESTAMP}. get_type_from_concise_type t = SQL_DATETIME \<and>
      get_concise_type_from_datetime_code (get_dticode_from_concise_type t) =
        (if t = SQL_C_TYPE_TIME then SQL_C_TYPE_DATE else t))"
  using interval_code_table
  by (auto simp: list_all_iff get_type_from_concise_type_def get_dticode_from_concise_type_def
      get_concise_type_from_datetime_code_def type_codes)

theorem concise_type_codes_witness:
  "get_concise_type_from_interval_code (get_dticode_from_concise_type 104) = 104"
proof -
  have "104 \<in> set (map fst interval_codes)" by code_simp
  with concise_type_codes show ?thesis by blast
qed

section \<open>Parameter data and names\<close>

definition par_text :: "descrec \<Rightarrow> string" where
  "par_text r = contents (tempbuf (par r))"

interpretation par_sink: byte_sink par_add "\<lambda>r. tb_wf (tempbuf (par r))" par_text
proof unfold_locales
  fix r :: descrec and s
  assume "tb_wf (tempbuf (par r))"
  from add_to_buffer_wf [OF this, of s]
  show "\<exists>r1. par_add s r = Some r1 \<and> tb_wf (tempbuf (par r1)) \<and> par_text r1 = par_text r @ s"
    by (auto simp: par_add_def par_text_def)
qed

lemma new_descrec_par [simp]:
  "par (new_descrec dt rt) = \<lparr>tempbuf = \<lparr>tb_buf = [], cur_pos = 0\<rparr>, is_dae = 0, real_param_done = False\<rparr>"
  by (simp add: new_descrec_def reset_to_defaults_def Let_def desc_rec_init_apd_def desc_rec_init_ipd_def
      desc_rec_init_ard_def desc_rec_init_ird_def par_reset_def tb_reset_def)

lemma empty_tb_wf: "tb_wf \<lparr>tb_buf = [], cur_pos = 0\<rparr>" "contents \<lparr>tb_buf = [], cur_pos = 0\<rparr> = ''''"
  by (simp_all add: tb_wf_def buf_len_def contents_def)

text \<open>The data of a parameter supplied at execution in any number of pieces is collected without
  loss: after the pieces were added to a record whose parameter was reset, its buffer holds their
  concatenation, whatever was there before the reset.\<close>

theorem param_data_chunks:
  assumes "tb_wf (tempbuf (par r))"
  shows "\<exists>r1. add_all par_add chunks (r\<lparr>par := par_reset (par r)\<rparr>) = Some r1 \<and> par_text r1 = concat chunks"
proof -
  have "tb_wf (tempbuf (par (r\<lparr>par := par_reset (par r)\<rparr>)))" "par_text (r\<lparr>par := par_reset (par r)\<rparr>) = ''''"
    using tb_reset_wf [OF assms] by (simp_all add: par_reset_def par_text_def)
  with par_sink.add_all_ok [OF this(1), of chunks] show ?thesis by auto
qed

theorem param_data_chunks_witness:
  "\<exists>r1. add_all par_add [''ab'', '''', ''c''] ((new_descrec DESC_PARAM DESC_APP)\<lparr>par := par_reset (par (new_descrec DESC_PARAM DESC_APP))\<rparr>) = Some r1
     \<and> par_text r1 = concat [''ab'', '''', ''c'']"
  by (rule param_data_chunks) (simp add: empty_tb_wf)

text \<open>The C string at the start of the parameter buffer, which is where the pointer of a name points.\<close>

definition rec_name :: "descrec \<Rightarrow> string" where
  "rec_name r = takeWhile (\<lambda>c. c \<noteq> CHR 0x00) (par_text r)"

lemma name_field: "getfield SQL_DESC_NAME = Some \<lparr>perms = 49, data_type = - 3, loc = DESC_REC, offset = F_name\<rparr>"
  by code_simp

lemma takeWhile_C_string: "CHR 0x00 \<notin> set s \<Longrightarrow> takeWhile (\<lambda>c. c \<noteq> CHR 0x00) (s @ CHR 0x00 # t) = s"
  by (induction s) auto

lemma set_name_ipd:
  assumes "is_ipd d" "cstr a = Some s" "1 \<le> recnum"
    "\<And>i. i < length (records2 d) \<Longrightarrow> tb_wf (tempbuf (par (records2 d ! i)))"
  shows "\<exists>d1. set_field cstr d recnum SQL_DESC_NAME a SQL_NTS = Some (SQL_SUCCESS, d1) \<and> is_ipd d1 \<and>
    nat (recnum - 1) < length (records2 d1) \<and> vals (records2 d1 ! nat (recnum - 1)) F_name = ParBuf \<and>
    (\<forall>i < length (records2 d1). tb_wf (tempbuf (par (records2 d1 ! i)))) \<and>
    par_text (records2 d1 ! nat (recnum - 1)) =
      (if nat (recnum - 1) < length (records2 d) then par_text (records2 d ! nat (recnum - 1)) else '''') @ s @ [CHR 0x00]"
proof -
  define c where "c = d\<lparr>d_error := myerror_clear (d_error d)\<rparr>"
  let ?f = "\<lparr>perms = 49, data_type = - 3, loc = DESC_REC, offset = F_name\<rparr>" and ?k = "nat (recnum - 1)"
  have c: "is_ipd c" "\<not> is_ird c" "records2 c = records2 d" using assms(1) by (simp_all add: c_def desc_kinds)
  have den: "\<not> rec_denied c ?f P_WA P_WI"
  proof -
    have "\<not> NOT 49 AND P_PAR P_WI = P_PAR P_WI" by code_simp
    then show ?thesis using c(1) by (simp add: rec_denied_def rec_perms_def is_ipd_def)
  qed
  let ?new = "reset_to_defaults (new_descrec (desc_type c) (ref_type c))"
  define rs where "rs = records2 d @ replicate (Suc ?k - length (records2 d)) ?new"
  define d2 where "d2 = c\<lparr>records2 := rs, hdr := (hdr c)(F_count := Num (int (length rs)))\<rparr>"
  have d2: "desc_get_rec c (recnum - 1) True = Some (Some (Record ?k), d2)"
    using assms(3) by (auto simp: desc_get_rec_def expand_records_def rcount_def Let_def d2_def rs_def c_def)
  have new: "par ?new = \<lparr>tempbuf = \<lparr>tb_buf = [], cur_pos = 0\<rparr>, is_dae = 0, real_param_done = False\<rparr>"
    by (simp add: reset_to_defaults_def [of "new_descrec _ _"] Let_def desc_rec_init_apd_def desc_rec_init_ipd_def
        desc_rec_init_ard_def desc_rec_init_ird_def par_reset_def tb_reset_def)
  have k: "?k < length rs" by (simp add: rs_def)
  have wf: "tb_wf (tempbuf (par (rs ! i)))" if "i < length rs" for i
    using that assms(4) new empty_tb_wf(1) by (simp add: rs_def nth_append)
  have txtk: "par_text (rs ! ?k) = (if ?k < length (records2 d) then par_text (records2 d ! ?k) else '''')"
    using k new empty_tb_wf(2) by (simp add: rs_def nth_append par_text_def)
  obtain x where x: "par_add (s @ [CHR 0x00]) (rs ! ?k) = Some x" "tb_wf (tempbuf (par x))"
      "par_text x = par_text (rs ! ?k) @ s @ [CHR 0x00]"
    using par_sink.add_ok [OF wf [OF k], of "s @ [CHR 0x00]"] by auto
  define x1 where "x1 = post_set d2 SQL_DESC_NAME (ParBuf \<noteq> Ptr 0)
      (x\<lparr>vals := (vals x)(F_data_ptr := Ptr 0, F_name := ParBuf)\<rparr>)"
  have sir: "set_in_rec d2 ?f SQL_DESC_NAME ParBuf (- 3) x = Some x1"
    by (simp add: set_in_rec_def Let_def x1_def apply_desc_val_def buf_types bound_ids_def desc_ids)
  have x1: "par x1 = par x" "vals x1 F_name = ParBuf"
    by (simp_all add: x1_def post_set_def Let_def bound_ids_def desc_ids numeric_defaults_def sync_types_def)
  have "set_field cstr d recnum SQL_DESC_NAME a SQL_NTS = Some (SQL_SUCCESS, d2\<lparr>records2 := rs[?k := x1]\<rparr>)"
    using assms(2) c(2) den d2 x(1) sir assms(3) k
    by (simp add: set_field_def set_located_def Let_def c_def [symmetric] name_field [unfolded SQL_DESC_NAME_def] set_checked_def SQL_NTS_def
        type_mismatch_def SQL_IS_POINTER_def desc_ids the_rec_def upd_rec_def d2_def)
  moreover have "is_ipd (d2\<lparr>records2 := rs[?k := x1]\<rparr>)" using c(1) by (simp add: d2_def is_ipd_def)
  moreover have "tb_wf (tempbuf (par (rs[?k := x1] ! i)))" if "i < length rs" for i
    using that wf x(2) x1(1) by (cases "i = ?k") auto
  moreover have "par_text x1 = par_text x" by (simp add: par_text_def x1(1))
  ultimately show ?thesis using k x1(2) x(3) txtk by auto
qed

text \<open>Naming a parameter twice keeps the first name: each store of \<open>SQL_DESC_NAME\<close> appends the new
  name with its terminator to the parameter buffer of the record, and the name pointer is the start
  of that buffer.\<close>

theorem second_name_ignored:
  assumes "is_ipd d" "records2 d = []" "cstr a = Some s" "cstr b = Some t" "CHR 0x00 \<notin> set s" "1 \<le> recnum"
  shows "\<exists>d1 d2. set_field cstr d recnum SQL_DESC_NAME a SQL_NTS = Some (SQL_SUCCESS, d1) \<and>
    set_field cstr d1 recnum SQL_DESC_NAME b SQL_NTS = Some (SQL_SUCCESS, d2) \<and>
    rec_name (records2 d1 ! nat (recnum - 1)) = s \<and> rec_name (records2 d2 ! nat (recnum - 1)) = s"
proof -
  let ?k = "nat (recnum - 1)"
  obtain d1 where d1: "set_field cstr d recnum SQL_DESC_NAME a SQL_NTS = Some (SQL_SUCCESS, d1)" "is_ipd d1"
      "?k < length (records2 d1)" "\<forall>i < length (records2 d1). tb_wf (tempbuf (par (records2 d1 ! i)))"
      "par_text (records2 d1 ! ?k) = s @ [CHR 0x00]"
    using set_name_ipd [where cstr = cstr and a = a, OF assms(1,3,6)] assms(2) by auto
  obtain d2 where d2: "set_field cstr d1 recnum SQL_DESC_NAME b SQL_NTS = Some (SQL_SUCCESS, d2)"
      "par_text (records2 d2 ! ?k) = (s @ [CHR 0x00]) @ t @ [CHR 0x00]"
    using set_name_ipd [where cstr = cstr and a = b, OF d1(2) assms(4,6)] d1(3,4,5) by auto
  then show ?thesis
    using d1(1,5) takeWhile_C_string [OF assms(5)] by (auto simp: rec_name_def)
qed

theorem second_name_ignored_witness:
  "\<exists>d1 d2. set_field (\<lambda>p. if p = 16 then Some ''p'' else Some ''other'') (new_desc (Some sample_stmt) 1 DESC_IMP DESC_PARAM) 1
       SQL_DESC_NAME 16 SQL_NTS = Some (SQL_SUCCESS, d1) \<and>
     set_field (\<lambda>p. if p = 16 then Some ''p'' else Some ''other'') d1 1 SQL_DESC_NAME 32 SQL_NTS = Some (SQL_SUCCESS, d2) \<and>
     rec_name (records2 d2 ! 0) = ''p''"
proof -
  let ?d = "new_desc (Some sample_stmt) 1 DESC_IMP DESC_PARAM" and ?m = "\<lambda>p :: u64. if p = 16 then Some ''p'' else Some ''other''"
  have "is_ipd ?d" "records2 ?d = []" by (simp_all add: new_desc_def desc_kinds)
  moreover have "?m 16 = Some ''p''" "?m 32 = Some ''other''" by simp_all
  ultimately show ?thesis
    using second_name_ignored [of ?d ?m 16 "''p''" 32 "''other''" 1] by auto
qed

end
