(* ===== verification/Handles.thy ===== *)
theory Handles
  imports Desc_Props Parse
begin

unbundle bit_operations_syntax

text \<open>
  \<^verbatim>\<open>driver/handle.cc\<close>: environments, connections, statements and descriptors as objects of a heap
  that point to each other: a connection lists its statements and the descriptors the application
  allocated on it, a statement points to its application descriptors, which are its own or
  allocated ones, and an allocated descriptor lists the statements that use it. An operation is
  \<open>None\<close> when it follows a pointer to an object that was freed or frees one twice.
\<close>

section \<open>The heap\<close>

type_synonym haddr = nat

text \<open>The descriptors inside a statement, and a descriptor by address.\<close>

datatype own_desc = Own_ARD | Own_IRD | Own_APD | Own_IPD
datatype daddr = Own haddr own_desc | Expl haddr

datatype my_dummy_state = ST_DUMMY_UNKNOWN | ST_DUMMY_PREPARED | ST_DUMMY_EXECUTED
datatype out_param_state = OPS_UNKNOWN | OPS_BEING_FETCHED | OPS_PREFETCHED | OPS_STREAMS_PENDING

record stmt_opts =
  o_cursor_type :: int
  o_simulateCursor :: int
  o_max_length :: u64
  o_max_rows :: u64
  o_query_timeout :: u64
  o_rowStatusPtr_ex :: u64
  o_retrieve_data :: bool
  o_bookmarks :: nat
  o_bookmark_ptr :: u64
  o_bookmark_insert :: bool

definition default_opts :: stmt_opts where
  "default_opts = \<lparr>o_cursor_type = 0, o_simulateCursor = 0, o_max_length = 0, o_max_rows = 0,
     o_query_timeout = - 1, o_rowStatusPtr_ex = 0, o_retrieve_data = True, o_bookmarks = 0,
     o_bookmark_ptr = 0, o_bookmark_insert = False\<rparr>"

text \<open>
  A statement. Pointers the driver only tests for null are truth values: the result, the current
  row, the result array, the server-side statement and its result binding. \<open>s_fix_fields\<close> is
  not set by the constructor.
\<close>

record stmt =
  s_dbc :: haddr
  s_ard :: daddr
  s_apd :: daddr
  s_state :: my_state
  s_dummy_state :: my_dummy_state
  s_result :: bool
  s_fake_result :: bool
  s_array :: bool
  s_result_array :: bool
  s_row_storage :: "nat \<times> nat"
  s_current_values :: bool
  s_fix_fields :: "bool option"
  s_lengths :: "nat list option"
  s_affected_rows :: nat
  s_current_row :: int
  s_rows_found_in_set :: nat
  s_cursor_row :: int
  s_dae_type :: int
  s_table_name :: string
  s_pk_validated :: bool
  s_pk_count :: nat
  s_bind_done :: "bool list"
  s_setpos_apd :: bool
  s_ssps :: bool
  s_result_bind :: bool
  s_out_params_state :: out_param_state
  s_query :: "parsed_query option"
  s_orig_query :: "parsed_query option"
  s_param_count :: nat
  s_next_offset :: nat
  s_buf_pos :: nat
  s_opts :: stmt_opts
  s_error :: myerror

text \<open>A descriptor: the members of \<^verbatim>\<open>driver/desc.cc\<close>, and what links it to other objects.\<close>

record hdesc =
  hd_content :: desc
  hd_stmt :: "haddr option"
  hd_dbc :: "haddr option"
  hd_stmts :: "haddr list"

record henv =
  e_odbc_ver :: int
  e_conns :: "haddr list"
  e_error :: myerror

record hdbc =
  c_env :: haddr
  c_stmts :: "haddr list"
  c_descs :: "daddr list"
  c_opts :: stmt_opts
  c_error :: myerror
  c_prefix :: string
  c_mysql :: bool
  c_database :: string
  c_txn_isolation :: int
  c_need_to_wakeup :: bool

record heap =
  envs :: "haddr \<rightharpoonup> henv"
  dbcs :: "haddr \<rightharpoonup> hdbc"
  stmts :: "haddr \<rightharpoonup> stmt"
  descs :: "daddr \<rightharpoonup> hdesc"
  globals :: diag_globals
  thread_count :: nat
  next_addr :: haddr

definition initial_heap :: heap where
  "initial_heap = \<lparr>envs = Map.empty, dbcs = Map.empty, stmts = Map.empty, descs = Map.empty,
     globals = initial_globals, thread_count = 0, next_addr = 1\<rparr>"

text \<open>Changing an object through a pointer.\<close>

definition upd_env :: "haddr \<Rightarrow> (henv \<Rightarrow> henv) \<Rightarrow> heap \<Rightarrow> heap option" where
  "upd_env e f h = map_option (\<lambda>x. h\<lparr>envs := (envs h)(e \<mapsto> f x)\<rparr>) (envs h e)"

definition upd_dbc :: "haddr \<Rightarrow> (hdbc \<Rightarrow> hdbc) \<Rightarrow> heap \<Rightarrow> heap option" where
  "upd_dbc d f h = map_option (\<lambda>x. h\<lparr>dbcs := (dbcs h)(d \<mapsto> f x)\<rparr>) (dbcs h d)"

definition upd_stmt :: "haddr \<Rightarrow> (stmt \<Rightarrow> stmt) \<Rightarrow> heap \<Rightarrow> heap option" where
  "upd_stmt s f h = map_option (\<lambda>x. h\<lparr>stmts := (stmts h)(s \<mapsto> f x)\<rparr>) (stmts h s)"

definition upd_desc :: "daddr \<Rightarrow> (hdesc \<Rightarrow> hdesc) \<Rightarrow> heap \<Rightarrow> heap option" where
  "upd_desc a f h = map_option (\<lambda>x. h\<lparr>descs := (descs h)(a \<mapsto> f x)\<rparr>) (descs h a)"

definition upd_content :: "daddr \<Rightarrow> (desc \<Rightarrow> desc) \<Rightarrow> heap \<Rightarrow> heap option" where
  "upd_content a f = upd_desc a (\<lambda>y. y\<lparr>hd_content := f (hd_content y)\<rparr>)"

fun foldo :: "('a \<Rightarrow> 'b \<Rightarrow> 'b option) \<Rightarrow> 'a list \<Rightarrow> 'b \<Rightarrow> 'b option" where
  "foldo f [] b = Some b"
| "foldo f (x # xs) b = Option.bind (f x b) (foldo f xs)"

definition SQL_DESC_ALLOC_AUTO :: int where "SQL_DESC_ALLOC_AUTO = 1"
definition SQL_DESC_ALLOC_USER :: int where "SQL_DESC_ALLOC_USER = 2"

lemmas alloc_types = SQL_DESC_ALLOC_AUTO_def SQL_DESC_ALLOC_USER_def

definition alloc_type :: "hdesc \<Rightarrow> int" where
  "alloc_type y = num_of (hdr (hd_content y) F_alloc_type)"

section \<open>Environments and connections\<close>

definition SQL_OV_ODBC3_80 :: int where "SQL_OV_ODBC3_80 = 380"

definition my_SQLAllocEnv :: "heap \<Rightarrow> int \<times> haddr \<times> heap" where
  "my_SQLAllocEnv h =
     (let e = next_addr h
      in (SQL_SUCCESS, e, h\<lparr>envs := (envs h)(e \<mapsto> \<lparr>e_odbc_ver = SQL_OV_ODBC3_80, e_conns = [], e_error = no_error\<rparr>),
            next_addr := Suc e\<rparr>))"

definition my_SQLFreeEnv :: "haddr \<Rightarrow> heap \<Rightarrow> (int \<times> heap) option" where
  "my_SQLFreeEnv e h =
     (if envs h e = None then None else Some (SQL_SUCCESS, h\<lparr>envs := (envs h)(e := None)\<rparr>))"

definition env_error ::
    "string \<Rightarrow> haddr \<Rightarrow> myodbc_errid \<Rightarrow> string option \<Rightarrow> int \<Rightarrow> heap \<Rightarrow> (int \<times> heap) option" where
  "env_error drv e errid errtext errcode h =
     (let (rc, er) = set_env_error drv (errors (globals h)) errid errtext errcode
      in map_option (Pair rc) (upd_env e (\<lambda>x. x\<lparr>e_error := er\<rparr>) h))"

definition dbc_error ::
    "string \<Rightarrow> haddr \<Rightarrow> myodbc_errid \<Rightarrow> string option \<Rightarrow> int \<Rightarrow> heap \<Rightarrow> (int \<times> heap) option" where
  "dbc_error drv d errid errtext errcode h =
     (let (rc, er) = dbc_set_errid drv (errors (globals h)) errid errtext errcode
      in map_option (Pair rc) (upd_dbc d (\<lambda>x. x\<lparr>c_error := er\<rparr>) h))"

text \<open>\<open>STMT::set_error\<close>, with the prefix of the connection.\<close>

definition stmt_error ::
    "haddr \<Rightarrow> myodbc_errid \<Rightarrow> string option \<Rightarrow> int \<Rightarrow> heap \<Rightarrow> (int \<times> heap) option" where
  "stmt_error s errid errtext errcode h =
     Option.bind (stmts h s) (\<lambda>st. Option.bind (dbcs h (s_dbc st)) (\<lambda>c.
       let er = myerror_errid (errors (globals h)) errid errtext errcode (c_prefix c)
       in map_option (Pair (retcode er)) (upd_stmt s (\<lambda>x. x\<lparr>s_error := er\<rparr>) h)))"

text \<open>\<open>SQLSetEnvAttr\<close>; the attributes are \<open>SQL_ATTR_ODBC_VERSION\<close> and \<open>SQL_ATTR_OUTPUT_NTS\<close>.\<close>

definition SQLSetEnvAttr :: "string \<Rightarrow> haddr \<Rightarrow> int \<Rightarrow> int \<Rightarrow> heap \<Rightarrow> (int \<times> heap) option" where
  "SQLSetEnvAttr drv e attribute v h =
     (case envs h e of
        None \<Rightarrow> None
      | Some x \<Rightarrow>
          if e_conns x \<noteq> [] then env_error drv e MYERR_S1010 None 0 h
          else if attribute = 200 then
            (if v = SQL_OV_ODBC2 \<or> v = 3 \<or> v = SQL_OV_ODBC3_80
             then map_option (Pair SQL_SUCCESS) (upd_env e (\<lambda>x. x\<lparr>e_odbc_ver := v\<rparr>) h)
             else env_error drv e MYERR_S1024 None 0 h)
          else if attribute = 10001 \<and> v = 1 then Some (SQL_SUCCESS, h)
          else env_error drv e MYERR_S1C00 None 0 h)"

text \<open>
  \<open>my_SQLAllocConnect\<close>: \<open>old_client\<close> is the text of the message when the client library is older than the
  driver accepts. The constructor of the connection changes the global table of errors.
\<close>

definition new_dbc :: "haddr \<Rightarrow> hdbc" where
  "new_dbc e = \<lparr>c_env = e, c_stmts = [], c_descs = [], c_opts = default_opts, c_error = no_error, c_prefix = '''',
     c_mysql = False, c_database = '''', c_txn_isolation = 0, c_need_to_wakeup = False\<rparr>"

definition my_SQLAllocConnect ::
    "string \<Rightarrow> string option \<Rightarrow> haddr \<Rightarrow> heap \<Rightarrow> (int \<times> haddr option \<times> heap) option" where
  "my_SQLAllocConnect drv old_client e h0 =
     (case envs h0 e of
        None \<Rightarrow> None
      | Some x \<Rightarrow>
          let h = h0\<lparr>thread_count := Suc (thread_count h0)\<rparr> in
          if old_client \<noteq> None then
            map_option (\<lambda>(rc, h1). (rc, None, h1)) (env_error drv e MYERR_S1000 old_client 0 h)
          else if e_odbc_ver x = 0 then
            map_option (\<lambda>(rc, h1). (rc, None, h1))
              (env_error drv e MYERR_S1010 (Some ''Can't allocate connection until ODBC version specified.'') 0 h)
          else
            let d = next_addr h in
            map_option (\<lambda>h1. (SQL_SUCCESS, Some d, h1))
              (upd_env e (\<lambda>x. x\<lparr>e_conns := e_conns x @ [d]\<rparr>)
                (h\<lparr>dbcs := (dbcs h)(d \<mapsto> new_dbc e), next_addr := Suc d,
                   globals := myodbc_ov_init (e_odbc_ver x) (globals h)\<rparr>)))"

text \<open>\<open>delete\<close> of a descriptor: the ones inside a statement were not allocated.\<close>

definition delete_desc :: "daddr \<Rightarrow> heap \<Rightarrow> heap option" where
  "delete_desc a h =
     (case a of
        Own _ _ \<Rightarrow> None
      | Expl _ \<Rightarrow> if descs h a = None then None else Some (h\<lparr>descs := (descs h)(a := None)\<rparr>))"

text \<open>The loops over lists that are being emptied.\<close>

definition free_explicit_descriptors :: "haddr \<Rightarrow> heap \<Rightarrow> heap option" where
  "free_explicit_descriptors d h =
     Option.bind (dbcs h d) (\<lambda>c.
       foldo (\<lambda>a h1. Option.bind (upd_dbc d (\<lambda>c. c\<lparr>c_descs := remove1 a (c_descs c)\<rparr>) h1) (delete_desc a))
         (c_descs c) h)"

definition my_SQLFreeConnect :: "haddr \<Rightarrow> heap \<Rightarrow> (int \<times> heap) option" where
  "my_SQLFreeConnect d h =
     Option.bind (dbcs h d) (\<lambda>c.
     Option.bind (upd_env (c_env c) (\<lambda>x. x\<lparr>e_conns := removeAll d (e_conns x)\<rparr>) h) (\<lambda>h1.
     Option.bind (free_explicit_descriptors d h1) (\<lambda>h2.
       Some (SQL_SUCCESS, h2\<lparr>dbcs := (dbcs h2)(d := None), thread_count := thread_count h2 - 1\<rparr>))))"

section \<open>Statements\<close>

text \<open>\<open>WAKEUP_CONN_IF_NEEDED\<close>: \<open>ok\<close> says whether the client library could change the user.\<close>

definition wakeup_connection :: "bool \<Rightarrow> hdbc \<Rightarrow> bool \<times> hdbc" where
  "wakeup_connection ok c =
     (if \<not> c_need_to_wakeup c then (True, c)
      else if ok then (True, c\<lparr>c_need_to_wakeup := False\<rparr>) else (False, c))"

definition new_stmt :: "haddr \<Rightarrow> haddr \<Rightarrow> stmt_opts \<Rightarrow> stmt" where
  "new_stmt d s opts =
     \<lparr>s_dbc = d, s_ard = Own s Own_ARD, s_apd = Own s Own_APD, s_state = ST_UNKNOWN,
      s_dummy_state = ST_DUMMY_UNKNOWN, s_result = False, s_fake_result = False, s_array = False,
      s_result_array = False, s_row_storage = (0, 0), s_current_values = False, s_fix_fields = None,
      s_lengths = None, s_affected_rows = 0, s_current_row = 0, s_rows_found_in_set = 0, s_cursor_row = 0,
      s_dae_type = 0, s_table_name = '''', s_pk_validated = False, s_pk_count = 0,
      s_bind_done = replicate 32 False, s_setpos_apd = False, s_ssps = False, s_result_bind = False,
      s_out_params_state = OPS_UNKNOWN, s_query = None, s_orig_query = None, s_param_count = 0,
      s_next_offset = 0, s_buf_pos = 0, s_opts = opts, s_error = no_error\<rparr>"

fun own_kind :: "own_desc \<Rightarrow> desc_ref_type \<times> desc_desc_type" where
  "own_kind Own_ARD = (DESC_APP, DESC_ROW)"
| "own_kind Own_IRD = (DESC_IMP, DESC_ROW)"
| "own_kind Own_APD = (DESC_APP, DESC_PARAM)"
| "own_kind Own_IPD = (DESC_IMP, DESC_PARAM)"

definition new_own_desc :: "haddr \<Rightarrow> haddr \<Rightarrow> own_desc \<Rightarrow> hdesc" where
  "new_own_desc d s k =
     \<lparr>hd_content = new_desc None SQL_DESC_ALLOC_AUTO (fst (own_kind k)) (snd (own_kind k)),
      hd_stmt = Some s, hd_dbc = Some d, hd_stmts = []\<rparr>"

text \<open>All descriptors of a statement at once.\<close>

definition set_own :: "haddr \<Rightarrow> (own_desc \<Rightarrow> hdesc option) \<Rightarrow> heap \<Rightarrow> heap" where
  "set_own s f h = h\<lparr>descs := (\<lambda>a. case a of Own s' k \<Rightarrow> if s' = s then f k else descs h a | Expl _ \<Rightarrow> descs h a)\<rparr>"

definition my_SQLAllocStmt :: "bool \<Rightarrow> haddr \<Rightarrow> heap \<Rightarrow> (int \<times> haddr option \<times> heap) option" where
  "my_SQLAllocStmt ok d h =
     Option.bind (dbcs h d) (\<lambda>c0.
       let (awake, c) = wakeup_connection ok c0; s = next_addr h in
       if \<not> awake then Some (SQL_ERROR, None, h)
       else Some (SQL_SUCCESS, Some s,
         set_own s (\<lambda>k. Some (new_own_desc d s k))
           (h\<lparr>dbcs := (dbcs h)(d \<mapsto> c\<lparr>c_stmts := c_stmts c @ [s]\<rparr>),
              stmts := (stmts h)(s \<mapsto> new_stmt d s (c_opts c)), next_addr := Suc s\<rparr>)))"

definition SQL_CLOSE :: int where "SQL_CLOSE = 0"
definition SQL_DROP :: int where "SQL_DROP = 1"
definition SQL_UNBIND :: int where "SQL_UNBIND = 2"
definition SQL_RESET_PARAMS :: int where "SQL_RESET_PARAMS = 3"
definition FREE_STMT_RESET_BUFFERS :: int where "FREE_STMT_RESET_BUFFERS = 1000"
definition FREE_STMT_RESET :: int where "FREE_STMT_RESET = 1001"

lemmas free_opts = SQL_CLOSE_def SQL_DROP_def SQL_UNBIND_def SQL_RESET_PARAMS_def
  FREE_STMT_RESET_BUFFERS_def FREE_STMT_RESET_def

text \<open>
  \<open>free_reset_out_params\<close>, and \<open>free_all_results\<close>, whose loop reads the pending results of the
  client library and leaves the statement without a result.
\<close>

definition stmt_reset_out_params :: "stmt \<Rightarrow> stmt" where
  "stmt_reset_out_params x = x\<lparr>s_out_params_state := OPS_UNKNOWN, s_dae_type := 0, s_next_offset := 0\<rparr>"

definition stmt_light_reset :: "stmt \<Rightarrow> stmt" where
  "stmt_light_reset x =
     (let valid = fst (s_row_storage x) * snd (s_row_storage x) > 0 in
      x\<lparr>s_buf_pos := 0, s_row_storage := (0, 0), s_result_array := s_result_array x \<and> \<not> valid\<rparr>)"

definition stmt_free_all_results :: "stmt \<Rightarrow> stmt" where
  "stmt_free_all_results x = (stmt_light_reset x)\<lparr>s_result := False\<rparr>"

definition stmt_close_results :: "stmt \<Rightarrow> stmt" where
  "stmt_close_results x = (stmt_free_all_results x)\<lparr>s_result := False, s_fake_result := False, s_lengths := None,
     s_current_values := False, s_fix_fields := Some False, s_affected_rows := 0, s_current_row := 0,
     s_rows_found_in_set := 0, s_cursor_row := - 1, s_dae_type := 0\<rparr>"

definition free_result_bind :: "stmt \<Rightarrow> stmt" where
  "free_result_bind x =
     (if s_result_bind x
      then x\<lparr>s_lengths := map_option (map (\<lambda>_. 0)) (s_lengths x), s_result_bind := False, s_array := False\<rparr>
      else x)"

definition ssps_close :: "stmt \<Rightarrow> stmt" where
  "ssps_close x = (if s_ssps x then (free_result_bind x)\<lparr>s_ssps := False\<rparr> else x)\<lparr>s_buf_pos := 0\<rparr>"

definition stmt_close_cursor :: "stmt \<Rightarrow> stmt" where
  "stmt_close_cursor x = x\<lparr>s_state := ST_UNKNOWN, s_table_name := '''', s_dummy_state := ST_DUMMY_UNKNOWN,
     s_pk_validated := False, s_setpos_apd := False,
     s_bind_done := replicate (min (s_pk_count x) (length (s_bind_done x))) False @ drop (s_pk_count x) (s_bind_done x),
     s_pk_count := 0\<rparr>"

definition stmt_reset_query :: "bool \<Rightarrow> stmt \<Rightarrow> stmt" where
  "stmt_reset_query clear x =
     (let x1 = (if clear then ssps_close (x\<lparr>s_array := False\<rparr>) else x)
      in x1\<lparr>s_orig_query := None, s_query := None, s_param_count := 0\<rparr>)"

definition clear_hdr :: "fieldname \<Rightarrow> desc \<Rightarrow> desc" where
  "clear_hdr f d = d\<lparr>hdr := (hdr d)(f := Ptr 0)\<rparr>"

text \<open>The pointers the reset of a statement clears, in the order of the code.\<close>

definition reset_pointers :: "haddr \<Rightarrow> heap \<Rightarrow> heap option" where
  "reset_pointers s h =
     Option.bind (stmts h s) (\<lambda>st.
     Option.bind (foldo (\<lambda>(a, f). upd_content a (clear_hdr f))
        [(s_apd st, F_rows_processed_ptr), (s_ard st, F_rows_processed_ptr), (Own s Own_IPD, F_array_status_ptr),
         (Own s Own_IRD, F_array_status_ptr), (s_apd st, F_array_status_ptr), (s_ard st, F_array_status_ptr)] h)
     (upd_stmt s (\<lambda>x. x\<lparr>s_opts := (s_opts x)\<lparr>o_rowStatusPtr_ex := 0\<rparr>\<rparr>)))"

definition stmt_list_remove :: "haddr \<Rightarrow> hdesc \<Rightarrow> hdesc" where
  "stmt_list_remove s y =
     (if alloc_type y = SQL_DESC_ALLOC_USER then y\<lparr>hd_stmts := removeAll s (hd_stmts y)\<rparr> else y)"

definition stmt_list_add :: "haddr \<Rightarrow> hdesc \<Rightarrow> hdesc" where
  "stmt_list_add s y =
     (if alloc_type y = SQL_DESC_ALLOC_USER then y\<lparr>hd_stmts := hd_stmts y @ [s]\<rparr> else y)"

text \<open>The destructor of a statement unlinks it from its connection, whose lock it takes.\<close>

definition drop_stmt :: "haddr \<Rightarrow> heap \<Rightarrow> heap option" where
  "drop_stmt s h =
     Option.bind (stmts h s) (\<lambda>st.
     Option.bind (upd_desc (s_apd st) (stmt_list_remove s) h) (\<lambda>h1.
     Option.bind (upd_desc (s_ard st) (stmt_list_remove s) h1) (\<lambda>h2.
     Option.bind (upd_dbc (s_dbc st) (\<lambda>c. c\<lparr>c_stmts := removeAll s (c_stmts c)\<rparr>) h2) (\<lambda>h3.
       Some (set_own s (\<lambda>_. None) (h3\<lparr>stmts := (stmts h3)(s := None)\<rparr>))))))"

definition my_SQLFreeStmtExtended :: "haddr \<Rightarrow> int \<Rightarrow> bool \<Rightarrow> heap \<Rightarrow> (int \<times> heap) option" where
  "my_SQLFreeStmtExtended s f_option clear h =
     Option.bind (stmts h s) (\<lambda>st.
     map_option (Pair SQL_SUCCESS)
      (if f_option = SQL_UNBIND then upd_content (s_ard st) desc_reset h
       else
        Option.bind (upd_content (s_apd st) free_paramdata h) (\<lambda>h0.
        Option.bind (upd_stmt s stmt_reset_out_params h0) (\<lambda>h1.
        if f_option = SQL_RESET_PARAMS then upd_content (s_apd st) desc_reset h1
        else
         Option.bind (upd_stmt s stmt_close_results h1) (\<lambda>h2.
         Option.bind (upd_content (Own s Own_IRD) desc_reset h2) (\<lambda>h3.
         if f_option = FREE_STMT_RESET_BUFFERS
         then upd_stmt s (\<lambda>x. (free_result_bind x)\<lparr>s_array := False\<rparr>) h3
         else
          Option.bind (upd_stmt s stmt_close_cursor h3) (\<lambda>h4.
          if f_option = SQL_CLOSE then Some h4
          else
           Option.bind (upd_stmt s (stmt_reset_query clear) h4) (\<lambda>h5.
           Option.bind (reset_pointers s h5) (\<lambda>h6.
           if f_option = FREE_STMT_RESET then Some h6 else drop_stmt s h6)))))))))"

definition my_SQLFreeStmt :: "haddr \<Rightarrow> int \<Rightarrow> heap \<Rightarrow> (int \<times> heap) option" where
  "my_SQLFreeStmt s f_option = my_SQLFreeStmtExtended s f_option True"

definition free_connection_stmts :: "haddr \<Rightarrow> heap \<Rightarrow> heap option" where
  "free_connection_stmts d h =
     Option.bind (dbcs h d) (\<lambda>c.
     Option.bind (foldo (\<lambda>s h1.
         Option.bind (upd_dbc d (\<lambda>c. c\<lparr>c_stmts := remove1 s (c_stmts c)\<rparr>) h1)
           (\<lambda>h2. map_option snd (my_SQLFreeStmt s SQL_DROP h2)))
       (c_stmts c) h)
     (upd_dbc d (\<lambda>c. c\<lparr>c_stmts := []\<rparr>)))"

definition SQLDisconnect :: "haddr \<Rightarrow> heap \<Rightarrow> (int \<times> heap) option" where
  "SQLDisconnect d h =
     Option.bind (free_connection_stmts d h) (\<lambda>h1.
       map_option (Pair SQL_SUCCESS) (upd_dbc d (\<lambda>c. c\<lparr>c_mysql := False, c_database := ''''\<rparr>) h1))"

text \<open>\<open>reset_connection\<close>, with the flag that \<open>SQL_ATTR_RESET_CONNECTION\<close> sets after it.\<close>

definition reset_connection :: "haddr \<Rightarrow> heap \<Rightarrow> heap option" where
  "reset_connection d h = Option.bind (free_connection_stmts d h) (free_explicit_descriptors d)"

definition reset_connection_attr :: "haddr \<Rightarrow> heap \<Rightarrow> (int \<times> heap) option" where
  "reset_connection_attr d h =
     Option.bind (reset_connection d h) (\<lambda>h1.
       map_option (Pair SQL_SUCCESS) (upd_dbc d (\<lambda>c. c\<lparr>c_need_to_wakeup := True\<rparr>) h1))"

section \<open>Descriptors\<close>

definition my_SQLAllocDesc :: "haddr \<Rightarrow> heap \<Rightarrow> (int \<times> daddr \<times> heap) option" where
  "my_SQLAllocDesc d h =
     (let a = Expl (next_addr h);
          y = \<lparr>hd_content = new_desc None SQL_DESC_ALLOC_USER DESC_APP DESC_UNKNOWN, hd_stmt = None,
               hd_dbc = Some d, hd_stmts = []\<rparr>
      in map_option (\<lambda>h1. (SQL_SUCCESS, a, h1))
           (upd_dbc d (\<lambda>c. c\<lparr>c_descs := c_descs c @ [a]\<rparr>)
             (h\<lparr>descs := (descs h)(a \<mapsto> y), next_addr := Suc (next_addr h)\<rparr>)))"

text \<open>The lock of the connection is taken before the allocation type is tested.\<close>

definition my_SQLFreeDesc :: "string \<Rightarrow> daddr \<Rightarrow> heap \<Rightarrow> (int \<times> heap) option" where
  "my_SQLFreeDesc drv a h =
     Option.bind (descs h a) (\<lambda>y.
     Option.bind (hd_dbc y) (\<lambda>d.
     Option.bind (dbcs h d) (\<lambda>_.
     if alloc_type y \<noteq> SQL_DESC_ALLOC_USER then
       (let (rc, e) = set_desc_error drv (Some ''HY017'')
              (Some ''Invalid use of an automatically allocated descriptor handle.'') (int (errid_ord MYERR_S1017))
        in map_option (Pair rc) (upd_content a (\<lambda>x. x\<lparr>d_error := e\<rparr>) h))
     else
       Option.bind (upd_dbc d (\<lambda>c. c\<lparr>c_descs := removeAll a (c_descs c)\<rparr>) h) (\<lambda>h1.
       Option.bind (foldo (\<lambda>s. upd_stmt s (\<lambda>x.
            if is_apd (hd_content y) then x\<lparr>s_apd := Own s Own_APD\<rparr>
            else if is_ard (hd_content y) then x\<lparr>s_ard := Own s Own_ARD\<rparr> else x))
          (hd_stmts y) h1) (\<lambda>h2.
       map_option (Pair SQL_SUCCESS) (delete_desc a h2))))))"

text \<open>
  The case of \<open>MySQLSetStmtAttr\<close> that changes an application descriptor of a statement:
  \<open>param\<close> tells \<open>SQL_ATTR_APP_PARAM_DESC\<close> from \<open>SQL_ATTR_APP_ROW_DESC\<close>, and \<open>None\<close> is the null handle.
\<close>

definition set_app_ptr :: "bool \<Rightarrow> daddr \<Rightarrow> stmt \<Rightarrow> stmt" where
  "set_app_ptr param a x = (if param then x\<lparr>s_apd := a\<rparr> else x\<lparr>s_ard := a\<rparr>)"

definition app_ptr :: "bool \<Rightarrow> stmt \<Rightarrow> daddr" where
  "app_ptr param x = (if param then s_apd x else s_ard x)"

definition app_desc_refused :: "bool \<Rightarrow> haddr \<Rightarrow> haddr \<Rightarrow> hdesc \<Rightarrow> (myodbc_errid \<times> string) option" where
  "app_desc_refused param s d y =
     (if alloc_type y = SQL_DESC_ALLOC_AUTO \<and> hd_stmt y \<noteq> Some s
      then Some (MYERR_S1017, ''Invalid use of an automatically allocated descriptor handle'')
      else if alloc_type y = SQL_DESC_ALLOC_USER \<and> hd_dbc y \<noteq> Some d
      then Some (MYERR_S1024, ''Invalid attribute value'')
      else if desc_type (hd_content y) \<noteq> DESC_UNKNOWN
          \<and> desc_type (hd_content y) \<noteq> (if param then DESC_PARAM else DESC_ROW)
      then Some (MYERR_S1024, ''Descriptor type mismatch'')
      else None)"

definition set_app_desc :: "bool \<Rightarrow> haddr \<Rightarrow> daddr option \<Rightarrow> heap \<Rightarrow> (int \<times> heap) option" where
  "set_app_desc param s desc h =
     Option.bind (upd_stmt s (\<lambda>x. x\<lparr>s_error := myerror_clear (s_error x)\<rparr>) h) (\<lambda>h0.
     Option.bind (stmts h0 s) (\<lambda>st.
     Option.bind (upd_desc (app_ptr param st) (stmt_list_remove s) h0) (\<lambda>h1.
     case desc of
       None \<Rightarrow> map_option (Pair SQL_SUCCESS)
                (upd_stmt s (set_app_ptr param (Own s (if param then Own_APD else Own_ARD))) h1)
     | Some a \<Rightarrow>
         Option.bind (descs h1 a) (\<lambda>y.
         case app_desc_refused param s (s_dbc st) y of
           Some (errid, text) \<Rightarrow> stmt_error s errid (Some text) 0 h1
         | None \<Rightarrow>
             Option.bind (upd_desc a (\<lambda>y. (stmt_list_add s y)
                 \<lparr>hd_content := (hd_content y)\<lparr>desc_type := if param then DESC_PARAM else DESC_ROW\<rparr>\<rparr>) h1)
               (\<lambda>h2. map_option (Pair SQL_SUCCESS) (upd_stmt s (set_app_ptr param a) h2))))))"

text \<open>
  A descriptor with what its functions read of the statement it points to; a pointer to a freed
  statement is as good as none.
\<close>

definition stmt_view :: "heap \<Rightarrow> haddr \<Rightarrow> desc_stmt option" where
  "stmt_view h s =
     Option.bind (stmts h s) (\<lambda>st. Option.bind (dbcs h (s_dbc st)) (\<lambda>c.
       Some \<lparr>bookmarks = o_bookmarks (s_opts st), st_state = s_state st, st_error_prefix = c_prefix c, st_error = s_error st\<rparr>))"

definition view :: "heap \<Rightarrow> hdesc \<Rightarrow> desc" where
  "view h y = (hd_content y)\<lparr>d_stmt := Option.bind (hd_stmt y) (stmt_view h)\<rparr>"

text \<open>The store of a field, whose error may also be that of the statement.\<close>

definition heap_set_field ::
    "(u64 \<Rightarrow> string option) \<Rightarrow> daddr \<Rightarrow> int \<Rightarrow> int \<Rightarrow> u64 \<Rightarrow> int \<Rightarrow> heap \<Rightarrow> (int \<times> heap) option" where
  "heap_set_field cstr a recnum fldid val buflen h =
     Option.bind (descs h a) (\<lambda>y.
     Option.bind (set_field cstr (view h y) recnum fldid val buflen) (\<lambda>(rc, d1).
     Option.bind (upd_desc a (\<lambda>y. y\<lparr>hd_content := d1\<lparr>d_stmt := None\<rparr>\<rparr>) h) (\<lambda>h1.
     case (hd_stmt y, d_stmt d1) of
       (Some s, Some v) \<Rightarrow> map_option (Pair rc) (upd_stmt s (\<lambda>x. x\<lparr>s_error := st_error v\<rparr>) h1)
     | _ \<Rightarrow> Some (rc, h1))))"

text \<open>The copy of a descriptor copies its links too.\<close>

definition heap_copy_desc :: "string \<Rightarrow> daddr \<Rightarrow> daddr \<Rightarrow> heap \<Rightarrow> (int \<times> heap) option" where
  "heap_copy_desc drv src dest h =
     Option.bind (descs h src) (\<lambda>ys. Option.bind (descs h dest) (\<lambda>yd.
     Option.bind (MySQLCopyDesc drv (view h ys) (view h yd)) (\<lambda>(rc, d1).
       map_option (Pair rc) (upd_desc dest (\<lambda>_.
         (if rc = SQL_SUCCESS then ys else yd)\<lparr>hd_content := d1\<lparr>d_stmt := None\<rparr>\<rparr>) h))))"

end
