(* ===== verification/Handle_Graph.thy ===== *)
theory Handle_Graph
  imports Handles
begin

text \<open>
  The abstract specification of the handles: a graph of who points to whom, the operations of the
  driver on it, and the well-formedness that makes every pointer the driver follows a pointer to a
  live object. The theory says nothing of the contents of the objects.
\<close>

section \<open>Graphs\<close>

record dblink =
  cl_env :: haddr
  cl_stmts :: "haddr list"
  cl_descs :: "daddr list"

record slink =
  sl_dbc :: haddr
  sl_ard :: daddr
  sl_apd :: daddr

record dlink =
  dl_stmt :: "haddr option"
  dl_dbc :: "haddr option"
  dl_stmts :: "haddr list"
  dl_ref :: desc_ref_type
  dl_type :: desc_desc_type
  dl_alloc :: int

record graph =
  g_envs :: "haddr \<rightharpoonup> haddr list"
  g_dbcs :: "haddr \<rightharpoonup> dblink"
  g_stmts :: "haddr \<rightharpoonup> slink"
  g_descs :: "daddr \<rightharpoonup> dlink"
  g_next :: haddr

section \<open>Operations\<close>

definition own_link :: "haddr \<Rightarrow> haddr \<Rightarrow> own_desc \<Rightarrow> dlink" where
  "own_link d s k = \<lparr>dl_stmt = Some s, dl_dbc = Some d, dl_stmts = [], dl_ref = fst (own_kind k),
     dl_type = snd (own_kind k), dl_alloc = SQL_DESC_ALLOC_AUTO\<rparr>"

definition g_own :: "haddr \<Rightarrow> (own_desc \<Rightarrow> dlink option) \<Rightarrow> (daddr \<rightharpoonup> dlink) \<Rightarrow> daddr \<rightharpoonup> dlink" where
  "g_own s f m = (\<lambda>a. case a of Own s' k \<Rightarrow> if s' = s then f k else m a | Expl _ \<Rightarrow> m a)"

definition g_add_env :: "graph \<Rightarrow> graph" where
  "g_add_env g = g\<lparr>g_envs := (g_envs g)(g_next g \<mapsto> []), g_next := Suc (g_next g)\<rparr>"

definition g_add_dbc :: "haddr \<Rightarrow> graph \<Rightarrow> graph" where
  "g_add_dbc e g =
     g\<lparr>g_envs := (g_envs g)(e \<mapsto> the (g_envs g e) @ [g_next g]),
       g_dbcs := (g_dbcs g)(g_next g \<mapsto> \<lparr>cl_env = e, cl_stmts = [], cl_descs = []\<rparr>), g_next := Suc (g_next g)\<rparr>"

definition g_add_stmt :: "haddr \<Rightarrow> graph \<Rightarrow> graph" where
  "g_add_stmt d g =
     (let s = g_next g; c = the (g_dbcs g d) in
      g\<lparr>g_dbcs := (g_dbcs g)(d \<mapsto> c\<lparr>cl_stmts := cl_stmts c @ [s]\<rparr>),
        g_stmts := (g_stmts g)(s \<mapsto> \<lparr>sl_dbc = d, sl_ard = Own s Own_ARD, sl_apd = Own s Own_APD\<rparr>),
        g_descs := g_own s (\<lambda>k. Some (own_link d s k)) (g_descs g), g_next := Suc s\<rparr>)"

definition g_add_desc :: "haddr \<Rightarrow> graph \<Rightarrow> graph" where
  "g_add_desc d g =
     (let a = Expl (g_next g); c = the (g_dbcs g d) in
      g\<lparr>g_dbcs := (g_dbcs g)(d \<mapsto> c\<lparr>cl_descs := cl_descs c @ [a]\<rparr>),
        g_descs := (g_descs g)(a \<mapsto> \<lparr>dl_stmt = None, dl_dbc = Some d, dl_stmts = [], dl_ref = DESC_APP,
          dl_type = DESC_UNKNOWN, dl_alloc = SQL_DESC_ALLOC_USER\<rparr>), g_next := Suc (g_next g)\<rparr>)"

text \<open>The user lists of the application descriptors of a statement.\<close>

definition unlist :: "haddr \<Rightarrow> dlink \<Rightarrow> dlink" where
  "unlist s y = (if dl_alloc y = SQL_DESC_ALLOC_USER then y\<lparr>dl_stmts := removeAll s (dl_stmts y)\<rparr> else y)"

definition enlist :: "haddr \<Rightarrow> dlink \<Rightarrow> dlink" where
  "enlist s y = (if dl_alloc y = SQL_DESC_ALLOC_USER then y\<lparr>dl_stmts := dl_stmts y @ [s]\<rparr> else y)"

definition g_unlist :: "haddr \<Rightarrow> daddr \<Rightarrow> graph \<Rightarrow> graph" where
  "g_unlist s a g = g\<lparr>g_descs := (g_descs g)(a := map_option (unlist s) (g_descs g a))\<rparr>"

definition g_del_stmt :: "haddr \<Rightarrow> graph \<Rightarrow> graph" where
  "g_del_stmt s g0 =
     (let x = the (g_stmts g0 s); c = the (g_dbcs g0 (sl_dbc x));
          g = g_unlist s (sl_ard x) (g_unlist s (sl_apd x) g0) in
      g\<lparr>g_dbcs := (g_dbcs g)(sl_dbc x \<mapsto> c\<lparr>cl_stmts := removeAll s (cl_stmts c)\<rparr>),
        g_stmts := (g_stmts g)(s := None), g_descs := g_own s (\<lambda>_. None) (g_descs g)\<rparr>)"

definition app_of :: "bool \<Rightarrow> slink \<Rightarrow> daddr" where
  "app_of param x = (if param then sl_apd x else sl_ard x)"

definition set_app :: "bool \<Rightarrow> daddr \<Rightarrow> slink \<Rightarrow> slink" where
  "set_app param a x = (if param then x\<lparr>sl_apd := a\<rparr> else x\<lparr>sl_ard := a\<rparr>)"

definition own_app :: "bool \<Rightarrow> haddr \<Rightarrow> daddr" where
  "own_app param s = Own s (if param then Own_APD else Own_ARD)"

definition app_type :: "bool \<Rightarrow> desc_desc_type" where
  "app_type param = (if param then DESC_PARAM else DESC_ROW)"

definition g_set_app :: "bool \<Rightarrow> haddr \<Rightarrow> daddr option \<Rightarrow> graph \<Rightarrow> graph" where
  "g_set_app param s desc g0 =
     (let x = the (g_stmts g0 s); g = g_unlist s (app_of param x) g0 in
      case desc of
        None \<Rightarrow> g\<lparr>g_stmts := (g_stmts g)(s \<mapsto> set_app param (own_app param s) x)\<rparr>
      | Some a \<Rightarrow> g\<lparr>g_descs := (g_descs g)(a \<mapsto> (enlist s (the (g_descs g a)))\<lparr>dl_type := app_type param\<rparr>),
                     g_stmts := (g_stmts g)(s \<mapsto> set_app param a x)\<rparr>)"

text \<open>The users of a freed descriptor return to their own.\<close>

definition g_free_desc :: "daddr \<Rightarrow> graph \<Rightarrow> graph" where
  "g_free_desc a g =
     (let y = the (g_descs g a); d = the (dl_dbc y); c = the (g_dbcs g d); param = (dl_type y = DESC_PARAM) in
      g\<lparr>g_dbcs := (g_dbcs g)(d \<mapsto> c\<lparr>cl_descs := removeAll a (cl_descs c)\<rparr>),
        g_stmts := (\<lambda>s. if s \<in> set (dl_stmts y) then map_option (set_app param (own_app param s)) (g_stmts g s)
                       else g_stmts g s),
        g_descs := (g_descs g)(a := None)\<rparr>)"

definition g_clear_descs :: "haddr \<Rightarrow> graph \<Rightarrow> graph" where
  "g_clear_descs d g =
     (let c = the (g_dbcs g d) in
      g\<lparr>g_dbcs := (g_dbcs g)(d \<mapsto> c\<lparr>cl_descs := []\<rparr>),
        g_descs := (\<lambda>a. if a \<in> set (cl_descs c) then None else g_descs g a)\<rparr>)"

definition g_del_dbc :: "haddr \<Rightarrow> graph \<Rightarrow> graph" where
  "g_del_dbc d g0 =
     (let e = cl_env (the (g_dbcs g0 d)); g = g_clear_descs d g0 in
      g\<lparr>g_envs := (g_envs g)(e \<mapsto> removeAll d (the (g_envs g e))), g_dbcs := (g_dbcs g)(d := None)\<rparr>)"

section \<open>Well-formed graphs\<close>

text \<open>The pointers of a graph as relations, each with its converse as the lists have it.\<close>

definition conn :: "graph \<Rightarrow> haddr \<Rightarrow> haddr \<Rightarrow> bool" where
  "conn g d e \<longleftrightarrow> (\<exists>c. g_dbcs g d = Some c \<and> cl_env c = e)"
definition conn_l :: "graph \<Rightarrow> haddr \<Rightarrow> haddr \<Rightarrow> bool" where
  "conn_l g d e \<longleftrightarrow> (\<exists>l. g_envs g e = Some l \<and> d \<in> set l)"

definition sdbc :: "graph \<Rightarrow> haddr \<Rightarrow> haddr \<Rightarrow> bool" where
  "sdbc g s d \<longleftrightarrow> (\<exists>x. g_stmts g s = Some x \<and> sl_dbc x = d)"
definition sdbc_l :: "graph \<Rightarrow> haddr \<Rightarrow> haddr \<Rightarrow> bool" where
  "sdbc_l g s d \<longleftrightarrow> (\<exists>c. g_dbcs g d = Some c \<and> s \<in> set (cl_stmts c))"

definition ddbc :: "graph \<Rightarrow> haddr \<Rightarrow> haddr \<Rightarrow> bool" where
  "ddbc g n d \<longleftrightarrow> (\<exists>y. g_descs g (Expl n) = Some y \<and> dl_dbc y = Some d)"
definition ddbc_l :: "graph \<Rightarrow> haddr \<Rightarrow> haddr \<Rightarrow> bool" where
  "ddbc_l g n d \<longleftrightarrow> (\<exists>c. g_dbcs g d = Some c \<and> Expl n \<in> set (cl_descs c))"

definition uses :: "graph \<Rightarrow> haddr \<Rightarrow> bool \<Rightarrow> haddr \<Rightarrow> bool" where
  "uses g s param n \<longleftrightarrow> (\<exists>x. g_stmts g s = Some x \<and> app_of param x = Expl n)"
definition uses_l :: "graph \<Rightarrow> haddr \<Rightarrow> bool \<Rightarrow> haddr \<Rightarrow> bool" where
  "uses_l g s param n \<longleftrightarrow> (\<exists>y. g_descs g (Expl n) = Some y \<and> s \<in> set (dl_stmts y) \<and> dl_type y = app_type param)"

lemmas rels = conn_def conn_l_def sdbc_def sdbc_l_def ddbc_def ddbc_l_def uses_def uses_l_def

definition dbc_shape :: "dblink \<Rightarrow> bool" where
  "dbc_shape c \<longleftrightarrow> distinct (cl_stmts c) \<and> distinct (cl_descs c) \<and> (\<forall>s k. Own s k \<notin> set (cl_descs c))"

definition desc_shape :: "dlink \<Rightarrow> bool" where
  "desc_shape y \<longleftrightarrow> dl_stmt y = None \<and> dl_alloc y = SQL_DESC_ALLOC_USER \<and> dl_ref y = DESC_APP \<and>
     dl_dbc y \<noteq> None \<and> (dl_stmts y \<noteq> [] \<longrightarrow> dl_type y \<noteq> DESC_UNKNOWN)"

definition own_ptr :: "haddr \<Rightarrow> slink \<Rightarrow> bool" where
  "own_ptr s x \<longleftrightarrow> (\<forall>param s' k. app_of param x = Own s' k \<longrightarrow> s' = s \<and> snd (own_kind k) = app_type param)"

definition links_wf :: "graph \<Rightarrow> bool" where
  "links_wf g \<longleftrightarrow>
     (\<forall>d e. conn g d e = conn_l g d e) \<and> (\<forall>s d. sdbc g s d = sdbc_l g s d) \<and>
     (\<forall>n d. ddbc g n d = ddbc_l g n d) \<and> (\<forall>s param n. uses g s param n = uses_l g s param n) \<and>
     (\<forall>s param n d. uses g s param n \<longrightarrow> sdbc g s d \<longrightarrow> ddbc g n d)"

definition shapes_wf :: "graph \<Rightarrow> bool" where
  "shapes_wf g \<longleftrightarrow>
     (\<forall>d c. g_dbcs g d = Some c \<longrightarrow> dbc_shape c) \<and> (\<forall>n y. g_descs g (Expl n) = Some y \<longrightarrow> desc_shape y) \<and>
     (\<forall>s x. g_stmts g s = Some x \<longrightarrow> own_ptr s x)"

definition own_wf :: "graph \<Rightarrow> bool" where
  "own_wf g \<longleftrightarrow> (\<forall>s k. g_descs g (Own s k) = map_option (\<lambda>x. own_link (sl_dbc x) s k) (g_stmts g s))"

definition fresh_wf :: "graph \<Rightarrow> bool" where
  "fresh_wf g \<longleftrightarrow>
     (\<forall>n \<ge> g_next g. g_envs g n = None \<and> g_dbcs g n = None \<and> g_stmts g n = None \<and> g_descs g (Expl n) = None)"

definition g_wf :: "graph \<Rightarrow> bool" where
  "g_wf g \<longleftrightarrow> links_wf g \<and> shapes_wf g \<and> own_wf g \<and> fresh_wf g"

lemma g_wfI: "links_wf g \<Longrightarrow> shapes_wf g \<Longrightarrow> own_wf g \<Longrightarrow> fresh_wf g \<Longrightarrow> g_wf g"
  by (simp add: g_wf_def)

lemma g_wfD:
  assumes "g_wf g"
  shows "links_wf g" "shapes_wf g" "own_wf g" "fresh_wf g"
  using assms by (simp_all add: g_wf_def)

lemma app_type_neq [simp]: "app_type param \<noteq> DESC_UNKNOWN" "app_type p = app_type q \<longleftrightarrow> p = q"
    "app_type param = DESC_PARAM \<longleftrightarrow> param"
  by (auto simp: app_type_def)

lemma app_of_set [simp]: "app_of p (set_app q a x) = (if p = q then a else app_of p x)"
    "sl_dbc (set_app q a x) = sl_dbc x"
  by (auto simp: app_of_def set_app_def)

lemma unlist_simps [simp]: "dl_stmt (unlist s y) = dl_stmt y" "dl_dbc (unlist s y) = dl_dbc y"
    "dl_ref (unlist s y) = dl_ref y" "dl_type (unlist s y) = dl_type y" "dl_alloc (unlist s y) = dl_alloc y"
  by (simp_all add: unlist_def)

lemma enlist_simps [simp]: "dl_stmt (enlist s y) = dl_stmt y" "dl_dbc (enlist s y) = dl_dbc y"
    "dl_ref (enlist s y) = dl_ref y" "dl_type (enlist s y) = dl_type y" "dl_alloc (enlist s y) = dl_alloc y"
  by (simp_all add: enlist_def)

lemma g_own_simps [simp]: "g_own s f m (Own s' k) = (if s' = s then f k else m (Own s' k))"
    "g_own s f m (Expl n) = m (Expl n)"
  by (simp_all add: g_own_def)

lemma own_link_simps [simp]: "dl_alloc (own_link d s k) = SQL_DESC_ALLOC_AUTO" "dl_stmt (own_link d s k) = Some s"
    "dl_dbc (own_link d s k) = Some d" "dl_stmts (own_link d s k) = []"
    "dl_type (own_link d s k) = snd (own_kind k)" "dl_ref (own_link d s k) = fst (own_kind k)"
  by (simp_all add: own_link_def)

lemma unlist_own [simp]: "unlist s (own_link d s' k) = own_link d s' k"
  by (simp add: unlist_def alloc_types)

lemma app_type_cases: "t \<noteq> DESC_UNKNOWN \<Longrightarrow> \<exists>param. t = app_type param"
  by (cases t) (auto simp: app_type_def)

section \<open>The operations keep graphs well formed\<close>

lemma own_app_ok [simp]: "snd (own_kind (if param then Own_APD else Own_ARD)) = app_type param"
  by (simp add: app_type_def)

lemma g_wf_init: "g_wf \<lparr>g_envs = Map.empty, g_dbcs = Map.empty, g_stmts = Map.empty, g_descs = Map.empty, g_next = n\<rparr>"
  by (simp add: g_wf_def links_wf_def shapes_wf_def own_wf_def fresh_wf_def rels)

lemma fresh_wfD:
  assumes "fresh_wf g"
  shows "g_envs g (g_next g) = None" "g_dbcs g (g_next g) = None" "g_stmts g (g_next g) = None"
    "g_descs g (Expl (g_next g)) = None"
  using assms by (simp_all add: fresh_wf_def)

lemma g_add_env_wf:
  assumes "g_wf g"
  shows "g_wf (g_add_env g)"
proof (rule g_wfI)
  note wf = g_wfD [OF assms]
  note new = fresh_wfD [OF wf(4)]
  have rel: "conn (g_add_env g) = conn g" "conn_l (g_add_env g) = conn_l g" "sdbc (g_add_env g) = sdbc g"
      "sdbc_l (g_add_env g) = sdbc_l g" "ddbc (g_add_env g) = ddbc g" "ddbc_l (g_add_env g) = ddbc_l g"
      "uses (g_add_env g) = uses g" "uses_l (g_add_env g) = uses_l g"
    using new by (auto simp: rels g_add_env_def fun_eq_iff)
  show "links_wf (g_add_env g)" using wf(1) unfolding links_wf_def rel .
  show "shapes_wf (g_add_env g)" using wf(2) by (simp add: shapes_wf_def g_add_env_def)
  show "own_wf (g_add_env g)" using wf(3) by (simp add: own_wf_def g_add_env_def)
  show "fresh_wf (g_add_env g)" using wf(4) by (simp add: fresh_wf_def g_add_env_def)
qed

lemma g_del_env_wf:
  assumes "g_wf g" "g_envs g e = Some []"
  shows "g_wf (g\<lparr>g_envs := (g_envs g)(e := None)\<rparr>)"
proof (rule g_wfI)
  note wf = g_wfD [OF assms(1)]
  let ?g = "g\<lparr>g_envs := (g_envs g)(e := None)\<rparr>"
  have rel: "conn ?g = conn g" "conn_l ?g = conn_l g" "sdbc ?g = sdbc g"
      "sdbc_l ?g = sdbc_l g" "ddbc ?g = ddbc g" "ddbc_l ?g = ddbc_l g" "uses ?g = uses g" "uses_l ?g = uses_l g"
    using assms(2) by (auto simp: rels fun_eq_iff)
  show "links_wf ?g" using wf(1) unfolding links_wf_def rel .
  show "shapes_wf ?g" using wf(2) by (simp add: shapes_wf_def)
  show "own_wf ?g" using wf(3) by (simp add: own_wf_def)
  show "fresh_wf ?g" using wf(4) by (simp add: fresh_wf_def)
qed

lemma g_add_dbc_wf:
  assumes "g_wf g" "g_envs g e = Some l"
  shows "g_wf (g_add_dbc e g)"
proof (rule g_wfI)
  note wf = g_wfD [OF assms(1)]
  note new = fresh_wfD [OF wf(4)]
  let ?g = "g_add_dbc e g"
  have rel: "conn ?g d' e' \<longleftrightarrow> conn g d' e' \<or> (d' = g_next g \<and> e' = e)"
      "conn_l ?g d' e' \<longleftrightarrow> conn_l g d' e' \<or> (d' = g_next g \<and> e' = e)" for d' e'
    using assms(2) new by (auto simp: rels g_add_dbc_def)
  have rel2: "sdbc ?g = sdbc g" "sdbc_l ?g = sdbc_l g" "ddbc ?g = ddbc g" "ddbc_l ?g = ddbc_l g"
      "uses ?g = uses g" "uses_l ?g = uses_l g"
    using new by (auto simp: rels g_add_dbc_def fun_eq_iff)
  show "links_wf ?g" using wf(1) unfolding links_wf_def rel rel2 by blast
  show "shapes_wf ?g" using wf(2) by (simp add: shapes_wf_def g_add_dbc_def dbc_shape_def)
  show "own_wf ?g" using wf(3) by (simp add: own_wf_def g_add_dbc_def)
  show "fresh_wf ?g" using wf(4) assms(2) by (auto simp: fresh_wf_def g_add_dbc_def)
qed

lemma g_add_stmt_wf:
  assumes "g_wf g" "g_dbcs g d = Some c"
  shows "g_wf (g_add_stmt d g)"
proof (rule g_wfI)
  note wf = g_wfD [OF assms(1)]
  note new = fresh_wfD [OF wf(4)]
  let ?g = "g_add_stmt d g" and ?s = "g_next g"
  have "\<not> sdbc g ?s d" using new by (simp add: rels)
  then have ns: "?s \<notin> set (cl_stmts c)" using wf(1) assms(2) by (auto simp: links_wf_def sdbc_l_def)
  have rel: "sdbc ?g s' d' \<longleftrightarrow> sdbc g s' d' \<or> (s' = ?s \<and> d' = d)"
      "sdbc_l ?g s' d' \<longleftrightarrow> sdbc_l g s' d' \<or> (s' = ?s \<and> d' = d)" for s' d'
    using assms(2) new by (auto simp: rels g_add_stmt_def Let_def)
  have rel2: "conn ?g = conn g" "conn_l ?g = conn_l g" "ddbc ?g = ddbc g" "ddbc_l ?g = ddbc_l g"
      "uses ?g = uses g" "uses_l ?g = uses_l g"
    using new assms(2) by (auto simp: rels g_add_stmt_def Let_def fun_eq_iff app_of_def)
  have "\<not> uses g ?s param n" for param n using new by (simp add: rels)
  then show "links_wf ?g" using wf(1) unfolding links_wf_def rel rel2 by blast
  show "shapes_wf ?g"
    using wf(2) assms(2) ns by (auto simp: shapes_wf_def g_add_stmt_def Let_def dbc_shape_def own_ptr_def app_of_def app_type_def)
  show "own_wf ?g" using wf(3) by (simp add: own_wf_def g_add_stmt_def Let_def)
  show "fresh_wf ?g" using wf(4) assms(2) by (auto simp: fresh_wf_def g_add_stmt_def Let_def)
qed

lemma g_add_desc_wf:
  assumes "g_wf g" "g_dbcs g d = Some c"
  shows "g_wf (g_add_desc d g)"
proof (rule g_wfI)
  note wf = g_wfD [OF assms(1)]
  note new = fresh_wfD [OF wf(4)]
  let ?g = "g_add_desc d g" and ?n = "g_next g"
  have "\<not> ddbc g ?n d" using new by (simp add: rels)
  then have nn: "Expl ?n \<notin> set (cl_descs c)" using wf(1) assms(2) by (auto simp: links_wf_def ddbc_l_def)
  have rel: "ddbc ?g n' d' \<longleftrightarrow> ddbc g n' d' \<or> (n' = ?n \<and> d' = d)"
      "ddbc_l ?g n' d' \<longleftrightarrow> ddbc_l g n' d' \<or> (n' = ?n \<and> d' = d)" for n' d'
    using assms(2) new by (auto simp: rels g_add_desc_def Let_def)
  have rel2: "conn ?g = conn g" "conn_l ?g = conn_l g" "sdbc ?g = sdbc g" "sdbc_l ?g = sdbc_l g"
      "uses ?g = uses g" "uses_l ?g = uses_l g"
    using new assms(2) by (auto simp: rels g_add_desc_def Let_def fun_eq_iff)
  show "links_wf ?g" using wf(1) unfolding links_wf_def rel rel2 by blast
  show "shapes_wf ?g"
    using wf(2) assms(2) nn by (auto simp: shapes_wf_def g_add_desc_def Let_def dbc_shape_def desc_shape_def)
  show "own_wf ?g" using wf(3) by (simp add: own_wf_def g_add_desc_def Let_def)
  show "fresh_wf ?g" using wf(4) assms(2) by (auto simp: fresh_wf_def g_add_desc_def Let_def)
qed

lemma unlist_idem [simp]: "unlist s (unlist s y) = unlist s y"
  by (simp add: unlist_def)

lemma g_unlist_simps [simp]: "g_stmts (g_unlist s a g) = g_stmts g" "g_dbcs (g_unlist s a g) = g_dbcs g"
    "g_envs (g_unlist s a g) = g_envs g" "g_next (g_unlist s a g) = g_next g"
  by (simp_all add: g_unlist_def)

lemma g_unlist_descs:
  "g_descs (g_unlist s a g) a' = (if a' = a then map_option (unlist s) (g_descs g a') else g_descs g a')"
  by (simp add: g_unlist_def)

lemma g_unlist_own: "own_wf g \<Longrightarrow> own_wf (g_unlist s a g)"
  unfolding own_wf_def
proof (intro allI)
  fix s' k
  assume wf: "\<forall>s k. g_descs g (Own s k) = map_option (\<lambda>x. own_link (sl_dbc x) s k) (g_stmts g s)"
  show "g_descs (g_unlist s a g) (Own s' k) = map_option (\<lambda>x. own_link (sl_dbc x) s' k) (g_stmts (g_unlist s a g) s')"
    using wf [rule_format, of s' k] by (cases "g_stmts g s'") (auto simp: g_unlist_descs)
qed

lemma links_wf_eqs:
  assumes "links_wf g"
  shows "conn_l g d e \<longleftrightarrow> conn g d e" "sdbc_l g s d \<longleftrightarrow> sdbc g s d" "ddbc_l g n d \<longleftrightarrow> ddbc g n d"
    "uses_l g s param n \<longleftrightarrow> uses g s param n"
  using assms unfolding links_wf_def by blast+

lemma links_sdbc: "links_wf g \<Longrightarrow> g_stmts g s = Some x \<Longrightarrow> sdbc_l g s d \<longleftrightarrow> d = sl_dbc x"
  by (auto simp: links_wf_eqs sdbc_def)

lemma links_uses: "links_wf g \<Longrightarrow> g_stmts g s = Some x \<Longrightarrow> uses_l g s param n \<longleftrightarrow> app_of param x = Expl n"
  by (auto simp: links_wf_eqs uses_def)

lemma links_ddbc: "links_wf g \<Longrightarrow> g_descs g (Expl n) = Some y \<Longrightarrow> ddbc_l g n d \<longleftrightarrow> dl_dbc y = Some d"
  by (auto simp: links_wf_eqs ddbc_def)

lemma links_dbc_of:
  "links_wf g \<Longrightarrow> g_stmts g s = Some x \<Longrightarrow> \<exists>c. g_dbcs g (sl_dbc x) = Some c \<and> s \<in> set (cl_stmts c)"
  using links_sdbc [of g s x "sl_dbc x"] by (auto simp: sdbc_l_def)

text \<open>Taking a statement off the lists of the descriptors it uses takes it off every list.\<close>

lemma desc_shape_unlist: "desc_shape y \<Longrightarrow> desc_shape (unlist s y)"
  by (auto simp: desc_shape_def unlist_def)

lemma unlist_set: "desc_shape y \<Longrightarrow> set (dl_stmts (unlist s y)) = set (dl_stmts y) - {s}"
  by (auto simp: desc_shape_def unlist_def)

lemma g_del_stmt_wf:
  assumes "g_wf g" "g_stmts g s = Some x"
  shows "g_wf (g_del_stmt s g)"
proof (rule g_wfI)
  note wf = g_wfD [OF assms(1)]
  note lw = wf(1) [unfolded links_wf_def]
  let ?g = "g_del_stmt s g"
  obtain c where c: "g_dbcs g (sl_dbc x) = Some c" using links_dbc_of [OF wf(1) assms(2)] by auto
  have sh: "desc_shape y" if "g_descs g (Expl n) = Some y" for n y using wf(2) that by (simp add: shapes_wf_def)
  have dn: "g_descs ?g (Expl n) = (if Expl n \<in> {sl_apd x, sl_ard x} then map_option (unlist s) (g_descs g (Expl n))
      else g_descs g (Expl n))" for n
    using assms(2) c by (cases "g_descs g (Expl n)") (auto simp: g_del_stmt_def Let_def g_unlist_descs)
  have rel: "sdbc ?g s' d' \<longleftrightarrow> sdbc g s' d' \<and> s' \<noteq> s" for s' d'
    using assms(2) c by (auto simp: rels g_del_stmt_def Let_def)
  have rel2: "sdbc_l ?g s' d' \<longleftrightarrow> sdbc_l g s' d' \<and> s' \<noteq> s" for s' d'
    using assms(2) c links_sdbc [OF wf(1) assms(2), of d'] by (auto simp: sdbc_l_def g_del_stmt_def Let_def split: if_splits)
  have rel3: "uses ?g s' p n \<longleftrightarrow> uses g s' p n \<and> s' \<noteq> s" for s' p n
    using assms(2) c by (auto simp: uses_def g_del_stmt_def Let_def)
  have "uses_l g s p n \<Longrightarrow> Expl n \<in> {sl_apd x, sl_ard x}" for p n
    using links_uses [OF wf(1) assms(2)] by (auto simp: app_of_def split: if_splits)
  then have rel4: "uses_l ?g s' p n \<longleftrightarrow> uses_l g s' p n \<and> s' \<noteq> s" for s' p n
    using sh [of n] unlist_set by (cases "g_descs g (Expl n)") (auto simp: uses_l_def dn)
  have rel5: "conn ?g = conn g" "conn_l ?g = conn_l g" "ddbc ?g = ddbc g" "ddbc_l ?g = ddbc_l g"
    using assms(2) c by (auto simp: conn_def conn_l_def ddbc_def ddbc_l_def fun_eq_iff dn)
      (auto simp: g_del_stmt_def Let_def split: if_splits)
  show "links_wf ?g" unfolding links_wf_def rel rel2 rel3 rel4 rel5 using lw by blast
  have "g_dbcs ?g d = Some c' \<Longrightarrow> dbc_shape c'" for d c'
    using wf(2) c assms(2) by (auto simp: shapes_wf_def g_del_stmt_def Let_def dbc_shape_def distinct_removeAll split: if_splits)
  moreover have "g_descs ?g (Expl n) = Some y \<Longrightarrow> desc_shape y" for n y
    using sh [of n] by (auto simp: dn desc_shape_unlist split: if_splits)
  moreover have "g_stmts ?g s' = Some x' \<Longrightarrow> own_ptr s' x'" for s' x'
    using wf(2) assms(2) by (auto simp: shapes_wf_def g_del_stmt_def Let_def split: if_splits)
  ultimately show "shapes_wf ?g" unfolding shapes_wf_def by blast
  show "own_wf ?g"
    using g_unlist_own [OF g_unlist_own [OF wf(3)], of s "sl_ard x" s "sl_apd x"] assms(2) c
    by (auto simp: own_wf_def g_del_stmt_def Let_def)
  show "fresh_wf ?g"
    using wf(4) assms(2) c by (auto simp: fresh_wf_def dn) (auto simp: fresh_wf_def g_del_stmt_def Let_def)
qed

text \<open>Association of descriptors: first the statement returns to a descriptor of its own.\<close>

definition g_detach :: "bool \<Rightarrow> haddr \<Rightarrow> own_desc \<Rightarrow> graph \<Rightarrow> graph" where
  "g_detach param s k g =
     (let x = the (g_stmts g s); g1 = g_unlist s (app_of param x) g
      in g1\<lparr>g_stmts := (g_stmts g1)(s \<mapsto> set_app param (Own s k) x)\<rparr>)"

definition g_attach :: "bool \<Rightarrow> haddr \<Rightarrow> haddr \<Rightarrow> graph \<Rightarrow> graph" where
  "g_attach param s n g =
     g\<lparr>g_descs := (g_descs g)(Expl n \<mapsto> (enlist s (the (g_descs g (Expl n))))\<lparr>dl_type := app_type param\<rparr>),
       g_stmts := (g_stmts g)(s \<mapsto> set_app param (Expl n) (the (g_stmts g s)))\<rparr>"

lemma own_ptr_set: "own_ptr s x \<Longrightarrow> snd (own_kind k) = app_type param \<Longrightarrow> own_ptr s (set_app param (Own s k) x)"
  by (simp add: own_ptr_def)

lemma g_detach_wf:
  assumes "g_wf g" "g_stmts g s = Some x" "snd (own_kind k) = app_type param"
  shows "g_wf (g_detach param s k g)"
proof (rule g_wfI)
  note wf = g_wfD [OF assms(1)]
  let ?g = "g_detach param s k g"
  have sh: "desc_shape y" if "g_descs g (Expl n) = Some y" for n y using wf(2) that by (simp add: shapes_wf_def)
  have dn: "g_descs ?g a = (if a = app_of param x then map_option (unlist s) (g_descs g a) else g_descs g a)" for a
    using assms(2) by (simp add: g_detach_def Let_def g_unlist_descs)
  have st: "g_stmts ?g s' = (if s' = s then Some (set_app param (Own s k) x) else g_stmts g s')" for s'
    using assms(2) by (simp add: g_detach_def Let_def)
  have db: "g_dbcs ?g = g_dbcs g" "g_envs ?g = g_envs g" "g_next ?g = g_next g" by (simp_all add: g_detach_def Let_def)
  have rel: "conn ?g = conn g" "conn_l ?g = conn_l g" "sdbc ?g = sdbc g" "sdbc_l ?g = sdbc_l g"
      "ddbc ?g = ddbc g" "ddbc_l ?g = ddbc_l g"
    using assms(2) by (auto simp: rels fun_eq_iff dn st db)
  have rel2: "uses ?g s' p n \<longleftrightarrow> uses g s' p n \<and> \<not> (s' = s \<and> p = param)" for s' p n
    using assms(2) by (auto simp: uses_def st)
  have rel3: "uses_l ?g s' p n \<longleftrightarrow> uses_l g s' p n \<and> \<not> (s' = s \<and> p = param)" for s' p n
  proof (cases "Expl n = app_of param x")
    case True
    then obtain y where "g_descs g (Expl n) = Some y" "dl_type y = app_type param"
      using links_uses [OF wf(1) assms(2), of param n] by (auto simp: uses_l_def)
    then show ?thesis using True sh [of n y] unlist_set [of y s] by (auto simp: uses_l_def dn)
  next
    case False
    then show ?thesis using links_uses [OF wf(1) assms(2), of param n] by (auto simp: uses_l_def dn)
  qed
  show "links_wf ?g" unfolding links_wf_def rel rel2 rel3 using wf(1) [unfolded links_wf_def] by blast
  have "g_descs ?g (Expl n) = Some y \<Longrightarrow> desc_shape y" for n y
    using sh [of n] by (auto simp: dn desc_shape_unlist split: if_splits)
  then show "shapes_wf ?g"
    using wf(2) assms(2,3) by (auto simp: shapes_wf_def db st own_ptr_set split: if_splits)
  show "own_wf ?g"
    using g_unlist_own [OF wf(3), of s "app_of param x"] assms(2) by (auto simp: own_wf_def g_detach_def Let_def)
  show "fresh_wf ?g" using wf(4) assms(2) by (auto simp: fresh_wf_def db st dn)
qed

lemma g_attach_wf:
  assumes "g_wf g" "g_stmts g s = Some x" "app_of param x = Own s k" "g_descs g (Expl n) = Some y"
    "dl_type y = DESC_UNKNOWN \<or> dl_type y = app_type param" "dl_dbc y = Some (sl_dbc x)"
  shows "g_wf (g_attach param s n g)"
proof (rule g_wfI)
  note wf = g_wfD [OF assms(1)]
  let ?g = "g_attach param s n g"
  have sh: "desc_shape y" using wf(2) assms(4) by (simp add: shapes_wf_def)
  have y1: "dl_stmts (enlist s y) = dl_stmts y @ [s]" using sh by (simp add: enlist_def desc_shape_def)
  have rel: "conn ?g = conn g" "conn_l ?g = conn_l g" "sdbc ?g = sdbc g" "sdbc_l ?g = sdbc_l g"
      "ddbc ?g = ddbc g" "ddbc_l ?g = ddbc_l g"
    using assms(2,4) by (auto simp: rels fun_eq_iff g_attach_def)
  have rel2: "uses ?g s' p n' \<longleftrightarrow> uses g s' p n' \<or> (s' = s \<and> p = param \<and> n' = n)" for s' p n'
    using assms(2,3) by (auto simp: uses_def g_attach_def)
  have rel3: "uses_l ?g s' p n' \<longleftrightarrow> uses_l g s' p n' \<or> (s' = s \<and> p = param \<and> n' = n)" for s' p n'
    using assms(4,5) sh y1 by (auto simp: uses_l_def g_attach_def desc_shape_def)
  have "sdbc g s d \<Longrightarrow> ddbc g n d" for d using assms(2,4,6) by (auto simp: sdbc_def ddbc_def)
  then show "links_wf ?g" unfolding links_wf_def rel rel2 rel3 using wf(1) [unfolded links_wf_def] by blast
  have "own_ptr s (set_app param (Expl n) x)" using wf(2) assms(2) by (auto simp: shapes_wf_def own_ptr_def)
  moreover have "desc_shape ((enlist s y)\<lparr>dl_type := app_type param\<rparr>)" using sh by (simp add: desc_shape_def)
  ultimately show "shapes_wf ?g" using wf(2) assms(2,4) by (auto simp: shapes_wf_def g_attach_def)
  show "own_wf ?g" using wf(3) assms(2) by (auto simp: own_wf_def g_attach_def)
  show "fresh_wf ?g" using wf(4) assms(2,4) by (auto simp: fresh_wf_def g_attach_def)
qed

text \<open>The conditions under which the driver accepts a descriptor for a statement.\<close>

definition accepts :: "bool \<Rightarrow> haddr \<Rightarrow> slink \<Rightarrow> dlink \<Rightarrow> bool" where
  "accepts param s x y \<longleftrightarrow>
     (dl_alloc y = SQL_DESC_ALLOC_AUTO \<longrightarrow> dl_stmt y = Some s) \<and>
     (dl_alloc y = SQL_DESC_ALLOC_USER \<longrightarrow> dl_dbc y = Some (sl_dbc x)) \<and>
     (dl_type y = DESC_UNKNOWN \<or> dl_type y = app_type param)"

lemma own_kind_known [simp]: "snd (own_kind k) \<noteq> DESC_UNKNOWN"
  by (cases k) simp_all

lemma set_app_set_app [simp]: "set_app p a (set_app p b x) = set_app p a x"
  by (simp add: set_app_def)

lemma g_set_app_wf:
  assumes "g_wf g" "g_stmts g s = Some x"
    "\<And>a. desc = Some a \<Longrightarrow> \<exists>y. g_descs g a = Some y \<and> accepts param s x y"
  shows "g_wf (g_set_app param s desc g)"
proof (cases desc)
  case None
  then have "g_set_app param s desc g = g_detach param s (if param then Own_APD else Own_ARD) g"
    using assms(2) by (simp add: g_set_app_def g_detach_def Let_def own_app_def)
  then show ?thesis using g_detach_wf [OF assms(1,2) own_app_ok] by simp
next
  case (Some a)
  then obtain y where y: "g_descs g a = Some y" "accepts param s x y" using assms(3) by blast
  show ?thesis
  proof (cases a)
    case (Own s' k)
    have yl: "y = own_link (sl_dbc (the (g_stmts g s'))) s' k"
      using y(1) g_wfD(3) [OF assms(1)] Own by (auto simp: own_wf_def)
    then have k: "s' = s" "snd (own_kind k) = app_type param"
      using y(2) by (auto simp: accepts_def)
    let ?g1 = "g_unlist s (app_of param x) g"
    have g1: "g_descs ?g1 a = Some y" using y(1) yl by (auto simp: g_unlist_descs)
    have "(enlist s y)\<lparr>dl_type := app_type param\<rparr> = y"
      using yl k by (simp add: enlist_def alloc_types own_link_def)
    then have "(g_descs ?g1)(a \<mapsto> (enlist s (the (g_descs ?g1 a)))\<lparr>dl_type := app_type param\<rparr>) = g_descs ?g1"
      using g1 by (auto simp: fun_eq_iff)
    then have "g_set_app param s desc g = g_detach param s k g"
      using Some assms(2) Own k by (simp add: g_set_app_def g_detach_def Let_def)
    then show ?thesis using g_detach_wf [OF assms(1,2) k(2)] by simp
  next
    case (Expl n)
    let ?k = "if param then Own_APD else Own_ARD"
    let ?g1 = "g_detach param s ?k g"
    let ?y = "if a = app_of param x then unlist s y else y"
    have sh: "desc_shape y" using y(1) Expl g_wfD(2) [OF assms(1)] by (simp add: shapes_wf_def)
    have d1: "g_descs ?g1 (Expl n) = Some ?y" "g_stmts ?g1 s = Some (set_app param (Own s ?k) x)"
      using y(1) Expl assms(2) by (auto simp: g_detach_def Let_def g_unlist_descs)
    have "dl_type y = DESC_UNKNOWN \<or> dl_type y = app_type param" "dl_dbc y = Some (sl_dbc x)"
      using y(2) sh by (auto simp: accepts_def desc_shape_def alloc_types)
    then have y1: "dl_type ?y = DESC_UNKNOWN \<or> dl_type ?y = app_type param"
        "dl_dbc ?y = Some (sl_dbc (set_app param (Own s ?k) x))" by simp_all
    have "app_of param (set_app param (Own s ?k) x) = Own s ?k" by simp
    from g_attach_wf [OF g_detach_wf [OF assms(1,2) own_app_ok] d1(2) this d1(1) y1]
    have "g_wf (g_attach param s n ?g1)" .
    moreover have "g_set_app param s desc g = g_attach param s n ?g1"
      using Some Expl assms(2) y(1) by (auto simp: g_set_app_def g_attach_def g_detach_def Let_def fun_eq_iff)
    ultimately show ?thesis by simp
  qed
qed

text \<open>Freeing descriptors.\<close>

lemma g_free_desc_wf:
  assumes "g_wf g" "g_descs g (Expl n) = Some y"
  shows "g_wf (g_free_desc (Expl n) g)"
proof (rule g_wfI)
  note wf = g_wfD [OF assms(1)]
  let ?g = "g_free_desc (Expl n) g"
  have sh: "desc_shape y" using wf(2) assms(2) by (simp add: shapes_wf_def)
  then obtain d where d: "dl_dbc y = Some d" by (auto simp: desc_shape_def)
  then obtain c where c: "g_dbcs g d = Some c"
    using links_ddbc [OF wf(1) assms(2), of d] by (auto simp: ddbc_l_def)
  define param where "param = (dl_type y = DESC_PARAM)"
  have ty: "dl_type y = app_type param" if "s \<in> set (dl_stmts y)" for s
    using sh that by (cases "dl_type y") (auto simp: desc_shape_def param_def app_type_def)
  have us: "app_of param x = Expl n" if "s \<in> set (dl_stmts y)" "g_stmts g s = Some x" for s x
    using that assms(2) ty [OF that(1)] links_uses [OF wf(1) that(2), of param n] by (auto simp: uses_l_def)
  have st: "g_stmts ?g s = (if s \<in> set (dl_stmts y) then map_option (set_app param (own_app param s)) (g_stmts g s) else g_stmts g s)" for s
    using assms(2) by (simp add: g_free_desc_def Let_def param_def)
  have db: "g_dbcs ?g = (g_dbcs g)(d \<mapsto> c\<lparr>cl_descs := removeAll (Expl n) (cl_descs c)\<rparr>)"
      "g_envs ?g = g_envs g" "g_next ?g = g_next g" "g_descs ?g = (g_descs g)(Expl n := None)"
    using assms(2) c d by (simp_all add: g_free_desc_def Let_def)
  have rel: "conn ?g = conn g" "conn_l ?g = conn_l g" "sdbc ?g = sdbc g" "sdbc_l ?g = sdbc_l g"
    using c by (auto simp: rels fun_eq_iff st db)
  have rel2: "ddbc ?g n' d' \<longleftrightarrow> ddbc g n' d' \<and> n' \<noteq> n" "ddbc_l ?g n' d' \<longleftrightarrow> ddbc_l g n' d' \<and> n' \<noteq> n" for n' d'
    using c d links_ddbc [OF wf(1) assms(2), of d'] by (auto simp: ddbc_def ddbc_l_def db)
  have rel3: "uses_l ?g s p n' \<longleftrightarrow> uses_l g s p n' \<and> n' \<noteq> n" for s p n'
    by (auto simp: uses_l_def db)
  have rel4: "uses ?g s p n' \<longleftrightarrow> uses g s p n' \<and> n' \<noteq> n" for s p n'
  proof (cases "g_stmts g s")
    case (Some x)
    have "app_of p x \<noteq> Expl n" if "s \<notin> set (dl_stmts y) \<or> p \<noteq> param"
      using that links_uses [OF wf(1) Some, of p n] assms(2) ty [of s] by (auto simp: uses_l_def)
    then show ?thesis using Some us [of s x] by (auto simp: uses_def st own_app_def)
  qed (simp add: uses_def st)
  show "links_wf ?g" unfolding links_wf_def rel rel2 rel3 rel4 using wf(1) [unfolded links_wf_def] by blast
  have "own_ptr s (set_app param (own_app param s) x)" if "g_stmts g s = Some x" for s x
    using wf(2) that by (simp add: shapes_wf_def own_app_def own_ptr_set)
  moreover have "dbc_shape (c\<lparr>cl_descs := removeAll (Expl n) (cl_descs c)\<rparr>)"
    using wf(2) c by (auto simp: shapes_wf_def dbc_shape_def distinct_removeAll)
  ultimately show "shapes_wf ?g" using wf(2) by (auto simp: shapes_wf_def st db split: if_splits)
  show "own_wf ?g" unfolding own_wf_def
  proof (intro allI)
    fix s k show "g_descs ?g (Own s k) = map_option (\<lambda>x. own_link (sl_dbc x) s k) (g_stmts ?g s)"
      using wf(3) by (cases "g_stmts g s") (simp_all add: own_wf_def st db)
  qed
  show "fresh_wf ?g" using wf(4) c by (auto simp: fresh_wf_def st db)
qed

lemma g_clear_descs_wf:
  assumes "g_wf g" "g_dbcs g d = Some c" "cl_stmts c = []"
  shows "g_wf (g_clear_descs d g)"
proof (rule g_wfI)
  note wf = g_wfD [OF assms(1)]
  let ?g = "g_clear_descs d g"
  have db: "g_dbcs ?g = (g_dbcs g)(d \<mapsto> c\<lparr>cl_descs := []\<rparr>)"
      "g_envs ?g = g_envs g" "g_next ?g = g_next g" "g_stmts ?g = g_stmts g"
      "g_descs ?g a = (if a \<in> set (cl_descs c) then None else g_descs g a)" for a
    using assms(2) by (simp_all add: g_clear_descs_def Let_def)
  have own: "Own s k \<notin> set (cl_descs c)" for s k using wf(2) assms(2) by (simp add: shapes_wf_def dbc_shape_def)
  have mem: "Expl n \<in> set (cl_descs c) \<longleftrightarrow> ddbc g n d" for n
    using links_wf_eqs(3) [OF wf(1), of n d] assms(2) by (auto simp: ddbc_l_def)
  have no: "\<not> uses_l g s p n" if "ddbc g n d" for s p n
  proof
    assume u: "uses_l g s p n"
    then obtain x where x: "g_stmts g s = Some x" using links_wf_eqs(4) [OF wf(1)] by (auto simp: uses_def)
    then have sd: "sdbc g s (sl_dbc x)" by (auto simp: sdbc_def)
    with u have "ddbc g n (sl_dbc x)" using wf(1) unfolding links_wf_def by blast
    with that have "sl_dbc x = d" by (auto simp: ddbc_def)
    with sd show False using links_wf_eqs(2) [OF wf(1), of s d] assms(2,3) by (auto simp: sdbc_l_def)
  qed
  have rel: "conn ?g = conn g" "conn_l ?g = conn_l g" "sdbc ?g = sdbc g" "sdbc_l ?g = sdbc_l g" "uses ?g = uses g"
    using assms(2) by (auto simp: rels fun_eq_iff db)
  have rel2: "ddbc ?g n' d' \<longleftrightarrow> ddbc g n' d' \<and> d' \<noteq> d" "ddbc_l ?g n' d' \<longleftrightarrow> ddbc_l g n' d' \<and> d' \<noteq> d" for n' d'
    using assms(2) mem [of n'] by (auto simp: ddbc_def ddbc_l_def db)
  have rel3: "uses_l ?g = uses_l g"
    using no by (auto simp: fun_eq_iff uses_l_def db mem)
  have "uses g s p n \<Longrightarrow> \<not> ddbc g n d" for s p n using no links_wf_eqs(4) [OF wf(1)] by blast
  then show "links_wf ?g" unfolding links_wf_def rel rel2 rel3 using wf(1) [unfolded links_wf_def] by blast
  have "dbc_shape (c\<lparr>cl_descs := []\<rparr>)" using wf(2) assms(2) by (auto simp: shapes_wf_def dbc_shape_def)
  then show "shapes_wf ?g" using wf(2) by (auto simp: shapes_wf_def db split: if_splits)
  show "own_wf ?g" using wf(3) own by (simp add: own_wf_def db)
  show "fresh_wf ?g" using wf(4) assms(2) by (auto simp: fresh_wf_def db)
qed

lemma g_del_dbc_wf:
  assumes "g_wf g" "g_dbcs g d = Some c" "cl_stmts c = []"
  shows "g_wf (g_del_dbc d g)"
proof (rule g_wfI)
  let ?h = "g_clear_descs d g" and ?g = "g_del_dbc d g"
  note wf = g_wfD [OF g_clear_descs_wf [OF assms]]
  have c: "g_dbcs ?h d = Some (c\<lparr>cl_descs := []\<rparr>)" using assms(2) by (simp add: g_clear_descs_def Let_def)
  have "conn ?h d (cl_env c)" using c by (simp add: conn_def)
  then obtain l where l: "g_envs ?h (cl_env c) = Some l" "d \<in> set l"
    using links_wf_eqs(1) [OF wf(1), of d "cl_env c"] by (auto simp: conn_l_def)
  have db: "g_dbcs ?g = (g_dbcs ?h)(d := None)" "g_envs ?g = (g_envs ?h)(cl_env c \<mapsto> removeAll d l)"
      "g_next ?g = g_next ?h" "g_stmts ?g = g_stmts ?h" "g_descs ?g = g_descs ?h"
    using assms(2) l by (simp_all add: g_del_dbc_def Let_def)
  have cl: "conn_l ?h d e \<Longrightarrow> e = cl_env c" for e
    using links_wf_eqs(1) [OF wf(1), of d e] c by (auto simp: conn_def)
  have rel: "conn ?g d' e \<longleftrightarrow> conn ?h d' e \<and> d' \<noteq> d" for d' e
    by (simp add: conn_def db)
  have rel1: "conn_l ?g d' e \<longleftrightarrow> conn_l ?h d' e \<and> d' \<noteq> d" for d' e
  proof (cases "e = cl_env c")
    case True
    then show ?thesis using l by (simp add: conn_l_def db)
  next
    case False
    then have "\<not> conn_l ?h d e" using cl by blast
    moreover have "conn_l ?g d' e \<longleftrightarrow> conn_l ?h d' e" using False by (simp add: conn_l_def db)
    ultimately show ?thesis by auto
  qed
  have rel2: "sdbc ?g = sdbc ?h" "ddbc ?g = ddbc ?h" "uses ?g = uses ?h" "uses_l ?g = uses_l ?h"
    by (simp_all add: sdbc_def ddbc_def uses_def uses_l_def db fun_eq_iff)
  have rel3: "sdbc_l ?g = sdbc_l ?h" "ddbc_l ?g = ddbc_l ?h"
    using c assms(3) by (auto simp: sdbc_l_def ddbc_l_def fun_eq_iff db)
  show "links_wf ?g" unfolding links_wf_def rel rel1 rel2 rel3 using wf(1) [unfolded links_wf_def] by blast
  show "shapes_wf ?g" using wf(2) by (auto simp: shapes_wf_def db)
  show "own_wf ?g" using wf(3) by (simp add: own_wf_def db)
  show "fresh_wf ?g" using wf(4) l by (auto simp: fresh_wf_def db)
qed

end
