(* ===== verification/Machine.thy ===== *)
theory Machine
  imports Main
begin

text \<open>
  Sequences of operations on a state, where an operation that does what the language leaves
  undefined is \<open>None\<close>: if every operation allowed in a state that satisfies an invariant is defined
  and keeps it, then so does every sequence of allowed operations.
\<close>

fun run :: "('c \<Rightarrow> 's \<Rightarrow> ('r \<times> 's) option) \<Rightarrow> 'c list \<Rightarrow> 's \<Rightarrow> ('r list \<times> 's) option" where
  "run step [] s = Some ([], s)"
| "run step (c # cs) s =
     Option.bind (step c s) (\<lambda>(r, s1). map_option (\<lambda>(rs, s2). (r # rs, s2)) (run step cs s1))"

fun all_legal :: "('c \<Rightarrow> 's \<Rightarrow> ('r \<times> 's) option) \<Rightarrow> ('c \<Rightarrow> 's \<Rightarrow> bool) \<Rightarrow> 'c list \<Rightarrow> 's \<Rightarrow> bool" where
  "all_legal step legal [] s = True"
| "all_legal step legal (c # cs) s \<longleftrightarrow>
     legal c s \<and> (case step c s of None \<Rightarrow> True | Some (r, s1) \<Rightarrow> all_legal step legal cs s1)"

locale safe_machine =
  fixes step :: "'c \<Rightarrow> 's \<Rightarrow> ('r \<times> 's) option" and legal :: "'c \<Rightarrow> 's \<Rightarrow> bool" and inv :: "'s \<Rightarrow> bool"
  assumes step_safe: "inv s \<Longrightarrow> legal c s \<Longrightarrow> \<exists>r s'. step c s = Some (r, s') \<and> inv s'"
begin

lemma run_safe:
  "inv s \<Longrightarrow> all_legal step legal cs s \<Longrightarrow> \<exists>rs s'. run step cs s = Some (rs, s') \<and> inv s' \<and> length rs = length cs"
proof (induction cs arbitrary: s)
  case (Cons c cs)
  then obtain r s1 where s1: "step c s = Some (r, s1)" "inv s1" using step_safe [of s c] by auto
  moreover from this obtain rs s2 where "run step cs s1 = Some (rs, s2)" "inv s2" "length rs = length cs"
    using Cons by fastforce
  ultimately show ?case by simp
qed simp

lemma run_prefix_safe:
  assumes "inv s" "all_legal step legal cs s" "run step cs s = Some (rs, s1)" "legal c s1"
  shows "\<exists>r s2. step c s1 = Some (r, s2) \<and> inv s2"
  using run_safe [OF assms(1,2)] assms(3,4) step_safe by fastforce

end

end
