(* ===== verification/Handle_Safety.thy ===== *)
theory Handle_Safety
  imports Handle_Graph Machine
begin

text \<open>
  The handles of the driver refine the graph of \<open>Handle_Graph\<close>: as long as the heap is well linked,
  every call an application may make finds its objects alive and does to the links what the
  specification says, so that no sequence of calls follows a pointer to a freed object.
\<close>

section \<open>The links of a heap\<close>

definition cl :: "hdbc \<Rightarrow> dblink" where
  "cl c = \<lparr>cl_env = c_env c, cl_stmts = c_stmts c, cl_descs = c_descs c\<rparr>"

definition sl :: "stmt \<Rightarrow> slink" where
  "sl x = \<lparr>sl_dbc = s_dbc x, sl_ard = s_ard x, sl_apd = s_apd x\<rparr>"

definition dl :: "hdesc \<Rightarrow> dlink" where
  "dl y = \<lparr>dl_stmt = hd_stmt y, dl_dbc = hd_dbc y, dl_stmts = hd_stmts y, dl_ref = ref_type (hd_content y),
     dl_type = desc_type (hd_content y), dl_alloc = alloc_type y\<rparr>"

definition graph_of :: "heap \<Rightarrow> graph" where
  "graph_of h = \<lparr>g_envs = (\<lambda>e. map_option e_conns (envs h e)), g_dbcs = (\<lambda>d. map_option cl (dbcs h d)),
     g_stmts = (\<lambda>s. map_option sl (stmts h s)), g_descs = (\<lambda>a. map_option dl (descs h a)), g_next = next_addr h\<rparr>"

lemmas link_defs = cl_def sl_def dl_def

lemma graph_of_simps [simp]: "g_envs (graph_of h) e = map_option e_conns (envs h e)"
    "g_dbcs (graph_of h) d = map_option cl (dbcs h d)" "g_stmts (graph_of h) s = map_option sl (stmts h s)"
    "g_descs (graph_of h) a = map_option dl (descs h a)" "g_next (graph_of h) = next_addr h"
  by (simp_all add: graph_of_def)

lemma link_simps [simp]: "cl_env (cl c) = c_env c" "cl_stmts (cl c) = c_stmts c" "cl_descs (cl c) = c_descs c"
    "sl_dbc (sl x) = s_dbc x" "sl_ard (sl x) = s_ard x" "sl_apd (sl x) = s_apd x"
    "dl_stmt (dl y) = hd_stmt y" "dl_dbc (dl y) = hd_dbc y" "dl_stmts (dl y) = hd_stmts y"
    "dl_ref (dl y) = ref_type (hd_content y)" "dl_type (dl y) = desc_type (hd_content y)" "dl_alloc (dl y) = alloc_type y"
  by (simp_all add: link_defs)

lemma live_in:
  assumes "graph_of h = g"
  shows "g_envs g e = Some l \<Longrightarrow> \<exists>x. envs h e = Some x \<and> e_conns x = l"
    "g_dbcs g d = Some c \<Longrightarrow> \<exists>x. dbcs h d = Some x \<and> cl x = c"
    "g_stmts g s = Some x \<Longrightarrow> \<exists>z. stmts h s = Some z \<and> sl z = x"
    "g_descs g a = Some y \<Longrightarrow> \<exists>z. descs h a = Some z \<and> dl z = y"
  unfolding assms [symmetric] by auto

text \<open>A step that ends in a heap with the given links.\<close>

definition leads :: "heap option \<Rightarrow> graph \<Rightarrow> bool" where
  "leads r g \<longleftrightarrow> (\<exists>h. r = Some h \<and> graph_of h = g)"

definition answers :: "(int \<times> heap) option \<Rightarrow> graph \<Rightarrow> bool" where
  "answers r g \<longleftrightarrow> (\<exists>rc h. r = Some (rc, h) \<and> graph_of h = g)"

lemma leads_Some [simp]: "leads (Some h) g \<longleftrightarrow> graph_of h = g"
  by (simp add: leads_def)

lemma leads_bind: "leads r g \<Longrightarrow> (\<And>h. graph_of h = g \<Longrightarrow> leads (f h) g') \<Longrightarrow> leads (Option.bind r f) g'"
  by (auto simp: leads_def)

lemma answers_bind: "leads r g \<Longrightarrow> (\<And>h. graph_of h = g \<Longrightarrow> answers (f h) g') \<Longrightarrow> answers (Option.bind r f) g'"
  by (auto simp: leads_def)

lemma answers_return: "leads r g \<Longrightarrow> answers (map_option (Pair rc) r) g"
  by (auto simp: leads_def answers_def)

lemma leads_snd: "answers r g \<Longrightarrow> leads (map_option snd r) g"
  by (auto simp: leads_def answers_def)

text \<open>Changes that leave the links alone.\<close>

named_theorems keeps \<open>changes of an object that leave its links alone\<close>

definition keeps_kind :: "(desc \<Rightarrow> desc) \<Rightarrow> bool" where
  "keeps_kind f \<longleftrightarrow> (\<forall>d. desc_type (f d) = desc_type d \<and> ref_type (f d) = ref_type d \<and>
     hdr (f d) F_alloc_type = hdr d F_alloc_type)"

lemma keeps_kind_fns [keeps]: "keeps_kind desc_reset" "keeps_kind free_paramdata" "keeps_kind (\<lambda>x. x\<lparr>d_error := e\<rparr>)"
    "f \<noteq> F_alloc_type \<Longrightarrow> keeps_kind (clear_hdr f)"
  by (simp_all add: keeps_kind_def desc_reset_def free_paramdata_def clear_hdr_def)

lemma leads_content: "keeps_kind f \<Longrightarrow> g_descs (graph_of h) a \<noteq> None \<Longrightarrow> leads (upd_content a f h) (graph_of h)"
  by (cases "descs h a")
    (auto simp: leads_def upd_content_def upd_desc_def graph_of_def keeps_kind_def dl_def alloc_type_def fun_eq_iff)

lemma leads_stmt: "(\<And>x. sl (f x) = sl x) \<Longrightarrow> g_stmts (graph_of h) s \<noteq> None \<Longrightarrow> leads (upd_stmt s f h) (graph_of h)"
  by (cases "stmts h s") (auto simp: leads_def upd_stmt_def graph_of_def fun_eq_iff)

lemma leads_dbc: "(\<And>x. cl (f x) = cl x) \<Longrightarrow> g_dbcs (graph_of h) d \<noteq> None \<Longrightarrow> leads (upd_dbc d f h) (graph_of h)"
  by (cases "dbcs h d") (auto simp: leads_def upd_dbc_def graph_of_def fun_eq_iff)

lemma leads_env: "(\<And>x. e_conns (f x) = e_conns x) \<Longrightarrow> g_envs (graph_of h) e \<noteq> None \<Longrightarrow> leads (upd_env e f h) (graph_of h)"
  by (cases "envs h e") (auto simp: leads_def upd_env_def graph_of_def fun_eq_iff)

lemma keeps_stmt [keeps]: "sl (stmt_reset_out_params x) = sl x" "sl (stmt_close_results x) = sl x"
    "sl (stmt_close_cursor x) = sl x" "sl (stmt_reset_query clear x) = sl x"
    "sl ((free_result_bind x)\<lparr>s_array := b\<rparr>) = sl x" "sl (x\<lparr>s_opts := opts\<rparr>) = sl x" "sl (x\<lparr>s_error := er\<rparr>) = sl x"
  by (simp_all add: sl_def stmt_reset_out_params_def stmt_close_results_def stmt_free_all_results_def
      stmt_light_reset_def stmt_close_cursor_def stmt_reset_query_def ssps_close_def free_result_bind_def Let_def)

text \<open>Changes of the links.\<close>

lemma leads_unlist:
  "g_descs (graph_of h) a \<noteq> None \<Longrightarrow> leads (upd_desc a (stmt_list_remove s) h) (g_unlist s a (graph_of h))"
  by (cases "descs h a")
    (auto simp: leads_def upd_desc_def graph_of_def g_unlist_def stmt_list_remove_def unlist_def dl_def alloc_type_def fun_eq_iff)

lemma leads_remove:
  "g_dbcs (graph_of h) d = Some c \<Longrightarrow>
     leads (upd_dbc d (\<lambda>c. c\<lparr>c_stmts := removeAll s (c_stmts c)\<rparr>) h)
       ((graph_of h)\<lparr>g_dbcs := (g_dbcs (graph_of h))(d \<mapsto> c\<lparr>cl_stmts := removeAll s (cl_stmts c)\<rparr>)\<rparr>)"
  by (auto simp: leads_def upd_dbc_def graph_of_def cl_def fun_eq_iff)

lemma abs_set_own: "graph_of (set_own s f h) = (graph_of h)\<lparr>g_descs := g_own s (\<lambda>k. map_option dl (f k)) (g_descs (graph_of h))\<rparr>"
  by (auto simp: graph_of_def set_own_def g_own_def fun_eq_iff split: daddr.splits)

lemma abs_drop: "graph_of (h\<lparr>stmts := (stmts h)(s := None)\<rparr>) = (graph_of h)\<lparr>g_stmts := (g_stmts (graph_of h))(s := None)\<rparr>"
  by (auto simp: graph_of_def fun_eq_iff)

section \<open>Freeing a statement\<close>

text \<open>What the code needs of a statement to free it.\<close>

definition usable :: "graph \<Rightarrow> haddr \<Rightarrow> bool" where
  "usable g s \<longleftrightarrow> (\<exists>x c. g_stmts g s = Some x \<and> g_dbcs g (sl_dbc x) = Some c \<and>
     g_descs g (sl_apd x) \<noteq> None \<and> g_descs g (sl_ard x) \<noteq> None \<and> (\<forall>k. g_descs g (Own s k) \<noteq> None))"

lemma drop_stmt_refines:
  assumes "usable (graph_of h) s"
  shows "leads (drop_stmt s h) (g_del_stmt s (graph_of h))"
proof -
  obtain st c where st: "stmts h s = Some st" "g_dbcs (graph_of h) (s_dbc st) = Some c"
      "g_descs (graph_of h) (s_apd st) \<noteq> None" "g_descs (graph_of h) (s_ard st) \<noteq> None"
    using assms by (auto simp: usable_def)
  let ?g1 = "g_unlist s (s_apd st) (graph_of h)" and ?g2 = "g_unlist s (s_ard st) (g_unlist s (s_apd st) (graph_of h))"
  have d1: "leads (upd_desc (s_apd st) (stmt_list_remove s) h) ?g1" by (rule leads_unlist [OF st(3)])
  have d2: "leads (upd_desc (s_ard st) (stmt_list_remove s) h1) ?g2" if "graph_of h1 = ?g1" for h1
  proof -
    have "g_descs (graph_of h1) (s_ard st) \<noteq> None" unfolding that using st(4)
      by (cases "s_ard st = s_apd st") (auto simp add: g_unlist_descs)
    from leads_unlist [OF this, of s] show ?thesis unfolding that .
  qed
  let ?g3 = "?g2\<lparr>g_dbcs := (g_dbcs ?g2)(s_dbc st \<mapsto> c\<lparr>cl_stmts := removeAll s (cl_stmts c)\<rparr>)\<rparr>"
  have d3: "leads (upd_dbc (s_dbc st) (\<lambda>c. c\<lparr>c_stmts := removeAll s (c_stmts c)\<rparr>) h2) ?g3" if "graph_of h2 = ?g2" for h2
    using leads_remove [of h2 "s_dbc st" c s] that st(2) by simp
  have d4: "graph_of (set_own s (\<lambda>_. None) (h3\<lparr>stmts := (stmts h3)(s := None)\<rparr>)) = g_del_stmt s (graph_of h)" if "graph_of h3 = ?g3" for h3
    unfolding abs_set_own abs_drop that using st(1) st(2) [unfolded graph_of_simps]
    by (auto simp add: g_del_stmt_def Let_def)
  show ?thesis
    unfolding drop_stmt_def using st(1) d4
    by (simp del: graph_of_simps add: leads_bind [OF d1 leads_bind [OF d2 leads_bind [OF d3]]])
qed

text \<open>The same for heaps that have the links \<open>g\<close>.\<close>

lemma leads_in:
  assumes "graph_of h = g"
  shows "keeps_kind f \<Longrightarrow> g_descs g a \<noteq> None \<Longrightarrow> leads (upd_content a f h) g"
    "(\<And>x. sl (f1 x) = sl x) \<Longrightarrow> g_stmts g s \<noteq> None \<Longrightarrow> leads (upd_stmt s f1 h) g"
    "(\<And>x. cl (f2 x) = cl x) \<Longrightarrow> g_dbcs g d \<noteq> None \<Longrightarrow> leads (upd_dbc d f2 h) g"
    "(\<And>x. e_conns (f3 x) = e_conns x) \<Longrightarrow> g_envs g e \<noteq> None \<Longrightarrow> leads (upd_env e f3 h) g"
  using leads_content [of f h a] leads_stmt [of f1 h s] leads_dbc [of f2 h d] leads_env [of f3 h e] assms by auto

lemma leads_foldo:
  assumes "\<And>x h. x \<in> set xs \<Longrightarrow> graph_of h = g \<Longrightarrow> leads (f x h) g" "graph_of h = g"
  shows "leads (foldo f xs h) g"
  using assms by (induction xs arbitrary: h) (auto intro!: leads_bind)

lemma usable_live:
  assumes "usable g s" "graph_of h = g"
  obtains st where "stmts h s = Some st" "g_stmts g s \<noteq> None" "g_descs g (s_apd st) \<noteq> None" "g_descs g (s_ard st) \<noteq> None"
    "\<And>k. g_descs g (Own s k) \<noteq> None"
  using assms by (auto simp: usable_def)

lemma reset_pointers_refines:
  assumes "usable g s" "graph_of h = g"
  shows "leads (reset_pointers s h) g"
proof -
  obtain st where st: "stmts h s = Some st" "g_stmts g s \<noteq> None" "g_descs g (s_apd st) \<noteq> None" "g_descs g (s_ard st) \<noteq> None"
      "\<And>k. g_descs g (Own s k) \<noteq> None"
    using usable_live [OF assms] by blast
  show ?thesis
    unfolding reset_pointers_def st(1) Option.bind.simps
    by (rule leads_bind, rule leads_foldo [OF _ assms(2)]) (use st(2-) in \<open>auto simp del: not_None_eq simp: keeps intro!: leads_in\<close>)
qed

definition drops :: "int \<Rightarrow> bool" where
  "drops f_option \<longleftrightarrow>
     f_option \<notin> set [SQL_UNBIND, SQL_RESET_PARAMS, FREE_STMT_RESET_BUFFERS, SQL_CLOSE, FREE_STMT_RESET]"

lemma free_stmt_refines:
  assumes "usable g s" "graph_of h = g"
  shows "answers (my_SQLFreeStmtExtended s f_option clear h) (if drops f_option then g_del_stmt s g else g)"
proof -
  obtain st where st: "stmts h s = Some st" "g_stmts g s \<noteq> None" "g_descs g (s_apd st) \<noteq> None" "g_descs g (s_ard st) \<noteq> None"
      "\<And>k. g_descs g (Own s k) \<noteq> None"
    using usable_live [OF assms] by blast
  have drop: "leads (drop_stmt s h6) (g_del_stmt s g)" if "graph_of h6 = g" for h6
    using drop_stmt_refines [of h6 s] assms(1) that by simp
  have c: "leads (upd_content (s_apd st) f h1) g" "leads (upd_content (s_ard st) f h1) g"
      "leads (upd_content (Own s k) f h1) g" if "graph_of h1 = g" "keeps_kind f" for f h1 k
    using leads_in(1) [OF that st(3)] leads_in(1) [OF that st(4)] leads_in(1) [OF that st(5)] by blast+
  have s: "leads (upd_stmt s f h1) g" if "graph_of h1 = g" "\<And>x. sl (f x) = sl x" for f h1
    by (rule leads_in(2) [OF that st(2)])
  have p: "leads (reset_pointers s h1) g" if "graph_of h1 = g" for h1
    by (rule reset_pointers_refines [OF assms(1) that])
  note rules = leads_bind c s p drop keeps
  have all: "leads
       (if f_option = SQL_UNBIND then upd_content (s_ard st) desc_reset h
       else
        Option.bind (upd_content (s_apd st) free_paramdata h) (\<lambda>h0.
        Option.bind (upd_stmt s stmt_reset_out_params h0) (\<lambda>h1.
        if f_option = SQL_RESET_PARAMS then upd_content (s_apd st) desc_reset h1
        else
         Option.bind (upd_stmt s stmt_close_results h1) (\<lambda>h2.
         Option.bind (upd_content (Own s Own_IRD) desc_reset h2) (\<lambda>h3.
         if f_option = FREE_STMT_RESET_BUFFERS
         then upd_stmt s (\<lambda>x. (free_result_bind x)\<lparr>s_array := False\<rparr>) h3
         else
          Option.bind (upd_stmt s stmt_close_cursor h3) (\<lambda>h4.
          if f_option = SQL_CLOSE then Some h4
          else
           Option.bind (upd_stmt s (stmt_reset_query clear) h4) (\<lambda>h5.
           Option.bind (reset_pointers s h5) (\<lambda>h6.
           if f_option = FREE_STMT_RESET then Some h6 else drop_stmt s h6))))))))
     (if drops f_option then g_del_stmt s g else g)"
    by (cases "f_option = SQL_UNBIND"; cases "f_option = SQL_RESET_PARAMS"; cases "f_option = FREE_STMT_RESET_BUFFERS";
        cases "f_option = SQL_CLOSE"; cases "f_option = FREE_STMT_RESET")
      (auto simp add: drops_def assms(2) intro!: rules)
  show ?thesis
    unfolding my_SQLFreeStmtExtended_def st(1) Option.bind.simps by (rule answers_return [OF all])
qed

section \<open>Connections and their lists\<close>

lemma usable_wf:
  assumes "g_wf g" "g_stmts g s = Some x"
  shows "usable g s"
proof -
  note wf = g_wfD [OF assms(1)]
  have own: "g_descs g (Own s k) \<noteq> None" for k using wf(3) assms(2) by (simp add: own_wf_def)
  have app: "g_descs g (app_of param x) \<noteq> None" for param
  proof (cases "app_of param x")
    case (Own s' k)
    moreover have "own_ptr s x" using wf(2) assms(2) by (simp add: shapes_wf_def)
    ultimately show ?thesis using own [of k] by (auto simp: own_ptr_def)
  next
    case (Expl n)
    then show ?thesis using links_uses [OF wf(1) assms(2), of param n] by (auto simp: uses_l_def)
  qed
  from links_dbc_of [OF wf(1) assms(2)] obtain c where "g_dbcs g (sl_dbc x) = Some c" by blast
  moreover have "g_descs g (sl_apd x) \<noteq> None" "g_descs g (sl_ard x) \<noteq> None"
    using app [of True] app [of False] by (simp_all add: app_of_def)
  ultimately show ?thesis unfolding usable_def using assms(2) own by blast
qed

definition g_set_stmts :: "haddr \<Rightarrow> haddr list \<Rightarrow> graph \<Rightarrow> graph" where
  "g_set_stmts d xs g = g\<lparr>g_dbcs := (g_dbcs g)(d \<mapsto> (the (g_dbcs g d))\<lparr>cl_stmts := xs\<rparr>)\<rparr>"

lemma leads_set_stmts:
  assumes "graph_of h = g" "g_dbcs g d = Some c" "F (cl_stmts c) = xs"
  shows "leads (upd_dbc d (\<lambda>x. x\<lparr>c_stmts := F (c_stmts x)\<rparr>) h) (g_set_stmts d xs g)"
proof -
  obtain x where x: "dbcs h d = Some x" "cl x = c" using assms(1,2) by auto
  then have "F (c_stmts x) = xs" using assms(3) by auto
  with x show ?thesis using assms(1) by (auto simp: leads_def upd_dbc_def graph_of_def g_set_stmts_def cl_def fun_eq_iff)
qed

lemma g_del_stmt_set_stmts:
  assumes "g_stmts g s = Some x" "sl_dbc x = d" "g_dbcs g d = Some c" "removeAll s xs = removeAll s (cl_stmts c)"
  shows "g_del_stmt s (g_set_stmts d xs g) = g_del_stmt s g"
  using assms by (simp add: g_del_stmt_def g_set_stmts_def Let_def g_unlist_def)

text \<open>The statements of a connection are freed one by one.\<close>

definition g_free_stmts :: "haddr \<Rightarrow> graph \<Rightarrow> graph" where
  "g_free_stmts d g = fold g_del_stmt (cl_stmts (the (g_dbcs g d))) g"

lemma g_dbcs_del_stmt:
  "g_stmts g s = Some x \<Longrightarrow> g_dbcs g (sl_dbc x) = Some c \<Longrightarrow>
     g_dbcs (g_del_stmt s g) = (g_dbcs g)(sl_dbc x \<mapsto> c\<lparr>cl_stmts := removeAll s (cl_stmts c)\<rparr>)"
  by (simp add: g_del_stmt_def Let_def)

lemma free_stmts_loop:
  assumes "g_wf g" "graph_of h = g" "g_dbcs g d = Some c"
  shows "leads (foldo (\<lambda>s h1.
         Option.bind (upd_dbc d (\<lambda>c. c\<lparr>c_stmts := remove1 s (c_stmts c)\<rparr>) h1)
           (\<lambda>h2. map_option snd (my_SQLFreeStmt s SQL_DROP h2))) (cl_stmts c) h) (g_free_stmts d g) \<and>
    g_wf (g_free_stmts d g) \<and> g_dbcs (g_free_stmts d g) d = Some (c\<lparr>cl_stmts := []\<rparr>)"
  using assms
proof (induction "cl_stmts c" arbitrary: g h c)
  case Nil
  then show ?case by (simp add: g_free_stmts_def)
next
  case (Cons s xs)
  note wf = g_wfD [OF Cons.prems(1)]
  have dist: "distinct (s # xs)" using wf(2) Cons.prems(3) Cons.hyps(2) by (auto simp: shapes_wf_def dbc_shape_def)
  have "sdbc_l g s d" using Cons.prems(3) by (auto simp: sdbc_l_def Cons.hyps(2) [symmetric])
  then obtain x where x: "g_stmts g s = Some x" "sl_dbc x = d" using links_wf_eqs(2) [OF wf(1)] by (auto simp: sdbc_def)
  have rem: "removeAll s xs = xs" "removeAll s xs = removeAll s (cl_stmts c)"
    using dist Cons.hyps(2) [symmetric] by (simp_all add: removeAll_id)
  let ?g1 = "g_set_stmts d xs g" and ?g2 = "g_del_stmt s g"
  have d1: "leads (upd_dbc d (\<lambda>c. c\<lparr>c_stmts := remove1 s (c_stmts c)\<rparr>) h) ?g1"
    by (rule leads_set_stmts [OF Cons.prems(2,3)]) (simp add: Cons.hyps(2) [symmetric])
  have us: "usable ?g1 s"
    using usable_wf [OF Cons.prems(1) x(1)] by (auto simp: usable_def g_set_stmts_def)
  have d2: "leads (map_option snd (my_SQLFreeStmt s SQL_DROP h2)) ?g2" if "graph_of h2 = ?g1" for h2
    using free_stmt_refines [OF us that, of SQL_DROP True] g_del_stmt_set_stmts [OF x Cons.prems(3) rem(2)]
    by (intro leads_snd) (simp add: my_SQLFreeStmt_def drops_def free_opts)
  have c2: "g_dbcs ?g2 d = Some (c\<lparr>cl_stmts := xs\<rparr>)"
    using g_dbcs_del_stmt [OF x(1)] Cons.prems(3) x(2) rem by simp
  have wf2: "g_wf ?g2" by (rule g_del_stmt_wf [OF Cons.prems(1) x(1)])
  have "g_free_stmts d ?g2 = g_free_stmts d g"
    using c2 Cons.prems(3) Cons.hyps(2) [symmetric] by (simp add: g_free_stmts_def)
  note IH = Cons.hyps(1) [of "c\<lparr>cl_stmts := xs\<rparr>", OF _ wf2 _ c2, unfolded this, simplified]
  have "leads (foldo (\<lambda>s h1.
         Option.bind (upd_dbc d (\<lambda>c. c\<lparr>c_stmts := remove1 s (c_stmts c)\<rparr>) h1)
           (\<lambda>h2. map_option snd (my_SQLFreeStmt s SQL_DROP h2))) (s # xs) h) (g_free_stmts d g)"
    unfolding foldo.simps by (rule leads_bind [OF leads_bind [OF d1 d2]]) (use IH in auto)
  moreover obtain h2 where "graph_of h2 = ?g2"
    using d1 d2 unfolding leads_def by blast
  ultimately show ?case using IH Cons.hyps(2) by auto
qed

lemma free_connection_stmts_refines:
  assumes "g_wf g" "graph_of h = g" "g_dbcs g d = Some c"
  shows "leads (free_connection_stmts d h) (g_free_stmts d g)" "g_wf (g_free_stmts d g)"
    "g_dbcs (g_free_stmts d g) d = Some (c\<lparr>cl_stmts := []\<rparr>)"
proof -
  note loop = free_stmts_loop [OF assms]
  show "g_wf (g_free_stmts d g)" and c: "g_dbcs (g_free_stmts d g) d = Some (c\<lparr>cl_stmts := []\<rparr>)" using loop by blast+
  obtain x where x: "dbcs h d = Some x" "c_stmts x = cl_stmts c" using assms(2,3) by (auto simp: cl_def)
  have same: "g_set_stmts d [] (g_free_stmts d g) = g_free_stmts d g"
    using c by (simp add: g_set_stmts_def fun_upd_idem)
  have "leads (upd_dbc d (\<lambda>c. c\<lparr>c_stmts := []\<rparr>) h1) (g_free_stmts d g)" if "graph_of h1 = g_free_stmts d g" for h1
    using leads_set_stmts [OF that c, of "\<lambda>_. []" "[]"] same by simp
  then show "leads (free_connection_stmts d h) (g_free_stmts d g)"
    unfolding free_connection_stmts_def x(1) Option.bind.simps x(2)
    using loop by (blast intro: leads_bind)
qed

section \<open>Freeing descriptors\<close>

lemma leads_delete_desc:
  assumes "graph_of h = g" "g_descs g (Expl n) \<noteq> None"
  shows "leads (delete_desc (Expl n) h) (g\<lparr>g_descs := (g_descs g)(Expl n := None)\<rparr>)"
  using assms by (auto simp: leads_def delete_desc_def graph_of_def fun_eq_iff)

lemma leads_set_descs:
  assumes "graph_of h = g" "g_dbcs g d = Some c" "F (cl_descs c) = xs"
  shows "leads (upd_dbc d (\<lambda>x. x\<lparr>c_descs := F (c_descs x)\<rparr>) h)
    (g\<lparr>g_dbcs := (g_dbcs g)(d \<mapsto> c\<lparr>cl_descs := xs\<rparr>)\<rparr>)"
proof -
  obtain x where x: "dbcs h d = Some x" "cl x = c" using assms(1,2) by auto
  then have "F (c_descs x) = xs" using assms(3) by auto
  with x show ?thesis using assms(1) by (auto simp: leads_def upd_dbc_def graph_of_def cl_def fun_eq_iff)
qed

lemma clear_descs_loop:
  assumes "graph_of h = g" "g_dbcs g d = Some c" "cl_descs c = xs" "distinct xs"
    "\<forall>a \<in> set xs. \<exists>n. a = Expl n \<and> g_descs g a \<noteq> None"
  shows "leads (foldo (\<lambda>a h1. Option.bind (upd_dbc d (\<lambda>c. c\<lparr>c_descs := remove1 a (c_descs c)\<rparr>) h1) (delete_desc a)) xs h)
    (g_clear_descs d g)"
  using assms
proof (induction xs arbitrary: h g c)
  case Nil
  have "c\<lparr>cl_descs := []\<rparr> = c" using Nil(3) by (cases c) simp
  then have "g_clear_descs d g = g" using Nil(2,3) by (simp add: g_clear_descs_def fun_upd_idem)
  with Nil show ?case by simp
next
  case (Cons a xs)
  obtain n where n: "a = Expl n" "g_descs g (Expl n) \<noteq> None" using Cons.prems(5) by auto
  let ?g1 = "g\<lparr>g_dbcs := (g_dbcs g)(d \<mapsto> c\<lparr>cl_descs := xs\<rparr>)\<rparr>"
  let ?g2 = "?g1\<lparr>g_descs := (g_descs ?g1)(Expl n := None)\<rparr>"
  have d1: "leads (upd_dbc d (\<lambda>c. c\<lparr>c_descs := remove1 a (c_descs c)\<rparr>) h) ?g1"
    by (rule leads_set_descs [OF Cons.prems(1,2)]) (simp add: Cons.prems(3))
  have d2: "leads (delete_desc a h1) ?g2" if "graph_of h1 = ?g1" for h1
    using leads_delete_desc [OF that, of n] n by simp
  have "\<forall>a' \<in> set xs. \<exists>n'. a' = Expl n' \<and> g_descs ?g2 a' \<noteq> None"
  proof
    fix a' assume a': "a' \<in> set xs"
    then have "a' \<noteq> a" using Cons.prems(4) by auto
    moreover obtain n' where "a' = Expl n'" "g_descs g a' \<noteq> None" using Cons.prems(5) a' by auto
    ultimately show "\<exists>n'. a' = Expl n' \<and> g_descs ?g2 a' \<noteq> None" using n(1) by auto
  qed
  moreover have "g_dbcs ?g2 d = Some (c\<lparr>cl_descs := xs\<rparr>)" "distinct xs" using Cons.prems(4) by simp_all
  ultimately have IH: "leads (foldo (\<lambda>a h1. Option.bind (upd_dbc d (\<lambda>c. c\<lparr>c_descs := remove1 a (c_descs c)\<rparr>) h1) (delete_desc a)) xs h2)
      (g_clear_descs d ?g2)" if "graph_of h2 = ?g2" for h2
    using Cons.IH [OF that, of "c\<lparr>cl_descs := xs\<rparr>"] by simp
  have "g_clear_descs d ?g2 = g_clear_descs d g"
    using Cons.prems(2,3) n(1) by (auto simp: g_clear_descs_def Let_def fun_eq_iff)
  moreover obtain h1 where "upd_dbc d (\<lambda>c. c\<lparr>c_descs := remove1 a (c_descs c)\<rparr>) h = Some h1" "graph_of h1 = ?g1"
    using d1 unfolding leads_def by blast
  moreover from this(2) obtain h2 where "delete_desc a h1 = Some h2" "graph_of h2 = ?g2"
    using d2 unfolding leads_def by blast
  ultimately show ?case using IH by simp
qed

lemma free_explicit_descriptors_refines:
  assumes "g_dbcs g0 d = Some c" "g_wf g0" "graph_of h = g"
    "g_dbcs g = g_dbcs g0" "g_descs g = g_descs g0"
  shows "leads (free_explicit_descriptors d h) (g_clear_descs d g)"
proof -
  obtain x where x: "dbcs h d = Some x" "cl x = c" using assms(1,3,4) by (metis graph_of_simps(2) map_option_eq_Some)
  then have xc: "c_descs x = cl_descs c" by auto
  note wf = g_wfD [OF assms(2)]
  have "dbc_shape c" using wf(2) assms(1) by (simp add: shapes_wf_def)
  then have sh: "distinct (cl_descs c)" "\<And>s k. Own s k \<notin> set (cl_descs c)" by (simp_all add: dbc_shape_def)
  have "\<exists>n. a = Expl n \<and> g_descs g a \<noteq> None" if "a \<in> set (cl_descs c)" for a
  proof (cases a)
    case (Own s k)
    then show ?thesis using that sh(2) by simp
  next
    case (Expl n)
    then have "ddbc_l g0 n d" using that assms(1) by (auto simp: ddbc_l_def)
    then show ?thesis using Expl links_wf_eqs(3) [OF wf(1), of n d] assms(5) by (auto simp: ddbc_def)
  qed
  then show ?thesis
    unfolding free_explicit_descriptors_def x(1) Option.bind.simps xc
    using clear_descs_loop [OF assms(3) _ refl sh(1), of d] assms(1,4) by simp
qed

lemma free_desc_loop:
  assumes "graph_of h = g" "\<forall>s \<in> set xs. g_stmts g s \<noteq> None" "\<And>s x. sl (F s x) = set_app param (own_app param s) (sl x)"
  shows "leads (foldo (\<lambda>s. upd_stmt s (F s)) xs h)
    (g\<lparr>g_stmts := (\<lambda>s. if s \<in> set xs then map_option (set_app param (own_app param s)) (g_stmts g s) else g_stmts g s)\<rparr>)"
  using assms(1,2)
proof (induction xs arbitrary: h g)
  case (Cons s xs)
  let ?g1 = "g\<lparr>g_stmts := (g_stmts g)(s := map_option (set_app param (own_app param s)) (g_stmts g s))\<rparr>"
  have d: "leads (upd_stmt s (F s) h) ?g1"
    using Cons.prems assms(3) by (auto simp: leads_def upd_stmt_def graph_of_def fun_eq_iff)
  have live: "\<forall>s' \<in> set xs. g_stmts ?g1 s' \<noteq> None" using Cons.prems(2) by auto
  have "(\<lambda>s'. if s' \<in> set xs then map_option (set_app param (own_app param s')) (g_stmts ?g1 s') else g_stmts ?g1 s') =
      (\<lambda>s'. if s' \<in> set (s # xs) then map_option (set_app param (own_app param s')) (g_stmts g s') else g_stmts g s')"
    by (cases "g_stmts g s") (auto simp: fun_eq_iff)
  then show ?case
    unfolding foldo.simps using Cons.IH [OF _ live] by (intro leads_bind [OF d]) simp
qed simp

lemma free_expl_refines:
  assumes "graph_of h = g" "g_descs g (Expl n) = Some y" "desc_shape y" "dl_dbc y = Some d" "g_dbcs g d = Some c"
    "\<forall>s \<in> set (dl_stmts y). g_stmts g s \<noteq> None"
  shows "answers (my_SQLFreeDesc drv (Expl n) h) (g_free_desc (Expl n) g)"
proof -
  obtain hy where hy: "descs h (Expl n) = Some hy" "dl hy = y" using assms(1,2) by auto
  obtain hc where hc: "dbcs h d = Some hc" using assms(1,5) by auto
  have f: "hd_dbc hy = Some d" "alloc_type hy = SQL_DESC_ALLOC_USER" "hd_stmts hy = dl_stmts y"
    using hy(2) assms(3,4) by (auto simp: desc_shape_def)
  define param where "param = (dl_type y = DESC_PARAM)"
  define F where "F = (\<lambda>s x. if is_apd (hd_content hy) then x\<lparr>s_apd := Own s Own_APD\<rparr>
          else if is_ard (hd_content hy) then x\<lparr>s_ard := Own s Own_ARD\<rparr> else (x :: stmt))"
  let ?g1 = "g\<lparr>g_dbcs := (g_dbcs g)(d \<mapsto> c\<lparr>cl_descs := removeAll (Expl n) (cl_descs c)\<rparr>)\<rparr>"
  let ?st = "\<lambda>s. if s \<in> set (dl_stmts y) then map_option (set_app param (own_app param s)) (g_stmts ?g1 s) else g_stmts ?g1 s"
  have d1: "leads (upd_dbc d (\<lambda>c. c\<lparr>c_descs := removeAll (Expl n) (c_descs c)\<rparr>) h) ?g1"
    by (rule leads_set_descs [OF assms(1,5)]) simp
  have d2: "leads (foldo (\<lambda>s. upd_stmt s (F s)) (dl_stmts y) h1) (?g1\<lparr>g_stmts := ?st\<rparr>)" if h1: "graph_of h1 = ?g1" for h1
  proof (cases "dl_stmts y = []")
    case True
    then show ?thesis using h1 by (simp add: leads_def)
  next
    case False
    have t: "dl_type y = app_type param"
      using assms(3) False by (cases "dl_type y") (auto simp: desc_shape_def param_def app_type_def)
    have k: "desc_type (hd_content hy) = dl_type y" "ref_type (hd_content hy) = DESC_APP"
      using hy(2) assms(3) by (auto simp: desc_shape_def)
    have Fs: "sl (F s x) = set_app param (own_app param s) (sl x)" for s x
      using k t by (simp add: F_def desc_kinds sl_def set_app_def own_app_def app_type_def)
    have "\<forall>s \<in> set (dl_stmts y). g_stmts ?g1 s \<noteq> None" using assms(6) by simp
    from free_desc_loop [OF h1 this Fs] show ?thesis .
  qed
  have d3: "leads (delete_desc (Expl n) h2) (g_free_desc (Expl n) g)" if "graph_of h2 = ?g1\<lparr>g_stmts := ?st\<rparr>" for h2
    using leads_delete_desc [OF that, of n] assms(2,4,5) by (simp add: g_free_desc_def Let_def param_def cong: if_cong)
  obtain h1 where h1: "upd_dbc d (\<lambda>c. c\<lparr>c_descs := removeAll (Expl n) (c_descs c)\<rparr>) h = Some h1" "graph_of h1 = ?g1"
    using d1 unfolding leads_def by blast
  obtain h2 where h2: "foldo (\<lambda>s. upd_stmt s (F s)) (dl_stmts y) h1 = Some h2" "graph_of h2 = ?g1\<lparr>g_stmts := ?st\<rparr>"
    using d2 [OF h1(2)] unfolding leads_def by blast
  have "my_SQLFreeDesc drv (Expl n) h = map_option (Pair SQL_SUCCESS) (delete_desc (Expl n) h2)"
    using h2(1) [unfolded F_def] by (simp add: my_SQLFreeDesc_def hy(1) f hc h1(1))
  then show ?thesis using answers_return [OF d3 [OF h2(2)]] by simp
qed

lemma free_desc_refines:
  assumes "g_wf g" "graph_of h = g" "g_descs g a = Some y"
  shows "answers (my_SQLFreeDesc drv a h) (case a of Own _ _ \<Rightarrow> g | Expl n \<Rightarrow> g_free_desc a g)"
proof -
  note wf = g_wfD [OF assms(1)]
  obtain hy where hy: "descs h a = Some hy" "dl hy = y" using assms(2,3) by auto
  show ?thesis
  proof (cases a)
    case (Own s k)
    then obtain x where x: "g_stmts g s = Some x" "y = own_link (sl_dbc x) s k"
      using wf(3) assms(3) by (auto simp: own_wf_def)
    obtain c where c: "g_dbcs g (sl_dbc x) = Some c" using links_dbc_of [OF wf(1) x(1)] by blast
    then obtain hc where hc: "dbcs h (sl_dbc x) = Some hc" using assms(2) by auto
    have "hd_dbc hy = Some (sl_dbc x)" "alloc_type hy \<noteq> SQL_DESC_ALLOC_USER"
      using x(2) hy(2) [symmetric] link_simps(8,12) [of hy] by (simp_all add: alloc_types)
    then show ?thesis
      using Own hy(1) hc assms(3) leads_in(1) [OF assms(2), of "\<lambda>x. x\<lparr>d_error := e\<rparr>" a for e]
      by (auto simp: my_SQLFreeDesc_def Let_def keeps split_beta intro!: answers_return)
  next
    case (Expl n)
    have yE: "g_descs g (Expl n) = Some y" using assms(3) Expl by simp
    have sh: "desc_shape y" using wf(2) yE by (simp add: shapes_wf_def)
    then obtain d where d: "dl_dbc y = Some d" by (auto simp: desc_shape_def)
    then obtain c where c: "g_dbcs g d = Some c" using links_ddbc [OF wf(1) yE, of d] by (auto simp: ddbc_l_def)
    have "g_stmts g s \<noteq> None" if s: "s \<in> set (dl_stmts y)" for s
    proof -
      have "dl_type y \<noteq> DESC_UNKNOWN" using sh s by (auto simp: desc_shape_def)
      then have "dl_type y = app_type (dl_type y = DESC_PARAM)" by (cases "dl_type y") (auto simp: app_type_def)
      then obtain param where "dl_type y = app_type param" by blast
      then have "uses g s param n" using links_wf_eqs(4) [OF wf(1)] yE s by (auto simp: uses_l_def)
      then show ?thesis by (auto simp: uses_def)
    qed
    then show ?thesis using free_expl_refines [OF assms(2) yE sh d c] Expl by simp
  qed
qed

section \<open>Allocation, connections and application descriptors\<close>

lemma free_connect_refines:
  assumes "g_wf g" "graph_of h = g" "g_dbcs g d = Some c"
  shows "answers (my_SQLFreeConnect d h) (g_del_dbc d g)"
proof -
  obtain x where x: "dbcs h d = Some x" "cl x = c" using assms(2,3) by auto
  have "conn g d (cl_env c)" using assms(3) by (simp add: conn_def)
  then obtain l where l: "g_envs g (cl_env c) = Some l"
    using links_wf_eqs(1) [OF g_wfD(1) [OF assms(1)], of d "cl_env c"] by (auto simp: conn_l_def)
  let ?g1 = "g\<lparr>g_envs := (g_envs g)(cl_env c \<mapsto> removeAll d l)\<rparr>"
  have "leads (upd_env (c_env x) (\<lambda>x. x\<lparr>e_conns := removeAll d (e_conns x)\<rparr>) h) ?g1"
    using l x(2) assms(2) by (auto simp: leads_def upd_env_def graph_of_def fun_eq_iff)
  then obtain h1 where h1: "upd_env (c_env x) (\<lambda>x. x\<lparr>e_conns := removeAll d (e_conns x)\<rparr>) h = Some h1" "graph_of h1 = ?g1"
    unfolding leads_def by blast
  obtain h2 where h2: "free_explicit_descriptors d h1 = Some h2" "graph_of h2 = g_clear_descs d ?g1"
    using free_explicit_descriptors_refines [OF assms(3,1) h1(2)] unfolding leads_def by auto
  let ?h3 = "h2\<lparr>dbcs := (dbcs h2)(d := None), thread_count := thread_count h2 - 1\<rparr>"
  have "graph_of ?h3 = (graph_of h2)\<lparr>g_dbcs := (g_dbcs (graph_of h2))(d := None)\<rparr>"
    by (auto simp: graph_of_def fun_eq_iff)
  also have "\<dots> = g_del_dbc d g" using l assms(3) unfolding h2(2)
    by (intro graph.equality) (simp_all add: g_del_dbc_def g_clear_descs_def Let_def cong: if_cong)
  finally show ?thesis using h1(1) h2(1) x(1) by (simp add: my_SQLFreeConnect_def answers_def)
qed

text \<open>What a call does to the links is one of these steps.\<close>

inductive g_step :: "graph \<Rightarrow> graph \<Rightarrow> bool" where
  stay: "g_step g g"
| add_env: "g_step g (g_add_env g)"
| del_env: "g_envs g e = Some [] \<Longrightarrow> g_step g (g\<lparr>g_envs := (g_envs g)(e := None)\<rparr>)"
| add_dbc: "g_envs g e = Some l \<Longrightarrow> g_step g (g_add_dbc e g)"
| del_dbc: "g_dbcs g d = Some c \<Longrightarrow> cl_stmts c = [] \<Longrightarrow> g_step g (g_del_dbc d g)"
| add_stmt: "g_dbcs g d = Some c \<Longrightarrow> g_step g (g_add_stmt d g)"
| del_stmt: "g_stmts g s = Some x \<Longrightarrow> g_step g (g_del_stmt s g)"
| add_desc: "g_dbcs g d = Some c \<Longrightarrow> g_step g (g_add_desc d g)"
| free_desc: "g_descs g (Expl n) = Some y \<Longrightarrow> g_step g (g_free_desc (Expl n) g)"
| set_app: "g_stmts g s = Some x \<Longrightarrow> (\<And>a. desc = Some a \<Longrightarrow> \<exists>y. g_descs g a = Some y \<and> accepts param s x y) \<Longrightarrow>
    g_step g (g_set_app param s desc g)"
| clear: "g_dbcs g d = Some c \<Longrightarrow> cl_stmts c = [] \<Longrightarrow> g_step g (g_clear_descs d g)"

lemma g_step_wf: "g_step g g' \<Longrightarrow> g_wf g \<Longrightarrow> g_wf g'"
proof (induction rule: g_step.induct)
  case (set_app g s x desc param)
  then show ?case by (blast intro: g_set_app_wf)
qed (auto intro: g_add_env_wf g_del_env_wf g_add_dbc_wf g_del_dbc_wf g_add_stmt_wf g_del_stmt_wf g_add_desc_wf
    g_free_desc_wf g_clear_descs_wf)

definition steps_to :: "(int \<times> heap) option \<Rightarrow> heap \<Rightarrow> bool" where
  "steps_to r h \<longleftrightarrow> (\<exists>rc h'. r = Some (rc, h') \<and> g_step\<^sup>*\<^sup>* (graph_of h) (graph_of h'))"

lemma steps_toI: "answers r g \<Longrightarrow> g_step (graph_of h) g \<Longrightarrow> steps_to r h"
  by (auto simp: answers_def steps_to_def)

lemma steps_stay: "answers r (graph_of h) \<Longrightarrow> steps_to r h"
  by (rule steps_toI [OF _ stay])

lemma error_leads:
  "graph_of h = g \<Longrightarrow> g_envs g e \<noteq> None \<Longrightarrow> answers (env_error drv e errid errtext errcode h) g"
  unfolding env_error_def split_beta Let_def
  by (intro answers_return leads_in) auto

lemma stmt_error_answers:
  assumes "graph_of h = g" "usable g s"
  shows "answers (stmt_error s errid errtext errcode h) g"
proof -
  obtain st c where st: "stmts h s = Some st" "dbcs h (s_dbc st) = Some c" using assms by (auto simp: usable_def)
  then show ?thesis
    using leads_in(2) [OF assms(1), of "\<lambda>x. x\<lparr>s_error := er\<rparr>" s for er] assms(1)
    by (auto simp: stmt_error_def Let_def keeps intro!: answers_return)
qed

lemma refused_accepts:
  "app_desc_refused param s (sl_dbc x) y = None \<longleftrightarrow> accepts param s x (dl y)"
  by (auto simp: app_desc_refused_def accepts_def app_type_def)

lemma accepts_unlist [simp]: "accepts param s x (unlist s' y) = accepts param s x y"
  by (simp add: accepts_def)

lemma app_of_sl: "app_of param (sl st) = app_ptr param st"
  by (simp add: app_of_def app_ptr_def)

lemma leads_set_app:
  "graph_of h = g \<Longrightarrow> g_stmts g s = Some x \<Longrightarrow>
     leads (upd_stmt s (set_app_ptr param a) h) (g\<lparr>g_stmts := (g_stmts g)(s \<mapsto> set_app param a x)\<rparr>)"
  by (auto simp: leads_def upd_stmt_def graph_of_def fun_eq_iff sl_def set_app_ptr_def set_app_def)

lemma leads_enlist:
  "graph_of h = g \<Longrightarrow> g_descs g a = Some y \<Longrightarrow>
     leads (upd_desc a (\<lambda>y. (stmt_list_add s y)
         \<lparr>hd_content := (hd_content y)\<lparr>desc_type := if param then DESC_PARAM else DESC_ROW\<rparr>\<rparr>) h)
       (g\<lparr>g_descs := (g_descs g)(a \<mapsto> (enlist s y)\<lparr>dl_type := app_type param\<rparr>)\<rparr>)"
proof -
  assume g: "graph_of h = g" and a: "g_descs g a = Some y"
  then obtain z where z: "descs h a = Some z" "dl z = y" by auto
  let ?f = "\<lambda>y. (stmt_list_add s y)\<lparr>hd_content := (hd_content y)\<lparr>desc_type := if param then DESC_PARAM else DESC_ROW\<rparr>\<rparr>"
  have "dl (?f z) = (enlist s y)\<lparr>dl_type := app_type param\<rparr>"
    unfolding z(2) [symmetric] by (simp add: dl_def stmt_list_add_def enlist_def alloc_type_def app_type_def)
  then show "leads (upd_desc a ?f h) (g\<lparr>g_descs := (g_descs g)(a \<mapsto> (enlist s y)\<lparr>dl_type := app_type param\<rparr>)\<rparr>)"
    using z(1) g by (auto simp: leads_def upd_desc_def graph_of_def fun_eq_iff)
qed

lemma set_app_desc_refines:
  assumes "g_wf g" "graph_of h = g" "g_stmts g s = Some x" "\<And>a. desc = Some a \<Longrightarrow> g_descs g a \<noteq> None"
    "\<And>a y. desc = Some a \<Longrightarrow> g_descs g a = Some y \<Longrightarrow> \<not> accepts param s x y \<Longrightarrow> \<exists>s' k. app_of param x = Own s' k"
  shows "steps_to (set_app_desc param s desc h) h"
proof -
  have us: "usable g s" by (rule usable_wf [OF assms(1,3)])
  let ?clear = "\<lambda>x. x\<lparr>s_error := myerror_clear (s_error x)\<rparr>"
  obtain h0 where h0: "upd_stmt s ?clear h = Some h0" "graph_of h0 = g"
    using leads_in(2) [OF assms(2), of ?clear s] assms(3) unfolding leads_def by (auto simp: sl_def)
  obtain st where st: "stmts h0 s = Some st" "sl st = x" using h0(2) assms(3) by auto
  let ?cur = "app_ptr param st"
  have cur: "app_of param x = ?cur" using st(2) app_of_sl by blast
  have "g_descs g ?cur \<noteq> None"
    using us assms(3) unfolding cur [symmetric] by (auto simp: usable_def app_of_def)
  then obtain h1 where h1: "upd_desc ?cur (stmt_list_remove s) h0 = Some h1" "graph_of h1 = g_unlist s ?cur g"
    using leads_unlist [of h0 ?cur s] h0(2) unfolding leads_def by auto
  have run: "set_app_desc param s desc h = (case desc of
       None \<Rightarrow> map_option (Pair SQL_SUCCESS)
                (upd_stmt s (set_app_ptr param (Own s (if param then Own_APD else Own_ARD))) h1)
     | Some a \<Rightarrow>
         Option.bind (descs h1 a) (\<lambda>y.
         case app_desc_refused param s (s_dbc st) y of
           Some (errid, text) \<Rightarrow> stmt_error s errid (Some text) 0 h1
         | None \<Rightarrow>
             Option.bind (upd_desc a (\<lambda>y. (stmt_list_add s y)
                 \<lparr>hd_content := (hd_content y)\<lparr>desc_type := if param then DESC_PARAM else DESC_ROW\<rparr>\<rparr>) h1)
               (\<lambda>h2. map_option (Pair SQL_SUCCESS) (upd_stmt s (set_app_ptr param a) h2))))"
    by (simp only: set_app_desc_def h0(1) st(1) h1(1) Option.bind.simps)
  show ?thesis
  proof (cases desc)
    case None
    have "g_stmts (g_unlist s ?cur g) s = Some x" using assms(3) by simp
    then have "answers (set_app_desc param s desc h) (g_set_app param s None g)"
      unfolding run using leads_set_app [OF h1(2), of s x param "own_app param s"] assms(3) cur None
      by (simp add: g_set_app_def Let_def own_app_def answers_return)
    moreover have "g_step g (g_set_app param s None g)" by (rule set_app [OF assms(3)]) simp
    ultimately show ?thesis using assms(2) by (auto intro: steps_toI)
  next
    case (Some a)
    then obtain y where y: "g_descs g a = Some y" using assms(4) by blast
    let ?y1 = "if a = ?cur then unlist s y else y"
    have y1: "g_descs (g_unlist s ?cur g) a = Some ?y1" using y by (auto simp add: g_unlist_descs)
    then obtain z where z: "descs h1 a = Some z" "dl z = ?y1" using live_in(4) [OF h1(2)] by blast
    have acc: "accepts param s x (dl z) = accepts param s x y" unfolding z(2) by simp
    have sd: "sl_dbc x = s_dbc st" using st(2) by auto
    show ?thesis
    proof (cases "app_desc_refused param s (s_dbc st) z")
      case None
      then have ok: "accepts param s x y" using refused_accepts [of param s x z] sd acc by simp
      obtain h2 where h2: "upd_desc a (\<lambda>y. (stmt_list_add s y)
           \<lparr>hd_content := (hd_content y)\<lparr>desc_type := if param then DESC_PARAM else DESC_ROW\<rparr>\<rparr>) h1 = Some h2"
          "graph_of h2 = (g_unlist s ?cur g)\<lparr>g_descs := (g_descs (g_unlist s ?cur g))(a \<mapsto> (enlist s ?y1)\<lparr>dl_type := app_type param\<rparr>)\<rparr>"
        using leads_enlist [OF h1(2) y1] unfolding leads_def by auto
      have "g_stmts (graph_of h2) s = Some x" unfolding h2(2) using assms(3) by simp
      then have "leads (upd_stmt s (set_app_ptr param a) h2) (g_set_app param s desc g)"
        using leads_set_app [OF refl, of h2 s x param a] h2(2) assms(3) y1 cur Some by (simp add: g_set_app_def Let_def)
      then have "answers (set_app_desc param s desc h) (g_set_app param s desc g)"
        unfolding run using z(1) h2(1) None Some by (simp add: answers_return)
      moreover have "g_step g (g_set_app param s desc g)" by (rule set_app [OF assms(3)]) (use Some y ok in auto)
      ultimately show ?thesis using assms(2) by (auto intro: steps_toI)
    next
      case (Some e)
      then have "\<not> accepts param s x y" using refused_accepts [of param s x z] sd acc by simp
      then obtain s' k where "?cur = Own s' k" using assms(5) [OF \<open>desc = Some a\<close> y] cur by auto
      moreover have "g_descs (g_unlist s ?cur g) (Own s' k) = g_descs g (Own s' k)"
        using g_wfD(3) [OF assms(1)] g_unlist_own [OF g_wfD(3) [OF assms(1)], of s ?cur] by (simp only: own_wf_def g_unlist_simps)
      ultimately have "g_unlist s ?cur g = g"
        by (intro graph.equality) (auto simp: fun_eq_iff g_unlist_descs)
      then have "answers (stmt_error s (fst e) (Some (snd e)) 0 h1) g"
        using stmt_error_answers [OF _ us, of h1] h1(2) by simp
      then have "answers (set_app_desc param s desc h) g"
        unfolding run using z(1) Some \<open>desc = Some a\<close> by (simp add: split_beta)
      then show ?thesis using assms(2) by (auto intro: steps_stay)
    qed
  qed
qed

section \<open>The calls of an application\<close>

datatype call =
    AllocEnv | FreeEnv haddr | SetEnvAttr haddr int int
  | AllocConnect "string option" haddr | FreeConnect haddr | Disconnect haddr | ResetConnection haddr
  | AllocStmt bool haddr | FreeStmt haddr int
  | AllocDesc haddr | FreeDesc daddr | SetAppDesc bool haddr "daddr option"
  | SetDescField daddr int int u64 int

text \<open>A call on a heap: the code returned and the new heap.\<close>

definition exec :: "string \<Rightarrow> (u64 \<Rightarrow> string option) \<Rightarrow> call \<Rightarrow> heap \<Rightarrow> (int \<times> heap) option" where
  "exec drv cstr c h =
     (case c of
        AllocEnv \<Rightarrow> (case my_SQLAllocEnv h of (rc, _, h1) \<Rightarrow> Some (rc, h1))
      | FreeEnv e \<Rightarrow> my_SQLFreeEnv e h
      | SetEnvAttr e attribute v \<Rightarrow> SQLSetEnvAttr drv e attribute v h
      | AllocConnect old e \<Rightarrow> map_option (\<lambda>(rc, _, h1). (rc, h1)) (my_SQLAllocConnect drv old e h)
      | FreeConnect d \<Rightarrow> my_SQLFreeConnect d h
      | Disconnect d \<Rightarrow> SQLDisconnect d h
      | ResetConnection d \<Rightarrow> reset_connection_attr d h
      | AllocStmt ok d \<Rightarrow> map_option (\<lambda>(rc, _, h1). (rc, h1)) (my_SQLAllocStmt ok d h)
      | FreeStmt s f_option \<Rightarrow> my_SQLFreeStmt s f_option h
      | AllocDesc d \<Rightarrow> map_option (\<lambda>(rc, _, h1). (rc, h1)) (my_SQLAllocDesc d h)
      | FreeDesc a \<Rightarrow> my_SQLFreeDesc drv a h
      | SetAppDesc param s desc \<Rightarrow> set_app_desc param s desc h
      | SetDescField a recnum fldid val buflen \<Rightarrow> heap_set_field cstr a recnum fldid val buflen h)"

text \<open>
  What the driver manager guarantees of a call: the handles are live, an environment is freed without
  connections and a connection without statements. Two conditions are the driver's own: a
  descriptor it would refuse is not assigned while the statement uses an allocated one, and the arguments
  of a store into a descriptor are those of \<open>store_defined\<close>.
\<close>

definition legal :: "(u64 \<Rightarrow> string option) \<Rightarrow> call \<Rightarrow> heap \<Rightarrow> bool" where
  "legal cstr c h =
     (case c of
        AllocEnv \<Rightarrow> True
      | FreeEnv e \<Rightarrow> (case envs h e of None \<Rightarrow> False | Some x \<Rightarrow> e_conns x = [])
      | SetEnvAttr e _ _ \<Rightarrow> envs h e \<noteq> None
      | AllocConnect _ e \<Rightarrow> envs h e \<noteq> None
      | FreeConnect d \<Rightarrow> (case dbcs h d of None \<Rightarrow> False | Some x \<Rightarrow> c_stmts x = [])
      | Disconnect d \<Rightarrow> dbcs h d \<noteq> None
      | ResetConnection d \<Rightarrow> dbcs h d \<noteq> None
      | AllocStmt _ d \<Rightarrow> dbcs h d \<noteq> None
      | FreeStmt s _ \<Rightarrow> stmts h s \<noteq> None
      | AllocDesc d \<Rightarrow> dbcs h d \<noteq> None
      | FreeDesc a \<Rightarrow> descs h a \<noteq> None
      | SetAppDesc param s desc \<Rightarrow>
          (case stmts h s of
             None \<Rightarrow> False
           | Some st \<Rightarrow>
               (case desc of
                  None \<Rightarrow> True
                | Some a \<Rightarrow>
                    (case descs h a of
                       None \<Rightarrow> False
                     | Some y \<Rightarrow> app_desc_refused param s (s_dbc st) y = None
                         \<or> (case app_ptr param st of Own _ _ \<Rightarrow> True | Expl _ \<Rightarrow> False))))
      | SetDescField a recnum fldid val buflen \<Rightarrow>
          (case descs h a of
             None \<Rightarrow> False
           | Some y \<Rightarrow> store_defined cstr (view h y) recnum fldid val buflen))"

definition well_linked :: "heap \<Rightarrow> bool" where
  "well_linked h = g_wf (graph_of h)"

lemma set_field_refines:
  assumes "g_wf g" "graph_of h = g" "descs h a = Some y" "store_defined cstr (view h y) recnum fldid val buflen"
  shows "answers (heap_set_field cstr a recnum fldid val buflen h) g"
proof -
  obtain rc d1 where d1: "set_field cstr (view h y) recnum fldid val buflen = Some (rc, d1)"
    using set_field_returns [OF assms(4)] by auto
  have k: "same_kind (view h y) d1" using set_field_frame [OF d1] by simp
  then have "dl (y\<lparr>hd_content := d1\<lparr>d_stmt := None\<rparr>\<rparr>) = dl y"
    by (simp add: dl_def same_kind_def view_def alloc_type_def)
  then have "leads (upd_desc a (\<lambda>y. y\<lparr>hd_content := d1\<lparr>d_stmt := None\<rparr>\<rparr>) h) g"
    using assms(2,3) by (auto simp: leads_def upd_desc_def graph_of_def fun_eq_iff)
  then obtain h1 where h1: "upd_desc a (\<lambda>y. y\<lparr>hd_content := d1\<lparr>d_stmt := None\<rparr>\<rparr>) h = Some h1" "graph_of h1 = g"
    unfolding leads_def by blast
  have st: "g_stmts g s \<noteq> None" if "hd_stmt y = Some s" for s
  proof -
    have y: "g_descs g a = Some (dl y)" using assms(2,3) by auto
    show ?thesis
    proof (cases a)
      case (Own s' k)
      then obtain x where "g_stmts g s' = Some x" "dl y = own_link (sl_dbc x) s' k"
        using y g_wfD(3) [OF assms(1)] by (auto simp: own_wf_def)
      moreover from this(2) have "hd_stmt y = Some s'" using link_simps(7) [of y] by simp
      ultimately show ?thesis using that by simp
    next
      case (Expl n)
      then have "desc_shape (dl y)" using y g_wfD(2) [OF assms(1)] by (simp add: shapes_wf_def)
      then show ?thesis using that by (simp add: desc_shape_def)
    qed
  qed
  have "leads (upd_stmt s (\<lambda>x. x\<lparr>s_error := er\<rparr>) h1) g" if "hd_stmt y = Some s" for s er
    using leads_in(2) [OF h1(2), of "\<lambda>x. x\<lparr>s_error := er\<rparr>" s] st [OF that] by (simp add: keeps)
  then show ?thesis
    using assms(3) d1 h1 by (auto simp: heap_set_field_def answers_def leads_def split: option.splits)
qed

lemma graph_more [simp]: "graph_of (h\<lparr>thread_count := n\<rparr>) = graph_of h" "graph_of (h\<lparr>globals := gl\<rparr>) = graph_of h"
  by (simp_all add: graph_of_def)

lemma alloc_connect_refines:
  assumes "graph_of h = g" "g_envs g e = Some l"
  shows "answers (map_option (\<lambda>(rc, _, h1). (rc, h1)) (my_SQLAllocConnect drv old e h)) g \<or>
    answers (map_option (\<lambda>(rc, _, h1). (rc, h1)) (my_SQLAllocConnect drv old e h)) (g_add_dbc e g)"
proof -
  obtain x where x: "envs h e = Some x" "e_conns x = l" using live_in(1) [OF assms] by blast
  have er: "answers (env_error drv e errid msg n1 (h\<lparr>thread_count := n\<rparr>)) g" for errid msg n1 n
    using error_leads [of "h\<lparr>thread_count := n\<rparr>" g e] assms by simp
  have err: "answers (map_option (\<lambda>(rc, _, h1). (rc, h1)) (map_option (\<lambda>(rc, h1). (rc, None, h1))
      (env_error drv e errid msg n1 (h\<lparr>thread_count := n\<rparr>)))) g" for errid msg n1 n
    using er [of errid msg n1 n] by (auto simp: answers_def)
  show ?thesis
  proof (cases "old \<noteq> None \<or> e_odbc_ver x = 0")
    case True
    then show ?thesis using err by (auto simp: my_SQLAllocConnect_def x(1) Let_def)
  next
    case False
    then have "answers (map_option (\<lambda>(rc, _, h1). (rc, h1)) (my_SQLAllocConnect drv old e h)) (g_add_dbc e g)"
      using x assms by (auto simp: my_SQLAllocConnect_def Let_def answers_def upd_env_def g_add_dbc_def graph_of_def
          new_dbc_def cl_def fun_eq_iff)
    then show ?thesis ..
  qed
qed

lemma alloc_stmt_refines:
  assumes "graph_of h = g" "g_dbcs g d = Some c"
  shows "answers (map_option (\<lambda>(rc, _, h1). (rc, h1)) (my_SQLAllocStmt ok d h)) g \<or>
    answers (map_option (\<lambda>(rc, _, h1). (rc, h1)) (my_SQLAllocStmt ok d h)) (g_add_stmt d g)"
proof -
  obtain x where x: "dbcs h d = Some x" "cl x = c" using live_in(2) [OF assms] by blast
  show ?thesis
  proof (cases "fst (wakeup_connection ok x)")
    case False
    then show ?thesis using assms(1) x(1) by (auto simp: my_SQLAllocStmt_def Let_def answers_def split_beta)
  next
    case True
    define c1 where "c1 = snd (wakeup_connection ok x)"
    have c1: "cl c1 = c" using x(2) by (auto simp: c1_def wakeup_connection_def cl_def)
    let ?h = "h\<lparr>dbcs := (dbcs h)(d \<mapsto> c1\<lparr>c_stmts := c_stmts c1 @ [next_addr h]\<rparr>),
       stmts := (stmts h)(next_addr h \<mapsto> new_stmt d (next_addr h) (c_opts c1)), next_addr := Suc (next_addr h)\<rparr>"
    have run: "my_SQLAllocStmt ok d h = Some (SQL_SUCCESS, Some (next_addr h),
        set_own (next_addr h) (\<lambda>k. Some (new_own_desc d (next_addr h) k)) ?h)"
      using x(1) True by (simp add: my_SQLAllocStmt_def Let_def split_beta c1_def)
    have dl: "dl (new_own_desc d s k) = own_link d s k" for s k
      by (simp add: dl_def new_own_desc_def new_desc_def own_link_def alloc_type_def num_of_def)
    have "graph_of ?h = g\<lparr>g_dbcs := (g_dbcs g)(d \<mapsto> c\<lparr>cl_stmts := cl_stmts c @ [g_next g]\<rparr>),
        g_stmts := (g_stmts g)(g_next g \<mapsto> \<lparr>sl_dbc = d, sl_ard = Own (g_next g) Own_ARD, sl_apd = Own (g_next g) Own_APD\<rparr>),
        g_next := Suc (g_next g)\<rparr>"
      unfolding assms(1) [symmetric] c1 [symmetric]
      by (intro graph.equality) (auto simp: fun_eq_iff cl_def sl_def new_stmt_def)
    moreover have "next_addr h = g_next g" using assms(1) by auto
    ultimately have "graph_of (set_own (next_addr h) (\<lambda>k. Some (new_own_desc d (next_addr h) k)) ?h) = g_add_stmt d g"
      unfolding abs_set_own using assms(2) dl by (simp add: g_add_stmt_def Let_def)
    then show ?thesis unfolding run by (simp add: answers_def)
  qed
qed

lemma alloc_desc_refines:
  assumes "graph_of h = g" "g_dbcs g d = Some c"
  shows "answers (map_option (\<lambda>(rc, _, h1). (rc, h1)) (my_SQLAllocDesc d h)) (g_add_desc d g)"
proof -
  obtain x where x: "dbcs h d = Some x" "cl x = c" using live_in(2) [OF assms] by blast
  then show ?thesis using assms
    by (auto simp: my_SQLAllocDesc_def Let_def answers_def upd_dbc_def graph_of_def g_add_desc_def cl_def dl_def new_desc_def
        alloc_type_def num_of_def fun_eq_iff)
qed

lemma disconnect_refines:
  assumes "g_wf g" "graph_of h = g" "g_dbcs g d = Some c"
  shows "answers (SQLDisconnect d h) (g_free_stmts d g)"
proof -
  note f = free_connection_stmts_refines [OF assms]
  have "leads (upd_dbc d (\<lambda>c. c\<lparr>c_mysql := False, c_database := ''''\<rparr>) h1) (g_free_stmts d g)" if "graph_of h1 = g_free_stmts d g" for h1
    by (rule leads_in(3) [OF that]) (simp_all add: cl_def f(3))
  then show ?thesis unfolding SQLDisconnect_def by (intro answers_bind [OF f(1)] answers_return)
qed

lemma reset_connection_refines:
  assumes "g_wf g" "graph_of h = g" "g_dbcs g d = Some c"
  shows "answers (reset_connection_attr d h) (g_clear_descs d (g_free_stmts d g))"
proof -
  note f = free_connection_stmts_refines [OF assms]
  let ?g = "g_clear_descs d (g_free_stmts d g)"
  have "leads (free_explicit_descriptors d h1) ?g" if "graph_of h1 = g_free_stmts d g" for h1
    by (rule free_explicit_descriptors_refines [OF f(3,2) that refl refl])
  then have r: "leads (reset_connection d h) ?g" unfolding reset_connection_def by (rule leads_bind [OF f(1)])
  have "g_dbcs ?g d \<noteq> None" by (simp add: g_clear_descs_def Let_def)
  then have "leads (upd_dbc d (\<lambda>c. c\<lparr>c_need_to_wakeup := True\<rparr>) h1) ?g" if "graph_of h1 = ?g" for h1
    by (intro leads_in(3) [OF that]) (simp_all add: cl_def)
  then show ?thesis unfolding reset_connection_attr_def by (intro answers_bind [OF r] answers_return)
qed


lemma free_all_steps:
  assumes "g_wf g" "g_dbcs g d = Some c"
  shows "g_step\<^sup>*\<^sup>* g (g_free_stmts d g)"
  using assms
proof (induction "cl_stmts c" arbitrary: g c)
  case Nil
  then show ?case by (simp add: g_free_stmts_def)
next
  case (Cons s xs)
  note wf = g_wfD [OF Cons.prems(1)]
  have "distinct (s # xs)" using wf(2) Cons.prems(2) Cons.hyps(2) by (auto simp: shapes_wf_def dbc_shape_def)
  then have rem: "removeAll s (cl_stmts c) = xs" by (simp add: Cons.hyps(2) [symmetric] removeAll_id)
  have "sdbc_l g s d" using Cons.prems(2) by (auto simp: sdbc_l_def Cons.hyps(2) [symmetric])
  then obtain x where x: "g_stmts g s = Some x" "sl_dbc x = d" using links_wf_eqs(2) [OF wf(1)] by (auto simp: sdbc_def)
  have c2: "g_dbcs (g_del_stmt s g) d = Some (c\<lparr>cl_stmts := xs\<rparr>)"
    using g_dbcs_del_stmt [OF x(1)] Cons.prems(2) x(2) rem by simp
  have "g_free_stmts d (g_del_stmt s g) = g_free_stmts d g"
    using c2 Cons.prems(2) Cons.hyps(2) [symmetric] by (simp add: g_free_stmts_def)
  then have "g_step\<^sup>*\<^sup>* (g_del_stmt s g) (g_free_stmts d g)"
    using Cons.hyps(1) [OF _ g_del_stmt_wf [OF Cons.prems(1) x(1)] c2] by simp
  with del_stmt [OF x(1)] show ?case by (rule converse_rtranclp_into_rtranclp)
qed

lemma steps_to_many: "answers r g \<Longrightarrow> g_step\<^sup>*\<^sup>* (graph_of h) g \<Longrightarrow> steps_to r h"
  by (auto simp: answers_def steps_to_def)

text \<open>One call, in a well-linked heap.\<close>

lemma exec_refines:
  assumes "well_linked h" "legal cstr c h"
  shows "steps_to (exec drv cstr c h) h"
proof -
  let ?g = "graph_of h"
  have wf: "g_wf ?g" using assms(1) by (simp add: well_linked_def)
  show ?thesis
  proof (cases c)
    case AllocEnv
    have "answers (Some (case my_SQLAllocEnv h of (rc, _, h1) \<Rightarrow> (rc, h1))) (g_add_env ?g)"
      by (auto simp: answers_def my_SQLAllocEnv_def Let_def g_add_env_def graph_of_def fun_eq_iff)
    then show ?thesis using steps_toI [OF _ add_env] AllocEnv by (auto simp: exec_def split_beta)
  next
    case (FreeEnv e)
    then obtain x where x: "envs h e = Some x" "e_conns x = []" using assms(2) by (auto simp: legal_def split: option.splits)
    then have "answers (my_SQLFreeEnv e h) (?g\<lparr>g_envs := (g_envs ?g)(e := None)\<rparr>)"
      by (auto simp: answers_def my_SQLFreeEnv_def graph_of_def fun_eq_iff)
    then show ?thesis using x FreeEnv by (auto simp: exec_def intro!: steps_toI del_env)
  next
    case (SetEnvAttr e attribute v)
    then have e: "g_envs ?g e \<noteq> None" using assms(2) by (simp add: legal_def)
    have "answers (map_option (Pair rc) (upd_env e (\<lambda>x. x\<lparr>e_odbc_ver := v\<rparr>) h)) ?g" for rc
      by (rule answers_return [OF leads_in(4) [OF refl _ e]]) simp
    moreover have "answers (env_error drv e errid errtext errcode h) ?g" for errid errtext errcode
      by (rule error_leads [OF refl e])
    moreover obtain x where "envs h e = Some x" using e by auto
    ultimately show ?thesis using SetEnvAttr
      by (auto simp: exec_def SQLSetEnvAttr_def answers_def intro!: steps_stay)
  next
    case (AllocConnect old e)
    then obtain l where e: "g_envs ?g e = Some l" using assms(2) by (auto simp: legal_def)
    show ?thesis using alloc_connect_refines [OF refl e, of drv old] AllocConnect
      by (auto simp: exec_def intro: steps_toI steps_stay add_dbc [OF e])
  next
    case (FreeConnect d)
    then obtain x where x: "dbcs h d = Some x" "c_stmts x = []" using assms(2) by (auto simp: legal_def split: option.splits)
    then have d: "g_dbcs ?g d = Some (cl x)" "cl_stmts (cl x) = []" by simp_all
    show ?thesis using free_connect_refines [OF wf refl d(1)] FreeConnect by (auto simp: exec_def intro: steps_toI del_dbc [OF d])
  next
    case (Disconnect d)
    then obtain c0 where d: "g_dbcs ?g d = Some c0" using assms(2) by (auto simp: legal_def)
    show ?thesis using disconnect_refines [OF wf refl d] free_all_steps [OF wf d] Disconnect
      by (auto simp: exec_def intro: steps_to_many)
  next
    case (ResetConnection d)
    then obtain c0 where d: "g_dbcs ?g d = Some c0" using assms(2) by (auto simp: legal_def)
    have "g_step (g_free_stmts d ?g) (g_clear_descs d (g_free_stmts d ?g))"
      using free_connection_stmts_refines(3) [OF wf refl d] by (auto intro: clear)
    then have "g_step\<^sup>*\<^sup>* ?g (g_clear_descs d (g_free_stmts d ?g))"
      using free_all_steps [OF wf d] by (meson rtranclp.rtrancl_into_rtrancl)
    then show ?thesis using reset_connection_refines [OF wf refl d] ResetConnection
      by (auto simp: exec_def intro: steps_to_many)
  next
    case (AllocStmt ok d)
    then obtain c0 where d: "g_dbcs ?g d = Some c0" using assms(2) by (auto simp: legal_def)
    show ?thesis using alloc_stmt_refines [OF refl d, of ok] AllocStmt
      by (auto simp: exec_def intro: steps_toI steps_stay add_stmt [OF d])
  next
    case (FreeStmt s f_option)
    then obtain x where s: "g_stmts ?g s = Some x" using assms(2) by (auto simp: legal_def)
    show ?thesis using free_stmt_refines [OF usable_wf [OF wf s] refl, of f_option True] FreeStmt
      by (cases "drops f_option") (auto simp: exec_def my_SQLFreeStmt_def intro: steps_toI steps_stay del_stmt [OF s])
  next
    case (AllocDesc d)
    then obtain c0 where d: "g_dbcs ?g d = Some c0" using assms(2) by (auto simp: legal_def)
    show ?thesis using alloc_desc_refines [OF refl d] AllocDesc by (auto simp: exec_def intro: steps_toI add_desc [OF d])
  next
    case (FreeDesc a)
    then obtain y where a: "g_descs ?g a = Some y" using assms(2) by (auto simp: legal_def)
    have "g_step ?g (g_free_desc a ?g)" if "a = Expl n" for n using a free_desc that by blast
    then show ?thesis using free_desc_refines [OF wf refl a, of drv] FreeDesc
      by (cases a) (auto simp: exec_def intro: steps_toI steps_stay)
  next
    case (SetAppDesc param s desc)
    obtain st where s: "stmts h s = Some st" using assms(2) SetAppDesc by (auto simp: legal_def split: option.splits)
    have "g_stmts ?g s = Some (sl st)" using s by simp
    moreover have "g_descs ?g a \<noteq> None" if "desc = Some a" for a
      using assms(2) SetAppDesc s that by (auto simp: legal_def split: option.splits)
    moreover have "\<exists>s' k. app_of param (sl st) = Own s' k"
      if d: "desc = Some a" "g_descs ?g a = Some y" "\<not> accepts param s (sl st) y" for a y
    proof -
      obtain z where z: "descs h a = Some z" "dl z = y" using d(2) by auto
      then have "app_desc_refused param s (s_dbc st) z \<noteq> None" using d(3) refused_accepts [of param s "sl st" z] by simp
      then show ?thesis using assms(2) SetAppDesc s d(1) z(1)
        by (auto simp: legal_def app_of_sl split: option.splits daddr.splits)
    qed
    ultimately show ?thesis using set_app_desc_refines [OF wf refl, of s "sl st" desc param] SetAppDesc by (simp add: exec_def)
  next
    case (SetDescField a recnum fldid val buflen)
    then obtain y where y: "descs h a = Some y" "store_defined cstr (view h y) recnum fldid val buflen"
      using assms(2) by (auto simp: legal_def split: option.splits)
    show ?thesis using set_field_refines [OF wf refl y] SetDescField by (simp add: exec_def steps_stay)
  qed
qed

lemma steps_wf: "g_step\<^sup>*\<^sup>* g g' \<Longrightarrow> g_wf g \<Longrightarrow> g_wf g'"
  by (induction rule: rtranclp_induct) (auto intro: g_step_wf)

interpretation handles: safe_machine "exec drv cstr" "legal cstr" well_linked for drv cstr
proof
  fix drv cstr h c
  assume h: "well_linked h" "legal cstr c h"
  from exec_refines [OF this, of drv] obtain rc h' where "exec drv cstr c h = Some (rc, h')" "g_step\<^sup>*\<^sup>* (graph_of h) (graph_of h')"
    by (auto simp: steps_to_def)
  then show "\<exists>r s'. exec drv cstr c h = Some (r, s') \<and> well_linked s'"
    using h(1) by (auto simp: well_linked_def intro: steps_wf)
qed

lemma initial_well_linked: "well_linked initial_heap"
  by (simp add: well_linked_def g_wf_def links_wf_def shapes_wf_def own_wf_def fresh_wf_def graph_of_def initial_heap_def
      rels)

end
