(* ===== verification/Handle_Props.thy ===== *)
theory Handle_Props
  imports Handle_Safety
begin

text \<open>
  What the handles of the driver guarantee an application, and the one sequence of calls the
  driver answers by following a pointer to a freed descriptor.
\<close>

section \<open>Sequences of calls\<close>

text \<open>A statement that uses an allocated descriptor for its parameters.\<close>

abbreviation drv0 :: string where "drv0 \<equiv> ''3.51.28''"
abbreviation cstr0 :: "u64 \<Rightarrow> string option" where "cstr0 \<equiv> \<lambda>_. None"

definition session :: "call list" where
  "session = [AllocEnv, AllocConnect None 1, AllocStmt True 2, AllocDesc 2, SetAppDesc True 3 (Some (Expl 4))]"

definition session_heap :: heap where
  "session_heap = snd (the (run (exec drv0 cstr0) session initial_heap))"

lemma session_legal: "all_legal (exec drv0 cstr0) (legal cstr0) session initial_heap"
  by code_simp

lemma session_values:
  "(case run (exec drv0 cstr0) session initial_heap of
      None \<Rightarrow> False
    | Some (rcs, h) \<Rightarrow> rcs = [0, 0, 0, 0, 0] \<and>
        map_option (\<lambda>c. (c_stmts c, c_descs c)) (dbcs h 2) = Some ([3], [Expl 4]) \<and>
        map_option (\<lambda>x. (s_dbc x, app_ptr True x, app_ptr False x)) (stmts h 3) = Some (2, Expl 4, Own 3 Own_ARD) \<and>
        map_option hd_stmts (descs h (Expl 4)) = Some [3] \<and>
        map_option (\<lambda>y. app_desc_refused True 3 2 y = None) (descs h (Own 3 Own_ARD)) = Some False)"
  by code_simp

lemma session_run:
  "run (exec drv0 cstr0) session initial_heap = Some ([0, 0, 0, 0, 0], session_heap)" "well_linked session_heap"
proof -
  obtain rcs h where "run (exec drv0 cstr0) session initial_heap = Some (rcs, h)" "well_linked h"
    using handles.run_safe [OF initial_well_linked session_legal] by blast
  then show "run (exec drv0 cstr0) session initial_heap = Some ([0, 0, 0, 0, 0], session_heap)" "well_linked session_heap"
    using session_values by (simp_all add: session_heap_def)
qed

lemma session_objects:
  obtains c x y z where "dbcs session_heap 2 = Some c" "c_stmts c = [3]" "c_descs c = [Expl 4]"
    "stmts session_heap 3 = Some x" "s_dbc x = 2" "app_ptr True x = Expl 4" "app_ptr False x = Own 3 Own_ARD"
    "descs session_heap (Expl 4) = Some y" "hd_stmts y = [3]"
    "descs session_heap (Own 3 Own_ARD) = Some z" "app_desc_refused True 3 2 z \<noteq> None"
proof -
  have "map_option (\<lambda>c. (c_stmts c, c_descs c)) (dbcs session_heap 2) = Some ([3], [Expl 4])"
      "map_option (\<lambda>x. (s_dbc x, app_ptr True x, app_ptr False x)) (stmts session_heap 3) = Some (2, Expl 4, Own 3 Own_ARD)"
      "map_option hd_stmts (descs session_heap (Expl 4)) = Some [3]"
      "map_option (\<lambda>y. app_desc_refused True 3 2 y = None) (descs session_heap (Own 3 Own_ARD)) = Some False"
    using session_values session_run(1) by simp_all
  then show ?thesis using that by (auto simp del: not_None_eq)
qed

text \<open>C3: no sequence of allocations, releases, attribute changes, disconnections and descriptor stores
  from the start of the driver, all of them legal, makes it follow a pointer to a freed
  environment, connection, statement or descriptor, or free one twice: every call returns. The
  legal calls are these. Handles are live, an environment is freed without connections and a
  connection without statements, which the driver manager sees to. An application descriptor that would be refused is not
  assigned to a statement that uses an allocated one (\<open>refused_descriptor_dangles\<close> is that call). A store into a
  descriptor has arguments that the code is defined for (\<open>store_defined\<close>): an allocated descriptor, which has no
  statement to report an error to, gets only stores that are not refused; the record number is positive, or any where the
  statement has bookmarks off, or 0 with variable bookmarks; a record count is positive, unless the descriptor has a statement; the
  length \<open>SQL_NTS\<close> goes with a field that is a string, a pointer or a length; a name is a C string, stored into a descriptor whose
  parameter buffers are well formed; and a descriptor that counts bookmark records has one.\<close>

theorem calls_are_safe:
  assumes "all_legal (exec drv cstr) (legal cstr) cs initial_heap"
  shows "\<exists>rcs h. run (exec drv cstr) cs initial_heap = Some (rcs, h) \<and> length rcs = length cs"
  using handles.run_safe [OF initial_well_linked assms] by blast

text \<open>The session, then stores into its descriptors: one is taken, one is refused by a statement's own descriptor.\<close>

definition session_stores :: "call list" where
  "session_stores = session @ [SetDescField (Expl 4) 2 SQL_DESC_PRECISION 7 0, SetDescField (Own 3 Own_ARD) 1 SQL_DESC_ALLOC_TYPE 1 0]"

lemma session_stores_legal: "all_legal (exec drv0 cstr0) (legal cstr0) session_stores initial_heap"
  by code_simp

theorem calls_are_safe_witness:
  "\<exists>rcs h. run (exec drv0 cstr0) session_stores initial_heap = Some (rcs, h) \<and> length rcs = length session_stores"
  by (rule calls_are_safe [OF session_stores_legal])

text \<open>C4: after a run of legal calls, each legal call refines the graph of links between handles: whatever it does besides, what it
  does to the links is a sequence of the steps of the specification, all of which keep the
  graph well formed. The legal calls are those of \<open>legal\<close>; the assignment of a refused descriptor over an allocated one
  (\<open>refused_descriptor_dangles\<close>) is not among them, and breaks the graph.\<close>

theorem calls_refine_graph:
  assumes "all_legal (exec drv cstr) (legal cstr) cs initial_heap" "run (exec drv cstr) cs initial_heap = Some (rcs, h)"
    "legal cstr c h"
  shows "\<exists>rc h'. exec drv cstr c h = Some (rc, h') \<and> g_step\<^sup>*\<^sup>* (graph_of h) (graph_of h') \<and> g_wf (graph_of h')"
proof -
  have h: "well_linked h" using handles.run_safe [OF initial_well_linked assms(1)] assms(2) by auto
  from exec_refines [OF this assms(3), of drv] show ?thesis
    using h by (auto simp: steps_to_def well_linked_def intro: steps_wf)
qed

theorem calls_refine_graph_witness:
  "\<exists>rc h'. exec drv0 cstr0 (FreeStmt 3 SQL_DROP) session_heap = Some (rc, h') \<and>
    g_step\<^sup>*\<^sup>* (graph_of session_heap) (graph_of h') \<and> g_wf (graph_of h')"
proof -
  obtain x where "stmts session_heap 3 = Some x" using session_objects by blast
  then show ?thesis by (intro calls_refine_graph [OF session_legal session_run(1)]) (simp add: legal_def)
qed

lemma stmt_pointers:
  assumes "g_wf g" "g_stmts g s = Some x"
  shows "\<exists>c. g_dbcs g (sl_dbc x) = Some c \<and> s \<in> set (cl_stmts c)"
    "\<exists>y. g_descs g (app_of param x) = Some y \<and>
       (case app_of param x of Own s' k \<Rightarrow> s' = s | Expl n \<Rightarrow> s \<in> set (dl_stmts y) \<and> dl_dbc y = Some (sl_dbc x))"
proof -
  note wf = g_wfD [OF assms(1)]
  have d: "sdbc g s (sl_dbc x)" using assms(2) by (simp add: sdbc_def)
  then show "\<exists>c. g_dbcs g (sl_dbc x) = Some c \<and> s \<in> set (cl_stmts c)"
    using links_wf_eqs(2) [OF wf(1)] by (auto simp: sdbc_l_def)
  show "\<exists>y. g_descs g (app_of param x) = Some y \<and>
       (case app_of param x of Own s' k \<Rightarrow> s' = s | Expl n \<Rightarrow> s \<in> set (dl_stmts y) \<and> dl_dbc y = Some (sl_dbc x))"
  proof (cases "app_of param x")
    case (Own s' k)
    then have "s' = s" using wf(2) assms(2) by (auto simp: shapes_wf_def own_ptr_def)
    moreover have "g_descs g (Own s k) \<noteq> None" using wf(3) assms(2) by (simp add: own_wf_def)
    ultimately show ?thesis using Own by auto
  next
    case (Expl n)
    then have u: "uses g s param n" using assms(2) by (simp add: uses_def)
    then have "uses_l g s param n" "ddbc g n (sl_dbc x)" using wf(1) d unfolding links_wf_def by blast+
    then show ?thesis using Expl by (auto simp: uses_l_def ddbc_def)
  qed
qed

text \<open>C5: in every heap that a run of legal calls reaches, the connection of a live statement is live and lists it, and
  the application descriptors it uses are live: its own, or an allocated one of the same
  connection that lists the statement. The legal calls are those of \<open>legal\<close>; after the assignment of a refused descriptor
  over an allocated one, which is not among them, this is false (\<open>refused_descriptor_dangles\<close>).\<close>

theorem statement_pointers_live:
  assumes "all_legal (exec drv cstr) (legal cstr) cs initial_heap" "run (exec drv cstr) cs initial_heap = Some (rcs, h)"
    "stmts h s = Some x"
  shows "(\<exists>c. dbcs h (s_dbc x) = Some c \<and> s \<in> set (c_stmts c)) \<and>
    (\<exists>y. descs h (app_ptr param x) = Some y \<and>
      (case app_ptr param x of
         Own s' k \<Rightarrow> s' = s
       | Expl n \<Rightarrow> s \<in> set (hd_stmts y) \<and> hd_dbc y = Some (s_dbc x)))"
proof -
  have wf: "g_wf (graph_of h)" using handles.run_safe [OF initial_well_linked assms(1)] assms(2) by (auto simp: well_linked_def)
  have x: "g_stmts (graph_of h) s = Some (sl x)" using assms(3) by simp
  obtain c where "dbcs h (s_dbc x) = Some c" "s \<in> set (c_stmts c)" using stmt_pointers(1) [OF wf x] by auto
  moreover obtain y where "descs h (app_ptr param x) = Some y"
      "case app_ptr param x of Own s' k \<Rightarrow> s' = s | Expl n \<Rightarrow> s \<in> set (hd_stmts y) \<and> hd_dbc y = Some (s_dbc x)"
  proof -
    obtain z where "g_descs (graph_of h) (app_ptr param x) = Some z"
        "case app_ptr param x of Own s' k \<Rightarrow> s' = s | Expl n \<Rightarrow> s \<in> set (dl_stmts z) \<and> dl_dbc z = Some (s_dbc x)"
      using stmt_pointers(2) [OF wf x, of param] unfolding app_of_sl link_simps by blast
    moreover from this(1) obtain y where "descs h (app_ptr param x) = Some y" "z = dl y" by auto
    ultimately show ?thesis using that [of y] by (auto split: daddr.splits)
  qed
  ultimately show ?thesis by blast
qed

theorem statement_pointers_live_witness:
  "\<exists>x y. stmts session_heap 3 = Some x \<and> descs session_heap (app_ptr True x) = Some y \<and> 3 \<in> set (hd_stmts y) \<and>
     hd_dbc y = Some 2"
proof -
  obtain x where x: "stmts session_heap 3 = Some x" "s_dbc x = 2" "app_ptr True x = Expl 4" using session_objects by metis
  from statement_pointers_live [OF session_legal session_run(1) x(1), of True] show ?thesis using x by auto
qed

section \<open>Freeing handles\<close>

text \<open>C6: in a well linked heap, which every run of legal calls leaves (\<open>well_linked\<close>: the links between handles
  agree with each other; a heap in which a statement points to a freed descriptor is none), disconnecting a live connection
  succeeds, frees every statement of the connection, whatever descriptors they used, keeps the descriptors the application
  allocated on it, and leaves a well linked heap.\<close>

theorem disconnect_frees_statements:
  assumes "well_linked h" "dbcs h d = Some c"
  shows "\<exists>h'. SQLDisconnect d h = Some (SQL_SUCCESS, h') \<and> well_linked h' \<and>
    (\<forall>s x. stmts h' s = Some x \<longrightarrow> s_dbc x \<noteq> d) \<and> (\<exists>c'. dbcs h' d = Some c' \<and> c_stmts c' = [] \<and> c_descs c' = c_descs c)"
proof -
  let ?g = "graph_of h"
  have wf: "g_wf ?g" using assms(1) by (simp add: well_linked_def)
  have d: "g_dbcs ?g d = Some (cl c)" using assms(2) by simp
  obtain rc h' where h': "SQLDisconnect d h = Some (rc, h')" "graph_of h' = g_free_stmts d ?g"
    using disconnect_refines [OF wf refl d] by (auto simp: answers_def)
  have rc: "rc = SQL_SUCCESS" using h'(1) by (auto simp: SQLDisconnect_def split: Option.bind_splits)
  note f = free_connection_stmts_refines(2,3) [OF wf refl d]
  obtain c' where c': "dbcs h' d = Some c'" "cl c' = (cl c)\<lparr>cl_stmts := []\<rparr>" using f(2) h'(2) [symmetric] by auto
  then have l: "c_stmts c' = []" "c_descs c' = c_descs c" using link_simps(2,3) [of c'] by simp_all
  have "s_dbc x \<noteq> d" if "stmts h' s = Some x" for s x
  proof
    assume "s_dbc x = d"
    then have "sdbc (graph_of h') s d" using that by (simp add: sdbc_def)
    then have "sdbc_l (graph_of h') s d" using links_wf_eqs(2) [OF g_wfD(1) [OF f(1)]] h'(2) by simp
    then show False using c'(1) l(1) by (simp add: sdbc_l_def)
  qed
  then show ?thesis using h' rc f(1) c'(1) l by (auto simp: well_linked_def)
qed

theorem disconnect_frees_statements_witness:
  "\<exists>h' c. SQLDisconnect 2 session_heap = Some (SQL_SUCCESS, h') \<and> dbcs h' 2 = Some c \<and> c_stmts c = [] \<and>
     c_descs c = [Expl 4]"
proof -
  obtain c where c: "dbcs session_heap 2 = Some c" "c_descs c = [Expl 4]" using session_objects by metis
  from disconnect_frees_statements [OF session_run(2) c(1)] show ?thesis using c(2) by auto
qed

text \<open>C7: in a well linked heap (\<open>well_linked\<close>, as every run of legal calls leaves it), freeing an allocated descriptor
  succeeds and returns exactly the statements that used it, for rows
  or for parameters, to the descriptors of their own; the heap stays well linked.\<close>

theorem free_desc_returns_statements:
  assumes "well_linked h" "descs h (Expl n) = Some y"
  shows "\<exists>h'. my_SQLFreeDesc drv (Expl n) h = Some (SQL_SUCCESS, h') \<and> well_linked h' \<and> descs h' (Expl n) = None \<and>
    (\<forall>s x. stmts h s = Some x \<longrightarrow> (\<exists>x'. stmts h' s = Some x' \<and> s_dbc x' = s_dbc x \<and>
       app_ptr param x' = (if app_ptr param x = Expl n then Own s (if param then Own_APD else Own_ARD) else app_ptr param x)))"
proof -
  let ?g = "graph_of h" and ?g' = "g_free_desc (Expl n) (graph_of h)"
  have wf: "g_wf ?g" using assms(1) by (simp add: well_linked_def)
  have y: "g_descs ?g (Expl n) = Some (dl y)" using assms(2) by simp
  obtain rc h' where h': "my_SQLFreeDesc drv (Expl n) h = Some (rc, h')" "graph_of h' = ?g'"
    using free_desc_refines [OF wf refl y, of drv] by (auto simp: answers_def)
  have sh: "desc_shape (dl y)" using g_wfD(2) [OF wf] y by (simp add: shapes_wf_def)
  then have rc: "rc = SQL_SUCCESS"
    using h'(1) assms(2) by (auto simp: my_SQLFreeDesc_def desc_shape_def split: Option.bind_splits)
  have wf': "g_wf ?g'" by (rule g_free_desc_wf [OF wf y])
  have gone: "descs h' (Expl n) = None" using arg_cong [OF h'(2), of "\<lambda>g. g_descs g (Expl n)"] by (simp add: g_free_desc_def Let_def)
  have "\<exists>x'. stmts h' s = Some x' \<and> s_dbc x' = s_dbc x \<and>
       app_ptr param x' = (if app_ptr param x = Expl n then Own s (if param then Own_APD else Own_ARD) else app_ptr param x)"
    if x: "stmts h s = Some x" for s x
  proof -
    have "app_ptr param x = Expl n \<longleftrightarrow> s \<in> set (hd_stmts y) \<and> desc_type (hd_content y) = app_type param"
      using links_wf_eqs(4) [OF g_wfD(1) [OF wf], of s param n] x assms(2) by (auto simp: uses_def uses_l_def app_of_sl)
    moreover have "desc_type (hd_content y) = app_type (desc_type (hd_content y) = DESC_PARAM)" if "s \<in> set (hd_stmts y)"
      using sh that by (cases "desc_type (hd_content y)") (auto simp: desc_shape_def app_type_def)
    moreover define q where "q = (desc_type (hd_content y) = DESC_PARAM)"
    moreover obtain x' where x': "stmts h' s = Some x'"
        "sl x' = (if s \<in> set (hd_stmts y) then set_app q (own_app q s) (sl x) else sl x)"
      using arg_cong [OF h'(2), of "\<lambda>g. g_stmts g s"] x assms(2) by (auto simp: g_free_desc_def Let_def q_def split: if_splits)
    moreover from this(2) have "app_ptr param x' = (if s \<in> set (hd_stmts y) \<and> param = q then own_app param s else app_ptr param x)"
      unfolding app_of_sl [symmetric] by (auto split: if_splits)
    moreover have "s_dbc x' = s_dbc x" using arg_cong [OF x'(2), of sl_dbc] by (auto split: if_splits)
    ultimately show ?thesis by (auto simp: own_app_def)
  qed
  then show ?thesis using h' rc wf' gone by (auto simp: well_linked_def)
qed


theorem free_desc_returns_statements_witness:
  "\<exists>h' x. my_SQLFreeDesc drv0 (Expl 4) session_heap = Some (SQL_SUCCESS, h') \<and> descs h' (Expl 4) = None \<and>
     stmts h' 3 = Some x \<and> app_ptr True x = Own 3 Own_APD"
proof -
  obtain x y where x: "stmts session_heap 3 = Some x" "app_ptr True x = Expl 4" and y: "descs session_heap (Expl 4) = Some y"
    using session_objects by metis
  obtain h' where h': "my_SQLFreeDesc drv0 (Expl 4) session_heap = Some (SQL_SUCCESS, h')" "descs h' (Expl 4) = None"
      "\<exists>x'. stmts h' 3 = Some x' \<and> app_ptr True x' = Own 3 Own_APD"
    using free_desc_returns_statements [OF session_run(2) y, of drv0 True] x by (metis (full_types))
  then show ?thesis by blast
qed

section \<open>A descriptor that is refused\<close>

text \<open>
  A refused descriptor has already taken the statement off the list of the one it keeps, which
  can then be freed under it.
\<close>

lemma refused_answers:
  assumes "g_wf g" "graph_of h = g" "g_stmts g s = Some x" "g_descs g a = Some y" "\<not> accepts param s x y"
  shows "answers (set_app_desc param s (Some a) h) (g_unlist s (app_of param x) g)"
proof -
  have us: "usable g s" by (rule usable_wf [OF assms(1,3)])
  let ?clear = "\<lambda>x. x\<lparr>s_error := myerror_clear (s_error x)\<rparr>" and ?g1 = "g_unlist s (app_of param x) g"
  obtain h0 where h0: "upd_stmt s ?clear h = Some h0" "graph_of h0 = g"
    using leads_in(2) [OF assms(2), of ?clear s] assms(3) unfolding leads_def by (auto simp: sl_def)
  obtain st where st: "stmts h0 s = Some st" "sl st = x" using h0(2) assms(3) by auto
  have cur: "app_of param x = app_ptr param st" using st(2) app_of_sl by blast
  have "g_descs g (app_ptr param st) \<noteq> None"
    using us assms(3) unfolding cur [symmetric] by (auto simp: usable_def app_of_def)
  then obtain h1 where h1: "upd_desc (app_ptr param st) (stmt_list_remove s) h0 = Some h1" "graph_of h1 = ?g1"
    using leads_unlist [of h0 "app_ptr param st" s] h0(2) unfolding leads_def cur by auto
  have "g_descs ?g1 a = Some (if a = app_of param x then unlist s y else y)" using assms(4) by (auto simp add: g_unlist_descs)
  then obtain z where z: "descs h1 a = Some z" "dl z = (if a = app_of param x then unlist s y else y)"
    using live_in(4) [OF h1(2)] by blast
  have "\<not> accepts param s x (dl z)" using assms(5) by (simp add: z(2))
  moreover have "sl_dbc x = s_dbc st" using st(2) by auto
  ultimately obtain errid msg where r: "app_desc_refused param s (s_dbc st) z = Some (errid, msg)"
    using refused_accepts [of param s x z] by auto
  have "g_descs ?g1 a' = None \<longleftrightarrow> g_descs g a' = None" for a' by (simp add: g_unlist_descs)
  then have "usable ?g1 s" using us by (simp add: usable_def)
  from stmt_error_answers [OF h1(2) this, of errid "Some msg" 0] show ?thesis
    using h0(1) st(1) h1(1) z(1) r by (simp add: set_app_desc_def)
qed

lemma upd_content_graph: "keeps_kind f \<Longrightarrow> upd_content a f h = Some h1 \<Longrightarrow> graph_of h1 = graph_of h"
  using leads_content [of f h a] by (cases "descs h a") (auto simp: upd_content_def upd_desc_def)

lemma upd_stmt_graph: "(\<And>x. sl (f x) = sl x) \<Longrightarrow> upd_stmt s f h = Some h1 \<Longrightarrow> graph_of h1 = graph_of h"
  using leads_stmt [of f h s] by (cases "stmts h s") (auto simp: upd_stmt_def)

lemma dead_app_desc:
  assumes "g_stmts (graph_of h) s = Some x" "g_descs (graph_of h) (app_of param x) = None"
  shows "my_SQLFreeStmt s SQL_DROP h = None"
proof (rule ccontr)
  assume run: "my_SQLFreeStmt s SQL_DROP h \<noteq> None"
  obtain st where st: "stmts h s = Some st" using assms(1) by auto
  obtain h0 h1 h2 h3 h4 h5 where
      c: "upd_content (s_apd st) free_paramdata h = Some h0" "upd_stmt s stmt_reset_out_params h0 = Some h1"
        "upd_stmt s stmt_close_results h1 = Some h2" "upd_content (Own s Own_IRD) desc_reset h2 = Some h3"
        "upd_stmt s stmt_close_cursor h3 = Some h4" "upd_stmt s (stmt_reset_query True) h4 = Some h5"
        "reset_pointers s h5 \<noteq> None"
    using run st(1) by (auto simp: my_SQLFreeStmt_def my_SQLFreeStmtExtended_def free_opts split: Option.bind_splits)
  note keep = upd_content_graph [OF _ c(1)] upd_content_graph [OF _ c(4)] upd_stmt_graph [OF _ c(2)] upd_stmt_graph [OF _ c(3)]
    upd_stmt_graph [OF _ c(5)] upd_stmt_graph [OF _ c(6)]
  have g5: "graph_of h5 = graph_of h" by (simp add: keep keeps)
  obtain st5 where st5: "stmts h5 s = Some st5" "sl st5 = x" using assms(1) g5 live_in(3) [OF g5] by blast
  obtain h6 where h6: "upd_content (s_apd st5) (clear_hdr F_rows_processed_ptr) h5 = Some h6"
      "upd_content (s_ard st5) (clear_hdr F_rows_processed_ptr) h6 \<noteq> None"
    using c(7) st5(1) by (auto simp: reset_pointers_def split: Option.bind_splits)
  then have "graph_of h6 = graph_of h" using upd_content_graph [OF _ h6(1)] g5 by (simp add: keeps)
  moreover have "descs h5 (s_apd st5) \<noteq> None" "descs h6 (s_ard st5) \<noteq> None"
    using h6 by (auto simp: upd_content_def upd_desc_def)
  ultimately have "g_descs (graph_of h) (s_apd st5) \<noteq> None" "g_descs (graph_of h) (s_ard st5) \<noteq> None"
    unfolding g5 [symmetric] by (metis graph_of_simps(4) option.map_disc_iff)+
  moreover have "app_of param x = (if param then s_apd st5 else s_ard st5)" using st5(2) by (auto simp: app_of_def)
  ultimately show False using assms(2) by (simp split: if_splits)
qed

lemma free_desc_rc: "descs h (Expl n) = Some y \<Longrightarrow> alloc_type y = SQL_DESC_ALLOC_USER \<Longrightarrow>
    my_SQLFreeDesc drv (Expl n) h = Some (rc, h') \<Longrightarrow> rc = SQL_SUCCESS"
  by (auto simp: my_SQLFreeDesc_def split: Option.bind_splits)

text \<open>C8: a refused application descriptor is not harmless. The statement keeps the descriptor it used but is
  no longer on its list, so that the application can free that descriptor without the
  statement returning to its own, and dropping the statement then follows a dangling pointer.\<close>

theorem refused_descriptor_dangles:
  assumes "well_linked h" "stmts h s = Some st" "app_ptr param st = Expl n"
    "descs h a = Some y" "app_desc_refused param s (s_dbc st) y \<noteq> None"
  shows "\<exists>rc h1 h2. set_app_desc param s (Some a) h = Some (rc, h1) \<and>
    my_SQLFreeDesc drv (Expl n) h1 = Some (SQL_SUCCESS, h2) \<and> my_SQLFreeStmt s SQL_DROP h2 = None"
proof -
  let ?g = "graph_of h" and ?g1 = "g_unlist s (Expl n) (graph_of h)"
  have wf: "g_wf ?g" using assms(1) by (simp add: well_linked_def)
  have x: "g_stmts ?g s = Some (sl st)" and cur: "app_of param (sl st) = Expl n" using assms(2,3) by (simp_all add: app_of_sl)
  have "\<not> accepts param s (sl st) (dl y)" using assms(5) refused_accepts [of param s "sl st" y] by (simp del: not_None_eq)
  then obtain rc h1 where h1: "set_app_desc param s (Some a) h = Some (rc, h1)" "graph_of h1 = ?g1"
    using refused_answers [OF wf refl x, of a "dl y" param] assms(4) cur by (auto simp: answers_def)
  obtain z where z: "g_descs ?g (Expl n) = Some z" "s \<in> set (dl_stmts z)" "dl_dbc z = Some (s_dbc st)" "dl_type z = app_type param"
  proof -
    have "uses ?g s param n" unfolding uses_def using x cur by blast
    then have "uses_l ?g s param n" using links_wf_eqs(4) [OF g_wfD(1) [OF wf]] by blast
    then show ?thesis using that stmt_pointers(2) [OF wf x, of param] cur by (auto simp: uses_l_def)
  qed
  have sh: "desc_shape z" using g_wfD(2) [OF wf] z(1) by (simp add: shapes_wf_def)
  then have us: "dl_alloc z = SQL_DESC_ALLOC_USER" by (simp add: desc_shape_def)
  obtain c where c: "g_dbcs ?g (s_dbc st) = Some c" using links_dbc_of [OF g_wfD(1) [OF wf] x] by auto
  have live: "g_stmts ?g s' \<noteq> None" if "s' \<in> set (dl_stmts z)" for s'
    using links_wf_eqs(4) [OF g_wfD(1) [OF wf], of s' param n] z(1,4) that by (auto simp: uses_l_def uses_def)
  have z1: "g_descs ?g1 (Expl n) = Some (unlist s z)" unfolding g_unlist_descs z(1) by simp
  have un: "dl_stmts (unlist s z) = removeAll s (dl_stmts z)" using us by (simp add: unlist_def)
  have "desc_shape (unlist s z)" using sh by (auto simp: desc_shape_def un)
  then have "answers (my_SQLFreeDesc drv (Expl n) h1) (g_free_desc (Expl n) ?g1)"
    using free_expl_refines [OF h1(2) z1, of "s_dbc st" c drv] z(3) c live by (simp add: un)
  then obtain rc2 h2 where h2: "my_SQLFreeDesc drv (Expl n) h1 = Some (rc2, h2)" "graph_of h2 = g_free_desc (Expl n) ?g1"
    by (auto simp: answers_def)
  obtain y1 where "descs h1 (Expl n) = Some y1" "dl y1 = unlist s z" using live_in(4) [OF h1(2) z1] by blast
  then have "rc2 = SQL_SUCCESS" using free_desc_rc [OF _ _ h2(1)] us link_simps(12) [of y1] by simp
  moreover have "g_stmts (graph_of h2) s = Some (sl st)" "g_descs (graph_of h2) (Expl n) = None"
    unfolding h2(2) using x z1 by (simp_all add: g_free_desc_def Let_def un)
  then have "my_SQLFreeStmt s SQL_DROP h2 = None" using dead_app_desc [of h2 s "sl st" param] cur by simp
  ultimately show ?thesis using h1(1) h2(1) by blast
qed

theorem refused_descriptor_dangles_witness:
  "\<exists>rc h1 h2. set_app_desc True 3 (Some (Own 3 Own_ARD)) session_heap = Some (rc, h1) \<and>
    my_SQLFreeDesc drv0 (Expl 4) h1 = Some (SQL_SUCCESS, h2) \<and> my_SQLFreeStmt 3 SQL_DROP h2 = None"
proof -
  obtain x z where x: "stmts session_heap 3 = Some x" "s_dbc x = 2" "app_ptr True x = Expl 4"
      and z: "descs session_heap (Own 3 Own_ARD) = Some z" "app_desc_refused True 3 2 z \<noteq> None"
    using session_objects by metis
  show ?thesis by (rule refused_descriptor_dangles [OF session_run(2) x(1,3) z(1)]) (simp only: x(2) z(2) not_False_eq_True)
qed

end
