(* ===== verification/Numeric.thy ===== *)
theory Numeric
  imports Prelude
begin

unbundle bit_operations_syntax

text \<open>
  \<^verbatim>\<open>driver/utility.cc\<close>: \<open>SQL_NUMERIC_STRUCT\<close> from a decimal string and back. The value is built
  in eight limbs of 16 bits, each in a 32 bit integer that leaves room for a digit's carry.
\<close>

section \<open>Limbs\<close>

type_synonym limbs = "u32 list"

text \<open>\<open>sqlnum_scale\<close>, least significant limb first; \<open>s\<close> counts the factors.\<close>

fun sqlnum_scale :: "limbs \<Rightarrow> nat \<Rightarrow> limbs" where
  "sqlnum_scale ary 0 = ary"
| "sqlnum_scale ary (Suc s) = sqlnum_scale (map (\<lambda>x. x * 10) ary) s"

definition sqlnum_unscale_le :: "limbs \<Rightarrow> limbs" where
  "sqlnum_unscale_le ary =
     fold (\<lambda>i a. (a[i - 1 := a ! (i - 1) + push_bit 16 (a ! i mod 10)])[i := a ! i div 10]) [7, 6, 5, 4, 3, 2, 1] ary"

text \<open>Most significant limb first, from a start.\<close>

definition sqlnum_unscale_be :: "limbs \<Rightarrow> nat \<Rightarrow> limbs" where
  "sqlnum_unscale_be ary start =
     fold (\<lambda>i a. (a[i + 1 := a ! (i + 1) + push_bit 16 (a ! i mod 10)])[i := a ! i div 10]) [start ..< 7] ary"

definition sqlnum_carry :: "limbs \<Rightarrow> limbs" where
  "sqlnum_carry ary =
     fold (\<lambda>i a. (a[i + 1 := a ! (i + 1) + drop_bit 16 (a ! i)])[i := a ! i AND 0xffff]) [0 ..< 7] ary"

section \<open>From a string\<close>

text \<open>
  \<open>strtoul\<close> in base 10 on a short string: white space, a sign, digits; what follows is ignored.
\<close>

fun digits_value :: "nat \<Rightarrow> string \<Rightarrow> nat" where
  "digits_value n [] = n"
| "digits_value n (c # cs) = (if isdigit_c c then digits_value (10 * n + (code c - 48)) cs else n)"

definition strtoul10 :: "string \<Rightarrow> u64" where
  "strtoul10 s =
     (case dropWhile isspace_c s of
        CHR ''-'' # cs \<Rightarrow> - of_nat (digits_value 0 cs)
      | CHR ''+'' # cs \<Rightarrow> of_nat (digits_value 0 cs)
      | cs \<Rightarrow> of_nat (digits_value 0 cs))"

record sql_numeric =
  n_precision :: u8
  n_scale :: "8 word"
  n_sign :: u8
  n_val :: "u8 list"

text \<open>Position of the first decimal point.\<close>

fun find_point :: "string \<Rightarrow> nat option" where
  "find_point [] = None"
| "find_point (c # cs) = (if c = CHR ''.'' then Some 0 else map_option Suc (find_point cs))"

text \<open>
  The loop over groups of at most four digits: limbs, overflow, position of the decimal point
  that is still to come, precision and scale. The first component is false when it leaves by
  \<open>goto end\<close>.
\<close>

record build =
  b_limbs :: limbs
  b_overflow :: int
  b_point :: "nat option"
  b_precision :: u8
  b_scale :: "8 word"

definition group_length :: "string \<Rightarrow> nat \<Rightarrow> nat" where
  "group_length s i = (if i + 4 < length s then 4 else length s - i)"

definition point_in :: "nat option \<Rightarrow> nat \<Rightarrow> nat \<Rightarrow> bool" where
  "point_in p i n = (case p of None \<Rightarrow> False | Some d \<Rightarrow> i \<le> d \<and> d < i + n)"

definition used_digits :: "string \<Rightarrow> nat \<Rightarrow> nat option \<Rightarrow> nat" where
  "used_digits s i p =
     (if point_in p i (group_length s i) then the p - i + 1 else group_length s i)"

definition take_point :: "string \<Rightarrow> nat \<Rightarrow> build \<Rightarrow> build" where
  "take_point s i b =
     (if point_in (b_point b) i (group_length s i)
      then b\<lparr>b_scale := of_nat (length s - (i + used_digits s i (b_point b))), b_precision := b_precision b - 1, b_point := None\<rparr>
      else b)"

definition add_group :: "string \<Rightarrow> build \<Rightarrow> build" where
  "add_group g b =
     (let a = sqlnum_scale (b_limbs b) (if last g = CHR ''.'' then length g - 1 else length g);
          a1 = sqlnum_carry (a[0 := a ! 0 + ucast (strtoul10 g)])
      in b\<lparr>b_limbs := a1, b_overflow := if a1 ! 7 AND NOT 0xffff \<noteq> 0 then 1 else b_overflow b\<rparr>)"

lemma used_digits_pos: "i < length s \<Longrightarrow> 0 < used_digits s i p"
  by (auto simp: used_digits_def group_length_def)

lemma groups_dec: "i < length s \<Longrightarrow> length s - (i + used_digits s i p) < length s - i"
  using used_digits_pos [of i s p] by linarith

function digit_groups :: "string \<Rightarrow> nat \<Rightarrow> build \<Rightarrow> bool \<times> build" where
  "digit_groups s i b =
     (if i < length s then
        let n = used_digits s i (b_point b); b1 = take_point s i b in
        if b_overflow b1 \<noteq> 0 then (False, b1)
        else digit_groups s (i + n) (add_group (take n (drop i s)) b1)
      else (True, b))"
  by pat_completeness auto
termination
  by (relation "measure (\<lambda>(s, i, b). length s - i)") (auto simp: groups_dec)

declare digit_groups.simps [simp del]

text \<open>The adjustments of the scale, one digit a time.\<close>

definition scale_up :: "build \<Rightarrow> build" where
  "scale_up b = b\<lparr>b_limbs := sqlnum_carry (sqlnum_scale (b_limbs b) 1), b_scale := b_scale b + 1\<rparr>"

definition div0 :: "limbs \<Rightarrow> limbs" where
  "div0 a = a[0 := a ! 0 div 10]"

definition scale_down :: "build \<Rightarrow> build" where
  "scale_down b =
     (let a = sqlnum_unscale_le (b_limbs b)
      in b\<lparr>b_limbs := div0 a, b_overflow := if a ! 0 mod 10 \<noteq> 0 then 2 else b_overflow b,
           b_precision := b_precision b - 1, b_scale := b_scale b - 1\<rparr>)"

text \<open>For a negative scale only zeros may go; false means a \<open>goto end\<close> at a digit that is not.\<close>

fun scale_whole :: "nat \<Rightarrow> limbs \<Rightarrow> build \<Rightarrow> bool \<times> build" where
  "scale_whole 0 tmp b = (True, b)"
| "scale_whole (Suc n) tmp b =
     (let t = sqlnum_unscale_le tmp in
      if t ! 0 mod 10 \<noteq> 0 then (False, b\<lparr>b_overflow := 1\<rparr>)
      else scale_whole n (div0 t) (b\<lparr>b_limbs := div0 (sqlnum_unscale_le (b_limbs b)),
        b_precision := b_precision b - 1, b_scale := b_scale b - 1\<rparr>))"

text \<open>The loop that takes trailing zeros off the precision.\<close>

lemma pred_less:
  assumes "(p :: u8) \<noteq> 1"
  shows "unat (p - 2) < unat (p - 1)"
proof -
  have "p - 1 \<noteq> 0" using assms by simp
  then have "unat (p - 1 - 1) = unat (p - 1) - 1" "0 < unat (p - 1)" by (rule unat_minus_one, simp add: unat_gt_0)
  then have "unat (p - 1 - 1) < unat (p - 1)" by linarith
  then show ?thesis by (simp add: diff_diff_eq)
qed

function min_precision :: "limbs \<Rightarrow> u8 \<Rightarrow> u8" where
  "min_precision tmp p =
     (let t = sqlnum_unscale_le tmp; i = t ! 0 mod 10; p1 = (if i = 0 then p - 1 else p)
      in if i = 0 \<and> p1 \<noteq> 0 then min_precision (div0 t) p1 else p1)"
  by pat_completeness auto
termination
  by (relation "measure (\<lambda>(tmp, p). unat (p - 1))") (auto simp: pred_less)

declare min_precision.simps [simp del]

definition limb_bytes :: "limbs \<Rightarrow> u8 list" where
  "limb_bytes a = concat (map (\<lambda>x. [ucast (x AND 0xff), ucast (drop_bit 8 x AND 0xff)]) a)"

definition rescale :: "int \<Rightarrow> build \<Rightarrow> build" where
  "rescale req b =
     (let sc = sint (b_scale b) in
      if req > 0 \<and> req > sc then (scale_up ^^ nat (req - sc)) b
      else if req < sc then (scale_down ^^ nat (sc - max req 0)) b
      else b)"

definition numeric_result :: "bool \<Rightarrow> u8 list \<Rightarrow> build \<Rightarrow> sql_numeric \<times> int" where
  "numeric_result neg val b =
     (\<lparr>n_precision = b_precision b, n_scale = b_scale b, n_sign = (if neg then 0 else 1), n_val = val\<rparr>, b_overflow b)"

definition sqlnum_from_str :: "string \<Rightarrow> sql_numeric \<Rightarrow> sql_numeric \<times> int" where
  "sqlnum_from_str str num =
     (let neg = (cget str 0 = CHR ''-''); s = (if neg then tl str else str);
          req = sint (n_scale num); zeros = replicate 16 0
      in case digit_groups s 0 \<lparr>b_limbs = replicate 8 0, b_overflow = 0, b_point = find_point s,
             b_precision = of_nat (length s), b_scale = 0\<rparr> of
           (False, b1) \<Rightarrow> numeric_result neg zeros b1
         | (True, b1) \<Rightarrow>
             let b2 = rescale req b1 in
             case (if req < 0 then scale_whole (nat (sint (b_scale b2) - req)) (b_limbs b2) b2 else (True, b2)) of
               (False, b3) \<Rightarrow> numeric_result neg zeros b3
             | (True, b3) \<Rightarrow>
                 numeric_result neg (limb_bytes (b_limbs b3))
                   (if min_precision (b_limbs b3) (b_precision b3) > n_precision num then b3\<lparr>b_overflow := 1\<rparr> else b3))"

section \<open>To a string\<close>

text \<open>
  The buffer is filled from its end: \<open>p\<close> is the place of the next byte, and a store outside the buffer is
  \<open>None\<close>. What the buffer holds before the call is an argument, for one branch reads a byte
  that was not written.
\<close>

type_synonym outbuf = "string \<times> int"

definition put :: "char \<Rightarrow> outbuf \<Rightarrow> outbuf option" where
  "put c b = (case b of (buf, p) \<Rightarrow> if 0 \<le> p \<and> p < int (length buf) then Some (buf[nat p := c], p - 1) else None)"

definition peek :: "string \<Rightarrow> int \<Rightarrow> char option" where
  "peek buf p = (if 0 \<le> p \<and> p < int (length buf) then Some (buf ! nat p) else None)"

text \<open>
  The search for the first limb that is not zero does not stop at the end of the array: \<open>past\<close> are
  the integers behind it in memory.
\<close>

fun skip_zeros :: "limbs \<Rightarrow> nat \<Rightarrow> nat option" where
  "skip_zeros [] k = None"
| "skip_zeros (x # xs) k = (if x = 0 then skip_zeros xs (Suc k) else Some k)"

definition expand :: "u8 list \<Rightarrow> limbs" where
  "expand val = map (\<lambda>i. push_bit 8 (ucast (val ! (2 * (7 - i) + 1))) OR ucast (val ! (2 * (7 - i)))) [0 ..< 8]"

text \<open>
  The loop over at most 39 digits: \<open>n\<close> are left, \<open>j\<close> is the place of the digit; the result has
  the buffer and the number of digits.
\<close>

definition digit_char :: "u32 \<Rightarrow> char" where
  "digit_char x = char_of (48 + unat (x mod 10))"

fun digit_loop :: "limbs \<Rightarrow> int \<Rightarrow> nat \<Rightarrow> nat \<Rightarrow> nat \<Rightarrow> limbs \<Rightarrow> outbuf \<Rightarrow> nat \<Rightarrow> (outbuf \<times> nat) option" where
  "digit_loop past req 0 j m a b prec = Some (b, prec)"
| "digit_loop past req (Suc n) j m a b prec =
     Option.bind (skip_zeros (drop m (a @ past)) m) (\<lambda>m1.
     if m1 \<ge> 7 \<and> a ! 7 = 0 then
       Option.bind (peek (fst b) (snd b + 1)) (\<lambda>c.
         if c = CHR 0x00 then map_option (\<lambda>b1. (b1, 1)) (put (CHR ''0'') b) else Some (b, prec))
     else
       let a1 = (if m1 \<ge> 7 then a else sqlnum_unscale_be a m1) in
       Option.bind (put (digit_char (a1 ! 7)) b) (\<lambda>b1.
       Option.bind (if int j = req - 1 then put (CHR ''.'') b1 else Some b1) (\<lambda>b2.
         digit_loop past req n (Suc j) m1 (a1[7 := a1 ! 7 div 10]) b2 (Suc prec))))"

fun put_many :: "nat \<Rightarrow> char \<Rightarrow> outbuf \<Rightarrow> outbuf option" where
  "put_many 0 c b = Some b"
| "put_many (Suc n) c b = Option.bind (put c b) (put_many n c)"

text \<open>
  The truncation of the fraction, from the byte \<open>e\<close>: the buffer, the place it ends at, and the
  precision and scale that are left.
\<close>

function truncate_loop :: "string \<Rightarrow> int \<Rightarrow> int \<Rightarrow> int \<Rightarrow> int \<Rightarrow> (string \<times> int \<times> int \<times> int) option" where
  "truncate_loop buf e prec reqprec req =
     (if prec > reqprec \<and> req > 0 then
        Option.bind (put (CHR 0x00) (buf, e)) (\<lambda>(buf1, e1). truncate_loop buf1 e1 (prec - 1) reqprec (req - 1))
      else Some (buf, e, prec, req))"
  by pat_completeness auto
termination
  by (relation "measure (\<lambda>(buf, e, prec, reqprec, req). nat req)") auto

declare truncate_loop.simps [simp del]

fun cstrlen :: "string \<Rightarrow> nat" where
  "cstrlen [] = 0"
| "cstrlen (c # cs) = (if c = CHR 0x00 then 0 else Suc (cstrlen cs))"

text \<open>The zeros of a negative scale: the digits move down and zeros take their place.\<close>

definition shift_digits :: "nat \<Rightarrow> nat \<Rightarrow> outbuf \<Rightarrow> outbuf option" where
  "shift_digits prec k b =
     (case b of (buf, p) \<Rightarrow>
        if p - int k < - 1 \<or> p + int prec \<ge> int (length buf) then None
        else
          let q = nat (p - int k + 1); moved = foldl (\<lambda>buf1 i. buf1[q + i := buf1 ! (q + i + k)]) buf [0 ..< prec]
          in Some (foldl (\<lambda>buf1 i. buf1[q + prec + i := CHR ''0'']) moved [0 ..< k], p - int k))"

definition SQLNUM_TRUNC_FRAC :: int where "SQLNUM_TRUNC_FRAC = 1"
definition SQLNUM_TRUNC_WHOLE :: int where "SQLNUM_TRUNC_WHOLE = 2"

text \<open>The end of the conversion: precision, sign and the place of the first byte.\<close>

definition finish_str :: "sql_numeric \<Rightarrow> 8 word \<Rightarrow> nat \<Rightarrow> int \<Rightarrow> outbuf \<Rightarrow> (sql_numeric \<times> string \<times> nat option \<times> int) option" where
  "finish_str num scale prec trunc b =
     map_option (\<lambda>(buf, p). (num\<lparr>n_scale := scale, n_precision := of_nat prec\<rparr>, buf, Some (nat (p + 1)), trunc))
       (if n_sign num = 0 then put (CHR ''-'') b else Some b)"

definition sqlnum_to_str ::
    "limbs \<Rightarrow> string \<Rightarrow> u8 \<Rightarrow> 8 word \<Rightarrow> sql_numeric \<Rightarrow> (sql_numeric \<times> string \<times> nat option \<times> int) option" where
  "sqlnum_to_str past buf0 reqprec scale num =
     (let req = sint scale in
      Option.bind (put (CHR 0x00) (buf0, int (length buf0) - 1)) (\<lambda>b0.
      Option.bind (digit_loop past req 39 0 0 (expand (n_val num)) b0 0) (\<lambda>(b1, prec).
      Option.bind (if int prec < req
          then Option.bind (put_many (nat (req - int prec)) (CHR ''0'') b1) (\<lambda>b. Option.bind (put (CHR ''.'') b) (put (CHR ''0'')))
          else Some b1) (\<lambda>b2.
      let req1 = (if int prec < req then int prec else req) in
      if int prec > uint reqprec \<and> req1 > 0 then
        (let (buf, p) = b2 in
         Option.bind (peek buf p) (\<lambda>_.
         Option.bind (truncate_loop buf (p + int (cstrlen (drop (nat p) buf)) - 1) (int prec) (uint reqprec) req1)
           (\<lambda>(buf1, e, prec1, req2).
              if prec1 > uint reqprec \<and> req2 = 0 then Some (num\<lparr>n_scale := scale\<rparr>, buf1, None, SQLNUM_TRUNC_WHOLE)
              else
                Option.bind (peek buf1 e) (\<lambda>c.
                Option.bind (if c = CHR ''.'' then map_option fst (put (CHR 0x00) (buf1, e)) else Some buf1) (\<lambda>buf2.
                  finish_str num scale (nat prec1) SQLNUM_TRUNC_FRAC (buf2, p))))))
      else if req1 < 0 then
        Option.bind (if scale = - 128 then None else shift_digits prec (nat (- req1)) b2) (finish_str num scale prec 0)
      else finish_str num scale prec 0 b2))))"

end
