(* ===== verification/Numeric_Props.thy ===== *)
theory Numeric_Props
  imports Numeric
begin

unbundle bit_operations_syntax

text \<open>
  What the conversions of \<^verbatim>\<open>driver/utility.cc\<close> between \<open>SQL_NUMERIC_STRUCT\<close> and decimal strings compute: the
  value of the limbs under each pass, the value of a numeral read in groups, and the digits written back.
\<close>

section \<open>The value of limbs\<close>

fun lval :: "limbs \<Rightarrow> nat" where
  "lval [] = 0"
| "lval (a # as) = unat a + 65536 * lval as"

text \<open>All limbs but the last are carried.\<close>

definition carried :: "limbs \<Rightarrow> bool" where
  "carried a \<longleftrightarrow> length a = 8 \<and> (\<forall>x \<in> set (butlast a). unat x < 65536)"

fun carry_rec :: "u32 \<Rightarrow> limbs \<Rightarrow> limbs" where
  "carry_rec c [] = []"
| "carry_rec c [a] = [a + c]"
| "carry_rec c (a # as) = ((a + c) AND 0xffff) # carry_rec (drop_bit 16 (a + c)) as"

fun unscale_rec :: "limbs \<Rightarrow> limbs \<times> u32" where
  "unscale_rec [] = ([], 0)"
| "unscale_rec (a # as) = (case unscale_rec as of (q, r) \<Rightarrow> let x = a + push_bit 16 r in (x div 10 # q, x mod 10))"

lemma length8: "length a = 8 \<Longrightarrow> \<exists>a0 a1 a2 a3 a4 a5 a6 a7. a = [a0, a1, a2, a3, a4, a5, a6, a7]"
  by (auto simp: numeral_eq_Suc length_Suc_conv)

lemma sqlnum_carry_rec:
  assumes "length a = 8"
  shows "sqlnum_carry a = carry_rec 0 a"
proof -
  obtain a0 a1 a2 a3 a4 a5 a6 a7 where a: "a = [a0, a1, a2, a3, a4, a5, a6, a7]" using length8 [OF assms] by blast
  define y1 where "y1 = a1 + drop_bit 16 a0"
  define y2 where "y2 = a2 + drop_bit 16 y1"
  define y3 where "y3 = a3 + drop_bit 16 y2"
  define y4 where "y4 = a4 + drop_bit 16 y3"
  define y5 where "y5 = a5 + drop_bit 16 y4"
  define y6 where "y6 = a6 + drop_bit 16 y5"
  define y7 where "y7 = a7 + drop_bit 16 y6"
  note y = y1_def y2_def y3_def y4_def y5_def y6_def y7_def
  have u: "[0 ..< 7] = [0, 1, 2, 3, 4, 5, 6 :: nat]" by (simp add: upt_rec)
  have "sqlnum_carry a = [a0 AND 0xffff, y1 AND 0xffff, y2 AND 0xffff, y3 AND 0xffff, y4 AND 0xffff, y5 AND 0xffff,
      y6 AND 0xffff, y7]"
    by (simp add: a sqlnum_carry_def u flip: y)
  moreover have "carry_rec 0 a = [a0 AND 0xffff, y1 AND 0xffff, y2 AND 0xffff, y3 AND 0xffff, y4 AND 0xffff, y5 AND 0xffff,
      y6 AND 0xffff, y7]"
    unfolding a y by (simp only: carry_rec.simps add_0_right)
  ultimately show ?thesis by simp
qed

lemma sqlnum_unscale_rec:
  assumes "length a = 8"
  shows "div0 (sqlnum_unscale_le a) = fst (unscale_rec a)" "sqlnum_unscale_le a ! 0 mod 10 = snd (unscale_rec a)"
proof -
  obtain a0 a1 a2 a3 a4 a5 a6 a7 where a: "a = [a0, a1, a2, a3, a4, a5, a6, a7]" using length8 [OF assms] by blast
  define x6 where "x6 = a6 + push_bit 16 (a7 mod 10)"
  define x5 where "x5 = a5 + push_bit 16 (x6 mod 10)"
  define x4 where "x4 = a4 + push_bit 16 (x5 mod 10)"
  define x3 where "x3 = a3 + push_bit 16 (x4 mod 10)"
  define x2 where "x2 = a2 + push_bit 16 (x3 mod 10)"
  define x1 where "x1 = a1 + push_bit 16 (x2 mod 10)"
  define x0 where "x0 = a0 + push_bit 16 (x1 mod 10)"
  note x = x6_def x5_def x4_def x3_def x2_def x1_def x0_def
  have u: "sqlnum_unscale_le a = [x0, x1 div 10, x2 div 10, x3 div 10, x4 div 10, x5 div 10, x6 div 10, a7 div 10]"
    by (simp add: a sqlnum_unscale_le_def flip: x)
  have r: "unscale_rec [a7] = ([a7 div 10], a7 mod 10)" by (simp add: Let_def)
  have s: "unscale_rec (b # bs) = ((b + push_bit 16 m) div 10 # q, (b + push_bit 16 m) mod 10)"
    if "unscale_rec bs = (q, m)" for b bs q m using that by (simp add: Let_def)
  have "unscale_rec a = ([x0 div 10, x1 div 10, x2 div 10, x3 div 10, x4 div 10, x5 div 10, x6 div 10, a7 div 10], x0 mod 10)"
    unfolding a x by (intro s r)
  then show "div0 (sqlnum_unscale_le a) = fst (unscale_rec a)" "sqlnum_unscale_le a ! 0 mod 10 = snd (unscale_rec a)"
    by (simp_all add: u div0_def)
qed

lemma sqlnum_scale_map: "sqlnum_scale a s = map (\<lambda>x. x * 10 ^ s) a"
  by (induction a s rule: sqlnum_scale.induct) (simp_all add: ac_simps)

lemma unat_plus_small: "unat (a :: u32) + unat c < 2 ^ 32 \<Longrightarrow> unat (a + c) = unat a + unat c"
  by (simp add: unat_word_ariths)

text \<open>The last limb wraps at 32 bits, which the limbs of a number below \<open>2 ^ 128\<close> never reach.\<close>

lemma carry_rec_shape:
  "length (carry_rec c as) = length as \<and> (\<forall>x \<in> set (butlast (carry_rec c as)). unat x < 65536)"
proof (induction c as rule: carry_rec.induct)
  case (3 c a b as)
  then have "carry_rec (drop_bit 16 (a + c)) (b # as) \<noteq> []" by (metis list.size(3) nat.distinct(1) length_Cons)
  with 3 show ?case by (auto simp: wordarith)
qed simp_all

lemma carry_rec_exact:
  "\<forall>x \<in> set as. unat x < 2 ^ 31 \<Longrightarrow> unat c < 2 ^ 31 \<Longrightarrow> as \<noteq> [] \<Longrightarrow> lval (carry_rec c as) = lval as + unat c"
proof (induction c as rule: carry_rec.induct)
  case (3 c a b as)
  have s: "unat (a + c) = unat a + unat c" using "3.prems" by (intro unat_plus_small) simp
  have "unat (a + c) div 65536 < 2 ^ 31" using s "3.prems" by (intro less_mult_imp_div_less) simp
  then have "lval (carry_rec (drop_bit 16 (a + c)) (b # as)) = lval (b # as) + unat (a + c) div 65536"
    using 3 by (simp add: wordarith)
  then show ?case using s by (simp add: wordarith)
qed (simp_all add: unat_plus_small)

lemma carry_rec_mod:
  "\<forall>x \<in> set (butlast as). unat x < 2 ^ 31 \<Longrightarrow> unat c < 2 ^ 31 \<Longrightarrow> as \<noteq> [] \<Longrightarrow>
     lval (carry_rec c as) mod 65536 ^ length as = (lval as + unat c) mod 65536 ^ length as"
proof (induction c as rule: carry_rec.induct)
  case (2 c a)
  have "unat (a + c) mod 65536 = (unat a + unat c) mod 65536"
    by (simp add: unat_word_ariths mod_mod_cancel)
  then show ?case by simp
next
  case (3 c a b as)
  have s: "unat (a + c) = unat a + unat c" using "3.prems" by (intro unat_plus_small) simp
  have "unat (a + c) div 65536 < 2 ^ 31" using s "3.prems" by (intro less_mult_imp_div_less) simp
  then have IH: "lval (carry_rec (drop_bit 16 (a + c)) (b # as)) mod 65536 ^ length (b # as) =
      (lval (b # as) + unat (a + c) div 65536) mod 65536 ^ length (b # as)"
    using 3 by (simp add: wordarith)
  let ?X = "lval (carry_rec (drop_bit 16 (a + c)) (b # as))" and ?Y = "lval (b # as) + unat (a + c) div 65536"
    and ?m = "65536 ^ length (b # as) :: nat" and ?r = "unat (a + c) mod 65536"
  have "(65536 * ?X) mod (65536 * ?m) = (65536 * ?Y) mod (65536 * ?m)"
    by (simp only: mult_mod_right [symmetric] IH)
  then have "(?r + 65536 * ?X) mod (65536 * ?m) = (?r + 65536 * ?Y) mod (65536 * ?m)"
    by (rule mod_add_cong [OF refl])
  moreover have "?r + 65536 * ?Y = lval (a # b # as) + unat c" using s by simp
  moreover have "lval (carry_rec c (a # b # as)) = ?r + 65536 * ?X"
    by (simp only: carry_rec.simps lval.simps unat_and_masks)
  ultimately show ?case by (simp only: length_Cons power_Suc)
qed simp

lemma unscale_rec_value:
  "\<forall>x \<in> set (butlast as). unat x < 65536 \<Longrightarrow>
     length (fst (unscale_rec as)) = length as \<and> (\<forall>x \<in> set (butlast (fst (unscale_rec as))). unat x < 65536) \<and>
     lval (fst (unscale_rec as)) = lval as div 10 \<and> unat (snd (unscale_rec as)) = lval as mod 10"
proof (induction as)
  case (Cons a as)
  obtain q r where q: "unscale_rec as = (q, r)" by fastforce
  have IH: "length q = length as" "\<forall>x \<in> set (butlast q). unat x < 65536" "lval q = lval as div 10" "unat r = lval as mod 10"
    using Cons q by (auto split: if_splits)
  let ?x = "a + push_bit 16 r"
  have r: "unat (push_bit 16 r) = 65536 * unat r" using IH(4) by (simp add: unsigned_push_bit_eq take_bit_nat_eq_self push_bit_nat_def)
  have "as = [] \<or> unat a < 65536" using Cons.prems by (cases "as = []") auto
  then have x: "unat ?x = unat a + 65536 * unat r"
    using r IH(4) by (subst unat_plus_small) (use unsigned_less [of a, where 'a=nat] in auto)
  have "lval as = 10 * lval q + unat r" using IH(3,4) by simp
  then have v: "lval (a # as) = unat ?x + 10 * (65536 * lval q)" using x by simp
  have "unat (?x div 10) < 65536" if "as \<noteq> []"
    using that \<open>as = [] \<or> unat a < 65536\<close> x IH(4) by (simp add: unat_div)
  then have s: "\<forall>x \<in> set (butlast (?x div 10 # q)). unat x < 65536" using IH(1,2) by (cases "as = []") auto
  have "lval (a # as) div 10 = 65536 * lval q + unat ?x div 10" unfolding v by (rule div_mult_self2) simp
  moreover have "lval (a # as) mod 10 = unat ?x mod 10" unfolding v by (rule mod_mult_self2)
  moreover have "unscale_rec (a # as) = (?x div 10 # q, ?x mod 10)" by (simp add: q Let_def)
  ultimately show ?case using s IH(1) by (simp only: fst_conv snd_conv lval.simps(2) [of "?x div 10"] unat_div unat_mod) simp
qed simp

text \<open>The steps of the conversion on the value.\<close>

lemma carriedI: "length a = 8 \<Longrightarrow> \<forall>x \<in> set (butlast a). unat x < 65536 \<Longrightarrow> carried a"
  by (simp add: carried_def)

lemma replicate8: "replicate 8 x = [x, x, x, x, x, x, x, x]"
  by (simp add: numeral_eq_Suc)

lemma carried_zero: "carried (replicate 8 0)" "lval (replicate 8 0) = 0"
  by (simp_all add: carried_def replicate8)

lemma unscale_value:
  assumes "carried a"
  shows "carried (div0 (sqlnum_unscale_le a))" "lval (div0 (sqlnum_unscale_le a)) = lval a div 10"
    "unat (sqlnum_unscale_le a ! 0 mod 10) = lval a mod 10"
  using assms unscale_rec_value [of a] by (auto simp: carried_def sqlnum_unscale_rec)

lemma carry_value:
  assumes "length a = 8" "\<forall>x \<in> set (butlast a). unat x < 2 ^ 31"
  shows "carried (sqlnum_carry a)" "lval (sqlnum_carry a) mod 2 ^ 128 = lval a mod 2 ^ 128"
    "unat (last a) < 2 ^ 31 \<Longrightarrow> lval (sqlnum_carry a) = lval a"
proof -
  have ne: "a \<noteq> []" using assms(1) by auto
  show "carried (sqlnum_carry a)"
    using carry_rec_shape [of 0 a] assms(1) by (simp add: carried_def sqlnum_carry_rec)
  have "(65536 :: nat) ^ 8 = 2 ^ 128" by simp
  then show "lval (sqlnum_carry a) mod 2 ^ 128 = lval a mod 2 ^ 128"
    using carry_rec_mod [OF assms(2) _ ne, of 0] assms(1) by (simp add: sqlnum_carry_rec)
  assume "unat (last a) < 2 ^ 31"
  then have "\<forall>x \<in> set a. unat x < 2 ^ 31" using assms(2) ne by (metis Un_iff append_butlast_last_id set_append empty_iff empty_set set_ConsD)
  then show "lval (sqlnum_carry a) = lval a"
    using carry_rec_exact [of a 0] ne assms(1) by (simp add: sqlnum_carry_rec)
qed

lemma lval_scale:
  "\<forall>x \<in> set a. unat x * k < 2 ^ 32 \<Longrightarrow> lval (map (\<lambda>x. x * of_nat k) a) = lval a * k"
proof (induction a)
  case (Cons x a)
  then have "unat (x * of_nat k) = unat x * k"
    by (simp add: unat_word_ariths unat_of_nat mod_mult_right_eq)
  with Cons show ?case by (simp add: algebra_simps)
qed simp


lemma lval_scale_mod:
  "\<forall>x \<in> set (butlast a). unat x * k < 2 ^ 32 \<Longrightarrow>
     lval (map (\<lambda>x. x * of_nat k) a) mod 65536 ^ length a = lval a * k mod 65536 ^ length a"
proof (induction a)
  case (Cons x a)
  let ?X = "lval (map (\<lambda>x. x * of_nat k) a)" and ?m = "65536 ^ length a :: nat"
  show ?case
  proof (cases "a = []")
    case True
    have "unat (x * of_nat k) mod 65536 = unat x * k mod 65536"
      by (simp add: unat_word_ariths unat_of_nat mod_mult_right_eq mod_mod_cancel)
    with True show ?thesis by simp
  next
    case False
    then have "unat x * k < 2 ^ 32" "?X mod ?m = lval a * k mod ?m" using Cons by auto
    then have x: "unat (x * of_nat k) = unat x * k" "(65536 * ?X) mod (65536 * ?m) = (65536 * (lval a * k)) mod (65536 * ?m)"
      by (simp_all only: mult_mod_right [symmetric]) (simp add: unat_word_ariths unat_of_nat mod_mult_right_eq)
    then have "(unat x * k + 65536 * ?X) mod (65536 * ?m) = (unat x * k + 65536 * (lval a * k)) mod (65536 * ?m)"
      by (intro mod_add_cong [OF refl])
    then show ?thesis using x(1) by (simp only: list.map lval.simps length_Cons power_Suc distrib_right mult.assoc)
  qed
qed simp

lemma sqlnum_scale_le: "sqlnum_scale a s = map (\<lambda>x. x * of_nat (10 ^ s)) a"
  by (simp add: sqlnum_scale_map)

lemma carried_butlast: "carried a \<Longrightarrow> x \<in> set (butlast a) \<Longrightarrow> unat x < 65536"
  by (simp add: carried_def)

lemma scale_up_value:
  assumes "carried a"
  shows "carried (sqlnum_carry (sqlnum_scale a 1))"
    "lval (sqlnum_carry (sqlnum_scale a 1)) mod 2 ^ 128 = lval a * 10 mod 2 ^ 128"
proof -
  let ?b = "sqlnum_scale a 1"
  have b: "?b = map (\<lambda>x. x * of_nat 10) a" using sqlnum_scale_le [of a 1] by simp
  have len: "length a = 8" using assms by (simp add: carried_def)
  have small: "\<forall>x \<in> set (butlast a). unat x * 10 < 2 ^ 31" using carried_butlast [OF assms] by fastforce
  have "unat (x * of_nat 10) = unat x * 10" if "x \<in> set (butlast a)" for x :: u32
    using bspec [OF small that] by (simp add: unat_word_ariths)
  then have "\<forall>x \<in> set (butlast ?b). unat x < 2 ^ 31" unfolding b map_butlast [symmetric] using small by auto
  then have c: "carried (sqlnum_carry ?b)" "lval (sqlnum_carry ?b) mod 2 ^ 128 = lval ?b mod 2 ^ 128"
    using carry_value [of ?b] len b by simp_all
  have "(65536 :: nat) ^ 8 = 2 ^ 128" by simp
  moreover have "\<forall>x \<in> set (butlast a). unat x * 10 < 2 ^ 32" using small by fastforce
  ultimately have "lval ?b mod 2 ^ 128 = lval a * 10 mod 2 ^ 128"
    using lval_scale_mod [of a 10] len unfolding b by simp
  with c show "carried (sqlnum_carry ?b)" "lval (sqlnum_carry ?b) mod 2 ^ 128 = lval a * 10 mod 2 ^ 128" by simp_all
qed

lemma lval_append: "lval (xs @ ys) = lval xs + 65536 ^ length xs * lval ys"
  by (induction xs) (simp_all add: algebra_simps)

lemma lval_less: "\<forall>x \<in> set xs. unat x < 65536 \<Longrightarrow> lval xs < 65536 ^ length xs"
proof (induction xs)
  case (Cons x xs)
  then have "unat x < 65536" "Suc (lval xs) \<le> 65536 ^ length xs" by simp_all
  then have "unat x + 65536 * lval xs < 65536 * Suc (lval xs)" "65536 * Suc (lval xs) \<le> 65536 * 65536 ^ length xs" by simp_all
  then show ?case unfolding lval.simps length_Cons power_Suc by (rule less_le_trans)
qed simp

lemma top_limb:
  assumes "carried a"
  shows "unat (a ! 7) < 65536 \<longleftrightarrow> lval a < 2 ^ 128" "last a = a ! 7"
proof -
  have len: "length a = 8" using assms by (simp add: carried_def)
  show l: "last a = a ! 7" using len by (subst last_conv_nth) auto
  have "a = butlast a @ [a ! 7]" using len l by (metis append_butlast_last_id list.size(3) zero_neq_numeral)
  then have "lval a = lval (butlast a) + 65536 ^ 7 * unat (a ! 7)"
    using lval_append [of "butlast a" "[a ! 7]"] len by simp
  moreover have "lval (butlast a) < 65536 ^ 7" using lval_less [of "butlast a"] assms len by (simp add: carried_def)
  ultimately show "unat (a ! 7) < 65536 \<longleftrightarrow> lval a < 2 ^ 128" by (simp del: mult_less_cancel1) linarith
qed

lemma overflow_bits: "(x :: u32) AND NOT 0xffff = 0 \<longleftrightarrow> unat x < 65536"
proof -
  have m: "0xffff = (mask 16 :: u32)" by (simp add: mask_eq_exp_minus_1)
  have "x AND NOT (mask 16) = 0 \<longleftrightarrow> x AND mask 16 = x"
    by (auto simp: bit_eq_iff bit_simps)
  also have "\<dots> \<longleftrightarrow> unat (x AND mask 16) = unat x" by (simp add: word_unat_eq_iff)
  finally show ?thesis unfolding m by (simp only: unat_mask) (simp add: mod_eq_self_iff_div_eq_0 div_eq_0_iff)
qed


section \<open>The value of a numeral\<close>

definition digit :: "char \<Rightarrow> nat" where "digit c = code c - 48"

fun dval :: "nat \<Rightarrow> string \<Rightarrow> nat" where
  "dval n [] = n"
| "dval n (c # cs) = dval (if c = CHR ''.'' then n else 10 * n + digit c) cs"

definition num_digits :: "string \<Rightarrow> nat" where
  "num_digits s = length (filter (\<lambda>c. c \<noteq> CHR ''.'') s)"

lemma num_digits_simps [simp]: "num_digits [] = 0"
    "num_digits (c # cs) = (if c = CHR ''.'' then num_digits cs else Suc (num_digits cs))"
    "num_digits (xs @ ys) = num_digits xs + num_digits ys"
  by (simp_all add: num_digits_def)

lemma dval_append: "dval n (xs @ ys) = dval (dval n xs) ys"
  by (induction n xs rule: dval.induct) auto

lemma dval_shift: "dval n s = n * 10 ^ num_digits s + dval 0 s"
proof (induction s arbitrary: n)
  case (Cons c s)
  show ?case
  proof (cases "c = CHR ''.''")
    case False
    have "dval (10 * n + digit c) s = (10 * n + digit c) * 10 ^ num_digits s + dval 0 s"
        "dval (digit c) s = digit c * 10 ^ num_digits s + dval 0 s"
      by (rule Cons)+
    with False show ?thesis by (simp add: algebra_simps)
  next
    case True
    then have "dval m (c # s) = dval m s" "num_digits (c # s) = num_digits s" for m by simp_all
    with Cons [of n] show ?thesis by (simp only:)
  qed
qed simp

lemma dval_mono: "dval 0 xs \<le> dval 0 (xs @ ys)"
proof -
  have "dval 0 xs * 1 \<le> dval 0 xs * 10 ^ num_digits ys" by (intro mult_le_mono) simp_all
  then show ?thesis unfolding dval_append dval_shift [of "dval 0 xs"] by linarith
qed

abbreviation all_digits :: "string \<Rightarrow> bool" where "all_digits s \<equiv> \<forall>c \<in> set s. isdigit_c c"

lemma isdigit_point [simp]: "\<not> isdigit_c CHR ''.''"
  by (simp add: isdigit_c_def code_def)

lemma digit_less: "isdigit_c c \<Longrightarrow> digit c < 10"
  unfolding isdigit_c_def digit_def by linarith

lemma num_digits_all [simp]: "all_digits s \<Longrightarrow> num_digits s = length s"
  by (induction s) auto

lemma dval_bound: "all_digits s \<Longrightarrow> dval 0 s < 10 ^ length s"
proof (induction s rule: rev_induct)
  case (snoc c s)
  then have "dval 0 s + 1 \<le> 10 ^ length s" "digit c < 10" "c \<noteq> CHR ''.''" by (auto simp: digit_less)
  then show ?case by (simp add: dval_append)
qed simp

text \<open>A group: digits, the last of which may be followed by the decimal point.\<close>

definition group :: "string \<Rightarrow> bool" where
  "group g \<longleftrightarrow> g \<noteq> [] \<and> length g \<le> 4 \<and> all_digits (butlast g) \<and> (isdigit_c (last g) \<or> last g = CHR ''.'')"

lemma group_cases:
  assumes "group g"
  obtains ds where "all_digits ds" "length ds \<le> 4" "g = ds" "ds \<noteq> []" "last g \<noteq> CHR ''.''"
    | ds where "all_digits ds" "length ds \<le> 3" "g = ds @ ''.''" "last g = CHR ''.''"
proof (cases "last g = CHR ''.''")
  case True
  then show ?thesis using assms that(2) [of "butlast g"] append_butlast_last_id [of g] by (auto simp: group_def)
next
  case False
  have "all_digits (butlast g @ [last g])" using assms False by (simp add: group_def del: append_butlast_last_id)
  moreover have "butlast g @ [last g] = g" using assms by (simp add: group_def)
  ultimately have "all_digits g" by (simp only:)
  with False show ?thesis using assms that(1) [of g] by (auto simp: group_def)
qed

lemma digits_value_all: "all_digits ds \<Longrightarrow> digits_value n (ds @ xs) = digits_value (dval n ds) xs"
  by (induction ds arbitrary: n) (auto simp: digit_def)

lemma strtoul10_plain:
  assumes "s \<noteq> []" "isdigit_c (hd s) \<or> hd s = CHR ''.''"
  shows "strtoul10 s = of_nat (digits_value 0 s)"
proof -
  obtain c cs where s: "s = c # cs" using assms(1) by (cases s) auto
  have "\<not> isspace_c c" "c \<noteq> CHR ''-''" "c \<noteq> CHR ''+''" using assms(2) s by (auto simp: isspace_c_def isdigit_c_def code_def)
  then show ?thesis by (simp add: s strtoul10_def split: char.split bool.split)
qed

lemma strtoul10_group:
  assumes "group g"
  shows "strtoul10 g = of_nat (dval 0 g)" "dval 0 g < 10 ^ num_digits g" "num_digits g \<le> 4"
    "(if last g = CHR ''.'' then length g - 1 else length g) = num_digits g"
proof -
  have "strtoul10 g = of_nat (dval 0 g) \<and> dval 0 g < 10 ^ num_digits g \<and> num_digits g \<le> 4 \<and>
      (if last g = CHR ''.'' then length g - 1 else length g) = num_digits g"
    using assms
  proof (cases rule: group_cases)
    case (1 ds)
    then have "strtoul10 g = of_nat (digits_value 0 g)" by (intro strtoul10_plain) (auto intro: list.set_sel)
    with 1 digits_value_all [of ds 0 "[]"] dval_bound [of ds] show ?thesis by simp
  next
    case (2 ds)
    then have "strtoul10 g = of_nat (digits_value 0 g)" by (intro strtoul10_plain) (simp, cases ds, auto)
    with 2 digits_value_all [of ds 0 "''.''"] dval_bound [of ds] show ?thesis by (simp add: dval_append)
  qed
  then show "strtoul10 g = of_nat (dval 0 g)" "dval 0 g < 10 ^ num_digits g" "num_digits g \<le> 4"
    "(if last g = CHR ''.'' then length g - 1 else length g) = num_digits g" by blast+
qed


section \<open>The conversion\<close>

lemma carried_all: "carried a \<Longrightarrow> lval a < 2 ^ 128 \<Longrightarrow> x \<in> set a \<Longrightarrow> unat x < 65536"
  using top_limb [of a] carried_butlast [of a x]
  by (metis Un_iff append_butlast_last_id empty_iff empty_set set_ConsD set_append)

lemma lval_add_low:
  "as \<noteq> [] \<Longrightarrow> unat (as ! 0) + unat c < 2 ^ 32 \<Longrightarrow> lval (as[0 := as ! 0 + c]) = lval as + unat c"
  by (cases as) (simp_all add: unat_plus_small)

lemma add_group_value:
  assumes "carried (b_limbs b)" "lval (b_limbs b) < 2 ^ 128" "group g"
  shows "carried (b_limbs (add_group g b))" "lval (b_limbs (add_group g b)) = dval (lval (b_limbs b)) g"
    "b_overflow (add_group g b) = (if dval (lval (b_limbs b)) g < 2 ^ 128 then b_overflow b else 1)"
    "b_point (add_group g b) = b_point b" "b_scale (add_group g b) = b_scale b" "b_precision (add_group g b) = b_precision b"
proof -
  let ?a = "b_limbs b" and ?s = "num_digits g" and ?cur = "ucast (strtoul10 g) :: u32"
  define A where "A = sqlnum_scale ?a ?s"
  note g = strtoul10_group [OF assms(3)]
  have s: "10 ^ ?s \<le> (10000 :: nat)" using power_increasing [OF g(3), of "10 :: nat"] by simp
  have len: "length ?a = 8" using assms(1) by (simp add: carried_def)
  have "dval 0 g < 10000" using g(2) s by linarith
  then have cur: "unat ?cur = dval 0 g"
    by (simp add: g(1) unat_ucast_mod unat_of_nat)
  have x: "unat x * 10 ^ ?s \<le> 655350000" if "x \<in> set ?a" for x
  proof -
    have "unat x \<le> 65535" using carried_all [OF assms(1,2) that] by simp
    then have "unat x * 10 ^ ?s \<le> 65535 * 10000" using s by (rule mult_le_mono)
    then show ?thesis by simp
  qed
  have mul: "unat (x * of_nat (10 ^ ?s)) = unat x * 10 ^ ?s" if "x \<in> set ?a" for x :: u32
    using lval_scale [of "[x]" "10 ^ ?s"] x [OF that] by simp
  have A: "A = map (\<lambda>x. x * of_nat (10 ^ ?s)) ?a" unfolding A_def by (rule sqlnum_scale_le)
  have "\<forall>x \<in> set ?a. unat x * 10 ^ ?s < 2 ^ 32" using x by fastforce
  then have vA: "lval A = lval ?a * 10 ^ ?s" unfolding A by (rule lval_scale)
  have lenA: "length A = 8" using len by (simp add: A)
  have bA: "unat y \<le> 655350000" if "y \<in> set A" for y using that x mul unfolding A by (metis (no_types, lifting) image_iff list.set_map)
  define B where "B = A[0 := A ! 0 + ?cur]"
  have A0: "unat (A ! 0) \<le> 655350000" using bA [of "A ! 0"] lenA by simp
  have vB: "lval B = lval A + dval 0 g"
    unfolding B_def cur [symmetric] using lenA A0 cur \<open>dval 0 g < 10000\<close> by (intro lval_add_low) auto
  have bB: "unat y < 2 ^ 31" if "y \<in> set B" for y
  proof -
    have "unat (A ! 0 + ?cur) = unat (A ! 0) + unat ?cur"
      using A0 cur \<open>dval 0 g < 10000\<close> by (intro unat_plus_small) simp
    moreover have "y = A ! 0 + ?cur \<or> y \<in> set A" using that set_update_subset_insert [of A 0 "A ! 0 + ?cur"] unfolding B_def by blast
    ultimately show ?thesis using A0 cur \<open>dval 0 g < 10000\<close> bA [of y] by auto
  qed
  have lenB: "length B = 8" using lenA by (simp add: B_def)
  then have "B \<noteq> []" by auto
  then have "last B \<in> set B" "\<forall>x \<in> set (butlast B). unat x < 2 ^ 31" using bB by (auto dest: in_set_butlastD)
  then have c: "carried (sqlnum_carry B)" "lval (sqlnum_carry B) = lval B"
    using carry_value [OF lenB] bB by blast+
  have l: "add_group g b = b\<lparr>b_limbs := sqlnum_carry B,
      b_overflow := if sqlnum_carry B ! 7 AND NOT 0xffff \<noteq> 0 then 1 else b_overflow b\<rparr>"
    by (simp only: add_group_def Let_def g(4) B_def A_def)
  have v: "lval (sqlnum_carry B) = dval (lval ?a) g" using c(2) vB vA dval_shift [of "lval ?a" g] by simp
  show "carried (b_limbs (add_group g b))" "lval (b_limbs (add_group g b)) = dval (lval ?a) g"
    "b_point (add_group g b) = b_point b" "b_scale (add_group g b) = b_scale b" "b_precision (add_group g b) = b_precision b"
    using c(1) v by (simp_all add: l)
  show "b_overflow (add_group g b) = (if dval (lval ?a) g < 2 ^ 128 then b_overflow b else 1)"
    using top_limb(1) [OF c(1)] v by (simp add: l overflow_bits [simplified])
qed

text \<open>A numeral: digits, and perhaps a point with digits behind it.\<close>

definition numeral_str :: "string \<Rightarrow> string option \<Rightarrow> string" where
  "numeral_str ip fp = ip @ (case fp of None \<Rightarrow> [] | Some f \<Rightarrow> CHR ''.'' # f)"

definition frac :: "string option \<Rightarrow> string" where
  "frac fp = (case fp of None \<Rightarrow> [] | Some f \<Rightarrow> f)"

definition at_point :: "string \<Rightarrow> string option \<Rightarrow> nat \<Rightarrow> nat option" where
  "at_point ip fp i = (if fp \<noteq> None \<and> i \<le> length ip then Some (length ip) else None)"

lemma find_point_numeral: "all_digits ip \<Longrightarrow> all_digits (frac fp) \<Longrightarrow> find_point (numeral_str ip fp) = at_point ip fp 0"
proof -
  have "all_digits s \<Longrightarrow> find_point s = None" for s by (induction s) auto
  moreover have "all_digits s \<Longrightarrow> find_point (s @ CHR ''.'' # t) = Some (length s)" for s t by (induction s) auto
  ultimately show "all_digits ip \<Longrightarrow> all_digits (frac fp) \<Longrightarrow> find_point (numeral_str ip fp) = at_point ip fp 0"
    by (simp add: numeral_str_def at_point_def split: option.split)
qed

lemma numeral_nth:
  assumes "all_digits ip" "all_digits (frac fp)" "j < length (numeral_str ip fp)" "j \<noteq> length ip \<or> fp = None"
  shows "isdigit_c (numeral_str ip fp ! j)"
  using assms by (auto simp: numeral_str_def frac_def nth_append nth_Cons' split: option.splits)

lemma next_group:
  fixes ip fp i
  defines "s \<equiv> numeral_str ip fp"
  defines "n \<equiv> used_digits s i (at_point ip fp i)"
  assumes "all_digits ip" "all_digits (frac fp)" "i < length s"
  shows "group (take n (drop i s))" "i + n \<le> length s"
    "at_point ip fp (i + n) = (if point_in (at_point ip fp i) i (group_length s i) then None else at_point ip fp i)"
    "point_in (at_point ip fp i) i (group_length s i) \<Longrightarrow> length s - (i + n) = length (frac fp)"
proof -
  let ?g = "take n (drop i s)" and ?in = "point_in (at_point ip fp i) i (group_length s i)"
  have gl: "0 < group_length s i" "group_length s i \<le> 4" "i + group_length s i \<le> length s"
    using assms(5) by (auto simp: group_length_def)
  have "group ?g \<and> i + n \<le> length s \<and> at_point ip fp (i + n) = (if ?in then None else at_point ip fp i) \<and>
    (?in \<longrightarrow> length s - (i + n) = length (frac fp))"
  proof (cases ?in)
    case True
    then obtain f where f: "fp = Some f" "i \<le> length ip" "length ip < i + group_length s i"
      by (auto simp: point_in_def at_point_def split: if_splits)
    then have n: "n = length ip - i + 1" using True by (simp add: n_def used_digits_def at_point_def)
    have s: "s = ip @ CHR ''.'' # f" using f by (simp add: s_def numeral_str_def)
    have "drop i s = drop i ip @ CHR ''.'' # f" using f(2) by (simp add: s)
    then have "?g = drop i ip @ ''.''" using n by simp
    moreover have "all_digits (drop i ip)" using assms(3) by (auto dest: in_set_dropD)
    ultimately have "group ?g" using f gl by (simp add: group_def)
    then show ?thesis using True n f gl by (simp add: s at_point_def frac_def)
  next
    case False
    then have n: "n = group_length s i" by (simp add: n_def used_digits_def)
    have d: "isdigit_c (s ! j)" if "i \<le> j" "j < i + n" for j
    proof -
      have "j \<noteq> length ip \<or> fp = None" using False that n by (auto simp: point_in_def at_point_def split: if_splits)
      moreover have "j < length s" using that n gl(3) by linarith
      ultimately show ?thesis unfolding s_def using numeral_nth [OF assms(3,4)] by blast
    qed
    have all: "all_digits ?g"
      using d n gl(3) by (auto simp: in_set_conv_nth)
    moreover have ne: "?g \<noteq> []" "length ?g \<le> 4" using n gl assms(5) by auto
    ultimately have "group ?g" by (auto simp: group_def dest: in_set_butlastD)
    moreover have "at_point ip fp (i + n) = at_point ip fp i"
      using False n by (auto simp: at_point_def point_in_def split: if_splits)
    ultimately show ?thesis using False n gl(3) by simp
  qed
  then show "group ?g" "i + n \<le> length s" "at_point ip fp (i + n) = (if ?in then None else at_point ip fp i)"
    "?in \<Longrightarrow> length s - (i + n) = length (frac fp)" by blast+
qed

text \<open>The state of the loop before a group.\<close>

definition built :: "string \<Rightarrow> string option \<Rightarrow> nat \<Rightarrow> build \<Rightarrow> bool" where
  "built ip fp i b \<longleftrightarrow> i \<le> length (numeral_str ip fp) \<and> carried (b_limbs b) \<and>
     lval (b_limbs b) = dval 0 (take i (numeral_str ip fp)) \<and> b_overflow b = 0 \<and> b_point b = at_point ip fp i \<and>
     b_scale b = (if fp \<noteq> None \<and> length ip < i then of_nat (length (frac fp)) else 0) \<and>
     b_precision b = of_nat (length (numeral_str ip fp)) - (if fp \<noteq> None \<and> length ip < i then 1 else 0)"

lemma digit_groups_value:
  assumes "all_digits ip" "all_digits (frac fp)" "dval 0 (numeral_str ip fp) < 2 ^ 128" "built ip fp i b"
  shows "\<exists>b'. digit_groups (numeral_str ip fp) i b = (True, b') \<and> built ip fp (length (numeral_str ip fp)) b'"
  using assms(4)
proof (induction "length (numeral_str ip fp) - i" arbitrary: i b rule: less_induct)
  case less
  let ?s = "numeral_str ip fp"
  show ?case
  proof (cases "i < length ?s")
    case False
    then have "i = length ?s" using less.prems by (simp add: built_def)
    then show ?thesis using less.prems by (subst digit_groups.simps) simp
  next
    case True
    define n where "n = used_digits ?s i (at_point ip fp i)"
    let ?g = "take n (drop i ?s)" and ?b1 = "take_point ?s i b"
    note inv = less.prems [unfolded built_def]
    note ng = next_group [OF assms(1,2) True, folded n_def]
    have "0 < n" unfolding n_def by (rule used_digits_pos [OF True])
    have b1: "b_limbs ?b1 = b_limbs b \<and> b_overflow ?b1 = 0 \<and> b_point ?b1 = at_point ip fp (i + n) \<and>
        b_scale ?b1 = (if fp \<noteq> None \<and> length ip < i + n then of_nat (length (frac fp)) else 0) \<and>
        b_precision ?b1 = of_nat (length ?s) - (if fp \<noteq> None \<and> length ip < i + n then 1 else 0)"
    proof (cases "point_in (at_point ip fp i) i (group_length ?s i)")
      case True
      then have "fp \<noteq> None" by (auto simp: point_in_def at_point_def split: if_splits)
      moreover have "length ip < i + n" using ng(3) True calculation by (auto simp: at_point_def split: if_splits)
      moreover have "\<not> length ip < i" using True by (auto simp: point_in_def at_point_def split: if_splits)
      ultimately show ?thesis using inv True ng(3,4) by (simp add: take_point_def flip: n_def)
    next
      case False
      then have "fp \<noteq> None \<longrightarrow> (i \<le> length ip \<longleftrightarrow> i + n \<le> length ip)" using ng(3) by (auto simp: at_point_def split: if_splits)
      moreover have "take_point ?s i b = b" using inv False by (simp add: take_point_def)
      ultimately show ?thesis using inv False ng(3) by auto
    qed
    have split: "take (i + n) ?s = take i ?s @ ?g" by (rule take_add)
    have v: "dval (lval (b_limbs b)) ?g = dval 0 (take (i + n) ?s)" using inv by (simp only: split dval_append)
    have "dval 0 (take (i + n) ?s) \<le> dval 0 ?s"
      using dval_mono [of "take (i + n) ?s" "drop (i + n) ?s"] by simp
    then have lt: "dval 0 (take (i + n) ?s) < 2 ^ 128" using assms(3) by linarith
    have "lval (b_limbs ?b1) < 2 ^ 128"
      using dval_mono [of "take i ?s" "drop i ?s"] assms(3) inv b1 by simp
    from add_group_value [OF _ this ng(1)] have "built ip fp (i + n) (add_group ?g ?b1)"
      using inv b1 v lt ng(2) unfolding built_def by simp
    moreover have "length ?s - (i + n) < length ?s - i" using \<open>0 < n\<close> True by linarith
    ultimately obtain b' where
      "digit_groups ?s (i + n) (add_group ?g ?b1) = (True, b')" "built ip fp (length ?s) b'"
      using less.hyps by blast
    moreover have "digit_groups ?s i b = digit_groups ?s (i + n) (add_group ?g ?b1)"
      using True b1 inv by (subst digit_groups.simps) (simp add: Let_def n_def)
    ultimately show ?thesis by metis
  qed
qed


lemma scale_up_fields:
  "b_limbs (scale_up b) = sqlnum_carry (sqlnum_scale (b_limbs b) 1)" "b_scale (scale_up b) = b_scale b + 1"
  "b_overflow (scale_up b) = b_overflow b"
  by (simp_all add: scale_up_def)

lemma scale_up_many:
  assumes "carried (b_limbs b)"
  shows "carried (b_limbs ((scale_up ^^ m) b)) \<and> lval (b_limbs ((scale_up ^^ m) b)) mod 2 ^ 128 = lval (b_limbs b) * 10 ^ m mod 2 ^ 128 \<and>
    b_scale ((scale_up ^^ m) b) = b_scale b + of_nat m \<and> b_overflow ((scale_up ^^ m) b) = b_overflow b"
proof (induction m)
  case (Suc m)
  let ?b = "(scale_up ^^ m) b"
  have "lval (b_limbs (scale_up ?b)) mod 2 ^ 128 = lval (b_limbs ?b) * 10 mod 2 ^ 128" "carried (b_limbs (scale_up ?b))"
    using scale_up_value [of "b_limbs ?b"] Suc by (simp_all add: scale_up_fields del: sqlnum_scale.simps)
  moreover have "lval (b_limbs ?b) * 10 mod 2 ^ 128 = lval (b_limbs b) * 10 ^ m * 10 mod 2 ^ 128"
    using Suc by (metis mod_mult_left_eq)
  ultimately show ?case using Suc by (simp add: scale_up_fields ac_simps del: sqlnum_scale.simps)
qed (use assms in simp)

lemma scale_down_fields:
  "b_limbs (scale_down b) = div0 (sqlnum_unscale_le (b_limbs b))" "b_scale (scale_down b) = b_scale b - 1"
  "b_overflow (scale_down b) = (if sqlnum_unscale_le (b_limbs b) ! 0 mod 10 \<noteq> 0 then 2 else b_overflow b)"
  by (simp_all add: scale_down_def Let_def)

lemma scale_down_many:
  assumes "carried (b_limbs b)"
  shows "carried (b_limbs ((scale_down ^^ m) b)) \<and> lval (b_limbs ((scale_down ^^ m) b)) = lval (b_limbs b) div 10 ^ m \<and>
    b_scale ((scale_down ^^ m) b) = b_scale b - of_nat m \<and>
    b_overflow ((scale_down ^^ m) b) = (if lval (b_limbs b) mod 10 ^ m = 0 then b_overflow b else 2)"
proof (induction m)
  case (Suc m)
  let ?b = "(scale_down ^^ m) b" and ?n = "lval (b_limbs b)"
  note u = unscale_value [of "b_limbs ?b"]
  have "(sqlnum_unscale_le (b_limbs ?b) ! 0 mod 10 \<noteq> 0) = (lval (b_limbs ?b) mod 10 \<noteq> 0)"
    using u(3) Suc by (metis unat_eq_0)
  moreover have "?n mod 10 ^ Suc m = 10 ^ m * (?n div 10 ^ m mod 10) + ?n mod 10 ^ m"
    using mod_mult2_eq [of ?n "10 ^ m" 10] by (simp add: mult.commute)
  then have "?n mod 10 ^ Suc m = 0 \<longleftrightarrow> ?n div 10 ^ m mod 10 = 0 \<and> ?n mod 10 ^ m = 0" by simp
  moreover have "?n div 10 ^ m div 10 = ?n div 10 ^ Suc m" by (simp add: div_mult2_eq [symmetric] mult.commute)
  ultimately show ?case using Suc u(1,2) by (simp add: scale_down_fields)
qed (use assms in simp)

lemma scale_up_exact:
  assumes "carried a" "lval a * 10 < 2 ^ 128"
  shows "lval (sqlnum_carry (sqlnum_scale a 1)) = lval a * 10"
proof -
  have a: "lval a < 2 ^ 128" using assms(2) by linarith
  let ?b = "sqlnum_scale a 1"
  have b: "?b = map (\<lambda>x. x * of_nat 10) a" using sqlnum_scale_le [of a 1] by simp
  have x: "unat x * 10 < 2 ^ 32" "unat x * 10 < 2 ^ 31" if "x \<in> set a" for x
    using carried_all [OF assms(1) a that] by simp_all
  then have v: "lval ?b = lval a * 10" unfolding b by (intro lval_scale) blast
  have len: "length a = 8" using assms(1) by (simp add: carried_def)
  then have "last ?b \<in> set ?b" unfolding b by (intro last_in_set) auto
  then obtain y where y: "last ?b = y * of_nat 10" "y \<in> set a" unfolding b by auto
  have "unat (y * of_nat 10) = unat y * 10" using x(1) [OF y(2)] by (simp add: unat_word_ariths)
  then have top: "unat (last ?b) < 2 ^ 31" using x(2) [OF y(2)] y(1) by simp
  have "\<forall>z \<in> set ?b. unat z < 2 ^ 31"
  proof
    fix z assume "z \<in> set ?b"
    then obtain y where "z = y * of_nat 10" "y \<in> set a" unfolding b by auto
    then show "unat z < 2 ^ 31" using x [of y] by (simp add: unat_word_ariths)
  qed
  then have "\<forall>z \<in> set (butlast ?b). unat z < 2 ^ 31" by (meson in_set_butlastD)
  then have "lval (sqlnum_carry ?b) = lval ?b" using carry_value(3) [of ?b] top len by (simp add: b)
  with v show ?thesis by simp
qed

lemma scale_up_many_exact:
  assumes "carried (b_limbs b)" "lval (b_limbs b) * 10 ^ m < 2 ^ 128"
  shows "lval (b_limbs ((scale_up ^^ m) b)) = lval (b_limbs b) * 10 ^ m"
  using assms(2)
proof (induction m)
  case (Suc m)
  let ?b = "(scale_up ^^ m) b"
  have "lval (b_limbs b) * 10 ^ m * 10 < 2 ^ 128" using Suc.prems by (simp add: mult.assoc mult.commute)
  moreover from this have "lval (b_limbs ?b) = lval (b_limbs b) * 10 ^ m" by (intro Suc.IH) linarith
  ultimately show ?case
    using scale_up_exact [of "b_limbs ?b"] scale_up_many [OF assms(1), of m]
    by (simp add: scale_up_fields ac_simps del: sqlnum_scale.simps)
qed simp

fun bytes_value :: "u8 list \<Rightarrow> nat" where
  "bytes_value [] = 0"
| "bytes_value (b # bs) = unat b + 256 * bytes_value bs"

lemma limb_bytes_value:
  "\<forall>x \<in> set (butlast a). unat x < 65536 \<Longrightarrow> bytes_value (limb_bytes a) = lval a mod 65536 ^ length a"
proof (induction a)
  case (Cons x a)
  let ?B = "bytes_value (limb_bytes a)"
  have "bytes_value (limb_bytes (x # a)) = unat x mod 256 + 256 * (unat x div 256 mod 256) + 65536 * ?B"
    by (simp add: limb_bytes_def unat_ucast_mod unat_drop unat_mask [of _ 8, unfolded mask_eq_exp_minus_1, simplified])
  also have "unat x mod 256 + 256 * (unat x div 256 mod 256) = unat x mod 65536"
    using mod_mult2_eq [of "unat x" 256 256] by simp
  finally have v: "bytes_value (limb_bytes (x # a)) = unat x mod 65536 + 65536 * ?B" .
  show ?case
  proof (cases "a = []")
    case True
    then show ?thesis unfolding v by (simp add: limb_bytes_def)
  next
    case False
    then have "unat x < 65536" "?B = lval a mod 65536 ^ length a" using Cons by simp_all
    moreover have "(unat x + 65536 * lval a) mod (65536 * 65536 ^ length a) = unat x + 65536 * (lval a mod 65536 ^ length a)"
      using mod_mult2_eq [of "unat x + 65536 * lval a" 65536 "65536 ^ length a"] calculation(1) by simp
    ultimately show ?thesis unfolding v lval.simps length_Cons power_Suc by simp
  qed
qed (simp add: limb_bytes_def)

lemma carried_bytes: "carried a \<Longrightarrow> bytes_value (limb_bytes a) = lval a mod 2 ^ 128"
proof -
  assume "carried a"
  moreover have "(65536 :: nat) ^ 8 = 2 ^ 128" by simp
  ultimately show ?thesis using limb_bytes_value [of a] unfolding carried_def by metis
qed


section \<open>What the conversion computes\<close>

lemma sint_of_nat_small: "n < 128 \<Longrightarrow> sint (of_nat n :: 8 word) = int n"
  by (simp add: signed_of_nat signed_take_bit_int_eq_self)

lemma take_point_none: "b_point b = None \<Longrightarrow> take_point s i b = b"
  by (simp add: take_point_def point_in_def)

lemma digit_groups_precision: "b_point b = None \<Longrightarrow> b_precision (snd (digit_groups s i b)) = b_precision b"
proof (induction s i b rule: digit_groups.induct)
  case (1 s i b)
  then show ?case by (subst digit_groups.simps) (simp add: Let_def take_point_none add_group_def)
qed

lemma scale_up_precision: "b_precision ((scale_up ^^ n) b) = b_precision b"
  by (induction n) (simp_all add: scale_up_def)

lemma min_precision_le: "0 < p \<Longrightarrow> min_precision t p \<le> p"
proof (induction t p rule: min_precision.induct)
  case (1 t p)
  have "p \<noteq> 0" using 1(2) by auto
  then have dec: "p - 1 \<le> p" by (simp add: word_le_nat_alt unat_minus_one)
  show ?case
  proof (cases "sqlnum_unscale_le t ! 0 mod 10 = 0 \<and> p - 1 \<noteq> 0")
    case True
    moreover have "0 < p - 1" using True unfolding word_neq_0_conv by blast
    ultimately have "min_precision (div0 (sqlnum_unscale_le t)) (p - 1) \<le> p - 1"
      by (intro 1(1)) auto
    then show ?thesis using True dec by (subst min_precision.simps) (simp add: Let_def)
  next
    case False
    then show ?thesis using dec by (subst min_precision.simps) (simp add: Let_def)
  qed
qed

text \<open>Trailing zeros do not count: more than \<open>P\<close> digits of \<open>m\<close> are left when more than \<open>m - P\<close> zeros would have to go.\<close>

lemma min_precision_value:
  "carried t \<Longrightarrow> 0 < p \<Longrightarrow> P < min_precision t p \<longleftrightarrow> unat P < unat p \<and> \<not> 10 ^ (unat p - unat P) dvd lval t"
proof (induction t p rule: min_precision.induct)
  case (1 t p)
  note u = unscale_value [OF "1.prems"(1)]
  have z: "sqlnum_unscale_le t ! 0 mod 10 = 0 \<longleftrightarrow> 10 dvd lval t" using u(3) by (metis dvd_eq_mod_eq_0 unat_eq_0)
  have p0: "p \<noteq> 0" using "1.prems"(2) by auto
  then have dec: "unat (p - 1) = unat p - 1" "0 < unat p" by (simp_all add: unat_minus_one unat_gt_0)
  consider "\<not> 10 dvd lval t" | "10 dvd lval t" "p = 1" | "10 dvd lval t" "p - 1 \<noteq> 0" using p0 by fastforce
  then show ?case
  proof cases
    case 1
    then have "\<not> 10 ^ (unat p - unat P) dvd lval t" if "unat P < unat p"
      using that dvd_trans [of 10 "10 ^ (unat p - unat P)" "lval t"] by (auto simp: dvd_power)
    then show ?thesis using 1 z by (subst min_precision.simps) (auto simp: Let_def word_less_nat_alt)
  next
    case 2
    then have "\<not> (unat P < unat p \<and> \<not> 10 ^ (unat p - unat P) dvd lval t)" by (cases "unat P = 0") auto
    then show ?thesis using 2 z by (subst min_precision.simps) (simp add: Let_def)
  next
    case 3
    then have p1: "0 < p - 1" unfolding word_neq_0_conv by blast
    have IH: "P < min_precision (div0 (sqlnum_unscale_le t)) (p - 1) \<longleftrightarrow>
        unat P < unat p - 1 \<and> \<not> 10 ^ (unat p - 1 - unat P) dvd lval t div 10"
      using "1.IH" [OF refl refl refl] 3 z u(1,2) p1 dec by simp
    have t: "lval t = 10 * (lval t div 10)" using 3(1) by simp
    have "10 ^ (unat p - unat P) dvd lval t \<longleftrightarrow> 10 ^ (unat p - 1 - unat P) dvd lval t div 10" if "unat P < unat p - 1"
    proof -
      have e: "unat p - unat P = Suc (unat p - 1 - unat P)" using that by simp
      show ?thesis unfolding e power_Suc by (subst t, subst nat_mult_dvd_cancel1) simp_all
    qed
    moreover have "10 ^ (unat p - unat P) dvd lval t" if "\<not> unat P < unat p - 1"
    proof (cases "unat P < unat p")
      case True
      then have "unat p - unat P = 1" using that by simp
      then show ?thesis using 3(1) by simp
    qed simp
    moreover have "min_precision t p = min_precision (div0 (sqlnum_unscale_le t)) (p - 1)"
      using 3 z by (subst min_precision.simps) (simp add: Let_def)
    ultimately show ?thesis using IH by auto
  qed
qed

lemma scale_down_precision: "b_precision ((scale_down ^^ n) b) = b_precision b - of_nat n"
  by (induction n) (simp_all add: scale_down_def Let_def)

lemma from_str_full:
  assumes "all_digits ip" "all_digits (frac fp)" "length (frac fp) < 128" "dval 0 (numeral_str ip fp) < 2 ^ 128"
    "n_scale num = of_nat d" "d < 128"
  shows "\<exists>r overflow. sqlnum_from_str ((if neg then ''-'' else []) @ numeral_str ip fp) num = (r, overflow) \<and>
    n_sign r = (if neg then 0 else 1) \<and> n_scale r = n_scale num \<and> length (n_val r) = 16 \<and>
    bytes_value (n_val r) = dval 0 (numeral_str ip fp) * 10 ^ d div 10 ^ length (frac fp) mod 2 ^ 128 \<and>
    (overflow = 1 \<or> overflow = (if 10 ^ length (frac fp) dvd dval 0 (numeral_str ip fp) * 10 ^ d then 0 else 2)) \<and>
    (fp = None \<and> ip \<noteq> [] \<and> length ip \<le> unat (n_precision num) \<longrightarrow> overflow = 0) \<and>
    (let p = length ip + min d (length (frac fp)); v = dval 0 (numeral_str ip fp) * 10 ^ d div 10 ^ length (frac fp)
     in 0 < p \<and> length ip + length (frac fp) < 256 \<and> v < 2 ^ 128 \<longrightarrow>
       overflow = (if unat (n_precision num) < p \<and> \<not> 10 ^ (p - unat (n_precision num)) dvd v then 1
         else if 10 ^ length (frac fp) dvd dval 0 (numeral_str ip fp) * 10 ^ d then 0 else 2))"
proof -
  let ?s = "numeral_str ip fp" and ?k = "length (frac fp)"
  let ?str = "(if neg then ''-'' else []) @ ?s" and ?n = "dval 0 (numeral_str ip fp)"
  define b0 where "b0 = \<lparr>b_limbs = replicate 8 0, b_overflow = 0, b_point = find_point ?s,
                   b_precision = of_nat (length ?s), b_scale = 0\<rparr>"
  have "built ip fp 0 b0"
    using carried_zero by (simp add: built_def b0_def find_point_numeral [OF assms(1,2)])
  then obtain b1 where b1: "digit_groups ?s 0 b0 = (True, b1)" "built ip fp (length ?s) b1"
    using digit_groups_value [OF assms(1,2,4)] by blast
  have "fp \<noteq> None \<longleftrightarrow> length ip < length ?s" by (auto simp: numeral_str_def split: option.splits)
  moreover have "fp = None \<Longrightarrow> ?k = 0" by (simp add: frac_def)
  ultimately have i1: "carried (b_limbs b1)" "lval (b_limbs b1) = ?n" "b_overflow b1 = 0" "b_scale b1 = of_nat ?k"
    using b1(2) by (auto simp: built_def)
  have digits1: "b_precision b1 = of_nat (length ip + ?k)"
    using b1(2) by (auto simp: built_def numeral_str_def frac_def split: option.splits)
  have point: "fp = None \<Longrightarrow> b_point b0 = None" using find_point_numeral [OF assms(1,2)] by (simp add: b0_def at_point_def)
  have prec1: "b_precision b1 = of_nat (length ip)" if "fp = None"
    using digit_groups_precision [OF point [OF that], of ?s 0] that unfolding b1(1) by (simp add: b0_def numeral_str_def)
  have first: "(cget ?str 0 = CHR ''-'') = neg" "(if neg then tl ?str else ?str) = ?s"
    using assms(1) by (cases ip; cases fp; force simp: cget_def numeral_str_def isdigit_c_def code_def)+
  have sc: "sint (n_scale num) = int d" "sint (b_scale b1) = int ?k"
    using assms(3,5,6) i1(4) by (simp_all add: sint_of_nat_small)
  define b2 where "b2 = rescale (int d) b1"
  have b2: "carried (b_limbs b2) \<and> b_scale b2 = n_scale num \<and>
      lval (b_limbs b2) mod 2 ^ 128 = ?n * 10 ^ d div 10 ^ ?k mod 2 ^ 128 \<and>
      b_overflow b2 = (if 10 ^ ?k dvd ?n * 10 ^ d then 0 else 2)"
  proof -
    consider "?k < d" | "d < ?k" | "d = ?k" by linarith
    then show ?thesis
    proof cases
      case 1
      then have b: "b2 = (scale_up ^^ (d - ?k)) b1" by (simp add: b2_def rescale_def sc nat_diff_distrib)
      have p: "(10 :: nat) ^ d = 10 ^ (d - ?k) * 10 ^ ?k" using 1 by (simp flip: power_add)
      have "?n * 10 ^ d div 10 ^ ?k = ?n * 10 ^ (d - ?k)" "10 ^ ?k dvd ?n * 10 ^ d"
        unfolding p by (simp_all flip: mult.assoc)
      moreover have "of_nat ?k + of_nat (d - ?k) = (of_nat d :: 8 word)" using 1 by (simp flip: of_nat_add)
      ultimately show ?thesis using scale_up_many [OF i1(1), of "d - ?k"] i1 assms(5) unfolding b by simp
    next
      case 2
      then have b: "b2 = (scale_down ^^ (?k - d)) b1" by (simp add: b2_def rescale_def sc nat_diff_distrib)
      have p: "(10 :: nat) ^ ?k = 10 ^ (?k - d) * 10 ^ d" using 2 by (simp flip: power_add)
      have "?n * 10 ^ d div 10 ^ ?k = ?n div 10 ^ (?k - d)" "(10 ^ ?k dvd ?n * 10 ^ d) = (?n mod 10 ^ (?k - d) = 0)"
        unfolding p by (simp_all add: dvd_eq_mod_eq_0)
      moreover have "of_nat ?k - of_nat (?k - d) = (of_nat d :: 8 word)" using 2 by (simp add: of_nat_diff)
      ultimately show ?thesis using scale_down_many [OF i1(1), of "?k - d"] i1 assms(5) unfolding b by simp
    next
      case 3
      then have "b2 = b1" by (simp add: b2_def rescale_def sc)
      then show ?thesis using i1 assms(5) 3 by simp
    qed
  qed
  have prec2: "b_precision b2 = of_nat (length ip)" if "fp = None"
    using prec1 [OF that] that sc(2) by (simp add: b2_def rescale_def frac_def scale_up_precision)
  have exact2: "lval (b_limbs b2) = ?n * 10 ^ d div 10 ^ ?k" if "?n * 10 ^ d div 10 ^ ?k < 2 ^ 128"
  proof -
    consider "?k < d" | "d \<le> ?k" by linarith
    then show ?thesis
    proof cases
      case 1
      then have b: "b2 = (scale_up ^^ (d - ?k)) b1" by (simp add: b2_def rescale_def sc nat_diff_distrib)
      have p: "(10 :: nat) ^ d = 10 ^ (d - ?k) * 10 ^ ?k" using 1 by (simp flip: power_add)
      have "?n * 10 ^ d div 10 ^ ?k = ?n * 10 ^ (d - ?k)" unfolding p by (simp flip: mult.assoc)
      then show ?thesis using scale_up_many_exact [OF i1(1), of "d - ?k"] i1(2) that unfolding b by simp
    next
      case 2
      then have b: "b2 = (scale_down ^^ (?k - d)) b1" by (cases "d = ?k") (simp_all add: b2_def rescale_def sc nat_diff_distrib)
      have p: "(10 :: nat) ^ ?k = 10 ^ (?k - d) * 10 ^ d" using 2 by (simp flip: power_add)
      have "?n * 10 ^ d div 10 ^ ?k = ?n div 10 ^ (?k - d)" unfolding p by simp
      then show ?thesis using scale_down_many [OF i1(1), of "?k - d"] i1(2) unfolding b by simp
    qed
  qed
  have digits2: "b_precision b2 = of_nat (length ip + min d ?k)"
  proof (cases "d < ?k")
    case True
    then have "b2 = (scale_down ^^ (?k - d)) b1" by (simp add: b2_def rescale_def sc nat_diff_distrib)
    moreover have "of_nat (length ip + ?k) - of_nat (?k - d) = (of_nat (length ip + ?k - (?k - d)) :: u8)" by (simp add: of_nat_diff)
    ultimately show ?thesis using True by (simp add: scale_down_precision digits1 of_nat_diff)
  next
    case False
    then have "b_precision b2 = b_precision b1" by (simp add: b2_def rescale_def sc scale_up_precision Let_def)
    then show ?thesis using False by (simp add: digits1 min_def)
  qed
  define b3 where "b3 = (if min_precision (b_limbs b2) (b_precision b2) > n_precision num then b2\<lparr>b_overflow := 1\<rparr> else b2)"
  have quiet: "b_overflow b3 = 0" if w: "fp = None" "ip \<noteq> []" "length ip \<le> unat (n_precision num)"
  proof -
    have "unat (of_nat (length ip) :: u8) = length ip" using w(3) unsigned_less [of "n_precision num", where ?'a = nat] by (simp add: unat_of_nat)
    then have p: "0 < b_precision b2" "b_precision b2 \<le> n_precision num"
      using w prec2 [OF w(1)] by (simp_all add: word_less_nat_alt word_le_nat_alt)
    then have "\<not> min_precision (b_limbs b2) (b_precision b2) > n_precision num"
      using min_precision_le [OF p(1), of "b_limbs b2"] by (meson leD order_trans)
    then show ?thesis using b2 w(1) by (simp add: b3_def frac_def)
  qed
  have loud: "b_overflow b3 = (if unat (n_precision num) < p \<and> \<not> 10 ^ (p - unat (n_precision num)) dvd v then 1
      else if 10 ^ ?k dvd ?n * 10 ^ d then 0 else 2)"
    if w: "p = length ip + min d ?k" "v = ?n * 10 ^ d div 10 ^ ?k" "0 < p" "length ip + ?k < 256" "v < 2 ^ 128" for p v
  proof -
    have "p < 256" using w(1,4) by simp
    then have pv: "unat (b_precision b2) = p" unfolding digits2 w(1) [symmetric] by (simp add: unat_of_nat)
    then have "0 < b_precision b2" using w(3) by (simp add: word_less_nat_alt)
    from min_precision_value [OF _ this, of "b_limbs b2" "n_precision num"] b2 exact2 w(2,5) pv
    have "n_precision num < min_precision (b_limbs b2) (b_precision b2) \<longleftrightarrow>
        unat (n_precision num) < p \<and> \<not> 10 ^ (p - unat (n_precision num)) dvd v" by simp
    then show ?thesis using b2 by (simp add: b3_def)
  qed
  have "\<not> int d < 0" by simp
  then have "sqlnum_from_str ?str num = numeric_result neg (limb_bytes (b_limbs b2)) b3"
    unfolding sqlnum_from_str_def Let_def first b0_def [symmetric] b1(1) sc b3_def
    by (simp only: prod.case bool.case if_False b2_def)
  moreover have "b_scale b3 = n_scale num" "b_overflow b3 = 1 \<or> b_overflow b3 = b_overflow b2" using b2 by (simp_all add: b3_def)
  moreover have "length (limb_bytes (b_limbs b2)) = 16" using b2 length8 [of "b_limbs b2"] by (auto simp: limb_bytes_def carried_def)
  ultimately show ?thesis
    using b2 carried_bytes [of "b_limbs b2"] quiet loud [OF refl refl] by (auto simp: numeric_result_def Let_def)
qed

lemma from_str_core:
  assumes "all_digits ip" "all_digits (frac fp)" "length (frac fp) < 128" "dval 0 (numeral_str ip fp) < 2 ^ 128"
    "n_scale num = of_nat d" "d < 128"
  shows "\<exists>r overflow. sqlnum_from_str ((if neg then ''-'' else []) @ numeral_str ip fp) num = (r, overflow) \<and>
    n_sign r = (if neg then 0 else 1) \<and> n_scale r = n_scale num \<and> length (n_val r) = 16 \<and>
    bytes_value (n_val r) = dval 0 (numeral_str ip fp) * 10 ^ d div 10 ^ length (frac fp) mod 2 ^ 128 \<and>
    (overflow = 1 \<or> overflow = (if 10 ^ length (frac fp) dvd dval 0 (numeral_str ip fp) * 10 ^ d then 0 else 2))"
  using from_str_full [OF assms, of neg] by blast

section \<open>The digits of a number\<close>

lemma skip_zeros_app: "skip_zeros (xs @ ys) k =
    (case skip_zeros xs k of Some m \<Rightarrow> Some m | None \<Rightarrow> skip_zeros ys (k + length xs))"
  by (induction xs arbitrary: k) (simp_all split: option.split)

lemma skip_zeros_None: "skip_zeros xs k = None \<longleftrightarrow> (\<forall>x \<in> set xs. x = 0)"
  by (induction xs arbitrary: k) auto

lemma skip_zeros_Some:
  "skip_zeros xs k = Some m \<Longrightarrow> k \<le> m \<and> m < k + length xs \<and> xs ! (m - k) \<noteq> 0 \<and> (\<forall>i < m - k. xs ! i = 0)"
proof (induction xs arbitrary: k)
  case (Cons x xs)
  show ?case
  proof (cases "x = 0")
    case True
    then have IH: "Suc k \<le> m \<and> m < Suc k + length xs \<and> xs ! (m - Suc k) \<noteq> 0 \<and> (\<forall>i < m - Suc k. xs ! i = 0)"
      using Cons.IH [of "Suc k"] Cons.prems by simp
    then have "m - k = Suc (m - Suc k)" by linarith
    moreover have "k \<le> m" "m < k + length (x # xs)" using IH by simp_all
    moreover have "(x # xs) ! i = 0" if "i < Suc (m - Suc k)" for i
      using that IH True by (cases i) auto
    ultimately show ?thesis using IH by auto
  qed (use Cons in simp)
qed simp

text \<open>Limbs with the most significant first.\<close>

definition bval :: "limbs \<Rightarrow> nat" where "bval a = lval (rev a)"

definition be_limbs :: "nat \<Rightarrow> limbs \<Rightarrow> bool" where
  "be_limbs m a \<longleftrightarrow> length a = 8 \<and> (\<forall>x \<in> set a. unat x < 65536) \<and> (\<forall>i < m. i < 8 \<longrightarrow> a ! i = 0)"

lemma unscale_be_step0:
  "a ! i = 0 \<Longrightarrow> (a[i + 1 := a ! (i + 1) + push_bit 16 (a ! i mod 10)])[i := a ! i div 10] = (a :: limbs)"
  using list_update_id [of a i] by simp

lemma unscale_be_start:
  assumes "\<forall>i < m. a ! i = 0" "m \<le> 7"
  shows "sqlnum_unscale_be a m = sqlnum_unscale_be a 0"
proof -
  let ?f = "\<lambda>i a :: limbs. (a[i + 1 := a ! (i + 1) + push_bit 16 (a ! i mod 10)])[i := a ! i div 10]"
  have "fold ?f [0 ..< k] a = a" if "k \<le> m" for k
    using that
  proof (induction k)
    case (Suc k)
    then show ?case using unscale_be_step0 [of a k] assms(1) by simp
  qed simp
  moreover have "[0 ..< 7] = [0 ..< m] @ [m ..< 7]" using upt_add_eq_append [of 0 m "7 - m"] assms(2) by simp
  ultimately show ?thesis by (simp add: sqlnum_unscale_be_def)
qed

lemma unscale_be_le:
  assumes "length a = 8"
  shows "sqlnum_unscale_be a 0 = rev (sqlnum_unscale_le (rev a))"
proof -
  obtain a7 a6 a5 a4 a3 a2 a1 a0 where a: "a = [a7, a6, a5, a4, a3, a2, a1, a0]" using length8 [OF assms] by blast
  define x6 where "x6 = a6 + push_bit 16 (a7 mod 10)"
  define x5 where "x5 = a5 + push_bit 16 (x6 mod 10)"
  define x4 where "x4 = a4 + push_bit 16 (x5 mod 10)"
  define x3 where "x3 = a3 + push_bit 16 (x4 mod 10)"
  define x2 where "x2 = a2 + push_bit 16 (x3 mod 10)"
  define x1 where "x1 = a1 + push_bit 16 (x2 mod 10)"
  define x0 where "x0 = a0 + push_bit 16 (x1 mod 10)"
  note x = x6_def x5_def x4_def x3_def x2_def x1_def x0_def
  have u: "[0 ..< 7] = [0, 1, 2, 3, 4, 5, 6 :: nat]" by (simp add: upt_rec)
  have "sqlnum_unscale_le (rev a) = [x0, x1 div 10, x2 div 10, x3 div 10, x4 div 10, x5 div 10, x6 div 10, a7 div 10]"
    by (simp add: a sqlnum_unscale_le_def flip: x)
  moreover have "sqlnum_unscale_be a 0 = [a7 div 10, x6 div 10, x5 div 10, x4 div 10, x3 div 10, x2 div 10, x1 div 10, x0]"
    by (simp add: a sqlnum_unscale_be_def u flip: x)
  ultimately show ?thesis by simp
qed

lemma unscale_be_before: "i < m \<Longrightarrow> sqlnum_unscale_be a m ! i = a ! i"
proof -
  assume i: "i < m"
  have "fold (\<lambda>i a. (a[i + 1 := a ! (i + 1) + push_bit 16 (a ! i mod 10)])[i := a ! i div 10]) is a ! i = a ! i"
    if "\<forall>k \<in> set is. m \<le> k" for "is" and a :: limbs
    using that
  proof (induction "is" arbitrary: a)
    case (Cons k ks)
    then have "k \<noteq> i" "k + 1 \<noteq> i" using i by auto
    then show ?case using Cons by simp
  qed simp
  then show ?thesis by (simp add: sqlnum_unscale_be_def)
qed

lemma unscale_be_value:
  assumes "be_limbs m a" "m \<le> 7"
  defines "u \<equiv> sqlnum_unscale_be a m"
  shows "be_limbs m (u[7 := u ! 7 div 10])" "bval (u[7 := u ! 7 div 10]) = bval a div 10" "unat (u ! 7 mod 10) = bval a mod 10"
proof -
  have len: "length a = 8" and small: "\<forall>x \<in> set a. unat x < 65536" using assms(1) by (simp_all add: be_limbs_def)
  let ?r = "rev a" and ?l = "sqlnum_unscale_le (rev a)"
  have c: "carried ?r" unfolding carried_def using len small by (metis in_set_butlastD length_rev set_rev)
  have u: "u = rev ?l" unfolding u_def using assms(1,2) unscale_be_start [of m a] unscale_be_le [OF len] by (simp add: be_limbs_def)
  have d: "carried (div0 ?l)" using unscale_value(1) [OF c] .
  then have ll: "length ?l = 8" by (simp add: carried_def div0_def)
  have v: "u[7 := u ! 7 div 10] = rev (div0 ?l)" "u ! 7 = ?l ! 0"
    using length8 [OF ll] by (auto simp: u div0_def)
  have lv: "lval (div0 ?l) = lval ?r div 10" using unscale_value(2) [OF c] .
  show "bval (u[7 := u ! 7 div 10]) = bval a div 10" unfolding bval_def v(1) rev_rev_ident by (rule lv)
  show "unat (u ! 7 mod 10) = bval a mod 10" using unscale_value(3) [OF c] by (simp add: v(2) bval_def)
  have "lval ?r < 2 ^ 128" using lval_less [of ?r] small len by simp
  then have "lval (div0 ?l) < 2 ^ 128" unfolding lv by (meson div_le_dividend le_less_trans)
  then have "\<forall>x \<in> set (div0 ?l). unat x < 65536" using carried_all [OF d] by blast
  moreover have "u[7 := u ! 7 div 10] ! i = 0" if "i < m" for i
    using that assms(1,2) unscale_be_before [OF that, of a] by (simp add: be_limbs_def u_def)
  ultimately show "be_limbs m (u[7 := u ! 7 div 10])" using d v(1) by (simp add: be_limbs_def carried_def)
qed


section \<open>The buffer\<close>

definition tail_of :: "outbuf \<Rightarrow> string" where
  "tail_of b = drop (nat (snd b + 1)) (fst b)"

definition room :: "outbuf \<Rightarrow> nat \<Rightarrow> bool" where
  "room b n \<longleftrightarrow> int n \<le> snd b + 1 \<and> snd b < int (length (fst b))"

lemma put_tail:
  assumes "room b (Suc n)"
  obtains b' where "put c b = Some b'" "tail_of b' = c # tail_of b" "room b' n"
proof
  let ?b = "((fst b)[nat (snd b) := c], snd b - 1)"
  have p: "0 \<le> snd b" "snd b < int (length (fst b))" "int n \<le> snd b" using assms by (auto simp: room_def)
  then show "put c b = Some ?b" by (cases b) (simp add: put_def)
  have "nat (snd b) < length (fst b)" "nat (snd b + 1) = Suc (nat (snd b))" using p by (simp_all add: nat_add_distrib)
  then show "tail_of ?b = c # tail_of b"
    by (simp add: tail_of_def drop_update_swap Cons_nth_drop_Suc [symmetric])
  show "room ?b n" using p by (simp add: room_def)
qed

lemma room_mono: "room b n \<Longrightarrow> m \<le> n \<Longrightarrow> room b m"
  by (auto simp: room_def)

lemma put_many_tail:
  assumes "room b (n + k)"
  obtains b' where "put_many n c b = Some b'" "tail_of b' = replicate n c @ tail_of b" "room b' k"
  using assms
proof (induction n arbitrary: b thesis)
  case (Suc n)
  obtain b1 where b1: "put c b = Some b1" "tail_of b1 = c # tail_of b" "room b1 (n + k)"
    using put_tail [of b "n + k" c] Suc.prems(2) by auto
  obtain b2 where "put_many n c b1 = Some b2" "tail_of b2 = replicate n c @ tail_of b1" "room b2 k"
    using Suc.IH [OF _ b1(3)] by blast
  then show ?case using b1 Suc.prems(1) [of b2] by (simp add: replicate_app_Cons_same)
qed simp

text \<open>What the digit loop writes in front of a string: the digits of a number from place \<open>j\<close> on.\<close>

definition dchar :: "nat \<Rightarrow> char" where "dchar n = char_of (48 + n mod 10)"

fun emit :: "int \<Rightarrow> nat \<Rightarrow> nat \<Rightarrow> nat \<Rightarrow> string \<Rightarrow> string" where
  "emit req 0 j v s = s"
| "emit req (Suc n) j v s =
     (if v = 0 then s
      else emit req n (Suc j) (v div 10) ((if int j = req - 1 then ''.'' else []) @ dchar v # s))"

fun num_length :: "nat \<Rightarrow> nat \<Rightarrow> nat" where
  "num_length 0 v = 0"
| "num_length (Suc n) v = (if v = 0 then 0 else Suc (num_length n (v div 10)))"

lemma lval_zero: "lval a = 0 \<longleftrightarrow> (\<forall>x \<in> set a. x = 0)"
  by (induction a) (auto simp: unat_eq_0)

lemma be_limbs_skip:
  assumes "be_limbs m a" "m \<le> 7" "skip_zeros (drop m (a @ past)) m = Some m1"
  shows "bval a = 0 \<Longrightarrow> 7 < m1" "bval a \<noteq> 0 \<Longrightarrow> m1 \<le> 7 \<and> be_limbs m1 a \<and> (m1 = 7 \<longrightarrow> a ! 7 \<noteq> 0)"
proof -
  have len: "length a = 8" using assms(1) by (simp add: be_limbs_def)
  have d: "drop m (a @ past) = drop m a @ past" using len assms(2) by simp
  have all: "x = 0" if z: "\<forall>y \<in> set (drop m a). y = 0" and x: "x \<in> set a" for x
  proof -
    obtain i where i: "i < 8" "x = a ! i" using x len by (metis in_set_conv_nth)
    show ?thesis
    proof (cases "i < m")
      case True
      then show ?thesis using assms(1) i by (simp add: be_limbs_def)
    next
      case False
      then have "a ! i \<in> set (drop m a)" using i(1) len nth_mem [of "i - m" "drop m a"] by simp
      then show ?thesis using z i(2) by blast
    qed
  qed
  show "7 < m1" if "bval a = 0"
  proof -
    have "\<forall>y \<in> set (drop m a). y = 0" using that by (auto simp: bval_def lval_zero dest: in_set_dropD)
    then have "skip_zeros (drop m a) m = None" by (simp add: skip_zeros_None)
    then have "skip_zeros past (m + length (drop m a)) = Some m1" using assms(3) unfolding d skip_zeros_app by simp
    from skip_zeros_Some [OF this] show ?thesis using len assms(2) by simp
  qed
  assume "bval a \<noteq> 0"
  then have "skip_zeros (drop m a) m \<noteq> None" unfolding skip_zeros_None bval_def lval_zero using all by auto
  then have "skip_zeros (drop m a) m = Some m1" using assms(3) unfolding d skip_zeros_app by (auto split: option.splits)
  note s = skip_zeros_Some [OF this]
  have "a ! i = 0" if "i < m1" for i
  proof (cases "i < m")
    case False
    then have "drop m a ! (i - m) = 0" using s that by (simp del: nth_drop)
    then show ?thesis using False len assms(2) by simp
  qed (use assms(1,2) in \<open>simp add: be_limbs_def\<close>)
  moreover have "m + (m1 - m) = m1" using s by simp
  then have "m1 \<le> 7" "a ! m1 \<noteq> 0" using s len assms(2) by auto
  ultimately show "m1 \<le> 7 \<and> be_limbs m1 a \<and> (m1 = 7 \<longrightarrow> a ! 7 \<noteq> 0)" using assms(1) by (auto simp: be_limbs_def)
qed


lemma peek_tail: "room b 0 \<Longrightarrow> tail_of b \<noteq> [] \<Longrightarrow> peek (fst b) (snd b + 1) = Some (hd (tail_of b))"
  by (auto simp: room_def tail_of_def peek_def hd_drop_conv_nth)

lemma dchar_simps [simp]: "isdigit_c (dchar n)" "digit (dchar n) = n mod 10" "dchar n \<noteq> CHR 0x00" "dchar n \<noteq> CHR ''.''"
proof -
  have c: "code (dchar n) = 48 + n mod 10" unfolding dchar_def by (rule code_char_of) simp
  then show "isdigit_c (dchar n)" "digit (dchar n) = n mod 10" by (simp_all add: isdigit_c_def digit_def)
  then show "dchar n \<noteq> CHR 0x00" "dchar n \<noteq> CHR ''.''" by (auto simp: isdigit_c_def code_def)
qed

lemma dchar_digit: "digit_char x = dchar (unat x)"
  by (simp add: digit_char_def dchar_def unat_mod)

lemma digit_loop_value:
  assumes "be_limbs m a" "m \<le> 7" "bval a < 10 ^ n" "\<exists>x \<in> set past. x \<noteq> 0"
    "room b (k + num_length n (bval a) + (if int j < req then 1 else 0))" "tail_of b \<noteq> []" "hd (tail_of b) \<noteq> CHR 0x00 \<or> bval a \<noteq> 0"
  shows "\<exists>b'. digit_loop past req n j m a b prec = Some (b', prec + num_length n (bval a)) \<and>
    tail_of b' = emit req n j (bval a) (tail_of b) \<and> room b' k"
  using assms
proof (induction n arbitrary: j m a b prec)
  case 0
  then show ?case by (auto intro: room_mono)
next
  case (Suc n)
  have len: "length a = 8" using Suc.prems(1) by (simp add: be_limbs_def)
  have "skip_zeros (drop m (a @ past)) m \<noteq> None"
    using Suc.prems(2,4) len by (auto simp: skip_zeros_None)
  then obtain m1 where m1: "skip_zeros (drop m (a @ past)) m = Some m1" by blast
  note sk = be_limbs_skip [OF Suc.prems(1,2) m1]
  show ?case
  proof (cases "bval a = 0")
    case True
    then have "7 \<le> m1" "a ! 7 = 0" using sk(1) len by (auto simp: bval_def lval_zero)
    moreover have "peek (fst b) (snd b + 1) = Some (hd (tail_of b))"
      using Suc.prems(5,6) by (auto intro: peek_tail room_mono)
    moreover have "room b k" using Suc.prems(5) by (rule room_mono) simp
    ultimately show ?thesis using True m1 Suc.prems(7) by simp
  next
    case False
    then have s: "m1 \<le> 7" "be_limbs m1 a" "m1 = 7 \<Longrightarrow> a ! 7 \<noteq> 0" using sk(2) by blast+
    define u where "u = (if 7 \<le> m1 then a else sqlnum_unscale_be a m1)"
    have "sqlnum_unscale_be a 7 = a" by (simp add: sqlnum_unscale_be_def)
    then have u: "u = sqlnum_unscale_be a m1" using s(1) by (cases "m1 = 7") (auto simp: u_def)
    note uv = unscale_be_value [OF s(2,1), folded u]
    let ?a1 = "u[7 := u ! 7 div 10]" and ?dot = "int j = req - 1"
    have c: "digit_char (u ! 7) = dchar (bval a)" using uv(3) by (simp add: dchar_digit dchar_def unat_mod)
    have r: "room b (Suc (k + num_length n (bval a div 10) + (if int j < req then 1 else 0)))"
      using Suc.prems(5) False by simp
    obtain b1 where b1: "put (dchar (bval a)) b = Some b1" "tail_of b1 = dchar (bval a) # tail_of b"
        "room b1 (k + num_length n (bval a div 10) + (if int j < req then 1 else 0))"
      using put_tail [OF r] by blast
    obtain b2 where b2: "(if ?dot then put (CHR ''.'') b1 else Some b1) = Some b2"
        "tail_of b2 = (if ?dot then ''.'' else []) @ dchar (bval a) # tail_of b"
        "room b2 (k + num_length n (bval a div 10) + (if int (Suc j) < req then 1 else 0))"
    proof (cases ?dot)
      case True
      then have "room b1 (Suc (k + num_length n (bval a div 10)))" using b1(3) by simp
      from put_tail [OF this, of "CHR ''.''"] show ?thesis using True b1(2) that by auto
    next
      case False
      then have "int (Suc j) < req \<longleftrightarrow> int j < req" by auto
      then show ?thesis using b1 that [of b1] False by simp
    qed
    have B: "bval ?a1 < 10 ^ n" using Suc.prems(3) uv(2) by (simp add: less_mult_imp_div_less mult.commute)
    have H: "hd (tail_of b2) \<noteq> CHR 0x00" "tail_of b2 \<noteq> []" unfolding b2(2) by auto
    have R: "room b2 (k + num_length n (bval ?a1) + (if int (Suc j) < req then 1 else 0))" using b2(3) unfolding uv(2) .
    have "\<exists>b'. digit_loop past req n (Suc j) m1 ?a1 b2 (Suc prec) = Some (b', Suc prec + num_length n (bval ?a1)) \<and>
        tail_of b' = emit req n (Suc j) (bval ?a1) (tail_of b2) \<and> room b' k"
      by (rule Suc.IH [OF uv(1) s(1) B Suc.prems(4) R H(2)]) (simp add: H(1))
    moreover have "digit_loop past req (Suc n) j m a b prec = digit_loop past req n (Suc j) m1 ?a1 b2 (Suc prec)"
    proof -
      have nz: "(m1 \<ge> 7 \<and> a ! 7 = 0) = False" using s(1,3) by auto
      show ?thesis
        by (simp only: digit_loop.simps m1 Option.bind.simps nz if_False Let_def c b1(1) b2(1) flip: u_def)
    qed
    ultimately show ?thesis using False uv(2) b2(2) by simp
  qed
qed


text \<open>The string after \<open>j\<close> digits of a number with \<open>d\<close> places behind the point.\<close>

definition decimal :: "nat \<Rightarrow> nat \<Rightarrow> string \<Rightarrow> nat \<Rightarrow> bool" where
  "decimal d j s w \<longleftrightarrow> dval 0 s = w \<and>
     (if d = 0 \<or> j < d then all_digits s \<and> length s = j
      else \<exists>ip f. s = ip @ CHR ''.'' # f \<and> all_digits ip \<and> all_digits f \<and> length f = d \<and> length ip = j - d)"

lemma decimal_num_digits: "decimal d j s w \<Longrightarrow> num_digits s = j"
  by (auto simp: decimal_def split: if_splits)

lemma decimal_step:
  assumes "decimal d j s w"
  shows "decimal d (Suc j) ((if int j = int d - 1 then ''.'' else []) @ dchar v # s) (v mod 10 * 10 ^ j + w)"
proof -
  have v: "dval 0 ((if int j = int d - 1 then ''.'' else []) @ dchar v # s) = v mod 10 * 10 ^ j + w"
    using dval_shift [of "v mod 10" s] decimal_num_digits [OF assms] assms by (simp add: decimal_def)
  consider "int j = int d - 1" | "d = 0 \<or> Suc j < d" | "0 < d" "d \<le> j" by linarith
  then show ?thesis
  proof cases
    case 1
    then have "0 < d" "j < d" "\<not> Suc j < d" "Suc j - d = 0" by linarith+
    then have "all_digits s \<and> length s = j" using assms by (simp add: decimal_def)
    then have "\<exists>ip f. ''.'' @ dchar v # s = ip @ CHR ''.'' # f \<and> all_digits ip \<and> all_digits f \<and> length f = d \<and> length ip = Suc j - d"
      using 1 by (intro exI [of _ "[]"] exI [of _ "dchar v # s"]) auto
    then show ?thesis using 1 v \<open>0 < d\<close> \<open>\<not> Suc j < d\<close> by (simp add: decimal_def)
  next
    case 2
    then show ?thesis using assms v by (auto simp: decimal_def)
  next
    case 3
    then obtain ip f where s: "s = ip @ CHR ''.'' # f" "all_digits ip" "all_digits f" "length f = d" "length ip = j - d"
      using assms by (auto simp: decimal_def)
    then have "\<exists>ip f. dchar v # s = ip @ CHR ''.'' # f \<and> all_digits ip \<and> all_digits f \<and> length f = d \<and> length ip = Suc j - d"
      using 3 by (intro exI [of _ "dchar v # ip"] exI [of _ f]) (auto simp: Suc_diff_le)
    then show ?thesis using 3 v by (simp add: decimal_def)
  qed
qed

lemma decimal_emit:
  "decimal d j s w \<Longrightarrow> v < 10 ^ n \<Longrightarrow> decimal d (j + num_length n v) (emit (int d) n j v s) (v * 10 ^ j + w)"
proof (induction n arbitrary: j v s w)
  case (Suc n)
  show ?case
  proof (cases "v = 0")
    case False
    have "v div 10 < 10 ^ n" using Suc.prems(2) by (simp add: less_mult_imp_div_less mult.commute)
    from Suc.IH [OF decimal_step [OF Suc.prems(1), of v] this]
    have "decimal d (Suc j + num_length n (v div 10)) (emit (int d) (Suc n) j v s) (v div 10 * 10 ^ Suc j + (v mod 10 * 10 ^ j + w))"
      using False by simp
    note D = this
    have "v div 10 * 10 ^ Suc j + v mod 10 * 10 ^ j = (10 * (v div 10) + v mod 10) * 10 ^ j" by (simp only: distrib_left distrib_right power_Suc ac_simps)
    then have e: "v div 10 * 10 ^ Suc j + (v mod 10 * 10 ^ j + w) = v * 10 ^ j + w" by simp
    have "j + num_length (Suc n) v = Suc j + num_length n (v div 10)" using False by simp
    then show ?thesis using D unfolding e by (simp only:)
  qed (use Suc in simp)
qed simp

lemma emit_app: "emit req n j v (s @ t) = emit req n j v s @ t"
  by (induction req n j v s rule: emit.induct) simp_all

lemma num_length_bound: "v < 10 ^ r \<Longrightarrow> num_length n v \<le> r"
proof (induction n arbitrary: v r)
  case (Suc n)
  show ?case
  proof (cases r)
    case (Suc r')
    then have "v div 10 < 10 ^ r'" using Suc.prems by (simp add: less_mult_imp_div_less mult.commute)
    with Suc.IH Suc show ?thesis by simp
  qed (use Suc in simp)
qed simp

lemma length16: "length v = 16 \<Longrightarrow> \<exists>b0 b1 b2 b3 b4 b5 b6 b7 b8 b9 b10 b11 b12 b13 b14 b15.
    v = [b0, b1, b2, b3, b4, b5, b6, b7, b8, b9, b10, b11, b12, b13, b14, b15]"
  by (auto simp: numeral_eq_Suc length_Suc_conv)

lemma unat_byte_pair: "unat (push_bit 8 (ucast (hi :: u8)) OR ucast (lo :: u8) :: u32) = unat hi * 256 + unat lo"
proof -
  have "unat lo < 256" "unat hi < 256" using unsigned_less [of lo, where 'a=nat] unsigned_less [of hi, where 'a=nat] by simp_all
  then show ?thesis using unat_or_shifted [of "ucast lo :: u32" 8 "ucast hi :: u32"] by simp
qed

lemma expand_value:
  assumes "length val = 16"
  shows "be_limbs 0 (expand val)" "bval (expand val) = bytes_value val"
proof -
  obtain b0 b1 b2 b3 b4 b5 b6 b7 b8 b9 b10 b11 b12 b13 b14 b15 where
    v: "val = [b0, b1, b2, b3, b4, b5, b6, b7, b8, b9, b10, b11, b12, b13, b14, b15]" using length16 [OF assms] by blast
  have u: "[0 ..< 8] = [0, 1, 2, 3, 4, 5, 6, 7 :: nat]" by (simp add: upt_rec)
  let ?p = "\<lambda>hi lo :: u8. push_bit 8 (ucast hi) OR ucast lo :: u32"
  have e: "expand val = [?p b15 b14, ?p b13 b12, ?p b11 b10, ?p b9 b8, ?p b7 b6, ?p b5 b4, ?p b3 b2, ?p b1 b0]"
    by (simp add: expand_def u v)
  show "bval (expand val) = bytes_value val"
    unfolding e by (simp add: bval_def unat_byte_pair v)
  have "unat hi * 256 + unat lo < 65536" for hi lo :: u8
    using unsigned_less [of lo, where 'a=nat] unsigned_less [of hi, where 'a=nat] by simp
  then show "be_limbs 0 (expand val)" unfolding e be_limbs_def by (simp add: unat_byte_pair)
qed

lemma bytes_value_inj: "length xs = length ys \<Longrightarrow> bytes_value xs = bytes_value ys \<Longrightarrow> xs = ys"
proof (induction xs ys rule: list_induct2)
  case (Cons x xs y ys)
  have "unat x < 256" "unat y < 256" using unsigned_less [of x, where 'a=nat] unsigned_less [of y, where 'a=nat] by simp_all
  then have "unat x = unat y" "bytes_value xs = bytes_value ys" using Cons.prems by (auto dest: arg_cong [of _ _ "\<lambda>n. n mod 256"] arg_cong [of _ _ "\<lambda>n. n div 256"])
  with Cons show ?case by (simp add: word_unat_eq_iff)
qed simp

lemma bytes_value_bound: "bytes_value xs < 256 ^ length xs"
proof (induction xs)
  case (Cons x xs)
  have "unat x < 256" using unsigned_less [of x, where 'a=nat] by simp
  with Cons show ?case by simp
qed simp

text \<open>The digits of a number, as they are after the padding: a numeral of its value.\<close>

definition numeral_of :: "nat \<Rightarrow> nat \<Rightarrow> string \<Rightarrow> bool" where
  "numeral_of d v s \<longleftrightarrow> (\<exists>ip fp. s = numeral_str ip fp \<and> all_digits ip \<and> all_digits (frac fp) \<and>
     dval 0 s = v \<and> (length (frac fp) = d \<or> v = 0 \<and> length (frac fp) < 128))"

lemma digit_loop_string:
  assumes "length val = 16" "bytes_value val = v" "\<exists>x \<in> set past. x \<noteq> 0" "room b (k + 40)" "tail_of b = [CHR 0x00]"
  shows "\<exists>b' prec s. digit_loop past (int d) 39 0 0 (expand val) b 0 = Some (b', prec) \<and> tail_of b' = s @ [CHR 0x00] \<and>
    room b' k \<and> (v = 0 \<and> s = ''0'' \<and> prec = 1 \<or> v \<noteq> 0 \<and> prec = num_length 39 v \<and> decimal d prec s v)"
proof (cases "v = 0")
  case True
  note e = expand_value [OF assms(1)]
  have "skip_zeros (drop 0 (expand val @ past)) 0 \<noteq> None" using assms(3) by (auto simp: skip_zeros_None)
  then obtain m1 where m1: "skip_zeros (expand val @ past) 0 = Some m1" by auto
  have "7 < m1" using be_limbs_skip(1) [OF e(1), of past m1] m1 e(2) assms(2) True by simp
  moreover have "expand val ! 7 = 0" using e assms(2) True by (auto simp: bval_def lval_zero be_limbs_def)
  moreover have "peek (fst b) (snd b + 1) = Some (CHR 0x00)"
    using peek_tail [of b] assms(4,5) by (auto intro: room_mono)
  moreover obtain b' where "put (CHR ''0'') b = Some b'" "tail_of b' = CHR ''0'' # tail_of b" "room b' k"
    using put_tail [of b k "CHR ''0''"] room_mono [OF assms(4), of "Suc k"] by auto
  moreover have "(39 :: nat) = Suc 38" by simp
  ultimately have "digit_loop past (int d) 39 0 0 (expand val) b 0 = Some (b', 1)"
    using m1 by (simp only: digit_loop.simps drop_0 Option.bind.simps) simp
  then show ?thesis using True \<open>tail_of b' = CHR ''0'' # tail_of b\<close> \<open>room b' k\<close> assms(5) by auto
next
  case False
  note e = expand_value [OF assms(1)]
  have b: "v < 2 ^ 128" using bytes_value_bound [of val] assms(1,2) by simp
  have "(2 :: nat) ^ 128 < 10 ^ 39" by simp
  with b have lt: "v < 10 ^ 39" by (rule less_trans)
  have "num_length 39 v \<le> 39" using num_length_bound [OF lt] .
  then have R: "room b (k + num_length 39 (bval (expand val)) + (if int 0 < int d then 1 else 0))"
    using e(2) assms(2) by (intro room_mono [OF assms(4)]) simp
  have T: "tail_of b \<noteq> []" "hd (tail_of b) \<noteq> CHR 0x00 \<or> bval (expand val) \<noteq> 0" using assms(2,5) False e(2) by simp_all
  have L: "bval (expand val) < 10 ^ 39" using lt e(2) assms(2) by simp
  have v: "bval (expand val) = v" using e(2) assms(2) by simp
  obtain b' where "digit_loop past (int d) 39 0 0 (expand val) b 0 = Some (b', num_length 39 v)"
      "tail_of b' = emit (int d) 39 0 v [CHR 0x00]" "room b' k"
    using digit_loop_value [OF e(1) le0 L assms(3) R T, of 0] unfolding v add_0 assms(5) by blast
  moreover have "decimal d 0 [] 0" by (cases d) (simp_all add: decimal_def)
  then have "decimal d (num_length 39 v) (emit (int d) 39 0 v []) v" using decimal_emit [OF _ lt, of d 0 "[]" 0] by (simp only: add_0 power_0 mult.right_neutral add_0_right)
  moreover have "emit (int d) 39 0 v [CHR 0x00] = emit (int d) 39 0 v [] @ [CHR 0x00]"
    using emit_app [of "int d" 39 0 v "[]" "[CHR 0x00]"] by (simp only: append_Nil)
  ultimately show ?thesis using False by auto
qed

definition padded :: "nat \<Rightarrow> nat \<Rightarrow> string \<Rightarrow> string" where
  "padded d prec s = (if prec < d then ''0.'' @ replicate (d - prec) (CHR ''0'') @ s else s)"

lemma digit_zero: "isdigit_c CHR ''0''" "digit CHR ''0'' = 0"
  by (simp_all add: isdigit_c_def digit_def code_def)

lemma dval_zeros: "dval 0 (replicate n (CHR ''0'') @ s) = dval 0 s"
  by (induction n) (simp_all add: digit_zero)

lemma numeral_ofI:
  "s = numeral_str ip fp \<Longrightarrow> all_digits ip \<Longrightarrow> all_digits (frac fp) \<Longrightarrow> dval 0 s = v \<Longrightarrow>
     length (frac fp) = d \<or> v = 0 \<and> length (frac fp) < 128 \<Longrightarrow> numeral_of d v s"
  unfolding numeral_of_def by blast

lemma padded_numeral:
  assumes "v = 0 \<and> s = ''0'' \<and> prec = 1 \<or> v \<noteq> 0 \<and> decimal d prec s v"
  shows "numeral_of d v (padded d prec s)"
proof -
  have s: "dval 0 s = v" "prec < d \<Longrightarrow> all_digits s \<and> length s = prec"
    using assms by (auto simp: decimal_def digit_zero)
  show ?thesis
  proof (cases "prec < d")
    case True
    then show ?thesis using s
      by (intro numeral_ofI [of _ "''0''" "Some (replicate (d - prec) (CHR ''0'') @ s)"])
        (auto simp: padded_def numeral_str_def frac_def digit_zero dval_zeros)
  next
    case False
    then have p: "padded d prec s = s" by (simp add: padded_def)
    consider "v = 0" "s = ''0''" | "d = 0" "all_digits s" | ip f where "s = ip @ CHR ''.'' # f" "all_digits ip" "all_digits f" "length f = d"
      using assms False by (auto simp: decimal_def split: if_splits)
    then show ?thesis
    proof cases
      case 1
      then show ?thesis unfolding p by (intro numeral_ofI [of _ "''0''" None]) (auto simp: numeral_str_def frac_def digit_zero)
    next
      case 2
      then show ?thesis unfolding p using s(1) by (intro numeral_ofI [of _ s None]) (auto simp: numeral_str_def frac_def)
    next
      case 3
      then show ?thesis unfolding p using s(1) by (intro numeral_ofI [of _ ip "Some f"]) (auto simp: numeral_str_def frac_def)
    qed
  qed
qed

lemma numeral_of_read:
  assumes "numeral_of d v s" "v < 2 ^ 128" "n_scale num = of_nat d" "d < 128"
  shows "\<exists>r overflow. sqlnum_from_str ((if neg then ''-'' else []) @ s) num = (r, overflow) \<and>
    n_sign r = (if neg then 0 else 1) \<and> n_scale r = n_scale num \<and> length (n_val r) = 16 \<and>
    bytes_value (n_val r) = v \<and> overflow \<in> {0, 1}"
proof -
  obtain ip fp where f: "s = numeral_str ip fp" "all_digits ip" "all_digits (frac fp)" "dval 0 s = v"
      "length (frac fp) = d \<or> v = 0 \<and> length (frac fp) < 128"
    using assms(1) by (auto simp: numeral_of_def)
  then have "length (frac fp) < 128" "dval 0 (numeral_str ip fp) < 2 ^ 128" using assms(2,4) by auto
  from from_str_core [OF f(2,3) this assms(3,4), of neg] obtain r overflow where r:
      "sqlnum_from_str ((if neg then ''-'' else []) @ s) num = (r, overflow)"
      "n_sign r = (if neg then 0 else 1)" "n_scale r = n_scale num" "length (n_val r) = 16"
      "bytes_value (n_val r) = v * 10 ^ d div 10 ^ length (frac fp) mod 2 ^ 128"
      "overflow = 1 \<or> overflow = (if 10 ^ length (frac fp) dvd v * 10 ^ d then 0 else 2)"
    unfolding f(1) [symmetric] f(4) by blast
  have "v * 10 ^ d div 10 ^ length (frac fp) = v" "10 ^ length (frac fp) dvd v * 10 ^ d" using f(5) by auto
  then show ?thesis using r assms(2) by auto
qed



text \<open>Scaling up has no test for an overflow: a whole number that fits the requested precision is stored modulo
  \<open>2 ^ 128\<close> after its multiplication by \<open>10 ^ d\<close>, and the overflow indicator stays zero.\<close>

theorem sqlnum_from_str_wraps:
  assumes "all_digits s" "s \<noteq> []" "dval 0 s < 2 ^ 128" "length s \<le> unat (n_precision num)" "n_scale num = of_nat d" "d < 128"
  shows "\<exists>r. sqlnum_from_str s num = (r, 0) \<and> n_scale r = n_scale num \<and>
    bytes_value (n_val r) = dval 0 s * 10 ^ d mod 2 ^ 128"
proof -
  have s: "numeral_str s None = s" by (simp add: numeral_str_def)
  show ?thesis using from_str_full [of s None num d False] assms by (simp add: s frac_def) blast
qed

theorem sqlnum_from_str_wraps_witness:
  "\<exists>r. sqlnum_from_str ''1'' \<lparr>n_precision = 1, n_scale = 39, n_sign = 0, n_val = []\<rparr> = (r, 0) \<and> n_scale r = 39 \<and>
     bytes_value (n_val r) \<noteq> 10 ^ 39"
proof -
  have h: "all_digits ''1''" "dval 0 ''1'' = 1" by (simp_all add: isdigit_c_def digit_def code_def)
  then obtain r where "sqlnum_from_str ''1'' \<lparr>n_precision = 1, n_scale = 39, n_sign = 0, n_val = []\<rparr> = (r, 0)"
    "n_scale r = 39" "bytes_value (n_val r) = 10 ^ 39 mod 2 ^ 128"
    using sqlnum_from_str_wraps [of "''1''" "\<lparr>n_precision = 1, n_scale = 39, n_sign = 0, n_val = []\<rparr>" 39] by auto
  then show ?thesis by simp
qed

text \<open>C34: \<open>sqlnum_to_str\<close> writes a numeral that \<open>sqlnum_from_str\<close> reads back to the same sixteen bytes, sign
  and scale: for every value whose digits fit the requested precision and every scale from 0 to 127, in a buffer
  of scale and 45 bytes, when the memory behind the digit array holds an integer that is not zero. No store is outside
  the buffer, and the result is terminated.\<close>

theorem sqlnum_roundtrip:
  assumes "length (n_val num) = 16" "n_sign num = 0 \<or> n_sign num = 1" "bytes_value (n_val num) < 10 ^ unat reqprec"
    "0 < reqprec" "d < 128" "\<exists>x \<in> set past. x \<noteq> 0" "d + 45 \<le> length buf" "n_scale target = of_nat d"
  shows "\<exists>num' buf' k str r overflow.
    sqlnum_to_str past buf reqprec (of_nat d) num = Some (num', buf', Some k, 0) \<and>
    drop k buf' = str @ [CHR 0x00] \<and> sqlnum_from_str str target = (r, overflow) \<and>
    n_val r = n_val num \<and> n_sign r = n_sign num \<and> n_scale r = of_nat d \<and> overflow \<in> {0, 1}"
proof -
  define v where "v = bytes_value (n_val num)"
  have room: "room (buf, int (length buf) - 1) (Suc (d + 44))" using assms(7) by (simp add: room_def)
  then obtain b0 where b0: "put (CHR 0x00) (buf, int (length buf) - 1) = Some b0" "tail_of b0 = [CHR 0x00]" "room b0 (d + 44)"
    using put_tail [OF room, of "CHR 0x00"] by (auto simp: tail_of_def)
  have r0: "room b0 (d + 4 + 40)" using b0(3) by (rule room_mono) simp
  obtain b1 prec s where b1: "digit_loop past (int d) 39 0 0 (expand (n_val num)) b0 0 = Some (b1, prec)"
      "tail_of b1 = s @ [CHR 0x00]" "room b1 (d + 4)"
      "v = 0 \<and> s = ''0'' \<and> prec = 1 \<or> v \<noteq> 0 \<and> prec = num_length 39 v \<and> decimal d prec s v"
    using digit_loop_string [OF assms(1) v_def [symmetric] assms(6) r0 b0(2), of d] by blast
  obtain b2 where b2: "(if int prec < int d
          then Option.bind (put_many (nat (int d - int prec)) (CHR ''0'') b1) (\<lambda>b. Option.bind (put (CHR ''.'') b) (put (CHR ''0'')))
          else Some b1) = Some b2" "tail_of b2 = padded d prec s @ [CHR 0x00]" "room b2 1"
  proof (cases "prec < d")
    case True
    have "room b1 ((d - prec) + 3)" using b1(3) by (rule room_mono) simp
    from put_many_tail [OF this] obtain c1 where c1: "put_many (d - prec) (CHR ''0'') b1 = Some c1"
        "tail_of c1 = replicate (d - prec) (CHR ''0'') @ tail_of b1" "room c1 (Suc 2)" by (auto simp: numeral_eq_Suc)
    obtain c2 where c2: "put (CHR ''.'') c1 = Some c2" "tail_of c2 = CHR ''.'' # tail_of c1" "room c2 (Suc 1)"
      using put_tail [OF c1(3)] by (auto simp: numeral_eq_Suc)
    obtain c3 where "put (CHR ''0'') c2 = Some c3" "tail_of c3 = CHR ''0'' # tail_of c2" "room c3 1"
      using put_tail [OF c2(3)] by auto
    moreover have "nat (int d - int prec) = d - prec" by simp
    ultimately show ?thesis using that [of c3] True c1(1,2) c2(1,2) b1(2) by (simp add: padded_def)
  next
    case False
    moreover have "room b1 1" using b1(3) by (rule room_mono) simp
    ultimately show ?thesis using that [of b1] b1(2) by (simp add: padded_def)
  qed
  have "0 < unat reqprec" using assms(4) by (simp add: word_greater_zero_iff unat_gt_0)
  moreover have "num_length 39 v \<le> unat reqprec" unfolding v_def by (rule num_length_bound [OF assms(3)])
  ultimately have "prec \<le> unat reqprec" using b1(4) by linarith
  moreover have "int (unat reqprec) = uint reqprec" by simp
  ultimately have prec: "\<not> int prec > uint reqprec" by linarith
  obtain b3 where b3: "(if n_sign num = 0 then put (CHR ''-'') b2 else Some b2) = Some b3"
      "tail_of b3 = (if n_sign num = 0 then ''-'' else []) @ padded d prec s @ [CHR 0x00]"
  proof (cases "n_sign num = 0")
    case True
    obtain b' where "put (CHR ''-'') b2 = Some b'" "tail_of b' = CHR ''-'' # tail_of b2"
      using put_tail [of b2 0 "CHR ''-''"] b2(3) by (metis One_nat_def)
    then show ?thesis using that [of b'] True b2(2) by simp
  qed (use that [of b2] b2(2) in simp)
  let ?str = "(if n_sign num = 0 then ''-'' else []) @ padded d prec s"
  have run: "sqlnum_to_str past buf reqprec (of_nat d) num =
      Some (num\<lparr>n_scale := of_nat d, n_precision := of_nat prec\<rparr>, fst b3, Some (nat (snd b3 + 1)), 0)"
  proof -
    have n: "((if int prec < int d then int prec else int d) < 0) = False" by simp
    have "finish_str num (of_nat d) prec 0 b2 =
        Some (num\<lparr>n_scale := of_nat d, n_precision := of_nat prec\<rparr>, fst b3, Some (nat (snd b3 + 1)), 0)"
      unfolding finish_str_def b3(1) by (simp add: split_beta)
    then show ?thesis
      unfolding sqlnum_to_str_def sint_of_nat_small [OF assms(5)] Let_def b0(1) Option.bind.simps b1(1) prod.case b2(1) n
      using prec by (simp only: if_False simp_thms)
  qed
  have "v < 2 ^ 128" using bytes_value_bound [of "n_val num"] assms(1) by (simp add: v_def)
  moreover have "numeral_of d v (padded d prec s)" using b1(4) by (intro padded_numeral) auto
  ultimately obtain r overflow where r: "sqlnum_from_str ?str target = (r, overflow)"
      "n_sign r = (if n_sign num = 0 then 0 else 1)" "n_scale r = n_scale target" "length (n_val r) = 16"
      "bytes_value (n_val r) = v" "overflow \<in> {0, 1}"
    using numeral_of_read [of d v "padded d prec s" target "n_sign num = 0"] assms(5,8) by blast
  have "n_val r = n_val num" using r(4,5) assms(1) by (intro bytes_value_inj) (simp_all add: v_def)
  moreover have "n_sign r = n_sign num" using r(2) assms(2) by auto
  moreover have "drop (nat (snd b3 + 1)) (fst b3) = ?str @ [CHR 0x00]" using b3(2) by (simp add: tail_of_def)
  ultimately show ?thesis using run r(1,3,6) assms(8) by (metis (no_types, lifting))
qed

abbreviation val_25212 :: "u8 list" where "val_25212 \<equiv> [0x7c, 0x62, 0, 0, 0, 0, 0, 0, 0, 0, 0, 0, 0, 0, 0, 0]"

theorem sqlnum_roundtrip_witness:
  "\<exists>num' buf' k str r overflow.
    sqlnum_to_str [1] (replicate 48 CHR ''x'') 5 (of_nat 3)
      \<lparr>n_precision = 0, n_scale = 0, n_sign = 0, n_val = val_25212\<rparr> = Some (num', buf', Some k, 0) \<and>
    drop k buf' = str @ [CHR 0x00] \<and>
    sqlnum_from_str str \<lparr>n_precision = 5, n_scale = of_nat 3, n_sign = 0, n_val = []\<rparr> = (r, overflow) \<and>
    n_val r = val_25212 \<and> n_sign r = 0 \<and> n_scale r = of_nat 3 \<and> overflow \<in> {0, 1}"
proof -
  let ?num = "\<lparr>n_precision = 0, n_scale = 0, n_sign = 0, n_val = val_25212\<rparr> :: sql_numeric"
  have "length (n_val ?num) = 16" "bytes_value (n_val ?num) < 10 ^ unat (5 :: u8)" by simp_all
  then show ?thesis
    using sqlnum_roundtrip [of ?num 5 3 "[1]" "replicate 48 CHR ''x''"
        "\<lparr>n_precision = 5, n_scale = of_nat 3, n_sign = 0, n_val = []\<rparr>"]
    by simp
qed

section \<open>The search for a digit\<close>

lemma digit_loop_past:
  "be_limbs m a \<Longrightarrow> m \<le> 7 \<Longrightarrow> 0 < n \<Longrightarrow> bval a * 10 < 10 ^ n \<Longrightarrow> \<forall>x \<in> set past. x = 0 \<Longrightarrow>
     digit_loop past req n j m a b prec = None"
proof (induction n arbitrary: j m a b prec)
  case (Suc n)
  show ?case
  proof (cases "skip_zeros (drop m (a @ past)) m")
    case (Some m1)
    note sk = be_limbs_skip [OF Suc.prems(1,2) Some]
    have "\<not> (\<forall>x \<in> set (drop m (a @ past)). x = 0)" using Some skip_zeros_None [of "drop m (a @ past)" m] by simp
    then have ne: "bval a \<noteq> 0" using Suc.prems(5) by (auto simp: bval_def lval_zero dest: in_set_dropD)
    then have s: "m1 \<le> 7" "be_limbs m1 a" "m1 = 7 \<Longrightarrow> a ! 7 \<noteq> 0" using sk(2) by blast+
    define u where "u = (if 7 \<le> m1 then a else sqlnum_unscale_be a m1)"
    have "sqlnum_unscale_be a 7 = a" by (simp add: sqlnum_unscale_be_def)
    then have u: "u = sqlnum_unscale_be a m1" using s(1) by (cases "m1 = 7") (auto simp: u_def)
    note uv = unscale_be_value [OF s(2,1), folded u]
    have "bval (u[7 := u ! 7 div 10]) * 10 < 10 ^ n" using Suc.prems(4) uv(2) by simp
    moreover have "0 < n" using Suc.prems(4) ne by (cases n) simp_all
    ultimately have IH: "digit_loop past req n (Suc j) m1 (u[7 := u ! 7 div 10]) b2 (Suc prec) = None" for b2
      using Suc.IH [OF uv(1) s(1) _ _ Suc.prems(5)] by blast
    have nz: "(m1 \<ge> 7 \<and> a ! 7 = 0) = False" using s(1,3) by auto
    show ?thesis
      by (simp only: digit_loop.simps Some Option.bind.simps nz if_False Let_def IH flip: u_def) simp
  qed simp
qed simp

text \<open>C35: For every value below \<open>10 ^ 38\<close> the loop of \<open>sqlnum_to_str\<close> that skips leading zeros runs
  off the end of its array of eight integers after the last digit: when the integers behind the array are zero, it
  reads all of them and goes on.\<close>

theorem sqlnum_to_str_reads_past:
  assumes "length (n_val num) = 16" "bytes_value (n_val num) < 10 ^ 38" "\<forall>x \<in> set past. x = 0"
  shows "sqlnum_to_str past buf reqprec scale num = None"
proof -
  note e = expand_value [OF assms(1)]
  have "bval (expand (n_val num)) * 10 < 10 ^ 39" using assms(2) e(2) by simp
  from digit_loop_past [OF e(1) le0 _ this assms(3)] have "digit_loop past (sint scale) 39 0 0 (expand (n_val num)) b 0 = None" for b
    by simp
  then show ?thesis by (simp only: sqlnum_to_str_def Let_def Option.bind.simps Option.bind_rzero) 
qed

theorem sqlnum_to_str_reads_past_witness:
  "sqlnum_to_str [] (replicate 64 CHR ''x'') 5 3 \<lparr>n_precision = 5, n_scale = 3, n_sign = 1, n_val = val_25212\<rparr> = None"
proof (rule sqlnum_to_str_reads_past)
  show "length (n_val \<lparr>n_precision = 5, n_scale = 3, n_sign = 1, n_val = val_25212\<rparr>) = 16" by simp
  show "bytes_value (n_val \<lparr>n_precision = 5, n_scale = 3, n_sign = 1, n_val = val_25212\<rparr>) < 10 ^ 38" by simp
qed simp

end
