(* ===== verification/Scroller.thy ===== *)
theory Scroller
  imports Parse
begin

text \<open>
  The LIMIT scroller of \<^verbatim>\<open>driver/my_stmt.cc\<close> and the search for a LIMIT clause of
  \<^verbatim>\<open>driver/utility.cc\<close>: a query that the application may read in part is sent with a LIMIT
  clause of its own, whose offset is moved on. Pointers into the query are offsets; a store outside a
  buffer, and a conversion the C library leaves undefined, is \<open>None\<close>.
\<close>

section \<open>The LIMIT clause of a query\<close>

definition MY_NMR :: nat where "MY_NMR = 4"

definition isnum_at :: "ctype_fn \<Rightarrow> string \<Rightarrow> nat \<Rightarrow> nat \<Rightarrow> bool" where
  "isnum_at cs buf b e = has_class (fst (cs (drop b (take e buf)))) MY_NMR"

record limit_clause =
  l_offset :: u64
  l_row_count :: u32
  l_begin :: nat
  l_end :: nat

text \<open>The position of the first byte up to \<open>e\<close> that fails a test.\<close>

function scan_while :: "(nat \<Rightarrow> bool) \<Rightarrow> nat \<Rightarrow> nat \<Rightarrow> nat" where
  "scan_while P p e = (if p < e \<and> P p then scan_while P (Suc p) e else p)"
  by pat_completeness auto
termination
  by (relation "measure (\<lambda>(P, p, e). e - p)") auto

declare scan_while.simps [simp del]

text \<open>\<open>atoll\<close> and \<open>atol\<close> on a buffer of digits: a value beyond \<open>long long\<close> is undefined.\<close>

fun atoll_loop :: "nat \<Rightarrow> string \<Rightarrow> nat" where
  "atoll_loop n [] = n"
| "atoll_loop n (c # cs) = (if isdigit_c c then atoll_loop (10 * n + (code c - 48)) cs else n)"

definition atoll_digits :: "string \<Rightarrow> nat option" where
  "atoll_digits s = (let n = atoll_loop 0 s in if int n < 2 ^ 63 then Some n else None)"

text \<open>\<open>digit_buf\<close> has 30 bytes, one of them for the terminator.\<close>

definition digit_buf :: "string \<Rightarrow> nat \<Rightarrow> nat \<Rightarrow> nat option" where
  "digit_buf buf p q = (if q - p < 30 then atoll_digits (take (q - p) (drop p buf)) else None)"

text \<open>The result is the position behind the numbers, with the two outputs.\<close>

definition get_limit_numbers ::
    "ctype_fn \<Rightarrow> string \<Rightarrow> nat \<Rightarrow> nat \<Rightarrow> u64 \<Rightarrow> u32 \<Rightarrow> (nat \<times> u64 \<times> u32) option" where
  "get_limit_numbers cs buf p e offs rows =
     (let p1 = scan_while (\<lambda>i. isspace_at cs buf i e) p e;
          p2 = scan_while (\<lambda>i. isnum_at cs buf i e) p1 e
      in if p2 = p1 then Some (p2, offs, rows)
         else Option.bind (digit_buf buf p1 p2) (\<lambda>n1.
           let p3 = scan_while (\<lambda>i. \<not> isnum_at cs buf i e) p2 e in
           if p3 = e then Some (p3, 0, of_nat n1)
           else
             let p4 = scan_while (\<lambda>i. isnum_at cs buf i e) p3 e in
             Option.bind (digit_buf buf p3 p4) (\<lambda>n2. Some (p4, of_nat n1, of_nat n2))))"

text \<open>The words of a locking clause, backwards.\<close>

fun locking_words :: "ctype_fn \<Rightarrow> string \<Rightarrow> nat \<Rightarrow> nat \<Rightarrow> nat option \<Rightarrow> string list \<Rightarrow> nat option" where
  "locking_words cs buf start lim token [] = token"
| "locking_words cs buf start lim token (w # ws) =
     (let (t, b) = mystr_get_prev_token cs buf lim start in
      if myodbc_casecmp (Some (drop t buf)) (Some w) (length w) \<noteq> 0 then None
      else locking_words cs buf start b (Some t) ws)"

definition check_row_locking :: "ctype_fn \<Rightarrow> string \<Rightarrow> nat \<Rightarrow> nat \<Rightarrow> bool \<Rightarrow> nat option" where
  "check_row_locking cs buf start e is_share_mode =
     locking_words cs buf start e None
       (if is_share_mode then [''MODE'', ''SHARE'', ''IN'', ''LOCK''] else [''UPDATE'', ''FOR''])"

text \<open>The end of the query without the white space and NULs behind it.\<close>

fun trim_end :: "ctype_fn \<Rightarrow> string \<Rightarrow> nat \<Rightarrow> nat \<Rightarrow> nat \<Rightarrow> nat" where
  "trim_end cs buf start e p =
     (if p > start \<and> (cget buf p = CHR 0x00 \<or> isspace_at cs buf p e) then trim_end cs buf start e (p - 1) else p)"

declare trim_end.simps [simp del]

definition find_position4limit :: "ctype_fn \<Rightarrow> string \<Rightarrow> nat \<Rightarrow> nat \<Rightarrow> limit_clause option" where
  "find_position4limit cs buf start e =
     (let none = \<lparr>l_offset = 0, l_row_count = 0, l_begin = e, l_end = e\<rparr> in
      case find_token cs buf start e ''LIMIT'' of
        Some p \<Rightarrow>
          map_option (\<lambda>(q, offs, rows). \<lparr>l_offset = offs, l_row_count = rows, l_begin = p, l_end = q\<rparr>)
            (get_limit_numbers cs buf (p + 5) e 0 0)
      | None \<Rightarrow>
          (case (case check_row_locking cs buf start e False of None \<Rightarrow> check_row_locking cs buf start e True | l \<Rightarrow> l) of
             Some p \<Rightarrow> if p = 0 then None else Some (none\<lparr>l_begin := p - 1, l_end := p - 1\<rparr>)
           | None \<Rightarrow>
               let q = trim_end cs buf start e e in
               Some (if cget buf q = CHR '';'' then none\<lparr>l_begin := q, l_end := q\<rparr> else none)))"

section \<open>Which queries are scrolled\<close>

text \<open>
  \<open>scrollable\<close>, on the text of the query and what the parser found: no pointer is before the text,
  for a token that is not the first has a byte before it.
\<close>

definition scrollable :: "ctype_fn \<Rightarrow> parsed_query \<Rightarrow> string \<Rightarrow> bool" where
  "scrollable cs parsed buf =
     (if \<not> is_select_statement parsed then False
      else
        let (t1, b1) = mystr_get_prev_token cs buf (length buf) 0;
            (prev, b2) = mystr_get_prev_token cs buf b1 0
        in if prev = 0 then False
           else if myodbc_casecmp (Some (drop prev buf)) (Some ''FROM'') 4 \<noteq> 0 \<and> find_token cs buf 0 (prev - 1) ''FROM'' = None
           then False else True)"

section \<open>The scroller\<close>

text \<open>Rows per query: a multiple of the rowset, and not more than the application wants.\<close>

definition calc_prefetch_number :: "u32 \<Rightarrow> u64 \<Rightarrow> u64 \<Rightarrow> u32" where
  "calc_prefetch_number selected app_fetchs max_rows =
     (if selected = 0 then 0
      else
        let result =
          (if app_fetchs > 1 then
             let result1 = (if app_fetchs > ucast selected then ucast app_fetchs else selected)
             in if ucast selected mod app_fetchs > 0 then ucast (app_fetchs * (ucast selected div app_fetchs + 1))
                else result1
           else selected)
        in if max_rows > 0 \<and> max_rows < ucast result then ucast max_rows else result)"

text \<open>
  \<open>MY_LIMIT_SCROLLER\<close>: the text that is sent, with its length, and the place of the offset in it; 0
  is the state in which there is no scroller.
\<close>

record scroller =
  sc_text :: string
  sc_query_len :: nat
  offset_pos :: nat
  row_count :: u32
  start_offset :: u64
  next_offset :: u64
  total_rows :: u64

text \<open>The scroller of a new statement has no text yet.\<close>

definition new_scroller :: scroller where
  "new_scroller =
     \<lparr>sc_text = '''', sc_query_len = 0, offset_pos = 0, row_count = 0, start_offset = 0, next_offset = 0, total_rows = 0\<rparr>"

definition scroller_reset :: "scroller \<Rightarrow> scroller" where
  "scroller_reset sc = sc\<lparr>next_offset := 0, offset_pos := 0\<rparr>"

definition scroller_exists :: "scroller \<Rightarrow> bool" where
  "scroller_exists sc \<longleftrightarrow> offset_pos sc > 0"

text \<open>Stores into the text; and a number right-aligned in a field, as \<open>%*u\<close> prints it.\<close>

definition store_text :: "nat \<Rightarrow> string \<Rightarrow> string \<Rightarrow> string option" where
  "store_text p s mem = (if p + length s \<le> length mem then Some (take p mem @ s @ drop (p + length s) mem) else None)"

fun decimal_digits :: "nat \<Rightarrow> string" where
  "decimal_digits n = (if n < 10 then [char_of (48 + n)] else decimal_digits (n div 10) @ [char_of (48 + n mod 10)])"

declare decimal_digits.simps [simp del]

definition padded_number :: "nat \<Rightarrow> nat \<Rightarrow> string" where
  "padded_number w n = (let s = decimal_digits n in replicate (w - length s) CHR '' '' @ s)"

definition MAX32_BUFF_SIZE :: nat where "MAX32_BUFF_SIZE = 11"
definition MAX64_BUFF_SIZE :: nat where "MAX64_BUFF_SIZE = 21"

definition snprintf_number :: "nat \<Rightarrow> nat \<Rightarrow> string \<Rightarrow> nat \<Rightarrow> nat \<Rightarrow> string \<Rightarrow> string option" where
  "snprintf_number p n prefix w v mem = store_text p (take (n - 1) (prefix @ padded_number w v) @ [CHR 0x00]) mem"

definition scroller_create :: "ctype_fn \<Rightarrow> string \<Rightarrow> u64 \<Rightarrow> scroller \<Rightarrow> scroller option" where
  "scroller_create cs qtext max_rows sc =
     (let len2add = 7 + MAX64_BUFF_SIZE + MAX32_BUFF_SIZE in
      Option.bind (find_position4limit cs qtext 0 (length qtext)) (\<lambda>limit.
      let found = l_begin limit \<noteq> l_end limit;
          total = (if found then
                     if max_rows > 0 then min (ucast (l_row_count limit)) max_rows else ucast (l_row_count limit)
                   else max_rows);
          count = (if ucast (row_count sc) > total \<and> found then ucast total else row_count sc);
          qlen = length qtext + len2add;
          pos = l_begin limit + 7;
          suffix = drop (l_end limit) qtext
      in
        Option.bind (store_text 0 (take (l_begin limit) qtext) (replicate qlen CHR '' '' @ [CHR 0x00])) (\<lambda>m1.
        Option.bind (store_text (l_begin limit) ('' LIMIT '' @ [CHR 0x00]) m1) (\<lambda>m2.
        Option.bind (snprintf_number (pos + MAX64_BUFF_SIZE - 1) (MAX32_BUFF_SIZE + 1) '','' (MAX32_BUFF_SIZE - 1) (unat count) m2) (\<lambda>m3.
        Option.bind (store_text (pos + MAX64_BUFF_SIZE + MAX32_BUFF_SIZE - 1) '' '' m3) (\<lambda>m4.
        Option.bind (store_text (pos + MAX64_BUFF_SIZE + MAX32_BUFF_SIZE - 1) suffix m4) (\<lambda>m5.
        Option.bind (store_text qlen [CHR 0x00] m5) (\<lambda>m6.
          Some (sc\<lparr>sc_text := m6, sc_query_len := qlen, offset_pos := pos, row_count := count,
                   start_offset := l_offset limit, next_offset := l_offset limit, total_rows := total\<rparr>)))))))))"

definition scroller_move :: "scroller \<Rightarrow> (u64 \<times> scroller) option" where
  "scroller_move sc =
     Option.bind (snprintf_number (offset_pos sc) MAX64_BUFF_SIZE [] (MAX64_BUFF_SIZE - 1) (unat (next_offset sc)) (sc_text sc)) (\<lambda>m1.
     Option.bind (store_text (offset_pos sc + MAX64_BUFF_SIZE - 1) '','' m1) (\<lambda>m2.
       let next = next_offset sc + ucast (row_count sc) in Some (next, sc\<lparr>sc_text := m2, next_offset := next\<rparr>)))"

text \<open>
  \<open>scroller_prefetch\<close> up to the execution of the query: true when it is to be executed, false for
  \<open>SQL_NO_DATA\<close>.
\<close>

definition scroller_window :: "scroller \<Rightarrow> (bool \<times> scroller) option" where
  "scroller_window sc =
     (if total_rows sc > 0 \<and> next_offset sc \<ge> total_rows sc + start_offset sc then
        let count = total_rows sc - (next_offset sc - ucast (row_count sc) - start_offset sc) in
        if 0 <s count then
          Option.bind (snprintf_number (offset_pos sc + MAX64_BUFF_SIZE) MAX32_BUFF_SIZE [] (MAX32_BUFF_SIZE - 1) (unat (ucast count :: u32)) (sc_text sc)) (\<lambda>m1.
          Option.bind (store_text (offset_pos sc + MAX64_BUFF_SIZE + MAX32_BUFF_SIZE - 1) '' '' m1) (\<lambda>m2.
            Some (True, sc\<lparr>sc_text := m2\<rparr>)))
        else Some (False, sc)
      else Some (True, sc))"

text \<open>The next part of the result, when the rows of the last one have been read.\<close>

definition next_window :: "scroller \<Rightarrow> (bool \<times> scroller) option" where
  "next_window sc = Option.bind (scroller_move sc) (\<lambda>(_, sc1). scroller_window sc1)"

text \<open>
  The start of a scrolled query in \<open>do_query\<close>: what is sent is the text up to \<open>sc_query_len\<close>.
\<close>

definition scroller_start :: "ctype_fn \<Rightarrow> string \<Rightarrow> u32 \<Rightarrow> u64 \<Rightarrow> u64 \<Rightarrow> scroller \<Rightarrow> scroller option" where
  "scroller_start cs qtext prefetch array_size max_rows sc =
     (let sc1 = scroller_reset sc; sc2 = sc1\<lparr>row_count := calc_prefetch_number prefetch array_size max_rows\<rparr> in
      Option.bind (scroller_create cs qtext max_rows sc2) (\<lambda>sc3. map_option snd (scroller_move sc3)))"

definition sent_text :: "scroller \<Rightarrow> string" where
  "sent_text sc = take (sc_query_len sc) (sc_text sc)"

end
