(* ===== verification/Fetch.thy ===== *)
theory Fetch
  imports Scroller Handles
begin

text \<open>
  Fetching (\<^verbatim>\<open>driver/results.cc\<close>, \<open>compute_cur_row\<close> of \<^verbatim>\<open>driver/my_prepared_stmt.cc\<close>): the position of the
  rowset in the result of a statement, the rows that are read and converted into the bound
  buffers of the application, the row status and the return code.

  The result itself belongs to the client library: its calls, for the protocol of the statement
  (\<^verbatim>\<open>mysql_\<close> or \<^verbatim>\<open>mysql_stmt_\<close>), are the fields of the record \<open>services\<close>, as are the execution of a
  query and the conversion of one column, which other parts of the driver carry out. A conversion is
  its return code. Row numbers are \<open>long\<close>, which does not overflow on them. An operation is \<open>None\<close> when it
  is undefined or does not return; a C++ exception is \<open>Inl\<close> with the return code it carries.
\<close>

section \<open>The statement\<close>

datatype 'r fetched = Row 'r | No_row | Fetch_error

record ('c, 'o, 'r) services =
  c_num_rows :: "'c \<Rightarrow> nat"
  c_data_seek :: "nat \<Rightarrow> 'c \<Rightarrow> 'c"
  c_row_tell :: "'c \<Rightarrow> 'o"
  c_row_seek :: "'o \<Rightarrow> 'c \<Rightarrow> 'o \<times> 'c"
  c_fetch_row :: "'c \<Rightarrow> 'r fetched \<times> 'c"
  c_fetch_out :: "'c \<Rightarrow> 'c"
  c_out_row :: "'c \<Rightarrow> 'r"
  c_errno :: "'c \<Rightarrow> nat"
  c_error :: "'c \<Rightarrow> string"
  c_query :: "string \<Rightarrow> 'c \<Rightarrow> bool \<times> 'c"
  c_reexecute :: "'c \<Rightarrow> bool \<times> 'c"
  d_get_data :: "'r \<Rightarrow> nat \<Rightarrow> nat \<Rightarrow> int"
  d_get_bookmark :: "nat \<Rightarrow> nat \<Rightarrow> int"
  d_fix_fields :: "('r \<Rightarrow> 'r) option"
  d_driver :: string
  d_prefix :: string
  d_errors :: "err_str list"
  d_server_error :: "er_name \<Rightarrow> nat"

text \<open>
  What a fetch uses of \<open>STMT\<close>. \<open>f_rowset\<close> is the row last converted into each place of the bound
  buffers, \<open>f_row_status\<close> the array of the caller and \<open>f_array_status\<close> that of the implementation row
  descriptor, each with its null pointer; \<open>f_pcrow\<close> and \<open>f_rows_processed\<close> are the two counters.
\<close>

record ('c, 'o, 'r) fetch_state =
  f_client :: 'c
  f_result :: bool
  f_result_array :: "'r list option"
  f_out_params :: out_param_state
  f_cursor_type :: int
  f_safe :: bool
  f_no_cache :: bool
  f_current_row :: int
  f_rows_found :: nat
  f_end_of_set :: 'o
  f_array_size :: nat
  f_columns :: nat
  f_bound :: "nat \<Rightarrow> bool"
  f_bookmark_bound :: bool
  f_bookmarks :: nat
  f_bookmark_insert :: bool
  f_scroller :: scroller
  f_current_values :: "'r option"
  f_rowset :: "nat \<rightharpoonup> 'r"
  f_row_status :: "(nat \<rightharpoonup> int) option"
  f_array_status :: "(nat \<rightharpoonup> int) option"
  f_pcrow :: nat
  f_rows_processed :: "nat option"
  f_error :: myerror

text \<open>A step that may throw.\<close>

type_synonym ('s, 'a) step = "((int \<times> 's) + ('a \<times> 's)) option"

definition bind_step :: "('s, 'a) step \<Rightarrow> ('a \<Rightarrow> 's \<Rightarrow> ('s, 'b) step) \<Rightarrow> ('s, 'b) step" where
  "bind_step m k = Option.bind m (\<lambda>r. case r of Inl e \<Rightarrow> Some (Inl e) | Inr (a, s) \<Rightarrow> k a s)"

definition caught :: "('s, int) step \<Rightarrow> (int \<times> 's) option" where
  "caught m = map_option (case_sum id id) m"

definition SQL_CURSOR_FORWARD_ONLY :: int where "SQL_CURSOR_FORWARD_ONLY = 0"
definition SQL_CURSOR_DYNAMIC :: int where "SQL_CURSOR_DYNAMIC = 2"

definition SQL_FETCH_NEXT :: nat where "SQL_FETCH_NEXT = 1"
definition SQL_FETCH_FIRST :: nat where "SQL_FETCH_FIRST = 2"
definition SQL_FETCH_LAST :: nat where "SQL_FETCH_LAST = 3"
definition SQL_FETCH_PRIOR :: nat where "SQL_FETCH_PRIOR = 4"
definition SQL_FETCH_ABSOLUTE :: nat where "SQL_FETCH_ABSOLUTE = 5"
definition SQL_FETCH_RELATIVE :: nat where "SQL_FETCH_RELATIVE = 6"
definition SQL_FETCH_BOOKMARK :: nat where "SQL_FETCH_BOOKMARK = 8"

lemmas fetch_types = SQL_FETCH_NEXT_def SQL_FETCH_FIRST_def SQL_FETCH_LAST_def SQL_FETCH_PRIOR_def
  SQL_FETCH_ABSOLUTE_def SQL_FETCH_RELATIVE_def SQL_FETCH_BOOKMARK_def

definition SQL_ROW_SUCCESS :: int where "SQL_ROW_SUCCESS = 0"
definition SQL_ROW_NOROW :: int where "SQL_ROW_NOROW = 3"
definition SQL_ROW_ERROR :: int where "SQL_ROW_ERROR = 5"
definition SQL_ROW_SUCCESS_WITH_INFO :: int where "SQL_ROW_SUCCESS_WITH_INFO = 6"

definition sqlreturn2row_status :: "int \<Rightarrow> int" where
  "sqlreturn2row_status res =
     (if res = SQL_SUCCESS then SQL_ROW_SUCCESS
      else if res = SQL_SUCCESS_WITH_INFO then SQL_ROW_SUCCESS_WITH_INFO
      else SQL_ROW_ERROR)"

definition SQL_SUCCEEDED :: "int \<Rightarrow> bool" where
  "SQL_SUCCEEDED rc \<longleftrightarrow> rc = SQL_SUCCESS \<or> rc = SQL_SUCCESS_WITH_INFO"

text \<open>\<open>STMT::set_error\<close> with an entry of the table and with a state; they return the code.\<close>

definition set_errid :: "('c, 'o, 'r) services \<Rightarrow> myodbc_errid \<Rightarrow> string \<Rightarrow> ('c, 'o, 'r) fetch_state \<Rightarrow> int \<times> ('c, 'o, 'r) fetch_state" where
  "set_errid S errid text st =
     (let e = myerror_errid (d_errors S) errid (Some text) 0 (d_prefix S) in (retcode e, st\<lparr>f_error := e\<rparr>))"

definition set_state_error :: "('c, 'o, 'r) services \<Rightarrow> string \<Rightarrow> string \<Rightarrow> int \<Rightarrow> ('c, 'o, 'r) fetch_state \<Rightarrow> int \<times> ('c, 'o, 'r) fetch_state" where
  "set_state_error S state text errcode st =
     (let e = myerror_state (d_driver S) (Some state) (Some text) errcode (Some (d_prefix S)) in (retcode e, st\<lparr>f_error := e\<rparr>))"

definition if_forward_cache :: "('c, 'o, 'r) fetch_state \<Rightarrow> bool" where
  "if_forward_cache st \<longleftrightarrow> f_cursor_type st = SQL_CURSOR_FORWARD_ONLY \<and> f_no_cache st"

definition is_dynamic_cursor :: "('c, 'o, 'r) fetch_state \<Rightarrow> bool" where
  "is_dynamic_cursor st \<longleftrightarrow> f_cursor_type st = SQL_CURSOR_DYNAMIC"

text \<open>The rows of the result, those that a scroller has left behind included.\<close>

definition num_rows :: "('c, 'o, 'r) services \<Rightarrow> ('c, 'o, 'r) fetch_state \<Rightarrow> nat" where
  "num_rows S st =
     (let sc = f_scroller st;
          offset = (if scroller_exists sc \<and> next_offset sc > 0 then unat (next_offset sc - ucast (row_count sc)) else 0)
      in offset + c_num_rows S (f_client st))"

section \<open>The position of a rowset\<close>

text \<open>The switch of \<open>compute_cur_row\<close>; \<open>None\<close> is the default branch.\<close>

definition target_row :: "int \<Rightarrow> int \<Rightarrow> int \<Rightarrow> int \<Rightarrow> nat \<Rightarrow> int \<Rightarrow> int option" where
  "target_row max_row current_row rows_found array_size fFetchType irow =
     (if fFetchType = SQL_FETCH_NEXT then Some (if current_row < 0 then 0 else current_row + rows_found)
      else if fFetchType = SQL_FETCH_PRIOR then Some (if current_row \<le> 0 then - 1 else current_row - array_size)
      else if fFetchType = SQL_FETCH_FIRST then Some 0
      else if fFetchType = SQL_FETCH_LAST then Some (max_row - array_size)
      else if fFetchType = SQL_FETCH_ABSOLUTE then
        Some (if irow < 0 then if max_row + irow < 0 \<and> - irow \<le> array_size then 0 else max_row + irow else irow - 1)
      else if fFetchType = SQL_FETCH_RELATIVE then
        (let cur_row = current_row + irow
         in Some (if current_row > 0 \<and> cur_row < 0 \<and> - irow \<le> array_size then 0 else cur_row))
      else if fFetchType = SQL_FETCH_BOOKMARK then Some (if irow < 0 \<and> - irow \<le> array_size then 0 else irow)
      else None)"

text \<open>
  \<open>while (cur_row > (max_row = scroller_move(this)))\<close>; a scroller that moves by no rows never passes
  the row.
\<close>

partial_function (option) scroller_skip :: "int \<Rightarrow> scroller \<Rightarrow> (int \<times> scroller) option" where
  "scroller_skip cur_row sc =
     Option.bind (scroller_move sc) (\<lambda>(next, sc1).
       if cur_row > sint next then scroller_skip cur_row sc1 else Some (sint next, sc1))"

text \<open>\<open>scroller_prefetch\<close>: the query of the next window is executed and its result takes the place of the old one.\<close>

definition SQL_NO_DATA :: int where "SQL_NO_DATA = 100"

definition scroller_prefetch ::
    "('c, 'o, 'r) services \<Rightarrow> ('c, 'o, 'r) fetch_state \<Rightarrow> (int \<times> ('c, 'o, 'r) fetch_state) option" where
  "scroller_prefetch S st =
     Option.bind (scroller_window (f_scroller st)) (\<lambda>(more, sc).
       if \<not> more then Some (SQL_NO_DATA, st\<lparr>f_scroller := sc\<rparr>)
       else
         let (failed, c) = c_query S (sent_text sc) (f_client st); st1 = st\<lparr>f_scroller := sc, f_client := c\<rparr> in
         Some (if failed then (SQL_ERROR, st1) else (SQL_SUCCESS, st1)))"

text \<open>The row is behind the rows that are known: the scroller moves on, or the end is taken.\<close>

definition beyond_rows ::
    "('c, 'o, 'r) services \<Rightarrow> int \<Rightarrow> int \<Rightarrow> ('c, 'o, 'r) fetch_state \<Rightarrow> (('c, 'o, 'r) fetch_state, int) step" where
  "beyond_rows S max_row cur_row st =
     (if scroller_exists (f_scroller st) then
        Option.bind (scroller_skip cur_row (f_scroller st)) (\<lambda>(_, sc).
        Option.bind (scroller_prefetch S (st\<lparr>f_scroller := sc\<rparr>)) (\<lambda>(rc, st1).
          if rc = SQL_NO_DATA then Some (Inl (SQL_NO_DATA_FOUND, st1))
          else if rc = SQL_ERROR then Some (Inl (set_errid S MYERR_S1000 (c_error S (f_client st1)) st1))
          else Some (Inr (cur_row, st1))))
      else Some (Inr (max_row, st)))"

text \<open>
  The position of the client's cursor: the end of the last rowset, when the new one follows it, by the
  offset that was kept; otherwise by the row number.
\<close>

definition seek_row :: "('c, 'o, 'r) services \<Rightarrow> int \<Rightarrow> ('c, 'o, 'r) fetch_state \<Rightarrow> ('c, 'o, 'r) fetch_state" where
  "seek_row S cur_row st =
     (if f_result_array st = None \<and> \<not> if_forward_cache st then
        if f_cursor_type st \<noteq> SQL_CURSOR_DYNAMIC \<and> cur_row \<noteq> 0 \<and> cur_row = f_current_row st + int (f_rows_found st)
        then st\<lparr>f_client := snd (c_row_seek S (f_end_of_set st) (f_client st))\<rparr>
        else st\<lparr>f_client := c_data_seek S (nat cur_row) (f_client st)\<rparr>
      else st)"

definition compute_cur_row ::
    "('c, 'o, 'r) services \<Rightarrow> nat \<Rightarrow> int \<Rightarrow> ('c, 'o, 'r) fetch_state \<Rightarrow> (('c, 'o, 'r) fetch_state, int) step" where
  "compute_cur_row S fFetchType irow st =
     (let max_row = int (num_rows S st) in
      case target_row max_row (f_current_row st) (int (f_rows_found st)) (int (f_array_size st)) fFetchType irow of
        None \<Rightarrow> Some (Inl (set_errid S MYERR_S1106 ''Fetch type out of range'' st))
      | Some cur_row \<Rightarrow>
          if cur_row < 0 then
            Some (Inl (SQL_NO_DATA_FOUND, st\<lparr>f_current_row := - 1, f_rows_found := 0, f_client := c_data_seek S 0 (f_client st)\<rparr>))
          else
            bind_step (if cur_row > max_row then beyond_rows S max_row cur_row st else Some (Inr (cur_row, st)))
              (\<lambda>cur_row st1. Some (Inr (cur_row, (seek_row S cur_row st1)\<lparr>f_current_row := cur_row\<rparr>))))"

section \<open>The rows of a rowset\<close>

text \<open>The bound columns of a row, in order: the code of the row from those of its columns.\<close>

definition add_column :: "int \<Rightarrow> int \<Rightarrow> int" where
  "add_column tmp_res res =
     (if tmp_res = SQL_SUCCESS then res
      else if tmp_res = SQL_SUCCESS_WITH_INFO then (if res = SQL_SUCCESS then tmp_res else res)
      else SQL_ERROR)"

definition fill_fetch_buffers :: "('c, 'o, 'r) services \<Rightarrow> ('c, 'o, 'r) fetch_state \<Rightarrow> 'r \<Rightarrow> nat \<Rightarrow> int" where
  "fill_fetch_buffers S st values rownum =
     fold (\<lambda>i. add_column (d_get_data S values i rownum)) (filter (f_bound st) [0 ..< f_columns st]) SQL_SUCCESS"

definition fill_fetch_bookmark_buffers ::
    "('c, 'o, 'r) services \<Rightarrow> nat \<Rightarrow> nat \<Rightarrow> ('c, 'o, 'r) fetch_state \<Rightarrow> int \<times> ('c, 'o, 'r) fetch_state" where
  "fill_fetch_bookmark_buffers S v rownum st =
     (if f_bookmarks st \<noteq> SQL_UB_VARIABLE then
        (SQL_ERROR, snd (set_state_error S ''HY092'' ''Invalid attribute identifier'' 0 st))
      else if f_bookmark_bound st then (add_column (d_get_bookmark S v rownum) SQL_SUCCESS, st)
      else (SQL_SUCCESS, st))"

text \<open>The return code after a row.\<close>

definition add_row :: "nat \<Rightarrow> int \<Rightarrow> int \<Rightarrow> int \<Rightarrow> int" where
  "add_row i row_res row_book res =
     (if res \<noteq> row_res \<or> res \<noteq> row_book then
        if SQL_SUCCEEDED row_res \<and> SQL_SUCCEEDED row_res then SQL_SUCCESS_WITH_INFO
        else if i = 0 then SQL_ERROR else SQL_SUCCESS_WITH_INFO
      else res)"

definition put_status :: "bool \<Rightarrow> nat \<Rightarrow> int \<Rightarrow> ('c, 'o, 'r) fetch_state \<Rightarrow> ('c, 'o, 'r) fetch_state" where
  "put_status upd_status i status st =
     st\<lparr>f_row_status := map_option (\<lambda>m. m(i \<mapsto> status)) (f_row_status st),
        f_array_status := (if upd_status then map_option (\<lambda>m. m(i \<mapsto> status)) (f_array_status st) else f_array_status st)\<rparr>"

text \<open>
  The callback \<open>fix_fields\<close>. The driver installs one, \<open>fetch_varlength_columns\<close> of a prepared statement: given a row it
  returns that row, and given the null pointer the array of the statement, with the columns that did not fit
  fetched again. The service \<open>d_fix_fields\<close> is that completion, \<open>None\<close> without the callback or with the text
  protocol. \<open>STMT::fetch_row\<close> calls it with the null pointer, the fetching cycle with the row that it has.
\<close>

definition fix_fields :: "('c, 'o, 'r) services \<Rightarrow> 'r option \<Rightarrow> 'r \<Rightarrow> 'r" where
  "fix_fields S values array =
     (case d_fix_fields S of
        None \<Rightarrow> (case values of Some v \<Rightarrow> v | None \<Rightarrow> array)
      | Some fetch_columns \<Rightarrow> (case values of Some v \<Rightarrow> v | None \<Rightarrow> fetch_columns array))"

abbreviation completed :: "('c, 'o, 'r) services \<Rightarrow> 'r \<Rightarrow> 'r" where
  "completed S array \<equiv> fix_fields S None array"

text \<open>The client's next row, if there is one, with the exception for a failure.\<close>

definition fetch_row :: "('c, 'o, 'r) services \<Rightarrow> ('c, 'o, 'r) fetch_state \<Rightarrow> (('c, 'o, 'r) fetch_state, 'r option) step" where
  "fetch_row S st =
     (let (r, c) = c_fetch_row S (f_client st); st1 = st\<lparr>f_client := c\<rparr> in
      case r of
        Row v \<Rightarrow> Some (Inr (Some (completed S v), st1))
      | No_row \<Rightarrow> Some (Inr (None, st1))
      | Fetch_error \<Rightarrow> Some (Inl (set_state_error S ''HY000'' (c_error S c) (int (c_errno S c)) st1)))"

text \<open>
  A row from the client: when there is none left the scroller gets the next window. The position to
  come back to is that of the first row, or the one behind the first row of a new window.
\<close>

definition fetch_next :: "('c, 'o, 'r) services \<Rightarrow> 'o \<Rightarrow> ('c, 'o, 'r) fetch_state \<Rightarrow> (('c, 'o, 'r) fetch_state, 'r option \<times> 'o) step" where
  "fetch_next S save_position st =
     bind_step (fetch_row S st) (\<lambda>row st1.
       case row of
         Some v \<Rightarrow> Some (Inr ((Some v, save_position), st1))
       | None \<Rightarrow>
           if \<not> scroller_exists (f_scroller st1) then Some (Inr ((None, save_position), st1))
           else
             Option.bind (scroller_move (f_scroller st1)) (\<lambda>(_, sc).
             Option.bind (scroller_prefetch S (st1\<lparr>f_scroller := sc\<rparr>)) (\<lambda>(row_res, st2).
               if row_res \<noteq> SQL_SUCCESS then Some (Inr ((None, save_position), st2))
               else
                 bind_step (fetch_row S st2) (\<lambda>row2 st3.
                   case row2 of
                     None \<Rightarrow> Some (Inr ((None, save_position), st3))
                   | Some v \<Rightarrow> Some (Inr ((Some v, c_row_tell S (f_client st3)), st3)))))) "

definition next_values ::
    "('c, 'o, 'r) services \<Rightarrow> nat \<Rightarrow> int \<Rightarrow> 'o \<Rightarrow> ('c, 'o, 'r) fetch_state \<Rightarrow> (('c, 'o, 'r) fetch_state, 'r option \<times> 'o) step" where
  "next_values S i cur_row save_position st =
     (case f_result_array st of
        Some rows \<Rightarrow>
          if 0 \<le> cur_row \<and> cur_row < int (length rows) then
            let v = rows ! nat cur_row in
            Some (Inr ((Some v, save_position), if i = 0 then st\<lparr>f_current_values := Some v\<rparr> else st))
          else None
      | None \<Rightarrow>
          let save = (if i = 0 then c_row_tell S (f_client st) else save_position) in
          bind_step (if f_out_params st = OPS_UNKNOWN then fetch_next S save st
                     else Some (Inr ((Some (c_out_row S (f_client st)), save), st)))
            (\<lambda>(row, save1) st1.
              case row of
                None \<Rightarrow> Some (Inr ((None, save1), st1))
              | Some v0 \<Rightarrow>
                  let v = fix_fields S (Some v0) v0
                  in Some (Inr ((Some v, save1), st1\<lparr>f_current_values := Some v\<rparr>))))"

text \<open>
  The fetching cycle, for at most \<open>n\<close> more rows: the number of rows, the return code and the position to
  come back to.
\<close>

fun fetch_cycle ::
    "('c, 'o, 'r) services \<Rightarrow> nat \<Rightarrow> int \<Rightarrow> bool \<Rightarrow> nat \<Rightarrow> nat \<Rightarrow> int \<Rightarrow> int \<Rightarrow> int \<Rightarrow> 'o \<Rightarrow> ('c, 'o, 'r) fetch_state
      \<Rightarrow> (('c, 'o, 'r) fetch_state, nat \<times> int \<times> 'o) step" where
  "fetch_cycle S fFetchType irow upd 0 i cur_row res row_book save st = Some (Inr ((i, res, save), st))"
| "fetch_cycle S fFetchType irow upd (Suc n) i cur_row res row_book save st =
     bind_step (next_values S i cur_row save st) (\<lambda>(row, save1) st1.
       case row of
         None \<Rightarrow> Some (Inr ((i, res, save1), st1))
       | Some values \<Rightarrow>
           let (row_book1, st2) =
                 (if fFetchType = SQL_FETCH_BOOKMARK \<and> f_bookmarks st1 = SQL_UB_VARIABLE
                  then fill_fetch_bookmark_buffers S (nat ((irow + int i + 1) mod 2 ^ 64)) i st1 else (row_book, st1));
               row_res = fill_fetch_buffers S st2 values i;
               st3 = put_status upd i (sqlreturn2row_status row_res) (st2\<lparr>f_rowset := (f_rowset st2)(i \<mapsto> values)\<rparr>)
           in fetch_cycle S fFetchType irow upd n (Suc i) (cur_row + 1) (add_row i row_res row_book1 res) row_book1 save1 st3)"

section \<open>Fetching a rowset\<close>

definition lost_connection :: "('c, 'o, 'r) services \<Rightarrow> ('c, 'o, 'r) fetch_state \<Rightarrow> bool \<times> ('c, 'o, 'r) fetch_state" where
  "lost_connection S st =
     (if is_connection_lost (d_server_error S) (c_errno S (f_client st)) then
        let (rc, e) = handle_connection_error (d_driver S) (d_prefix S) (d_server_error S) (c_errno S (f_client st))
              (c_error S (f_client st)) (f_error st)
        in (rc \<noteq> 0, st\<lparr>f_error := e\<rparr>)
      else (False, st))"

definition end_of_fetch ::
    "('c, 'o, 'r) services \<Rightarrow> bool \<Rightarrow> nat \<Rightarrow> int \<Rightarrow> 'o \<Rightarrow> ('c, 'o, 'r) fetch_state \<Rightarrow> (('c, 'o, 'r) fetch_state, int) step" where
  "end_of_fetch S upd_status n res save_position st =
     (let (disconnected, st1) = lost_connection S (st\<lparr>f_rows_found := n mod 2 ^ 32, f_pcrow := n\<rparr>);
          st2 = (if upd_status then st1\<lparr>f_rows_processed := map_option (\<lambda>_. n) (f_rows_processed st1)\<rparr> else st1);
          st3 = fold (\<lambda>i. put_status upd_status i (if disconnected then SQL_ROW_ERROR else SQL_ROW_NOROW)) [n ..< f_array_size st2] st2;
          st4 = (if SQL_SUCCEEDED res \<and> f_result_array st3 = None \<and> \<not> if_forward_cache st3 then
                   let (old, c) = c_row_seek S save_position (f_client st3) in st3\<lparr>f_client := c, f_end_of_set := old\<rparr>
                 else st3)
      in if SQL_SUCCEEDED res \<and> f_rows_found st4 < f_array_size st4 then
           if disconnected then Some (Inl (retcode (f_error st4), st4))
           else if f_rows_found st4 = 0 then Some (Inr (SQL_NO_DATA_FOUND, st4))
           else Some (Inr (res, st4))
         else Some (Inr (res, st4)))"

definition rows_to_fetch :: "('c, 'o, 'r) services \<Rightarrow> nat \<Rightarrow> int \<Rightarrow> int \<Rightarrow> ('c, 'o, 'r) fetch_state \<Rightarrow> nat" where
  "rows_to_fetch S fFetchType max_row cur_row st =
     (if scroller_exists (f_scroller st) \<or> (if_forward_cache st \<and> f_result_array st = None) \<or>
         (fFetchType = SQL_FETCH_BOOKMARK \<and> f_bookmark_insert st)
      then f_array_size st
      else nat (min (max_row - cur_row) (int (f_array_size st)) mod 2 ^ 64))"

text \<open>Output parameters that are there already: true when there is nothing to fetch.\<close>

definition out_params_fetched :: "('c, 'o, 'r) services \<Rightarrow> ('c, 'o, 'r) fetch_state \<Rightarrow> bool \<times> ('c, 'o, 'r) fetch_state" where
  "out_params_fetched S st =
     (case f_out_params st of
        OPS_UNKNOWN \<Rightarrow> (False, st)
      | OPS_BEING_FETCHED \<Rightarrow> (True, st)
      | OPS_STREAMS_PENDING \<Rightarrow> (False, st\<lparr>f_client := c_fetch_out S (f_client st), f_out_params := OPS_BEING_FETCHED\<rparr>)
      | OPS_PREFETCHED \<Rightarrow> (False, st\<lparr>f_out_params := OPS_BEING_FETCHED\<rparr>))"

definition fetch_rowset ::
    "('c, 'o, 'r) services \<Rightarrow> nat \<Rightarrow> int \<Rightarrow> bool \<Rightarrow> ('c, 'o, 'r) fetch_state \<Rightarrow> (('c, 'o, 'r) fetch_state, int) step" where
  "fetch_rowset S fFetchType irow upd_status st0 =
     (let max_row = int (num_rows S st0); st = st0\<lparr>f_current_values := None\<rparr> in
      bind_step (compute_cur_row S fFetchType irow st) (\<lambda>cur_row st1.
        let wanted = rows_to_fetch S fFetchType max_row cur_row st1 in
        if wanted = 0 \<and> f_out_params st1 = OPS_UNKNOWN then
          Some (Inr (SQL_NO_DATA_FOUND, st1\<lparr>f_pcrow := 0, f_rows_found := 0,
            f_rows_processed := (if upd_status then map_option (\<lambda>_. 0) (f_rows_processed st1) else f_rows_processed st1)\<rparr>))
        else
          bind_step (fetch_cycle S fFetchType irow upd_status (if wanted = 0 then 1 else wanted) 0 cur_row
                       SQL_SUCCESS SQL_SUCCESS (f_end_of_set st1) st1)
            (\<lambda>(n, res, save) st2. end_of_fetch S upd_status n res save st2)))"

definition my_SQLExtendedFetch ::
    "('c, 'o, 'r) services \<Rightarrow> nat \<Rightarrow> int \<Rightarrow> bool \<Rightarrow> ('c, 'o, 'r) fetch_state \<Rightarrow> (int \<times> ('c, 'o, 'r) fetch_state) option" where
  "my_SQLExtendedFetch S fFetchType irow upd_status st =
     caught
       (if \<not> f_result st then Some (Inl (set_state_error S ''24000'' ''Fetch without a SELECT'' 0 st))
        else
          case out_params_fetched S st of
            (True, st1) \<Rightarrow> Some (Inr (SQL_NO_DATA_FOUND, st1))
          | (False, st1) \<Rightarrow>
              if f_cursor_type st1 = SQL_CURSOR_FORWARD_ONLY \<and> fFetchType \<noteq> SQL_FETCH_NEXT \<and> \<not> f_safe st1 then
                Some (Inl (set_errid S MYERR_S1106 ''Wrong fetchtype with FORWARD ONLY cursor'' st1))
              else
                let (failed, st2) =
                      (if is_dynamic_cursor st1 then map_prod id (\<lambda>c. st1\<lparr>f_client := c\<rparr>) (c_reexecute S (f_client st1))
                       else (False, st1))
                in if failed then
                     Some (Inl (set_errid S MYERR_S1000 ''Driver Failed to set the internal dynamic result'' st2))
                   else fetch_rowset S fFetchType irow upd_status st2)"

text \<open>
  The entry points. \<open>SQLFetch\<close> and \<open>SQLFetchScroll\<close> pass the status array and the counter of the
  implementation row descriptor as those of the caller.
\<close>

definition own_outputs :: "('c, 'o, 'r) fetch_state \<Rightarrow> ('c, 'o, 'r) fetch_state" where
  "own_outputs st =
     st\<lparr>f_row_status := f_array_status st, f_pcrow := (case f_rows_processed st of Some n \<Rightarrow> n | None \<Rightarrow> 0)\<rparr>"

definition own_results :: "('c, 'o, 'r) fetch_state \<Rightarrow> ('c, 'o, 'r) fetch_state" where
  "own_results st =
     st\<lparr>f_array_status := f_row_status st, f_rows_processed := map_option (\<lambda>_. f_pcrow st) (f_rows_processed st)\<rparr>"

definition SQLFetch :: "('c, 'o, 'r) services \<Rightarrow> ('c, 'o, 'r) fetch_state \<Rightarrow> (int \<times> ('c, 'o, 'r) fetch_state) option" where
  "SQLFetch S st = map_option (map_prod id own_results) (my_SQLExtendedFetch S SQL_FETCH_NEXT 0 False (own_outputs st))"

definition SQLExtendedFetch ::
    "('c, 'o, 'r) services \<Rightarrow> nat \<Rightarrow> int \<Rightarrow> (nat \<rightharpoonup> int) option \<Rightarrow> ('c, 'o, 'r) fetch_state
      \<Rightarrow> (int \<times> ('c, 'o, 'r) fetch_state) option" where
  "SQLExtendedFetch S fFetchType irow rgfRowStatus st =
     my_SQLExtendedFetch S fFetchType irow True (st\<lparr>f_row_status := rgfRowStatus, f_pcrow := 0\<rparr>)"

text \<open>The bookmark an application points to, and whether its column has a record in the application's descriptor, are arguments.\<close>

definition SQLFetchScroll ::
    "('c, 'o, 'r) services \<Rightarrow> nat \<Rightarrow> int \<Rightarrow> int option \<Rightarrow> bool \<Rightarrow> ('c, 'o, 'r) fetch_state
      \<Rightarrow> (int \<times> ('c, 'o, 'r) fetch_state) option" where
  "SQLFetchScroll S orientation FetchOffset bookmark_ptr record_found st =
     (let fetch = (\<lambda>off. map_option (map_prod id own_results) (my_SQLExtendedFetch S orientation off False (own_outputs st))) in
      if orientation = SQL_FETCH_BOOKMARK then
        case bookmark_ptr of
          None \<Rightarrow> fetch FetchOffset
        | Some b \<Rightarrow>
            if f_bookmarks st \<noteq> SQL_UB_VARIABLE then
              Some (SQL_ERROR, snd (set_state_error S ''HY092'' ''Invalid attribute identifier'' 0 st))
            else if \<not> record_found then Some (SQL_ERROR, st)
            else fetch (FetchOffset + b)
      else fetch FetchOffset)"

end
