(* ===== verification/Fetch_Props.thy ===== *)
theory Fetch_Props
  imports Fetch
begin

text \<open>
  Fetching from a result that the client library holds in memory: the rowsets an application sees
  are those of a cursor over the list of rows, whatever the order of its calls, as long as no conversion fails;
  and what goes wrong when one does.
\<close>

section \<open>A result in memory\<close>

text \<open>
  What the manual of the client library says of a stored result: \<open>seen c\<close> is the list of its rows and the
  position of its cursor. \<open>c_row_seek\<close> moves the cursor and returns the offset it had; an offset that
  \<open>c_row_tell\<close> gave goes back to where it was given, and of other offsets nothing more is assumed than that the
  cursor is somewhere (\<open>place\<close>) and the rows are what they were. A row is listed as \<open>STMT::fetch_row\<close> completes it.
\<close>

definition stored_result ::
    "('c, 'o, 'r) services \<Rightarrow> ('c \<Rightarrow> 'r list \<times> nat) \<Rightarrow> ('r list \<Rightarrow> 'o \<Rightarrow> nat) \<Rightarrow> bool" where
  "stored_result S seen place \<longleftrightarrow>
     (\<forall>c. c_num_rows S c = length (fst (seen c))) \<and>
     (\<forall>c n. seen (c_data_seek S n c) = (fst (seen c), min n (length (fst (seen c))))) \<and>
     (\<forall>c. place (fst (seen c)) (c_row_tell S c) = snd (seen c)) \<and>
     (\<forall>c x. fst (c_row_seek S x c) = c_row_tell S c \<and> seen (snd (c_row_seek S x c)) = (fst (seen c), place (fst (seen c)) x)) \<and>
     (\<forall>c. let (rows, p) = seen c in
        (case fst (c_fetch_row S c) of
           Row v \<Rightarrow> p < length rows \<and> completed S v = rows ! p
         | No_row \<Rightarrow> length rows \<le> p
         | Fetch_error \<Rightarrow> False) \<and>
        seen (snd (c_fetch_row S c)) = (rows, if p < length rows then Suc p else p))"

lemma stored_resultD:
  assumes "stored_result S seen place"
  shows "c_num_rows S c = length (fst (seen c))"
    "seen (c_data_seek S n c) = (fst (seen c), min n (length (fst (seen c))))"
    "place (fst (seen c)) (c_row_tell S c) = snd (seen c)"
    "fst (c_row_seek S x c) = c_row_tell S c"
    "seen (snd (c_row_seek S x c)) = (fst (seen c), place (fst (seen c)) x)"
  using assms unfolding stored_result_def Let_def by (simp_all add: split_beta)

lemma stored_result_fetch:
  assumes "stored_result S seen place" "seen c = (rows, p)"
  shows "case fst (c_fetch_row S c) of
      Row v \<Rightarrow> p < length rows \<and> completed S v = rows ! p | No_row \<Rightarrow> length rows \<le> p | Fetch_error \<Rightarrow> False"
    "seen (snd (c_fetch_row S c)) = (rows, if p < length rows then Suc p else p)"
proof -
  have "let (rows, p) = seen c in
      (case fst (c_fetch_row S c) of
        Row v \<Rightarrow> p < length rows \<and> completed S v = rows ! p | No_row \<Rightarrow> length rows \<le> p | Fetch_error \<Rightarrow> False) \<and>
      seen (snd (c_fetch_row S c)) = (rows, if p < length rows then Suc p else p)"
    using assms(1) unfolding stored_result_def by blast
  then show "case fst (c_fetch_row S c) of
      Row v \<Rightarrow> p < length rows \<and> completed S v = rows ! p | No_row \<Rightarrow> length rows \<le> p | Fetch_error \<Rightarrow> False"
    "seen (snd (c_fetch_row S c)) = (rows, if p < length rows then Suc p else p)"
    unfolding assms(2) by simp_all
qed

text \<open>
  A statement with a result of its own in memory: no array of the driver's, no scroller, no output
  parameters, no re-execution by a dynamic cursor, no rows added through bookmarks.
\<close>

definition plain :: "('c, 'o, 'r) fetch_state \<Rightarrow> bool" where
  "plain st \<longleftrightarrow> f_result st \<and> f_result_array st = None \<and> f_out_params st = OPS_UNKNOWN \<and>
     f_cursor_type st \<noteq> SQL_CURSOR_DYNAMIC \<and> \<not> if_forward_cache st \<and> \<not> f_bookmark_insert st \<and>
     \<not> scroller_exists (f_scroller st) \<and> 0 < f_array_size st \<and> f_array_size st < 2 ^ 32"

definition connected :: "('c, 'o, 'r) services \<Rightarrow> bool" where
  "connected S \<longleftrightarrow> (\<forall>c. \<not> is_connection_lost (d_server_error S) (c_errno S c))"

text \<open>No conversion fails; it may truncate.\<close>

definition convertible :: "('c, 'o, 'r) services \<Rightarrow> bool" where
  "convertible S \<longleftrightarrow> (\<forall>v i k. SQL_SUCCEEDED (d_get_data S v i k)) \<and> (\<forall>b k. SQL_SUCCEEDED (d_get_bookmark S b k))"

text \<open>What no fetch changes.\<close>

definition settings where
  "settings st = (f_result st, f_result_array st, f_out_params st, f_cursor_type st, f_safe st, f_no_cache st, f_array_size st,
     f_columns st, f_bound st, f_bookmark_bound st, f_bookmarks st, f_bookmark_insert st, f_scroller st)"

definition position where
  "position st = (f_current_row st, f_rows_found st, f_end_of_set st)"

lemma plain_settings: "settings st1 = settings st \<Longrightarrow> plain st1 = plain st"
  by (simp add: settings_def plain_def if_forward_cache_def)

lemma put_status_same [simp]:
  "settings (put_status upd i s st) = settings st" "position (put_status upd i s st) = position st"
  "f_client (put_status upd i s st) = f_client st" "f_rowset (put_status upd i s st) = f_rowset st"
  "f_error (put_status upd i s st) = f_error st" "f_pcrow (put_status upd i s st) = f_pcrow st"
  "f_rows_processed (put_status upd i s st) = f_rows_processed st"
  by (simp_all add: put_status_def settings_def position_def)

lemma bind_step_simps [simp]:
  "bind_step (Some (Inl e)) k = Some (Inl e)" "bind_step (Some (Inr (a, s))) k = k a s" "bind_step None k = None"
  by (simp_all add: bind_step_def)

section \<open>The fetching cycle\<close>

lemma succeeded_simps [simp]: "SQL_SUCCEEDED SQL_SUCCESS" "SQL_SUCCEEDED SQL_SUCCESS_WITH_INFO" "\<not> SQL_SUCCEEDED SQL_ERROR"
  by (simp_all add: SQL_SUCCEEDED_def retcodes)

lemma add_column_succeeded: "SQL_SUCCEEDED a \<Longrightarrow> SQL_SUCCEEDED b \<Longrightarrow> SQL_SUCCEEDED (add_column a b)"
  by (auto simp: add_column_def SQL_SUCCEEDED_def)

lemma fill_succeeded: "convertible S \<Longrightarrow> SQL_SUCCEEDED (fill_fetch_buffers S st v i)"
proof -
  assume c: "convertible S"
  have "SQL_SUCCEEDED res \<Longrightarrow> SQL_SUCCEEDED (fold (\<lambda>k. add_column (d_get_data S v k i)) ks res)" for ks res
    by (induction ks arbitrary: res) (use c in \<open>simp_all add: convertible_def add_column_succeeded\<close>)
  then show ?thesis by (simp add: fill_fetch_buffers_def)
qed

lemma add_row_succeeded: "SQL_SUCCEEDED row_res \<Longrightarrow> SQL_SUCCEEDED res \<Longrightarrow> SQL_SUCCEEDED (add_row i row_res book res)"
  by (auto simp: add_row_def)

lemma next_values_stored:
  assumes "stored_result S seen place" "plain st" "connected S" "seen (f_client st) = (rows, p)"
  shows "\<exists>c. next_values S i cur save st =
      Some (Inr ((if p < length rows then Some (rows ! p) else None, if i = 0 then c_row_tell S (f_client st) else save),
        if p < length rows then st\<lparr>f_client := c, f_current_values := Some (rows ! p)\<rparr> else st\<lparr>f_client := c\<rparr>)) \<and>
    seen c = (rows, if p < length rows then Suc p else p)"
proof -
  note s = stored_result_fetch [OF assms(1,4)]
  let ?c = "snd (c_fetch_row S (f_client st))"
  have f: "fetch_row S st = Some (Inr (if p < length rows then Some (rows ! p) else None, st\<lparr>f_client := ?c\<rparr>))"
    using s(1) by (auto simp: fetch_row_def split_beta split: fetched.splits)
  have n: "fetch_next S save1 st = Some (Inr ((if p < length rows then Some (rows ! p) else None, save1), st\<lparr>f_client := ?c\<rparr>))" for save1
    using assms(2) by (simp add: fetch_next_def f plain_def)
  then show ?thesis
    using assms(2,3) s(2) by (intro exI [of _ ?c]) (simp add: next_values_def plain_def Let_def n fix_fields_def split: option.split)
qed

lemma bookmark_same:
  "f_bookmarks st = SQL_UB_VARIABLE \<Longrightarrow> snd (fill_fetch_bookmark_buffers S v i st) = st"
  by (simp add: fill_fetch_bookmark_buffers_def)

lemma fetch_cycle_stored:
  assumes "stored_result S seen place" "connected S" "convertible S"
  shows "plain st \<Longrightarrow> seen (f_client st) = (rows, p) \<Longrightarrow> SQL_SUCCEEDED res \<Longrightarrow> m = min n (length rows - p) \<Longrightarrow>
    \<exists>res1 save1 st1. fetch_cycle S ty irow upd n i cur res book save st = Some (Inr ((i + m, res1, save1), st1)) \<and>
      SQL_SUCCEEDED res1 \<and> seen (f_client st1) = (rows, p + m) \<and> settings st1 = settings st \<and> position st1 = position st \<and>
      f_rowset st1 = (\<lambda>k. if i \<le> k \<and> k < i + m then Some (rows ! (p + (k - i))) else f_rowset st k) \<and>
      (save1 = (if i = 0 \<and> 0 < n then c_row_tell S (f_client st) else save))"
proof (induction n arbitrary: i cur res book save st p m)
  case 0
  then show ?case by (auto simp: settings_def fun_eq_iff)
next
  case (Suc n)
  obtain c where nv: "next_values S i cur save st =
      Some (Inr ((if p < length rows then Some (rows ! p) else None, if i = 0 then c_row_tell S (f_client st) else save),
        if p < length rows then st\<lparr>f_client := c, f_current_values := Some (rows ! p)\<rparr> else st\<lparr>f_client := c\<rparr>))"
    and c: "seen c = (rows, if p < length rows then Suc p else p)"
    using next_values_stored [OF assms(1) Suc.prems(1) assms(2) Suc.prems(2)] by blast
  show ?case
  proof (cases "p < length rows")
    case True
    define st1 where "st1 = st\<lparr>f_client := c, f_current_values := Some (rows ! p)\<rparr>"
    let ?save = "if i = 0 then c_row_tell S (f_client st) else save"
    obtain book1 where b: "(if ty = SQL_FETCH_BOOKMARK \<and> f_bookmarks st1 = SQL_UB_VARIABLE
        then fill_fetch_bookmark_buffers S (nat ((irow + int i + 1) mod 2 ^ 64)) i st1 else (book, st1)) = (book1, st1)"
      using bookmark_same [of st1 S "nat ((irow + int i + 1) mod 2 ^ 64)" i] by (metis (full_types) prod.collapse)
    define rr where "rr = fill_fetch_buffers S st1 (rows ! p) i"
    define st2 where "st2 = put_status upd i (sqlreturn2row_status rr) (st1\<lparr>f_rowset := (f_rowset st1)(i \<mapsto> rows ! p)\<rparr>)"
    have step: "fetch_cycle S ty irow upd (Suc n) i cur res book save st =
        fetch_cycle S ty irow upd n (Suc i) (cur + 1) (add_row i rr book1 res) book1 ?save st2"
      using True by (simp add: nv st1_def [symmetric] b rr_def st2_def Let_def)
    have f: "settings st2 = settings st" "position st2 = position st" "f_client st2 = c" "f_rowset st2 = (f_rowset st)(i \<mapsto> rows ! p)"
      by (simp_all add: st2_def st1_def settings_def position_def put_status_def)
    have m: "m = Suc (min n (length rows - Suc p))" using Suc.prems(4) True by simp
    have pl: "plain st2" using Suc.prems(1) plain_settings [OF f(1)] by simp
    have sn: "seen (f_client st2) = (rows, Suc p)" using c True by (simp add: f(3))
    have ok: "SQL_SUCCEEDED (add_row i rr book1 res)"
      using Suc.prems(3) fill_succeeded [OF assms(3)] by (simp add: add_row_succeeded rr_def)
    obtain res1 save1 st3 where IH: "fetch_cycle S ty irow upd n (Suc i) (cur + 1) (add_row i rr book1 res) book1 ?save st2 =
          Some (Inr ((Suc i + min n (length rows - Suc p), res1, save1), st3))" "SQL_SUCCEEDED res1"
        "seen (f_client st3) = (rows, Suc p + min n (length rows - Suc p))" "settings st3 = settings st2" "position st3 = position st2"
        "f_rowset st3 = (\<lambda>k. if Suc i \<le> k \<and> k < Suc i + min n (length rows - Suc p) then Some (rows ! (Suc p + (k - Suc i))) else f_rowset st2 k)"
        "save1 = ?save"
      using Suc.IH [OF pl sn ok refl, of "Suc i" "cur + 1" book1 ?save] by (auto simp only: if_False nat.simps simp_thms)
    have "f_rowset st3 = (\<lambda>k. if i \<le> k \<and> k < i + m then Some (rows ! (p + (k - i))) else f_rowset st k)"
    proof (rule ext)
      fix k
      have "Suc i \<le> k \<Longrightarrow> Suc p + (k - Suc i) = p + (k - i)" by simp
      then show "f_rowset st3 k = (if i \<le> k \<and> k < i + m then Some (rows ! (p + (k - i))) else f_rowset st k)"
        by (auto simp add: IH(6) f(4) m simp del: add_Suc add_Suc_right)
    qed
    then show ?thesis
    proof (intro exI conjI)
      show "fetch_cycle S ty irow upd (Suc n) i cur res book save st = Some (Inr ((i + m, res1, save1), st3))"
        unfolding step IH(1) by (simp add: m)
      show "SQL_SUCCEEDED res1" by (rule IH(2))
      show "seen (f_client st3) = (rows, p + m)" unfolding IH(3) by (simp add: m)
      show "settings st3 = settings st" "position st3 = position st" unfolding IH(4,5) f(1,2) by simp_all
      show "save1 = (if i = 0 \<and> 0 < Suc n then c_row_tell S (f_client st) else save)" unfolding IH(7) by simp
    qed
  next
    case False
    have "f_rowset st = (\<lambda>k. if i \<le> k \<and> k < i + 0 then Some (rows ! (p + (k - i))) else f_rowset st k)"
      by (rule ext) auto
    then show ?thesis using False Suc.prems c nv by (auto simp: settings_def position_def)
  qed
qed

section \<open>The cursor\<close>

text \<open>
  The specification: a cursor over a list of rows, either before the start or with a rowset on show, between the rows
  that it has passed and those ahead. Every type of fetch is a way to cut the list again.
\<close>

datatype 'r cursor = Before_start | Showing (passed: "'r list") (shown: "'r list") (ahead: "'r list")

text \<open>The rowset that begins when the first \<open>n\<close> rows are passed, and the last \<open>n\<close> rows of a list cut off.\<close>

definition show_from :: "nat \<Rightarrow> 'r list \<Rightarrow> 'r list \<Rightarrow> 'r cursor" where
  "show_from sz before rest = Showing before (take sz rest) (drop sz rest)"

definition pass :: "nat \<Rightarrow> nat \<Rightarrow> 'r list \<Rightarrow> 'r cursor" where
  "pass sz n rows = show_from sz (take n rows) (drop n rows)"

definition but_last :: "nat \<Rightarrow> 'r list \<Rightarrow> 'r list" where
  "but_last n xs = rev (drop n (rev xs))"

definition last_of :: "nat \<Rightarrow> 'r list \<Rightarrow> 'r list" where
  "last_of n xs = rev (take n (rev xs))"

definition first_rowset :: "nat \<Rightarrow> 'r list \<Rightarrow> 'r cursor" where
  "first_rowset sz rows = show_from sz [] rows"

text \<open>\<open>n\<close> rows back over the rows passed: further back than they go, the first rowset while \<open>n\<close> is at most its size.\<close>

definition rows_back :: "nat \<Rightarrow> nat \<Rightarrow> 'r list \<Rightarrow> 'r list \<Rightarrow> 'r cursor" where
  "rows_back sz n before rest =
     (if n \<le> length before then show_from sz (but_last n before) (last_of n before @ rest)
      else if n \<le> sz then first_rowset sz (before @ rest)
      else Before_start)"

fun next_rowset :: "nat \<Rightarrow> 'r list \<Rightarrow> 'r cursor \<Rightarrow> 'r cursor" where
  "next_rowset sz rows Before_start = first_rowset sz rows"
| "next_rowset sz rows (Showing b s a) = show_from sz (b @ s) a"

fun prior_rowset :: "nat \<Rightarrow> 'r cursor \<Rightarrow> 'r cursor" where
  "prior_rowset sz Before_start = Before_start"
| "prior_rowset sz (Showing b s a) =
     (if length b < sz then Before_start else Showing (but_last sz b) (last_of sz b) (s @ a))"

definition last_rowset :: "nat \<Rightarrow> 'r list \<Rightarrow> 'r cursor" where
  "last_rowset sz rows = (if length rows < sz then Before_start else Showing (but_last sz rows) (last_of sz rows) [])"

definition absolute_rowset :: "nat \<Rightarrow> int \<Rightarrow> 'r list \<Rightarrow> 'r cursor" where
  "absolute_rowset sz k rows =
     (if k > 0 then pass sz (nat k - 1) rows else if k = 0 then Before_start else rows_back sz (nat (- k)) rows [])"

fun relative_rowset :: "nat \<Rightarrow> int \<Rightarrow> 'r list \<Rightarrow> 'r cursor \<Rightarrow> 'r cursor" where
  "relative_rowset sz k rows Before_start = (if k > 0 then pass sz (nat k - 1) rows else Before_start)"
| "relative_rowset sz k rows (Showing b s a) =
     (if k \<ge> 0 then show_from sz (b @ take (nat k) (s @ a)) (drop (nat k) (s @ a))
      else if b = [] then Before_start
      else rows_back sz (nat (- k)) b (s @ a))"

definition bookmark_rowset :: "nat \<Rightarrow> int \<Rightarrow> 'r list \<Rightarrow> 'r cursor" where
  "bookmark_rowset sz k rows = (if k \<ge> 0 then pass sz (nat k) rows else rows_back sz (nat (- k)) [] rows)"

definition cursor_move :: "nat \<Rightarrow> nat \<Rightarrow> int \<Rightarrow> 'r list \<Rightarrow> 'r cursor \<Rightarrow> 'r cursor option" where
  "cursor_move sz ty k rows cur =
     (if ty = SQL_FETCH_NEXT then Some (next_rowset sz rows cur)
      else if ty = SQL_FETCH_PRIOR then Some (prior_rowset sz cur)
      else if ty = SQL_FETCH_FIRST then Some (first_rowset sz rows)
      else if ty = SQL_FETCH_LAST then Some (last_rowset sz rows)
      else if ty = SQL_FETCH_ABSOLUTE then Some (absolute_rowset sz k rows)
      else if ty = SQL_FETCH_RELATIVE then Some (relative_rowset sz k rows cur)
      else if ty = SQL_FETCH_BOOKMARK then Some (bookmark_rowset sz k rows)
      else None)"

fun rowset_of :: "'r cursor \<Rightarrow> 'r list" where
  "rowset_of Before_start = []"
| "rowset_of (Showing b s a) = s"

text \<open>The rows a cursor is over, and what a statement holds for it: the row \<open>- 1\<close>, or as many rows as are passed.\<close>

fun cursor_over :: "'r list \<Rightarrow> 'r cursor \<Rightarrow> bool" where
  "cursor_over rows Before_start = True"
| "cursor_over rows (Showing b s a) = (rows = b @ s @ a)"

fun cursor_numbers :: "'r cursor \<Rightarrow> int \<times> nat" where
  "cursor_numbers Before_start = (- 1, 0)"
| "cursor_numbers (Showing b s a) = (int (length b), length s)"

definition cursor_of :: "'r list \<Rightarrow> 'r cursor \<Rightarrow> ('c, 'o, 'r) fetch_state \<Rightarrow> bool" where
  "cursor_of rows cur st \<longleftrightarrow> cursor_over rows cur \<and> (f_current_row st, f_rows_found st) = cursor_numbers cur"

subsection \<open>The numbers of a cursor\<close>

text \<open>The rowset at the row that \<open>target_row\<close> computes: the code's arithmetic over the list, to be compared with the cursor.\<close>

definition cursor_fetch ::
    "'r list \<Rightarrow> nat \<Rightarrow> nat \<Rightarrow> int \<Rightarrow> int \<times> nat \<Rightarrow> ('r list \<times> int \<times> nat) option" where
  "cursor_fetch rows sz ty irow at =
     (case target_row (int (length rows)) (fst at) (int (snd at)) (int sz) ty irow of
        None \<Rightarrow> None
      | Some t \<Rightarrow>
          if t < 0 then Some ([], - 1, 0)
          else let start = min (nat t) (length rows); rowset = take sz (drop start rows)
               in Some (rowset, int start, length rowset))"

definition at_cursor :: "'r cursor \<Rightarrow> ('r list \<times> int \<times> nat) option" where
  "at_cursor cur = Some (rowset_of cur, cursor_numbers cur)"

definition numbered :: "'r list \<Rightarrow> nat \<Rightarrow> int \<Rightarrow> ('r list \<times> int \<times> nat) option" where
  "numbered rows sz t =
     (if t < 0 then Some ([], - 1, 0)
      else let start = min (nat t) (length rows); rowset = take sz (drop start rows)
           in Some (rowset, int start, length rowset))"

lemma cursor_fetch_numbered:
  "cursor_fetch rows sz ty irow at =
     Option.bind (target_row (int (length rows)) (fst at) (int (snd at)) (int sz) ty irow) (numbered rows sz)"
  by (simp add: cursor_fetch_def numbered_def split: option.split)

lemma numbered_before: "t < 0 \<Longrightarrow> numbered rows sz t = at_cursor Before_start"
  by (simp add: numbered_def at_cursor_def)

lemma numbered_show_from:
  "t = int (length b) \<Longrightarrow> numbered (b @ rest) sz t = at_cursor (show_from sz b rest)"
  by (simp add: numbered_def at_cursor_def show_from_def Let_def)

lemma numbered_pass: "t = int n \<Longrightarrow> numbered rows sz t = at_cursor (pass sz n rows)"
  by (auto simp add: numbered_def at_cursor_def pass_def show_from_def Let_def min_def)

lemma but_last_conv: "but_last n xs = take (length xs - n) xs" "last_of n xs = drop (length xs - n) xs"
  by (simp_all add: but_last_def last_of_def drop_rev take_rev)

lemma but_last_of [simp]: "but_last n xs @ last_of n xs = xs" "length (but_last n xs) = length xs - n"
  "n \<le> length xs \<Longrightarrow> length (last_of n xs) = n" "but_last n xs @ last_of n xs @ ys = xs @ ys"
  by (simp_all add: but_last_conv flip: append_assoc)

lemma numbered_back:
  assumes "t = (if int (length b) < int n \<and> n \<le> sz then 0 else int (length b) - int n)"
  shows "numbered (b @ rest) sz t = at_cursor (rows_back sz n b rest)"
proof (cases "n \<le> length b")
  case True
  then have "t = int (length (but_last n b))" using assms by simp
  from numbered_show_from [OF this, of "last_of n b @ rest" sz] show ?thesis using True by (simp add: rows_back_def)
next
  case False
  then show ?thesis
    using assms numbered_show_from [of t "[]" "b @ rest" sz] numbered_before [of t "b @ rest" sz]
    by (auto simp: rows_back_def first_rowset_def)
qed

lemma numbered_prior:
  assumes "0 < sz"
  shows "numbered (b @ s @ a) sz (if b = [] then - 1 else int (length b) - int sz) = at_cursor (prior_rowset sz (Showing b s a))"
proof (cases "length b < sz")
  case True
  then show ?thesis by (auto intro: numbered_before)
next
  case False
  then have "b \<noteq> []" "int (length b) - int sz = int (length (but_last sz b))" using assms by auto
  from numbered_show_from [OF this(2), of "last_of sz b @ s @ a" sz] False this(1) show ?thesis
    by (simp add: show_from_def)
qed

lemma numbered_last: "numbered rows sz (int (length rows) - int sz) = at_cursor (last_rowset sz rows)"
proof (cases "length rows < sz")
  case True
  then show ?thesis by (simp add: numbered_before last_rowset_def)
next
  case False
  then have "int (length rows) - int sz = int (length (but_last sz rows))" by simp
  from numbered_show_from [OF this, of "last_of sz rows" sz] False show ?thesis
    by (simp add: show_from_def last_rowset_def)
qed

lemma numbered_absolute:
  "numbered rows sz (if k < 0 then if int (length rows) + k < 0 \<and> - k \<le> int sz then 0 else int (length rows) + k else k - 1) =
     at_cursor (absolute_rowset sz k rows)"
proof -
  consider "k > 0" | "k = 0" | "k < 0" by linarith
  then show ?thesis
  proof cases
    case 1
    then show ?thesis using numbered_pass [of "k - 1" "nat k - 1" rows sz] by (simp add: absolute_rowset_def)
  next
    case 2
    then show ?thesis by (simp add: absolute_rowset_def numbered_before)
  next
    case 3
    let ?t = "if int (length rows) + k < 0 \<and> - k \<le> int sz then 0 else int (length rows) + k"
    have "?t = (if int (length rows) < int (nat (- k)) \<and> nat (- k) \<le> sz then 0 else int (length rows) - int (nat (- k)))"
      using 3 by auto
    from numbered_back [OF this, of "[]"] 3 show ?thesis by (simp add: absolute_rowset_def)
  qed
qed

lemma numbered_ahead:
  "numbered (b @ r) sz (int (length b) + int n) = at_cursor (show_from sz (b @ take n r) (drop n r))"
  using numbered_pass [of "int (length b) + int n" "length b + n" "b @ r" sz] by (simp add: pass_def)

lemma numbered_relative:
  "numbered (b @ s @ a) sz (if int (length b) > 0 \<and> int (length b) + k < 0 \<and> - k \<le> int sz then 0 else int (length b) + k) =
     at_cursor (relative_rowset sz k (b @ s @ a) (Showing b s a))"
proof -
  consider "k \<ge> 0" | "k < 0" "b = []" | "k < 0" "b \<noteq> []" by linarith
  then show ?thesis
  proof cases
    case 1
    then show ?thesis using numbered_ahead [of b "s @ a" sz "nat k"] by simp
  next
    case 2
    then show ?thesis by (simp add: numbered_before)
  next
    case 3
    let ?t = "if int (length b) > 0 \<and> int (length b) + k < 0 \<and> - k \<le> int sz then 0 else int (length b) + k"
    have "?t = (if int (length b) < int (nat (- k)) \<and> nat (- k) \<le> sz then 0 else int (length b) - int (nat (- k)))"
      using 3 by auto
    from numbered_back [OF this, of "s @ a"] 3 show ?thesis by simp
  qed
qed

lemma numbered_relative_start: "numbered rows sz (- 1 + k) = at_cursor (relative_rowset sz k rows Before_start)"
proof (cases "k > 0")
  case True
  then have "- 1 + k = int (nat k - 1)" by simp
  from numbered_pass [OF this] True show ?thesis by simp
qed (simp add: numbered_before)

lemma numbered_bookmark:
  "numbered rows sz (if k < 0 \<and> - k \<le> int sz then 0 else k) = at_cursor (bookmark_rowset sz k rows)"
proof (cases "k < 0")
  case True
  let ?t = "if k < 0 \<and> - k \<le> int sz then 0 else k"
  have "?t = (if int (length []) < int (nat (- k)) \<and> nat (- k) \<le> sz then 0 else int (length []) - int (nat (- k)))"
    using True by auto
  from numbered_back [OF this, of rows] True show ?thesis by (simp add: bookmark_rowset_def)
next
  case False
  then have "k = int (nat k)" by simp
  from numbered_pass [OF this] False show ?thesis by (simp add: bookmark_rowset_def)
qed

lemma numbered_first: "numbered rows sz 0 = at_cursor (first_rowset sz rows)"
  using numbered_show_from [of 0 "[]" rows sz] by (simp add: first_rowset_def)

lemma numbered_next:
  "numbered (b @ s @ a) sz (int (length b) + int (length s)) = at_cursor (next_rowset sz (b @ s @ a) (Showing b s a))"
  using numbered_show_from [of "int (length b) + int (length s)" "b @ s" a sz] by simp

text \<open>The code's arithmetic is the cursor's cutting.\<close>

lemma bind_if:
  "Option.bind (if c then Some x else y) f = (if c then f x else Option.bind y f)"
  "Option.bind (Some x) f = f x" "Option.bind None f = None"
  by simp_all

lemma cursor_move_fetch:
  assumes "cursor_over rows cur" "0 < sz"
  shows "cursor_fetch rows sz ty k (cursor_numbers cur) = Option.bind (cursor_move sz ty k rows cur) at_cursor"
proof (cases cur)
  case Before_start
  have "(if (- 1 :: int) < 0 then 0 else - 1 + int 0) = 0" "(if (- 1 :: int) \<le> 0 then - 1 else - 1 - int sz) = - 1"
      "(let c = - 1 + k in Some (if (- 1 :: int) > 0 \<and> c < 0 \<and> - k \<le> int sz then 0 else c)) = Some (- 1 + k)"
    by (simp_all add: Let_def)
  moreover have "numbered rows sz (- 1) = at_cursor (prior_rowset sz Before_start)"
      "next_rowset sz rows Before_start = first_rowset sz rows"
    by (simp_all add: numbered_before)
  ultimately show ?thesis
    unfolding cursor_fetch_numbered target_row_def cursor_move_def Before_start cursor_numbers.simps fst_conv snd_conv
    by (simp only: bind_if numbered_first numbered_last numbered_absolute numbered_bookmark numbered_relative_start)
next
  case (Showing b s a)
  then have rows: "rows = b @ s @ a" using assms(1) by simp
  have "(if int (length b) < 0 then 0 else int (length b) + int (length s)) = int (length b) + int (length s)"
      "(if int (length b) \<le> 0 then - 1 else int (length b) - int sz) = (if b = [] then - 1 else int (length b) - int sz)"
      "(let c = int (length b) + k in Some (if int (length b) > 0 \<and> c < 0 \<and> - k \<le> int sz then 0 else c)) =
        Some (if int (length b) > 0 \<and> int (length b) + k < 0 \<and> - k \<le> int sz then 0 else int (length b) + k)"
    by (simp_all add: Let_def)
  then show ?thesis
    unfolding cursor_fetch_numbered target_row_def cursor_move_def Showing cursor_numbers.simps fst_conv snd_conv rows
    by (simp only: bind_if numbered_next numbered_prior [OF assms(2)] numbered_first numbered_last numbered_absolute
        numbered_bookmark numbered_relative)
qed

lemma cursor_over_move:
  assumes "cursor_over rows cur" "cursor_move sz ty k rows cur = Some cur1"
  shows "cursor_over rows cur1"
proof -
  have show_from: "b @ r = rows \<Longrightarrow> cursor_over rows (show_from sz b r)" for b r by (simp add: show_from_def)
  then have pass: "cursor_over rows (pass sz n rows)" for n by (simp add: pass_def)
  have first: "cursor_over rows (first_rowset sz rows)" using show_from by (simp add: first_rowset_def)
  have rows_back: "b @ r = rows \<Longrightarrow> cursor_over rows (rows_back sz n b r)" for n b r
    using first show_from [of "but_last n b" "last_of n b @ r"] by (auto simp: rows_back_def)
  have next1: "cursor_over rows (next_rowset sz rows cur)"
    using assms(1) first show_from by (cases cur) simp_all
  have prior: "cursor_over rows (prior_rowset sz cur)"
    using assms(1) by (cases cur) simp_all
  have relative: "cursor_over rows (relative_rowset sz k rows cur)"
  proof (cases cur)
    case (Showing b s a)
    have "(b @ take (nat k) (s @ a)) @ drop (nat k) (s @ a) = rows" using Showing assms(1) by (simp del: take_append drop_append)
    from show_from [OF this] rows_back [of b "s @ a"] Showing assms(1) show ?thesis
      by (simp del: take_append drop_append)
  qed (use pass in simp)
  have absolute: "cursor_over rows (absolute_rowset sz k rows)" "cursor_over rows (bookmark_rowset sz k rows)"
      "cursor_over rows (last_rowset sz rows)"
    using pass rows_back by (simp_all add: absolute_rowset_def bookmark_rowset_def last_rowset_def)
  show ?thesis using assms(2) first next1 prior relative absolute by (auto simp: cursor_move_def split: if_splits)
qed

text \<open>The offset that is kept is that of the end of the rowset, wherever it is going to be used.\<close>

definition kept_offset :: "('r list \<Rightarrow> 'o \<Rightarrow> nat) \<Rightarrow> 'r list \<Rightarrow> ('c, 'o, 'r) fetch_state \<Rightarrow> bool" where
  "kept_offset place rows st \<longleftrightarrow>
     (let e = f_current_row st + int (f_rows_found st)
      in 0 < e \<and> e < int (length rows) \<longrightarrow> int (place rows (f_end_of_set st)) = e)"

lemma seek_row_stored:
  assumes "stored_result S seen place" "plain st" "seen (f_client st) = (rows, p)" "kept_offset place rows st"
    "0 \<le> t" "t \<le> int (length rows)"
  shows "\<exists>c q. seek_row S t st = st\<lparr>f_client := c\<rparr> \<and> seen c = (rows, q) \<and> (t < int (length rows) \<longrightarrow> q = nat t)"
proof (cases "t \<noteq> 0 \<and> t = f_current_row st + int (f_rows_found st)")
  case True
  then have "seek_row S t st = st\<lparr>f_client := snd (c_row_seek S (f_end_of_set st) (f_client st))\<rparr>"
    using assms(2) by (simp add: seek_row_def plain_def)
  moreover have "t < int (length rows) \<Longrightarrow> place rows (f_end_of_set st) = nat t"
    using True assms(4,5) by (auto simp: kept_offset_def Let_def)
  ultimately show ?thesis
    using stored_resultD(5) [OF assms(1), of "f_end_of_set st" "f_client st"] assms(3) by auto
next
  case False
  then have "seek_row S t st = st\<lparr>f_client := c_data_seek S (nat t) (f_client st)\<rparr>"
    using assms(2) by (auto simp: seek_row_def plain_def)
  then show ?thesis
    using stored_resultD(2) [OF assms(1), of "nat t" "f_client st"] assms(3,5) by auto
qed

lemma num_rows_plain:
  "stored_result S seen place \<Longrightarrow> plain st \<Longrightarrow> seen (f_client st) = (rows, p) \<Longrightarrow> num_rows S st = length rows"
  by (simp add: num_rows_def plain_def Let_def stored_resultD(1))

lemma compute_stored:
  assumes "stored_result S seen place" "plain st" "seen (f_client st) = (rows, p)" "kept_offset place rows st"
    "cursor_fetch rows (f_array_size st) ty irow (f_current_row st, f_rows_found st) = Some (rowset, cur, n)"
  shows "if cur < 0 then rowset = [] \<and> cur = - 1 \<and> n = 0 \<and>
           (\<exists>c q. compute_cur_row S ty irow st = Some (Inl (SQL_NO_DATA_FOUND, st\<lparr>f_current_row := - 1, f_rows_found := 0, f_client := c\<rparr>)) \<and>
             seen c = (rows, q))
         else cur \<le> int (length rows) \<and> rowset = take (f_array_size st) (drop (nat cur) rows) \<and> n = length rowset \<and>
           (\<exists>c q. compute_cur_row S ty irow st = Some (Inr (cur, st\<lparr>f_client := c, f_current_row := cur\<rparr>)) \<and> seen c = (rows, q) \<and>
             (cur < int (length rows) \<longrightarrow> q = nat cur))"
proof -
  note nr = num_rows_plain [OF assms(1-3)]
  obtain t where t: "target_row (int (length rows)) (f_current_row st) (int (f_rows_found st)) (int (f_array_size st)) ty irow = Some t"
    using assms(5) by (auto simp: cursor_fetch_def split: option.splits)
  show ?thesis
  proof (cases "t < 0")
    case True
    then show ?thesis
      using assms(5) stored_resultD(2) [OF assms(1), of 0 "f_client st"] assms(3)
      by (auto simp: cursor_fetch_def t compute_cur_row_def Let_def nr)
  next
    case False
    define s where "s = min t (int (length rows))"
    have s: "0 \<le> s" "s \<le> int (length rows)" "s = int (min (nat t) (length rows))" using False by (auto simp: s_def)
    then have cur: "cur = s" "rowset = take (f_array_size st) (drop (nat s) rows)" "n = length rowset"
      using assms(5) False by (auto simp: cursor_fetch_def t Let_def)
    have "\<not> scroller_exists (f_scroller st)" using assms(2) by (simp add: plain_def)
    then have run: "compute_cur_row S ty irow st = Some (Inr (s, (seek_row S s st)\<lparr>f_current_row := s\<rparr>))"
      using False by (simp add: compute_cur_row_def Let_def nr t beyond_rows_def s_def min_def)
    obtain c q where c: "seek_row S s st = st\<lparr>f_client := c\<rparr>" "seen c = (rows, q)" "s < int (length rows) \<longrightarrow> q = nat s"
      using seek_row_stored [OF assms(1-4) s(1,2)] by blast
    have "(s < 0) = False" using s(1) by simp
    then show ?thesis using run [unfolded c(1)] cur(2,3) s(2) c(2,3) unfolding cur(1) by (simp only: if_False) blast
  qed
qed

section \<open>A fetch is a fetch of the cursor\<close>

lemma no_connection_lost: "connected S \<Longrightarrow> lost_connection S st = (False, st)"
  by (simp add: lost_connection_def connected_def)

lemma fold_put_status_same [simp]:
  "settings (fold (\<lambda>i. put_status upd i s) ks st) = settings st" "position (fold (\<lambda>i. put_status upd i s) ks st) = position st"
  "f_client (fold (\<lambda>i. put_status upd i s) ks st) = f_client st" "f_rowset (fold (\<lambda>i. put_status upd i s) ks st) = f_rowset st"
  by (induction ks arbitrary: st) simp_all

lemma end_of_fetch_stored:
  assumes "stored_result S seen place" "connected S" "plain st" "SQL_SUCCEEDED res" "seen (f_client st) = (rows, p)"
    "n \<le> f_array_size st"
  shows "\<exists>st1. end_of_fetch S upd n res save st = Some (Inr (if n = 0 then SQL_NO_DATA_FOUND else res, st1)) \<and>
    fst (seen (f_client st1)) = rows \<and> settings st1 = settings st \<and> f_current_row st1 = f_current_row st \<and>
    f_rows_found st1 = n \<and> f_rowset st1 = f_rowset st \<and> place rows (f_end_of_set st1) = p"
proof -
  let ?a = "st\<lparr>f_rows_found := n mod 2 ^ 32, f_pcrow := n\<rparr>"
  let ?b = "if upd then ?a\<lparr>f_rows_processed := map_option (\<lambda>_. n) (f_rows_processed ?a)\<rparr> else ?a"
  define st3 where "st3 = fold (\<lambda>i. put_status upd i SQL_ROW_NOROW) [n ..< f_array_size ?b] ?b"
  have s: "settings st3 = settings st" "f_client st3 = f_client st" "f_rowset st3 = f_rowset st"
    "position st3 = (f_current_row st, n mod 2 ^ 32, f_end_of_set st)"
    by (simp_all add: st3_def) (simp_all add: settings_def position_def)
  have p: "plain st3" using assms(3) plain_settings [OF s(1)] by simp
  have c: "\<not> is_connection_lost (d_server_error S) (c_errno S c)" for c using assms(2) by (simp add: connected_def)
  have size: "f_array_size st3 = f_array_size st" "f_current_row st3 = f_current_row st" "n mod 2 ^ 32 = n" "f_rows_found st3 = n"
    using s(1,4) assms(3,6) by (simp_all add: settings_def position_def plain_def)
  let ?st4 = "st3\<lparr>f_client := snd (c_row_seek S save (f_client st3)), f_end_of_set := fst (c_row_seek S save (f_client st3))\<rparr>"
  have "end_of_fetch S upd n res save st =
      (if f_rows_found ?st4 < f_array_size ?st4 then
         if f_rows_found ?st4 = 0 then Some (Inr (SQL_NO_DATA_FOUND, ?st4)) else Some (Inr (res, ?st4))
       else Some (Inr (res, ?st4)))"
    unfolding end_of_fetch_def Let_def no_connection_lost [OF assms(2)] prod.case
    using p assms(4) by (simp add: st3_def [symmetric] plain_def split_beta)
  moreover have "n = 0 \<Longrightarrow> f_rows_found ?st4 < f_array_size ?st4" using p size by (simp add: plain_def)
  ultimately have "end_of_fetch S upd n res save st = Some (Inr (if n = 0 then SQL_NO_DATA_FOUND else res, ?st4))"
    using size by auto
  moreover have "place rows (c_row_tell S (f_client st)) = p" "fst (seen (f_client ?st4)) = rows"
    using stored_resultD(3) [OF assms(1), of "f_client st"] stored_resultD(5) [OF assms(1), of save "f_client st"] assms(5) s(2)
    by simp_all
  moreover have "settings ?st4 = settings st" using s(1) by (simp add: settings_def)
  ultimately show ?thesis
    using s(2,3) size(2,4) by (intro exI [of _ ?st4]) (simp add: stored_resultD(4) [OF assms(1)])
qed

text \<open>The invariant between fetches.\<close>

definition open_result where
  "open_result S seen place rows st \<longleftrightarrow>
     plain st \<and> fst (seen (f_client st)) = rows \<and> kept_offset place rows st"

lemma take_drop_nth: "k < length (take n (drop p xs)) \<Longrightarrow> take n (drop p xs) ! k = xs ! (p + k)"
  by (auto simp: nth_drop)

lemma fetch_rowset_stored:
  assumes "stored_result S seen place" "connected S" "convertible S" "open_result S seen place rows st"
    "cursor_fetch rows (f_array_size st) ty irow (f_current_row st, f_rows_found st) = Some (rowset, cur, n)"
  shows "\<exists>rc st1. caught (fetch_rowset S ty irow upd st) = Some (rc, st1) \<and>
    (if rowset = [] then rc = SQL_NO_DATA_FOUND else SQL_SUCCEEDED rc) \<and> open_result S seen place rows st1 \<and>
    settings st1 = settings st \<and> (f_current_row st1, f_rows_found st1) = (cur, n) \<and>
    (\<forall>k < length rowset. f_rowset st1 k = Some (rowset ! k))"
proof -
  obtain p where v: "seen (f_client st) = (rows, p)" using assms(4) by (metis open_result_def prod.collapse)
  have pl: "plain st" and ko: "kept_offset place rows st" using assms(4) by (simp_all add: open_result_def)
  define s where "s = st\<lparr>f_current_values := None\<rparr>"
  have s: "plain s" "seen (f_client s) = (rows, p)" "kept_offset place rows s" "settings s = settings st"
    "f_array_size s = f_array_size st" "f_current_row s = f_current_row st" "f_rows_found s = f_rows_found st"
    using pl ko v by (simp_all add: s_def plain_def kept_offset_def settings_def if_forward_cache_def)
  have nr: "num_rows S st = length rows" by (rule num_rows_plain [OF assms(1) pl v])
  note c = compute_stored [OF assms(1) s(1-3), of ty irow rowset cur n, unfolded s(5-7), OF assms(5)]
  show ?thesis
  proof (cases "cur < 0")
    case True
    then obtain c1 q where c1: "compute_cur_row S ty irow s =
          Some (Inl (SQL_NO_DATA_FOUND, s\<lparr>f_current_row := - 1, f_rows_found := 0, f_client := c1\<rparr>))" "seen c1 = (rows, q)"
        "rowset = []" "cur = - 1" "n = 0"
      using c unfolding if_P [OF True] by blast
    let ?t = "s\<lparr>f_current_row := - 1, f_rows_found := 0, f_client := c1\<rparr>"
    have "caught (fetch_rowset S ty irow upd st) = Some (SQL_NO_DATA_FOUND, ?t)"
      unfolding fetch_rowset_def Let_def s_def [symmetric] c1(1) by (simp add: caught_def)
    moreover have "open_result S seen place rows ?t" "settings ?t = settings st"
      using s(1,4) c1(2) plain_settings [of ?t s] by (simp_all add: open_result_def kept_offset_def settings_def)
    ultimately show ?thesis using c1(3-5) by (intro exI [of _ SQL_NO_DATA_FOUND] exI [of _ ?t]) simp
  next
    case False
    then obtain c1 q where c1: "compute_cur_row S ty irow s = Some (Inr (cur, s\<lparr>f_client := c1, f_current_row := cur\<rparr>))"
        "seen c1 = (rows, q)" "cur < int (length rows) \<longrightarrow> q = nat cur"
      and r: "cur \<le> int (length rows)" "rowset = take (f_array_size st) (drop (nat cur) rows)" "n = length rowset"
      using c unfolding if_not_P [OF False] by blast
    define t where "t = s\<lparr>f_client := c1, f_current_row := cur\<rparr>"
    have t: "settings t = settings st" "f_rowset t = f_rowset s" "f_current_row t = cur" "seen (f_client t) = (rows, q)"
      using s(4) c1(2) by (simp_all add: t_def settings_def)
    have pt: "plain t" using pl plain_settings [OF t(1)] by simp
    have sz: "f_array_size t = f_array_size st" "0 < f_array_size st" "f_array_size st < 2 ^ 32"
      using t(1) pl by (simp_all add: settings_def plain_def)
    define w where "w = rows_to_fetch S ty (int (length rows)) cur t"
    have "w = nat (min (int (length rows) - cur) (int (f_array_size t)) mod 2 ^ 64)"
      using pt by (simp add: w_def rows_to_fetch_def plain_def)
    also have "min (int (length rows) - cur) (int (f_array_size t)) mod 2 ^ 64 = min (int (length rows) - cur) (int (f_array_size t))"
      using sz r(1) by (intro mod_pos_pos_trivial) auto
    finally have w: "w = n" using False r sz(1) by (simp add: min_def, arith)
    have run: "caught (fetch_rowset S ty irow upd st) = caught (if w = 0 \<and> f_out_params t = OPS_UNKNOWN then
          Some (Inr (SQL_NO_DATA_FOUND, t\<lparr>f_pcrow := 0, f_rows_found := 0,
            f_rows_processed := (if upd then map_option (\<lambda>_. 0) (f_rows_processed t) else f_rows_processed t)\<rparr>))
        else
          bind_step (fetch_cycle S ty irow upd (if w = 0 then 1 else w) 0 cur SQL_SUCCESS SQL_SUCCESS (f_end_of_set t) t)
            (\<lambda>(n, res, save) st2. end_of_fetch S upd n res save st2))"
      unfolding fetch_rowset_def Let_def s_def [symmetric] c1(1) nr by (simp add: t_def [symmetric] w_def)
    show ?thesis
    proof (cases "n = 0")
      case True
      let ?t = "t\<lparr>f_pcrow := 0, f_rows_found := 0,
          f_rows_processed := (if upd then map_option (\<lambda>_. 0) (f_rows_processed t) else f_rows_processed t)\<rparr>"
      have "caught (fetch_rowset S ty irow upd st) = Some (SQL_NO_DATA_FOUND, ?t)"
        using run True w pt by (simp add: plain_def caught_def)
      moreover have set: "settings ?t = settings st" using t(1) by (simp add: settings_def)
      moreover have "cur = int (length rows)" using True r sz(2) False by auto
      moreover have "open_result S seen place rows ?t"
        using calculation(3) t(3,4) pl plain_settings [OF set] by (simp add: open_result_def kept_offset_def)
      ultimately show ?thesis using True r(3) t(3) by (intro exI [of _ SQL_NO_DATA_FOUND] exI [of _ ?t]) simp
    next
      case False
      then have q: "q = nat cur" "nat cur + n \<le> length rows" "n = min n (length rows - q)" "n \<le> f_array_size t"
        using r c1(3) sz(1) \<open>\<not> cur < 0\<close> by auto
      obtain res save t2 where cyc: "fetch_cycle S ty irow upd n 0 cur SQL_SUCCESS SQL_SUCCESS (f_end_of_set t) t = Some (Inr ((0 + n, res, save), t2))"
        "SQL_SUCCEEDED res" "seen (f_client t2) = (rows, q + n)" "settings t2 = settings t" "position t2 = position t"
        "f_rowset t2 = (\<lambda>k. if 0 \<le> k \<and> k < 0 + n then Some (rows ! (q + (k - 0))) else f_rowset t k)"
        using fetch_cycle_stored [OF assms(1-3) pt t(4) succeeded_simps(1) q(3)] by blast
      have p2: "plain t2" using pt plain_settings [OF cyc(4)] by simp
      have n2: "n \<le> f_array_size t2" using q(4) cyc(4) by (simp add: settings_def)
      obtain t3 where e: "end_of_fetch S upd n res save t2 = Some (Inr (if n = 0 then SQL_NO_DATA_FOUND else res, t3))"
        "fst (seen (f_client t3)) = rows" "settings t3 = settings t2" "f_current_row t3 = f_current_row t2"
        "f_rows_found t3 = n" "f_rowset t3 = f_rowset t2" "place rows (f_end_of_set t3) = q + n"
        using end_of_fetch_stored [OF assms(1,2) p2 cyc(2,3) n2] by blast
      have cr: "f_current_row t3 = cur" using e(4) cyc(5) t(3) by (simp add: position_def)
      have "caught (fetch_rowset S ty irow upd st) = Some (res, t3)"
        using run False w cyc(1) e(1) by (simp add: caught_def)
      moreover have "open_result S seen place rows t3"
        using e(2,5,7) cr q(1) \<open>\<not> cur < 0\<close> p2 plain_settings [OF e(3)] by (simp add: open_result_def kept_offset_def)
      moreover have "f_rowset t3 k = Some (rowset ! k)" if "k < length rowset" for k
        unfolding e(6) cyc(6) using that r(2,3) q(1) take_drop_nth [of k "f_array_size st" "nat cur" rows] by simp
      moreover have "settings t3 = settings st" using e(3) cyc(4) t(1) by simp
      ultimately show ?thesis using False r(3) cyc(2) cr e(5) by (intro exI [of _ res] exI [of _ t3]) auto
    qed
  qed
qed

section \<open>A client library\<close>

text \<open>A library that keeps the rows in a list; an offset is a position, the null offset \<open>None\<close>.\<close>

definition mem_services :: "(int \<Rightarrow> nat \<Rightarrow> nat \<Rightarrow> int) \<Rightarrow> (int list \<times> nat, nat option, int) services" where
  "mem_services conversion =
     \<lparr>c_num_rows = \<lambda>c. length (fst c), c_data_seek = \<lambda>n c. (fst c, min n (length (fst c))), c_row_tell = \<lambda>c. Some (snd c),
      c_row_seek = \<lambda>x c. (Some (snd c), fst c, case x of None \<Rightarrow> length (fst c) | Some p \<Rightarrow> p),
      c_fetch_row = \<lambda>c. if snd c < length (fst c) then (Row (fst c ! snd c), fst c, Suc (snd c)) else (No_row, c),
      c_fetch_out = \<lambda>c. c, c_out_row = \<lambda>c. 0, c_errno = \<lambda>c. 0, c_error = \<lambda>c. '''', c_query = \<lambda>q c. (False, c),
      c_reexecute = \<lambda>c. (False, c), d_get_data = conversion, d_get_bookmark = \<lambda>b k. SQL_SUCCESS, d_fix_fields = None,
      d_driver = ''driver'', d_prefix = ''prefix'', d_errors = myodbc3_errors, d_server_error = mysql_er\<rparr>"

definition mem_place :: "int list \<Rightarrow> nat option \<Rightarrow> nat" where
  "mem_place rows x = (case x of None \<Rightarrow> length rows | Some p \<Rightarrow> p)"

definition mem_statement :: "int \<Rightarrow> nat \<Rightarrow> int list \<Rightarrow> (int list \<times> nat, nat option, int) fetch_state" where
  "mem_statement cursor sz rows =
     \<lparr>f_client = (rows, 0), f_result = True, f_result_array = None, f_out_params = OPS_UNKNOWN, f_cursor_type = cursor,
      f_safe = False, f_no_cache = False, f_current_row = 0, f_rows_found = 0, f_end_of_set = None, f_array_size = sz,
      f_columns = 1, f_bound = \<lambda>_. True, f_bookmark_bound = False, f_bookmarks = 0, f_bookmark_insert = False,
      f_scroller = new_scroller, f_current_values = None, f_rowset = Map.empty, f_row_status = None,
      f_array_status = None, f_pcrow = 0, f_rows_processed = None, f_error = \<lparr>retcode = 0, current = 0, message = '''', native_error = 0, sqlstate = ''''\<rparr>\<rparr>"

lemma mem_stored: "stored_result (mem_services conversion) id mem_place"
  by (auto simp: stored_result_def mem_services_def mem_place_def fix_fields_def split: prod.splits)

lemma mem_connected: "connected (mem_services conversion)"
  by (simp add: connected_def mem_services_def is_connection_lost_def client_errors)

lemma mem_open:
  "cursor \<noteq> SQL_CURSOR_DYNAMIC \<Longrightarrow> 0 < sz \<Longrightarrow> sz < 2 ^ 32 \<Longrightarrow>
    open_result (mem_services conversion) id mem_place rows (mem_statement cursor sz rows)"
  by (simp add: open_result_def plain_def kept_offset_def mem_statement_def if_forward_cache_def scroller_exists_def new_scroller_def)

lemma mem_statement_simps [simp]:
  "f_cursor_type (mem_statement cursor sz rows) = cursor" "f_array_size (mem_statement cursor sz rows) = sz"
  "f_current_row (mem_statement cursor sz rows) = 0" "f_rows_found (mem_statement cursor sz rows) = 0"
  "f_end_of_set (mem_statement cursor sz rows) = None" "f_safe (mem_statement cursor sz rows) = False"
  by (simp_all add: mem_statement_def)

section \<open>The rowsets an application sees\<close>

definition allowed_type :: "nat \<Rightarrow> ('c, 'o, 'r) fetch_state \<Rightarrow> bool" where
  "allowed_type ty st \<longleftrightarrow> ty = SQL_FETCH_NEXT \<or> f_cursor_type st \<noteq> SQL_CURSOR_FORWARD_ONLY \<or> f_safe st"

lemma fetch_of_plain:
  assumes "plain st" "allowed_type ty st"
  shows "my_SQLExtendedFetch S ty irow upd st = caught (fetch_rowset S ty irow upd st)"
proof -
  have "out_params_fetched S st = (False, st)" "\<not> is_dynamic_cursor st" "f_result st"
    using assms(1) by (simp_all add: out_params_fetched_def is_dynamic_cursor_def plain_def)
  then show ?thesis using assms(2) by (auto simp: my_SQLExtendedFetch_def allowed_type_def)
qed

text \<open>C11: fetching from a result in memory is fetching from a cursor over the list of the rows, whose moves are cuts of
  that list, written down without the code's row numbers: \<open>SQL_FETCH_NEXT\<close> shows the rows ahead of the rowset,
  \<open>SQL_FETCH_PRIOR\<close> those just before it (none when fewer than a rowset are there), \<open>SQL_FETCH_FIRST\<close> and
  \<open>SQL_FETCH_LAST\<close> the ends, \<open>SQL_FETCH_ABSOLUTE\<close> and \<open>SQL_FETCH_RELATIVE\<close> count rows from an end or from the rowset.
  \<open>my_SQLExtendedFetch\<close> returns, puts the rowset of the moved cursor into the buffers in order, leaves the statement at the
  numbers of that cursor, and returns \<open>SQL_NO_DATA_FOUND\<close> exactly when the rowset is empty; the offset that it keeps is the
  one behind the rowset. It holds under these hypotheses: the client library holds the result (\<open>stored_result\<close>) and has no
  lost connection, every conversion succeeds, perhaps truncating, the type of fetch is allowed for the cursor, and the
  statement has an open result that is no dynamic cursor, no forward-only cursor without a cache, no array of the driver's,
  no output parameters, no scroller and no rows added through bookmarks, a rowset size that is not 0 and below 2^32, and a kept offset
  that is the one behind the rowset (unless that is at an end of the result), which every fetch under these hypotheses restores.\<close>

theorem fetch_refines_cursor:
  assumes "stored_result S seen place" "connected S" "convertible S" "open_result S seen place rows st" "allowed_type ty st"
    "cursor_of rows cur st" "cursor_move (f_array_size st) ty irow rows cur = Some cur1"
  shows "\<exists>rc st1. my_SQLExtendedFetch S ty irow upd st = Some (rc, st1) \<and>
    (if rowset_of cur1 = [] then rc = SQL_NO_DATA_FOUND else SQL_SUCCEEDED rc) \<and> open_result S seen place rows st1 \<and>
    settings st1 = settings st \<and> cursor_of rows cur1 st1 \<and>
    (\<forall>k < length (rowset_of cur1). f_rowset st1 k = Some (rowset_of cur1 ! k))"
proof -
  have sz: "0 < f_array_size st" using assms(4) by (simp add: open_result_def plain_def)
  have cur: "cursor_over rows cur" "(f_current_row st, f_rows_found st) = cursor_numbers cur"
    using assms(6) by (simp_all add: cursor_of_def)
  have "cursor_fetch rows (f_array_size st) ty irow (f_current_row st, f_rows_found st) =
      Some (rowset_of cur1, fst (cursor_numbers cur1), snd (cursor_numbers cur1))"
    unfolding cur(2) cursor_move_fetch [OF cur(1) sz] assms(7) by (simp add: at_cursor_def)
  from fetch_rowset_stored [OF assms(1-4) this] cursor_over_move [OF cur(1) assms(7)]
    fetch_of_plain [of st ty S irow upd] assms(4,5)
  show ?thesis by (simp add: open_result_def cursor_of_def)
qed

theorem fetch_refines_cursor_witness:
  "\<exists>rc st1. my_SQLExtendedFetch (mem_services (\<lambda>_ _ _. SQL_SUCCESS)) SQL_FETCH_PRIOR 0 True
      (mem_statement 3 2 [10, 20, 30, 40] \<lparr>f_current_row := 3, f_rows_found := 1, f_end_of_set := Some 4\<rparr>) = Some (rc, st1) \<and>
     SQL_SUCCEEDED rc \<and> f_rowset st1 0 = Some 20 \<and> f_rowset st1 1 = Some 30 \<and> f_current_row st1 = 1"
proof -
  let ?S = "mem_services (\<lambda>_ _ _. SQL_SUCCESS)"
  let ?st = "mem_statement 3 2 [10, 20, 30, 40] \<lparr>f_current_row := 3, f_rows_found := 1, f_end_of_set := Some 4\<rparr>"
  have conv: "convertible ?S" by (simp add: convertible_def mem_services_def)
  have ty: "allowed_type SQL_FETCH_PRIOR ?st" by (simp add: allowed_type_def SQL_CURSOR_FORWARD_ONLY_def)
  have op: "open_result ?S id mem_place [10, 20, 30, 40] ?st"
    using mem_open [of 3 2 "\<lambda>_ _ _. SQL_SUCCESS" "[10, 20, 30, 40]"]
    by (simp add: open_result_def kept_offset_def plain_def if_forward_cache_def SQL_CURSOR_DYNAMIC_def)
  have cur: "cursor_of [10, 20, 30, 40 :: int] (Showing [10, 20, 30] [40] []) ?st"
    by (simp add: cursor_of_def)
  have mv: "cursor_move (f_array_size ?st) SQL_FETCH_PRIOR 0 [10, 20, 30, 40 :: int] (Showing [10, 20, 30] [40] []) =
      Some (Showing [10] [20, 30] [40])"
    by (simp add: cursor_move_def fetch_types but_last_def last_of_def)
  obtain rc st1 where r: "my_SQLExtendedFetch ?S SQL_FETCH_PRIOR 0 True ?st = Some (rc, st1)"
      "SQL_SUCCEEDED rc" "cursor_of [10, 20, 30, 40 :: int] (Showing [10] [20, 30] [40]) st1"
      "\<forall>k < 2. f_rowset st1 k = Some ([20, 30] ! k)"
    using fetch_refines_cursor [OF mem_stored mem_connected conv op ty cur mv, of True] by auto
  have "f_rowset st1 0 = Some 20" "f_rowset st1 1 = Some 30" using r(4) [rule_format, of 0] r(4) [rule_format, of 1] by simp_all
  then show ?thesis using r(1-3) by (auto simp: cursor_of_def)
qed

text \<open>What the fetches of an application change besides leaves the invariant alone.\<close>

lemma own_outputs_open [simp]:
  "open_result S seen place rows (own_outputs st) = open_result S seen place rows st" "settings (own_outputs st) = settings st"
  "f_current_row (own_outputs st) = f_current_row st" "f_rows_found (own_outputs st) = f_rows_found st"
  "allowed_type ty (own_outputs st) = allowed_type ty st" "f_array_size (own_outputs st) = f_array_size st"
  "f_end_of_set (own_outputs st) = f_end_of_set st"
  by (simp_all add: own_outputs_def open_result_def plain_def kept_offset_def settings_def if_forward_cache_def allowed_type_def)

lemma own_results_open [simp]:
  "open_result S seen place rows (own_results st) = open_result S seen place rows st" "settings (own_results st) = settings st"
  "f_current_row (own_results st) = f_current_row st" "f_rows_found (own_results st) = f_rows_found st"
  "f_rowset (own_results st) = f_rowset st"
  by (simp_all add: own_results_def open_result_def plain_def kept_offset_def settings_def if_forward_cache_def)

text \<open>An application that calls \<open>SQLFetch\<close> until there is no data, at most \<open>k\<close> times: the rowsets it finds in its buffers.\<close>

fun fetch_all :: "('c, 'o, 'r) services \<Rightarrow> nat \<Rightarrow> ('c, 'o, 'r) fetch_state \<Rightarrow> ('r option list list \<times> bool) option" where
  "fetch_all S 0 st = Some ([], False)"
| "fetch_all S (Suc k) st =
     Option.bind (SQLFetch S st) (\<lambda>(rc, st1).
       if rc = SQL_NO_DATA_FOUND then Some ([], True)
       else map_option (map_prod ((#) (map (f_rowset st1) [0 ..< f_rows_found st1])) id) (fetch_all S k st1))"

lemma SQLFetch_stored:
  assumes "stored_result S seen place" "connected S" "convertible S" "open_result S seen place rows st"
    "0 \<le> f_current_row st" "nat (f_current_row st) + f_rows_found st = p" "p \<le> length rows"
  shows "\<exists>rc st1. SQLFetch S st = Some (rc, st1) \<and> (rc = SQL_NO_DATA_FOUND \<longleftrightarrow> p = length rows) \<and>
    open_result S seen place rows st1 \<and> settings st1 = settings st \<and> f_current_row st1 = int p \<and>
    f_rows_found st1 = min (length rows - p) (f_array_size st) \<and>
    map (f_rowset st1) [0 ..< f_rows_found st1] = map Some (take (f_array_size st) (drop p rows))"
proof -
  let ?rs = "take (f_array_size st) (drop p rows)"
  have sz: "0 < f_array_size st" using assms(4) by (simp add: open_result_def plain_def)
  have p: "f_current_row st + int (f_rows_found st) = int p" using assms(5,6) by simp
  have "cursor_fetch rows (f_array_size st) SQL_FETCH_NEXT 0 (f_current_row st, f_rows_found st) = Some (?rs, int p, length ?rs)"
    using assms(5,7) by (simp add: cursor_fetch_def target_row_def p min_def)
  then have "cursor_fetch rows (f_array_size (own_outputs st)) SQL_FETCH_NEXT 0 (f_current_row (own_outputs st), f_rows_found (own_outputs st)) =
      Some (?rs, int p, length ?rs)" by simp
  moreover have "open_result S seen place rows (own_outputs st)" "allowed_type SQL_FETCH_NEXT (own_outputs st)"
    using assms(4) by (simp_all add: allowed_type_def)
  ultimately obtain rc st1 where r: "my_SQLExtendedFetch S SQL_FETCH_NEXT 0 False (own_outputs st) = Some (rc, st1)"
      "if ?rs = [] then rc = SQL_NO_DATA_FOUND else SQL_SUCCEEDED rc" "open_result S seen place rows st1"
      "settings st1 = settings (own_outputs st)" "(f_current_row st1, f_rows_found st1) = (int p, length ?rs)"
      "\<forall>k < length ?rs. f_rowset st1 k = Some (?rs ! k)"
    using fetch_rowset_stored [OF assms(1-3), of rows "own_outputs st" SQL_FETCH_NEXT 0 ?rs "int p" "length ?rs" False]
      fetch_of_plain [of "own_outputs st" SQL_FETCH_NEXT S 0 False]
    unfolding open_result_def by metis
  have "SQL_SUCCEEDED rc \<Longrightarrow> rc \<noteq> SQL_NO_DATA_FOUND" by (auto simp: SQL_SUCCEEDED_def retcodes)
  moreover have "?rs = [] \<longleftrightarrow> p = length rows" using sz assms(7) by auto
  ultimately have "rc = SQL_NO_DATA_FOUND \<longleftrightarrow> p = length rows" using r(2) by metis
  moreover have "map (f_rowset st1) [0 ..< length ?rs] = map Some ?rs"
    by (rule nth_equalityI) (use r(6) in simp_all)
  ultimately show ?thesis
    using r(3-5) by (intro exI [of _ rc] exI [of _ "own_results st1"]) (simp add: SQLFetch_def r(1))
qed

lemma fetch_all_stored:
  assumes "stored_result S seen place" "connected S" "convertible S"
  shows "open_result S seen place rows st \<Longrightarrow> 0 \<le> f_current_row st \<Longrightarrow> nat (f_current_row st) + f_rows_found st = p \<Longrightarrow>
    p \<le> length rows \<Longrightarrow> length rows - p < k \<Longrightarrow>
    \<exists>rowsets. fetch_all S k st = Some (rowsets, True) \<and> concat rowsets = map Some (drop p rows) \<and>
      (\<forall>r \<in> set rowsets. r \<noteq> [] \<and> length r \<le> f_array_size st)"
proof (induction k arbitrary: st p)
  case (Suc k)
  let ?n = "min (length rows - p) (f_array_size st)"
  obtain rc st1 where r: "SQLFetch S st = Some (rc, st1)" "rc = SQL_NO_DATA_FOUND \<longleftrightarrow> p = length rows"
      "open_result S seen place rows st1" "settings st1 = settings st" "f_current_row st1 = int p" "f_rows_found st1 = ?n"
      "map (f_rowset st1) [0 ..< f_rows_found st1] = map Some (take (f_array_size st) (drop p rows))"
    using SQLFetch_stored [OF assms Suc.prems(1-4)] by blast
  show ?case
  proof (cases "p = length rows")
    case True
    then show ?thesis using r(1,2) by simp
  next
    case False
    have sz: "0 < f_array_size st" "f_array_size st1 = f_array_size st"
      using Suc.prems(1) r(4) by (simp_all add: open_result_def plain_def settings_def)
    obtain rowsets where IH: "fetch_all S k st1 = Some (rowsets, True)" "concat rowsets = map Some (drop (p + ?n) rows)"
        "\<forall>r \<in> set rowsets. r \<noteq> [] \<and> length r \<le> f_array_size st1"
      using Suc.IH [OF r(3), of "p + ?n"] r(5,6) Suc.prems(4,5) False sz(1) by fastforce
    let ?rs = "map Some (take (f_array_size st) (drop p rows))"
    have "take (f_array_size st) (drop p rows) @ drop (p + ?n) rows = drop p rows"
      by (cases "length rows - p \<le> f_array_size st") (simp_all add: add.commute [of p] flip: drop_drop)
    then have "?rs @ concat rowsets = map Some (drop p rows)" unfolding IH(2) by (simp flip: map_append)
    moreover have "fetch_all S (Suc k) st = Some (?rs # rowsets, True)"
      using False r(1,2) IH(1) unfolding r(7) [symmetric] by simp
    ultimately show ?thesis using IH(3) sz False Suc.prems(4) by auto
  qed
qed simp

text \<open>C12: an application that calls \<open>SQLFetch\<close> on a fresh result until there is no data finds every row in its buffers exactly
  once and in order, in rowsets of at most the array size, after at most one call more than there are rows. The hypotheses
  are those under which a fetch is a fetch of a cursor: a result that the client library holds, no lost connection, every
  conversion succeeding, perhaps truncating (\<open>failed_row_loses_place\<close> says what a failing one does), and a statement
  that is no dynamic cursor, no forward-only cursor without a cache, and has no array of the driver's, no output
  parameters, no scroller, no rows added through bookmarks, and a rowset size that is not 0 and below 2^32.\<close>

theorem every_row_fetched:
  assumes "stored_result S seen place" "connected S" "convertible S" "open_result S seen place rows st"
    "f_current_row st = 0" "f_rows_found st = 0" "length rows < k"
  shows "\<exists>rowsets. fetch_all S k st = Some (rowsets, True) \<and> concat rowsets = map Some rows \<and>
    (\<forall>r \<in> set rowsets. r \<noteq> [] \<and> length r \<le> f_array_size st)"
  using fetch_all_stored [OF assms(1-4), of 0 k] assms(5-7) by simp

theorem every_row_fetched_witness:
  "\<exists>rowsets. fetch_all (mem_services (\<lambda>_ _ _. SQL_SUCCESS_WITH_INFO)) 4 (mem_statement 0 2 [10, 20, 30]) = Some (rowsets, True) \<and>
     concat rowsets = [Some 10, Some 20, Some 30]"
proof -
  let ?S = "mem_services (\<lambda>_ _ _. SQL_SUCCESS_WITH_INFO)" and ?st = "mem_statement 0 2 [10, 20, 30]"
  have conv: "convertible ?S" by (simp add: convertible_def mem_services_def SQL_SUCCEEDED_def)
  have op: "open_result ?S id mem_place [10, 20, 30] ?st" by (rule mem_open) (simp_all add: SQL_CURSOR_DYNAMIC_def)
  show ?thesis using every_row_fetched [OF mem_stored mem_connected conv op, of 4] by auto
qed

section \<open>Rowsets that are not found\<close>

text \<open>\<open>SQL_FETCH_LAST\<close> on a result with fewer rows than the rowset, and \<open>SQL_FETCH_PRIOR\<close> from a row that is nearer
  to the start than the rowset is long, find no data, although there are rows; the statement is then before the
  start. (ODBC has both return the first rowset.)\<close>

theorem short_rowset_no_data:
  assumes "stored_result S seen place" "connected S" "convertible S" "open_result S seen place rows st" "allowed_type ty st"
    "ty = SQL_FETCH_LAST \<and> length rows < f_array_size st \<or>
     ty = SQL_FETCH_PRIOR \<and> 0 < f_current_row st \<and> f_current_row st < int (f_array_size st)"
  shows "\<exists>st1. my_SQLExtendedFetch S ty irow upd st = Some (SQL_NO_DATA_FOUND, st1) \<and> f_current_row st1 = - 1 \<and> f_rows_found st1 = 0"
proof -
  have cf: "cursor_fetch rows (f_array_size st) ty irow (f_current_row st, f_rows_found st) = Some ([], - 1, 0)"
    using assms(6)
  proof (elim disjE conjE)
    assume "ty = SQL_FETCH_LAST" "length rows < f_array_size st"
    then show ?thesis by (simp add: cursor_fetch_def target_row_def fetch_types)
  next
    assume "ty = SQL_FETCH_PRIOR" "0 < f_current_row st" "f_current_row st < int (f_array_size st)"
    then show ?thesis by (simp add: cursor_fetch_def target_row_def fetch_types)
  qed
  have "my_SQLExtendedFetch S ty irow upd st = caught (fetch_rowset S ty irow upd st)"
    using assms(4,5) by (intro fetch_of_plain) (simp_all add: open_result_def)
  moreover obtain rc st1 where "caught (fetch_rowset S ty irow upd st) = Some (rc, st1)" "rc = SQL_NO_DATA_FOUND"
      "(f_current_row st1, f_rows_found st1) = (- 1, 0)"
    using fetch_rowset_stored [OF assms(1-4) cf, of upd] unfolding if_P [OF refl [of "[]"]] by blast
  ultimately show ?thesis by (intro exI [of _ st1]) simp
qed

theorem short_rowset_no_data_witness:
  "\<exists>st1. my_SQLExtendedFetch (mem_services (\<lambda>_ _ _. SQL_SUCCESS)) SQL_FETCH_LAST 0 True (mem_statement 3 5 [10, 20, 30]) =
     Some (SQL_NO_DATA_FOUND, st1)"
proof -
  let ?S = "mem_services (\<lambda>_ _ _. SQL_SUCCESS)" and ?st = "mem_statement 3 5 [10, 20, 30]"
  have conv: "convertible ?S" by (simp add: convertible_def mem_services_def)
  have ty: "allowed_type SQL_FETCH_LAST ?st" by (simp add: allowed_type_def SQL_CURSOR_FORWARD_ONLY_def)
  have op: "open_result ?S id mem_place [10, 20, 30] ?st" by (rule mem_open) (simp_all add: SQL_CURSOR_DYNAMIC_def)
  show ?thesis using short_rowset_no_data [OF mem_stored mem_connected conv op ty, of 0 True] by auto
qed

section \<open>A row that cannot be converted\<close>

lemma cycle_of_one:
  assumes "stored_result S seen place" "plain st" "connected S" "seen (f_client st) = (rows, p)" "p < length rows"
    "ty \<noteq> SQL_FETCH_BOOKMARK"
  shows "\<exists>st1. fetch_cycle S ty irow upd 1 0 cur SQL_SUCCESS SQL_SUCCESS save st =
      Some (Inr ((1, add_row 0 (fill_fetch_buffers S st (rows ! p) 0) SQL_SUCCESS SQL_SUCCESS, c_row_tell S (f_client st)), st1)) \<and>
    seen (f_client st1) = (rows, Suc p) \<and> settings st1 = settings st \<and> position st1 = position st \<and>
    f_rowset st1 0 = Some (rows ! p)"
proof -
  obtain c where nv: "next_values S 0 cur save st =
      Some (Inr ((Some (rows ! p), c_row_tell S (f_client st)), st\<lparr>f_client := c, f_current_values := Some (rows ! p)\<rparr>))"
    and c: "seen c = (rows, Suc p)"
    using next_values_stored [OF assms(1-4), of 0 cur save] assms(5) by auto
  let ?a = "st\<lparr>f_client := c, f_current_values := Some (rows ! p)\<rparr>"
  let ?r = "fill_fetch_buffers S st (rows ! p) 0"
  let ?st1 = "put_status upd 0 (sqlreturn2row_status ?r) (?a\<lparr>f_rowset := (f_rowset ?a)(0 \<mapsto> rows ! p)\<rparr>)"
  have fill: "fill_fetch_buffers S ?a (rows ! p) 0 = ?r" by (simp add: fill_fetch_buffers_def)
  have "fetch_cycle S ty irow upd 1 0 cur SQL_SUCCESS SQL_SUCCESS save st =
      Some (Inr ((1, add_row 0 ?r SQL_SUCCESS SQL_SUCCESS, c_row_tell S (f_client st)), ?st1))"
    unfolding One_nat_def fetch_cycle.simps nv bind_step_simps prod.case option.case Let_def by (simp add: fill assms(6))
  then show ?thesis
    by (intro exI [of _ ?st1]) (simp add: c settings_def position_def put_status_def)
qed

lemma end_of_fetch_error:
  assumes "connected S" "n < 2 ^ 32"
  shows "\<exists>st1. end_of_fetch S upd n SQL_ERROR save st = Some (Inr (SQL_ERROR, st1)) \<and> f_client st1 = f_client st \<and>
    settings st1 = settings st \<and> position st1 = (f_current_row st, n, f_end_of_set st) \<and> f_rowset st1 = f_rowset st"
proof -
  let ?a = "st\<lparr>f_rows_found := n mod 2 ^ 32, f_pcrow := n\<rparr>"
  let ?b = "if upd then ?a\<lparr>f_rows_processed := map_option (\<lambda>_. n) (f_rows_processed ?a)\<rparr> else ?a"
  let ?c = "fold (\<lambda>i. put_status upd i SQL_ROW_NOROW) [n ..< f_array_size ?b] ?b"
  have "end_of_fetch S upd n SQL_ERROR save st = Some (Inr (SQL_ERROR, ?c))"
    unfolding end_of_fetch_def Let_def no_connection_lost [OF assms(1)] prod.case by simp
  moreover have "settings ?b = settings st" "position ?b = (f_current_row st, n, f_end_of_set st)"
    using assms(2) by (simp_all add: settings_def position_def)
  ultimately show ?thesis by (intro exI [of _ ?c]) simp
qed

lemma add_row_first: "add_row 0 r SQL_SUCCESS SQL_SUCCESS = (if SQL_SUCCEEDED r then if r = SQL_SUCCESS then SQL_SUCCESS else SQL_SUCCESS_WITH_INFO else SQL_ERROR)"
  by (simp add: add_row_def SQL_SUCCEEDED_def)

lemmas cycle_steps = fetch_cycle.simps

declare fetch_cycle.simps [simp del]

lemma rowset_of_one:
  assumes "stored_result S seen place" "plain st" "seen (f_client st) = (rows, p)"
    "compute_cur_row S ty irow (st\<lparr>f_current_values := None\<rparr>) = Some (Inr (cur, t))"
    "settings t = settings st" "0 \<le> cur" "cur < int (length rows)" "f_array_size st = 1"
  shows "fetch_rowset S ty irow upd st =
    bind_step (fetch_cycle S ty irow upd 1 0 cur SQL_SUCCESS SQL_SUCCESS (f_end_of_set t) t)
      (\<lambda>(n, res, save) st2. end_of_fetch S upd n res save st2)"
proof -
  have t: "plain t" "f_array_size t = 1" using assms(2,5,8) plain_settings [OF assms(5)] by (simp_all add: settings_def)
  have "rows_to_fetch S ty (int (length rows)) cur t = nat (min (int (length rows) - cur) 1 mod 2 ^ 64)"
    using t by (simp add: rows_to_fetch_def plain_def)
  also have "min (int (length rows) - cur) 1 = 1" using assms(7) by simp
  finally have "rows_to_fetch S ty (int (length rows)) cur t = 1" by simp
  then show ?thesis
    unfolding fetch_rowset_def Let_def assms(4) num_rows_plain [OF assms(1-3)] bind_step_simps by simp
qed

text \<open>\<open>SQLFetch\<close> after a rowset of one row reads at the offset that was kept.\<close>

lemma fetch_at_kept_offset:
  assumes "stored_result S seen place" "connected S" "plain st" "f_array_size st = 1" "seen (f_client st) = (rows, Suc n)"
    "f_current_row st = int n" "f_rows_found st = 1" "place rows (f_end_of_set st) = q" "Suc n < length rows"
  shows "\<exists>rc st2. SQLFetch S st = Some (rc, st2) \<and>
    (if q < length rows then f_rowset st2 0 = Some (rows ! q) else rc = SQL_NO_DATA_FOUND)"
proof -
  define u where "u = own_outputs st"
  have u: "plain u" "f_array_size u = 1" "seen (f_client u) = (rows, Suc n)" "f_current_row u = int n" "f_rows_found u = 1"
    "f_end_of_set u = f_end_of_set st"
    using assms(3-7) by (simp_all add: u_def own_outputs_def plain_def if_forward_cache_def)
  define w where "w = u\<lparr>f_current_values := None, f_client := snd (c_row_seek S (f_end_of_set u) (f_client u)), f_current_row := int (Suc n)\<rparr>"
  have w: "settings w = settings u" "seen (f_client w) = (rows, q)"
    using stored_resultD(5) [OF assms(1), of "f_end_of_set u" "f_client u"] u(3,6) assms(8) by (simp_all add: w_def settings_def)
  have pw: "plain w" "f_array_size w = 1" using u(1,2) w(1) plain_settings [of w u] by (simp_all add: settings_def)
  have pn: "plain (u\<lparr>f_current_values := None\<rparr>)" using u(1) by (simp add: plain_def if_forward_cache_def)
  have "num_rows S (u\<lparr>f_current_values := None\<rparr>) = length rows" using num_rows_plain [OF assms(1) pn] u(3) by simp
  then have cu: "compute_cur_row S SQL_FETCH_NEXT 0 (u\<lparr>f_current_values := None\<rparr>) = Some (Inr (int (Suc n), w))"
    using pn u(4,5) assms(9) by (simp add: compute_cur_row_def target_row_def seek_row_def plain_def w_def add.commute)
  have ru: "fetch_rowset S SQL_FETCH_NEXT 0 False u =
      bind_step (fetch_cycle S SQL_FETCH_NEXT 0 False 1 0 (int (Suc n)) SQL_SUCCESS SQL_SUCCESS (f_end_of_set w) w)
        (\<lambda>(n, res, save) st2. end_of_fetch S False n res save st2)"
    using assms(9) by (intro rowset_of_one [OF assms(1) u(1,3) cu w(1)]) (simp_all add: u(2))
  have second: "SQLFetch S st = map_option (map_prod id own_results) (caught (fetch_rowset S SQL_FETCH_NEXT 0 False u))"
    using fetch_of_plain [OF u(1), of SQL_FETCH_NEXT S 0 False] by (simp add: SQLFetch_def u_def allowed_type_def)
  have next_type: "SQL_FETCH_NEXT \<noteq> SQL_FETCH_BOOKMARK" by (simp add: fetch_types)
  show ?thesis
  proof (cases "q < length rows")
    case True
    let ?r = "add_row 0 (fill_fetch_buffers S w (rows ! q) 0) SQL_SUCCESS SQL_SUCCESS"
    obtain w1 where w1: "fetch_cycle S SQL_FETCH_NEXT 0 False 1 0 (int (Suc n)) SQL_SUCCESS SQL_SUCCESS (f_end_of_set w) w =
          Some (Inr ((1, ?r, c_row_tell S (f_client w)), w1))" "seen (f_client w1) = (rows, Suc q)" "settings w1 = settings w"
        "f_rowset w1 0 = Some (rows ! q)"
      using cycle_of_one [OF assms(1) pw(1) assms(2) w(2) True next_type, of 0 False "int (Suc n)" "f_end_of_set w"] by blast
    have pw1: "plain w1" "f_array_size w1 = 1" using pw w1(3) plain_settings [of w1 w] by (simp_all add: settings_def)
    obtain rc w2 where "end_of_fetch S False 1 ?r (c_row_tell S (f_client w)) w1 = Some (Inr (rc, w2))" "f_rowset w2 = f_rowset w1"
    proof (cases "SQL_SUCCEEDED ?r")
      case True
      then show ?thesis
        using end_of_fetch_stored [OF assms(1,2) pw1(1) _ w1(2), of ?r 1 False "c_row_tell S (f_client w)"] pw1(2) that by auto
    next
      case False
      then have "?r = SQL_ERROR" by (auto simp: add_row_first split: if_splits)
      then show ?thesis using end_of_fetch_error [OF assms(2), of 1 False "c_row_tell S (f_client w)" w1] that by auto
    qed
    then have "SQLFetch S st = Some (rc, own_results w2)" "f_rowset (own_results w2) 0 = Some (rows ! q)"
      using second ru w1(1,4) by (simp_all add: caught_def)
    then show ?thesis using True by auto
  next
    case False
    obtain w1 where "fetch_cycle S SQL_FETCH_NEXT 0 False 1 0 (int (Suc n)) SQL_SUCCESS SQL_SUCCESS (f_end_of_set w) w =
          Some (Inr ((0, SQL_SUCCESS, c_row_tell S (f_client w)), w1))" "seen (f_client w1) = (rows, q)" "plain w1"
      using next_values_stored [OF assms(1) pw(1) assms(2) w(2), of 0 "int (Suc n)" "f_end_of_set w"] False pw(1)
      by (auto simp: cycle_steps plain_def if_forward_cache_def)
    then obtain w2 where "SQLFetch S st = Some (SQL_NO_DATA_FOUND, w2)"
      using second ru end_of_fetch_stored [OF assms(1,2) _ succeeded_simps(1), of w1 rows q 0 False "c_row_tell S (f_client w)"]
      by (auto simp: caught_def)
    then show ?thesis using False by auto
  qed
qed

text \<open>C13: with rowsets of one row, when a fetch comes to a row that cannot be converted, the place of the next row is
  lost: the fetch returns \<open>SQL_ERROR\<close> with the statement on that row, but without taking the offset behind it, so that the
  following \<open>SQLFetch\<close>, which should show the row after it, continues at the offset that an earlier fetch of the result
  left: it puts the row found there into the buffers, or finds no data when that offset is the end. The fetch is an
  \<open>SQLFetchScroll\<close> of any allowed type but \<open>SQL_FETCH_BOOKMARK\<close>, under the hypotheses of \<open>fetch_refines_cursor\<close> other than
  that of the conversions, the row behind the failed one exists, and the kept offset is one
  that \<open>c_row_tell\<close> gave for this result.\<close>

theorem failed_row_loses_place:
  assumes "stored_result S seen place" "connected S" "open_result S seen place rows st" "f_array_size st = 1"
    "allowed_type ty st" "ty \<noteq> SQL_FETCH_BOOKMARK" "cursor_of rows cur st"
    "cursor_move 1 ty irow rows cur = Some (Showing b [v] a)" "a \<noteq> []"
    "f_end_of_set st = c_row_tell S c" "seen c = (rows, q)"
    "\<not> SQL_SUCCEEDED (fill_fetch_buffers S st v 0)"
  shows "\<exists>st1 rc st2. SQLFetchScroll S ty irow None False st = Some (SQL_ERROR, st1) \<and> cursor_of rows (Showing b [v] a) st1 \<and>
    SQLFetch S st1 = Some (rc, st2) \<and>
    (if q < length rows then f_rowset st2 0 = Some (rows ! q) else rc = SQL_NO_DATA_FOUND)"
proof -
  define s where "s = own_outputs st"
  have s: "open_result S seen place rows s" "plain s" "f_array_size s = 1" "f_current_row s = f_current_row st"
    "f_rows_found s = f_rows_found st" "f_end_of_set s = f_end_of_set st" "settings s = settings st" "allowed_type ty s"
    using assms(3-5) by (simp_all add: s_def) (simp add: open_result_def own_outputs_def plain_def if_forward_cache_def)
  have cur: "cursor_over rows cur" "(f_current_row st, f_rows_found st) = cursor_numbers cur"
    using assms(7) by (simp_all add: cursor_of_def)
  have rows: "rows = b @ v # a" using cursor_over_move [OF cur(1) assms(8)] by simp
  define n where "n = length b"
  have n: "int n < int (length rows)" "rows ! n = v" "Suc n < length rows"
    using assms(9) by (auto simp: rows n_def)
  obtain p where p: "seen (f_client s) = (rows, p)" using s(1) by (metis open_result_def prod.collapse)
  let ?a = "s\<lparr>f_current_values := None\<rparr>"
  have a: "plain ?a" "kept_offset place rows ?a" "seen (f_client ?a) = (rows, p)"
    using s(1) p by (simp_all add: open_result_def plain_def kept_offset_def if_forward_cache_def)
  have cf: "cursor_fetch rows (f_array_size ?a) ty irow (f_current_row ?a, f_rows_found ?a) = Some ([v], int n, 1)"
    using cursor_move_fetch [OF cur(1), of 1 ty irow] s(3-5) cur(2) assms(8) by (simp add: at_cursor_def n_def)
  obtain c1 where c1: "compute_cur_row S ty irow ?a = Some (Inr (int n, ?a\<lparr>f_client := c1, f_current_row := int n\<rparr>))" "seen c1 = (rows, n)"
    using compute_stored [OF assms(1) a(1,3,2) cf] n(1) by auto
  let ?t = "?a\<lparr>f_client := c1, f_current_row := int n\<rparr>"
  have t: "settings ?t = settings s" "plain ?t" using s(2) plain_settings [of ?t s] by (simp_all add: settings_def)
  have ct: "seen (f_client ?t) = (rows, n)" "n < length rows" using c1(2) n(1) by auto
  have ro: "fetch_rowset S ty irow False s =
      bind_step (fetch_cycle S ty irow False 1 0 (int n) SQL_SUCCESS SQL_SUCCESS (f_end_of_set ?t) ?t)
        (\<lambda>(n, res, save) st2. end_of_fetch S False n res save st2)"
    by (rule rowset_of_one [OF assms(1) s(2) p c1(1) t(1) _ n(1) s(3)]) simp
  have "fill_fetch_buffers S ?t (rows ! n) 0 = fill_fetch_buffers S st v 0"
    by (simp add: fill_fetch_buffers_def s_def own_outputs_def n(2))
  then have fill: "add_row 0 (fill_fetch_buffers S ?t (rows ! n) 0) SQL_SUCCESS SQL_SUCCESS = SQL_ERROR"
    using assms(12) by (simp add: add_row_first)
  obtain t1 where t1: "fetch_cycle S ty irow False 1 0 (int n) SQL_SUCCESS SQL_SUCCESS (f_end_of_set ?t) ?t =
        Some (Inr ((1, SQL_ERROR, c_row_tell S (f_client ?t)), t1))" "seen (f_client t1) = (rows, Suc n)" "settings t1 = settings ?t"
      "position t1 = position ?t"
    using cycle_of_one [OF assms(1) t(2) assms(2) ct assms(6), of irow False "int n" "f_end_of_set ?t", unfolded fill] by blast
  obtain t2 where t2: "end_of_fetch S False 1 SQL_ERROR (c_row_tell S (f_client ?t)) t1 = Some (Inr (SQL_ERROR, t2))"
      "f_client t2 = f_client t1" "settings t2 = settings t1" "position t2 = (f_current_row t1, 1, f_end_of_set t1)"
    using end_of_fetch_error [OF assms(2), of 1 False "c_row_tell S (f_client ?t)" t1] by auto
  have "my_SQLExtendedFetch S ty irow False s = Some (SQL_ERROR, t2)"
    using fetch_of_plain [OF s(2,8), of S irow False] ro t1(1) t2(1) by (simp add: caught_def)
  then have first: "SQLFetchScroll S ty irow None False st = Some (SQL_ERROR, own_results t2)"
    using assms(6) by (simp add: SQLFetchScroll_def s_def)
  define u where "u = own_results t2"
  have u: "settings u = settings s" "f_client u = f_client t1" "f_current_row u = int n" "f_rows_found u = 1" "f_end_of_set u = f_end_of_set st"
    using t2(2-4) t1(3,4) t(1) s(6)
    by (simp_all add: u_def) (simp_all add: position_def own_results_def)
  have pu: "plain u" "f_array_size u = 1" using s(2,3) u(1) plain_settings [of u s] by (simp_all add: settings_def)
  have "cursor_of rows (Showing b [v] a) u" using u(3,4) by (simp add: cursor_of_def rows n_def)
  moreover have "\<exists>rc st2. SQLFetch S u = Some (rc, st2) \<and>
      (if q < length rows then f_rowset st2 0 = Some (rows ! q) else rc = SQL_NO_DATA_FOUND)"
  proof (rule fetch_at_kept_offset [OF assms(1,2) pu])
    show "seen (f_client u) = (rows, Suc n)" using t1(2) u(2) by simp
    show "place rows (f_end_of_set u) = q" using stored_resultD(3) [OF assms(1), of c] by (simp add: u(5) assms(10,11))
  qed (use u n in auto)
  ultimately show ?thesis using first u_def by blast
qed

theorem failed_row_loses_place_witness:
  "\<exists>st1 rc st2. SQLFetchScroll (mem_services (\<lambda>v _ _. if v = 10 then SQL_ERROR else SQL_SUCCESS)) SQL_FETCH_FIRST 0 None False
      (mem_statement 3 1 [10, 20, 30, 40] \<lparr>f_current_row := 2, f_rows_found := 1, f_end_of_set := Some 3\<rparr>) = Some (SQL_ERROR, st1) \<and>
     SQLFetch (mem_services (\<lambda>v _ _. if v = 10 then SQL_ERROR else SQL_SUCCESS)) st1 = Some (rc, st2) \<and> f_rowset st2 0 = Some 40"
proof -
  let ?S = "mem_services (\<lambda>v _ _. if v = 10 then SQL_ERROR else SQL_SUCCESS)"
  let ?st = "mem_statement 3 1 [10, 20, 30, 40] \<lparr>f_current_row := 2, f_rows_found := 1, f_end_of_set := Some 3\<rparr>"
  have op: "open_result ?S id mem_place [10, 20, 30, 40] ?st"
    using mem_open [of 3 1 "\<lambda>v _ _. if v = 10 then SQL_ERROR else SQL_SUCCESS" "[10, 20, 30, 40]"]
    by (simp add: open_result_def kept_offset_def plain_def if_forward_cache_def SQL_CURSOR_DYNAMIC_def mem_place_def)
  have ty: "allowed_type SQL_FETCH_FIRST ?st" "SQL_FETCH_FIRST \<noteq> SQL_FETCH_BOOKMARK"
    by (simp_all add: allowed_type_def SQL_CURSOR_FORWARD_ONLY_def fetch_types)
  have cur: "cursor_of [10, 20, 30, 40 :: int] (Showing [10, 20] [30] [40]) ?st" by (simp add: cursor_of_def)
  have mv: "cursor_move 1 SQL_FETCH_FIRST 0 [10, 20, 30, 40 :: int] (Showing [10, 20] [30] [40]) = Some (Showing [] [10] [20, 30, 40])"
    by (simp add: cursor_move_def fetch_types first_rowset_def show_from_def)
  have kept: "f_end_of_set ?st = c_row_tell ?S ([10, 20, 30, 40], 3)" by (simp add: mem_services_def)
  have fill: "\<not> SQL_SUCCEEDED (fill_fetch_buffers ?S ?st 10 0)"
    by (simp add: fill_fetch_buffers_def mem_services_def mem_statement_def add_column_def retcodes SQL_SUCCEEDED_def)
  show ?thesis
    using failed_row_loses_place [OF mem_stored mem_connected op _ ty cur mv _ kept _ fill] by auto
qed

end
