(* ===== verification/Scroller_Props.thy ===== *)
theory Scroller_Props
  imports Scroller
begin

text \<open>
  The queries a scroller sends: the text around the LIMIT clause is that of the application's query,
  and the windows the clauses name tile the range of rows that was asked for.
\<close>

section \<open>Stores and numbers\<close>

lemma store_text_app:
  "length b = length s \<Longrightarrow> p = length a \<Longrightarrow> store_text p s (a @ b @ c) = Some (a @ s @ c)"
  by (simp add: store_text_def)

lemma store_text_front: "length b = length s \<Longrightarrow> store_text 0 s (b @ c) = Some (s @ c)"
  using store_text_app [of b s 0 "[]" c] by simp

lemma length_decimal_digits: "n < 10 ^ k \<Longrightarrow> 0 < k \<Longrightarrow> length (decimal_digits n) \<le> k"
proof (induction n arbitrary: k rule: decimal_digits.induct)
  case (1 n)
  show ?case
  proof (cases "n < 10")
    case False
    with "1.prems" obtain j where k: "k = Suc j" "0 < j" by (cases k; cases "k - 1") auto
    then have "n div 10 < 10 ^ j" using "1.prems"(1) by (simp add: less_mult_imp_div_less mult.commute)
    then show ?thesis using "1.IH" [OF False _ k(2)] False k(1) by (subst decimal_digits.simps) simp
  qed (use "1.prems" in \<open>subst decimal_digits.simps; simp\<close>)
qed

lemma length_padded: "n < 10 ^ w \<Longrightarrow> 0 < w \<Longrightarrow> length (padded_number w n) = w"
  using length_decimal_digits [of n w] by (simp add: padded_number_def Let_def)

lemma u64_padded: "length (padded_number 20 (unat (x :: u64))) = 20"
proof -
  have "unat x < 2 ^ 64" using unsigned_less [of x, where ?'a = nat] by simp
  then show ?thesis by (intro length_padded) simp_all
qed

lemma u32_padded: "length (padded_number 10 (unat (x :: u32))) = 10"
proof -
  have "unat x < 2 ^ 32" using unsigned_less [of x, where ?'a = nat] by simp
  then show ?thesis by (intro length_padded) simp_all
qed

lemmas buff_sizes = MAX32_BUFF_SIZE_def MAX64_BUFF_SIZE_def

text \<open>The digits read back.\<close>

lemma digit_char_code: "d < 10 \<Longrightarrow> isdigit_c (char_of (48 + d)) \<and> code (char_of (48 + d)) - 48 = d"
  by (simp add: isdigit_c_def code_char_of)

lemma atoll_loop_app:
  "\<forall>c \<in> set xs. isdigit_c c \<Longrightarrow> atoll_loop n (xs @ ys) = atoll_loop (atoll_loop n xs) ys"
  by (induction xs arbitrary: n) auto

lemma decimal_digits_all: "\<forall>c \<in> set (decimal_digits n). isdigit_c c"
proof (induction n rule: decimal_digits.induct)
  case (1 n)
  then show ?case using digit_char_code [of "n mod 10"] digit_char_code [of n]
    by (subst decimal_digits.simps) auto
qed

lemma atoll_decimal: "atoll_loop 0 (decimal_digits n) = n"
proof (induction n rule: decimal_digits.induct)
  case (1 n)
  show ?case
  proof (cases "n < 10")
    case True
    then show ?thesis using digit_char_code [of n] by (subst decimal_digits.simps) simp
  next
    case False
    then show ?thesis
      using 1 digit_char_code [of "n mod 10"]
      by (subst decimal_digits.simps) (simp add: atoll_loop_app [OF decimal_digits_all])
  qed
qed

section \<open>The text of a scrolled query\<close>

text \<open>The place of the offset holds \<open>g\<close>, the place of the count the number \<open>cnt\<close>.\<close>

definition laid_out :: "scroller \<Rightarrow> string \<Rightarrow> string \<Rightarrow> nat \<Rightarrow> string \<Rightarrow> bool" where
  "laid_out sc pre g cnt post \<longleftrightarrow>
     offset_pos sc = length pre + 7 \<and> length g = 20 \<and> cnt < 2 ^ 32 \<and> post \<noteq> [] \<and>
     sc_text sc = pre @ '' LIMIT '' @ g @ '','' @ padded_number 10 cnt @ post"

lemma padded_10: "cnt < 2 ^ 32 \<Longrightarrow> length (padded_number 10 cnt) = 10"
  by (intro length_padded) simp_all

lemma scroller_move_text:
  assumes "laid_out sc pre g cnt post"
  shows "\<exists>t. scroller_move sc = Some (next_offset sc + ucast (row_count sc),
      sc\<lparr>sc_text := t, next_offset := next_offset sc + ucast (row_count sc)\<rparr>) \<and>
    laid_out (sc\<lparr>sc_text := t, next_offset := next_offset sc + ucast (row_count sc)\<rparr>)
      pre (padded_number 20 (unat (next_offset sc))) cnt post"
proof -
  let ?n = "padded_number 20 (unat (next_offset sc))" and ?r = "padded_number 10 cnt @ post"
  have "store_text (offset_pos sc) (take 20 ?n @ [CHR 0x00]) (sc_text sc) = Some ((pre @ '' LIMIT '') @ (?n @ [CHR 0x00]) @ ?r)"
    using assms store_text_app [of "g @ '',''" "?n @ [CHR 0x00]" "offset_pos sc" "pre @ '' LIMIT ''" ?r]
    by (simp add: laid_out_def u64_padded)
  moreover have "store_text (offset_pos sc + 20) '','' ((pre @ '' LIMIT '' @ ?n) @ [CHR 0x00] @ ?r) = Some ((pre @ '' LIMIT '' @ ?n) @ '','' @ ?r)"
    using assms by (intro store_text_app) (simp_all add: laid_out_def u64_padded)
  ultimately show ?thesis
    using assms by (simp add: Let_def scroller_move_def snprintf_number_def buff_sizes laid_out_def u64_padded)
qed

lemma scroller_window_text:
  assumes "laid_out sc pre g cnt post" "total_rows sc > 0" "next_offset sc \<ge> total_rows sc + start_offset sc"
    "count = total_rows sc - (next_offset sc - ucast (row_count sc) - start_offset sc)" "0 <s count"
  shows "\<exists>t. scroller_window sc = Some (True, sc\<lparr>sc_text := t\<rparr>) \<and>
    laid_out (sc\<lparr>sc_text := t\<rparr>) pre g (unat (ucast count :: u32)) ('' '' @ tl post)"
proof -
  let ?n = "padded_number 10 (unat (ucast count :: u32))"
  obtain c post' where post: "post = c # post'" using assms(1) by (auto simp: laid_out_def neq_Nil_conv)
  have "store_text (offset_pos sc + 21) (take 10 ?n @ [CHR 0x00]) (sc_text sc) = Some ((pre @ '' LIMIT '' @ g @ '','') @ (?n @ [CHR 0x00]) @ post')"
    using assms(1) store_text_app [of "padded_number 10 cnt @ [c]" "?n @ [CHR 0x00]" "offset_pos sc + 21" "pre @ '' LIMIT '' @ g @ '',''" post']
    by (simp add: laid_out_def u32_padded padded_10 post)
  moreover have "store_text (offset_pos sc + 31) '' '' ((pre @ '' LIMIT '' @ g @ '','' @ ?n) @ [CHR 0x00] @ post') =
      Some ((pre @ '' LIMIT '' @ g @ '','' @ ?n) @ '' '' @ post')"
    using assms(1) by (intro store_text_app) (simp_all add: laid_out_def u32_padded)
  moreover have "unat (ucast count :: u32) < 2 ^ 32" using unsigned_less [of "ucast count :: u32", where ?'a = nat] by simp
  ultimately show ?thesis
    using assms by (simp add: Let_def scroller_window_def snprintf_number_def buff_sizes laid_out_def u32_padded post)
qed

section \<open>The place of the clause\<close>

lemma scan_while_ge: "p \<le> scan_while P p e"
proof (induction P p e rule: scan_while.induct)
  case (1 P p e)
  then show ?case by (subst scan_while.simps) (auto dest: Suc_leD)
qed

lemma prev_token_le: "fst (prev_token_from cs buf e 0 p) \<le> p \<and> snd (prev_token_from cs buf e 0 p) \<le> p"
proof (induction p)
  case (Suc p)
  then show ?case by (subst (1 2) prev_token_from.simps) (auto intro: le_SucI)
qed (simp add: prev_token_from.simps)

lemma prev_token_bound:
  "mystr_get_prev_token cs buf lim 0 = (t, b) \<Longrightarrow> t \<le> lim \<and> b \<le> lim"
  using prev_token_le [of cs buf lim lim] by (simp add: mystr_get_prev_token_def)

lemma find_token_bound: "find_token_from cs buf 0 lim target = Some t \<Longrightarrow> t \<le> lim"
proof (induction lim rule: less_induct)
  case (less lim)
  obtain t1 b where r: "mystr_get_prev_token cs buf lim 0 = (t1, b)" by (meson surj_pair)
  have "t1 \<noteq> 0 \<Longrightarrow> b < lim"
    using r prev_token_from_le [of 0 lim cs buf lim] prev_token_from_start [of cs buf lim 0 lim]
    by (simp add: mystr_get_prev_token_def)
  then show ?case
    using less.prems less.IH [of b] prev_token_bound [OF r] by (subst (asm) find_token_from.simps) (auto simp: r Let_def split: if_splits)
qed

lemma locking_words_bound: "locking_words cs buf 0 lim token ws = Some p \<Longrightarrow> (\<And>t. token = Some t \<Longrightarrow> t \<le> n) \<Longrightarrow> lim \<le> n \<Longrightarrow> p \<le> n"
proof (induction ws arbitrary: lim token)
  case (Cons w ws)
  obtain t b where r: "mystr_get_prev_token cs buf lim 0 = (t, b)" by (meson surj_pair)
  then have "t \<le> n" "b \<le> n" using prev_token_bound [OF r] Cons.prems(3) by simp_all
  moreover have "locking_words cs buf 0 b (Some t) ws = Some p" using Cons.prems(1) by (simp add: r split: if_splits)
  ultimately show ?case using Cons.IH [of b "Some t"] by simp
qed simp

lemma trim_end_bound: "trim_end cs buf 0 e p \<le> p"
proof (induction p)
  case (Suc p)
  then show ?case by (subst trim_end.simps) auto
qed (simp add: trim_end.simps)

lemma get_limit_numbers_bound:
  assumes "get_limit_numbers cs buf p e offs rows = Some (q, r)"
  shows "p \<le> q"
proof -
  define p1 where "p1 = scan_while (\<lambda>i. isspace_at cs buf i e) p e"
  define p2 where "p2 = scan_while (\<lambda>i. isnum_at cs buf i e) p1 e"
  define p3 where "p3 = scan_while (\<lambda>i. \<not> isnum_at cs buf i e) p2 e"
  define p4 where "p4 = scan_while (\<lambda>i. isnum_at cs buf i e) p3 e"
  have "p \<le> p1" "p1 \<le> p2" "p2 \<le> p3" "p3 \<le> p4" by (simp_all add: p1_def p2_def p3_def p4_def scan_while_ge)
  moreover have "q = p2 \<or> q = p3 \<or> q = p4"
    using assms by (auto simp: get_limit_numbers_def Let_def bind_eq_Some_conv split: if_splits simp flip: p1_def p2_def p3_def p4_def)
  ultimately show ?thesis by auto
qed

lemma find_position_bound:
  assumes "find_position4limit cs q 0 (length q) = Some limit"
  shows "l_begin limit \<le> length q \<and> l_begin limit \<le> l_end limit"
proof (cases "find_token cs q 0 (length q) ''LIMIT''")
  case None
  have "check_row_locking cs q 0 (length q) m = Some p \<Longrightarrow> p \<le> length q" for m p
    unfolding check_row_locking_def by (erule locking_words_bound) simp_all
  then have "check_row_locking cs q 0 (length q) m = Some p \<Longrightarrow> p - Suc 0 \<le> length q" for m p
    by (meson diff_le_self le_trans)
  then show ?thesis
    using assms None trim_end_bound [of cs q "length q" "length q"]
    by (auto simp: find_position4limit_def Let_def split: option.splits if_splits)
next
  case (Some p)
  then have "p \<le> length q" using find_token_bound by (simp add: find_token_def)
  then show ?thesis
    using assms Some by (auto simp: find_position4limit_def Let_def dest: get_limit_numbers_bound)
qed

lemma store_text_at:
  "m = a @ b @ c \<Longrightarrow> length b = length s \<Longrightarrow> p = length a \<Longrightarrow> store_text p s m = Some (a @ s @ c)"
  by (simp add: store_text_app)

lemma replicate_split: "replicate (m + n) x = replicate m x @ replicate n x"
  by (simp add: replicate_add)

definition query_tail :: "limit_clause \<Rightarrow> string \<Rightarrow> string" where
  "query_tail limit q =
     (let suffix = drop (l_end limit) q
      in suffix @ replicate (Suc (length q - l_begin limit) - length suffix) CHR '' '' @ [CHR 0x00])"

lemma scroller_create_text:
  assumes "find_position4limit cs q 0 (length q) = Some limit"
  shows "\<exists>sc1. scroller_create cs q max_rows sc = Some sc1 \<and>
    laid_out sc1 (take (l_begin limit) q) (CHR 0x00 # replicate 19 CHR '' '') (unat (row_count sc1)) (query_tail limit q) \<and>
    sc_query_len sc1 = length q + 39 \<and> next_offset sc1 = l_offset limit \<and> start_offset sc1 = l_offset limit \<and>
    total_rows sc1 = (if l_begin limit \<noteq> l_end limit then
      if max_rows > 0 then min (ucast (l_row_count limit)) max_rows else ucast (l_row_count limit) else max_rows) \<and>
    row_count sc1 = (if ucast (row_count sc) > total_rows sc1 \<and> l_begin limit \<noteq> l_end limit
      then ucast (total_rows sc1) else row_count sc)"
proof -
  let ?b = "l_begin limit" and ?sp = "CHR '' ''"
  define pre where "pre = take ?b q"
  define suffix where "suffix = drop (l_end limit) q"
  define d where "d = length q - ?b"
  define cnt where "cnt = (let total = (if ?b \<noteq> l_end limit then
      if max_rows > 0 then min (ucast (l_row_count limit)) max_rows else ucast (l_row_count limit) else max_rows)
    in if ucast (row_count sc) > total \<and> ?b \<noteq> l_end limit then ucast total else row_count sc)"
  define num where "num = padded_number 10 (unat cnt)"
  note fb = find_position_bound [OF assms]
  have len: "length pre = ?b" "length q = ?b + d" "length suffix \<le> d" "length num = 10"
    using fb by (auto simp: pre_def suffix_def d_def num_def u32_padded)
  have m1: "store_text 0 pre (replicate (length q + 39) ?sp @ [CHR 0x00]) = Some (pre @ replicate (39 + d) ?sp @ [CHR 0x00])"
  proof -
    have "replicate (length q + 39) ?sp = replicate ?b ?sp @ replicate (39 + d) ?sp"
      by (simp add: len(2) ac_simps flip: replicate_split)
    then show ?thesis using store_text_at [of _ "[]" "replicate ?b ?sp" "replicate (39 + d) ?sp @ [CHR 0x00]" pre 0] len(1) by simp
  qed
  have "replicate (39 + d) ?sp = replicate 8 ?sp @ replicate 19 ?sp @ replicate 12 ?sp @ replicate d ?sp"
    by (simp flip: replicate_split)
  note m1 = m1 [unfolded this]
  let ?lim = "'' LIMIT '' @ [CHR 0x00]"
  have m2: "store_text ?b ?lim (pre @ (replicate 8 ?sp @ replicate 19 ?sp @ replicate 12 ?sp @ replicate d ?sp) @ [CHR 0x00]) =
      Some (pre @ ?lim @ (replicate 19 ?sp @ replicate 12 ?sp @ replicate d ?sp @ [CHR 0x00]))"
    by (rule store_text_at [where b = "replicate 8 ?sp"]) (simp_all add: len)
  have m3: "store_text (?b + 27) ('','' @ num @ [CHR 0x00]) (pre @ ?lim @ (replicate 19 ?sp @ replicate 12 ?sp @ replicate d ?sp @ [CHR 0x00])) =
      Some ((pre @ ?lim @ replicate 19 ?sp) @ ('','' @ num @ [CHR 0x00]) @ replicate d ?sp @ [CHR 0x00])"
    by (rule store_text_at [where b = "replicate 12 ?sp"]) (simp_all add: len)
  have m4: "store_text (?b + 38) '' '' ((pre @ ?lim @ replicate 19 ?sp) @ ('','' @ num @ [CHR 0x00]) @ replicate d ?sp @ [CHR 0x00]) =
      Some ((pre @ ?lim @ replicate 19 ?sp @ '','' @ num) @ '' '' @ replicate d ?sp @ [CHR 0x00])"
    by (rule store_text_at [where b = "[CHR 0x00]"]) (simp_all add: len)
  have rest: "'' '' @ replicate d ?sp = replicate (length suffix) ?sp @ replicate (Suc d - length suffix) ?sp"
  proof -
    have "'' '' @ replicate d ?sp = replicate (Suc d) ?sp" by simp
    also have "Suc d = length suffix + (Suc d - length suffix)" using len(3) by linarith
    finally show ?thesis by (simp only: replicate_split)
  qed
  have m5: "store_text (?b + 38) suffix ((pre @ ?lim @ replicate 19 ?sp @ '','' @ num) @ '' '' @ replicate d ?sp @ [CHR 0x00]) =
      Some ((pre @ ?lim @ replicate 19 ?sp @ '','' @ num) @ suffix @ replicate (Suc d - length suffix) ?sp @ [CHR 0x00])"
    by (rule store_text_at [where b = "replicate (length suffix) ?sp"]) (use rest in \<open>simp_all add: len\<close>)
  have sum: "length suffix + (Suc d - length suffix) = Suc d" using len(3) by linarith
  have m6: "store_text (length q + 39) [CHR 0x00] ((pre @ ?lim @ replicate 19 ?sp @ '','' @ num) @ suffix @ replicate (Suc d - length suffix) ?sp @ [CHR 0x00]) =
      Some ((pre @ ?lim @ replicate 19 ?sp @ '','' @ num @ suffix @ replicate (Suc d - length suffix) ?sp) @ [CHR 0x00] @ [])"
    by (rule store_text_at [where b = "[CHR 0x00]"]) (simp_all add: len sum)
  define total where "total = (if ?b \<noteq> l_end limit then
      if max_rows > 0 then min (ucast (l_row_count limit)) max_rows else ucast (l_row_count limit) else max_rows)"
  have cnt: "(if ucast (row_count sc) > total \<and> ?b \<noteq> l_end limit then ucast total else row_count sc) = cnt"
    by (simp only: cnt_def total_def Let_def)
  define mem where "mem = (pre @ ?lim @ replicate 19 ?sp @ '','' @ num @ suffix @ replicate (Suc d - length suffix) ?sp) @ [CHR 0x00] @ []"
  have pos: "?b + 7 + 21 - 1 = ?b + 27" "?b + 7 + 21 + 11 - 1 = ?b + 38" "length q + (7 + 21 + 11) = length q + 39" by simp_all
  have t: "take 10 num = num" using len(4) by simp
  define sc1 where "sc1 = sc\<lparr>sc_text := mem, sc_query_len := length q + 39, offset_pos := ?b + 7,
      row_count := cnt, start_offset := l_offset limit, next_offset := l_offset limit, total_rows := total\<rparr>"
  have run: "scroller_create cs q max_rows sc = Some sc1"
    unfolding scroller_create_def Let_def assms Option.bind.simps buff_sizes snprintf_number_def pos total_def [symmetric] cnt
      pre_def [symmetric] suffix_def [symmetric] append_assoc
    using m1 m2 m3 m4 m5 m6 by (simp add: mem_def t sc1_def flip: num_def)
  have f: "offset_pos sc1 = ?b + 7" "sc_text sc1 = mem" "sc_query_len sc1 = length q + 39" "row_count sc1 = cnt"
    "start_offset sc1 = l_offset limit" "next_offset sc1 = l_offset limit" "total_rows sc1 = total"
    by (simp_all add: sc1_def)
  have "unat cnt < 2 ^ 32" using unsigned_less [of cnt, where ?'a = nat] by simp
  moreover have "query_tail limit q = suffix @ replicate (Suc d - length suffix) ?sp @ [CHR 0x00]"
    by (simp add: query_tail_def Let_def suffix_def d_def)
  ultimately have "laid_out sc1 pre (CHR 0x00 # replicate 19 ?sp) (unat (row_count sc1)) (query_tail limit q)"
    by (simp add: laid_out_def f len mem_def num_def)
  then show ?thesis
    using run unfolding pre_def by (intro exI [of _ sc1]) (simp only: f cnt [unfolded total_def] total_def simp_thms)
qed

section \<open>The windows\<close>

lemma u64_sless_zero: "0 <s (w :: u64) \<longleftrightarrow> 0 < unat w \<and> unat w < 2 ^ 63"
proof -
  have u: "0 \<le> uint w" "uint w < 2 ^ 64" using uint_lt2p [of w] by simp_all
  have "(uint w + 2 ^ 63) mod 2 ^ 64 = uint w - 2 ^ 63" if "\<not> uint w < 2 ^ 63"
    using minus_mod_self2 [of "uint w + 2 ^ 63" "2 ^ 64"] that u by simp
  moreover have "sint w = signed_take_bit 63 (uint w)" by (simp add: sint_uint)
  ultimately have "sint w = (if uint w < 2 ^ 63 then uint w else uint w - 2 ^ 64)"
    using u by (simp add: signed_take_bit_eq_take_bit_shift take_bit_eq_mod)
  moreover have "0 <s w \<longleftrightarrow> 0 < sint w" by (simp only: word_sless_alt sint_0)
  moreover obtain n where n: "unat w = n" "uint w = int n" by simp
  ultimately have "0 <s w \<longleftrightarrow> 0 < (if int n < 2 ^ 63 then int n else int n - 2 ^ 64)" by presburger
  then show ?thesis using u unfolding n by (auto split: if_splits)
qed

lemma read_padded: "atoll_loop 0 (dropWhile ((=) CHR '' '') (padded_number w n)) = n"
proof -
  have "decimal_digits n \<noteq> []" by (subst decimal_digits.simps) simp
  then have "dropWhile ((=) CHR '' '') (decimal_digits n) = decimal_digits n"
    using decimal_digits_all [of n] by (cases "decimal_digits n") (auto simp: isdigit_c_def code_def)
  moreover have "dropWhile ((=) CHR '' '') (replicate k CHR '' '' @ xs) = dropWhile ((=) CHR '' '') xs" for k xs
    by (induction k) simp_all
  ultimately show ?thesis by (simp add: padded_number_def Let_def atoll_decimal)
qed

text \<open>The offset and the count that the server reads in the text.\<close>

definition window_of :: "scroller \<Rightarrow> nat \<times> nat" where
  "window_of sc =
     (let field = (\<lambda>p n. atoll_loop 0 (dropWhile ((=) CHR '' '') (take n (drop p (sc_text sc)))))
      in (field (offset_pos sc) 20, field (offset_pos sc + 21) 10))"

lemma laid_out_window:
  "laid_out sc pre (padded_number 20 off) cnt post \<Longrightarrow> window_of sc = (off, cnt)"
  by (simp add: laid_out_def window_of_def padded_10 read_padded)

text \<open>The queries after the first, until there is no data; false when the bound on their number is reached.\<close>

fun windows :: "nat \<Rightarrow> scroller \<Rightarrow> ((nat \<times> nat) list \<times> bool) option" where
  "windows 0 sc = Some ([], False)"
| "windows (Suc n) sc =
     Option.bind (next_window sc) (\<lambda>(more, sc1).
       if more then map_option (\<lambda>(ws, ended). (window_of sc1 # ws, ended)) (windows n sc1) else Some ([], True))"

definition rows_of :: "nat \<times> nat \<Rightarrow> nat list" where
  "rows_of w = [fst w ..< fst w + snd w]"

definition window_state :: "nat \<Rightarrow> nat \<Rightarrow> nat \<Rightarrow> string \<Rightarrow> nat \<Rightarrow> scroller \<Rightarrow> bool" where
  "window_state s t rc pre k sc \<longleftrightarrow>
     (\<exists>post. laid_out sc pre (padded_number 20 (s + k * rc)) (min rc (t - k * rc)) post) \<and>
     unat (next_offset sc) = s + (k + 1) * rc \<and> unat (total_rows sc) = t \<and> unat (start_offset sc) = s \<and> unat (row_count sc) = rc"

lemma unat_add_u64: "unat (a :: u64) + unat b < 2 ^ 64 \<Longrightarrow> unat (a + b) = unat a + unat b"
  by (simp add: unat_word_ariths)

lemma unat_sub_u64: "unat (b :: u64) \<le> unat a \<Longrightarrow> unat (a - b) = unat a - unat b"
  by (simp add: unat_sub word_le_nat_alt)

lemma unat_u32_u64: "unat (ucast (x :: u32) :: u64) = unat x"
proof -
  have "unat x < 2 ^ 32" using unsigned_less [of x, where ?'a = nat] by simp
  then show ?thesis by (simp add: unat_ucast_mod)
qed

lemma unat_u64_u32: "unat (x :: u64) < 2 ^ 32 \<Longrightarrow> unat (ucast x :: u32) = unat x"
  by (simp add: unat_ucast_mod)

lemma window_step:
  assumes "window_state s t rc pre k sc" "0 < rc" "rc < 2 ^ 32" "k * rc < t" "s + t + 2 * rc < 2 ^ 64"
  shows "if Suc k * rc < t then \<exists>sc1. next_window sc = Some (True, sc1) \<and> window_state s t rc pre (Suc k) sc1
         else \<exists>sc1. next_window sc = Some (False, sc1)"
proof -
  obtain post where lay: "laid_out sc pre (padded_number 20 (s + k * rc)) (min rc (t - k * rc)) post"
    and w: "unat (next_offset sc) = s + (k + 1) * rc" "unat (total_rows sc) = t" "unat (start_offset sc) = s" "unat (row_count sc) = rc"
    using assms(1) by (auto simp: window_state_def)
  let ?nx = "next_offset sc + ucast (row_count sc)"
  obtain mem where m: "scroller_move sc = Some (?nx, sc\<lparr>sc_text := mem, next_offset := ?nx\<rparr>)"
    and lay1: "laid_out (sc\<lparr>sc_text := mem, next_offset := ?nx\<rparr>) pre (padded_number 20 (s + Suc k * rc)) (min rc (t - k * rc)) post"
    using scroller_move_text [OF lay] by (auto simp: w(1))
  define sc1 where "sc1 = sc\<lparr>sc_text := mem, next_offset := ?nx\<rparr>"
  have sum: "s + k * rc + 2 * rc < 2 ^ 64" "s + t < 2 ^ 64" using assms(4,5) by linarith+
  then have n1: "unat ?nx = s + (k + 2) * rc"
    by (subst unat_add_u64) (simp_all add: w unat_u32_u64 algebra_simps)
  have f: "unat (next_offset sc1) = s + (k + 2) * rc" "unat (total_rows sc1) = t" "unat (start_offset sc1) = s" "unat (row_count sc1) = rc"
    using n1 w by (simp_all add: sc1_def)
  have "unat (next_offset sc1 - ucast (row_count sc1)) = s + (k + 1) * rc"
    using f by (subst unat_sub_u64) (simp_all add: unat_u32_u64 algebra_simps)
  then have u: "unat (next_offset sc1 - ucast (row_count sc1) - start_offset sc1) = (k + 1) * rc"
    using f by (subst unat_sub_u64) (simp_all add: algebra_simps)
  have cond: "total_rows sc1 > 0 \<and> next_offset sc1 \<ge> total_rows sc1 + start_offset sc1 \<longleftrightarrow> t \<le> (k + 2) * rc"
    using f assms(4) sum(2) by (simp add: word_less_nat_alt word_le_nat_alt unat_add_u64)
  have nw: "next_window sc = scroller_window sc1" by (simp add: next_window_def m sc1_def)
  note lay1 = lay1 [folded sc1_def]
  define count where "count = total_rows sc1 - (next_offset sc1 - ucast (row_count sc1) - start_offset sc1)"
  have count: "0 <s count \<longleftrightarrow> Suc k * rc < t" "Suc k * rc < t \<Longrightarrow> unat count = t - Suc k * rc" if "t \<le> (k + 2) * rc"
  proof -
    show c: "unat count = t - Suc k * rc" if "Suc k * rc < t"
      using that f u by (simp add: count_def unat_sub_u64)
    show "0 <s count \<longleftrightarrow> Suc k * rc < t"
    proof (cases "Suc k * rc < t")
      case True
      moreover have "t - Suc k * rc \<le> rc" using that by (simp add: algebra_simps)
      ultimately show ?thesis using c assms(3) by (simp add: u64_sless_zero)
    next
      case False
      have "unat count = (if Suc k * rc = t then 0 else t + 2 ^ 64 - Suc k * rc)"
        using False f u unat_sub_if' [of "total_rows sc1" "next_offset sc1 - ucast (row_count sc1) - start_offset sc1"]
        by (auto simp: count_def)
      moreover have "Suc k * rc - t < 2 ^ 32" using assms(3,4) by simp
      ultimately have "unat count = 0 \<or> 2 ^ 63 \<le> unat count" by auto
      then show ?thesis using False by (auto simp: u64_sless_zero)
    qed
  qed
  have st: "window_state s t rc pre (Suc k) (sc1\<lparr>sc_text := mem2\<rparr>)"
    if "laid_out (sc1\<lparr>sc_text := mem2\<rparr>) pre (padded_number 20 (s + Suc k * rc)) (min rc (t - Suc k * rc)) post2" for mem2 post2
    using that f by (auto simp: window_state_def algebra_simps)
  show ?thesis
  proof (cases "t \<le> (k + 2) * rc")
    case True
    note c = count [OF True]
    show ?thesis
    proof (cases "Suc k * rc < t")
      case more: True
      have "unat (ucast count :: u32) = min rc (t - Suc k * rc)"
      proof -
        have le: "t - Suc k * rc \<le> rc" using True by (simp add: algebra_simps)
        then show ?thesis using c(2) [OF more] assms(3) by (subst unat_u64_u32) (simp_all add: min_absorb2)
      qed
      moreover obtain mem2 where "scroller_window sc1 = Some (True, sc1\<lparr>sc_text := mem2\<rparr>)"
        "laid_out (sc1\<lparr>sc_text := mem2\<rparr>) pre (padded_number 20 (s + Suc k * rc)) (unat (ucast count :: u32)) ('' '' @ tl post)"
        using scroller_window_text [OF lay1 _ _ count_def] cond True c(1) more by blast
      ultimately show ?thesis using st more nw by auto
    next
      case False
      then have "scroller_window sc1 = Some (False, sc1)"
        using cond True c(1) by (simp add: scroller_window_def Let_def flip: count_def)
      then show ?thesis using False nw by simp
    qed
  next
    case False
    then have "scroller_window sc1 = Some (True, sc1)" using cond by (auto simp: scroller_window_def)
    moreover have "min rc (t - k * rc) = min rc (t - Suc k * rc)" "Suc k * rc < t" using False by (simp_all add: algebra_simps)
    then have "window_state s t rc pre (Suc k) sc1" using st [of "sc_text sc1" post] lay1 by simp
    ultimately show ?thesis using nw \<open>Suc k * rc < t\<close> by auto
  qed
qed

lemma rows_of_pair: "rows_of (a, b) = [a ..< a + b]"
  by (simp add: rows_of_def)

lemma windows_tile:
  assumes "0 < rc" "rc < 2 ^ 32" "s + t + 2 * rc < 2 ^ 64"
  shows "window_state s t rc pre k sc \<Longrightarrow> k * rc < t \<Longrightarrow> t - k * rc \<le> n \<Longrightarrow>
    \<exists>ws. windows n sc = Some (ws, True) \<and> concat (map rows_of (window_of sc # ws)) = [s + k * rc ..< s + t]"
proof (induction n arbitrary: k sc)
  case (Suc n)
  have w: "window_of sc = (s + k * rc, min rc (t - k * rc))"
    using Suc.prems(1) laid_out_window by (auto simp: window_state_def)
  note step = window_step [OF Suc.prems(1) assms(1,2) Suc.prems(2) assms(3)]
  show ?case
  proof (cases "Suc k * rc < t")
    case True
    then obtain sc1 where n: "next_window sc = Some (True, sc1)" "window_state s t rc pre (Suc k) sc1"
      using step by auto
    have "t - Suc k * rc \<le> n" using Suc.prems(3) assms(1) by simp
    then obtain ws where ws: "windows n sc1 = Some (ws, True)" "concat (map rows_of (window_of sc1 # ws)) = [s + Suc k * rc ..< s + t]"
      using Suc.IH [OF n(2) True] by blast
    have "min rc (t - k * rc) = rc" using True by (simp add: min_def)
    moreover have "[s + k * rc ..< s + t] = [s + k * rc ..< s + Suc k * rc] @ [s + Suc k * rc ..< s + t]"
      using upt_add_eq_append [of "s + k * rc" "s + Suc k * rc" "t - Suc k * rc"] True by (simp add: algebra_simps)
    ultimately show ?thesis using ws n(1) w by (simp add: rows_of_pair algebra_simps)
  next
    case False
    then have "t - k * rc \<le> rc" by (simp add: algebra_simps)
    then have "min rc (t - k * rc) = t - k * rc" by (rule min_absorb2)
    then show ?thesis using step False w Suc.prems(2) by (auto simp: rows_of_pair)
  qed
qed simp

text \<open>The rows the application may read: of the clause of its query, of \<open>SQL_ATTR_MAX_ROWS\<close>, or of both.\<close>

definition wanted_rows :: "limit_clause \<Rightarrow> u64 \<Rightarrow> u64" where
  "wanted_rows limit max_rows =
     (if l_begin limit \<noteq> l_end limit then
        if max_rows > 0 then min (ucast (l_row_count limit)) max_rows else ucast (l_row_count limit)
      else max_rows)"

definition first_count :: "limit_clause \<Rightarrow> u32 \<Rightarrow> u64 \<Rightarrow> u32" where
  "first_count limit rows max_rows =
     (if ucast rows > wanted_rows limit max_rows \<and> l_begin limit \<noteq> l_end limit
      then ucast (wanted_rows limit max_rows) else rows)"

lemma scroller_start_text:
  assumes "find_position4limit cs q 0 (length q) = Some limit"
    "rows = calc_prefetch_number prefetch array_size max_rows"
  shows "\<exists>sc1. scroller_start cs q prefetch array_size max_rows sc = Some sc1 \<and>
    laid_out sc1 (take (l_begin limit) q) (padded_number 20 (unat (l_offset limit))) (unat (first_count limit rows max_rows)) (query_tail limit q) \<and>
    sc_query_len sc1 = length q + 39 \<and> next_offset sc1 = l_offset limit + ucast (first_count limit rows max_rows) \<and>
    start_offset sc1 = l_offset limit \<and> total_rows sc1 = wanted_rows limit max_rows \<and> row_count sc1 = first_count limit rows max_rows"
proof -
  define sc0 where "sc0 = (scroller_reset sc)\<lparr>row_count := rows\<rparr>"
  obtain sc1 where c: "scroller_create cs q max_rows sc0 = Some sc1"
    and lay: "laid_out sc1 (take (l_begin limit) q) (CHR 0x00 # replicate 19 CHR '' '') (unat (row_count sc1)) (query_tail limit q)"
    and f: "sc_query_len sc1 = length q + 39" "next_offset sc1 = l_offset limit" "start_offset sc1 = l_offset limit"
      "total_rows sc1 = wanted_rows limit max_rows"
    and r: "row_count sc1 = (if ucast (row_count sc0) > total_rows sc1 \<and> l_begin limit \<noteq> l_end limit
      then ucast (total_rows sc1) else row_count sc0)"
    using scroller_create_text [OF assms(1), of max_rows sc0, folded wanted_rows_def] by blast
  have "row_count sc0 = rows" by (simp add: sc0_def)
  then have f1: "row_count sc1 = first_count limit rows max_rows" using r by (simp only: first_count_def f)
  show ?thesis
    using scroller_move_text [OF lay] c f f1
    by (auto simp: scroller_start_def assms(2) Let_def simp flip: sc0_def [unfolded assms(2)])
qed

lemma u32_of_u64_less:
  assumes "w < ucast (rows :: u32)"
  shows "unat (ucast (w :: u64) :: u32) = unat w" "unat w < unat rows"
proof -
  show l: "unat w < unat rows" using assms by (simp add: word_less_nat_alt unat_u32_u64)
  have "unat rows < 2 ^ 32" using unsigned_less [of rows, where ?'a = nat] by simp
  then show "unat (ucast w :: u32) = unat w" using l by (intro unat_u64_u32) linarith
qed

lemma calc_prefetch_le: "0 < max_rows \<Longrightarrow> unat (calc_prefetch_number selected app max_rows) \<le> unat max_rows"
proof -
  assume m: "0 < max_rows"
  have "unat (if max_rows > 0 \<and> max_rows < ucast r then ucast max_rows else r) \<le> unat max_rows" for r :: u32
  proof (cases "max_rows < ucast r")
    case True
    then show ?thesis using m u32_of_u64_less(1) [OF True] by simp
  next
    case False
    then show ?thesis by (simp add: word_less_nat_alt unat_u32_u64)
  qed
  then show ?thesis by (simp add: calc_prefetch_number_def Let_def)
qed

lemma first_count_bounds:
  assumes "rows = calc_prefetch_number selected app max_rows" "0 < rows" "0 < wanted_rows limit max_rows"
  shows "0 < unat (first_count limit rows max_rows)" "unat (first_count limit rows max_rows) \<le> unat rows"
    "unat (first_count limit rows max_rows) \<le> unat (wanted_rows limit max_rows)"
proof -
  let ?w = "wanted_rows limit max_rows" and ?c = "first_count limit rows max_rows"
  have "0 < unat ?c \<and> unat ?c \<le> unat rows \<and> unat ?c \<le> unat ?w"
  proof (cases "ucast rows > ?w \<and> l_begin limit \<noteq> l_end limit")
    case True
    then have c: "?c = ucast ?w" by (simp only: first_count_def if_True simp_thms)
    have "0 < unat ?w" using assms(3) by (simp add: word_less_nat_alt)
    then show ?thesis using u32_of_u64_less [of ?w rows] True unfolding c by simp
  next
    case False
    then have c: "?c = rows" by (simp only: first_count_def if_False)
    have "unat rows \<le> unat ?w"
    proof (cases "l_begin limit = l_end limit")
      case True
      then have "?w = max_rows" by (simp add: wanted_rows_def)
      then show ?thesis using calc_prefetch_le [of max_rows selected app] assms(1,3) by simp
    next
      case False
      then have "\<not> ucast rows > ?w" using \<open>\<not> (ucast rows > ?w \<and> l_begin limit \<noteq> l_end limit)\<close> by blast
      then show ?thesis by (simp add: word_less_nat_alt unat_u32_u64)
    qed
    then show ?thesis using assms(2) unfolding c by (simp add: word_less_nat_alt)
  qed
  then show "0 < unat ?c" "unat ?c \<le> unat rows" "unat ?c \<le> unat ?w" by blast+
qed

text \<open>C30: The queries a scroller sends one after the other, until it reports that there is no more data,
  name windows of rows that tile one range, each row exactly once and in order, whatever the sizes of the
  prefetch and of the rowset. The range is the one that \<open>find_position4limit\<close> reads from the query (which takes
  LIMIT n OFFSET m for offset n and m rows): from its offset, as many rows as the clause and
  \<open>SQL_ATTR_MAX_ROWS\<close> allow. It holds when the query has a clause or there is such a maximum, the number of rows to
  prefetch is positive, at least one row is wanted (LIMIT 0 is excluded), and the offset, the
  rows wanted and twice the prefetched rows add up to less than 2^64. The windows are read back from the text that is sent.\<close>

theorem scroll_windows:
  assumes "find_position4limit cs q 0 (length q) = Some limit" "0 < calc_prefetch_number prefetch array_size max_rows"
    "0 < wanted_rows limit max_rows"
    "unat (l_offset limit) + unat (wanted_rows limit max_rows) + 2 * unat (calc_prefetch_number prefetch array_size max_rows) < 2 ^ 64"
  shows "\<exists>sc1 ws. scroller_start cs q prefetch array_size max_rows sc = Some sc1 \<and>
    windows (unat (wanted_rows limit max_rows)) sc1 = Some (ws, True) \<and>
    concat (map rows_of (window_of sc1 # ws)) = [unat (l_offset limit) ..< unat (l_offset limit) + unat (wanted_rows limit max_rows)]"
proof -
  let ?s = "unat (l_offset limit)" and ?t = "unat (wanted_rows limit max_rows)"
  define rows where "rows = calc_prefetch_number prefetch array_size max_rows"
  let ?rc = "unat (first_count limit rows max_rows)"
  note b = first_count_bounds [OF rows_def _ assms(3)]
  have rc: "0 < ?rc" "?rc \<le> unat rows" "?rc \<le> ?t" using b assms(2) by (simp_all add: rows_def)
  obtain sc1 where sc1: "scroller_start cs q prefetch array_size max_rows sc = Some sc1"
    and lay: "laid_out sc1 (take (l_begin limit) q) (padded_number 20 ?s) ?rc (query_tail limit q)"
    and f: "next_offset sc1 = l_offset limit + ucast (first_count limit rows max_rows)" "start_offset sc1 = l_offset limit"
      "total_rows sc1 = wanted_rows limit max_rows" "row_count sc1 = first_count limit rows max_rows"
    using scroller_start_text [OF assms(1) rows_def] by blast
  have sum: "?s + ?t + 2 * ?rc < 2 ^ 64" using assms(4) rc(2) by (simp add: rows_def)
  then have "unat (next_offset sc1) = ?s + ?rc" unfolding f(1) by (subst unat_add_u64) (simp_all add: unat_u32_u64)
  then have "window_state ?s ?t ?rc (take (l_begin limit) q) 0 sc1"
    using lay f rc(3) by (auto simp: window_state_def min_def)
  moreover have "?rc < 2 ^ 32" using unsigned_less [of "first_count limit rows max_rows", where ?'a = nat] by simp
  ultimately show ?thesis using windows_tile [OF rc(1) _ sum, of "take (l_begin limit) q" 0 sc1 ?t] rc sc1 by auto
qed

lemma sample_limit:
  "find_position4limit ctype_8bit_latin1 ''SELECT a FROM t LIMIT 3,5'' 0 25 =
     Some \<lparr>l_offset = 3, l_row_count = 5, l_begin = 16, l_end = 25\<rparr>"
  by code_simp

theorem scroll_windows_witness:
  "\<exists>sc1 ws. scroller_start ctype_8bit_latin1 ''SELECT a FROM t LIMIT 3,5'' 2 1 0 new_scroller = Some sc1 \<and>
    windows 5 sc1 = Some (ws, True) \<and> concat (map rows_of (window_of sc1 # ws)) = [3, 4, 5, 6, 7]"
proof -
  have l: "length ''SELECT a FROM t LIMIT 3,5'' = 25" by simp
  have c: "calc_prefetch_number 2 1 0 = 2" by (simp add: calc_prefetch_number_def)
  have w: "wanted_rows \<lparr>l_offset = 3, l_row_count = 5, l_begin = 16, l_end = 25\<rparr> 0 = 5" by (simp add: wanted_rows_def)
  have u: "[3 ..< 3 + 5] = [3, 4, 5, 6, 7 :: nat]" by (simp add: upt_rec)
  show ?thesis
    using scroll_windows [of ctype_8bit_latin1 "''SELECT a FROM t LIMIT 3,5''" _ 2 1 0 new_scroller, unfolded l, OF sample_limit]
    by (simp add: c w u)
qed

text \<open>C31: The first query of a scroller is the application's query up to its LIMIT clause (or up to the place where
  one belongs), a LIMIT clause with the offset in twenty places and the count in ten, the application's
  query from the end of its clause on, and blanks. No store is outside the buffer.\<close>

theorem scroller_text:
  assumes "find_position4limit cs q 0 (length q) = Some limit"
  shows "\<exists>sc1 k. scroller_start cs q prefetch array_size max_rows sc = Some sc1 \<and>
    sent_text sc1 = take (l_begin limit) q @ '' LIMIT '' @ padded_number 20 (unat (l_offset limit)) @ '','' @
      padded_number 10 (unat (first_count limit (calc_prefetch_number prefetch array_size max_rows) max_rows)) @
      drop (l_end limit) q @ replicate k CHR '' ''"
proof -
  define rows where "rows = calc_prefetch_number prefetch array_size max_rows"
  let ?n = "padded_number 20 (unat (l_offset limit))" and ?c = "padded_number 10 (unat (first_count limit rows max_rows))"
  obtain sc1 where sc1: "scroller_start cs q prefetch array_size max_rows sc = Some sc1" "sc_query_len sc1 = length q + 39"
    and lay: "laid_out sc1 (take (l_begin limit) q) ?n (unat (first_count limit rows max_rows)) (query_tail limit q)"
    using scroller_start_text [OF assms(1) rows_def] by blast
  define k where "k = Suc (length q - l_begin limit) - length (drop (l_end limit) q)"
  let ?text = "take (l_begin limit) q @ '' LIMIT '' @ ?n @ '','' @ ?c @ drop (l_end limit) q @ replicate k CHR '' ''"
  have "length (drop (l_end limit) q) + k = Suc (length q - l_begin limit)"
  proof -
    have "length (drop (l_end limit) q) \<le> length q - l_begin limit"
      using find_position_bound [OF assms] by (auto intro: diff_le_mono2)
    then show ?thesis unfolding k_def by linarith
  qed
  then have len: "length ?text = length q + 39"
    using find_position_bound [OF assms] by (simp add: u64_padded u32_padded)
  have "sc_text sc1 = ?text @ [CHR 0x00]"
    using lay by (simp add: laid_out_def query_tail_def Let_def k_def)
  then have "sent_text sc1 = take (length ?text) (?text @ [CHR 0x00])" by (simp only: sent_text_def sc1(2) len)
  also have "take (length xs) (xs @ ys) = xs" for xs ys :: string by simp
  finally show ?thesis using sc1(1) unfolding rows_def by blast
qed

theorem scroller_text_witness:
  "\<exists>sc1 k. scroller_start ctype_8bit_latin1 ''SELECT a FROM t LIMIT 3,5'' 2 1 0 new_scroller = Some sc1 \<and>
    sent_text sc1 = ''SELECT a FROM t  LIMIT                    3,         2'' @ replicate k CHR '' ''"
proof -
  have l: "length ''SELECT a FROM t LIMIT 3,5'' = 25" by simp
  have c: "calc_prefetch_number 2 1 0 = 2" by (simp add: calc_prefetch_number_def)
  have w: "first_count \<lparr>l_offset = 3, l_row_count = 5, l_begin = 16, l_end = 25\<rparr> 2 0 = 2"
    by (simp add: wanted_rows_def first_count_def)
  have p: "padded_number 20 3 = ''                   3''" "padded_number 10 2 = ''         2''" by code_simp+
  show ?thesis
    using scroller_text [of ctype_8bit_latin1 "''SELECT a FROM t LIMIT 3,5''" _ 2 1 0 new_scroller, unfolded l, OF sample_limit]
    by (simp add: c w p)
qed

section \<open>The numbers of a LIMIT clause\<close>

lemma scan_while_run:
  "(\<And>i. p \<le> i \<Longrightarrow> i < q \<Longrightarrow> P i) \<Longrightarrow> p \<le> q \<Longrightarrow> q \<le> e \<Longrightarrow> q = e \<or> \<not> P q \<Longrightarrow> scan_while P p e = q"
proof (induction "q - p" arbitrary: p)
  case 0
  then show ?case by (subst scan_while.simps) auto
next
  case (Suc n)
  then have "P p" "p < e" by simp_all
  moreover have "scan_while P (Suc p) e = q" using Suc.prems by (intro Suc.hyps(1)) (use Suc.hyps(2) in auto)
  ultimately show ?case by (subst scan_while.simps) simp
qed

lemma page00_values:
  "map (\<lambda>m. m = 4) (take 128 uctype_page00) = map (\<lambda>k. 48 \<le> k \<and> k \<le> 57) [0 ..< 128]"
  "list_all (\<lambda>m. m \<in> {32, 8, 16, 4, 129, 130}) (take 128 uctype_page00)"
  by (simp_all add: uctype_page00_def upt_rec)

lemma page00_digits:
  assumes "k < 128"
  shows "has_class (uctype_page00 ! k) MY_NMR = (48 \<le> k \<and> k \<le> 57)"
proof -
  have l: "length (take 128 uctype_page00) = 128" using arg_cong [OF page00_values(1), of length] by simp
  have "(uctype_page00 ! k = 4) = (48 \<le> k \<and> k \<le> 57)"
    using arg_cong [OF page00_values(1), of "\<lambda>xs. xs ! k"] assms l by (simp del: take_map)
  moreover have "uctype_page00 ! k \<in> {32, 8, 16, 4, 129, 130}"
    using page00_values(2) nth_mem [of k "take 128 uctype_page00"] assms l by (auto simp: list_all_iff)
  then have "has_class (uctype_page00 ! k) MY_NMR \<longleftrightarrow> uctype_page00 ! k = 4"
    by (auto simp: has_class_def MY_NMR_def)
  ultimately show ?thesis by simp
qed

lemma page00_blank: "list_all (\<lambda>k. \<not> has_class (uctype_page00 ! k) MY_SPC) [48 ..< 58]"
  by code_simp

lemma utf8mb4_ascii_class:
  "s \<noteq> [] \<Longrightarrow> code (s ! 0) < 128 \<Longrightarrow> fst (ctype_utf8mb4 pages s) = uctype_page00 ! code (s ! 0)"
  by (simp add: ctype_utf8mb4_def my_mb_ctype_mb_def utf8mb4_ascii)

lemma isnum_ascii:
  assumes "i < length s" "code (s ! i) < 128"
  shows "isnum_at (ctype_utf8mb4 pages) s i (length s) \<longleftrightarrow> isdigit_c (s ! i)"
proof -
  have "fst (ctype_utf8mb4 pages (drop i s)) = uctype_page00 ! code (s ! i)"
    using assms utf8mb4_ascii_class [of "drop i s" pages] by simp
  moreover note page00_digits [OF assms(2)]
  ultimately show ?thesis by (simp add: isnum_at_def isdigit_c_def)
qed

lemma isspace_ascii:
  assumes "i < length s" "isdigit_c (s ! i)"
  shows "\<not> isspace_at (ctype_utf8mb4 pages) s i (length s)"
proof -
  have c: "48 \<le> code (s ! i)" "code (s ! i) < 58" using assms(2) by (auto simp: isdigit_c_def)
  then have "fst (ctype_utf8mb4 pages (drop i s)) = uctype_page00 ! code (s ! i)"
    using assms(1) utf8mb4_ascii_class [of "drop i s" pages] by simp
  moreover have "code (s ! i) \<in> set [48 ..< 58]" using c by (simp only: set_upt atLeastLessThan_iff)
  then have "\<not> has_class (uctype_page00 ! code (s ! i)) MY_SPC" using page00_blank unfolding list_all_iff by blast
  ultimately show ?thesis by (simp add: isspace_at_def)
qed

lemma isspace_blank:
  assumes "i < length s" "s ! i = CHR '' ''"
  shows "isspace_at (ctype_utf8mb4 pages) s i (length s)"
proof -
  have "fst (ctype_utf8mb4 pages (drop i s)) = uctype_page00 ! 32"
    using assms utf8mb4_ascii_class [of "drop i s" pages] by (simp add: code_def)
  moreover have "has_class (uctype_page00 ! 32) MY_SPC" by code_simp
  ultimately show ?thesis by (simp add: isspace_at_def)
qed

definition number :: "string \<Rightarrow> bool" where
  "number d \<longleftrightarrow> d \<noteq> [] \<and> length d < 30 \<and> (\<forall>c \<in> set d. isdigit_c c) \<and> atoll_loop 0 d < 2 ^ 63"

definition separator :: "string \<Rightarrow> bool" where
  "separator s \<longleftrightarrow> (\<forall>c \<in> set s. code c < 128 \<and> \<not> isdigit_c c)"

lemma digit_ascii: "isdigit_c c \<Longrightarrow> code c < 128"
  by (simp add: isdigit_c_def)

lemma nth_part: "length a \<le> i \<Longrightarrow> i < length a + length b \<Longrightarrow> (a @ b @ c) ! i \<in> set b"
  by (cases "i - length a < length b") (auto simp: nth_append)

lemma scan_digits:
  assumes "s = a @ d @ r" "number d" "r = [] \<or> code (hd r) < 128 \<and> \<not> isdigit_c (hd r)"
  shows "scan_while (\<lambda>i. isnum_at (ctype_utf8mb4 pages) s i (length s)) (length a) (length s) = length a + length d"
proof (rule scan_while_run)
  fix i assume i: "length a \<le> i" "i < length a + length d"
  then have "isdigit_c (s ! i)" using nth_part [OF i, of r] assms(1,2) by (auto simp: number_def)
  then show "isnum_at (ctype_utf8mb4 pages) s i (length s)"
    using i assms(1) by (subst isnum_ascii) (auto intro: digit_ascii)
next
  show "length a + length d = length s \<or> \<not> isnum_at (ctype_utf8mb4 pages) s (length a + length d) (length s)"
  proof (cases r)
    case (Cons c cs)
    then have "s ! (length a + length d) = c" "length a + length d < length s" by (simp_all add: assms(1) nth_append)
    then show ?thesis using assms(3) Cons by (subst isnum_ascii) simp_all
  qed (simp add: assms(1))
qed (simp_all add: assms(1))

lemma scan_separator:
  assumes "s = a @ sep @ r" "separator sep" "r = [] \<or> isdigit_c (hd r)"
  shows "scan_while (\<lambda>i. \<not> isnum_at (ctype_utf8mb4 pages) s i (length s)) (length a) (length s) = length a + length sep"
proof (rule scan_while_run)
  fix i assume i: "length a \<le> i" "i < length a + length sep"
  then have "code (s ! i) < 128 \<and> \<not> isdigit_c (s ! i)" using nth_part [OF i, of r] assms(1,2) by (auto simp: separator_def)
  then show "\<not> isnum_at (ctype_utf8mb4 pages) s i (length s)"
    using i assms(1) by (subst isnum_ascii) auto
next
  show "length a + length sep = length s \<or> \<not> \<not> isnum_at (ctype_utf8mb4 pages) s (length a + length sep) (length s)"
  proof (cases r)
    case (Cons c cs)
    then have "s ! (length a + length sep) = c" "length a + length sep < length s" by (simp_all add: assms(1) nth_append)
    then show ?thesis using assms(3) Cons by (subst isnum_ascii) (simp_all add: digit_ascii)
  qed (simp add: assms(1))
qed (simp_all add: assms(1))

lemma scan_blanks:
  assumes "s = a @ replicate k CHR '' '' @ d @ r" "number d"
  shows "scan_while (\<lambda>i. isspace_at (ctype_utf8mb4 pages) s i (length s)) (length a) (length s) = length a + k"
proof (rule scan_while_run)
  fix i assume i: "length a \<le> i" "i < length a + k"
  then have "s ! i = CHR '' ''" using nth_part [of a i "replicate k CHR '' ''" "d @ r"] assms(1) by auto
  then show "isspace_at (ctype_utf8mb4 pages) s i (length s)" using i assms(1) by (intro isspace_blank) auto
next
  have "s ! (length a + k) = hd d" using assms by (simp add: nth_append number_def hd_conv_nth)
  moreover have "isdigit_c (hd d)" using assms(2) by (auto simp: number_def)
  ultimately have "\<not> isspace_at (ctype_utf8mb4 pages) s (length a + k) (length s)"
    using assms by (intro isspace_ascii) (auto simp: number_def)
  then show "length a + k = length s \<or> \<not> isspace_at (ctype_utf8mb4 pages) s (length a + k) (length s)" ..
qed (simp_all add: assms(1))

lemma digit_buf_number: "s = a @ d @ r \<Longrightarrow> number d \<Longrightarrow> digit_buf s (length a) (length a + length d) = Some (atoll_loop 0 d)"
  by (simp add: digit_buf_def atoll_digits_def number_def Let_def)

lemma sep_head: "separator sep \<Longrightarrow> sep \<noteq> [] \<Longrightarrow> code (hd sep) < 128 \<and> \<not> isdigit_c (hd sep)"
  by (cases sep) (auto simp: separator_def)

text \<open>The numbers of a LIMIT clause: whatever stands between two of them, the first is taken for the
  offset and the second for the number of rows, so that the offset and the row count of
  \<open>LIMIT n OFFSET m\<close> change places; and when there is one number, everything behind it counts as part
  of the clause, which the scroller replaces.\<close>

theorem limit_numbers:
  assumes "number d1" "number d2" "separator sep" "sep \<noteq> []" "rest = [] \<or> code (hd rest) < 128 \<and> \<not> isdigit_c (hd rest)"
    "blanks = replicate k CHR '' ''" "q2 = pre @ blanks @ d1 @ sep @ d2 @ rest" "q1 = pre @ blanks @ d1 @ sep"
  shows "get_limit_numbers (ctype_utf8mb4 pages) q2 (length pre) (length q2) offs rows =
        Some (length (pre @ blanks @ d1 @ sep @ d2), of_nat (atoll_loop 0 d1), of_nat (atoll_loop 0 d2)) \<and>
    get_limit_numbers (ctype_utf8mb4 pages) q1 (length pre) (length q1) offs rows =
        Some (length q1, 0, of_nat (atoll_loop 0 d1))"
proof
  let ?a = "length pre + k" and ?cs = "ctype_utf8mb4 pages"
  note sep = sep_head [OF assms(3,4)]
  have ne: "d1 \<noteq> []" "d2 \<noteq> []" using assms(1,2) by (simp_all add: number_def)
  have r2: "sep @ d2 @ rest = [] \<or> code (hd (sep @ d2 @ rest)) < 128 \<and> \<not> isdigit_c (hd (sep @ d2 @ rest))"
    using sep assms(4) by simp
  have h2: "d2 @ rest = [] \<or> isdigit_c (hd (d2 @ rest))" using assms(2) by (auto simp: number_def)
  have q2: "q2 = (pre @ blanks) @ d1 @ (sep @ d2 @ rest)" "q2 = (pre @ blanks @ d1) @ sep @ (d2 @ rest)"
    "q2 = (pre @ blanks @ d1 @ sep) @ d2 @ rest" "q2 = pre @ blanks @ d1 @ (sep @ d2 @ rest)"
    by (simp_all add: assms(7))
  have l: "length (pre @ blanks) = ?a" "length (pre @ blanks @ d1) = ?a + length d1"
    "length (pre @ blanks @ d1 @ sep) = ?a + length d1 + length sep" by (simp_all add: assms(6))
  have s1: "scan_while (\<lambda>i. isspace_at ?cs q2 i (length q2)) (length pre) (length q2) = ?a"
    using scan_blanks [OF q2(4) [unfolded assms(6)] assms(1)] .
  have s2: "scan_while (\<lambda>i. isnum_at ?cs q2 i (length q2)) ?a (length q2) = ?a + length d1"
    using scan_digits [OF q2(1) assms(1) r2] unfolding l by blast
  have s3: "scan_while (\<lambda>i. \<not> isnum_at ?cs q2 i (length q2)) (?a + length d1) (length q2) = ?a + length d1 + length sep"
    using scan_separator [OF q2(2) assms(3) h2] unfolding l by blast
  have s4: "scan_while (\<lambda>i. isnum_at ?cs q2 i (length q2)) (?a + length d1 + length sep) (length q2) = ?a + length d1 + length sep + length d2"
    using scan_digits [OF q2(3) assms(2,5)] unfolding l by blast
  have b: "digit_buf q2 ?a (?a + length d1) = Some (atoll_loop 0 d1)"
    "digit_buf q2 (?a + length d1 + length sep) (?a + length d1 + length sep + length d2) = Some (atoll_loop 0 d2)"
    using digit_buf_number [OF q2(1) assms(1)] digit_buf_number [OF q2(3) assms(2)] unfolding l by blast+
  have "?a + length d1 + length sep \<noteq> length q2" using ne by (simp add: assms(6,7))
  then show "get_limit_numbers ?cs q2 (length pre) (length q2) offs rows =
      Some (length (pre @ blanks @ d1 @ sep @ d2), of_nat (atoll_loop 0 d1), of_nat (atoll_loop 0 d2))"
    unfolding get_limit_numbers_def Let_def s1 s2 s3 s4 b using ne by (simp add: assms(6) add.assoc)
next
  let ?a = "length pre + k" and ?cs = "ctype_utf8mb4 pages"
  have r1: "sep = [] \<or> code (hd sep) < 128 \<and> \<not> isdigit_c (hd sep)" using sep_head [OF assms(3,4)] by simp
  have q1: "q1 = (pre @ blanks) @ d1 @ sep" "q1 = (pre @ blanks @ d1) @ sep @ []" "q1 = pre @ blanks @ d1 @ sep"
    by (simp_all add: assms(8))
  have l: "length (pre @ blanks) = ?a" "length (pre @ blanks @ d1) = ?a + length d1"
    "length (pre @ blanks @ d1 @ sep) = ?a + length d1 + length sep" by (simp_all add: assms(6))
  have s1: "scan_while (\<lambda>i. isspace_at ?cs q1 i (length q1)) (length pre) (length q1) = ?a"
    using scan_blanks [OF q1(3) [unfolded assms(6)] assms(1)] .
  have s2: "scan_while (\<lambda>i. isnum_at ?cs q1 i (length q1)) ?a (length q1) = ?a + length d1"
    using scan_digits [OF q1(1) assms(1) r1] unfolding l by blast
  have s3: "scan_while (\<lambda>i. \<not> isnum_at ?cs q1 i (length q1)) (?a + length d1) (length q1) = length q1"
  proof -
    have "?a + length d1 + length sep = length q1" by (simp add: assms(6,8))
    then show ?thesis using scan_separator [OF q1(2) assms(3)] unfolding l by simp
  qed
  have b: "digit_buf q1 ?a (?a + length d1) = Some (atoll_loop 0 d1)"
    using digit_buf_number [OF q1(1) assms(1)] unfolding l by blast
  show "get_limit_numbers ?cs q1 (length pre) (length q1) offs rows = Some (length q1, 0, of_nat (atoll_loop 0 d1))"
    using assms(1) by (simp add: get_limit_numbers_def Let_def s1 s2 s3 b number_def)
qed

theorem limit_numbers_witness:
  "get_limit_numbers (ctype_utf8mb4 (\<lambda>_. 0)) ''LIMIT 10 OFFSET 3;'' 5 18 0 0 = Some (17, 10, 3) \<and>
   get_limit_numbers (ctype_utf8mb4 (\<lambda>_. 0)) ''LIMIT 10 FOR UPDATE'' 5 19 0 0 = Some (19, 0, 10)"
proof -
  have n: "number ''10''" "number ''3''" by (simp_all add: number_def isdigit_c_def code_def)
  have s: "separator '' OFFSET ''" "separator '' FOR UPDATE''" by (simp_all add: separator_def isdigit_c_def code_def)
  have v: "atoll_loop 0 ''10'' = 10" "atoll_loop 0 ''3'' = 3" by (simp_all add: isdigit_c_def code_def)
  have r: "code (hd '';'') < 128 \<and> \<not> isdigit_c (hd '';'')" by (simp add: isdigit_c_def code_def)
  have e: "'' OFFSET '' \<noteq> []" "'' FOR UPDATE'' \<noteq> []" "'' '' = replicate 1 CHR '' ''" by simp_all
  have q: "''LIMIT 10 OFFSET 3;'' = ''LIMIT'' @ '' '' @ ''10'' @ '' OFFSET '' @ ''3'' @ '';''"
    "''LIMIT 10 FOR UPDATE'' = ''LIMIT'' @ '' '' @ ''10'' @ '' FOR UPDATE''" by simp_all
  have l: "length ''LIMIT'' = 5" "length ''LIMIT 10 OFFSET 3;'' = 18" "length ''LIMIT 10 FOR UPDATE'' = 19"
    "length (''LIMIT'' @ '' '' @ ''10'' @ '' OFFSET '' @ ''3'') = 17" by simp_all
  have o: "of_nat (atoll_loop 0 ''10'') = (10 :: u64)" "of_nat (atoll_loop 0 ''10'') = (10 :: u32)" "of_nat (atoll_loop 0 ''3'') = (3 :: u32)"
    unfolding v by simp_all
  show ?thesis
    using limit_numbers [OF n s(1) e(1) disjI2 [OF r] e(3) q(1) refl, of "\<lambda>_. 0" 0 0, unfolded l o]
      limit_numbers [OF n s(2) e(2) disjI2 [OF r] e(3) refl q(2), of "\<lambda>_. 0" 0 0, unfolded l o]
    by (intro conjI) (erule conjunct1, erule conjunct2)
qed

end
