(* ===== verification/Fetch_Scroll.thy ===== *)
theory Fetch_Scroll
  imports Fetch_Props Scroller_Props
begin

text \<open>Fetching through a scroller: the search for the window of a row.\<close>

section \<open>The search for a window\<close>

lemma sint_of_unat: "unat (w :: u64) < 2 ^ 63 \<Longrightarrow> sint w = int (unat w)"
proof -
  assume w: "unat w < 2 ^ 63"
  define n where "n = unat w"
  have u: "uint w = int n" by (simp add: n_def)
  have "signed_take_bit 63 (int n) = int n"
    using w by (intro signed_take_bit_int_eq_self) (simp_all add: n_def [symmetric])
  then have "sint w = int n" by (simp add: sint_uint u del: uint_nat)
  then show "sint w = int (unat w)" by (simp only: n_def)
qed

lemma window_of_text: "laid_out sc pre (padded_number 20 off) cnt post \<Longrightarrow> window_of sc = (off, cnt)"
  by (rule laid_out_window)

text \<open>C32: the loop of \<open>compute_cur_row\<close> that moves the scroller on until its next offset has reached the row ends, wherever the
  window has rows and no offset reaches \<open>2 ^ 63\<close>: it moves by whole windows, at least by one, by no more than are needed, and the
  text of the query then names the last window it moved over.\<close>

theorem scroller_skip_ends:
  assumes "laid_out sc pre g cnt post" "0 < row_count sc" "int (unat (next_offset sc)) + int (unat (row_count sc)) < 2 ^ 63"
    "cur + int (unat (row_count sc)) < 2 ^ 63"
  shows "\<exists>k sc1. scroller_skip cur sc = Some (int (unat (next_offset sc)) + (int k + 1) * int (unat (row_count sc)), sc1) \<and>
    cur \<le> int (unat (next_offset sc)) + (int k + 1) * int (unat (row_count sc)) \<and>
    (0 < k \<longrightarrow> int (unat (next_offset sc)) + int k * int (unat (row_count sc)) < cur) \<and>
    window_of sc1 = (unat (next_offset sc) + k * unat (row_count sc), cnt)"
  using assms
proof (induction "nat (cur - int (unat (next_offset sc)))" arbitrary: sc g rule: less_induct)
  case less
  let ?n = "unat (next_offset sc)" and ?c = "unat (row_count sc)"
  let ?next = "next_offset sc + ucast (row_count sc)"
  have c: "0 < ?c" using less.prems(2) by (simp add: word_less_nat_alt)
  obtain t where t: "scroller_move sc = Some (?next, sc\<lparr>sc_text := t, next_offset := ?next\<rparr>)"
    and lay: "laid_out (sc\<lparr>sc_text := t, next_offset := ?next\<rparr>) pre (padded_number 20 ?n) cnt post"
    using scroller_move_text [OF less.prems(1)] by blast
  let ?sc = "sc\<lparr>sc_text := t, next_offset := ?next\<rparr>"
  have un: "unat ?next = ?n + ?c" using less.prems(3) by (subst unat_add_u64) (simp_all add: unat_u32_u64 del: of_nat_unat flip: of_nat_add)
  have "int (?n + ?c) < int (2 ^ 63)" using less.prems(3) by (simp only: of_nat_add of_nat_power of_nat_numeral)
  then have sn: "sint ?next = int ?n + int ?c" using un sint_of_unat [of ?next] by (simp only: of_nat_less_iff of_nat_add)
  have step: "scroller_skip cur sc = (if cur > int ?n + int ?c then scroller_skip cur ?sc else Some (int ?n + int ?c, ?sc))"
    by (subst scroller_skip.simps) (simp add: t sn)
  show ?case
  proof (cases "cur > int ?n + int ?c")
    case False
    then show ?thesis using step window_of_text [OF lay] by (intro exI [of _ 0] exI [of _ ?sc]) simp
  next
    case True
    have "\<exists>k sc1. scroller_skip cur ?sc = Some (int (unat (next_offset ?sc)) + (int k + 1) * int (unat (row_count ?sc)), sc1) \<and>
        cur \<le> int (unat (next_offset ?sc)) + (int k + 1) * int (unat (row_count ?sc)) \<and>
        (0 < k \<longrightarrow> int (unat (next_offset ?sc)) + int k * int (unat (row_count ?sc)) < cur) \<and>
        window_of sc1 = (unat (next_offset ?sc) + k * unat (row_count ?sc), cnt)"
    proof (rule less.hyps [OF _ lay])
      have sel: "next_offset ?sc = ?next" "row_count ?sc = row_count sc" by simp_all
      have "0 < int ?c" using c by linarith
      then show "nat (cur - int (unat (next_offset ?sc))) < nat (cur - int ?n)"
        unfolding sel un of_nat_add using True by linarith
      show "0 < row_count ?sc" "cur + int (unat (row_count ?sc)) < 2 ^ 63" unfolding sel by (rule less.prems)+
      show "int (unat (next_offset ?sc)) + int (unat (row_count ?sc)) < 2 ^ 63"
        unfolding sel un of_nat_add using True less.prems(4) by linarith
    qed
    then obtain k sc1 where k: "scroller_skip cur ?sc = Some (int ?n + int ?c + (int k + 1) * int ?c, sc1)"
        "cur \<le> int ?n + int ?c + (int k + 1) * int ?c" "0 < k \<longrightarrow> int ?n + int ?c + int k * int ?c < cur"
        "window_of sc1 = (?n + ?c + k * ?c, cnt)"
      by (auto simp: un)
    have e: "int ?n + int ?c + (int k + 1) * int ?c = int ?n + (int (Suc k) + 1) * int ?c"
      "int ?n + int ?c + int k * int ?c = int ?n + int (Suc k) * int ?c" "?n + ?c + k * ?c = ?n + Suc k * ?c"
      by (simp_all add: algebra_simps)
    have "int ?n + int (Suc k) * int ?c < cur"
      using k(3) True unfolding e(2) [symmetric] by (cases "0 < k") auto
    then show ?thesis using step True k unfolding e by (intro exI [of _ "Suc k"] exI [of _ sc1]) (simp only: if_True simp_thms)
  qed
qed

text \<open>A window without rows: the loop has no result.\<close>

lemma scroller_skip_passes: "scroller_skip cur sc = Some r \<Longrightarrow> row_count sc = 0 \<Longrightarrow> cur \<le> sint (next_offset sc)"
proof -
  assume r: "scroller_skip cur sc = Some r" and z: "row_count sc = 0"
  have "row_count sc = 0 \<longrightarrow> cur \<le> sint (next_offset sc)"
  proof (rule scroller_skip.raw_induct [OF _ r])
    fix f cur and sc :: scroller and r
    assume IH: "\<And>cur sc r. f cur sc = Some r \<Longrightarrow> row_count sc = 0 \<longrightarrow> cur \<le> sint (next_offset sc)"
      and body: "Option.bind (scroller_move sc) (\<lambda>(next, sc1). if sint next < cur then f cur sc1 else Some (sint next, sc1)) = Some r"
    obtain nx sc1 where m: "scroller_move sc = Some (nx, sc1)" and r: "(if sint nx < cur then f cur sc1 else Some (sint nx, sc1)) = Some r"
      using body by (auto simp: bind_eq_Some_conv)
    have "row_count sc = 0 \<Longrightarrow> nx = next_offset sc \<and> next_offset sc1 = nx \<and> row_count sc1 = 0"
      using m by (auto simp: scroller_move_def Let_def bind_eq_Some_conv)
    then show "row_count sc = 0 \<longrightarrow> cur \<le> sint (next_offset sc)"
      using r IH [of cur sc1 r] by (auto split: if_splits)
  qed
  with z show ?thesis by simp
qed

text \<open>When the window has no rows (the clause is \<open>LIMIT 0\<close>), a row behind its end is never reached: the loop does not end,
  and neither does a fetch that asks for such a row.\<close>

theorem empty_window_hangs:
  assumes "scroller_exists (f_scroller st)" "row_count (f_scroller st) = 0" "sint (next_offset (f_scroller st)) < t"
    "target_row (int (num_rows S st)) (f_current_row st) (int (f_rows_found st)) (int (f_array_size st)) ty irow = Some t"
    "int (num_rows S st) < t"
  shows "compute_cur_row S ty irow st = None"
proof -
  have "scroller_skip t (f_scroller st) = None"
  proof (rule ccontr)
    assume "scroller_skip t (f_scroller st) \<noteq> None"
    then obtain r where "scroller_skip t (f_scroller st) = Some r" by blast
    from scroller_skip_passes [OF this assms(2)] assms(3) show False by linarith
  qed
  then show ?thesis using assms by (simp add: compute_cur_row_def beyond_rows_def)
qed

definition sample_scroller :: scroller where
  "sample_scroller =
     \<lparr>sc_text = ''q LIMIT '' @ replicate 20 CHR '' '' @ '','' @ padded_number 10 5 @ '' x'', sc_query_len = 41, offset_pos = 8,
      row_count = 5, start_offset = 0, next_offset = 5, total_rows = 100\<rparr>"

theorem scroller_skip_ends_witness:
  "\<exists>sc1. scroller_skip 12 sample_scroller = Some (15, sc1) \<and> window_of sc1 = (10, 5)"
proof -
  have l: "laid_out sample_scroller ''q'' (replicate 20 CHR '' '') 5 '' x''" by (simp add: laid_out_def sample_scroller_def)
  have n: "unat (next_offset sample_scroller) = 5" "unat (row_count sample_scroller) = 5" "0 < row_count sample_scroller"
    by (simp_all add: sample_scroller_def)
  obtain k sc1 where k: "scroller_skip 12 sample_scroller = Some (int 5 + (int k + 1) * int 5, sc1)"
      "12 \<le> int 5 + (int k + 1) * int 5" "0 < k \<longrightarrow> int 5 + int k * int 5 < 12" "window_of sc1 = (5 + k * 5, 5)"
    using scroller_skip_ends [OF l n(3), of 12] unfolding n by auto
  have "k = 1" using k(2,3) by (cases "0 < k") auto
  with k show ?thesis by auto
qed

end
