(* ===== verification/DataSource.thy ===== *)
theory DataSource
  imports WString
begin

unbundle bit_operations_syntax

text \<open>
  Data sources (\<^verbatim>\<open>util/installer.cc\<close>, \<^verbatim>\<open>util/installer.h\<close>): the options of a connection, the connection string they are
  read from and written to, and the numeric option. An option is named by its C++ identifier; the names in a
  connection string are the keys of \<open>opt_map\<close> (\<open>m_opt_map\<close>, in the order of the keys, with the aliases). The build
  is one without \<open>MFA_ENABLED\<close>.

  A connection string is the memory from the pointer on, its terminators included; a read or a store outside
  memory, a C++ exception and a loop that does not end are \<open>None\<close>.
\<close>

section \<open>Options\<close>

definition W :: "string \<Rightarrow> u16 list" where
  "W s = map (\<lambda>c. of_nat (code c)) s"

datatype opt_type = OT_STRING | OT_INT | OT_BOOL

text \<open>
  The value of a string option is \<open>None\<close> for a null string, else the wide string with its UTF-8 bytes.
\<close>

datatype opt_value = Str_val "(u16 list \<times> u8 list) option" | Int_val "32 word" | Bool_val bool

record opt =
  o_value :: opt_value
  o_set :: bool
  o_default :: bool

definition get_type :: "opt \<Rightarrow> opt_type" where
  "get_type v = (case o_value v of Str_val _ \<Rightarrow> OT_STRING | Int_val _ \<Rightarrow> OT_INT | Bool_val _ \<Rightarrow> OT_BOOL)"

type_synonym data_source = "string \<Rightarrow> opt"

definition STR_OPTIONS_LIST :: "string list" where
  "STR_OPTIONS_LIST =
     [''DSN'', ''DRIVER'', ''DESCRIPTION'', ''SERVER'', ''UID'', ''PWD'', ''DATABASE'', ''SOCKET'',
      ''INITSTMT'', ''CHARSET'', ''SSL_KEY'', ''SSL_CERT'', ''SSL_CA'', ''SSL_CAPATH'', ''SSL_CIPHER'',
      ''SSL_MODE'', ''RSAKEY'', ''SAVEFILE'', ''PLUGIN_DIR'', ''DEFAULT_AUTH'', ''LOAD_DATA_LOCAL_DIR'',
      ''OCI_CONFIG_FILE'', ''OCI_CONFIG_PROFILE'', ''AUTHENTICATION_KERBEROS_MODE'', ''TLS_VERSIONS'',
      ''SSL_CRL'', ''SSL_CRLPATH'', ''SSLVERIFY'', ''OPENTELEMETRY'', ''OPENID_TOKEN_FILE'']"

definition INT_OPTIONS_LIST :: "string list" where
  "INT_OPTIONS_LIST =
     [''PORT'', ''READTIMEOUT'', ''WRITETIMEOUT'', ''CLIENT_INTERACTIVE'', ''PREFETCH'',
      ''WEBAUTHN_DEVICE_NUMBER'']"

definition BOOL_OPTIONS_LIST :: "string list" where
  "BOOL_OPTIONS_LIST =
     [''FOUND_ROWS'', ''BIG_PACKETS'', ''COMPRESSED_PROTO'', ''NO_BIGINT'', ''SAFE'', ''AUTO_RECONNECT'',
      ''AUTO_IS_NULL'', ''NO_BINARY_RESULT'', ''CAN_HANDLE_EXP_PWD'', ''ENABLE_CLEARTEXT_PLUGIN'',
      ''GET_SERVER_PUBLIC_KEY'', ''NO_PROMPT'', ''DYNAMIC_CURSOR'', ''NO_DEFAULT_CURSOR'', ''NO_LOCALE'',
      ''PAD_SPACE'', ''NO_CACHE'', ''FULL_COLUMN_NAMES'', ''IGNORE_SPACE'', ''NAMED_PIPE'', ''NO_CATALOG'',
      ''NO_SCHEMA'', ''USE_MYCNF'', ''NO_TRANSACTIONS'', ''FORWARD_CURSOR'', ''MULTI_STATEMENTS'',
      ''COLUMN_SIZE_S32'', ''MIN_DATE_TO_ZERO'', ''ZERO_DATE_TO_MIN'', ''DFLT_BIGINT_BIND_STR'',
      ''LOG_QUERY'', ''NO_SSPS'', ''NO_TLS_1_2'', ''NO_TLS_1_3'', ''NO_DATE_OVERFLOW'',
      ''ENABLE_LOCAL_INFILE'', ''ENABLE_DNS_SRV'', ''MULTI_HOST'']"

definition opt_map :: "(string \<times> string) list" where
  "opt_map =
     [(''AUTHENTICATION-KERBEROS-MODE'', ''AUTHENTICATION_KERBEROS_MODE''),
      (''AUTO_IS_NULL'', ''AUTO_IS_NULL''), (''AUTO_RECONNECT'', ''AUTO_RECONNECT''),
      (''BIG_PACKETS'', ''BIG_PACKETS''), (''CAN_HANDLE_EXP_PWD'', ''CAN_HANDLE_EXP_PWD''),
      (''CHARSET'', ''CHARSET''), (''COLUMN_SIZE_S32'', ''COLUMN_SIZE_S32''),
      (''COMPRESSED_PROTO'', ''COMPRESSED_PROTO''), (''DATABASE'', ''DATABASE''), (''DB'', ''DATABASE''),
      (''DEFAULT_AUTH'', ''DEFAULT_AUTH''), (''DESCRIPTION'', ''DESCRIPTION''),
      (''DFLT_BIGINT_BIND_STR'', ''DFLT_BIGINT_BIND_STR''), (''DRIVER'', ''DRIVER''), (''DSN'', ''DSN''),
      (''DYNAMIC_CURSOR'', ''DYNAMIC_CURSOR''), (''ENABLE_CLEARTEXT_PLUGIN'', ''ENABLE_CLEARTEXT_PLUGIN''),
      (''ENABLE_DNS_SRV'', ''ENABLE_DNS_SRV''), (''ENABLE_LOCAL_INFILE'', ''ENABLE_LOCAL_INFILE''),
      (''FORWARD_CURSOR'', ''FORWARD_CURSOR''), (''FOUND_ROWS'', ''FOUND_ROWS''),
      (''FULL_COLUMN_NAMES'', ''FULL_COLUMN_NAMES''), (''GET_SERVER_PUBLIC_KEY'', ''GET_SERVER_PUBLIC_KEY''),
      (''IGNORE_SPACE'', ''IGNORE_SPACE''), (''INITSTMT'', ''INITSTMT''),
      (''INTERACTIVE'', ''CLIENT_INTERACTIVE''), (''LOAD_DATA_LOCAL_DIR'', ''LOAD_DATA_LOCAL_DIR''),
      (''LOG_QUERY'', ''LOG_QUERY''), (''MIN_DATE_TO_ZERO'', ''MIN_DATE_TO_ZERO''),
      (''MULTI_HOST'', ''MULTI_HOST''), (''MULTI_STATEMENTS'', ''MULTI_STATEMENTS''),
      (''NAMED_PIPE'', ''NAMED_PIPE''), (''NO_BIGINT'', ''NO_BIGINT''),
      (''NO_BINARY_RESULT'', ''NO_BINARY_RESULT''), (''NO_CACHE'', ''NO_CACHE''),
      (''NO_CATALOG'', ''NO_CATALOG''), (''NO_DATE_OVERFLOW'', ''NO_DATE_OVERFLOW''),
      (''NO_DEFAULT_CURSOR'', ''NO_DEFAULT_CURSOR''), (''NO_LOCALE'', ''NO_LOCALE''),
      (''NO_PROMPT'', ''NO_PROMPT''), (''NO_SCHEMA'', ''NO_SCHEMA''), (''NO_SSPS'', ''NO_SSPS''),
      (''NO_TLS_1_2'', ''NO_TLS_1_2''), (''NO_TLS_1_3'', ''NO_TLS_1_3''),
      (''NO_TRANSACTIONS'', ''NO_TRANSACTIONS''), (''OCI_CONFIG_FILE'', ''OCI_CONFIG_FILE''),
      (''OCI_CONFIG_PROFILE'', ''OCI_CONFIG_PROFILE''), (''OPENID-TOKEN-FILE'', ''OPENID_TOKEN_FILE''),
      (''OPENTELEMETRY'', ''OPENTELEMETRY''), (''PAD_SPACE'', ''PAD_SPACE''), (''PASSWORD'', ''PWD''),
      (''PLUGIN_DIR'', ''PLUGIN_DIR''), (''PORT'', ''PORT''), (''PREFETCH'', ''PREFETCH''),
      (''PWD'', ''PWD''), (''READTIMEOUT'', ''READTIMEOUT''), (''RSAKEY'', ''RSAKEY''), (''SAFE'', ''SAFE''),
      (''SAVEFILE'', ''SAVEFILE''), (''SERVER'', ''SERVER''), (''SOCKET'', ''SOCKET''),
      (''SSL-CA'', ''SSL_CA''), (''SSL-CAPATH'', ''SSL_CAPATH''), (''SSL-CERT'', ''SSL_CERT''),
      (''SSL-CIPHER'', ''SSL_CIPHER''), (''SSL-CRL'', ''SSL_CRL''), (''SSL-CRLPATH'', ''SSL_CRLPATH''),
      (''SSL-KEY'', ''SSL_KEY''), (''SSL-MODE'', ''SSL_MODE''), (''SSLCA'', ''SSL_CA''),
      (''SSLCAPATH'', ''SSL_CAPATH''), (''SSLCERT'', ''SSL_CERT''), (''SSLCIPHER'', ''SSL_CIPHER''),
      (''SSLKEY'', ''SSL_KEY''), (''SSLMODE'', ''SSL_MODE''), (''SSLVERIFY'', ''SSLVERIFY''),
      (''TLS-VERSIONS'', ''TLS_VERSIONS''), (''UID'', ''UID''), (''USER'', ''UID''),
      (''USE_MYCNF'', ''USE_MYCNF''), (''WEBAUTHN_DEVICE_NUMBER'', ''WEBAUTHN_DEVICE_NUMBER''),
      (''WRITETIMEOUT'', ''WRITETIMEOUT''), (''ZERO_DATE_TO_MIN'', ''ZERO_DATE_TO_MIN'')]"

definition FLAGS :: "(string \<times> nat) list" where
  "FLAGS =
     [(''FOUND_ROWS'', 0x2), (''BIG_PACKETS'', 0x8), (''NO_PROMPT'', 0x10), (''DYNAMIC_CURSOR'', 0x20),
      (''NO_DEFAULT_CURSOR'', 0x80), (''NO_LOCALE'', 0x100), (''PAD_SPACE'', 0x200),
      (''FULL_COLUMN_NAMES'', 0x400), (''COMPRESSED_PROTO'', 0x800), (''IGNORE_SPACE'', 0x1000),
      (''NAMED_PIPE'', 0x2000), (''NO_BIGINT'', 0x4000), (''NO_CATALOG'', 0x8000), (''USE_MYCNF'', 0x10000),
      (''SAFE'', 0x20000), (''NO_TRANSACTIONS'', 0x40000), (''LOG_QUERY'', 0x80000),
      (''NO_CACHE'', 0x100000), (''FORWARD_CURSOR'', 0x200000), (''AUTO_RECONNECT'', 0x400000),
      (''AUTO_IS_NULL'', 0x800000), (''ZERO_DATE_TO_MIN'', 0x1000000), (''MIN_DATE_TO_ZERO'', 0x2000000),
      (''MULTI_STATEMENTS'', 0x4000000), (''COLUMN_SIZE_S32'', 0x8000000),
      (''NO_BINARY_RESULT'', 0x10000000), (''DFLT_BIGINT_BIND_STR'', 0x20000000)]"

text \<open>\<open>optionStr::set\<close>, \<open>set_default\<close>, \<open>set_null\<close>.\<close>

definition optionStr_set :: "u16 list \<Rightarrow> opt option" where
  "optionStr_set val =
     map_option (\<lambda>(converted, _). \<lparr>o_value = Str_val (Some (val, converted)), o_set = True, o_default = False\<rparr>)
       (sqlwchar_as_utf8_ext (Some (val @ [0])) (Some (int (length val))))"

definition default_opt :: "opt_value \<Rightarrow> opt" where
  "default_opt v = \<lparr>o_value = v, o_set = True, o_default = True\<rparr>"

definition set_opt :: "opt_value \<Rightarrow> opt" where
  "set_opt v = \<lparr>o_value = v, o_set = True, o_default = False\<rparr>"

text \<open>The assignment of a wide string to an option of any type.\<close>

definition assign :: "u16 list \<Rightarrow> opt \<Rightarrow> opt option" where
  "assign val v =
     (case get_type v of
        OT_STRING \<Rightarrow> optionStr_set val
      | OT_INT \<Rightarrow> Some (set_opt (Int_val (ucast (sqlwchartoul (Some val)))))
      | OT_BOOL \<Rightarrow> Some (set_opt (Bool_val (sqlwchartoul (Some val) \<noteq> 0))))"

text \<open>\<open>operator SQLWSTRING\<close>; an option that is not set and a null string throw.\<close>

definition opt_wstring :: "opt \<Rightarrow> u16 list option" where
  "opt_wstring v =
     (case o_value v of
        Str_val s \<Rightarrow> map_option fst s
      | Int_val i \<Rightarrow> if o_set v then map_option (\<lambda>buf. take (wcslen buf) buf) (sqlwcharfromul (replicate 64 0) (scast i)) else None
      | Bool_val b \<Rightarrow> if o_set v then map_option (\<lambda>buf. take (wcslen buf) buf) (sqlwcharfromul (replicate 64 0) (of_bool b)) else None)"

text \<open>\<open>operator bool\<close> of an \<open>optionBool\<close>.\<close>

definition opt_bool :: "opt \<Rightarrow> bool option" where
  "opt_bool v = (if o_set v then case o_value v of Bool_val b \<Rightarrow> Some b | _ \<Rightarrow> None else None)"

text \<open>
  \<open>optionStr::set_remove_brackets\<close> on the \<open>len\<close> units at a pointer: the units without the second of two closing brackets are
  collected in 1024 cells, and as many as there were before are converted to UTF-8.
\<close>

definition set_remove_brackets :: "u16 list \<Rightarrow> nat \<Rightarrow> opt option" where
  "set_remove_brackets val_char len =
     (let val_str = take len val_char; out = unescape_brackets val_str in
      if 1024 \<le> length out then None
      else
        let wstr = take (wcslen out) out in
        map_option (\<lambda>(result, _). set_opt (Str_val (Some (wstr, result))))
          (sqlwchar_as_utf8_ext (Some (wstr @ [0])) (Some (int (length val_str)))))"

section \<open>The data source\<close>

definition reset_ds :: "data_source \<Rightarrow> data_source" where
  "reset_ds ds =
     (let ds1 = (\<lambda>n. if n \<in> set STR_OPTIONS_LIST then default_opt (Str_val None)
                    else if n \<in> set INT_OPTIONS_LIST then default_opt (Int_val 0)
                    else if n \<in> set BOOL_OPTIONS_LIST then default_opt (Bool_val False) else ds n)
      in ds1(''PORT'' := default_opt (Int_val 6001), ''NO_SCHEMA'' := set_opt (Bool_val True)))"

text \<open>The options of a new data source are those after \<open>reset\<close>.\<close>

definition new_data_source :: data_source where
  "new_data_source = reset_ds (\<lambda>_. \<lparr>o_value = Bool_val False, o_set = False, o_default = False\<rparr>)"

text \<open>\<open>toupper\<close> of the C locale.\<close>

definition wtoupper :: "u16 \<Rightarrow> u16" where
  "wtoupper c = (if 97 \<le> c \<and> c \<le> 122 then c - 32 else c)"

definition get_opt :: "u16 list \<Rightarrow> string option" where
  "get_opt name =
     (let wname = map wtoupper name in map_option snd (find (\<lambda>(k, _). W k = wname) opt_map))"

definition set_val :: "u16 list \<Rightarrow> u16 list \<Rightarrow> data_source \<Rightarrow> data_source option" where
  "set_val name val ds =
     (case get_opt name of
        None \<Rightarrow> Some ds
      | Some n \<Rightarrow> map_option (\<lambda>v. ds(n := v)) (assign val (ds n)))"

definition set_numeric_options :: "u64 \<Rightarrow> data_source \<Rightarrow> data_source" where
  "set_numeric_options options ds =
     fold (\<lambda>(n, flag) d. d(n := set_opt (Bool_val (options AND of_nat flag \<noteq> 0)))) FLAGS ds"

definition get_numeric_options :: "data_source \<Rightarrow> u64 option" where
  "get_numeric_options ds =
     fold (\<lambda>(n, flag) acc. Option.bind acc (\<lambda>options.
       map_option (\<lambda>b. if b then options OR of_nat flag else options) (opt_bool (ds n)))) FLAGS (Some 0)"

section \<open>Reading a connection string\<close>

text \<open>The closing bracket of a value: the first that is not doubled, sought from \<open>wstr\<close> on.\<close>

function find_bracket_end :: "u16 list \<Rightarrow> nat \<Rightarrow> nat option" where
  "find_bracket_end wstr e0 =
     (case sqlwcharchr (drop e0 wstr) 125 of
        None \<Rightarrow> None
      | Some k \<Rightarrow>
          let e = e0 + k in
          if wtop (drop (Suc e) wstr) = 125 then
            if wtop (drop (e + 2) wstr) \<noteq> 0 then find_bracket_end wstr (e + 2) else Some (e + 2)
          else Some e)"
  by pat_completeness auto
termination
proof (relation "measure (\<lambda>(wstr, e0). length wstr - e0)")
  fix wstr :: "u16 list" and e0 k e
  assume "e = e0 + k" "wtop (drop (e + 2) wstr) \<noteq> 0"
  then have "drop (e + 2) wstr \<noteq> []" by (auto simp: wtop_def)
  then show "((wstr, e + 2), wstr, e0) \<in> measure (\<lambda>(wstr, e0). length wstr - e0)"
    using \<open>e = e0 + k\<close> by simp
qed simp

declare find_bracket_end.simps [simp del]

text \<open>Trailing blanks before \<open>end\<close>, down to \<open>split\<close>; both are offsets into \<open>str\<close>.\<close>

fun trim_value :: "u16 list \<Rightarrow> nat \<Rightarrow> nat \<Rightarrow> nat" where
  "trim_value str split 0 = 0"
| "trim_value str split (Suc e) =
     (if split < Suc e \<and> str ! e = 32 \<and> str ! Suc e \<noteq> 125 then trim_value str split e else Suc e)"

text \<open>
  The option a key names gets its value; the result has the position where the search for the next pair
  begins. The value of a string option never ends before it starts (\<open>e < split\<close>): the end that was found would be a
  delimiter or a closing bracket inside the key, and no option has such a name.
\<close>

definition set_pair :: "u16 list \<Rightarrow> u16 list \<Rightarrow> nat \<Rightarrow> nat \<Rightarrow> data_source \<Rightarrow> (nat \<times> data_source) option" where
  "set_pair attribute str split e ds =
     (if sqlwcharcasecmp (W ''OPTION'') attribute = 0 then
        Some (e, set_numeric_options (sqlwchartoul (Some (drop split str))) ds)
      else
        case get_opt attribute of
          None \<Rightarrow> Some (e, ds)
        | Some n \<Rightarrow>
            if get_type (ds n) = OT_STRING then
              if e < split then None
              else if wtop (drop split str) = 123 \<and> wtop (drop e str) = 125 then
                map_option (\<lambda>v. (Suc e, ds(n := v))) (set_remove_brackets (drop (Suc split) str) (e - split - 1))
              else map_option (\<lambda>v. (e, ds(n := v))) (set_remove_brackets (drop split str) (e - split))
            else
              map_option (\<lambda>v. (e, ds(n := v))) (assign (take (wcslen (drop split str)) (drop split str)) (ds n)))"

text \<open>
  One pair at \<open>str\<close>: the position behind it, or the return code 1. Leading blanks of the key are skipped first, so that
  offsets count from the key on.
\<close>

definition read_pair :: "u16 list \<Rightarrow> u16 \<Rightarrow> data_source \<Rightarrow> (int + nat \<times> u16 list \<times> data_source) option" where
  "read_pair str0 delim ds =
     (case sqlwcharchr str0 61 of
        None \<Rightarrow> Some (Inl 1)
      | Some split0 \<Rightarrow>
          let str = dropWhile (\<lambda>c. c = 32) str0; len = split0 - (length str0 - length str) in
          if 1000 \<le> len then Some (Inl 1)
          else if len = 0 then None
          else
            let attribute = rev (dropWhile (\<lambda>c. c = 32) (rev (take len str)));
                split = Suc len + length (takeWhile (\<lambda>c. c = 32) (drop (Suc len) str));
                found = (if wtop (drop split str) = 123 then find_bracket_end str 0 else sqlwcharchr str delim);
                e = (case found of None \<Rightarrow> wcslen str | Some e \<Rightarrow> e)
            in map_option (\<lambda>(k, ds1). Inr (k, str, ds1)) (set_pair attribute str split (trim_value str split e) ds))"

text \<open>Delimiters and blanks between pairs; with the delimiter 0 the list ends with two of them.\<close>

fun skip_delims :: "u16 \<Rightarrow> u16 list \<Rightarrow> u16 list option" where
  "skip_delims delim [] = None"
| "skip_delims delim (c # cs) =
     (if delim \<noteq> 0 \<and> c = delim \<or> c = 32 then skip_delims delim cs
      else if delim = 0 \<and> c = 0 then
        (case cs of [] \<Rightarrow> None | d # _ \<Rightarrow> if d \<noteq> 0 then skip_delims delim cs else Some (c # cs))
      else Some (c # cs))"

partial_function (option) from_kvpair :: "u16 list \<Rightarrow> u16 \<Rightarrow> data_source \<Rightarrow> (int \<times> data_source) option" where
  "from_kvpair str delim ds =
     (if 0 \<notin> set str then None
      else if wtop str = 0 then Some (0, ds)
      else Option.bind (read_pair str delim ds) (\<lambda>r. case r of
        Inl rc \<Rightarrow> Some (rc, ds)
      | Inr (k, str1, ds1) \<Rightarrow> Option.bind (skip_delims delim (drop k str1)) (\<lambda>str2. from_kvpair str2 delim ds1)))"

section \<open>Writing a connection string\<close>

definition value_needs_escaped :: "u16 list \<Rightarrow> bool" where
  "value_needs_escaped s =
     list_ex (\<lambda>c. \<not> (48 \<le> c \<and> c \<le> 57 \<or> 97 \<le> c \<and> c \<le> 122 \<or> 65 \<le> c \<and> c \<le> 90 \<or> c = 95 \<or> c = 32 \<or> c = 46))
       (take (wcslen s) s)"

definition kv_item :: "u16 \<Rightarrow> bool \<Rightarrow> string \<Rightarrow> opt \<Rightarrow> u16 list option" where
  "kv_item delim name_is_set k v =
     (if \<not> o_set v \<or> o_default v \<or> (name_is_set \<and> sqlwcharcasecmp (W ''DRIVER'') (W k) = 0) then Some []
      else
        map_option (\<lambda>val.
          let do_escape = (get_type v = OT_STRING \<and> value_needs_escaped val) in
          W k @ [61] @ (if do_escape then [123] else []) @ escape_brackets val False @ (if do_escape then [125] else []) @ [delim])
          (opt_wstring v))"

definition to_kvpair :: "u16 \<Rightarrow> data_source \<Rightarrow> u16 list option" where
  "to_kvpair delim ds =
     (let name_is_set = \<not> o_default (ds ''DSN'') in
      fold (\<lambda>(k, n) attrs. Option.bind attrs (\<lambda>a. map_option (\<lambda>item. a @ item) (kv_item delim name_is_set k (ds n))))
        opt_map (Some []))"

end
