(* ===== verification/DataSource_Props.thy ===== *)
theory DataSource_Props
  imports DataSource
begin

unbundle bit_operations_syntax

text \<open>
  What a connection string keeps of a data source, and which connection strings the reader does not survive.
\<close>

section \<open>The keys\<close>

lemma keys_distinct: "distinct (map fst opt_map)"
  by code_simp

definition key_char :: "char \<Rightarrow> bool" where
  "key_char c \<longleftrightarrow> 65 \<le> code c \<and> code c \<le> 90 \<or> 48 \<le> code c \<and> code c \<le> 57 \<or> code c = 95 \<or> code c = 45"

lemma keys_chars: "list_all (\<lambda>(k, n). k \<noteq> [] \<and> length k < 100 \<and> list_all key_char k) opt_map"
  by code_simp

lemma key_not_option: "(k, n) \<in> set opt_map \<Longrightarrow> k \<noteq> ''OPTION''"
  by (auto simp: opt_map_def)

definition key_unit :: "u16 \<Rightarrow> bool" where
  "key_unit u \<longleftrightarrow> 65 \<le> u \<and> u \<le> 90 \<or> 48 \<le> u \<and> u \<le> 57 \<or> u = 95 \<or> u = 45"

lemma code_unit: "unat (of_nat (code c) :: u16) = code c"
proof -
  have "code c < 256" by (simp add: code_def)
  then show ?thesis by (simp add: unsigned_of_nat take_bit_nat_eq_self)
qed

lemma key_char_unit: "key_char c \<Longrightarrow> key_unit (of_nat (code c))"
proof -
  have "(of_nat (code c) :: u16) = w \<longleftrightarrow> code c = unat w" for w by (metis code_unit word_unat_eq_iff)
  then show "key_char c \<Longrightarrow> key_unit (of_nat (code c))"
    by (auto simp: key_char_def key_unit_def word_le_nat_alt code_unit)
qed

lemma W_inj [simp]: "W s = W t \<longleftrightarrow> s = t"
proof -
  have "inj (\<lambda>c. of_nat (code c) :: u16)"
  proof (rule injI)
    fix c d assume "(of_nat (code c) :: u16) = of_nat (code d)"
    then have "code c = code d" by (metis code_unit)
    then show "c = d" by (simp add: code_def)
  qed
  then show ?thesis by (simp add: W_def inj_map_eq_map)
qed

lemma W_simps [simp]: "length (W s) = length s" "W s = [] \<longleftrightarrow> s = []"
  by (simp_all add: W_def)

text \<open>A key as it stands in a connection string.\<close>

definition key_text :: "u16 list \<Rightarrow> bool" where
  "key_text ks \<longleftrightarrow> ks \<noteq> [] \<and> length ks < 100 \<and> list_all key_unit ks"

lemma W_key: "(k, n) \<in> set opt_map \<Longrightarrow> key_text (W k)"
  using keys_chars by (auto simp: list_all_iff key_text_def W_def key_char_unit)

lemma key_unit_upper: "key_unit u \<Longrightarrow> wupper u = u" "key_unit u \<Longrightarrow> wtoupper u = u"
  by (auto simp: key_unit_def wupper_def wtoupper_def word_le_nat_alt)

lemma key_text_upper: "key_text ks \<Longrightarrow> map wupper ks = ks" "key_text ks \<Longrightarrow> map wtoupper ks = ks"
  by (auto simp: key_text_def list_all_iff key_unit_upper intro: map_idI)

lemma key_unit_not [simp]: "\<not> key_unit 0" "\<not> key_unit 32" "\<not> key_unit 59" "\<not> key_unit 61" "\<not> key_unit 123" "\<not> key_unit 125"
  by (simp_all add: key_unit_def)

lemma key_text_not: "key_text ks \<Longrightarrow> \<not> key_unit u \<Longrightarrow> u \<notin> set ks"
  by (auto simp: key_text_def list_all_iff)

lemma casecmp_same: "0 \<notin> set s \<Longrightarrow> 0 \<notin> set t \<Longrightarrow> sqlwcharcasecmp s t = 0 \<longleftrightarrow> map wupper s = map wupper t"
proof (induction s t rule: sqlwcharcasecmp.induct)
  case (1 s t)
  then show ?case by (cases s; cases t) (auto simp: sqlwcharcasecmp.simps wtop_def)
qed

lemma casecmp_key: "key_text (W s) \<Longrightarrow> key_text (W k) \<Longrightarrow> sqlwcharcasecmp (W s) (W k) = 0 \<longleftrightarrow> s = k"
  by (simp add: casecmp_same key_text_not key_text_upper)

lemma key_texts: "key_text (W ''OPTION'')" "key_text (W ''DRIVER'')"
  by (simp_all add: key_text_def key_unit_def code_def W_def)

lemma find_key: "distinct (map fst xs) \<Longrightarrow> (k, n) \<in> set xs \<Longrightarrow> find (\<lambda>(l, _). W l = W k) xs = Some (k, n)"
  by (induction xs) (auto simp: rev_image_eqI)

lemma get_opt_key: "(k, n) \<in> set opt_map \<Longrightarrow> get_opt (W k) = Some n"
  using find_key [OF keys_distinct] W_key key_text_upper(2) by (simp add: get_opt_def)

section \<open>The conversions\<close>

text \<open>No conversion reads past the terminator when it is asked for no more than the string and its terminator.\<close>

lemma as_utf8_total:
  "n \<le> length s \<Longrightarrow> s \<noteq> [] \<Longrightarrow> last s = 0 \<Longrightarrow> as_utf8_loop n s bs mb \<noteq> None"
proof (induction n s bs mb rule: as_utf8_loop.induct)
  case (1 n s bs mb)
  show ?case
  proof (cases "n = 0")
    case False
    obtain u rest where s: "s = u # rest" using "1.prems"(2) by (cases s) auto
    have "utf16toutf32 s \<noteq> None"
      using "1.prems"(3) by (auto simp: utf16toutf32_def Let_def s split: list.splits if_splits)
    then obtain c x where d: "utf16toutf32 s = Some (c, x)" by auto
    have "c \<le> length s" using d by (auto simp: utf16toutf32_def Let_def s split: list.splits if_splits)
    then have "drop c s \<noteq> [] \<longrightarrow> last (drop c s) = 0" "n - c \<le> length (drop c s)" "drop c s = [] \<longrightarrow> n - c = 0"
      using "1.prems" by (auto simp: last_drop)
    then show ?thesis
      using "1.IH" [OF False d refl] d False by (cases "drop c s = []") (auto simp: as_utf8_loop.simps [of n] as_utf8_loop.simps [of 0])
  qed (simp add: as_utf8_loop.simps)
qed

lemma as_utf8_ext_total: "n \<le> Suc (length w) \<Longrightarrow> \<exists>bs mb. sqlwchar_as_utf8_ext (Some (w @ [0])) (Some (int n)) = Some (bs, mb)"
proof -
  assume n: "n \<le> Suc (length w)"
  then obtain r where "as_utf8_loop n (w @ [0]) [] False = Some r"
    using as_utf8_total [of n "w @ [0]" "[]" False] by fastforce
  then have "sqlwchar_as_utf8_ext (Some (w @ [0])) (Some (int n)) = Some (if n = 0 then ([], False) else r)"
    by (simp add: sqlwchar_as_utf8_ext_def)
  then show ?thesis by (metis surj_pair)
qed

section \<open>Reading a value\<close>

lemma wtop_Cons [simp]: "wtop (c # s) = c"
  by (simp add: wtop_def)

lemma chr_app: "c \<notin> set k \<Longrightarrow> 0 \<notin> set k \<Longrightarrow> c \<noteq> 0 \<Longrightarrow> sqlwcharchr (k @ c # rest) c = Some (length k)"
  by (induction k) auto

lemma chr_skip: "c \<notin> set k \<Longrightarrow> 0 \<notin> set k \<Longrightarrow> sqlwcharchr (k @ s) c = map_option ((+) (length k)) (sqlwcharchr s c)"
proof (induction k)
  case Nil
  then show ?case by (cases "sqlwcharchr s c") simp_all
next
  case (Cons a k)
  then show ?case by (cases "sqlwcharchr s c") auto
qed

lemma find_bracket_skip:
  assumes "125 \<notin> set mid" "0 \<notin> set mid"
  shows "find_bracket_end (pre @ mid @ rest) (length pre) = find_bracket_end (pre @ mid @ rest) (length (pre @ mid))"
proof -
  let ?s = "pre @ mid @ rest"
  have "length pre + (length mid + k) = length (pre @ mid) + k" for k by simp
  moreover have "drop (length pre) ?s = mid @ rest" "drop (length (pre @ mid)) ?s = rest" by simp_all
  ultimately show ?thesis
    unfolding find_bracket_end.simps [of ?s "length pre"] find_bracket_end.simps [of ?s "length (pre @ mid)"]
    using chr_skip [OF assms, of rest] by (cases "sqlwcharchr rest 125") (simp_all only: option.map option.case)
qed

abbreviation escaped :: "u16 list \<Rightarrow> u16 list" where
  "escaped v \<equiv> concat (map (\<lambda>c. if c = 125 then [125, 125] else [c]) v)"

lemma find_bracket_escaped:
  "0 \<notin> set v \<Longrightarrow> d \<noteq> 125 \<Longrightarrow>
    find_bracket_end (pre @ escaped v @ 125 # d # rest) (length pre) = Some (length pre + length (escaped v))"
proof (induction v arbitrary: pre)
  case Nil
  then show ?case by (simp add: find_bracket_end.simps)
next
  case (Cons c v)
  show ?case
  proof (cases "c = 125")
    case False
    then have "find_bracket_end (pre @ [c] @ escaped v @ 125 # d # rest) (length pre) =
        find_bracket_end (pre @ [c] @ escaped v @ 125 # d # rest) (length (pre @ [c]))"
      using Cons.prems by (intro find_bracket_skip) auto
    then show ?thesis using Cons.IH [of "pre @ [c]"] Cons.prems False by simp
  next
    case True
    let ?s = "pre @ [125, 125] @ escaped v @ 125 # d # rest"
    have "find_bracket_end ?s (length pre) = find_bracket_end ?s (length (pre @ [125, 125]))"
    proof -
      have "wtop (escaped v @ 125 # d # rest) \<noteq> 0"
        using Cons.prems(1) by (cases v) auto
      then show ?thesis by (subst find_bracket_end.simps) (simp add: Let_def)
    qed
    then show ?thesis using Cons.IH [of "pre @ [125, 125]"] Cons.prems True by simp
  qed
qed

lemma trim_stop: "\<not> (split < e \<and> str ! (e - 1) = 32 \<and> str ! e \<noteq> 125) \<Longrightarrow> trim_value str split e = e"
  by (cases e) auto

lemma takeWhile_blank: "wtop s \<noteq> 32 \<Longrightarrow> takeWhile (\<lambda>c. c = 32) s = []"
  by (cases s) auto

text \<open>The key of a pair and the start of its value are found, whatever the value.\<close>

lemma read_pair_key:
  assumes "key_text ks" "wtop s \<noteq> 32"
  shows "read_pair (ks @ 61 # s) delim ds =
    map_option (\<lambda>(k, ds1). Inr (k, ks @ 61 # s, ds1))
      (set_pair ks (ks @ 61 # s) (Suc (length ks))
        (trim_value (ks @ 61 # s) (Suc (length ks))
          (case (if wtop s = 123 then find_bracket_end (ks @ 61 # s) 0 else sqlwcharchr (ks @ 61 # s) delim) of
             None \<Rightarrow> wcslen (ks @ 61 # s) | Some e \<Rightarrow> e)) ds)"
proof -
  have ks: "ks \<noteq> []" "length ks < 1000" "32 \<notin> set ks" "61 \<notin> set ks" "0 \<notin> set ks"
    using assms(1) key_text_not [OF assms(1)] by (auto simp: key_text_def)
  have ends: "hd ks \<noteq> 32" "last ks \<noteq> 32" using ks(1,3) by (metis hd_in_set, metis last_in_set)
  have d: "dropWhile (\<lambda>c. c = 32) (ks @ 61 # s) = ks @ 61 # s" "dropWhile (\<lambda>c. c = 32) (rev ks) = rev ks"
    using ks(1) ends by (auto simp: dropWhile_eq_self_iff hd_append hd_rev)
  have c: "sqlwcharchr (ks @ 61 # s) 61 = Some (length ks)" using ks by (intro chr_app) auto
  show ?thesis
    unfolding read_pair_def c option.case d Let_def
    using ks(1,2) takeWhile_blank [OF assms(2)] by (simp add: d)
qed

lemma chr_item: "key_text ks \<Longrightarrow> 59 \<notin> set body \<Longrightarrow> 0 \<notin> set body \<Longrightarrow>
    sqlwcharchr (ks @ 61 # body @ 59 # rest) 59 = Some (Suc (length ks) + length body)"
  using chr_app [of 59 "ks @ 61 # body" rest] key_text_not [of ks] by auto

lemma bracket_item:
  assumes "key_text ks" "0 \<notin> set v"
  shows "find_bracket_end (ks @ 61 # 123 # escaped v @ 125 # 59 # rest) 0 = Some (Suc (Suc (length ks)) + length (escaped v))"
proof -
  let ?k = "ks @ [61, 123]"
  have "find_bracket_end ([] @ ?k @ escaped v @ 125 # 59 # rest) (length ([] :: u16 list)) =
      find_bracket_end ([] @ ?k @ escaped v @ 125 # 59 # rest) (length ([] @ ?k))"
    using key_text_not [OF assms(1)] by (intro find_bracket_skip) auto
  then show ?thesis using find_bracket_escaped [OF assms(2), of 59 ?k rest] by simp
qed

lemma not_option_key: "key_text (W k) \<Longrightarrow> k \<noteq> ''OPTION'' \<Longrightarrow> sqlwcharcasecmp (W ''OPTION'') (W k) \<noteq> 0"
  by (simp add: casecmp_key key_texts)

section \<open>What is written is read\<close>

text \<open>Values that a connection string can carry.\<close>

definition storable :: "u16 list \<Rightarrow> bool" where
  "storable w \<longleftrightarrow> 0 \<notin> set w \<and> length w < 1024 \<and> count_list w 125 \<le> 1 \<and>
     (value_needs_escaped w \<or> w = [] \<or> hd w \<noteq> 32 \<and> last w \<noteq> 32)"

definition same_value :: "opt_value \<Rightarrow> opt_value \<Rightarrow> bool" where
  "same_value v1 v2 \<longleftrightarrow>
     (case (v1, v2) of
        (Str_val s1, Str_val s2) \<Rightarrow> map_option fst s1 = map_option fst s2
      | _ \<Rightarrow> v1 = v2)"

lemma wcslen_whole: "0 \<notin> set w \<Longrightarrow> wcslen w = length w"
  by (induction w) auto

lemma length_escaped: "length (escaped w) = length w + count_list w 125"
  by (induction w) auto

lemma set_remove_escaped:
  assumes "storable w"
  shows "\<exists>bs. set_remove_brackets (escaped w @ rest) (length (escaped w)) = Some (set_opt (Str_val (Some (w, bs))))"
proof -
  have w: "0 \<notin> set w" "length w < 1024" "length (escaped w) \<le> Suc (length w)"
    using assms by (simp_all add: storable_def length_escaped)
  obtain bs mb where "sqlwchar_as_utf8_ext (Some (w @ [0])) (Some (int (length (escaped w)))) = Some (bs, mb)"
    using as_utf8_ext_total [OF w(3)] by blast
  then show ?thesis using w by (intro exI [of _ bs]) (simp add: set_remove_brackets_def unescape_escape wcslen_whole)
qed

lemma escaped_plain: "125 \<notin> set w \<Longrightarrow> escaped w = w"
  by (induction w) auto

definition plain_unit :: "u16 \<Rightarrow> bool" where
  "plain_unit c \<longleftrightarrow> 48 \<le> c \<and> c \<le> 57 \<or> 97 \<le> c \<and> c \<le> 122 \<or> 65 \<le> c \<and> c \<le> 90 \<or> c = 95 \<or> c = 32 \<or> c = 46"

lemma not_escaped: "0 \<notin> set w \<Longrightarrow> \<not> value_needs_escaped w \<longleftrightarrow> list_all plain_unit w"
  by (simp add: value_needs_escaped_def wcslen_whole plain_unit_def list_ex_iff list_all_iff)

lemma plain_unit_not [simp]: "\<not> plain_unit 0" "\<not> plain_unit 59" "\<not> plain_unit 123" "\<not> plain_unit 125"
  by (simp_all add: plain_unit_def)

lemma skip_none: "s \<noteq> [] \<Longrightarrow> wtop s \<noteq> 32 \<Longrightarrow> wtop s \<noteq> 59 \<Longrightarrow> skip_delims 59 s = Some s"
  by (cases s) auto

lemma skip_one: "s \<noteq> [] \<Longrightarrow> wtop s \<noteq> 32 \<Longrightarrow> wtop s \<noteq> 59 \<Longrightarrow> skip_delims 59 (59 # s) = Some s"
  by (cases s) auto

text \<open>A string option, in brackets or not.\<close>

lemma read_string:
  assumes "(k, n) \<in> set opt_map" "storable w" "get_type (ds n) = OT_STRING"
    "body = (if value_needs_escaped w then 123 # escaped w @ [125] else escaped w)"
  shows "\<exists>e bs. read_pair (W k @ 61 # body @ 59 # rest) 59 ds =
      Some (Inr (e, W k @ 61 # body @ 59 # rest, ds(n := set_opt (Str_val (Some (w, bs)))))) \<and>
    drop e (W k @ 61 # body @ 59 # rest) = 59 # rest"
proof -
  let ?ks = "W k"
  have k: "key_text ?ks" "sqlwcharcasecmp (W ''OPTION'') ?ks \<noteq> 0" "get_opt ?ks = Some n"
    using W_key [OF assms(1)] not_option_key [OF W_key [OF assms(1)] key_not_option [OF assms(1)]] get_opt_key [OF assms(1)]
    by simp_all
  have w: "0 \<notin> set w" using assms(2) by (simp add: storable_def)
  show ?thesis
  proof (cases "value_needs_escaped w")
    case True
    let ?str = "?ks @ 61 # 123 # escaped w @ 125 # 59 # rest"
    let ?e = "Suc (Suc (length ?ks)) + length (escaped w)"
    have b: "body @ 59 # rest = 123 # escaped w @ 125 # 59 # rest" using True assms(4) by simp
    have e: "?str ! ?e = 125" "drop ?e ?str = 125 # 59 # rest" by (simp_all add: nth_append)
    have t: "trim_value ?str (Suc (length ?ks)) ?e = ?e" by (rule trim_stop) (simp only: e(1), simp)
    obtain bs where r: "set_remove_brackets (escaped w @ 125 # 59 # rest) (length (escaped w)) = Some (set_opt (Str_val (Some (w, bs))))"
      using set_remove_escaped [OF assms(2)] by blast
    have "set_pair ?ks ?str (Suc (length ?ks)) ?e ds = Some (Suc ?e, ds(n := set_opt (Str_val (Some (w, bs)))))"
      using k(2,3) assms(3) r by (simp add: set_pair_def)
    then have "read_pair (?ks @ 61 # 123 # escaped w @ 125 # 59 # rest) 59 ds =
        Some (Inr (Suc ?e, ?str, ds(n := set_opt (Str_val (Some (w, bs))))))"
      using read_pair_key [OF k(1), of "123 # escaped w @ 125 # 59 # rest" 59 ds] bracket_item [OF k(1) w, of rest] t by simp
    moreover have "drop (Suc ?e) ?str = tl (drop ?e ?str)" by (simp only: drop_Suc tl_drop)
    then have "drop (Suc ?e) ?str = 59 # rest" unfolding e(2) by simp
    ultimately show ?thesis unfolding b by blast
  next
    case False
    then have pl: "list_all plain_unit w" using w not_escaped by blast
    then have ne: "125 \<notin> set w" "59 \<notin> set w" "123 \<notin> set w" by (auto simp: list_all_iff)
    have b: "body = w" using False assms(4) escaped_plain [OF ne(1)] by simp
    let ?str = "?ks @ 61 # w @ 59 # rest"
    let ?e = "Suc (length ?ks) + length w"
    have ends: "w = [] \<or> hd w \<noteq> 32 \<and> last w \<noteq> 32" using assms(2) False by (simp add: storable_def)
    then have top: "wtop (w @ 59 # rest) \<noteq> 32" "wtop (w @ 59 # rest) \<noteq> 123" using ne(3) by (cases w; auto)+
    have t: "trim_value ?str (Suc (length ?ks)) ?e = ?e"
      using ends by (intro trim_stop) (auto simp: nth_append last_conv_nth)
    obtain bs where r: "set_remove_brackets (w @ 59 # rest) (length w) = Some (set_opt (Str_val (Some (w, bs))))"
      using set_remove_escaped [OF assms(2), of "59 # rest"] escaped_plain [OF ne(1)] by auto
    have "set_pair ?ks ?str (Suc (length ?ks)) ?e ds = Some (?e, ds(n := set_opt (Str_val (Some (w, bs)))))"
      using k(2,3) assms(3) r top(2) by (simp add: set_pair_def)
    then have "read_pair ?str 59 ds = Some (Inr (?e, ?str, ds(n := set_opt (Str_val (Some (w, bs))))))"
      using read_pair_key [OF k(1) top(1), of 59 ds] chr_item [OF k(1) ne(2) w, of rest] t top(2) by simp
    then show ?thesis unfolding b by (intro exI [of _ ?e] exI [of _ bs]) simp
  qed
qed

text \<open>A numeric option.\<close>

lemma wdigits_range: "u \<in> set (wdigits m) \<Longrightarrow> 48 \<le> u \<and> u \<le> 57"
proof (induction m rule: wdigits.induct)
  case (1 m)
  have "m mod 10 < 10" by simp
  note d = digit_unit [OF this]
  show ?case
  proof (cases "m > 0")
    case True
    then have "u \<in> set (wdigits (m div 10)) \<or> u = 48 + of_nat (m mod 10)" using "1.prems" by (auto simp: wdigits.simps [of m])
    then show ?thesis using "1.IH" [OF True] d(2,3) by (auto simp: not_less)
  next
    case False
    then show ?thesis using "1.prems" by (simp add: wdigits.simps)
  qed
qed

lemma wdigits_not [simp]: "0 \<notin> set (wdigits m)" "32 \<notin> set (wdigits m)" "59 \<notin> set (wdigits m)" "123 \<notin> set (wdigits m)" "125 \<notin> set (wdigits m)"
  using wdigits_range [of _ m] by (auto dest!: wdigits_range)

lemma count_digits_le: "m < 10 ^ k \<Longrightarrow> count_digits m \<le> k"
proof (induction k arbitrary: m)
  case (Suc k)
  then have "m div 10 < 10 ^ k" by (simp add: less_mult_imp_div_less mult.commute)
  then show ?case using Suc.IH [of "m div 10"] by (subst count_digits.simps) simp
qed (simp add: count_digits.simps)

lemma number_text: "map_option (\<lambda>buf. take (wcslen buf) buf) (sqlwcharfromul (replicate 64 0) v) = Some (wdigits (unat v))"
proof -
  have "unat v < 2 ^ 64" using unsigned_less [of v, where ?'a = nat] by simp
  then have "count_digits (unat v) \<le> 20" by (intro count_digits_le) simp
  then have "sqlwcharfromul (replicate 64 0) v = Some (wdigits (unat v) @ 0 # drop (Suc (count_digits (unat v))) (replicate 64 0))"
    by (intro sqlwcharfromul_eq) simp
  then show ?thesis by (simp add: wcslen_append_NUL)
qed

lemma toul_digits: "sqlwchartoul (Some (wdigits (unat v) @ 59 # rest)) = v"
  by (simp add: sqlwchartoul_def wtoul_wdigits)

lemma take_wcslen: "0 \<notin> set a \<Longrightarrow> take (wcslen (a @ s)) (a @ s) = a @ take (wcslen s) s"
  by (induction a) auto

lemma read_number:
  assumes "(k, n) \<in> set opt_map" "get_type (ds n) \<noteq> OT_STRING"
  shows "\<exists>e. read_pair (W k @ 61 # wdigits (unat (v :: u64)) @ 59 # rest) 59 ds =
      Some (Inr (e, W k @ 61 # wdigits (unat v) @ 59 # rest,
        ds(n := set_opt (if get_type (ds n) = OT_INT then Int_val (ucast v) else Bool_val (v \<noteq> 0))))) \<and>
    drop e (W k @ 61 # wdigits (unat v) @ 59 # rest) = 59 # rest"
proof -
  let ?ks = "W k" and ?b = "wdigits (unat v)"
  let ?str = "?ks @ 61 # ?b @ 59 # rest" and ?e = "Suc (length ?ks) + length ?b"
  have k: "key_text ?ks" "sqlwcharcasecmp (W ''OPTION'') ?ks \<noteq> 0" "get_opt ?ks = Some n"
    using W_key [OF assms(1)] not_option_key [OF W_key [OF assms(1)] key_not_option [OF assms(1)]] get_opt_key [OF assms(1)]
    by simp_all
  have top: "wtop (?b @ 59 # rest) \<noteq> 32" "wtop (?b @ 59 # rest) \<noteq> 123"
    using wdigits_not(2,4) [of "unat v"] by (cases ?b; auto)+
  have "last ?b \<noteq> 32 \<or> ?b = []" using wdigits_not(2) [of "unat v"] by (metis last_in_set)
  then have t: "trim_value ?str (Suc (length ?ks)) ?e = ?e"
    by (intro trim_stop) (auto simp: nth_append last_conv_nth)
  have "take (wcslen (?b @ 59 # rest)) (?b @ 59 # rest) = ?b @ 59 # take (wcslen rest) rest"
    unfolding take_wcslen [OF wdigits_not(1)] by simp
  then have a: "assign (take (wcslen (?b @ 59 # rest)) (?b @ 59 # rest)) (ds n) =
      Some (set_opt (if get_type (ds n) = OT_INT then Int_val (ucast v) else Bool_val (v \<noteq> 0)))"
    using assms(2) by (cases "get_type (ds n)") (simp_all add: assign_def toul_digits)
  have "set_pair ?ks ?str (Suc (length ?ks)) ?e ds =
      Some (?e, ds(n := set_opt (if get_type (ds n) = OT_INT then Int_val (ucast v) else Bool_val (v \<noteq> 0))))"
    using k(2,3) assms(2) a by (simp add: set_pair_def)
  then have "read_pair ?str 59 ds = Some (Inr (?e, ?str,
      ds(n := set_opt (if get_type (ds n) = OT_INT then Int_val (ucast v) else Bool_val (v \<noteq> 0)))))"
    using read_pair_key [OF k(1) top(1), of 59 ds] chr_item [OF k(1) wdigits_not(3,1), of "unat v" rest] t top(2) by simp
  then show ?thesis by (intro exI [of _ ?e]) simp
qed

section \<open>The round trip\<close>

text \<open>
  A data source that a connection string can carry: every option has the type of its declaration, those that hold their
  default are as \<open>reset\<close> leaves them, and the others have a value, a storable one for strings.
\<close>

definition writable_opt :: "string \<Rightarrow> opt \<Rightarrow> bool" where
  "writable_opt n v \<longleftrightarrow>
     o_set v \<and> get_type v = get_type (new_data_source n) \<and> (o_default v \<longrightarrow> v = new_data_source n) \<and>
     (\<not> o_default v \<longrightarrow> (case o_value v of Str_val None \<Rightarrow> False | Str_val (Some (w, _)) \<Rightarrow> storable w | _ \<Rightarrow> True))"

definition writable :: "data_source \<Rightarrow> bool" where
  "writable ds \<longleftrightarrow> (\<forall>(k, n) \<in> set opt_map. writable_opt n (ds n))"

text \<open>What is read for an option that is written.\<close>

definition reads_as :: "opt \<Rightarrow> opt \<Rightarrow> bool" where
  "reads_as v v1 \<longleftrightarrow> o_set v1 = o_set v \<and> o_default v1 = o_default v \<and> same_value (o_value v1) (o_value v)"

definition skipped :: "data_source \<Rightarrow> string \<times> string \<Rightarrow> bool" where
  "skipped ds x \<longleftrightarrow> o_default (ds (snd x)) \<or> (\<not> o_default (ds ''DSN'') \<and> fst x = ''DRIVER'')"

lemma escape_brackets_escaped: "escape_brackets w False = escaped w"
  by (simp add: escape_brackets_def escaped_plain)

lemma unat_scast_ucast: "(ucast (scast (i :: 32 word) :: u64) :: 32 word) = i"
  by (rule bit_word_eqI) (auto simp: bit_simps)

lemma read_item:
  assumes "(k, n) \<in> set opt_map" "writable_opt n v" "\<not> o_default v" "get_type (ds n) = get_type v"
    "\<not> (named \<and> k = ''DRIVER'')"
  shows "\<exists>item. kv_item 59 named k v = Some (W k @ 61 # item @ [59]) \<and> 0 \<notin> set item \<and>
    (\<forall>rest. \<exists>e v1. read_pair (W k @ 61 # item @ 59 # rest) 59 ds = Some (Inr (e, W k @ 61 # item @ 59 # rest, ds(n := v1))) \<and>
      reads_as v v1 \<and> get_type v1 = get_type v \<and> drop e (W k @ 61 # item @ 59 # rest) = 59 # rest)"
proof -
  have dr: "\<not> (named \<and> sqlwcharcasecmp (W ''DRIVER'') (W k) = 0)"
    using assms(5) casecmp_key [OF key_texts(2) W_key [OF assms(1)]] by auto
  have s: "o_set v" using assms(2) by (simp add: writable_opt_def)
  show ?thesis
  proof (cases "o_value v")
    case (Str_val x)
    then obtain w bs where x: "x = Some (w, bs)" "storable w"
      using assms(2,3) by (cases x) (auto simp: writable_opt_def)
    have ty: "get_type v = OT_STRING" "get_type (ds n) = OT_STRING" using Str_val assms(4) by (simp_all add: get_type_def)
    let ?b = "if value_needs_escaped w then 123 # escaped w @ [125] else escaped w"
    have "kv_item 59 named k v = Some (W k @ 61 # ?b @ [59])"
      using dr s assms(3) ty Str_val x by (simp add: kv_item_def opt_wstring_def escape_brackets_escaped Let_def)
    moreover have "0 \<notin> set ?b" using x(2) by (auto simp: storable_def)
    moreover have "\<exists>e v1. read_pair (W k @ 61 # ?b @ 59 # rest) 59 ds = Some (Inr (e, W k @ 61 # ?b @ 59 # rest, ds(n := v1))) \<and>
      reads_as v v1 \<and> get_type v1 = get_type v \<and> drop e (W k @ 61 # ?b @ 59 # rest) = 59 # rest" for rest
    proof -
      obtain e bs1 where r: "read_pair (W k @ 61 # ?b @ 59 # rest) 59 ds =
          Some (Inr (e, W k @ 61 # ?b @ 59 # rest, ds(n := set_opt (Str_val (Some (w, bs1))))))"
        "drop e (W k @ 61 # ?b @ 59 # rest) = 59 # rest"
        using read_string [OF assms(1) x(2), of ds ?b rest] ty(2) by blast
      have "reads_as v (set_opt (Str_val (Some (w, bs1))))" "get_type (set_opt (Str_val (Some (w, bs1)))) = get_type v"
        using s assms(3) Str_val x(1) ty(1) by (simp_all add: reads_as_def set_opt_def same_value_def get_type_def)
      with r show ?thesis by blast
    qed
    ultimately show ?thesis by blast
  next
    case (Int_val i)
    let ?u = "scast i :: u64"
    have ty: "get_type v = OT_INT" "get_type (ds n) = OT_INT" using Int_val assms(4) by (simp_all add: get_type_def)
    have ow: "opt_wstring v = Some (wdigits (unat ?u))"
      using number_text [of ?u] unfolding opt_wstring_def Int_val opt_value.case by (simp only: s if_True)
    have "kv_item 59 named k v = Some (W k @ 61 # wdigits (unat ?u) @ [59])"
      using dr s assms(3) ty ow by (simp add: kv_item_def escape_brackets_escaped escaped_plain Let_def)
    moreover have "\<exists>e. read_pair (W k @ 61 # wdigits (unat ?u) @ 59 # rest) 59 ds =
        Some (Inr (e, W k @ 61 # wdigits (unat ?u) @ 59 # rest, ds(n := set_opt (Int_val i)))) \<and>
      drop e (W k @ 61 # wdigits (unat ?u) @ 59 # rest) = 59 # rest" for rest
      using read_number [OF assms(1), of ds ?u rest] ty(2) by (simp add: unat_scast_ucast)
    moreover have "reads_as v (set_opt (Int_val i))" "get_type (set_opt (Int_val i)) = get_type v"
      using s assms(3) Int_val ty(1) by (simp_all add: reads_as_def set_opt_def same_value_def get_type_def)
    ultimately show ?thesis using wdigits_not(1) by blast
  next
    case (Bool_val b)
    let ?u = "of_bool b :: u64"
    have ty: "get_type v = OT_BOOL" "get_type (ds n) = OT_BOOL" using Bool_val assms(4) by (simp_all add: get_type_def)
    have ow: "opt_wstring v = Some (wdigits (unat ?u))"
      using number_text [of ?u] unfolding opt_wstring_def Bool_val opt_value.case by (simp only: s if_True)
    have "kv_item 59 named k v = Some (W k @ 61 # wdigits (unat ?u) @ [59])"
      using dr s assms(3) ty ow by (simp add: kv_item_def escape_brackets_escaped escaped_plain Let_def)
    moreover have "\<exists>e. read_pair (W k @ 61 # wdigits (unat ?u) @ 59 # rest) 59 ds =
        Some (Inr (e, W k @ 61 # wdigits (unat ?u) @ 59 # rest, ds(n := set_opt (Bool_val b)))) \<and>
      drop e (W k @ 61 # wdigits (unat ?u) @ 59 # rest) = 59 # rest" for rest
      using read_number [OF assms(1), of ds ?u rest] ty(2) by simp
    moreover have "reads_as v (set_opt (Bool_val b))" "get_type (set_opt (Bool_val b)) = get_type v"
      using s assms(3) Bool_val ty(1) by (simp_all add: reads_as_def set_opt_def same_value_def get_type_def)
    ultimately show ?thesis using wdigits_not(1) by blast
  qed
qed

lemma kv_item_skipped:
  assumes "(k, n) \<in> set opt_map" "skipped ds (k, n)"
  shows "kv_item 59 (\<not> o_default (ds ''DSN'')) k (ds n) = Some []"
  using assms casecmp_key [OF key_texts(2) W_key [OF assms(1)]] by (auto simp: kv_item_def skipped_def)

lemma from_kvpair_end: "from_kvpair [0] 59 ds = Some (0, ds)"
  by (simp add: from_kvpair.simps)

lemma from_kvpair_item:
  assumes "key_text ks" "0 \<in> set rest" "wtop rest \<noteq> 32" "wtop rest \<noteq> 59"
    "read_pair (ks @ 61 # item @ 59 # rest) 59 ds = Some (Inr (e, ks @ 61 # item @ 59 # rest, ds1))"
    "drop e (ks @ 61 # item @ 59 # rest) = 59 # rest"
  shows "from_kvpair (ks @ 61 # item @ 59 # rest) 59 ds = from_kvpair rest 59 ds1"
proof -
  have "wtop (ks @ 61 # item @ 59 # rest) \<noteq> 0"
    using assms(1) key_text_not [OF assms(1), of 0] by (cases ks) (auto simp: key_text_def)
  moreover have "rest \<noteq> []" using assms(2) by auto
  ultimately show ?thesis
    using assms(2-6) by (subst from_kvpair.simps) (simp add: skip_none del: drop_append)
qed

definition kv_step :: "bool \<Rightarrow> data_source \<Rightarrow> string \<times> string \<Rightarrow> u16 list option \<Rightarrow> u16 list option" where
  "kv_step named ds = (\<lambda>(k, n) attrs. Option.bind attrs (\<lambda>a. map_option (\<lambda>item. a @ item) (kv_item 59 named k (ds n))))"

lemma kv_step_simps:
  "kv_step named ds x None = None"
  "kv_step named ds x (Some a) = map_option ((@) a) (kv_item 59 named (fst x) (ds (snd x)))"
  by (simp_all add: kv_step_def split_beta)

lemma kv_step_None: "fold (kv_step named ds) xs None = None"
  by (induction xs) (simp_all add: kv_step_simps)

lemma kv_step_fold:
  "fold (kv_step named ds) xs (Some a) = Some b \<Longrightarrow> fold (kv_step named ds) xs (Some (c @ a)) = Some (c @ b)"
proof (induction xs arbitrary: a)
  case (Cons x xs)
  then show ?case
    by (cases "kv_item 59 named (fst x) (ds (snd x))") (auto simp: kv_step_simps kv_step_None)
qed simp

text \<open>Writing and reading the options of a part of the map.\<close>

lemma read_items:
  assumes "writable ds"
  shows "set xs \<subseteq> set opt_map \<Longrightarrow> (\<forall>(k, n) \<in> set opt_map. get_type (d n) = get_type (ds n)) \<Longrightarrow>
    \<exists>text d1. fold (kv_step (\<not> o_default (ds ''DSN'')) ds) xs (Some []) = Some text \<and>
      wtop (text @ [0]) \<noteq> 32 \<and> wtop (text @ [0]) \<noteq> 59 \<and>
      from_kvpair (text @ [0]) 59 d = Some (0, d1) \<and>
      (\<forall>n. if n \<in> snd ` {x \<in> set xs. \<not> skipped ds x} then reads_as (ds n) (d1 n) else d1 n = d n)"
proof (induction xs arbitrary: d)
  case Nil
  then show ?case by (simp add: from_kvpair_end)
next
  case (Cons x xs)
  obtain k n where x: "x = (k, n)" by (cases x)
  have m: "(k, n) \<in> set opt_map" using Cons.prems(1) x by simp
  let ?named = "\<not> o_default (ds ''DSN'')"
  show ?case
  proof (cases "skipped ds x")
    case True
    have "fold (kv_step ?named ds) (x # xs) (Some []) = fold (kv_step ?named ds) xs (Some [])"
      using kv_item_skipped [OF m] True x by (simp add: kv_step_simps)
    moreover have "{y \<in> set (x # xs). \<not> skipped ds y} = {y \<in> set xs. \<not> skipped ds y}" using True by auto
    ultimately show ?thesis using Cons.IH [OF _ Cons.prems(2)] Cons.prems(1) by simp
  next
    case False
    have wr: "writable_opt n (ds n)" using assms m by (auto simp: writable_def)
    have nd: "\<not> o_default (ds n)" "\<not> (?named \<and> k = ''DRIVER'')" using False x by (auto simp: skipped_def)
    have ty: "get_type (d n) = get_type (ds n)" using Cons.prems(2) m by blast
    obtain item where it: "kv_item 59 ?named k (ds n) = Some (W k @ 61 # item @ [59])" "0 \<notin> set item"
      and rd: "\<And>rest. \<exists>e v1. read_pair (W k @ 61 # item @ 59 # rest) 59 d = Some (Inr (e, W k @ 61 # item @ 59 # rest, d(n := v1))) \<and>
        reads_as (ds n) v1 \<and> get_type v1 = get_type (ds n) \<and> drop e (W k @ 61 # item @ 59 # rest) = 59 # rest"
      using read_item [of k n "ds n" d ?named, OF m wr nd(1) ty nd(2)] by blast
    have names: "snd ` {y \<in> set (x # xs). \<not> skipped ds y} = insert n (snd ` {y \<in> set xs. \<not> skipped ds y})"
      using False x by force
    let ?S = "snd ` {y \<in> set xs. \<not> skipped ds y}"
    obtain text0 where t0: "fold (kv_step ?named ds) xs (Some []) = Some text0" "wtop (text0 @ [0]) \<noteq> 32" "wtop (text0 @ [0]) \<noteq> 59"
      using Cons.IH [OF _ Cons.prems(2)] Cons.prems(1) by auto
    obtain e v1 where r: "read_pair (W k @ 61 # item @ 59 # text0 @ [0]) 59 d =
          Some (Inr (e, W k @ 61 # item @ 59 # text0 @ [0], d(n := v1)))"
        "reads_as (ds n) v1" "get_type v1 = get_type (ds n)" "drop e (W k @ 61 # item @ 59 # text0 @ [0]) = 59 # text0 @ [0]"
      using rd [of "text0 @ [0]"] by blast
    have ty1: "\<forall>(k1, n1) \<in> set opt_map. get_type ((d(n := v1)) n1) = get_type (ds n1)" using Cons.prems(2) r(3) by auto
    obtain d1 where d1: "from_kvpair (text0 @ [0]) 59 (d(n := v1)) = Some (0, d1)"
        "\<forall>n1. if n1 \<in> ?S then reads_as (ds n1) (d1 n1) else d1 n1 = (d(n := v1)) n1"
      using Cons.IH [OF _ ty1] Cons.prems(1) t0(1) by fastforce
    let ?text = "W k @ 61 # item @ 59 # text0"
    have kt: "key_text (W k)" by (rule W_key [OF m])
    have f: "fold (kv_step ?named ds) (x # xs) (Some []) = Some ?text"
      using it(1) x kv_step_fold [OF t0(1), of "W k @ 61 # item @ [59]"] by (simp add: kv_step_simps)
    moreover have "wtop (?text @ [0]) \<noteq> 32" "wtop (?text @ [0]) \<noteq> 59"
      using kt key_text_not [OF kt, of 32] key_text_not [OF kt, of 59] by (cases "W k"; auto simp: key_text_def)+
    moreover have "from_kvpair (?text @ [0]) 59 d = Some (0, d1)"
      using from_kvpair_item [OF kt _ t0(2,3) r(1,4)] d1(1) by simp
    moreover have "if n1 \<in> snd ` {y \<in> set (x # xs). \<not> skipped ds y} then reads_as (ds n1) (d1 n1) else d1 n1 = d n1" for n1
      using d1(2) [rule_format, of n1] r(2) unfolding names by (cases "n1 \<in> ?S"; cases "n1 = n") simp_all
    ultimately show ?thesis by blast
  qed
qed

lemma driver_name: "(k, n) \<in> set opt_map \<Longrightarrow> k = ''DRIVER'' \<Longrightarrow> n = ''DRIVER''"
  by (auto simp: opt_map_def)

text \<open>C9: A connection string keeps a data source: what \<open>to_kvpair\<close> writes is read by \<open>from_kvpair\<close> into a new data source as the same
  options, whatever characters the strings are made of, as long as they are shorter than 1024 units, have at most one closing bracket and no blanks at
  the ends of a value that is not put into brackets. Only the name of the driver is left out, when there is a DSN.\<close>

theorem connection_string_roundtrip:
  assumes "writable ds"
  shows "\<exists>attrs ds2. to_kvpair 59 ds = Some attrs \<and> from_kvpair (attrs @ [0]) 59 new_data_source = Some (0, ds2) \<and>
    (\<forall>(k, n) \<in> set opt_map. n = ''DRIVER'' \<and> \<not> o_default (ds ''DSN'') \<or> reads_as (ds n) (ds2 n))"
proof -
  have ty: "\<forall>(k, n) \<in> set opt_map. get_type (new_data_source n) = get_type (ds n)"
    using assms by (auto simp: writable_def writable_opt_def)
  let ?S = "snd ` {x \<in> set opt_map. \<not> skipped ds x}"
  obtain attrs ds2 where a: "fold (kv_step (\<not> o_default (ds ''DSN'')) ds) opt_map (Some []) = Some attrs"
      "from_kvpair (attrs @ [0]) 59 new_data_source = Some (0, ds2)"
      "\<forall>n. if n \<in> ?S then reads_as (ds n) (ds2 n) else ds2 n = new_data_source n"
    using read_items [OF assms subset_refl ty] by blast
  have "n = ''DRIVER'' \<and> \<not> o_default (ds ''DSN'') \<or> reads_as (ds n) (ds2 n)" if m: "(k, n) \<in> set opt_map" for k n
  proof (cases "n \<in> ?S")
    case True
    then show ?thesis using a(3) by presburger
  next
    case False
    then have "skipped ds (k, n)" using m by force
    then consider "o_default (ds n)" | "\<not> o_default (ds ''DSN'')" "k = ''DRIVER''" by (auto simp: skipped_def)
    then show ?thesis
    proof cases
      case 1
      then have "ds n = new_data_source n" using assms m by (auto simp: writable_def writable_opt_def)
      then have "ds2 n = ds n" using a(3) False by presburger
      then show ?thesis by (simp add: reads_as_def same_value_def split: opt_value.split)
    next
      case 2
      then show ?thesis using driver_name [OF m] by blast
    qed
  qed
  moreover have "to_kvpair 59 ds = Some attrs" using a(1) by (simp add: to_kvpair_def kv_step_def Let_def)
  ultimately show ?thesis using a(2) by (intro exI [of _ attrs] exI [of _ ds2]) auto
qed

section \<open>A string that is never read\<close>

lemma stuck_hangs:
  assumes "\<And>d. read_pair s delim d = Some (Inr (0, s, d))" "skip_delims delim s = Some s" "wtop s \<noteq> 0"
  shows "from_kvpair s delim ds = None"
proof (rule ccontr)
  assume "from_kvpair s delim ds \<noteq> None"
  then obtain r where r: "from_kvpair s delim ds = Some r" by blast
  have "\<not> (s = s \<and> delim = delim)"
  proof (rule from_kvpair.raw_induct [where P = "\<lambda>str dl d r. \<not> (str = s \<and> dl = delim)", OF _ r])
    fix f str dl d r
    assume IH: "\<And>str dl d r. f str dl d = Some r \<Longrightarrow> \<not> (str = s \<and> dl = delim)"
      and body: "(if 0 \<notin> set str then None
          else if wtop str = 0 then Some (0, d)
          else Option.bind (read_pair str dl d) (\<lambda>r. case r of
            Inl rc \<Rightarrow> Some (rc, d)
          | Inr (k, str1, ds1) \<Rightarrow> Option.bind (skip_delims dl (drop k str1)) (\<lambda>str2. f str2 dl ds1))) = Some r"
    show "\<not> (str = s \<and> dl = delim)"
    proof
      assume "str = s \<and> dl = delim"
      then have "f s delim d = Some r" using body assms by (simp split: if_splits)
      then show False using IH by blast
    qed
  qed
  then show False by simp
qed

lemma get_opt_bracket: "125 \<in> set name \<Longrightarrow> get_opt name = None"
proof -
  assume n: "125 \<in> set name"
  have "W k \<noteq> map wtoupper name" if "(k, m) \<in> set opt_map" for k m
  proof
    assume "W k = map wtoupper name"
    moreover have "wtoupper 125 = 125" by (simp add: wtoupper_def)
    then have "125 \<in> set (map wtoupper name)" using n by (metis image_eqI set_map)
    ultimately show False using key_text_not [OF W_key [OF that], of 125] by simp
  qed
  then show ?thesis by (auto simp: get_opt_def find_None_iff)
qed

text \<open>C10: A connection string with an unknown option in brackets, followed by any other value in brackets, is never read to its
  end: the reader stops before the bracket of the option it does not know, and then finds this bracket again and again as the
  end of the next value.\<close>

theorem unknown_option_hangs:
  assumes "key_text ks" "get_opt ks = None" "sqlwcharcasecmp (W ''OPTION'') ks \<noteq> 0" "0 \<notin> set v"
    "key_text ks2" "0 \<notin> set v2"
  shows "from_kvpair (ks @ [61, 123] @ escaped v @ [125, 59] @ ks2 @ [61, 123] @ escaped v2 @ [125, 59, 0]) 59 ds = None"
proof -
  let ?s = "125 # 59 # ks2 @ 61 # 123 # escaped v2 @ [125, 59, 0]"
  have k2: "0 \<notin> set ks2" "32 \<notin> set ks2" "61 \<notin> set ks2" "length ks2 < 100" "ks2 \<noteq> []"
    using key_text_not [OF assms(5)] assms(5) by (auto simp: key_text_def)
  have chr: "sqlwcharchr ?s 61 = Some (Suc (Suc (length ks2)))"
    using chr_app [of 61 "125 # 59 # ks2" "123 # escaped v2 @ [125, 59, 0]"] k2 by auto
  have fb: "find_bracket_end ?s 0 = Some 0" by (simp add: find_bracket_end.simps)
  have l2: "last ks2 \<noteq> 32" using k2(2,5) by (metis last_in_set)
  have rv: "dropWhile (\<lambda>c. c = 32) (rev (125 # 59 # ks2)) = rev (125 # 59 # ks2)"
    using k2(5) l2 by (simp add: dropWhile_eq_self_iff hd_append hd_rev)
  have "sqlwcharcasecmp (W ''OPTION'') (125 # 59 # ks2) \<noteq> 0"
    by (subst sqlwcharcasecmp.simps) (simp add: W_def code_def wupper_def)
  then have sp: "set_pair (125 # 59 # ks2) ?s split 0 d = Some (0, d)" for split d
    by (simp add: set_pair_def get_opt_bracket)
  have stuck: "read_pair ?s 59 d = Some (Inr (0, ?s, d))" for d
    unfolding read_pair_def chr option.case Let_def using k2(4) rv sp fb by simp
  have hang: "from_kvpair ?s 59 d = None" for d by (rule stuck_hangs) (simp_all add: stuck)
  let ?r = "59 # ks2 @ 61 # 123 # escaped v2 @ [125, 59, 0]"
  let ?str = "ks @ 61 # 123 # escaped v @ 125 # ?r"
  let ?e = "Suc (Suc (length ks)) + length (escaped v)"
  have e: "?str ! ?e = 125" "drop ?e ?str = 125 # ?r" by (simp_all add: nth_append)
  have t: "trim_value ?str (Suc (length ks)) ?e = ?e" by (rule trim_stop) (simp only: e(1), simp)
  have "read_pair ?str 59 ds = Some (Inr (?e, ?str, ds))"
    using read_pair_key [OF assms(1), of "123 # escaped v @ 125 # ?r" 59 ds] bracket_item [OF assms(1,4), of "ks2 @ 61 # 123 # escaped v2 @ [125, 59, 0]"] t
    by (simp add: set_pair_def assms(2,3))
  moreover have "wtop ?str \<noteq> 0" using assms(1) key_text_not [OF assms(1), of 0] by (cases ks) (auto simp: key_text_def)
  ultimately have "from_kvpair ?str 59 ds = from_kvpair ?s 59 ds"
    using e(2) by (subst from_kvpair.simps) (simp del: drop_append)
  then show ?thesis using hang by simp
qed

lemma get_opt_unknown: "key_text (W k) \<Longrightarrow> k \<notin> fst ` set opt_map \<Longrightarrow> get_opt (W k) = None"
  by (force simp: get_opt_def key_text_upper find_None_iff)

theorem unknown_option_hangs_witness:
  "from_kvpair (W ''APP'' @ [61, 123] @ escaped (W ''word'') @ [125, 59] @ W ''PWD'' @ [61, 123] @ escaped (W ''top secret'') @ [125, 59, 0]) 59
     new_data_source = None"
proof (rule unknown_option_hangs)
  show k: "key_text (W ''APP'')" "key_text (W ''PWD'')" by (simp_all add: key_text_def key_unit_def W_def code_def)
  show "get_opt (W ''APP'') = None" using get_opt_unknown [OF k(1)] by (simp add: opt_map_def)
  show "sqlwcharcasecmp (W ''OPTION'') (W ''APP'') \<noteq> 0" using casecmp_key [OF key_texts(1) k(1)] by simp
  show "0 \<notin> set (W ''word'')" "0 \<notin> set (W ''top secret'')" by (simp_all add: W_def code_def)
qed

lemma opt_names: "list_all (\<lambda>(k, n). n \<in> set (STR_OPTIONS_LIST @ INT_OPTIONS_LIST @ BOOL_OPTIONS_LIST)) opt_map"
  by code_simp

lemma writable_new: "writable new_data_source"
  using opt_names
  by (auto simp: writable_def writable_opt_def new_data_source_def reset_ds_def Let_def default_opt_def set_opt_def list_all_iff)

definition sample_source :: data_source where
  "sample_source = new_data_source(''PWD'' := set_opt (Str_val (Some (W ''a;b}='', []))), ''PORT'' := set_opt (Int_val 3307))"

lemma writable_upd: "writable ds \<Longrightarrow> writable_opt m v \<Longrightarrow> writable (ds(m := v))"
  by (auto simp: writable_def)

lemma writable_sample: "writable sample_source"
proof -
  have "storable (W ''a;b}='')" by (simp add: storable_def W_def code_def value_needs_escaped_def)
  moreover have "get_type (new_data_source ''PWD'') = OT_STRING" "get_type (new_data_source ''PORT'') = OT_INT"
    by (simp_all add: new_data_source_def reset_ds_def Let_def default_opt_def get_type_def STR_OPTIONS_LIST_def)
  ultimately have "writable_opt ''PWD'' (set_opt (Str_val (Some (W ''a;b}='', []))))" "writable_opt ''PORT'' (set_opt (Int_val 3307))"
    by (simp_all add: writable_opt_def set_opt_def get_type_def)
  then show ?thesis unfolding sample_source_def by (intro writable_upd writable_new)
qed

theorem connection_string_roundtrip_witness:
  "\<exists>attrs ds2. to_kvpair 59 sample_source = Some attrs \<and> from_kvpair (attrs @ [0]) 59 new_data_source = Some (0, ds2) \<and>
     reads_as (sample_source ''PWD'') (ds2 ''PWD'') \<and> reads_as (sample_source ''PORT'') (ds2 ''PORT'')"
proof -
  have m: "(''PWD'', ''PWD'') \<in> set opt_map" "(''PORT'', ''PORT'') \<in> set opt_map" by (simp_all add: opt_map_def)
  obtain attrs ds2 where r: "to_kvpair 59 sample_source = Some attrs" "from_kvpair (attrs @ [0]) 59 new_data_source = Some (0, ds2)"
    and all: "\<forall>(k, n) \<in> set opt_map. n = ''DRIVER'' \<and> \<not> o_default (sample_source ''DSN'') \<or> reads_as (sample_source n) (ds2 n)"
    using connection_string_roundtrip [OF writable_sample] by blast
  have "reads_as (sample_source ''PWD'') (ds2 ''PWD'')" using bspec [OF all m(1)] by simp
  moreover have "reads_as (sample_source ''PORT'') (ds2 ''PORT'')" using bspec [OF all m(2)] by simp
  ultimately show ?thesis using r by blast
qed

section \<open>The numeric option\<close>

definition flag_bits :: "nat list" where
  "flag_bits = [1, 3, 4, 5, 7, 8, 9, 10, 11, 12, 13, 14, 15, 16, 17, 18, 19, 20, 21, 22, 23, 24, 25, 26, 27, 28, 29]"

lemma flags_distinct: "distinct (map fst FLAGS)"
  by (simp add: FLAGS_def)

lemma flags_bits: "map snd FLAGS = map ((^) 2) flag_bits"
  by (simp add: FLAGS_def flag_bits_def)

lemma set_options_other:
  "x \<notin> fst ` set fs \<Longrightarrow> fold (\<lambda>(n, flag) d. d(n := set_opt (Bool_val (g flag)))) fs ds x = ds x"
  by (induction fs arbitrary: ds) auto

lemma set_options_flag:
  "distinct (map fst fs) \<Longrightarrow> (x, flag) \<in> set fs \<Longrightarrow>
    fold (\<lambda>(n, flag) d. d(n := set_opt (Bool_val (g flag)))) fs ds x = set_opt (Bool_val (g flag))"
  by (induction fs arbitrary: ds) (auto simp: set_options_other rev_image_eqI)

lemma get_options_fold:
  "(\<forall>(x, flag) \<in> set fs. opt_bool (ds x) = Some (g flag)) \<Longrightarrow>
    fold (\<lambda>(n, flag) acc. Option.bind acc (\<lambda>options. map_option (\<lambda>b. if b then options OR of_nat flag else options) (opt_bool (ds n))))
      fs (Some a) = Some (fold (\<lambda>flag (options :: u64). if g flag then options OR of_nat flag else options) (map snd fs) a)"
proof (induction fs arbitrary: a)
  case (Cons f fs)
  then show ?case by (cases f) auto
qed simp

lemma flag_and: "(w :: u64) AND of_nat (2 ^ i) = (if bit w i then of_nat (2 ^ i) else 0)"
  by (rule bit_word_eqI) (auto simp: bit_simps)

definition mask_of :: "nat list \<Rightarrow> u64" where
  "mask_of is = foldr (\<lambda>i m. of_nat (2 ^ i) OR m) is 0"

lemma or_flags:
  "fold (\<lambda>flag options. if (w :: u64) AND of_nat flag \<noteq> 0 then options OR of_nat flag else options) (map ((^) 2) is) a =
    a OR (w AND mask_of is)"
proof (induction "is" arbitrary: a)
  case (Cons i "is")
  have "(if w AND of_nat (2 ^ i) \<noteq> 0 then a OR of_nat (2 ^ i) else a) = a OR (w AND of_nat (2 ^ i))"
    unfolding flag_and by simp
  then show ?case
    using Cons.IH [of "a OR (w AND of_nat (2 ^ i))"]
    by (simp add: mask_of_def bit.conj_disj_distrib or.assoc del: of_nat_power)
qed (simp add: mask_of_def)

text \<open>The numeric option of old connection strings is read back as its bits: after \<open>set_numeric_options\<close>, \<open>get_numeric_options\<close>
  returns the number with the bits of the 27 options it covers, and no others.\<close>

theorem numeric_options_roundtrip:
  "get_numeric_options (set_numeric_options options ds) = Some (options AND 0x3fffffba)"
proof -
  let ?g = "\<lambda>flag. options AND of_nat flag \<noteq> 0"
  have "opt_bool (set_numeric_options options ds n) = Some (?g flag)" if "(n, flag) \<in> set FLAGS" for n flag
    using set_options_flag [OF flags_distinct that, of ?g ds]
    by (simp add: set_numeric_options_def opt_bool_def set_opt_def)
  then have "get_numeric_options (set_numeric_options options ds) =
      Some (fold (\<lambda>flag options. if ?g flag then options OR of_nat flag else options) (map snd FLAGS) 0)"
    unfolding get_numeric_options_def by (intro get_options_fold) auto
  also have "\<dots> = Some (options AND mask_of flag_bits)" unfolding flags_bits or_flags by simp
  also have "mask_of flag_bits = 0x3fffffba" by (simp add: mask_of_def flag_bits_def)
  finally show ?thesis .
qed

end
