(* ===== verification/GetData.thy ===== *)
theory GetData
  imports Charset Diag
begin

text \<open>
  The copying of one column into a buffer of the application, in as many pieces as it calls
  \<open>SQLGetData\<close> for (\<^verbatim>\<open>driver/utility.cc\<close>, \<^verbatim>\<open>GETDATA\<close> of \<^verbatim>\<open>driver/driver.h\<close>, \<^verbatim>\<open>driver/results.cc\<close>): as bytes, as
  a string, as UTF-16, in hexadecimal and as a bit.

  The data of the column is a list of bytes; \<open>source\<close>, a pointer into it, is its offset. The memory
  of the buffer is a list, \<open>None\<close> for a null pointer, and the length the application states is a
  separate number, as in the code. An operation is \<open>None\<close> when it reads or writes outside these.
  \<open>ulong\<close> and \<open>SQLULEN\<close> have 64 bits: differences wrap around.
\<close>

section \<open>The position in a column\<close>

record getdata =
  gd_column :: nat
  gd_source :: "nat option"
  gd_latest :: u16
  gd_latest_bytes :: nat
  gd_latest_used :: nat
  gd_src_offset :: nat
  gd_dst_bytes :: nat
  gd_dst_offset :: nat

definition NOT_SET :: nat where "NOT_SET = 2 ^ 64 - 1"

definition new_getdata :: getdata where
  "new_getdata = \<lparr>gd_column = 0, gd_source = None, gd_latest = 0, gd_latest_bytes = 0,
     gd_latest_used = 0, gd_src_offset = 0, gd_dst_bytes = 0, gd_dst_offset = 0\<rparr>"

definition reset_getdata_position :: "getdata \<Rightarrow> getdata" where
  "reset_getdata_position gd =
     gd\<lparr>gd_column := 2 ^ 32 - 1, gd_source := None, gd_dst_bytes := NOT_SET,
        gd_dst_offset := NOT_SET, gd_src_offset := NOT_SET, gd_latest_bytes := 0,
        gd_latest_used := 0\<rparr>"

record get_opts =
  g_max_length :: nat
  g_retrieve :: bool

text \<open>What a call gives: its return code, the new position, the memory of the buffer, the length it
  reports and the SQLSTATE it sets.\<close>

record 'a out =
  o_rc :: int
  o_gd :: getdata
  o_buf :: "'a list option"
  o_avail :: "nat option"
  o_state :: "string option"

section \<open>Memory and integers\<close>

definition sub64 :: "nat \<Rightarrow> nat \<Rightarrow> nat" where
  "sub64 a b = (if b \<le> a then a - b else 2 ^ 64 + a - b)"

definition add64 :: "nat \<Rightarrow> nat \<Rightarrow> nat" where
  "add64 a b = (a + b) mod 2 ^ 64"

text \<open>\<open>(unsigned long)\<close> of a signed number and \<open>(SQLLEN)\<close> of an unsigned one.\<close>

definition ulong :: "int \<Rightarrow> nat" where
  "ulong i = nat (i mod 2 ^ 64)"

definition slong :: "nat \<Rightarrow> int" where
  "slong n = (if n < 2 ^ 63 then int n else int n - 2 ^ 64)"

definition put_at :: "nat \<Rightarrow> 'a list \<Rightarrow> 'a list \<Rightarrow> 'a list" where
  "put_at i xs buf = take i buf @ xs @ drop (i + length xs) buf"

definition store :: "int \<Rightarrow> 'a list \<Rightarrow> 'a list \<Rightarrow> 'a list option" where
  "store i xs buf =
     (if 0 \<le> i \<and> nat i + length xs \<le> length buf then Some (put_at (nat i) xs buf) else None)"

definition source_bytes :: "string \<Rightarrow> nat \<Rightarrow> nat \<Rightarrow> string option" where
  "source_bytes src p n = (if p + n \<le> length src then Some (take n (drop p src)) else None)"

text \<open>A limit on the length of the data, if there is one.\<close>

definition limited :: "get_opts \<Rightarrow> nat \<Rightarrow> nat" where
  "limited opts n = (if g_max_length opts \<noteq> 0 \<and> n > g_max_length opts then g_max_length opts else n)"

definition pointer :: "nat option \<Rightarrow> nat" where
  "pointer p = (case p of None \<Rightarrow> 0 | Some i \<Rightarrow> i)"

definition no_data :: "getdata \<Rightarrow> 'a list option \<Rightarrow> 'a out" where
  "no_data gd buf = \<lparr>o_rc = SQL_NO_DATA_FOUND, o_gd = gd, o_buf = buf, o_avail = None, o_state = None\<rparr>"

definition truncation :: "bool \<Rightarrow> int \<times> string option" where
  "truncation t = (if t then (SQL_SUCCESS_WITH_INFO, Some ''01004'') else (SQL_SUCCESS, None))"

section \<open>Bytes and strings\<close>

definition copy_bytes_to ::
    "get_opts \<Rightarrow> string option \<Rightarrow> int \<Rightarrow> string \<Rightarrow> nat \<Rightarrow> nat \<Rightarrow> string option option" where
  "copy_bytes_to opts result result_bytes src p n =
     (case result of
        None \<Rightarrow> Some None
      | Some buf \<Rightarrow>
          if result_bytes = 0 \<or> \<not> g_retrieve opts then Some result
          else (case source_bytes src p n of
                  None \<Rightarrow> None
                | Some xs \<Rightarrow> map_option Some (store 0 xs buf)))"

definition copy_binary_result ::
    "get_opts \<Rightarrow> getdata \<Rightarrow> string option \<Rightarrow> int \<Rightarrow> string \<Rightarrow> char out option" where
  "copy_binary_result opts gd result result_bytes src =
     (let p = pointer (gd_source gd);
          left = sub64 (limited opts (length src)) p;
          n = min (ulong result_bytes) left;
          (rc, state) = truncation (left > ulong result_bytes)
      in if gd_source gd \<noteq> None \<and> left = 0 then Some (no_data gd result)
         else map_option (\<lambda>buf.
                \<lparr>o_rc = rc, o_gd = gd\<lparr>gd_source := Some (p + n)\<rparr>, o_buf = buf,
                 o_avail = (if g_retrieve opts then Some left else None), o_state = state\<rparr>)
              (copy_bytes_to opts result result_bytes src p n))"

text \<open>The terminating byte goes to \<open>result[myodbc_min(*avail_bytes, result_bytes)]\<close>.\<close>

definition terminate_ansi :: "get_opts \<Rightarrow> bool \<Rightarrow> int \<Rightarrow> char out \<Rightarrow> char out option" where
  "terminate_ansi opts write room r =
     (case (o_buf r, o_avail r) of
        (Some buf, Some avail) \<Rightarrow>
          if write \<and> g_retrieve opts \<and> (o_rc r = SQL_SUCCESS \<or> o_rc r = SQL_SUCCESS_WITH_INFO)
          then map_option (\<lambda>b. r\<lparr>o_buf := Some b\<rparr>) (store (min (slong avail) room) [CHR 0x00] buf)
          else Some r
      | _ \<Rightarrow> Some r)"

definition copy_ansi_result ::
    "get_opts \<Rightarrow> getdata \<Rightarrow> string option \<Rightarrow> int \<Rightarrow> string \<Rightarrow> char out option" where
  "copy_ansi_result opts gd result result_bytes src =
     (if result_bytes = 0 \<and> gd_source gd = None
      then Some \<lparr>o_rc = SQL_SUCCESS_WITH_INFO, o_gd = gd, o_buf = result,
                 o_avail = Some (length src), o_state = Some ''01004''\<rparr>
      else
        let room = (if result_bytes \<noteq> 0 then result_bytes - 1 else 0) in
        case copy_binary_result opts gd result room src of
          None \<Rightarrow> None
        | Some r \<Rightarrow> terminate_ansi opts (result_bytes \<noteq> 0) room r)"

section \<open>A bit\<close>

definition do_copy_bit_result ::
    "(bool \<Rightarrow> 'a) \<Rightarrow> 'a \<Rightarrow> nat \<Rightarrow> get_opts \<Rightarrow> getdata \<Rightarrow> 'a list option \<Rightarrow> int \<Rightarrow> string \<Rightarrow> 'a out option" where
  "do_copy_bit_result digit nul size_t opts gd result result_bytes src =
     (let p = pointer (gd_source gd);
          left = sub64 (limited opts (length src)) p;
          finish = (\<lambda>buf. \<lparr>o_rc = SQL_SUCCESS, o_gd = gd\<lparr>gd_source := Some (Suc p)\<rparr>, o_buf = buf,
                      o_avail = (if g_retrieve opts then Some size_t else None), o_state = None\<rparr>)
      in if gd_source gd \<noteq> None \<and> left = 0 then Some (no_data gd result)
         else case result of
                None \<Rightarrow> Some (finish None)
              | Some buf \<Rightarrow>
                  if result_bytes < 2 \<or> \<not> g_retrieve opts then Some (finish result)
                  else if p < length src
                  then map_option (\<lambda>b. finish (Some b))
                         (store 0 [digit (src ! p \<noteq> CHR 0x00), nul] buf)
                  else None)"

definition copy_bit_result ::
    "get_opts \<Rightarrow> getdata \<Rightarrow> string option \<Rightarrow> int \<Rightarrow> string \<Rightarrow> char out option" where
  "copy_bit_result = do_copy_bit_result (\<lambda>b. if b then CHR ''1'' else CHR ''0'') (CHR 0x00) 1"

definition wcopy_bit_result ::
    "get_opts \<Rightarrow> getdata \<Rightarrow> u16 list option \<Rightarrow> int \<Rightarrow> string \<Rightarrow> u16 out option" where
  "wcopy_bit_result = do_copy_bit_result (\<lambda>b. if b then 0x31 else 0x30) 0 2"

section \<open>Hexadecimal\<close>

definition dig_vec :: string where
  "dig_vec = ''0123456789ABCDEF''"

definition hex_byte :: "char \<Rightarrow> string" where
  "hex_byte c = [dig_vec ! (code c div 16), dig_vec ! (code c mod 16)]"

text \<open>
  \<open>copy_binhex_result<T>\<close>: \<open>cast\<close> gives a digit in the type \<open>T\<close>, of \<open>size_t\<close> bytes. The caller's
  \<open>cbValueMax\<close> has 32 bits, \<open>(long) max_length + 1\<close> is compared with it as a \<open>long\<close>.
\<close>

definition hex_room :: "int \<Rightarrow> nat" where
  "hex_room cb = (if cb \<noteq> 0 then ulong (cb - 1) div 2 else 0)"

definition copy_binhex_result ::
    "(char \<Rightarrow> 'a) \<Rightarrow> nat \<Rightarrow> get_opts \<Rightarrow> getdata \<Rightarrow> 'a list option \<Rightarrow> int \<Rightarrow> string \<Rightarrow> 'a out option" where
  "copy_binhex_result cast size_t opts gd result cbValueMax src =
     (let m = g_max_length opts;
          cb = (if m \<noteq> 0 \<and> cbValueMax > slong m + 1 then slong m + 1 else cbValueMax);
          total = (if m \<noteq> 0 then min (length src) (add64 m 1 div 2) else length src);
          start = (if gd_src_offset gd = NOT_SET then 0 else gd_src_offset gd);
          left = sub64 total start;
          n = min left (hex_room cb);
          offset' = start + n;
          (rc, state) = truncation (\<not> offset' * size_t \<ge> left);
          finish = (\<lambda>buf. \<lparr>o_rc = rc, o_gd = gd\<lparr>gd_src_offset := offset'\<rparr>, o_buf = buf,
                      o_avail = (if g_retrieve opts then Some (left * 2 * size_t) else None),
                      o_state = state\<rparr>)
      in if gd_src_offset gd \<noteq> NOT_SET \<and> start \<ge> total then Some (no_data gd result)
         else case result of
                None \<Rightarrow> Some (finish None)
              | Some buf \<Rightarrow>
                  if cbValueMax = 0 \<or> \<not> g_retrieve opts then Some (finish result)
                  else case source_bytes src start n of
                         None \<Rightarrow> None
                       | Some xs \<Rightarrow>
                           map_option (\<lambda>b. finish (Some b))
                             (store 0 (map cast (concat (map hex_byte xs)) @ [cast (CHR 0x00)]) buf))"

definition wide_digit :: "char \<Rightarrow> u16" where
  "wide_digit c = of_nat (code c)"

section \<open>UTF-16\<close>

text \<open>\<open>my_uni_utf16le\<close> into a buffer of five units: the bytes written, or 0, and the units.\<close>

definition my_uni_utf16le :: "nat \<Rightarrow> int \<times> u16 list" where
  "my_uni_utf16le wc =
     (if wc < 0xd800 \<or> (wc > 0xdfff \<and> wc \<le> 0xffff) then (2, [of_nat wc])
      else if wc < 0xffff \<or> wc > 0x10ffff then (MY_CS_ILUNI, [])
      else (4, [of_nat (0xd800 + (wc - 0x10000) div 1024), of_nat (0xdc00 + (wc - 0x10000) mod 1024)]))"

text \<open>
  One character of the source: the bytes it takes, its units and the conversion errors counted; \<open>None\<close>
  for the two failures that end the call. A character that cannot be written is tried again as a
  question mark, the first time it happens.
\<close>

definition read_char :: "string \<Rightarrow> (nat \<times> nat \<times> nat) option" where
  "read_char s =
     (let (cnvres, wc) = my_mb_wc_utf8mb4 s in
      if cnvres = MY_CS_ILSEQ then Some (1, 63, 1)
      else if cnvres < 0 \<and> cnvres > MY_CS_TOOSMALL then Some (nat (- cnvres), 63, 1)
      else if cnvres < 0 then None
      else Some (nat cnvres, wc, 0))"

definition next_wide :: "nat \<Rightarrow> string \<Rightarrow> (nat \<times> u16 list \<times> nat) option" where
  "next_wide latest_bytes s =
     (case read_char s of
        None \<Rightarrow> None
      | Some (n, wc, e) \<Rightarrow>
          let (r, us) = my_uni_utf16le wc in
          if r div 2 > 0 then Some (n, us, e)
          else if int latest_bytes = MY_CS_ILUNI \<and> wc \<noteq> 63 then Some (n, snd (my_uni_utf16le 63), e + 1)
          else None)"

record wide =
  w_gd :: getdata
  w_result :: "int option"
  w_buf :: "u16 list option"
  w_used :: nat
  w_errors :: nat

text \<open>\<open>if (retrieve_data) *result = u\<close>.\<close>

definition put_unit :: "get_opts \<Rightarrow> int \<Rightarrow> u16 \<Rightarrow> u16 list option \<Rightarrow> u16 list option option" where
  "put_unit opts i u buf =
     (if \<not> g_retrieve opts then Some buf
      else case buf of None \<Rightarrow> None | Some b \<Rightarrow> map_option Some (store i [u] b))"

definition advance_source :: "nat \<Rightarrow> getdata \<Rightarrow> getdata" where
  "advance_source n gd = gd\<lparr>gd_source := Some (pointer (gd_source gd) + n)\<rparr>"

text \<open>The end of a step: the source moves on, and a full buffer is terminated.\<close>

definition finish_char :: "get_opts \<Rightarrow> int \<Rightarrow> nat \<Rightarrow> int option \<Rightarrow> wide \<Rightarrow> wide option" where
  "finish_char opts result_end n result w =
     (case result of
        None \<Rightarrow> Some (w\<lparr>w_result := None\<rparr>)
      | Some i \<Rightarrow>
          let w = w\<lparr>w_gd := advance_source n (w_gd w), w_result := Some i\<rparr> in
          if i = result_end
          then map_option (\<lambda>b. w\<lparr>w_buf := b, w_result := None\<rparr>) (put_unit opts i 0 (w_buf w))
          else Some w)"

text \<open>A character of one or two units; the flag is the \<open>break\<close>.\<close>

definition wide_char ::
    "get_opts \<Rightarrow> int \<Rightarrow> nat \<Rightarrow> u16 list \<Rightarrow> wide \<Rightarrow> (wide \<times> bool) option" where
  "wide_char opts result_end n us w =
     (let w1 = w\<lparr>w_used := w_used w + length us\<rparr> in
      case w_result w of
        None \<Rightarrow> Some (w1, False)
      | Some i \<Rightarrow>
          (case put_unit opts i (us ! 0) (w_buf w) of
             None \<Rightarrow> None
           | Some b \<Rightarrow>
               if length us \<le> 1
               then map_option (\<lambda>w. (w, False))
                      (finish_char opts result_end n (Some (i + 1)) (w1\<lparr>w_buf := b\<rparr>))
               else if i + 1 \<noteq> result_end
               then (case put_unit opts (i + 1) (us ! 1) b of
                       None \<Rightarrow> None
                     | Some b' \<Rightarrow>
                         map_option (\<lambda>w. (w, False))
                           (finish_char opts result_end n (Some (i + 2)) (w1\<lparr>w_buf := b'\<rparr>)))
               else
                 let gd = (w_gd w)\<lparr>gd_latest := us ! 1, gd_latest_bytes := 2, gd_latest_used := 0\<rparr> in
                 (case put_unit opts (i + 1) 0 b of
                    None \<Rightarrow> None
                  | Some b' \<Rightarrow>
                      let w2 = w1\<lparr>w_gd := gd, w_buf := b', w_result := None\<rparr> in
                      if gd_dst_bytes gd \<noteq> NOT_SET
                      then Some (w2\<lparr>w_gd := advance_source n gd\<rparr>, True)
                      else map_option (\<lambda>w. (w, False)) (finish_char opts result_end n None w2))))"

text \<open>The loop over the source; \<open>Inl\<close> when it leaves by an error. A character always takes at least one byte, so that the
  test of \<open>n\<close> only shows that the loop ends.\<close>

function wide_loop :: "get_opts \<Rightarrow> int \<Rightarrow> string \<Rightarrow> wide \<Rightarrow> (wide + wide) option" where
  "wide_loop opts result_end s w =
     (if s = [] then Some (Inr w)
      else case next_wide (gd_latest_bytes (w_gd w)) s of
        None \<Rightarrow> Some (Inl w)
      | Some (n, us, e) \<Rightarrow>
          if n = 0 then None
          else (case wide_char opts result_end n us (w\<lparr>w_errors := w_errors w + e\<rparr>) of
            None \<Rightarrow> None
          | Some (w', brk) \<Rightarrow>
              if brk then Some (Inr w') else wide_loop opts result_end (drop n s) w'))"
  by pat_completeness auto

termination
  by (relation "measure (\<lambda>(opts, e, s, w). length s)") auto

declare wide_loop.simps [simp del]

text \<open>What the call does before the loop: where it may write, and the unit left from the last call.\<close>

definition open_buffer :: "u16 list option \<Rightarrow> int \<Rightarrow> (int option \<times> u16 list option) option" where
  "open_buffer result result_len =
     (if result_len = 0 then Some (None, result)
      else if result_len = 1
      then (case result of None \<Rightarrow> None | Some b \<Rightarrow> map_option (\<lambda>b. (None, Some b)) (store 0 [0] b))
      else Some (if result = None then None else Some 0, result))"

definition put_latest :: "get_opts \<Rightarrow> int \<Rightarrow> wide \<Rightarrow> wide option" where
  "put_latest opts result_end w =
     (if gd_latest_bytes (w_gd w) = 0 then Some w
      else case w_result w of
        None \<Rightarrow> None
      | Some i \<Rightarrow>
          (case put_unit opts i (gd_latest (w_gd w)) (w_buf w) of
             None \<Rightarrow> None
           | Some b \<Rightarrow>
               let w' = w\<lparr>w_used := w_used w + 1, w_gd := (w_gd w)\<lparr>gd_latest_bytes := 0\<rparr>\<rparr> in
               if i + 1 = result_end
               then map_option (\<lambda>b. w'\<lparr>w_buf := b, w_result := None\<rparr>) (put_unit opts (i + 1) 0 b)
               else Some (w'\<lparr>w_buf := b, w_result := Some (i + 1)\<rparr>)))"

text \<open>What it does after the loop.\<close>

definition close_wide :: "get_opts \<Rightarrow> int \<Rightarrow> wide \<Rightarrow> u16 out option" where
  "close_wide opts result_len w =
     (case (case w_result w of None \<Rightarrow> Some (w_buf w) | Some i \<Rightarrow> put_unit opts i 0 (w_buf w)) of
        None \<Rightarrow> None
      | Some buf \<Rightarrow>
          let gd = (if result_len \<noteq> 0 \<and> gd_dst_bytes (w_gd w) = NOT_SET
                    then (w_gd w)\<lparr>gd_dst_bytes := w_used w * 2, gd_dst_offset := 0\<rparr> else w_gd w);
              avail = (if result_len \<noteq> 0 then sub64 (gd_dst_bytes gd) (gd_dst_offset gd) else w_used w * 2);
              copied = min (if result_len \<noteq> 0 then ulong (result_len - 1) else 0) (w_used w) * 2;
              gd' = gd\<lparr>gd_dst_offset := add64 (gd_dst_offset gd) copied\<rparr>;
              (rc, state) = truncation (result_len = 0 \<or> gd_dst_bytes gd' > gd_dst_offset gd')
          in Some \<lparr>o_rc = (if w_errors w \<noteq> 0 then SQL_SUCCESS_WITH_INFO else rc),
                   o_gd = gd', o_buf = buf,
                   o_avail = (if g_retrieve opts then Some avail else None),
                   o_state = (if w_errors w \<noteq> 0 then Some ''22018'' else state)\<rparr>)"

definition copy_wchar_result ::
    "get_opts \<Rightarrow> getdata \<Rightarrow> u16 list option \<Rightarrow> int \<Rightarrow> string \<Rightarrow> u16 out option" where
  "copy_wchar_result opts gd result result_len src =
     (let data = take (limited opts (length src)) src;
          gd1 = gd\<lparr>gd_source := Some (pointer (gd_source gd))\<rparr>
      in case open_buffer result result_len of
           None \<Rightarrow> None
         | Some (i, buf) \<Rightarrow>
             if gd_dst_bytes gd1 \<noteq> NOT_SET \<and> gd_dst_offset gd1 \<ge> gd_dst_bytes gd1
             then Some (no_data gd1 buf)
             else case put_latest opts (result_len - 1)
                         \<lparr>w_gd = gd1, w_result = i, w_buf = buf, w_used = 0, w_errors = 0\<rparr> of
               None \<Rightarrow> None
             | Some w \<Rightarrow>
                 (case wide_loop opts (result_len - 1) (drop (pointer (gd_source gd1)) data) w of
                    None \<Rightarrow> None
                  | Some (Inl w) \<Rightarrow>
                      Some \<lparr>o_rc = SQL_ERROR, o_gd = w_gd w, o_buf = w_buf w, o_avail = None,
                            o_state = Some ''HY000''\<rparr>
                  | Some (Inr w) \<Rightarrow> close_wide opts result_len w))"

section \<open>A binary parameter\<close>

text \<open>
  \<open>insert_param\<close> (\<^verbatim>\<open>driver/execute.cc\<close>) writes a binary parameter in hexadecimal, when the connection has
  no backslash escapes, with the same function and the same position of the statement. \<open>mem\<close> is the new room at
  the end of the buffer; \<open>transformed_len\<close> is 0 when it is not stored.
\<close>

definition sqlinteger :: "int \<Rightarrow> int" where
  "sqlinteger i = (i + 2 ^ 31) mod 2 ^ 32 - 2 ^ 31"

definition insert_hex_param ::
    "get_opts \<Rightarrow> (nat \<Rightarrow> string) \<Rightarrow> getdata \<Rightarrow> string \<Rightarrow> string \<Rightarrow> (getdata \<times> string) option" where
  "insert_hex_param opts mem gd buf data =
     (let n = length data * 2 + 1 in
      case copy_binhex_result (\<lambda>c. c) 1 opts gd (Some (mem n)) (sqlinteger (int n)) data of
        None \<Rightarrow> None
      | Some r \<Rightarrow>
          let transformed_len = (case o_avail r of None \<Rightarrow> 0 | Some a \<Rightarrow> a);
              written = (case o_buf r of None \<Rightarrow> [] | Some b \<Rightarrow> b)
          in Some (o_gd r, buf @ '' 0x'' @ take transformed_len written))"

end
