(* ===== verification/GetData_Props.thy ===== *)
theory GetData_Props
  imports GetData
begin

text \<open>
  Reading a column in pieces. The contract of all the copying routines is a locale: whatever sizes
  the pieces have, they are the consecutive parts of one list; a routine that also reports truncation
  correctly serves the loop every application uses, which calls \<open>SQLGetData\<close> until it no longer
  returns \<open>SQL_SUCCESS_WITH_INFO\<close>.
\<close>

section \<open>The contract\<close>

text \<open>Calls with buffers of the given sizes, and the loop of the application.\<close>

fun read_pieces :: "('s \<Rightarrow> nat \<Rightarrow> ('s \<times> 'u list \<times> int) option) \<Rightarrow> 's \<Rightarrow> nat list \<Rightarrow> ('u list \<times> int) list option" where
  "read_pieces call s [] = Some []"
| "read_pieces call s (n # ns) =
     (case call s n of
        None \<Rightarrow> None
      | Some (s', xs, rc) \<Rightarrow> map_option (\<lambda>rs. (xs, rc) # rs) (read_pieces call s' ns))"

fun get_all :: "nat \<Rightarrow> ('s \<Rightarrow> nat \<Rightarrow> ('s \<times> 'u list \<times> int) option) \<Rightarrow> 's \<Rightarrow> nat \<Rightarrow> 'u list option" where
  "get_all 0 call s n = None"
| "get_all (Suc k) call s n =
     (case call s n of
        None \<Rightarrow> None
      | Some (s', xs, rc) \<Rightarrow>
          if rc = SQL_SUCCESS_WITH_INFO then map_option (append xs) (get_all k call s' n)
          else if rc = SQL_SUCCESS then Some xs else None)"

locale piecewise =
  fixes call :: "'s \<Rightarrow> nat \<Rightarrow> ('s \<times> 'u list \<times> int) option"
    and reached :: "'s \<Rightarrow> nat option \<Rightarrow> bool"
    and data :: "'u list"
    and room :: "nat \<Rightarrow> nat"
    and fits :: "nat option \<Rightarrow> nat \<Rightarrow> bool"
  assumes next_piece: "reached s p \<Longrightarrow> p \<noteq> Some (length data) \<Longrightarrow> fits p n \<Longrightarrow>
      \<exists>s' rc. call s n = Some (s', take (room n) (drop (pointer p) data), rc) \<and>
        reached s' (Some (min (length data) (pointer p + room n)))"
    and all_read: "reached s (Some (length data)) \<Longrightarrow> fits (Some (length data)) n \<Longrightarrow>
      \<exists>s'. call s n = Some (s', [], SQL_NO_DATA_FOUND) \<and> reached s' (Some (length data))"
    and reached_le: "reached s (Some k) \<Longrightarrow> k \<le> length data"
    and fits_later: "fits (Some j) n \<Longrightarrow> fits (Some k) n"
begin

lemma take_pieces:
  "take a (drop p data) @ take b (drop (min (length data) (p + a)) data) = take (a + b) (drop p data)"
proof -
  have "take b (drop (min (length data) (p + a)) data) = take b (drop a (drop p data))"
    by (simp add: min_def add.commute)
  then show ?thesis by (simp add: take_add)
qed

lemma pieces:
  assumes "reached s p" and "ns \<noteq> [] \<Longrightarrow> fits p (hd ns)" and "\<And>n. n \<in> set (tl ns) \<Longrightarrow> fits (Some 0) n"
  shows "\<exists>rs. read_pieces call s ns = Some rs \<and>
    concat (map fst rs) = take (sum_list (map room ns)) (drop (pointer p) data)"
  using assms
proof (induction ns arbitrary: s p)
  case Nil
  then show ?case by simp
next
  case (Cons n ns)
  have f: "fits p n" using Cons.prems(2) by simp
  have later: "fits (Some k) m" if "m \<in> set ns" for k m
    by (rule fits_later [of 0]) (use Cons.prems(3) that in simp)
  have tl: "fits (Some 0) m" if "m \<in> set (tl ns)" for m
    using that by (intro later) (cases ns, auto)
  show ?case
  proof (cases "p = Some (length data)")
    case True
    obtain s' where c: "call s n = Some (s', [], SQL_NO_DATA_FOUND)" and r: "reached s' (Some (length data))"
      using all_read Cons.prems(1) f True by blast
    obtain rs where "read_pieces call s' ns = Some rs"
        "concat (map fst rs) = take (sum_list (map room ns)) (drop (pointer (Some (length data))) data)"
      using Cons.IH [OF r] later tl by (metis list.set_sel(1))
    with c True show ?thesis by (simp add: pointer_def)
  next
    case False
    obtain s' rc where c: "call s n = Some (s', take (room n) (drop (pointer p) data), rc)"
        and r: "reached s' (Some (min (length data) (pointer p + room n)))"
      using next_piece [OF Cons.prems(1) False f] by blast
    obtain rs where rs: "read_pieces call s' ns = Some rs"
        "concat (map fst rs) = take (sum_list (map room ns))
           (drop (pointer (Some (min (length data) (pointer p + room n)))) data)"
      using Cons.IH [OF r] later tl by (metis list.set_sel(1))
    have "concat (map fst ((take (room n) (drop (pointer p) data), rc) # rs)) =
        take (room n + sum_list (map room ns)) (drop (pointer p) data)"
      using rs(2) take_pieces [of "room n" "pointer p" "sum_list (map room ns)"]
      by (simp add: pointer_def)
    with c rs(1) show ?thesis by simp
  qed
qed

end

text \<open>A routine that also says truthfully whether there is more.\<close>

locale reporting = piecewise +
  assumes report: "reached s p \<Longrightarrow> p \<noteq> Some (length data) \<Longrightarrow> fits p n \<Longrightarrow>
      call s n = Some (s', xs, rc) \<Longrightarrow>
      rc = (if pointer p + room n < length data then SQL_SUCCESS_WITH_INFO else SQL_SUCCESS)"
begin

lemma loop_from:
  assumes "reached s p" and "p \<noteq> Some (length data)" and "fits p n" and "fits (Some 0) n" and "0 < room n"
    and "length data - pointer p < k"
  shows "get_all k call s n = Some (drop (pointer p) data)"
  using assms
proof (induction k arbitrary: s p)
  case 0
  then show ?case by simp
next
  case (Suc k)
  obtain s' rc where c: "call s n = Some (s', take (room n) (drop (pointer p) data), rc)"
      and r: "reached s' (Some (min (length data) (pointer p + room n)))"
    using next_piece Suc.prems(1-3) by blast
  note rc = report [OF Suc.prems(1-3) c]
  show ?case
  proof (cases "pointer p + room n < length data")
    case True
    have f: "fits (Some (pointer p + room n)) n" by (rule fits_later [OF Suc.prems(4)])
    have r': "reached s' (Some (pointer p + room n))" using r True by (simp add: min_def)
    have e: "get_all k call s' n = Some (drop (pointer (Some (pointer p + room n))) data)"
      by (rule Suc.IH [OF r' _ f Suc.prems(4,5)]) (use True Suc.prems(5,6) in \<open>auto simp: pointer_def\<close>)
    have rc': "rc = SQL_SUCCESS_WITH_INFO" using rc True by simp
    have "take (room n) (drop (pointer p) data) @ drop (pointer p + room n) data = drop (pointer p) data"
      by (metis add.commute append_take_drop_id drop_drop)
    then show ?thesis using c e rc' by (simp add: pointer_def)
  next
    case False
    then have "take (room n) (drop (pointer p) data) = drop (pointer p) data" by simp
    then show ?thesis using c rc False by (simp add: SQL_SUCCESS_WITH_INFO_def SQL_SUCCESS_def)
  qed
qed

lemma loop:
  assumes "reached s None" and "fits None n" and "fits (Some 0) n" and "0 < room n"
  shows "get_all (Suc (length data)) call s n = Some data"
  using loop_from [OF assms(1) _ assms(2-4), of "Suc (length data)"] by (simp add: pointer_def)

end

section \<open>Bytes and strings\<close>

text \<open>A call as the application makes it: a buffer of the stated size, whatever it held, of which it reads
  what the reported length and the size allow.\<close>

definition piece_call ::
    "(getdata \<Rightarrow> 'a list option \<Rightarrow> int \<Rightarrow> string \<Rightarrow> 'a out option) \<Rightarrow> (nat \<Rightarrow> nat \<Rightarrow> nat) \<Rightarrow>
     (nat \<Rightarrow> 'a list) \<Rightarrow> string \<Rightarrow> getdata \<Rightarrow> nat \<Rightarrow> (getdata \<times> 'a list \<times> int) option" where
  "piece_call copy shown fresh src gd n =
     (case copy gd (Some (fresh n)) (int n) src of
        None \<Rightarrow> None
      | Some r \<Rightarrow>
          Some (o_gd r,
            (case (o_avail r, o_buf r) of (Some a, Some b) \<Rightarrow> take (shown n a) b | _ \<Rightarrow> []), o_rc r))"

definition column :: "get_opts \<Rightarrow> string \<Rightarrow> string" where
  "column opts src = take (limited opts (length src)) src"

text \<open>The buffers have the size that is stated, and data is to be retrieved.\<close>

definition honest :: "get_opts \<Rightarrow> (nat \<Rightarrow> 'a list) \<Rightarrow> string \<Rightarrow> bool" where
  "honest opts fresh src \<longleftrightarrow> g_retrieve opts \<and> length src < 2 ^ 60 \<and> (\<forall>n. length (fresh n) = n)"

definition at_source :: "get_opts \<Rightarrow> (nat \<Rightarrow> char list) \<Rightarrow> string \<Rightarrow> getdata \<Rightarrow> nat option \<Rightarrow> bool" where
  "at_source opts fresh src gd p \<longleftrightarrow>
     honest opts fresh src \<and> gd_source gd = p \<and> pointer p \<le> length (column opts src)"

lemma length_column: "length (column opts src) = limited opts (length src)"
  by (simp add: column_def limited_def)

lemma limited_le: "limited opts n \<le> n"
  by (simp add: limited_def)

lemma ulong_nat: "n < 2 ^ 64 \<Longrightarrow> ulong (int n) = n"
  by (simp add: ulong_def)

lemma put_at_0: "length xs \<le> length buf \<Longrightarrow> take (length xs) (put_at 0 xs buf) = xs"
  by (simp add: put_at_def)

lemma length_put_at: "i + length xs \<le> length buf \<Longrightarrow> length (put_at i xs buf) = length buf"
  by (simp add: put_at_def)

lemma store_nat: "i + length xs \<le> length buf \<Longrightarrow> store (int i) xs buf = Some (put_at i xs buf)"
  by (simp add: store_def)

text \<open>What one call of \<open>copy_binary_result\<close> does.\<close>

lemma binary_call:
  assumes g: "g_retrieve opts" and src: "length src < 2 ^ 63" and n: "n < 2 ^ 63" and b: "n \<le> length buf"
    and p: "pointer (gd_source gd) \<le> length (column opts src)"
    and more: "gd_source gd \<noteq> Some (length (column opts src))"
  shows "copy_binary_result opts gd (Some buf) (int n) src =
    (let p = pointer (gd_source gd); rest = drop p (column opts src) in
     Some \<lparr>o_rc = (if p + n < length (column opts src) then SQL_SUCCESS_WITH_INFO else SQL_SUCCESS),
           o_gd = gd\<lparr>gd_source := Some (min (length (column opts src)) (p + n))\<rparr>,
           o_buf = Some (put_at 0 (take n rest) buf), o_avail = Some (length rest),
           o_state = (if p + n < length (column opts src) then Some ''01004'' else None)\<rparr>)"
proof -
  let ?p = "pointer (gd_source gd)" and ?l = "limited opts (length src)"
  have p': "?p \<le> ?l" using p by (simp add: length_column)
  have s: "sub64 ?l ?p = ?l - ?p" using p' by (simp add: sub64_def)
  have u: "ulong (int n) = n" using n by (simp add: ulong_def)
  have nz: "\<not> (gd_source gd \<noteq> None \<and> ?l - ?p = 0)"
    using more p' by (auto simp: length_column pointer_def)
  have bytes: "source_bytes src ?p (min n (?l - ?p)) = Some (take n (drop ?p (column opts src)))"
    using p' limited_le [of opts "length src"]
    by (auto simp: source_bytes_def column_def drop_take min_def)
  have len: "length (take n (drop ?p (column opts src))) \<le> length buf" using b by simp
  have out: "copy_bytes_to opts (Some buf) (int n) src ?p (min n (?l - ?p)) =
      Some (Some (put_at 0 (take n (drop ?p (column opts src))) buf))"
    using g bytes len store_nat [of 0 "take n (drop ?p (column opts src))" buf]
    by (auto simp: copy_bytes_to_def put_at_def)
  show ?thesis
    unfolding copy_binary_result_def Let_def s u out
    using nz g p' by (auto simp: truncation_def length_column min_def)
qed

lemma binary_done:
  assumes "gd_source gd = Some (length (column opts src))"
  shows "copy_binary_result opts gd result n src = Some (no_data gd result)"
  using assms by (simp add: copy_binary_result_def pointer_def length_column sub64_def Let_def split_beta)

lemma take_shown: "take (min (length (drop p xs)) n) (put_at 0 (take n (drop p xs)) buf) = take n (drop p xs)"
  if "n \<le> length buf"
proof -
  have "min (length (drop p xs)) n = length (take n (drop p xs))" by (simp add: min.commute)
  then show ?thesis using that by (metis length_take min.cobounded2 order_trans put_at_0)
qed

text \<open>A routine that keeps its place in \<open>source\<close> and obeys the law of one call obeys the contract.\<close>

lemma reporting_source:
  assumes finished: "\<And>gd n. gd_source gd = Some (length (column opts src)) \<Longrightarrow> fits n \<Longrightarrow>
      copy gd (Some (fresh n)) (int n) src = Some (no_data gd (Some (fresh n)))"
    and law: "\<And>gd p n. at_source opts fresh src gd p \<Longrightarrow> p \<noteq> Some (length (column opts src)) \<Longrightarrow> fits n \<Longrightarrow>
      \<exists>b a st. copy gd (Some (fresh n)) (int n) src =
        Some \<lparr>o_rc = (if pointer p + room n < length (column opts src) then SQL_SUCCESS_WITH_INFO else SQL_SUCCESS),
              o_gd = gd\<lparr>gd_source := Some (min (length (column opts src)) (pointer p + room n))\<rparr>,
              o_buf = Some b, o_avail = Some a, o_state = st\<rparr> \<and>
        take (shown n a) b = take (room n) (drop (pointer p) (column opts src))"
  shows "reporting (piece_call copy shown fresh src) (at_source opts fresh src) (column opts src) room (\<lambda>p. fits)"
proof
  fix gd p n
  assume r: "at_source opts fresh src gd p" and p: "p \<noteq> Some (length (column opts src))" and n: "fits n"
  obtain b a st where c: "copy gd (Some (fresh n)) (int n) src =
        Some \<lparr>o_rc = (if pointer p + room n < length (column opts src) then SQL_SUCCESS_WITH_INFO else SQL_SUCCESS),
              o_gd = gd\<lparr>gd_source := Some (min (length (column opts src)) (pointer p + room n))\<rparr>,
              o_buf = Some b, o_avail = Some a, o_state = st\<rparr>"
      and t: "take (shown n a) b = take (room n) (drop (pointer p) (column opts src))"
    using law [OF r p n] by blast
  show "\<exists>s' rc. piece_call copy shown fresh src gd n =
        Some (s', take (room n) (drop (pointer p) (column opts src)), rc) \<and>
      at_source opts fresh src s' (Some (min (length (column opts src)) (pointer p + room n)))"
    unfolding piece_call_def c using r t by (simp add: at_source_def pointer_def)
  show "rc = (if pointer p + room n < length (column opts src) then SQL_SUCCESS_WITH_INFO else SQL_SUCCESS)"
    if "piece_call copy shown fresh src gd n = Some (s', xs, rc)" for s' xs rc
    using that unfolding piece_call_def c by simp
next
  fix gd n
  assume "at_source opts fresh src gd (Some (length (column opts src)))" and "fits n"
  then show "\<exists>s'. piece_call copy shown fresh src gd n = Some (s', [], SQL_NO_DATA_FOUND) \<and>
      at_source opts fresh src s' (Some (length (column opts src)))"
    by (simp add: piece_call_def at_source_def finished no_data_def)
next
  show "k \<le> length (column opts src)" if "at_source opts fresh src gd (Some k)" for gd k
    using that by (simp add: at_source_def pointer_def)
qed simp

lemma at_sourceD:
  assumes "at_source opts fresh src gd p" and "p \<noteq> Some (length (column opts src))"
  shows "g_retrieve opts" "length src < 2 ^ 63" "length (fresh n) = n" "gd_source gd = p"
    "pointer (gd_source gd) \<le> length (column opts src)" "gd_source gd \<noteq> Some (length (column opts src))"
  using assms by (auto simp: at_source_def honest_def)

interpretation binary: reporting "piece_call (copy_binary_result opts) (\<lambda>n a. min a n) fresh src"
  "at_source opts fresh src" "column opts src" "\<lambda>n. n" "\<lambda>p n. n < 2 ^ 63"
  for opts fresh src
proof (rule reporting_source)
  fix gd p n
  assume r: "at_source opts fresh src gd p" and p: "p \<noteq> Some (length (column opts src))" and n: "n < (2::nat) ^ 63"
  note at = at_sourceD [OF r p]
  show "\<exists>b a st. copy_binary_result opts gd (Some (fresh n)) (int n) src =
        Some \<lparr>o_rc = (if pointer p + n < length (column opts src) then SQL_SUCCESS_WITH_INFO else SQL_SUCCESS),
              o_gd = gd\<lparr>gd_source := Some (min (length (column opts src)) (pointer p + n))\<rparr>,
              o_buf = Some b, o_avail = Some a, o_state = st\<rparr> \<and>
        take (min a n) b = take n (drop (pointer p) (column opts src))"
    using binary_call [OF at(1,2) n _ at(5,6)] at(3,4) take_shown [of n "fresh n"]
    by (auto simp: Let_def simp del: length_drop)
qed (rule binary_done)

section \<open>Strings\<close>

text \<open>The terminating NUL follows what was copied.\<close>

lemma store_after:
  "length xs < length buf \<Longrightarrow> store (int (length xs)) [c] (put_at 0 xs buf) = Some (put_at 0 (xs @ [c]) buf)"
  by (simp add: store_def put_at_def)

lemma take_min_length: "take (min (length xs) n) xs = take n xs"
  by (simp add: min_def)

lemma ansi_call:
  assumes g: "g_retrieve opts" and src: "length src < 2 ^ 63" and m: "m < 2 ^ 63" and b: "m < length buf"
    and p: "pointer (gd_source gd) \<le> length (column opts src)"
    and more: "gd_source gd \<noteq> Some (length (column opts src))"
  shows "copy_ansi_result opts gd (Some buf) (int (Suc m)) src =
    (let p = pointer (gd_source gd); rest = drop p (column opts src) in
     Some \<lparr>o_rc = (if p + m < length (column opts src) then SQL_SUCCESS_WITH_INFO else SQL_SUCCESS),
           o_gd = gd\<lparr>gd_source := Some (min (length (column opts src)) (p + m))\<rparr>,
           o_buf = Some (put_at 0 (take m rest @ [CHR 0x00]) buf), o_avail = Some (length rest),
           o_state = (if p + m < length (column opts src) then Some ''01004'' else None)\<rparr>)"
proof -
  let ?rest = "drop (pointer (gd_source gd)) (column opts src)"
  have i: "int (Suc m) - 1 = int m" by simp
  have short: "length ?rest < 2 ^ 63" using src limited_le [of opts "length src"] by (simp add: length_column)
  have end_: "min (slong (length ?rest)) (int m) = int (length (take m ?rest))"
    using short by (simp add: slong_def min.commute)
  have st: "store (int (length (take m ?rest))) [CHR 0x00] (put_at 0 (take m ?rest) buf) =
      Some (put_at 0 (take m ?rest @ [CHR 0x00]) buf)"
    by (rule store_after) (use b in \<open>simp add: min.strict_coboundedI2\<close>)
  show ?thesis
    unfolding copy_ansi_result_def Let_def i
    using g b
    by (simp add: binary_call [OF g src m _ p more] Let_def terminate_ansi_def end_ st
      del: length_drop length_take of_nat_Suc)
qed

lemma ansi_done:
  assumes "gd_source gd = Some (length (column opts src))"
  shows "copy_ansi_result opts gd (Some buf) n src = Some (no_data gd (Some buf))"
  using assms by (simp add: copy_ansi_result_def binary_done terminate_ansi_def no_data_def)

lemma take_before: "n \<le> length xs \<Longrightarrow> n < length buf \<Longrightarrow> take n (put_at 0 (take n xs @ [c]) buf) = take n xs"
  by (simp add: put_at_def)

interpretation ansi: reporting "piece_call (copy_ansi_result opts) (\<lambda>n a. min a (n - 1)) fresh src"
  "at_source opts fresh src" "column opts src" "\<lambda>n. n - 1" "\<lambda>p n. 0 < n \<and> n < 2 ^ 63"
  for opts fresh src
proof (rule reporting_source)
  fix gd p n
  assume r: "at_source opts fresh src gd p" and p: "p \<noteq> Some (length (column opts src))" and n: "0 < n \<and> n < (2::nat) ^ 63"
  note at = at_sourceD [OF r p]
  let ?rest = "drop (pointer p) (column opts src)"
  obtain m where m: "n = Suc m" using n by (cases n) auto
  have "take (min (length ?rest) m) (put_at 0 (take m ?rest @ [CHR 0x00]) (fresh n)) = take m ?rest"
    by (simp add: put_at_def take_min_length del: length_drop)
  then show "\<exists>b a st. copy_ansi_result opts gd (Some (fresh n)) (int n) src =
        Some \<lparr>o_rc = (if pointer p + (n - 1) < length (column opts src) then SQL_SUCCESS_WITH_INFO else SQL_SUCCESS),
              o_gd = gd\<lparr>gd_source := Some (min (length (column opts src)) (pointer p + (n - 1)))\<rparr>,
              o_buf = Some b, o_avail = Some a, o_state = st\<rparr> \<and>
        take (min a (n - 1)) b = take (n - 1) ?rest"
    using ansi_call [OF at(1,2) _ _ at(5,6), of m "fresh n"] n m at(3,4)
    by (auto simp: Let_def simp del: length_drop of_nat_Suc)
qed (rule ansi_done)

section \<open>Hexadecimal\<close>

definition hex_text :: "(char \<Rightarrow> 'a) \<Rightarrow> string \<Rightarrow> 'a list" where
  "hex_text cast src = map cast (concat (map hex_byte src))"

lemma length_hex_text [simp]: "length (hex_text cast src) = 2 * length src"
  by (induction src) (simp_all add: hex_text_def hex_byte_def)

lemma take_hex_text: "take (2 * k) (hex_text cast src) = hex_text cast (take k src)"
proof (induction k arbitrary: src)
  case (Suc k)
  then show ?case by (cases src) (simp_all add: hex_text_def hex_byte_def)
qed (simp add: hex_text_def)

lemma drop_hex_text: "drop (2 * k) (hex_text cast src) = hex_text cast (drop k src)"
proof (induction k arbitrary: src)
  case (Suc k)
  then show ?case by (cases src) (simp_all add: hex_text_def hex_byte_def)
qed simp

definition at_hex :: "get_opts \<Rightarrow> (nat \<Rightarrow> 'a list) \<Rightarrow> string \<Rightarrow> getdata \<Rightarrow> nat option \<Rightarrow> bool" where
  "at_hex opts fresh src gd p \<longleftrightarrow>
     honest opts fresh src \<and> g_max_length opts = 0 \<and>
     (case p of None \<Rightarrow> gd_src_offset gd = NOT_SET
      | Some k \<Rightarrow> even k \<and> k \<le> 2 * length src \<and> gd_src_offset gd = k div 2)"

lemma hex_call:
  assumes r: "at_hex opts fresh src gd p" and p: "p \<noteq> Some (2 * length src)" and n: "0 < n" "n < 2 ^ 31"
  shows "copy_binhex_result cast z opts gd (Some (fresh n)) (int n) src =
    (let k = pointer p div 2; l = (n - 1) div 2; left = length src - k; t = \<not> (k + min left l) * z \<ge> left in
     Some \<lparr>o_rc = fst (truncation t), o_gd = gd\<lparr>gd_src_offset := k + min left l\<rparr>,
           o_buf = Some (put_at 0 (hex_text cast (take l (drop k src)) @ [cast (CHR 0x00)]) (fresh n)),
           o_avail = Some (left * 2 * z), o_state = snd (truncation t)\<rparr>)"
proof -
  define l where "l = (n - 1) div 2"
  let ?k = "pointer p div 2"
  have h: "g_retrieve opts" "length (fresh n) = n" "length src < 2 ^ 60" "g_max_length opts = 0"
    using r by (auto simp: at_hex_def honest_def)
  have k: "?k \<le> length src" "p \<noteq> None \<Longrightarrow> ?k < length src"
    using r p by (auto simp: at_hex_def pointer_def split: option.splits)
  have off: "gd_src_offset gd = NOT_SET \<longleftrightarrow> p = None" and start: "p \<noteq> None \<Longrightarrow> gd_src_offset gd = ?k"
    using r h(3) by (auto simp: at_hex_def pointer_def NOT_SET_def split: option.splits)
  have u: "hex_room (int n) = l"
  proof -
    have "int n - 1 = int (n - 1)" using n by simp
    then have "ulong (int n - 1) = n - 1" using n ulong_nat [of "n - 1"] by simp
    then show ?thesis using n by (simp add: hex_room_def l_def)
  qed
  have s: "(if gd_src_offset gd = NOT_SET then 0 else gd_src_offset gd) = ?k"
    using off start by (auto simp: pointer_def)
  have sub: "sub64 (length src) ?k = length src - ?k" using k by (simp add: sub64_def)
  have bytes: "source_bytes src ?k (min (length src - ?k) l) = Some (take l (drop ?k src))"
    using k by (auto simp: source_bytes_def min_def)
  have len: "0 + length (hex_text cast (take l (drop ?k src)) @ [cast (CHR 0x00)]) \<le> length (fresh n)"
  proof -
    have "2 * l < n" using n unfolding l_def by linarith
    then show ?thesis using h(2) by (simp add: min_def)
  qed
  have st: "store 0 (map cast (concat (map hex_byte (take l (drop ?k src)))) @ [cast (CHR 0x00)]) (fresh n) =
      Some (put_at 0 (hex_text cast (take l (drop ?k src)) @ [cast (CHR 0x00)]) (fresh n))"
    using store_nat [OF len] by (simp add: hex_text_def)
  have go: "\<not> (gd_src_offset gd \<noteq> NOT_SET \<and> length src \<le> ?k)" using off k by auto
  show ?thesis
    unfolding copy_binhex_result_def Let_def h(4) s l_def [symmetric]
    using n h(1) by (simp only: if_not_P [OF go] simp_thms if_False split_beta)
      (simp add: sub u bytes st)
qed

interpretation hex: piecewise
  "piece_call (copy_binhex_result cast (Suc z) opts) (\<lambda>n a. min (a div Suc z) (2 * ((n - 1) div 2))) fresh src"
  "at_hex opts fresh src" "hex_text cast src" "\<lambda>n. 2 * ((n - 1) div 2)" "\<lambda>p n. 0 < n \<and> n < 2 ^ 31"
  for cast :: "char \<Rightarrow> 'a" and z opts fresh src
proof
  fix gd p n
  assume r: "at_hex opts fresh src gd p" and p: "p \<noteq> Some (length (hex_text cast src))" and n: "0 < n \<and> n < (2::nat) ^ 31"
  let ?k = "pointer p div 2" and ?l = "(n - 1) div 2"
  have e: "pointer p = 2 * ?k" and k: "?k \<le> length src"
    using r by (auto simp: at_hex_def pointer_def split: option.splits)
  have d: "take (2 * ?l) (drop (pointer p) (hex_text cast src)) = hex_text cast (take ?l (drop ?k src))"
    by (subst e) (simp only: drop_hex_text take_hex_text)
  have m: "min ((length src - ?k) * 2 * Suc z div Suc z) (2 * ?l) = length (hex_text cast (take ?l (drop ?k src)))"
    by (simp add: min_def del: mult_Suc_right)
  have t: "take (length xs) (put_at 0 (xs @ [c]) b) = xs" for xs b and c :: 'a
    by (simp add: put_at_def)
  have at': "at_hex opts fresh src (gd\<lparr>gd_src_offset := ?k + min (length src - ?k) ?l\<rparr>)
      (Some (min (length (hex_text cast src)) (pointer p + 2 * ?l)))"
  proof -
    have "even (pointer p)" by (subst e) simp
    then show ?thesis using r k e by (auto simp: at_hex_def min_def)
  qed
  have "p \<noteq> Some (2 * length src)" using p by simp
  from hex_call [OF r this conjunct1 [OF n] conjunct2 [OF n], of cast "Suc z", unfolded Let_def]
  have "piece_call (copy_binhex_result cast (Suc z) opts) (\<lambda>n a. min (a div Suc z) (2 * ((n - 1) div 2))) fresh src gd n =
      Some (gd\<lparr>gd_src_offset := ?k + min (length src - ?k) ?l\<rparr>, hex_text cast (take ?l (drop ?k src)),
        fst (truncation (\<not> (?k + min (length src - ?k) ?l) * Suc z \<ge> length src - ?k)))"
    by (simp only: piece_call_def option.case out.simps prod.case m t)
  then show "\<exists>s' rc. piece_call (copy_binhex_result cast (Suc z) opts) (\<lambda>n a. min (a div Suc z) (2 * ((n - 1) div 2)))
        fresh src gd n = Some (s', take (2 * ?l) (drop (pointer p) (hex_text cast src)), rc) \<and>
      at_hex opts fresh src s' (Some (min (length (hex_text cast src)) (pointer p + 2 * ?l)))"
    using at' d by (intro exI conjI) simp_all
next
  fix gd n
  assume r: "at_hex opts fresh src gd (Some (length (hex_text cast src)))" and n: "0 < n \<and> n < (2::nat) ^ 31"
  then have "gd_src_offset gd = length src" "length src \<noteq> NOT_SET" "g_max_length opts = 0"
    by (auto simp: at_hex_def honest_def NOT_SET_def)
  then have "copy_binhex_result cast (Suc z) opts gd b i src = Some (no_data gd b)" for b i
    by (simp add: copy_binhex_result_def Let_def split_beta)
  with r show "\<exists>s'. piece_call (copy_binhex_result cast (Suc z) opts) (\<lambda>n a. min (a div Suc z) (2 * ((n - 1) div 2)))
        fresh src gd n = Some (s', [], SQL_NO_DATA_FOUND) \<and> at_hex opts fresh src s' (Some (length (hex_text cast src)))"
    by (simp add: piece_call_def no_data_def)
next
  show "k \<le> length (hex_text cast src)" if "at_hex opts fresh src gd (Some k)" for gd k
    using that by (simp add: at_hex_def)
qed

end
