(* ===== verification/GetData_Wide.thy ===== *)
theory GetData_Wide
  imports GetData_Props
begin

text \<open>
  Reading a column as UTF-16 in pieces: on valid text \<open>copy_wchar_result\<close> delivers the consecutive units of
  its UTF-16 form, provided the end of the first piece does not fall between the two units of a
  character; what happens when it does; and what a limit on the length does to a character.
\<close>

section \<open>The text as UTF-16\<close>

function utf16_of :: "string \<Rightarrow> u16 list option" where
  "utf16_of s =
     (if s = [] then Some []
      else case my_mb_wc_utf8mb4 s of (n, wc) \<Rightarrow>
        if n \<le> 0 then None
        else map_option (append (snd (my_uni_utf16le wc))) (utf16_of (drop (nat n) s)))"
  by pat_completeness auto

termination
  by (relation "measure length") auto

declare utf16_of.simps [simp del]

definition low_unit :: "u16 \<Rightarrow> bool" where
  "low_unit u \<longleftrightarrow> 0xdc00 \<le> unat u \<and> unat u \<le> 0xdfff"

definition scalar_value :: "nat \<Rightarrow> bool" where
  "scalar_value wc \<longleftrightarrow> wc < 0xd800 \<or> (0xdfff < wc \<and> wc \<le> 0x10ffff)"

lemma wc3_less: "wc3 s < 65536"
proof -
  have "code (s ! 0) mod 16 < 16" "code (s ! 1) mod 64 < 64" "code (s ! 2) mod 64 < 64" by simp_all
  then show ?thesis unfolding wc3_def by linarith
qed

lemma my_mb_wc_scalar:
  assumes "my_mb_wc_utf8mb4 s = (n, wc)" and "0 < n"
  shows "nat n \<le> length s \<and> scalar_value wc"
proof -
  have two: "(c mod 32) * 64 + d mod 64 < 0xd800" for c d :: nat
  proof -
    have "c mod 32 < 32" "d mod 64 < 64" by simp_all
    then show ?thesis by linarith
  qed
  show ?thesis
    using assms wc3_less [of s] two [of "code (s ! 0)" "code (s ! 1)"]
    unfolding my_mb_wc_utf8mb4_def Let_def scalar_value_def
    by (auto simp: MY_CS_defs Suc_le_eq split: if_splits)
qed

lemma utf16_units:
  assumes "scalar_value wc"
  shows "(\<exists>a. my_uni_utf16le wc = (2, [a]) \<and> \<not> low_unit a) \<or>
    (\<exists>a b. my_uni_utf16le wc = (4, [a, b]) \<and> \<not> low_unit a \<and> low_unit b)"
proof (cases "wc \<le> 0xffff")
  case True
  with assms have "unat (of_nat wc :: u16) = wc" by (simp add: unat_of_nat)
  with True assms show ?thesis
    by (auto simp: my_uni_utf16le_def low_unit_def scalar_value_def)
next
  case False
  have h: "(wc - 0x10000) div 1024 < 1024" using assms False by (auto simp: scalar_value_def)
  have l: "(wc - 0x10000) mod 1024 < 1024" by simp
  have "unat (of_nat (0xd800 + (wc - 0x10000) div 1024) :: u16) = 0xd800 + (wc - 0x10000) div 1024"
    using h by (simp add: unat_of_nat del: of_nat_add)
  moreover have "unat (of_nat (0xdc00 + (wc - 0x10000) mod 1024) :: u16) = 0xdc00 + (wc - 0x10000) mod 1024"
    using l by (simp add: unat_of_nat del: of_nat_add)
  ultimately have "\<not> low_unit (of_nat (0xd800 + (wc - 0x10000) div 1024))"
      "low_unit (of_nat (0xdc00 + (wc - 0x10000) mod 1024))"
    using h l unfolding low_unit_def by linarith+
  with False assms show ?thesis
    by (auto simp: my_uni_utf16le_def scalar_value_def)
qed

text \<open>One character of valid text, as the loop reads it.\<close>

lemma utf16_of_cases:
  assumes "utf16_of s = Some us"
  obtains (end_of_text) "s = []" "us = []"
  | (one) n a us' where "\<And>lb. next_wide lb s = Some (n, [a], 0)" "0 < n" "n \<le> length s" "us = a # us'"
      "utf16_of (drop n s) = Some us'" "\<not> low_unit a" "s \<noteq> []"
  | (two) n a b us' where "\<And>lb. next_wide lb s = Some (n, [a, b], 0)" "0 < n" "n \<le> length s" "us = a # b # us'"
      "utf16_of (drop n s) = Some us'" "\<not> low_unit a" "low_unit b" "s \<noteq> []"
proof (cases "s = []")
  case True
  then show ?thesis using assms end_of_text by (simp add: utf16_of.simps)
next
  case False
  obtain n wc where m: "my_mb_wc_utf8mb4 s = (n, wc)" by fastforce
  obtain us' where pos: "0 < n" and rest: "utf16_of (drop (nat n) s) = Some us'" and us: "us = snd (my_uni_utf16le wc) @ us'"
    using assms False m by (subst (asm) utf16_of.simps) (auto split: if_splits)
  have v: "nat n \<le> length s" "scalar_value wc" using my_mb_wc_scalar [OF m pos] by auto
  have read: "read_char s = Some (nat n, wc, 0)" using m pos by (simp add: read_char_def MY_CS_defs)
  from utf16_units [OF v(2)] show ?thesis
  proof (elim disjE exE conjE)
    fix a
    assume "my_uni_utf16le wc = (2, [a])" "\<not> low_unit a"
    then show ?thesis
      using one [of "nat n" a us'] read pos rest us v(1) False by (simp add: next_wide_def)
  next
    fix a b
    assume "my_uni_utf16le wc = (4, [a, b])" "\<not> low_unit a" "low_unit b"
    then show ?thesis
      using two [of "nat n" a b us'] read pos rest us v(1) False by (simp add: next_wide_def)
  qed
qed

lemma utf16_of_no_low: "utf16_of s = Some (u # us) \<Longrightarrow> \<not> low_unit u"
  by (erule utf16_of_cases) auto

section \<open>The loop on valid text\<close>

text \<open>With nowhere to write it only counts.\<close>

lemma wide_loop_count:
  assumes "utf16_of s = Some us"
  shows "wide_loop opts e s \<lparr>w_gd = gd, w_result = None, w_buf = b, w_used = c, w_errors = er\<rparr> =
    Some (Inr \<lparr>w_gd = gd, w_result = None, w_buf = b, w_used = c + length us, w_errors = er\<rparr>)"
  using assms
proof (induction s arbitrary: us c rule: measure_induct_rule [where f = length])
  case (less s)
  have shorter: "length (drop n s) < length s" if "0 < n" "s \<noteq> []" for n using that by simp
  from less.prems show ?case
  proof (cases rule: utf16_of_cases)
    case end_of_text
    then show ?thesis by (simp add: wide_loop.simps)
  next
    case (one n a us')
    show ?thesis
      by (subst wide_loop.simps)
        (use one less.IH [OF shorter [OF one(2,7)] one(5)] in \<open>simp add: wide_char_def\<close>)
  next
    case (two n a b us')
    show ?thesis
      by (subst wide_loop.simps)
        (use two less.IH [OF shorter [OF two(2,8)] two(5)] in \<open>simp add: wide_char_def\<close>)
  qed
qed

lemma put_unit_in:
  "g_retrieve opts \<Longrightarrow> i < length b \<Longrightarrow> put_unit opts (int i) u (Some b) = Some (Some (put_at i [u] b))"
  by (simp add: put_unit_def store_def)

lemma put_at_snoc: "i + length xs < length b \<Longrightarrow> put_at (i + length xs) [u] (put_at i xs b) = put_at i (xs @ [u]) b"
  by (simp add: put_at_def add.commute [of i])

lemma put_at_Cons: "i < length b \<Longrightarrow> put_at (Suc i) xs (put_at i [u] b) = put_at i (u # xs) b"
  by (simp add: put_at_def add.commute [of "length xs" i])

lemma put_at_Cons2: "Suc i < length b \<Longrightarrow> put_at (Suc (Suc i)) xs (put_at i [u, v] b) = put_at i (u # v # xs) b"
  by (simp add: put_at_def add.commute [of "length xs" i])

text \<open>
  Where a buffer with room for \<open>k\<close> more units has been filled: the place the position is left at, when the
  end falls between two characters, between the units of one in a later piece, and in the first.
\<close>

definition filled :: "string \<Rightarrow> u16 list \<Rightarrow> nat \<Rightarrow> getdata \<Rightarrow> nat \<Rightarrow> getdata \<Rightarrow> nat \<Rightarrow> bool" where
  "filled d us k gd c gd' c' \<longleftrightarrow>
     (\<exists>m. m \<le> length d \<and>
        (gd' = gd\<lparr>gd_source := Some m\<rparr> \<and> c' = c + length us \<and> utf16_of (drop m d) = Some (drop k us) \<or>
         k < length us \<and> low_unit (us ! k) \<and>
         (if gd_dst_bytes gd \<noteq> NOT_SET
          then gd' = gd\<lparr>gd_latest := us ! k, gd_latest_bytes := 2, gd_latest_used := 0, gd_source := Some m\<rparr> \<and>
            c' = c + Suc k \<and> utf16_of (drop m d) = Some (drop (Suc k) us)
          else gd' = gd\<lparr>gd_latest := us ! k, gd_latest_bytes := 2, gd_latest_used := 0, gd_source := Some m\<rparr> \<and>
            c' = c + length us \<and> 0 < k \<and> utf16_of (drop m d) = Some (drop (k - 1) us))))"

lemma filled_Cons:
  assumes "filled d us k (gd\<lparr>gd_source := p\<rparr>) (Suc c) gd' c'" and "0 < k"
  shows "filled d (a # us) (Suc k) gd c gd' c'"
proof -
  have e: "drop (Suc k - 1) (a # us) = drop (k - 1) us" using assms(2) by (cases k) auto
  from assms(1) obtain m where "m \<le> length d" and
    "gd' = gd\<lparr>gd_source := Some m\<rparr> \<and> c' = Suc c + length us \<and> utf16_of (drop m d) = Some (drop k us) \<or>
         k < length us \<and> low_unit (us ! k) \<and>
         (if gd_dst_bytes gd \<noteq> NOT_SET
          then gd' = gd\<lparr>gd_latest := us ! k, gd_latest_bytes := 2, gd_latest_used := 0, gd_source := Some m\<rparr> \<and>
            c' = Suc c + Suc k \<and> utf16_of (drop m d) = Some (drop (Suc k) us)
          else gd' = gd\<lparr>gd_latest := us ! k, gd_latest_bytes := 2, gd_latest_used := 0, gd_source := Some m\<rparr> \<and>
            c' = Suc c + length us \<and> 0 < k \<and> utf16_of (drop m d) = Some (drop (k - 1) us))"
    unfolding filled_def by auto
  then show ?thesis unfolding filled_def e by (intro exI [of _ m]) auto
qed

lemma wide_loop_fill:
  assumes "g_retrieve opts" and "utf16_of (drop m d) = Some us" and "m \<le> length d" and "gd_source gd = Some m"
    and "0 < k" and "i + k < length b"
  shows "\<exists>w. wide_loop opts (int (i + k)) (drop m d)
      \<lparr>w_gd = gd, w_result = Some (int i), w_buf = Some b, w_used = c, w_errors = er\<rparr> = Some (Inr w) \<and>
    w_errors w = er \<and>
    (if length us < k
     then w = \<lparr>w_gd = gd\<lparr>gd_source := Some (length d)\<rparr>, w_result = Some (int (i + length us)),
       w_buf = Some (put_at i us b), w_used = c + length us, w_errors = er\<rparr>
     else w_result w = None \<and> w_buf w = Some (put_at i (take k us @ [0]) b) \<and>
       filled d us k gd c (w_gd w) (w_used w))"
  using assms
proof (induction "drop m d" arbitrary: m us gd i k b c rule: measure_induct_rule [where f = length])
  case less
  have shorter: "length (drop (m + n) d) < length (drop m d)" if "0 < n" "n \<le> length (drop m d)" for n
    using that by simp
  note put = put_unit_in [OF less.prems(1)]
  from less.prems(2) show ?case
  proof (cases rule: utf16_of_cases)
    case end_of_text
    then have "m = length d" using less.prems(3) by simp
    with end_of_text less.prems(4,5) show ?thesis by (simp add: wide_loop.simps put_at_def)
  next
    case (one n a us')
    have mn: "m + n \<le> length d" using one(3) less.prems(3) by simp
    have rest: "utf16_of (drop (m + n) d) = Some us'" using one(5) by (simp add: add.commute)
    let ?gd = "gd\<lparr>gd_source := Some (m + n)\<rparr>" and ?b = "put_at i [a] b"
    have len: "length ?b = length b" using less.prems(6) by (simp add: length_put_at)
    show ?thesis
    proof (cases "k = 1")
      case True
      have put2: "put_unit opts (1 + int i) 0 (Some ?b) = Some (Some (put_at i [a, 0] b))"
        using put [of "i + 1" ?b 0] put_at_snoc [of i "[a]" b 0] less.prems(6) len True by simp
      show ?thesis
        by (subst wide_loop.simps)
          (use one(1,2,4,6,7) True less.prems put [of i b a] put2 rest mn wide_loop_count [OF one(5)] in
           \<open>auto simp: wide_char_def finish_char_def advance_source_def pointer_def filled_def add.commute Let_def\<close>)
    next
      case False
      then obtain k' where k: "k = Suc k'" "0 < k'" using less.prems(5) by (cases k) auto
      obtain w where w: "wide_loop opts (int (Suc i + k')) (drop (m + n) d)
            \<lparr>w_gd = ?gd, w_result = Some (int (Suc i)), w_buf = Some ?b, w_used = Suc c, w_errors = er\<rparr> = Some (Inr w)"
          "w_errors w = er"
          "if length us' < k'
           then w = \<lparr>w_gd = ?gd\<lparr>gd_source := Some (length d)\<rparr>, w_result = Some (int (Suc i + length us')),
             w_buf = Some (put_at (Suc i) us' ?b), w_used = Suc c + length us', w_errors = er\<rparr>
           else w_result w = None \<and> w_buf w = Some (put_at (Suc i) (take k' us' @ [0]) ?b) \<and>
             filled d us' k' ?gd (Suc c) (w_gd w) (w_used w)"
        using less.hyps [OF shorter [OF one(2,3)] less.prems(1) rest mn, of ?gd k' "Suc i" ?b "Suc c"] k less.prems(6) len
        by auto
      have step: "wide_loop opts (int (i + k)) (drop m d)
            \<lparr>w_gd = gd, w_result = Some (int i), w_buf = Some b, w_used = c, w_errors = er\<rparr> =
          wide_loop opts (int (Suc i + k')) (drop (m + n) d)
            \<lparr>w_gd = ?gd, w_result = Some (int (Suc i)), w_buf = Some ?b, w_used = Suc c, w_errors = er\<rparr>"
        by (subst wide_loop.simps)
          (use one(1,2,7) k less.prems(4,6) put [of i b a] in
           \<open>auto simp: wide_char_def finish_char_def advance_source_def pointer_def add.commute Let_def\<close>)
      show ?thesis
        unfolding step w(1) using w(2,3) one(4) k filled_Cons [OF _ k(2), where d = d and us = us' and gd = gd and p = "Some (m + n)" and c = c and gd' = "w_gd w" and c' = "w_used w" and a = a]
          put_at_Cons [of i b _ a] less.prems(6)
        by auto
    qed
  next
    case (two n a a' us')
    have mn: "m + n \<le> length d" using two(3) less.prems(3) by simp
    have rest: "utf16_of (drop (m + n) d) = Some us'" using two(5) by (simp add: add.commute)
    let ?gd = "gd\<lparr>gd_source := Some (m + n)\<rparr>" and ?b1 = "put_at i [a] b" and ?b = "put_at i [a, a'] b"
    have len: "length ?b1 = length b" using less.prems(5,6) by (simp add: length_put_at)
    consider (split) "k = 1" | (exact) "k = 2" | (more) k' where "k = Suc (Suc k')" "0 < k'"
      using less.prems(5) by (metis One_nat_def Suc_1 gr0_implies_Suc gr0I)
    then show ?thesis
    proof cases
      case split
      have put2: "put_unit opts (1 + int i) 0 (Some ?b1) = Some (Some (put_at i [a, 0] b))"
        using put [of "i + 1" ?b1 0] put_at_snoc [of i "[a]" b 0] less.prems(6) len split by simp
      have same: "gd\<lparr>gd_latest := a', gd_latest_bytes := 2, gd_latest_used := 0, gd_source := Some m\<rparr> =
          gd\<lparr>gd_latest := a', gd_latest_bytes := 2, gd_latest_used := 0\<rparr>"
        using less.prems(4) by (cases gd) simp
      have f1: "filled d us 1 gd c (gd\<lparr>gd_latest := a', gd_latest_bytes := 2, gd_latest_used := 0,
          gd_source := Some (m + n)\<rparr>) (c + 2)" if "gd_dst_bytes gd \<noteq> NOT_SET"
        unfolding filled_def by (intro exI [of _ "m + n"]) (use that two(4,7) rest mn in simp)
      have f2: "filled d us 1 gd c (gd\<lparr>gd_latest := a', gd_latest_bytes := 2, gd_latest_used := 0\<rparr>) (c + length us)"
        if "gd_dst_bytes gd = NOT_SET"
        unfolding filled_def
        by (intro exI [of _ m]) (use that two(4,7) less.prems(2,3) same in simp)
      show ?thesis
        by (subst wide_loop.simps)
          (use two(1,2,4,6-8) split less.prems(4,5,6) put [of i b a] put2 wide_loop_count [OF two(5)] f1 f2 in
           \<open>auto simp: wide_char_def finish_char_def advance_source_def pointer_def add.commute Let_def\<close>)
    next
      case exact
      have len2: "length ?b = length b" using less.prems(6) exact by (simp add: length_put_at)
      have put2: "put_unit opts (1 + int i) a' (Some ?b1) = Some (Some ?b)"
        using put [of "i + 1" ?b1 a'] put_at_snoc [of i "[a]" b a'] less.prems(6) len exact by simp
      have put3: "put_unit opts (2 + int i) 0 (Some ?b) = Some (Some (put_at i [a, a', 0] b))"
        using put [of "i + 2" ?b 0] put_at_snoc [of i "[a, a']" b 0] less.prems(6) len2 exact by simp
      show ?thesis
        by (subst wide_loop.simps)
          (use two(1,2,4,6-8) exact less.prems put [of i b a] put2 put3 rest mn wide_loop_count [OF two(5)] in
           \<open>auto simp: wide_char_def finish_char_def advance_source_def pointer_def filled_def add.commute Let_def\<close>)
    next
      case more
      have len2: "length ?b = length b" using less.prems(6) more by (simp add: length_put_at)
      have put2: "put_unit opts (1 + int i) a' (Some ?b1) = Some (Some ?b)"
        using put [of "i + 1" ?b1 a'] put_at_snoc [of i "[a]" b a'] less.prems(6) len more by simp
      obtain w where w: "wide_loop opts (int (Suc (Suc i) + k')) (drop (m + n) d)
            \<lparr>w_gd = ?gd, w_result = Some (int (Suc (Suc i))), w_buf = Some ?b, w_used = Suc (Suc c), w_errors = er\<rparr> = Some (Inr w)"
          "w_errors w = er"
          "if length us' < k'
           then w = \<lparr>w_gd = ?gd\<lparr>gd_source := Some (length d)\<rparr>, w_result = Some (int (Suc (Suc i) + length us')),
             w_buf = Some (put_at (Suc (Suc i)) us' ?b), w_used = Suc (Suc c) + length us', w_errors = er\<rparr>
           else w_result w = None \<and> w_buf w = Some (put_at (Suc (Suc i)) (take k' us' @ [0]) ?b) \<and>
             filled d us' k' ?gd (Suc (Suc c)) (w_gd w) (w_used w)"
        using less.hyps [OF shorter [OF two(2,3)] less.prems(1) rest mn, of ?gd k' "Suc (Suc i)" ?b "Suc (Suc c)"]
          more less.prems(6) len2 by auto
      have step: "wide_loop opts (int (i + k)) (drop m d)
            \<lparr>w_gd = gd, w_result = Some (int i), w_buf = Some b, w_used = c, w_errors = er\<rparr> =
          wide_loop opts (int (Suc (Suc i) + k')) (drop (m + n) d)
            \<lparr>w_gd = ?gd, w_result = Some (int (Suc (Suc i))), w_buf = Some ?b, w_used = Suc (Suc c), w_errors = er\<rparr>"
        by (subst wide_loop.simps)
          (use two(1,2,8) more less.prems(4,6) put [of i b a] put2 in
           \<open>auto simp: wide_char_def finish_char_def advance_source_def pointer_def add.commute Let_def\<close>)
      have f: "filled d (a # a' # us') (Suc (Suc k')) gd c (w_gd w) (w_used w)"
        if "filled d us' k' ?gd (Suc (Suc c)) (w_gd w) (w_used w)"
        by (rule filled_Cons [where p = "Some (m + n)"])
          (use filled_Cons [where d = d and us = us' and k = k' and gd = ?gd and p = "Some (m + n)" and c = "Suc c" and gd' = "w_gd w" and c' = "w_used w" and a = a'] that more in simp_all)
      show ?thesis
        unfolding step w(1) using w(2,3) two(4) more f put_at_Cons2 [of i b _ a a'] less.prems(6)
        by auto
    qed
  qed
qed

lemma utf16_of_Nil [simp]: "utf16_of [] = Some []"
  by (simp add: utf16_of.simps)

text \<open>The loop and the terminator together.\<close>

lemma wide_loop_end:
  assumes "g_retrieve opts" and "utf16_of (drop m d) = Some us" and "m \<le> length d" and "gd_source gd = Some m"
    and "0 < k" and "i + k < length b"
  shows "\<exists>w. wide_loop opts (int (i + k)) (drop m d)
      \<lparr>w_gd = gd, w_result = Some (int i), w_buf = Some b, w_used = c, w_errors = er\<rparr> = Some (Inr w) \<and>
    w_errors w = er \<and>
    (case w_result w of None \<Rightarrow> Some (w_buf w) | Some j \<Rightarrow> put_unit opts j 0 (w_buf w)) =
      Some (Some (put_at i (take k us @ [0]) b)) \<and>
    filled d us k gd c (w_gd w) (w_used w)"
proof -
  obtain w where w: "wide_loop opts (int (i + k)) (drop m d)
        \<lparr>w_gd = gd, w_result = Some (int i), w_buf = Some b, w_used = c, w_errors = er\<rparr> = Some (Inr w)" "w_errors w = er"
      "if length us < k
       then w = \<lparr>w_gd = gd\<lparr>gd_source := Some (length d)\<rparr>, w_result = Some (int (i + length us)),
         w_buf = Some (put_at i us b), w_used = c + length us, w_errors = er\<rparr>
       else w_result w = None \<and> w_buf w = Some (put_at i (take k us @ [0]) b) \<and>
         filled d us k gd c (w_gd w) (w_used w)"
    using wide_loop_fill [OF assms] by blast
  show ?thesis
  proof (cases "length us < k")
    case True
    have "length (put_at i us b) = length b" using True assms(6) by (simp add: length_put_at)
    then have "put_unit opts (int (i + length us)) 0 (Some (put_at i us b)) = Some (Some (put_at i (us @ [0]) b))"
      using put_unit_in [OF assms(1), of "i + length us" "put_at i us b" 0] put_at_snoc [of i us b 0] True assms(6) by simp
    moreover have "filled d us k gd c (gd\<lparr>gd_source := Some (length d)\<rparr>) (c + length us)"
      unfolding filled_def by (intro exI [of _ "length d"]) (use True in simp)
    ultimately show ?thesis using w True by (intro exI [of _ w]) simp
  next
    case False
    with w show ?thesis by (intro exI [of _ w]) simp
  qed
qed

section \<open>One call\<close>

text \<open>The position after \<open>k\<close> units of the text \<open>u\<close> of the column \<open>d\<close>.\<close>

definition wide_pos :: "string \<Rightarrow> u16 list \<Rightarrow> getdata \<Rightarrow> nat \<Rightarrow> bool" where
  "wide_pos d u gd k \<longleftrightarrow>
     k \<le> length u \<and> gd_dst_bytes gd = 2 * length u \<and> gd_dst_offset gd = 2 * k \<and>
     (\<exists>m. m \<le> length d \<and> gd_source gd = Some m \<and>
        (gd_latest_bytes gd = 0 \<and> utf16_of (drop m d) = Some (drop k u) \<or>
         gd_latest_bytes gd = 2 \<and> k < length u \<and> gd_latest gd = u ! k \<and> utf16_of (drop m d) = Some (drop (Suc k) u)))"

definition fresh_pos :: "getdata \<Rightarrow> bool" where
  "fresh_pos gd \<longleftrightarrow> gd_source gd = None \<and> gd_dst_bytes gd = NOT_SET \<and> gd_dst_offset gd = NOT_SET \<and>
     gd_latest_bytes gd = 0"

lemma length_utf16: "utf16_of s = Some us \<Longrightarrow> length us \<le> 2 * length s"
proof (induction s arbitrary: us rule: measure_induct_rule [where f = length])
  case (less s)
  from less.prems show ?case
  proof (cases rule: utf16_of_cases)
    case (one n a us')
    have "length us' \<le> 2 * length (drop n s)" by (rule less.IH [OF _ one(5)]) (use one(2,7) in simp)
    then show ?thesis using one(2,3,4) by simp
  next
    case (two n a b us')
    have "length us' \<le> 2 * length (drop n s)" by (rule less.IH [OF _ two(5)]) (use two(2,8) in simp)
    then show ?thesis using two(2,3,4) by simp
  qed simp
qed

lemma close_wide_eq:
  assumes g: "g_retrieve opts" and "w_errors w = 0" and r: "r < 2 ^ 31" and L: "L < 2 ^ 62" and k: "k \<le> L"
    and buf: "(case w_result w of None \<Rightarrow> Some (w_buf w) | Some i \<Rightarrow> put_unit opts i 0 (w_buf w)) = Some B"
    and m: "min r (w_used w) = min r (L - k)"
    and dst: "gd_dst_bytes (w_gd w) = 2 * L \<and> gd_dst_offset (w_gd w) = 2 * k \<or>
      gd_dst_bytes (w_gd w) = NOT_SET \<and> k = 0 \<and> w_used w = L"
  shows "close_wide opts (int (Suc r)) w =
    Some \<lparr>o_rc = (if k + r < L then SQL_SUCCESS_WITH_INFO else SQL_SUCCESS),
          o_gd = (w_gd w)\<lparr>gd_dst_bytes := 2 * L, gd_dst_offset := 2 * min L (k + r)\<rparr>, o_buf = B,
          o_avail = Some (2 * (L - k)), o_state = (if k + r < L then Some ''01004'' else None)\<rparr>"
proof -
  have u: "ulong (int (Suc r) - 1) = r" using r by (simp add: ulong_def)
  have ns: "2 * L \<noteq> NOT_SET" using L by (simp add: NOT_SET_def)
  define gd where "gd = (w_gd w)\<lparr>gd_dst_bytes := 2 * L, gd_dst_offset := 2 * k\<rparr>"
  have gd: "(if int (Suc r) \<noteq> 0 \<and> gd_dst_bytes (w_gd w) = NOT_SET
      then (w_gd w)\<lparr>gd_dst_bytes := w_used w * 2, gd_dst_offset := 0\<rparr> else w_gd w) = gd"
    using dst ns by (cases "w_gd w") (auto simp: gd_def)
  have sum: "2 * k + min r (L - k) * 2 = 2 * min L (k + r)" using k by (auto simp: min_def)
  have off: "add64 (2 * k) (min r (w_used w) * 2) = 2 * min L (k + r)"
    unfolding m add64_def using sum L by simp
  have av: "sub64 (2 * L) (2 * k) = 2 * (L - k)"
    using k by (simp add: sub64_def diff_mult_distrib2)
  have more: "2 * L > 2 * min L (k + r) \<longleftrightarrow> k + r < L" by (auto simp: min_def)
  show ?thesis
    unfolding close_wide_def gd Let_def
    using buf assms(1,2) by (simp add: u off av truncation_def gd_def more del: of_nat_Suc)
qed

lemma filled_pos:
  assumes f: "filled d (drop j us) k gd c gd' c'" and gd: "gd_dst_bytes gd = 2 * length us" "gd_dst_bytes gd \<noteq> NOT_SET"
      "gd_latest_bytes gd = 0"
    and j: "j \<le> length us"
  shows "wide_pos d us (gd'\<lparr>gd_dst_bytes := 2 * length us, gd_dst_offset := 2 * min (length us) (j + k)\<rparr>) (min (length us) (j + k))"
    and "gd_dst_bytes gd' = gd_dst_bytes gd" and "gd_dst_offset gd' = gd_dst_offset gd"
    and "c' = c + (length us - j) \<or> c' = c + Suc k \<and> j + k < length us"
proof -
  obtain m where m: "m \<le> length d" and
    c: "gd' = gd\<lparr>gd_source := Some m\<rparr> \<and> c' = c + length (drop j us) \<and> utf16_of (drop m d) = Some (drop k (drop j us)) \<or>
      k < length (drop j us) \<and> c' = c + Suc k \<and>
      gd' = gd\<lparr>gd_latest := drop j us ! k, gd_latest_bytes := 2, gd_latest_used := 0, gd_source := Some m\<rparr> \<and>
      utf16_of (drop m d) = Some (drop (Suc k) (drop j us))"
    using f gd(2) unfolding filled_def by auto
  have d: "drop (min (length us) (j + k)) us = drop k (drop j us)" by (simp add: min_def add.commute)
  show "wide_pos d us (gd'\<lparr>gd_dst_bytes := 2 * length us, gd_dst_offset := 2 * min (length us) (j + k)\<rparr>) (min (length us) (j + k))"
    unfolding wide_pos_def
  proof (intro conjI exI [of _ m])
    from c show "gd_latest_bytes (gd'\<lparr>gd_dst_bytes := 2 * length us, gd_dst_offset := 2 * min (length us) (j + k)\<rparr>) = 0 \<and>
        utf16_of (drop m d) = Some (drop (min (length us) (j + k)) us) \<or>
      gd_latest_bytes (gd'\<lparr>gd_dst_bytes := 2 * length us, gd_dst_offset := 2 * min (length us) (j + k)\<rparr>) = 2 \<and>
        min (length us) (j + k) < length us \<and>
        gd_latest (gd'\<lparr>gd_dst_bytes := 2 * length us, gd_dst_offset := 2 * min (length us) (j + k)\<rparr>) = us ! min (length us) (j + k) \<and>
        utf16_of (drop m d) = Some (drop (Suc (min (length us) (j + k))) us)"
      unfolding d using gd(3) by (auto simp: add.commute min_def)
  qed (use c m in auto)
  from c show "gd_dst_bytes gd' = gd_dst_bytes gd" "gd_dst_offset gd' = gd_dst_offset gd" by auto
  from c show "c' = c + (length us - j) \<or> c' = c + Suc k \<and> j + k < length us" by auto
qed

text \<open>The unit left from the call before, and the loop.\<close>

lemma latest_loop:
  assumes g: "g_retrieve opts" and lb: "gd_latest_bytes gd = 2" "gd_latest gd = x" and s: "utf16_of (drop m d) = Some v"
    and m: "m \<le> length d" "gd_source gd = Some m" and b: "Suc q < length buf"
  shows "\<exists>w1 w. put_latest opts (int (Suc q))
        \<lparr>w_gd = gd, w_result = Some 0, w_buf = Some buf, w_used = 0, w_errors = 0\<rparr> = Some w1 \<and>
      wide_loop opts (int (Suc q)) (drop m d) w1 = Some (Inr w) \<and> w_errors w = 0 \<and>
      (case w_result w of None \<Rightarrow> Some (w_buf w) | Some i \<Rightarrow> put_unit opts i 0 (w_buf w)) =
        Some (Some (put_at 0 (x # take q v @ [0]) buf)) \<and>
      (if q = 0 then w_gd w = gd\<lparr>gd_latest_bytes := 0\<rparr> \<and> w_used w = 1 + length v
       else filled d v q (gd\<lparr>gd_latest_bytes := 0\<rparr>) 1 (w_gd w) (w_used w))"
proof -
  let ?gd = "gd\<lparr>gd_latest_bytes := 0\<rparr>" and ?b = "put_at 0 [x] buf"
  let ?w0 = "\<lparr>w_gd = gd, w_result = Some 0, w_buf = Some buf, w_used = 0, w_errors = 0\<rparr>"
  have ne: "0 < length buf" using b by (rule le_less_trans [OF le0])
  have put0: "put_unit opts 0 x (Some buf) = Some (Some ?b)" using put_unit_in [OF g ne] by simp
  have len: "length ?b = length buf" using b by (intro length_put_at) simp
  have B: "put_at 1 xs ?b = put_at 0 (x # xs) buf" for xs using put_at_Cons [OF ne] by simp
  show ?thesis
  proof (cases "q = 0")
    case True
    let ?w1 = "\<lparr>w_gd = ?gd, w_result = None, w_buf = Some (put_at 0 [x, 0] buf), w_used = 1, w_errors = 0\<rparr>"
    have "put_unit opts 1 0 (Some ?b) = Some (Some (put_at 0 [x, 0] buf))"
      using put_unit_in [OF g, of 1 ?b 0] b len True B [of "[0]"] by simp
    then have p: "put_latest opts (int (Suc q)) ?w0 = Some ?w1"
      using lb put0 True by (simp add: put_latest_def)
    show ?thesis
      by (intro exI [of _ ?w1] exI [of _ "?w1\<lparr>w_used := 1 + length v\<rparr>"] conjI p)
        (use True wide_loop_count [OF s, of opts "int (Suc q)" ?gd "Some (put_at 0 [x, 0] buf)" 1 0] in simp_all)
  next
    case False
    let ?w1 = "\<lparr>w_gd = ?gd, w_result = Some (int 1), w_buf = Some ?b, w_used = 1, w_errors = 0\<rparr>"
    have p: "put_latest opts (int (Suc q)) ?w0 = Some ?w1"
      using lb put0 False by (simp add: put_latest_def)
    have src1: "gd_source ?gd = Some m" and e1: "int (1 + q) = int (Suc q)" using m(2) by simp_all
    have b1: "1 + q < length ?b" using b len by simp
    obtain w where w: "wide_loop opts (int (Suc q)) (drop m d) ?w1 = Some (Inr w)" "w_errors w = 0"
        "(case w_result w of None \<Rightarrow> Some (w_buf w) | Some i \<Rightarrow> put_unit opts i 0 (w_buf w)) =
          Some (Some (put_at 1 (take q v @ [0]) ?b))"
        "filled d v q ?gd 1 (w_gd w) (w_used w)"
      using wide_loop_end [OF g s m(1) src1 _ b1, of 1 0] False unfolding e1 by blast
    show ?thesis
      by (intro exI [of _ ?w1] exI [of _ w] conjI p w(1,2)) (use w(3,4) False B in simp_all)
  qed
qed

text \<open>A later call.\<close>

lemma wide_call:
  assumes g: "g_retrieve opts" and src: "length src < 2 ^ 60" and u: "utf16_of (column opts src) = Some us"
    and pos: "wide_pos (column opts src) us gd k" and more: "k < length us" and r: "0 < r" "r < 2 ^ 31" and b: "r < length buf"
  shows "\<exists>gd' st. copy_wchar_result opts gd (Some buf) (int (Suc r)) src =
      Some \<lparr>o_rc = (if k + r < length us then SQL_SUCCESS_WITH_INFO else SQL_SUCCESS), o_gd = gd',
            o_buf = Some (put_at 0 (take r (drop k us) @ [0]) buf), o_avail = Some (2 * (length us - k)), o_state = st\<rparr> \<and>
    wide_pos (column opts src) us gd' (min (length us) (k + r))"
proof -
  define d where "d = column opts src"
  note pos = pos [folded d_def] and u = u [folded d_def]
  have L: "length us < 2 ^ 62"
    using length_utf16 [OF u] src limited_le [of opts "length src"] by (simp add: d_def length_column)
  obtain m where m: "m \<le> length d" "gd_source gd = Some m" and dst: "gd_dst_bytes gd = 2 * length us" "gd_dst_offset gd = 2 * k"
    and cases: "gd_latest_bytes gd = 0 \<and> utf16_of (drop m d) = Some (drop k us) \<or>
         gd_latest_bytes gd = 2 \<and> gd_latest gd = us ! k \<and> utf16_of (drop m d) = Some (drop (Suc k) us)"
    using pos unfolding wide_pos_def by blast
  have gd1: "gd\<lparr>gd_source := Some m\<rparr> = gd" using m by (cases gd) simp
  have ns: "gd_dst_bytes gd \<noteq> NOT_SET" using dst L by (simp add: NOT_SET_def)
  have e: "int (Suc r) - 1 = int r" by simp
  have open1: "open_buffer (Some buf) (int (Suc r)) = Some (Some 0, Some buf)" using r by (simp add: open_buffer_def)
  have undelivered: "\<not> (gd_dst_bytes gd \<noteq> NOT_SET \<and> gd_dst_bytes gd \<le> gd_dst_offset gd)" using dst more by simp
  let ?w0 = "\<lparr>w_gd = gd, w_result = Some 0, w_buf = Some buf, w_used = 0, w_errors = 0\<rparr>"
  let ?B = "Some (put_at 0 (take r (drop k us) @ [0]) buf)"
  have "\<exists>w1 w. put_latest opts (int r) ?w0 = Some w1 \<and> wide_loop opts (int r) (drop m d) w1 = Some (Inr w) \<and> w_errors w = 0 \<and>
      (case w_result w of None \<Rightarrow> Some (w_buf w) | Some i \<Rightarrow> put_unit opts i 0 (w_buf w)) = Some ?B \<and>
      min r (w_used w) = min r (length us - k) \<and> gd_dst_bytes (w_gd w) = 2 * length us \<and> gd_dst_offset (w_gd w) = 2 * k \<and>
      wide_pos d us ((w_gd w)\<lparr>gd_dst_bytes := 2 * length us, gd_dst_offset := 2 * min (length us) (k + r)\<rparr>)
        (min (length us) (k + r))"
  proof (cases "gd_latest_bytes gd = 0")
    case True
    then have s: "utf16_of (drop m d) = Some (drop k us)" using cases by simp
    obtain w where w: "wide_loop opts (int r) (drop m d) ?w0 = Some (Inr w)" "w_errors w = 0"
        "(case w_result w of None \<Rightarrow> Some (w_buf w) | Some i \<Rightarrow> put_unit opts i 0 (w_buf w)) = Some ?B"
        "filled d (drop k us) r gd 0 (w_gd w) (w_used w)"
      using wide_loop_end [OF g s m(1,2) r(1), of 0 buf 0 0] b by auto
    note f = filled_pos [OF w(4) dst(1) ns True less_imp_le [OF more]]
    have "min r (w_used w) = min r (length us - k)" using f(4) by auto
    then show ?thesis
      by (intro exI [of _ ?w0] exI [of _ w] conjI w(1-3) f(1))
        (use True f(2,3) dst in \<open>simp_all add: put_latest_def\<close>)
  next
    case False
    then have lb: "gd_latest_bytes gd = 2" "gd_latest gd = us ! k" and s: "utf16_of (drop m d) = Some (drop (Suc k) us)"
      using cases by auto
    obtain q where q: "r = Suc q" using r(1) by (cases r) auto
    have head: "take r (drop k us) = us ! k # take q (drop (Suc k) us)"
      unfolding q by (simp flip: Cons_nth_drop_Suc [OF more])
    let ?gd = "gd\<lparr>gd_latest_bytes := 0\<rparr>"
    obtain w1 w where w: "put_latest opts (int r) ?w0 = Some w1" "wide_loop opts (int r) (drop m d) w1 = Some (Inr w)"
        "w_errors w = 0"
        "(case w_result w of None \<Rightarrow> Some (w_buf w) | Some i \<Rightarrow> put_unit opts i 0 (w_buf w)) = Some ?B"
      and f: "if q = 0 then w_gd w = ?gd \<and> w_used w = 1 + length (drop (Suc k) us)
        else filled d (drop (Suc k) us) q ?gd 1 (w_gd w) (w_used w)"
      using latest_loop [OF g lb s m b [unfolded q]] unfolding q [symmetric] head append_Cons by blast
    have "min r (w_used w) = min r (length us - k) \<and> gd_dst_bytes (w_gd w) = 2 * length us \<and> gd_dst_offset (w_gd w) = 2 * k \<and>
      wide_pos d us ((w_gd w)\<lparr>gd_dst_bytes := 2 * length us, gd_dst_offset := 2 * min (length us) (k + r)\<rparr>)
        (min (length us) (k + r))"
    proof (cases "q = 0")
      case True
      have "wide_pos d us (?gd\<lparr>gd_dst_bytes := 2 * length us, gd_dst_offset := 2 * min (length us) (k + r)\<rparr>) (min (length us) (k + r))"
        unfolding wide_pos_def using m s more q True by (intro conjI exI [of _ m]) simp_all
      then show ?thesis using f dst q True more by simp
    next
      case False
      have j: "Suc k \<le> length us" and dst1: "gd_dst_bytes ?gd = 2 * length us" "gd_dst_bytes ?gd \<noteq> NOT_SET" "gd_latest_bytes ?gd = 0"
        using more dst ns by simp_all
      have "filled d (drop (Suc k) us) q ?gd 1 (w_gd w) (w_used w)" using f False by simp
      note f = filled_pos [OF this dst1 j]
      have kr: "Suc k + q = k + r" using q by simp
      have "min r (w_used w) = min r (length us - k)" using f(4) q more by auto
      then show ?thesis using f(1) [unfolded kr] f(2,3) dst by simp
    qed
    with w show ?thesis by blast
  qed
  then obtain w1 w where p: "put_latest opts (int r) ?w0 = Some w1" and l: "wide_loop opts (int r) (drop m d) w1 = Some (Inr w)"
    and w: "w_errors w = 0" "(case w_result w of None \<Rightarrow> Some (w_buf w) | Some i \<Rightarrow> put_unit opts i 0 (w_buf w)) = Some ?B"
      "min r (w_used w) = min r (length us - k)" "gd_dst_bytes (w_gd w) = 2 * length us" "gd_dst_offset (w_gd w) = 2 * k"
    and pos': "wide_pos d us ((w_gd w)\<lparr>gd_dst_bytes := 2 * length us, gd_dst_offset := 2 * min (length us) (k + r)\<rparr>)
        (min (length us) (k + r))"
    by blast
  have close: "close_wide opts (int (Suc r)) w =
    Some \<lparr>o_rc = (if k + r < length us then SQL_SUCCESS_WITH_INFO else SQL_SUCCESS),
          o_gd = (w_gd w)\<lparr>gd_dst_bytes := 2 * length us, gd_dst_offset := 2 * min (length us) (k + r)\<rparr>, o_buf = ?B,
          o_avail = Some (2 * (length us - k)), o_state = (if k + r < length us then Some ''01004'' else None)\<rparr>"
    by (rule close_wide_eq [OF g w(1) r(2) L less_imp_le [OF more] w(2,3)]) (use w(4,5) in simp)
  have ptr: "pointer (gd_source gd) = m" using m(2) by (simp add: pointer_def)
  have "copy_wchar_result opts gd (Some buf) (int (Suc r)) src = close_wide opts (int (Suc r)) w"
    unfolding copy_wchar_result_def Let_def gd1 open1 e option.case prod.case if_not_P [OF undelivered]
      column_def [symmetric] d_def [symmetric] p ptr l sum.case ..
  with close pos' show ?thesis by (fold d_def) (intro exI conjI; simp)
qed

text \<open>The first call: unless it splits a character, it leaves a position; if it does, the character is
  converted once more, after the unit that is kept.\<close>

definition splits :: "u16 list \<Rightarrow> nat \<Rightarrow> bool" where
  "splits us r \<longleftrightarrow> r < length us \<and> low_unit (us ! r)"

definition split_pos :: "string \<Rightarrow> u16 list \<Rightarrow> getdata \<Rightarrow> nat \<Rightarrow> bool" where
  "split_pos d us gd r \<longleftrightarrow>
     gd_dst_bytes gd = 2 * length us \<and> gd_dst_offset gd = 2 * r \<and> 0 < r \<and>
     gd_latest_bytes gd = 2 \<and> gd_latest gd = us ! r \<and>
     (\<exists>m. m \<le> length d \<and> gd_source gd = Some m \<and> utf16_of (drop m d) = Some (drop (r - 1) us))"

lemma wide_first:
  assumes g: "g_retrieve opts" and src: "length src < 2 ^ 60" and u: "utf16_of (column opts src) = Some us"
    and pos: "fresh_pos gd" and r: "0 < r" "r < 2 ^ 31" and b: "r < length buf"
  shows "\<exists>gd' st. copy_wchar_result opts gd (Some buf) (int (Suc r)) src =
      Some \<lparr>o_rc = (if r < length us then SQL_SUCCESS_WITH_INFO else SQL_SUCCESS), o_gd = gd',
            o_buf = Some (put_at 0 (take r us @ [0]) buf), o_avail = Some (2 * length us), o_state = st\<rparr> \<and>
    (if splits us r then split_pos (column opts src) us gd' r
     else wide_pos (column opts src) us gd' (min (length us) r))"
proof -
  define d where "d = column opts src"
  note u = u [folded d_def]
  have L: "length us < 2 ^ 62"
    using length_utf16 [OF u] src limited_le [of opts "length src"] by (simp add: d_def length_column)
  let ?gd = "gd\<lparr>gd_source := Some 0\<rparr>"
  let ?w0 = "\<lparr>w_gd = ?gd, w_result = Some 0, w_buf = Some buf, w_used = 0, w_errors = 0\<rparr>"
  have gd: "pointer (gd_source gd) = 0" "gd_dst_bytes ?gd = NOT_SET" "gd_dst_offset ?gd = NOT_SET" "gd_latest_bytes ?gd = 0"
    using pos by (simp_all add: fresh_pos_def pointer_def)
  have e: "int (Suc r) - 1 = int r" by simp
  have open1: "open_buffer (Some buf) (int (Suc r)) = Some (Some 0, Some buf)" using r by (simp add: open_buffer_def)
  have undelivered: "\<not> (gd_dst_bytes ?gd \<noteq> NOT_SET \<and> gd_dst_bytes ?gd \<le> gd_dst_offset ?gd)" using gd by simp
  have p: "put_latest opts (int r) ?w0 = Some ?w0" using gd by (simp add: put_latest_def)
  have u0: "utf16_of (drop 0 d) = Some us" and s0: "gd_source ?gd = Some 0" and b0: "0 + r < length buf" using u b by simp_all
  obtain w where w: "wide_loop opts (int r) d ?w0 = Some (Inr w)" "w_errors w = 0"
      "(case w_result w of None \<Rightarrow> Some (w_buf w) | Some i \<Rightarrow> put_unit opts i 0 (w_buf w)) =
        Some (Some (put_at 0 (take r us @ [0]) buf))"
      "filled d us r ?gd 0 (w_gd w) (w_used w)"
    using wide_loop_end [OF g u0 le0 s0 r(1) b0, of 0 0] by auto
  obtain m where m: "m \<le> length d" and
    f: "w_gd w = ?gd\<lparr>gd_source := Some m\<rparr> \<and> w_used w = length us \<and> utf16_of (drop m d) = Some (drop r us) \<or>
        r < length us \<and> low_unit (us ! r) \<and>
        w_gd w = ?gd\<lparr>gd_latest := us ! r, gd_latest_bytes := 2, gd_latest_used := 0, gd_source := Some m\<rparr> \<and>
        w_used w = length us \<and> utf16_of (drop m d) = Some (drop (r - 1) us)"
    using w(4) gd(2) unfolding filled_def by auto
  have no: "\<not> splits us r" if "utf16_of (drop m d) = Some (drop r us)"
    using that utf16_of_no_low by (auto simp: splits_def simp flip: Cons_nth_drop_Suc)
  have dst: "gd_dst_bytes (w_gd w) = NOT_SET" "w_used w = length us" using f gd by auto
  let ?gd' = "(w_gd w)\<lparr>gd_dst_bytes := 2 * length us, gd_dst_offset := 2 * min (length us) (0 + r)\<rparr>"
  have close: "close_wide opts (int (Suc r)) w =
    Some \<lparr>o_rc = (if 0 + r < length us then SQL_SUCCESS_WITH_INFO else SQL_SUCCESS), o_gd = ?gd',
          o_buf = Some (put_at 0 (take r us @ [0]) buf),
          o_avail = Some (2 * (length us - 0)), o_state = (if 0 + r < length us then Some ''01004'' else None)\<rparr>"
    by (rule close_wide_eq [OF g w(2) r(2) L le0 w(3)]) (use dst in simp_all)
  have pos': "if splits us r then split_pos d us ?gd' r else wide_pos d us ?gd' (min (length us) r)"
  proof (cases "splits us r")
    case True
    then have "r < length us" by (simp add: splits_def)
    with True f no m r(1) show ?thesis unfolding split_pos_def by auto
  next
    case False
    then have "w_gd w = ?gd\<lparr>gd_source := Some m\<rparr>" "utf16_of (drop m d) = Some (drop r us)"
      using f by (auto simp: splits_def)
    with False m gd show ?thesis unfolding wide_pos_def by (auto simp: min_def)
  qed
  have gs: "gd_source ?gd = Some 0" by simp
  have "copy_wchar_result opts gd (Some buf) (int (Suc r)) src = close_wide opts (int (Suc r)) w"
    unfolding copy_wchar_result_def Let_def gd(1) open1 e option.case prod.case if_not_P [OF undelivered]
      column_def [symmetric] d_def [symmetric] p gs
    by (simp add: w(1) pointer_def)
  with close pos' show ?thesis by (fold d_def) (intro exI conjI; simp)
qed

lemma wide_done:
  assumes "wide_pos (column opts src) us gd (length us)" and "length us < 2 ^ 62" and "2 \<le> n"
  shows "copy_wchar_result opts gd (Some buf) (int n) src = Some (no_data gd (Some buf))"
proof -
  obtain m where "gd_source gd = Some m" using assms(1) by (auto simp: wide_pos_def)
  then have "gd\<lparr>gd_source := Some (pointer (gd_source gd))\<rparr> = gd" by (cases gd) (simp add: pointer_def)
  with assms show ?thesis
    by (simp add: copy_wchar_result_def wide_pos_def open_buffer_def NOT_SET_def)
qed

definition at_wide :: "get_opts \<Rightarrow> (nat \<Rightarrow> u16 list) \<Rightarrow> string \<Rightarrow> u16 list \<Rightarrow> getdata \<Rightarrow> nat option \<Rightarrow> bool" where
  "at_wide opts fresh src us gd p \<longleftrightarrow>
     honest opts fresh src \<and> utf16_of (column opts src) = Some us \<and>
     (case p of None \<Rightarrow> fresh_pos gd | Some k \<Rightarrow> wide_pos (column opts src) us gd k)"

lemma take_shown_unit: "m < length buf \<Longrightarrow> take (min (length us) m) (put_at 0 (take m us @ [c]) buf) = take m us"
  by (simp add: put_at_def take_min_length)

text \<open>Both kinds of call, as the application sees them.\<close>

lemma wide_piece:
  assumes a: "at_wide opts fresh src us gd p" and p: "p \<noteq> Some (length us)" and n: "2 \<le> n" "n < 2 ^ 31"
    and ok: "p = None \<Longrightarrow> \<not> splits us (n - 1)"
  shows "\<exists>gd'. piece_call (copy_wchar_result opts) (\<lambda>n a. min (a div 2) (n - 1)) fresh src gd n =
      Some (gd', take (n - 1) (drop (pointer p) us),
        if pointer p + (n - 1) < length us then SQL_SUCCESS_WITH_INFO else SQL_SUCCESS) \<and>
    at_wide opts fresh src us gd' (Some (min (length us) (pointer p + (n - 1))))"
proof -
  obtain r where r: "n = Suc r" "0 < r" "r < 2 ^ 31" using n by (cases n) auto
  have h: "g_retrieve opts" "length src < 2 ^ 60" "utf16_of (column opts src) = Some us" "r < length (fresh n)"
    "honest opts fresh src"
    using a r by (auto simp: at_wide_def honest_def)
  show ?thesis
  proof (cases p)
    case None
    with a have f: "fresh_pos gd" by (simp add: at_wide_def)
    obtain gd' st where c: "copy_wchar_result opts gd (Some (fresh n)) (int n) src =
        Some \<lparr>o_rc = (if r < length us then SQL_SUCCESS_WITH_INFO else SQL_SUCCESS), o_gd = gd',
            o_buf = Some (put_at 0 (take r us @ [0]) (fresh n)), o_avail = Some (2 * length us), o_state = st\<rparr>"
        and pos: "wide_pos (column opts src) us gd' (min (length us) r)"
      using wide_first [OF h(1-3) f r(2,3) h(4)] ok [OF None] r(1) by auto
    show ?thesis
      using c pos None r(1) h(3,5) take_shown_unit [OF h(4), of us 0]
      by (simp add: piece_call_def at_wide_def pointer_def)
  next
    case (Some k)
    with a have pos: "wide_pos (column opts src) us gd k" by (simp add: at_wide_def)
    then have k: "k < length us" using p Some by (auto simp: wide_pos_def)
    obtain gd' st where c: "copy_wchar_result opts gd (Some (fresh n)) (int n) src =
        Some \<lparr>o_rc = (if k + r < length us then SQL_SUCCESS_WITH_INFO else SQL_SUCCESS), o_gd = gd',
            o_buf = Some (put_at 0 (take r (drop k us) @ [0]) (fresh n)), o_avail = Some (2 * (length us - k)), o_state = st\<rparr>"
        and pos': "wide_pos (column opts src) us gd' (min (length us) (k + r))"
      using wide_call [OF h(1-3) pos k r(2,3) h(4)] r(1) by blast
    show ?thesis
      using c pos' Some r(1) h(3,5) take_shown_unit [OF h(4), of "drop k us" 0]
      by (simp add: piece_call_def at_wide_def pointer_def)
  qed
qed

interpretation wide: reporting "piece_call (copy_wchar_result opts) (\<lambda>n a. min (a div 2) (n - 1)) fresh src"
  "at_wide opts fresh src us" us "\<lambda>n. n - 1" "\<lambda>p n. 2 \<le> n \<and> n < 2 ^ 31 \<and> (p = None \<longrightarrow> \<not> splits us (n - 1))"
  for opts fresh src us
proof
  fix gd p n
  assume a: "at_wide opts fresh src us gd p" and p: "p \<noteq> Some (length us)"
    and n: "2 \<le> n \<and> n < (2::nat) ^ 31 \<and> (p = None \<longrightarrow> \<not> splits us (n - 1))"
  note c = wide_piece [OF a p]
  show "\<exists>s' rc. piece_call (copy_wchar_result opts) (\<lambda>n a. min (a div 2) (n - 1)) fresh src gd n =
        Some (s', take (n - 1) (drop (pointer p) us), rc) \<and>
      at_wide opts fresh src us s' (Some (min (length us) (pointer p + (n - 1))))"
    using c [of n] n by blast
  show "rc = (if pointer p + (n - 1) < length us then SQL_SUCCESS_WITH_INFO else SQL_SUCCESS)"
    if "piece_call (copy_wchar_result opts) (\<lambda>n a. min (a div 2) (n - 1)) fresh src gd n = Some (s', xs, rc)" for s' xs rc
    using c [of n] n that by auto
next
  fix gd n
  assume a: "at_wide opts fresh src us gd (Some (length us))"
    and n: "2 \<le> n \<and> n < (2::nat) ^ 31 \<and> (Some (length us) = None \<longrightarrow> \<not> splits us (n - 1))"
  have "length us < 2 ^ 62"
    using a length_utf16 [of "column opts src" us] limited_le [of opts "length src"]
    by (simp add: at_wide_def honest_def length_column)
  with a n show "\<exists>s'. piece_call (copy_wchar_result opts) (\<lambda>n a. min (a div 2) (n - 1)) fresh src gd n =
      Some (s', [], SQL_NO_DATA_FOUND) \<and> at_wide opts fresh src us s' (Some (length us))"
    using wide_done [of opts src us gd n] by (simp add: at_wide_def piece_call_def no_data_def)
next
  show "k \<le> length us" if "at_wide opts fresh src us gd (Some k)" for gd k
    using that by (simp add: at_wide_def wide_pos_def)
qed auto

end
