(* ===== verification/GetData_Safe.thy ===== *)
theory GetData_Safe
  imports GetData_Wide
begin

text \<open>
  What holds of every column, valid text or not: a call with a buffer of the stated size stays inside it,
  keeps the position well formed and returns one of four codes. And two ways to lose data: a
  character cut by a limit on the length, and a character that the end of the first piece splits.
\<close>

section \<open>The loop stays in the buffer\<close>

text \<open>The state of the loop, for a buffer of \<open>n\<close> units whose last one is for the terminator.\<close>

definition in_buffer :: "nat \<Rightarrow> wide \<Rightarrow> bool" where
  "in_buffer n w \<longleftrightarrow>
     (\<exists>b. w_buf w = Some b \<and> length b = n) \<and>
     (case w_result w of None \<Rightarrow> True | Some i \<Rightarrow> \<exists>j. i = int j \<and> Suc j < n) \<and>
     gd_latest_bytes (w_gd w) \<in> {0, 2}"

lemma put_unit_safe:
  assumes "j < length b"
  shows "\<exists>b'. put_unit opts (int j) u (Some b) = Some (Some b') \<and> length b' = length b"
proof (cases "g_retrieve opts")
  case True
  then show ?thesis using assms by (simp add: put_unit_in length_put_at)
qed (simp add: put_unit_def)

lemma finish_char_safe:
  assumes "w_buf w = Some b" and "length b = n" and "gd_latest_bytes (w_gd w) \<in> {0, 2}" and "Suc j \<le> n"
  shows "\<exists>w'. finish_char opts (int (n - 1)) k (Some (int j)) w = Some w' \<and> in_buffer n w' \<and>
    gd_dst_bytes (w_gd w') = gd_dst_bytes (w_gd w)"
proof (cases "j = n - 1")
  case True
  obtain b' where "put_unit opts (int j) 0 (Some b) = Some (Some b')" "length b' = length b"
    using put_unit_safe [of j b opts 0] assms by auto
  with True assms show ?thesis
    by (auto simp: finish_char_def Let_def in_buffer_def advance_source_def)
next
  case False
  with assms show ?thesis
    by (auto simp: finish_char_def Let_def in_buffer_def advance_source_def)
qed

lemma wide_char_safe:
  assumes w: "in_buffer n w" and us: "length us = 1 \<or> length us = 2"
  shows "\<exists>w' brk. wide_char opts (int (n - 1)) k us w = Some (w', brk) \<and> in_buffer n w' \<and>
    gd_dst_bytes (w_gd w') = gd_dst_bytes (w_gd w) \<and> (brk \<longrightarrow> gd_dst_bytes (w_gd w) \<noteq> NOT_SET)"
proof (cases "w_result w")
  case None
  with w show ?thesis by (auto simp: wide_char_def in_buffer_def)
next
  case (Some i)
  obtain b j where b: "w_buf w = Some b" "length b = n" and j: "i = int j" "Suc j < n"
      and lb: "gd_latest_bytes (w_gd w) \<in> {0, 2}"
    using w Some by (auto simp: in_buffer_def)
  obtain b1 where b1: "put_unit opts (int j) (us ! 0) (Some b) = Some (Some b1)" "length b1 = n"
    using put_unit_safe [of j b opts] b j by fastforce
  have inc: "int j + 1 = int (Suc j)" "int j + 2 = int (Suc (Suc j))" by simp_all
  let ?w = "w\<lparr>w_used := w_used w + length us\<rparr>"
  show ?thesis
  proof (cases "length us = 1")
    case True
    obtain w' where "finish_char opts (int (n - 1)) k (Some (int (Suc j))) (?w\<lparr>w_buf := Some b1\<rparr>) = Some w'"
        "in_buffer n w'" "gd_dst_bytes (w_gd w') = gd_dst_bytes (w_gd w)"
      using finish_char_safe [of "?w\<lparr>w_buf := Some b1\<rparr>" b1 n "Suc j" opts k] b1 j lb by auto
    with True show ?thesis
      using Some j(1) b(1) b1(1) by (auto simp: wide_char_def inc)
  next
    case False
    then have two: "length us = 2" using us by simp
    show ?thesis
    proof (cases "Suc j = n - 1")
      case True
      obtain b2 where b2: "put_unit opts (int (Suc j)) 0 (Some b1) = Some (Some b2)" "length b2 = n"
        using put_unit_safe [of "Suc j" b1 opts 0] b1 j by auto
      with True two show ?thesis
        using Some j b(1) b1(1)
        by (auto simp: wide_char_def inc Let_def finish_char_def in_buffer_def advance_source_def)
    next
      case False
      obtain b2 where b2: "put_unit opts (int (Suc j)) (us ! 1) (Some b1) = Some (Some b2)" "length b2 = n"
        using put_unit_safe [of "Suc j" b1 opts] b1 j by fastforce
      have jj: "Suc (Suc (Suc j)) \<le> n" using False j by simp
      obtain w' where "finish_char opts (int (n - 1)) k (Some (int (Suc (Suc j)))) (?w\<lparr>w_buf := Some b2\<rparr>) = Some w'"
          "in_buffer n w'" "gd_dst_bytes (w_gd w') = gd_dst_bytes (w_gd w)"
        using finish_char_safe [OF _ _ _ jj, of "?w\<lparr>w_buf := Some b2\<rparr>" b2 opts k] b2 lb by auto
      with False two show ?thesis
        using Some j(1) b(1) b1(1) b2(1) by (auto simp: wide_char_def inc)
    qed
  qed
qed

lemma next_wide_units:
  assumes "next_wide lb s = Some (n, us, e)"
  shows "0 < n \<and> (length us = 1 \<or> length us = 2)"
proof -
  obtain wc e' where r: "read_char s = Some (n, wc, e')"
    using assms by (auto simp: next_wide_def split: option.splits if_splits prod.splits)
  have "0 < n"
    using r by (auto simp: read_char_def MY_CS_defs split: prod.splits if_splits)
  moreover have "length us = 1 \<or> length us = 2"
    using assms r by (auto simp: next_wide_def my_uni_utf16le_def MY_CS_defs split: if_splits)
  ultimately show ?thesis by simp
qed

lemma wide_loop_safe:
  assumes "in_buffer n w"
  shows "\<exists>w'. (wide_loop opts (int (n - 1)) s w = Some (Inl w') \<or> wide_loop opts (int (n - 1)) s w = Some (Inr w')) \<and>
    in_buffer n w'"
  using assms
proof (induction s arbitrary: w rule: measure_induct_rule [where f = length])
  case (less s)
  show ?case
  proof (cases "s = [] \<or> next_wide (gd_latest_bytes (w_gd w)) s = None")
    case True
    then show ?thesis using less.prems by (subst (1 2) wide_loop.simps) auto
  next
    case False
    then obtain k us e where c: "next_wide (gd_latest_bytes (w_gd w)) s = Some (k, us, e)" "s \<noteq> []" by auto
    have us: "0 < k" "length us = 1 \<or> length us = 2" using next_wide_units [OF c(1)] by auto
    have "in_buffer n (w\<lparr>w_errors := w_errors w + e\<rparr>)" using less.prems by (simp add: in_buffer_def)
    from wide_char_safe [OF this us(2)] obtain w' brk where
      w': "wide_char opts (int (n - 1)) k us (w\<lparr>w_errors := w_errors w + e\<rparr>) = Some (w', brk)" "in_buffer n w'"
      by blast
    have "length (drop k s) < length s" using us c by simp
    from less.IH [OF this w'(2)] show ?thesis
      using c us w' by (subst (1 2) wide_loop.simps) auto
  qed
qed

section \<open>Every call\<close>

lemma put_latest_safe:
  assumes w: "in_buffer n w" and i: "w_result w = Some 0"
  shows "\<exists>w'. put_latest opts (int (n - 1)) w = Some w' \<and> in_buffer n w'"
proof (cases "gd_latest_bytes (w_gd w) = 0")
  case True
  with w show ?thesis by (simp add: put_latest_def)
next
  case False
  obtain b where b: "w_buf w = Some b" "length b = n" "Suc 0 < n" using w i by (auto simp: in_buffer_def)
  obtain b1 where b1: "put_unit opts (int 0) (gd_latest (w_gd w)) (Some b) = Some (Some b1)" "length b1 = n"
    using put_unit_safe [of 0 b opts] b by fastforce
  obtain b2 where b2: "put_unit opts (int 1) 0 (Some b1) = Some (Some b2)" "length b2 = n"
    using put_unit_safe [of 1 b1 opts] b1 b by fastforce
  have "\<exists>j. 1 = int j \<and> Suc j < n" if "int (n - 1) \<noteq> 1" using that b(3) by (intro exI [of _ 1]) auto
  with False i b(1) b1 b2 show ?thesis
    by (auto simp: put_latest_def Let_def in_buffer_def)
qed

lemma close_wide_safe:
  assumes w: "in_buffer n w"
  shows "\<exists>r b. close_wide opts len w = Some r \<and> o_buf r = Some b \<and> length b = n \<and>
    gd_latest_bytes (o_gd r) \<in> {0, 2} \<and> o_rc r \<in> {SQL_SUCCESS, SQL_SUCCESS_WITH_INFO}"
proof -
  obtain b where b: "w_buf w = Some b" "length b = n" using w by (auto simp: in_buffer_def)
  have "\<exists>b'. (case w_result w of None \<Rightarrow> Some (w_buf w) | Some i \<Rightarrow> put_unit opts i 0 (w_buf w)) = Some (Some b') \<and>
      length b' = n"
  proof (cases "w_result w")
    case None
    then show ?thesis using b by simp
  next
    case (Some i)
    then obtain j where "i = int j" "j < length b" using w b by (auto simp: in_buffer_def)
    then show ?thesis using put_unit_safe [of j b opts 0] b Some by auto
  qed
  then obtain b' where "(case w_result w of None \<Rightarrow> Some (w_buf w) | Some i \<Rightarrow> put_unit opts i 0 (w_buf w)) = Some (Some b')"
      "length b' = n" by blast
  with w show ?thesis
    by (simp add: close_wide_def Let_def split_beta truncation_def in_buffer_def)
qed

lemma open_buffer_safe:
  assumes "length buf = n" and "2 \<le> n"
  shows "open_buffer (Some buf) (int n) = Some (Some 0, Some buf)"
  using assms by (simp add: open_buffer_def)

text \<open>C15: whatever bytes the column holds and whatever the options are, \<open>copy_wchar_result\<close> with a buffer of the
  stated size, two units at least, neither reads nor writes outside its objects, keeps at most one unit for
  the next call and returns one of four codes.\<close>

theorem wchar_stays_in_buffer:
  assumes "length buf = n" and "2 \<le> n" and "gd_latest_bytes gd \<in> {0, 2}"
  shows "\<exists>r b. copy_wchar_result opts gd (Some buf) (int n) src = Some r \<and> o_buf r = Some b \<and> length b = n \<and>
    gd_latest_bytes (o_gd r) \<in> {0, 2} \<and>
    o_rc r \<in> {SQL_SUCCESS, SQL_SUCCESS_WITH_INFO, SQL_NO_DATA_FOUND, SQL_ERROR}"
proof -
  let ?gd = "gd\<lparr>gd_source := Some (pointer (gd_source gd))\<rparr>"
  let ?w = "\<lparr>w_gd = ?gd, w_result = Some 0, w_buf = Some buf, w_used = 0, w_errors = 0\<rparr>"
  have e: "int n - 1 = int (n - 1)" using assms(2) by simp
  have "in_buffer n ?w" using assms by (auto simp: in_buffer_def intro: exI [of _ 0])
  then obtain w where w: "put_latest opts (int (n - 1)) ?w = Some w" "in_buffer n w"
    using put_latest_safe [of n ?w opts] by auto
  obtain w' where w': "wide_loop opts (int (n - 1)) (drop (pointer (gd_source ?gd)) (column opts src)) w = Some (Inl w') \<or>
      wide_loop opts (int (n - 1)) (drop (pointer (gd_source ?gd)) (column opts src)) w = Some (Inr w')"
      and b: "in_buffer n w'"
    using wide_loop_safe [OF w(2)] by blast
  obtain r b' where r: "close_wide opts (int n) w' = Some r" "o_buf r = Some b'" "length b' = n"
      "gd_latest_bytes (o_gd r) \<in> {0, 2}" "o_rc r \<in> {SQL_SUCCESS, SQL_SUCCESS_WITH_INFO}"
    using close_wide_safe [OF b] by blast
  show ?thesis
  proof (cases "gd_dst_bytes ?gd \<noteq> NOT_SET \<and> gd_dst_offset ?gd \<ge> gd_dst_bytes ?gd")
    case True
    then show ?thesis
      using assms open_buffer_safe [OF assms(1,2)] by (simp add: copy_wchar_result_def no_data_def)
  next
    case False
    from w' show ?thesis
    proof
      assume l: "wide_loop opts (int (n - 1)) (drop (pointer (gd_source ?gd)) (column opts src)) w = Some (Inl w')"
      then show ?thesis
        using b unfolding copy_wchar_result_def Let_def open_buffer_safe [OF assms(1,2)] option.case prod.case
          if_not_P [OF False] e w(1) column_def [symmetric] by (auto simp: in_buffer_def)
    next
      assume l: "wide_loop opts (int (n - 1)) (drop (pointer (gd_source ?gd)) (column opts src)) w = Some (Inr w')"
      then show ?thesis
        using r unfolding copy_wchar_result_def Let_def open_buffer_safe [OF assms(1,2)] option.case prod.case
          if_not_P [OF False] e w(1) column_def [symmetric] by auto
    qed
  qed
qed

theorem wchar_stays_in_buffer_witness:
  "\<exists>r b. copy_wchar_result \<lparr>g_max_length = 0, g_retrieve = True\<rparr> (reset_getdata_position new_getdata) (Some [7, 7])
      (int 2) [CHR 0xff, CHR 0xe2] = Some r \<and> o_buf r = Some b \<and> length b = 2 \<and> gd_latest_bytes (o_gd r) \<in> {0, 2} \<and>
    o_rc r \<in> {SQL_SUCCESS, SQL_SUCCESS_WITH_INFO, SQL_NO_DATA_FOUND, SQL_ERROR}"
  by (rule wchar_stays_in_buffer) (simp_all add: reset_getdata_position_def)

section \<open>A character cut by the limit\<close>

text \<open>Characters, and then the beginning of one.\<close>

function cut_char :: "string \<Rightarrow> bool" where
  "cut_char s =
     (if s = [] then False
      else case my_mb_wc_utf8mb4 s of (n, wc) \<Rightarrow>
        if n > 0 then cut_char (drop (nat n) s) else n < MY_CS_TOOSMALL)"
  by pat_completeness auto

termination
  by (relation "measure length") auto

declare cut_char.simps [simp del]

lemma wide_loop_cut:
  assumes "cut_char s" and "in_buffer n w" and "gd_dst_bytes (w_gd w) = NOT_SET"
  shows "\<exists>w'. wide_loop opts (int (n - 1)) s w = Some (Inl w') \<and> in_buffer n w'"
  using assms
proof (induction s arbitrary: w rule: measure_induct_rule [where f = length])
  case (less s)
  have ne: "s \<noteq> []" using less.prems(1) by (auto simp: cut_char.simps)
  obtain k wc where m: "my_mb_wc_utf8mb4 s = (k, wc)" by fastforce
  show ?case
  proof (cases "0 < k")
    case True
    have rest: "cut_char (drop (nat k) s)" using less.prems(1) m True ne by (subst (asm) cut_char.simps) simp
    have v: "scalar_value wc" using my_mb_wc_scalar [OF m True] by simp
    obtain us where us: "next_wide (gd_latest_bytes (w_gd w)) s = Some (nat k, us, 0)" "length us = 1 \<or> length us = 2"
      using utf16_units [OF v] m True by (auto simp: next_wide_def read_char_def MY_CS_defs)
    obtain w' brk where w': "wide_char opts (int (n - 1)) (nat k) us w = Some (w', brk)" "in_buffer n w'"
        "gd_dst_bytes (w_gd w') = NOT_SET" "\<not> brk"
      using wide_char_safe [OF less.prems(2) us(2), of opts "nat k"] less.prems(3) by auto
    have "length (drop (nat k) s) < length s" using True ne by simp
    from less.IH [OF this rest w'(2,3)] show ?thesis
      using us(1) w' ne True by (subst wide_loop.simps) simp
  next
    case False
    then have "k < MY_CS_TOOSMALL" using less.prems(1) m ne by (subst (asm) cut_char.simps) simp
    then have "next_wide (gd_latest_bytes (w_gd w)) s = None" using m by (simp add: next_wide_def read_char_def MY_CS_defs)
    then show ?thesis using less.prems(2) ne by (subst wide_loop.simps) simp
  qed
qed

text \<open>A column that ends in the middle of a character, as it does when \<open>SQL_ATTR_MAX_LENGTH\<close> cuts one, cannot be
  read as \<open>SQL_C_WCHAR\<close> at all: the first call fails with HY000 and reports no length, however large the buffer is.\<close>

theorem cut_character_fails:
  assumes "cut_char (column opts src)" and "fresh_pos gd" and "length buf = n" and "2 \<le> n"
  shows "\<exists>r. copy_wchar_result opts gd (Some buf) (int n) src = Some r \<and> o_rc r = SQL_ERROR \<and>
    o_state r = Some ''HY000'' \<and> o_avail r = None"
proof -
  let ?gd = "gd\<lparr>gd_source := Some 0\<rparr>"
  let ?w = "\<lparr>w_gd = ?gd, w_result = Some 0, w_buf = Some buf, w_used = 0, w_errors = 0\<rparr>"
  have gd: "pointer (gd_source gd) = 0" "gd_dst_bytes ?gd = NOT_SET" "gd_latest_bytes ?gd = 0"
    using assms(2) by (simp_all add: fresh_pos_def pointer_def)
  have e: "int n - 1 = int (n - 1)" using assms(4) by simp
  have w: "in_buffer n ?w" using assms gd by (auto simp: in_buffer_def intro: exI [of _ 0])
  obtain w' where "wide_loop opts (int (n - 1)) (column opts src) ?w = Some (Inl w')"
    using wide_loop_cut [OF assms(1) w] gd by auto
  then show ?thesis
    using gd unfolding copy_wchar_result_def Let_def open_buffer_safe [OF assms(3,4)] option.case prod.case e column_def [symmetric]
    by (simp add: put_latest_def pointer_def)
qed

theorem cut_character_fails_witness:
  "\<exists>r. copy_wchar_result \<lparr>g_max_length = 2, g_retrieve = True\<rparr> (reset_getdata_position new_getdata)
      (Some [0, 0, 0, 0, 0, 0, 0, 0]) (int 8) [CHR ''a'', CHR 0xc3, CHR 0xa9] = Some r \<and>
    o_rc r = SQL_ERROR \<and> o_state r = Some ''HY000'' \<and> o_avail r = None"
proof (rule cut_character_fails)
  show "cut_char (column \<lparr>g_max_length = 2, g_retrieve = True\<rparr> [CHR ''a'', CHR 0xc3, CHR 0xa9])"
    by (simp add: column_def limited_def cut_char.simps my_mb_wc_utf8mb4_def MY_CS_defs code_def Let_def)
qed (simp_all add: fresh_pos_def reset_getdata_position_def new_getdata_def)

section \<open>The parts of a column\<close>

text \<open>C17: the loop of every application, calling again with the same buffer until the return code is no longer
  SQL_SUCCESS_WITH_INFO, reads exactly the bytes of the column as a string, up to \<open>SQL_ATTR_MAX_LENGTH\<close>,
  whatever the size of the buffer is, a NUL at least beside one character.\<close>

theorem ansi_column_read_whole:
  assumes "honest opts fresh src" and "gd_source gd = None" and "2 \<le> n" and "n < 2 ^ 63"
  shows "get_all (Suc (length (column opts src))) (piece_call (copy_ansi_result opts) (\<lambda>n a. min a (n - 1)) fresh src) gd n =
    Some (column opts src)"
  by (rule ansi.loop) (use assms in \<open>simp_all add: at_source_def pointer_def\<close>)

theorem ansi_column_read_whole_witness:
  "get_all (Suc (length (column \<lparr>g_max_length = 0, g_retrieve = True\<rparr> ''hello'')))
      (piece_call (copy_ansi_result \<lparr>g_max_length = 0, g_retrieve = True\<rparr>) (\<lambda>n a. min a (n - 1))
        (\<lambda>n. replicate n (CHR ''?'')) ''hello'') (reset_getdata_position new_getdata) 3 =
    Some (column \<lparr>g_max_length = 0, g_retrieve = True\<rparr> ''hello'')"
  by (rule ansi_column_read_whole) (simp_all add: honest_def reset_getdata_position_def)

text \<open>C14: pieces of a valid text read as \<open>SQL_C_WCHAR\<close>, with buffers of any sizes, are the consecutive
  units of its UTF-16 form, a character that a later piece splits included, provided that the first
  piece does not split one.\<close>

theorem wchar_pieces_in_order:
  assumes "honest opts fresh src" and "utf16_of (column opts src) = Some us" and "fresh_pos gd"
    and "ns \<noteq> []" and "\<not> splits us (hd ns - 1)" and "\<forall>n \<in> set ns. 2 \<le> n \<and> n < 2 ^ 31"
  shows "\<exists>rs. read_pieces (piece_call (copy_wchar_result opts) (\<lambda>n a. min (a div 2) (n - 1)) fresh src) gd ns = Some rs \<and>
    concat (map fst rs) = take (\<Sum>n\<leftarrow>ns. n - 1) us"
proof -
  have hd: "hd ns \<in> set ns" using assms(4) by simp
  have tl: "n \<in> set ns" if "n \<in> set (tl ns)" for n using that by (rule list.set_sel(2) [OF assms(4)])
  have "at_wide opts fresh src us gd None" using assms(1-3) by (simp add: at_wide_def)
  from wide.pieces [OF this, of ns] show ?thesis
    using assms(5,6) hd tl by (simp add: pointer_def)
qed

theorem wchar_pieces_in_order_witness:
  "\<exists>rs. read_pieces (piece_call (copy_wchar_result \<lparr>g_max_length = 0, g_retrieve = True\<rparr>) (\<lambda>n a. min (a div 2) (n - 1))
        (\<lambda>n. replicate n 7) [CHR ''a'', CHR 0xc3, CHR 0xa9, CHR 0xf0, CHR 0x9f, CHR 0x98, CHR 0x80])
        (reset_getdata_position new_getdata) [2, 3, 2] = Some rs \<and>
    concat (map fst rs) = take (\<Sum>n\<leftarrow>[2, 3, 2]. n - 1) [0x61, 0xe9, 0xd83d, 0xde00]"
proof (rule wchar_pieces_in_order)
  show "utf16_of (column \<lparr>g_max_length = 0, g_retrieve = True\<rparr>
      [CHR ''a'', CHR 0xc3, CHR 0xa9, CHR 0xf0, CHR 0x9f, CHR 0x98, CHR 0x80]) = Some [0x61, 0xe9, 0xd83d, 0xde00]"
    by (simp add: column_def limited_def utf16_of.simps my_mb_wc_utf8mb4_def wc4_def is_cont_def
        my_uni_utf16le_def MY_CS_defs code_def Let_def)
qed (simp_all add: honest_def fresh_pos_def reset_getdata_position_def new_getdata_def splits_def low_unit_def)

lemma split_call:
  assumes g: "g_retrieve opts" and src: "length src < 2 ^ 60" and u: "utf16_of (column opts src) = Some us"
    and pos: "split_pos (column opts src) us gd r" and r: "r + Suc q \<le> length us" and q: "Suc q < 2 ^ 31" and b: "Suc q < length buf"
  shows "\<exists>gd' st. copy_wchar_result opts gd (Some buf) (int (Suc (Suc q))) src =
      Some \<lparr>o_rc = (if r + Suc q < length us then SQL_SUCCESS_WITH_INFO else SQL_SUCCESS), o_gd = gd',
            o_buf = Some (put_at 0 (us ! r # take q (drop (r - 1) us) @ [0]) buf), o_avail = Some (2 * (length us - r)), o_state = st\<rparr>"
proof -
  define d where "d = column opts src"
  note pos = pos [folded d_def] and u = u [folded d_def]
  have L: "length us < 2 ^ 62"
    using length_utf16 [OF u] src limited_le [of opts "length src"] by (simp add: d_def length_column)
  obtain m where m: "m \<le> length d" "gd_source gd = Some m" and dst: "gd_dst_bytes gd = 2 * length us" "gd_dst_offset gd = 2 * r"
    and lb: "gd_latest_bytes gd = 2" "gd_latest gd = us ! r" and s: "utf16_of (drop m d) = Some (drop (r - 1) us)"
    and r0: "0 < r"
    using pos unfolding split_pos_def by blast
  have gd1: "gd\<lparr>gd_source := Some m\<rparr> = gd" using m by (cases gd) simp
  have ptr: "pointer (gd_source gd) = m" using m(2) by (simp add: pointer_def)
  have e: "int (Suc (Suc q)) - 1 = int (Suc q)" by simp
  have open1: "open_buffer (Some buf) (int (Suc (Suc q))) = Some (Some 0, Some buf)" by (simp add: open_buffer_def)
  have undelivered: "\<not> (gd_dst_bytes gd \<noteq> NOT_SET \<and> gd_dst_bytes gd \<le> gd_dst_offset gd)" using dst r by simp
  have ns: "gd_dst_bytes gd \<noteq> NOT_SET" using dst L by (simp add: NOT_SET_def)
  obtain w1 w where w: "put_latest opts (int (Suc q))
        \<lparr>w_gd = gd, w_result = Some 0, w_buf = Some buf, w_used = 0, w_errors = 0\<rparr> = Some w1"
      "wide_loop opts (int (Suc q)) (drop m d) w1 = Some (Inr w)" "w_errors w = 0"
      "(case w_result w of None \<Rightarrow> Some (w_buf w) | Some i \<Rightarrow> put_unit opts i 0 (w_buf w)) =
        Some (Some (put_at 0 (us ! r # take q (drop (r - 1) us) @ [0]) buf))"
    and f: "if q = 0 then w_gd w = gd\<lparr>gd_latest_bytes := 0\<rparr> \<and> w_used w = 1 + length (drop (r - 1) us)
       else filled d (drop (r - 1) us) q (gd\<lparr>gd_latest_bytes := 0\<rparr>) 1 (w_gd w) (w_used w)"
    using latest_loop [OF g lb s m b] by blast
  have used: "Suc q \<le> w_used w" and wdst: "gd_dst_bytes (w_gd w) = 2 * length us" "gd_dst_offset (w_gd w) = 2 * r"
    using f ns dst r r0 by (auto simp: filled_def split: if_splits)
  have close: "close_wide opts (int (Suc (Suc q))) w =
    Some \<lparr>o_rc = (if r + Suc q < length us then SQL_SUCCESS_WITH_INFO else SQL_SUCCESS),
          o_gd = (w_gd w)\<lparr>gd_dst_bytes := 2 * length us, gd_dst_offset := 2 * min (length us) (r + Suc q)\<rparr>,
          o_buf = Some (put_at 0 (us ! r # take q (drop (r - 1) us) @ [0]) buf),
          o_avail = Some (2 * (length us - r)), o_state = (if r + Suc q < length us then Some ''01004'' else None)\<rparr>"
    by (rule close_wide_eq [OF g w(3) q L _ w(4)]) (use r used wdst in \<open>simp_all add: min_def\<close>)
  have "copy_wchar_result opts gd (Some buf) (int (Suc (Suc q))) src = close_wide opts (int (Suc (Suc q))) w"
    unfolding copy_wchar_result_def Let_def ptr gd1 open1 e option.case prod.case if_not_P [OF undelivered]
      column_def [symmetric] d_def [symmetric] w(1,2) sum.case ..
  with close show ?thesis by (intro exI; simp)
qed

text \<open>C16: when the end of the first piece falls between the two units of a character, the next piece holds the second
  unit and then the whole character again, and what it adds is missing at the end of the column.\<close>

theorem split_character_repeated:
  assumes "honest opts fresh src" and "utf16_of (column opts src) = Some us" and "fresh_pos gd"
    and "2 \<le> n" and "n < 2 ^ 31" and "splits us (n - 1)" and "2 \<le> m" and "m < 2 ^ 31" and "(n - 1) + (m - 1) \<le> length us"
  shows "read_pieces (piece_call (copy_wchar_result opts) (\<lambda>n a. min (a div 2) (n - 1)) fresh src) gd [n, m] =
    Some [(take (n - 1) us, SQL_SUCCESS_WITH_INFO),
          (us ! (n - 1) # take (m - 2) (drop (n - 2) us),
           if (n - 1) + (m - 1) < length us then SQL_SUCCESS_WITH_INFO else SQL_SUCCESS)]"
proof -
  obtain r where r: "n = Suc r" "0 < r" "r < 2 ^ 31" using assms(4,5) by (cases n) auto
  define q where "q = m - 2"
  have q: "m = Suc (Suc q)" "Suc q < 2 ^ 31" using assms(7,8) by (simp_all add: q_def)
  have h: "g_retrieve opts" "length src < 2 ^ 60" "r < length (fresh n)" "Suc q < length (fresh m)"
    using assms(1) r q by (auto simp: honest_def)
  have rl: "r < length us" "splits us r" using assms(6) r by (auto simp: splits_def)
  obtain gd' st where c: "copy_wchar_result opts gd (Some (fresh n)) (int n) src =
      Some \<lparr>o_rc = SQL_SUCCESS_WITH_INFO, o_gd = gd',
            o_buf = Some (put_at 0 (take r us @ [0]) (fresh n)), o_avail = Some (2 * length us), o_state = st\<rparr>"
      and pos: "split_pos (column opts src) us gd' r"
    using wide_first [OF h(1,2) assms(2,3) r(2,3) h(3)] rl r(1) by auto
  have rq: "r + Suc q \<le> length us" using assms(9) r q by simp
  obtain gd'' st' where c': "copy_wchar_result opts gd' (Some (fresh m)) (int m) src =
      Some \<lparr>o_rc = (if r + Suc q < length us then SQL_SUCCESS_WITH_INFO else SQL_SUCCESS), o_gd = gd'',
            o_buf = Some (put_at 0 (us ! r # take q (drop (r - 1) us) @ [0]) (fresh m)),
            o_avail = Some (2 * (length us - r)), o_state = st'\<rparr>"
    using split_call [OF h(1,2) assms(2) pos rq q(2) h(4)] q(1) by blast
  have "min (length us - r) (Suc q) = length (us ! r # take q (drop (r - 1) us))" using rq r by simp
  then have t: "take (min (length us - r) (Suc q)) (put_at 0 (us ! r # take q (drop (r - 1) us) @ [0]) (fresh m)) =
      us ! r # take q (drop (r - 1) us)"
    by (simp add: put_at_def)
  have idx: "n - 1 = r" "n - 2 = r - 1" "m - 1 = Suc q" "m - 2 = q" using r(1) q(1) by simp_all
  show ?thesis
    unfolding idx using c c' t take_shown_unit [OF h(3), of us 0] idx by (simp add: piece_call_def)
qed

theorem split_character_repeated_witness:
  "read_pieces (piece_call (copy_wchar_result \<lparr>g_max_length = 0, g_retrieve = True\<rparr>) (\<lambda>n a. min (a div 2) (n - 1))
        (\<lambda>n. replicate n 7) [CHR 0xf0, CHR 0x9f, CHR 0x98, CHR 0x80, CHR ''b'', CHR ''c''])
        (reset_getdata_position new_getdata) [2, 4] =
    Some [(take (2 - 1) [0xd83d, 0xde00, 0x62, 0x63], SQL_SUCCESS_WITH_INFO),
          ([0xd83d, 0xde00, 0x62, 0x63] ! (2 - 1) # take (4 - 2) (drop (2 - 2) [0xd83d, 0xde00, 0x62, 0x63]),
           if (2 - 1) + (4 - 1) < length [0xd83d, 0xde00, 0x62, 0x63 :: u16] then SQL_SUCCESS_WITH_INFO else SQL_SUCCESS)]"
proof (rule split_character_repeated)
  show "utf16_of (column \<lparr>g_max_length = 0, g_retrieve = True\<rparr>
      [CHR 0xf0, CHR 0x9f, CHR 0x98, CHR 0x80, CHR ''b'', CHR ''c'']) = Some [0xd83d, 0xde00, 0x62, 0x63]"
    by (simp add: column_def limited_def utf16_of.simps my_mb_wc_utf8mb4_def wc4_def is_cont_def
        my_uni_utf16le_def MY_CS_defs code_def Let_def)
qed (simp_all add: honest_def fresh_pos_def reset_getdata_position_def new_getdata_def splits_def low_unit_def)

section \<open>Hexadecimal\<close>

text \<open>The pieces of a binary column read as characters are the consecutive parts of its hexadecimal form, for
  characters of either size.\<close>

theorem hex_pieces_in_order:
  assumes "honest opts fresh src" and "g_max_length opts = 0" and "gd_src_offset gd = NOT_SET"
    and "\<forall>n \<in> set ns. 0 < n \<and> n < 2 ^ 31"
  shows "\<exists>rs. read_pieces (piece_call (copy_binhex_result cast (Suc z) opts) (\<lambda>n a. min (a div Suc z) (2 * ((n - 1) div 2))) fresh src)
      gd ns = Some rs \<and> concat (map fst rs) = take (\<Sum>n\<leftarrow>ns. 2 * ((n - 1) div 2)) (hex_text cast src)"
proof -
  have "at_hex opts fresh src gd None" using assms(1-3) by (simp add: at_hex_def)
  from hex.pieces [OF this, of ns] show ?thesis
    using assms(4) by (cases ns) (simp_all add: pointer_def)
qed

theorem hex_pieces_in_order_witness:
  "\<exists>rs. read_pieces (piece_call (copy_binhex_result wide_digit (Suc 1) \<lparr>g_max_length = 0, g_retrieve = True\<rparr>)
        (\<lambda>n a. min (a div Suc 1) (2 * ((n - 1) div 2))) (\<lambda>n. replicate n 7) [CHR 0xca, CHR 0xfe])
      (reset_getdata_position new_getdata) [3, 4] = Some rs \<and>
    concat (map fst rs) = take (\<Sum>n\<leftarrow>[3, 4]. 2 * ((n - 1) div 2)) (hex_text wide_digit [CHR 0xca, CHR 0xfe])"
  by (rule hex_pieces_in_order) (simp_all add: honest_def reset_getdata_position_def)

text \<open>Read as \<open>SQL_C_WCHAR\<close>, a binary column of which the buffer holds half or more, but not all, is reported as complete
  by the first call, with no 01004, so that the loop of an application ends and loses the rest.\<close>

theorem wide_hex_loses_half:
  assumes "honest opts fresh src" and "g_max_length opts = 0" and "gd_src_offset gd = NOT_SET"
    and "0 < n" and "n < 2 ^ 31" and "(n - 1) div 2 < length src" and "length src \<le> 2 * ((n - 1) div 2)"
  shows "get_all (Suc k) (piece_call (copy_binhex_result wide_digit 2 opts) (\<lambda>n a. min (a div 2) (2 * ((n - 1) div 2))) fresh src)
      gd n = Some (hex_text wide_digit (take ((n - 1) div 2) src))"
proof -
  have at: "at_hex opts fresh src gd None" using assms(1-3) by (simp add: at_hex_def)
  let ?l = "(n - 1) div 2"
  have two: "(2::nat) = Suc 1" by simp
  have m: "min (length src) ?l = ?l" using assms(6) by simp
  from hex_call [OF at _ assms(4,5), of wide_digit 2] have c: "copy_binhex_result wide_digit 2 opts gd (Some (fresh n)) (int n) src =
      Some \<lparr>o_rc = SQL_SUCCESS, o_gd = gd\<lparr>gd_src_offset := ?l\<rparr>,
           o_buf = Some (put_at 0 (hex_text wide_digit (take ?l src) @ [wide_digit (CHR 0x00)]) (fresh n)),
           o_avail = Some (length src * 2 * 2), o_state = None\<rparr>"
    using assms(7) m by (simp add: pointer_def Let_def truncation_def mult.commute)
  have s: "min (length src * 2 * 2 div 2) (2 * ?l) = length (hex_text wide_digit (take ?l src))"
    using assms(6) by simp
  have t: "take (length xs) (put_at 0 (xs @ [c]) b) = xs" for xs b and c :: u16
    by (simp add: put_at_def)
  have "piece_call (copy_binhex_result wide_digit 2 opts) (\<lambda>n a. min (a div 2) (2 * ((n - 1) div 2))) fresh src gd n =
      Some (gd\<lparr>gd_src_offset := ?l\<rparr>, hex_text wide_digit (take ?l src), SQL_SUCCESS)"
    unfolding piece_call_def c option.case out.simps prod.case s t ..
  then show ?thesis by (simp add: SQL_SUCCESS_def SQL_SUCCESS_WITH_INFO_def)
qed

theorem wide_hex_loses_half_witness:
  "get_all (Suc 0) (piece_call (copy_binhex_result wide_digit 2 \<lparr>g_max_length = 0, g_retrieve = True\<rparr>)
        (\<lambda>n a. min (a div 2) (2 * ((n - 1) div 2))) (\<lambda>n. replicate n 7) [CHR 0xca, CHR 0xfe])
      (reset_getdata_position new_getdata) 4 =
    Some (hex_text wide_digit (take ((4 - 1) div 2) [CHR 0xca, CHR 0xfe]))"
  by (rule wide_hex_loses_half) (simp_all add: honest_def reset_getdata_position_def)

text \<open>Of two binary parameters that are written in hexadecimal one after the other, the second is lost when it is no longer
  than the first: nothing resets the position of the statement between them, so that the query gets an empty literal.\<close>

theorem second_binary_param_lost:
  assumes "g_retrieve opts" and "g_max_length opts = 0" and "\<forall>n. length (mem n) = n"
    and "gd_src_offset gd \<in> {0, NOT_SET}" and "a \<noteq> []" and "length a < 2 ^ 29" and "length b \<le> length a"
  shows "\<exists>gd'. insert_hex_param opts mem gd buf a = Some (gd', buf @ '' 0x'' @ hex_text (\<lambda>c. c) a) \<and>
    (\<forall>buf'. insert_hex_param opts mem gd' buf' b = Some (gd', buf' @ '' 0x''))"
proof -
  define p where "p = (if gd_src_offset gd = NOT_SET then None else Some (0::nat))"
  have at: "at_hex opts mem a gd p"
    using assms by (auto simp: at_hex_def honest_def p_def)
  have ne: "p \<noteq> Some (2 * length a)" using assms(5) by (simp add: p_def)
  have p0: "pointer p = 0" by (simp add: p_def pointer_def)
  let ?n = "length a * 2 + 1"
  have n: "0 < ?n" "?n < 2 ^ 31" "sqlinteger (int ?n) = int ?n" "(?n - 1) div 2 = length a"
    using assms(6) by (auto simp: sqlinteger_def)
  let ?gd = "gd\<lparr>gd_src_offset := length a\<rparr>"
  have c: "copy_binhex_result (\<lambda>c. c) 1 opts gd (Some (mem ?n)) (int ?n) a =
      Some \<lparr>o_rc = SQL_SUCCESS, o_gd = ?gd, o_buf = Some (put_at 0 (hex_text (\<lambda>c. c) a @ [CHR 0x00]) (mem ?n)),
        o_avail = Some (length a * 2), o_state = None\<rparr>"
    using hex_call [OF at ne n(1,2), of "\<lambda>c. c" 1] unfolding n(4) p0 by (simp add: Let_def truncation_def)
  have t: "take (length a * 2) (put_at 0 (hex_text (\<lambda>c. c) a @ [CHR 0x00]) (mem ?n)) = hex_text (\<lambda>c. c) a"
    by (simp add: put_at_def)
  have first: "insert_hex_param opts mem gd buf a = Some (?gd, buf @ '' 0x'' @ hex_text (\<lambda>c. c) a)"
    unfolding insert_hex_param_def Let_def n(3) c option.case out.simps t ..
  have "length a \<noteq> NOT_SET" using assms(6) by (simp add: NOT_SET_def)
  then have "copy_binhex_result (\<lambda>c. c) 1 opts ?gd r i b = Some (no_data ?gd r)" for r :: "string option" and i
    using assms(2,7) by (simp add: copy_binhex_result_def Let_def split_beta)
  then have "insert_hex_param opts mem ?gd buf' b = Some (?gd, buf' @ '' 0x'')" for buf'
    by (simp add: insert_hex_param_def Let_def no_data_def)
  with first show ?thesis by blast
qed

theorem second_binary_param_lost_witness:
  "\<exists>gd'. insert_hex_param \<lparr>g_max_length = 0, g_retrieve = True\<rparr> (\<lambda>n. replicate n (CHR 0x00)) new_getdata
      ''VALUES('' [CHR 0xca, CHR 0xfe] = Some (gd', ''VALUES('' @ '' 0x'' @ hex_text (\<lambda>c. c) [CHR 0xca, CHR 0xfe]) \<and>
    (\<forall>buf'. insert_hex_param \<lparr>g_max_length = 0, g_retrieve = True\<rparr> (\<lambda>n. replicate n (CHR 0x00)) gd' buf' [CHR 0x07] =
      Some (gd', buf' @ '' 0x''))"
  by (rule second_binary_param_lost) (simp_all add: new_getdata_def)

end
