(* ===== verification/DateTime.thy ===== *)
theory DateTime
  imports Numeric
begin

text \<open>
  Dates and times (\<^verbatim>\<open>driver/utility.cc\<close>, \<open>convert_c_type2str\<close> of \<^verbatim>\<open>driver/execute.cc\<close>): from the text of
  the server to the structures of ODBC, and from those to the text of a parameter.

  A C string is its bytes up to the terminator, and a length that goes with it does not exceed it. The
  fields of the structures are natural numbers; a function is \<open>None\<close> where the code reads what was never
  written, writes outside its buffer or overflows an \<open>int\<close>.
\<close>

section \<open>Structures\<close>

record sql_date =
  dt_year :: nat
  dt_month :: nat
  dt_day :: nat

record sql_time =
  tm_hour :: nat
  tm_minute :: nat
  tm_second :: nat

record sql_timestamp = sql_date +
  ts_hour :: nat
  ts_minute :: nat
  ts_second :: nat
  ts_fraction :: nat

section \<open>Fractions of a second\<close>

text \<open>
  Nine digits are taken; the place of a character that is no digit stays \<open>0\<close>, and so do all that
  follow, since the source does not move on.
\<close>

fun fraction_digits :: "nat \<Rightarrow> string \<Rightarrow> string" where
  "fraction_digits 0 s = []"
| "fraction_digits (Suc n) [] = []"
| "fraction_digits (Suc n) (c # cs) =
     (if isdigit_c c then c # fraction_digits n cs else CHR ''0'' # fraction_digits n (c # cs))"

fun find_sub :: "string \<Rightarrow> string \<Rightarrow> nat option" where
  "find_sub p [] = None"
| "find_sub p (c # cs) =
     (if p \<noteq> [] \<and> take (length p) (c # cs) = p then Some 0 else map_option Suc (find_sub p cs))"

text \<open>
  \<open>get_fractional_part\<close>: the place of the decimal point and the nanoseconds. \<open>locale\<close> is \<open>None\<close> when the
  point is always a dot, which is then looked for in the whole string, the decimal point of the
  locale otherwise. A negative length is that of the string.
\<close>

definition string_length :: "string \<Rightarrow> int \<Rightarrow> nat" where
  "string_length s len = (if len < 0 then length s else nat len)"

definition get_fractional_part :: "string option \<Rightarrow> string \<Rightarrow> int \<Rightarrow> nat option \<times> nat" where
  "get_fractional_part loc s len =
     (let l = string_length s len;
          (point, size) = (case loc of
             None \<Rightarrow> (find_sub ''.'' s, 1)
           | Some p \<Rightarrow> (find_sub p (take l s), length p))
      in case point of
           None \<Rightarrow> (None, 0)
         | Some i \<Rightarrow>
             if i + size < l
             then (Some i, digits_value 0
                    (take 9 (fraction_digits 10 (drop (i + size) (take l s)) @ replicate 9 (CHR ''0''))))
             else (None, 0))"

section \<open>Timestamps\<close>

definition DATETIME_DIGITS :: nat where "DATETIME_DIGITS = 14"

datatype ts_result = Null_date | Bad_date | Timestamp sql_timestamp

definition two :: "string \<Rightarrow> nat \<Rightarrow> nat" where
  "two b i = (code (b ! i) - 48) * 10 + (code (b ! Suc i) - 48)"

text \<open>\<open>YYMMDD\<close> and \<open>YYMMDDHHMMSS\<close> get a century.\<close>

definition add_century :: "string \<Rightarrow> string" where
  "add_century b =
     (if length b = 6 \<or> length b = 12
      then (if code (b ! 0) \<le> code (CHR ''6'') then ''20'' else ''19'') @ b else b)"

definition zero_to_min :: "string \<Rightarrow> string" where
  "zero_to_min b =
     (let b' = (if take 2 (drop 4 b) = ''00'' then b[5 := CHR ''1''] else b) in
      if take 2 (drop 6 b') = ''00'' then b'[7 := CHR ''1''] else b')"

definition str_to_ts :: "string \<Rightarrow> int \<Rightarrow> bool \<Rightarrow> string option \<Rightarrow> ts_result" where
  "str_to_ts s len zeroToMin loc =
     (let (point, fraction) = get_fractional_part loc s (int (string_length s len));
          stop = (case point of None \<Rightarrow> string_length s len | Some i \<Rightarrow> i);
          ds = filter isdigit_c (take stop s)
      in if length ds > DATETIME_DIGITS then Bad_date
         else
           let b = add_century ds;
               b = b @ replicate (DATETIME_DIGITS - length b) (CHR ''0'')
           in if (take 2 (drop 4 b) = ''00'' \<or> take 2 (drop 6 b) = ''00'') \<and> \<not> zeroToMin then Null_date
              else
                let b' = zero_to_min b in
                Timestamp
                  \<lparr>dt_year = two b 0 * 100 + two b 2, dt_month = two b' 4, dt_day = two b' 6,
                   ts_hour = two b' 8, ts_minute = two b' 10, ts_second = two b' 12, ts_fraction = fraction\<rparr>)"

text \<open>
  \<open>complete_timestamp\<close>, into a buffer of 21 bytes: the formatted text, \<open>Some None\<close> for a month of
  zero. \<open>copy_pairs\<close> is its first loop, with the number of the field, \<open>pad_pairs\<close> the second, which
  ends at the place 20 only; \<open>None\<close> when either leaves the buffer.
\<close>

definition pair_end :: "nat \<Rightarrow> char" where
  "pair_end i = (if i < 2 then CHR ''-'' else if i = 2 then CHR '' '' else CHR '':'')"

fun copy_pairs :: "nat \<Rightarrow> nat \<Rightarrow> string \<Rightarrow> string \<Rightarrow> (nat \<times> string) option" where
  "copy_pairs i 0 v buf = Some (i, buf)"
| "copy_pairs i (Suc 0) v buf = None"
| "copy_pairs i (Suc (Suc n)) (a # b # v) buf =
     (if length buf + 3 \<le> 21 then copy_pairs (Suc i) n v (buf @ [a, b, pair_end i]) else None)"
| "copy_pairs i (Suc (Suc n)) v buf = None"

function pad_pairs :: "nat \<Rightarrow> string \<Rightarrow> string option" where
  "pad_pairs i buf =
     (if length buf = 20 then Some buf
      else if length buf + 3 \<le> 21 then pad_pairs (Suc i) (buf @ ''00'' @ [pair_end i])
      else None)"
  by pat_completeness auto

termination
  by (relation "measure (\<lambda>(i, buf). 21 - length buf)") auto

declare pad_pairs.simps [simp del]

definition complete_timestamp :: "string \<Rightarrow> nat \<Rightarrow> string option option" where
  "complete_timestamp value len =
     (let short = (len = 6 \<or> len = 10 \<or> len = 12);
          century = (if short then (if code (value ! 0) \<le> code (CHR ''6'') then ''20'' else ''19'')
                     else take 2 value);
          v = (if short then value else drop 2 value);
          l = (if short then len else len - 2)
      in if length v < 2 then None
         else if take 2 (drop 2 v) = ''00'' then Some None
         else
           (case copy_pairs 1 (l mod 32 div 2 * 2 - 2) (drop 2 v) (century @ take 2 v @ ''-'') of
              None \<Rightarrow> None
            | Some (i, buf) \<Rightarrow> map_option Some (pad_pairs i buf)))"

section \<open>Times\<close>

definition INT_MAX :: nat where "INT_MAX = 2 ^ 31 - 1"

text \<open>\<open>atoi\<close> of a run of digits, undefined when the number is no \<open>int\<close>.\<close>

definition atoi :: "string \<Rightarrow> nat option" where
  "atoi s = (if digits_value 0 s \<le> INT_MAX then Some (digits_value 0 s) else None)"

definition int_add :: "nat \<Rightarrow> nat \<Rightarrow> nat option" where
  "int_add a b = (if a + b \<le> INT_MAX then Some (a + b) else None)"

text \<open>
  The components of a time: at most three runs of digits, each ended by one character; at most 23
  characters are looked at.
\<close>

fun time_tokens :: "nat \<Rightarrow> nat \<Rightarrow> string \<Rightarrow> string \<Rightarrow> string list" where
  "time_tokens 0 num s cur = [cur]"
| "time_tokens (Suc n) num [] cur = [cur]"
| "time_tokens (Suc n) num (c # cs) cur =
     (if isdigit_c c then time_tokens n num cs (cur @ [c])
      else if num < 2 then cur # time_tokens n (Suc num) cs []
      else [cur])"

definition token :: "string list \<Rightarrow> nat \<Rightarrow> nat option" where
  "token ts i = (if i < length ts then atoi (ts ! i) else Some 0)"

definition normal_time :: "nat \<Rightarrow> nat \<Rightarrow> nat \<Rightarrow> sql_time option" where
  "normal_time h m s =
     (case int_add m (if s > 59 then s div 60 else 0) of
        None \<Rightarrow> None
      | Some m' \<Rightarrow>
          (case int_add h (if m' > 59 then m' div 60 else 0) of
             None \<Rightarrow> None
           | Some h' \<Rightarrow>
               Some \<lparr>tm_hour = (if h' < 65536 then h' else 65535),
                     tm_minute = (if m' > 59 then m' mod 60 else m'),
                     tm_second = (if s > 59 then s mod 60 else s)\<rparr>))"

definition str_to_time_st :: "string \<Rightarrow> sql_time option" where
  "str_to_time_st s =
     (let ts = time_tokens 23 0 s [] in
      case (token ts 0, token ts 1, token ts 2) of
        (Some h, Some m, Some sec) \<Rightarrow> normal_time h m sec
      | _ \<Rightarrow> None)"

text \<open>The numbers in a string, three at most, and what follows them.\<close>

definition not_digit :: "char \<Rightarrow> bool" where
  "not_digit c \<longleftrightarrow> \<not> isdigit_c c"

fun three_numbers :: "nat \<Rightarrow> string \<Rightarrow> nat list \<times> string" where
  "three_numbers 0 s = ([], s)"
| "three_numbers (Suc n) [] = ([], [])"
| "three_numbers (Suc n) (c # cs) =
     (let v = digits_value ((code c - 48) mod 256) cs mod 2 ^ 32;
          (vs, rest) = three_numbers n (dropWhile not_digit (dropWhile isdigit_c cs))
      in (v # vs, rest))"

lemma three_numbers_shorter: "length (snd (three_numbers n s)) \<le> length s"
proof (induction n s rule: three_numbers.induct)
  case (3 n c cs)
  have "length (dropWhile not_digit (dropWhile isdigit_c cs)) \<le> length cs"
    by (meson length_dropWhile_le order_trans)
  then show ?case using 3 by (fastforce simp: Let_def split_beta)
qed simp_all

lemma three_numbers_less: "s \<noteq> [] \<Longrightarrow> length (snd (three_numbers (Suc n) s)) < length s"
proof (cases s)
  case (Cons c cs)
  have "length (dropWhile not_digit (dropWhile isdigit_c cs)) \<le> length cs"
    by (meson length_dropWhile_le order_trans)
  then have "length (snd (three_numbers n (dropWhile not_digit (dropWhile isdigit_c cs)))) \<le> length cs"
    using three_numbers_shorter le_trans by blast
  then show ?thesis using Cons by (simp add: Let_def split_beta)
qed simp

text \<open>\<open>str_to_time_as_long\<close>; the argument is the string up to its stated length.\<close>

function str_to_time_as_long :: "string \<Rightarrow> nat option" where
  "str_to_time_as_long s =
     (if s = [] then Some 0
      else
        let s' = dropWhile not_digit s; (vs, rest) = three_numbers 3 s' in
        if rest \<noteq> [] then str_to_time_as_long rest
        else if vs = [] then None
        else if vs ! 0 > 10000 \<or> length vs < 3 then Some (vs ! 0)
        else Some (vs ! 0 * 10000 + (vs ! 1 * 100 + vs ! 2)))"
  by pat_completeness auto

termination
proof (relation "measure length")
  fix s s' :: string and x vs rest
  assume s: "s \<noteq> []" "s' = dropWhile not_digit s" "x = three_numbers 3 s'" "(vs, rest) = x" "rest \<noteq> []"
  have "s' \<noteq> []"
  proof
    assume "s' = []"
    have "three_numbers 3 [] = ([], [])" by (simp add: numeral_3_eq_3)
    with s \<open>s' = []\<close> show False by (metis prod.inject)
  qed
  then have "length (snd (three_numbers (Suc 2) s')) < length s'" by (rule three_numbers_less)
  moreover have "length s' \<le> length s" using s by (simp add: length_dropWhile_le)
  moreover have "rest = snd (three_numbers (Suc 2) s')" using s by (metis eval_nat_numeral(3) snd_conv)
  ultimately show "(rest, s) \<in> measure length" by simp
qed simp

declare str_to_time_as_long.simps [simp del]

section \<open>Dates\<close>

text \<open>The fields of a date, of at most \<open>Suc f\<close> digits each, two after the first.\<close>

fun date_fields :: "nat \<Rightarrow> nat \<Rightarrow> string \<Rightarrow> nat list" where
  "date_fields 0 f s = []"
| "date_fields (Suc n) f [] = []"
| "date_fields (Suc n) f (c # cs) =
     (let ds = takeWhile isdigit_c (take f cs) in
      digits_value ((code c - 48) mod 256) ds #
        date_fields n 1 (dropWhile not_digit (drop (length ds) cs)))"

definition year_length :: "string \<Rightarrow> nat" where
  "year_length s =
     (let digits = length (takeWhile isdigit_c s) in
      if digits = 4 \<or> digits = 8 \<or> digits \<ge> 14 then 4 else 2)"

text \<open>\<open>Some None\<close> is the return code 1, a date that ODBC cannot hold.\<close>

definition str_to_date :: "string \<Rightarrow> bool \<Rightarrow> sql_date option option" where
  "str_to_date str zeroToMin =
     (let s = dropWhile not_digit str;
          d = date_fields 3 (year_length s - 1) s;
          i = length d
      in if i \<le> 1 \<or> d ! 1 = 0 \<or> (i > 2 \<and> d ! 2 = 0)
         then if \<not> zeroToMin then Some None
              else if i = 0 then None
              else Some (Some \<lparr>dt_year = d ! 0, dt_month = (if i > 1 \<and> d ! 1 \<noteq> 0 then d ! 1 else 1),
                               dt_day = (if i > 2 \<and> d ! 2 \<noteq> 0 then d ! 2 else 1)\<rparr>)
         else Some (Some \<lparr>dt_year = d ! 0, dt_month = d ! 1, dt_day = (if i > 2 then d ! 2 else 1)\<rparr>))"

section \<open>The text of a parameter\<close>

definition dec_char :: "nat \<Rightarrow> char" where
  "dec_char n = char_of (48 + n mod 10)"

fun dec :: "nat \<Rightarrow> string" where
  "dec n = (if n < 10 then [dec_char n] else dec (n div 10) @ [dec_char n])"

declare dec.simps [simp del]

text \<open>\<open>%0wd\<close> of a number that is not negative.\<close>

definition zero_padded :: "nat \<Rightarrow> nat \<Rightarrow> string" where
  "zero_padded w n = replicate (w - length (dec n)) (CHR ''0'') @ dec n"

definition date_str :: "bool \<Rightarrow> sql_date \<Rightarrow> string" where
  "date_str min_to_zero d =
     (if min_to_zero \<and> dt_year d = 0 \<and> dt_month d = 1 \<and> dt_day d = 1 then ''0000-00-00''
      else zero_padded 4 (dt_year d) @ ''-'' @ zero_padded 2 (dt_month d) @ ''-'' @ zero_padded 2 (dt_day d))"

definition time_fields :: "nat \<Rightarrow> nat \<Rightarrow> nat \<Rightarrow> string" where
  "time_fields h m s = zero_padded 2 h @ '':'' @ zero_padded 2 m @ '':'' @ zero_padded 2 s"

text \<open>\<open>None\<close> is the error 22008.\<close>

definition time_str :: "sql_time \<Rightarrow> string option" where
  "time_str t = (if tm_hour t > 23 then None else Some (time_fields (tm_hour t) (tm_minute t) (tm_second t)))"

text \<open>The zeros at the end of the nine digits are removed, the point stays.\<close>

fun trim_zeros :: "nat \<Rightarrow> string \<Rightarrow> nat" where
  "trim_zeros 0 s = 0"
| "trim_zeros (Suc p) s = (if s ! Suc p = CHR ''0'' then trim_zeros p s else Suc p)"

definition fraction_str :: "nat \<Rightarrow> string" where
  "fraction_str f =
     (if f = 0 then []
      else let s = ''.'' @ zero_padded 9 f in take (trim_zeros 9 s + 1) s)"

definition timestamp_str :: "bool \<Rightarrow> sql_timestamp \<Rightarrow> string" where
  "timestamp_str min_to_zero t =
     date_str min_to_zero \<lparr>dt_year = dt_year t, dt_month = dt_month t, dt_day = dt_day t\<rparr> @ '' '' @
       time_fields (ts_hour t) (ts_minute t) (ts_second t) @ fraction_str (ts_fraction t)"

end
