(* ===== verification/DateTime_Props.thy ===== *)
theory DateTime_Props
  imports DateTime
begin

text \<open>
  Dates and times survive the way to the server and back: the text the driver writes for a parameter is
  read to the same structure. The text it makes of an old timestamp means the same as the
  timestamp, where it makes one, and the parts of a time come out normalised.
\<close>

section \<open>Numbers in a fixed width\<close>

fun fixed :: "nat \<Rightarrow> nat \<Rightarrow> string" where
  "fixed 0 n = []"
| "fixed (Suc w) n = fixed w (n div 10) @ [dec_char n]"

lemma code_dec_char [simp]: "code (dec_char n) = 48 + n mod 10"
proof -
  have "48 + n mod 10 < 256" using mod_less_divisor [of 10 n] by linarith
  then show ?thesis by (simp add: dec_char_def)
qed

lemma isdigit_dec_char [simp]: "isdigit_c (dec_char n)"
proof -
  have "n mod 10 < 10" by simp
  then show ?thesis unfolding isdigit_c_def code_dec_char by linarith
qed

lemma dec_char_0: "dec_char 0 = CHR ''0''"
  unfolding code_inj [symmetric] by (simp add: code_def [of "CHR ''0''"])

lemma length_fixed [simp]: "length (fixed w n) = w"
  by (induction w arbitrary: n) simp_all

lemma fixed_digits: "c \<in> set (fixed w n) \<Longrightarrow> isdigit_c c"
  by (induction w arbitrary: n) auto

lemma fixed_0: "fixed w 0 = replicate w (CHR ''0'')"
proof (induction w)
  case (Suc w)
  then show ?case by (simp add: dec_char_0 replicate_append_same)
qed simp

lemma zero_padded_fixed: "0 < w \<Longrightarrow> n < 10 ^ w \<Longrightarrow> zero_padded w n = fixed w n"
proof (induction w arbitrary: n)
  case (Suc w)
  show ?case
  proof (cases "n < 10")
    case True
    then show ?thesis
      by (simp add: zero_padded_def dec.simps [of n] fixed_0)
  next
    case False
    then have "0 < w" using Suc.prems by (cases w) auto
    then have "zero_padded w (n div 10) = fixed w (n div 10)"
      using Suc.IH [of "n div 10"] Suc.prems(2) by (simp add: less_mult_imp_div_less mult.commute)
    then show ?thesis using False by (simp add: zero_padded_def dec.simps [of n])
  qed
qed simp

lemma digits_value_append:
  "\<forall>c \<in> set xs. isdigit_c c \<Longrightarrow> digits_value a (xs @ ys) = digits_value (digits_value a xs) ys"
  by (induction xs arbitrary: a) simp_all

lemma digits_value_fixed: "digits_value a (fixed w n) = a * 10 ^ w + n mod 10 ^ w"
proof (induction w arbitrary: n)
  case (Suc w)
  have "digits_value a (fixed (Suc w) n) = digits_value (digits_value a (fixed w (n div 10))) [dec_char n]"
    by (simp add: digits_value_append fixed_digits)
  also have "\<dots> = 10 * (a * 10 ^ w + n div 10 mod 10 ^ w) + n mod 10"
    by (simp add: Suc.IH)
  also have "n mod 10 ^ Suc w = 10 * (n div 10 mod 10 ^ w) + n mod 10"
    by (simp add: mod_mult2_eq)
  ultimately show ?case by (simp add: algebra_simps)
qed simp

lemma fixed_2: "fixed 2 n = [dec_char (n div 10), dec_char n]"
  by (simp add: numeral_2_eq_2)

lemma fixed_4: "fixed 4 n = [dec_char (n div 1000), dec_char (n div 100), dec_char (n div 10), dec_char n]"
proof -
  have d: "n div 10 div 10 = n div 100" "n div 100 div 10 = n div 1000" by (simp_all flip: div_mult2_eq)
  have e: "4 = Suc (Suc (Suc (Suc 0)))" by simp
  show ?thesis unfolding e by (simp add: d)
qed

lemma two_digits: "n < 100 \<Longrightarrow> n div 10 mod 10 * 10 + n mod 10 = (n::nat)"
proof -
  assume "n < 100"
  then have "n div 10 < 10" by (simp add: less_mult_imp_div_less)
  then show ?thesis using div_mult_mod_eq [of n 10] by simp
qed

lemma join_digits:
  "(a::nat) = 10 * b + p \<Longrightarrow> b = 10 * c + q \<Longrightarrow> c = 10 * d + r \<Longrightarrow> (d * 10 + r) * 100 + (q * 10 + p) = a"
  by simp

lemma four_digits:
  assumes "n < 10000"
  shows "(n div 1000 mod 10 * 10 + n div 100 mod 10) * 100 + (n div 10 mod 10 * 10 + n mod 10) = (n::nat)"
proof -
  have k: "n div 1000 mod 10 = n div 1000" using assms by (simp add: less_mult_imp_div_less)
  have d: "n div 10 div 10 = n div 100" "n div 100 div 10 = n div 1000" by (simp_all flip: div_mult2_eq)
  show ?thesis
    unfolding k
    by (rule join_digits [OF mult_div_mod_eq [symmetric] mult_div_mod_eq [of 10 "n div 10", unfolded d, symmetric]
          mult_div_mod_eq [of 10 "n div 100", unfolded d, symmetric]])
qed

lemma padded_2: "n < 100 \<Longrightarrow> zero_padded 2 n = [dec_char (n div 10), dec_char n]"
  using zero_padded_fixed [of 2 n] fixed_2 [of n] by simp

lemma padded_4: "n < 10000 \<Longrightarrow>
    zero_padded 4 n = [dec_char (n div 1000), dec_char (n div 100), dec_char (n div 10), dec_char n]"
  using zero_padded_fixed [of 4 n] fixed_4 [of n] by simp

lemma dec_char_neq [simp]: "dec_char n \<noteq> CHR ''.''" "dec_char n \<noteq> CHR ''-''" "dec_char n \<noteq> CHR '':''"
  "dec_char n \<noteq> CHR '' ''"
proof -
  have "code (dec_char n) \<noteq> 46" "code (dec_char n) \<noteq> 45" "code (dec_char n) \<noteq> 58" "code (dec_char n) \<noteq> 32"
    using mod_less_divisor [of 10 n] unfolding code_dec_char by linarith+
  moreover have "code (CHR ''.'') = 46" "code (CHR ''-'') = 45" "code (CHR '':'') = 58" "code (CHR '' '') = 32"
    by (simp_all add: code_def)
  ultimately show "dec_char n \<noteq> CHR ''.''" "dec_char n \<noteq> CHR ''-''" "dec_char n \<noteq> CHR '':''"
    "dec_char n \<noteq> CHR '' ''" by metis+
qed

lemma dec_char_zero_iff: "dec_char n = CHR ''0'' \<longleftrightarrow> n mod 10 = 0"
proof -
  have "dec_char n = CHR ''0'' \<longleftrightarrow> code (dec_char n) = code (CHR ''0'')" by (simp only: code_inj)
  then show ?thesis by (simp add: code_def [of "CHR ''0''"])
qed

section \<open>Fractions\<close>

lemma trim_zeros_le: "trim_zeros p s \<le> p"
  by (induction p) auto

lemma trim_zeros_restore:
  "p < length s \<Longrightarrow> take (Suc (trim_zeros p s)) s @ replicate (p - trim_zeros p s) (CHR ''0'') = take (Suc p) s"
proof (induction p)
  case (Suc p)
  show ?case
  proof (cases "s ! Suc p = CHR ''0''")
    case True
    have "Suc p - trim_zeros p s = Suc (p - trim_zeros p s)" using trim_zeros_le [of p s] by simp
    then have "replicate (Suc p - trim_zeros p s) (CHR ''0'') = replicate (p - trim_zeros p s) (CHR ''0'') @ [CHR ''0'']"
      by (simp add: replicate_append_same)
    then show ?thesis
      using True Suc by (simp add: take_Suc_conv_app_nth [of "Suc p" s] flip: append_assoc)
  qed simp
qed simp

lemma fraction_digits_all: "\<forall>c \<in> set s. isdigit_c c \<Longrightarrow> length s \<le> n \<Longrightarrow> fraction_digits n s = s"
proof (induction s arbitrary: n)
  case Nil
  then show ?case by (cases n) auto
next
  case (Cons c s)
  then show ?case by (cases n) auto
qed

text \<open>What is written after the point is read back.\<close>

lemma fraction_read:
  assumes "0 < f" and "f < 10 ^ 9"
  shows "\<exists>ds. fraction_str f = CHR ''.'' # ds \<and> ds \<noteq> [] \<and> (\<forall>c \<in> set ds. isdigit_c c) \<and>
    digits_value 0 (take 9 (fraction_digits 10 ds @ replicate 9 (CHR ''0''))) = f"
proof -
  let ?s = "CHR ''.'' # fixed 9 f"
  let ?t = "trim_zeros 9 ?s" and ?ds = "take (trim_zeros 9 (CHR ''.'' # fixed 9 f)) (fixed 9 f)"
  have p: "zero_padded 9 f = fixed 9 f" using assms by (intro zero_padded_fixed) auto
  have fs: "fraction_str f = CHR ''.'' # ?ds" using assms(1) p by (simp add: fraction_str_def)
  have t9: "?t \<le> 9" by (rule trim_zeros_le)
  have r: "?ds @ replicate (9 - ?t) (CHR ''0'') = fixed 9 f"
    using trim_zeros_restore [of 9 ?s] by simp
  have dig: "\<forall>c \<in> set ?ds. isdigit_c c" using fixed_digits in_set_takeD by fast
  have len: "length ?ds = ?t" using t9 by simp
  have all: "fraction_digits 10 ?ds = ?ds" using t9 by (intro fraction_digits_all [OF dig]) simp
  have d9: "take 9 (?ds @ replicate 9 (CHR ''0'')) = fixed 9 f"
  proof -
    have "take 9 (?ds @ replicate 9 (CHR ''0'')) = ?ds @ replicate (9 - ?t) (CHR ''0'')"
      using len t9 by (simp add: min_def)
    then show ?thesis using r by simp
  qed
  have v: "digits_value 0 (take 9 (fraction_digits 10 ?ds @ replicate 9 (CHR ''0''))) = f"
    unfolding all d9 using digits_value_fixed [of 0 9 f] assms(2) by simp
  have "?ds \<noteq> []"
  proof
    assume "?ds = []"
    then have "take 9 (?ds @ replicate 9 (CHR ''0'')) = fixed 9 0" by (simp only: fixed_0) simp
    with d9 have "digits_value 0 (fixed 9 0) = f" using digits_value_fixed [of 0 9 f] assms(2) by simp
    then show False using assms(1) digits_value_fixed [of 0 9 0] by simp
  qed
  with fs dig v show ?thesis by blast
qed

section \<open>Timestamps\<close>

lemma not_digits [simp]: "\<not> isdigit_c (CHR ''-'')" "\<not> isdigit_c (CHR '' '')" "\<not> isdigit_c (CHR '':'')" "\<not> isdigit_c (CHR ''.'')"
  by (simp_all add: isdigit_c_def code_def)

definition ts_text :: "sql_timestamp \<Rightarrow> string" where
  "ts_text t =
     [dec_char (dt_year t div 1000), dec_char (dt_year t div 100), dec_char (dt_year t div 10), dec_char (dt_year t), CHR ''-'',
      dec_char (dt_month t div 10), dec_char (dt_month t), CHR ''-'', dec_char (dt_day t div 10), dec_char (dt_day t), CHR '' '',
      dec_char (ts_hour t div 10), dec_char (ts_hour t), CHR '':'', dec_char (ts_minute t div 10), dec_char (ts_minute t), CHR '':'',
      dec_char (ts_second t div 10), dec_char (ts_second t)]"

definition ts_digits :: "sql_timestamp \<Rightarrow> string" where
  "ts_digits t =
     [dec_char (dt_year t div 1000), dec_char (dt_year t div 100), dec_char (dt_year t div 10), dec_char (dt_year t),
      dec_char (dt_month t div 10), dec_char (dt_month t), dec_char (dt_day t div 10), dec_char (dt_day t),
      dec_char (ts_hour t div 10), dec_char (ts_hour t), dec_char (ts_minute t div 10), dec_char (ts_minute t),
      dec_char (ts_second t div 10), dec_char (ts_second t)]"

text \<open>The fields fit the places they are written to, and the date is none that is written as zeros.\<close>

definition printable :: "bool \<Rightarrow> sql_timestamp \<Rightarrow> bool" where
  "printable mz t \<longleftrightarrow> dt_year t < 10000 \<and> 1 \<le> dt_month t \<and> dt_month t < 100 \<and> 1 \<le> dt_day t \<and> dt_day t < 100 \<and>
     ts_hour t < 100 \<and> ts_minute t < 100 \<and> ts_second t < 100 \<and> ts_fraction t < 10 ^ 9 \<and>
     \<not> (mz \<and> dt_year t = 0 \<and> dt_month t = 1 \<and> dt_day t = 1)"

lemma timestamp_str_text: "printable mz t \<Longrightarrow> timestamp_str mz t = ts_text t @ fraction_str (ts_fraction t)"
  by (auto simp: printable_def timestamp_str_def date_str_def time_fields_def ts_text_def padded_2 padded_4)

lemma find_point_text: "find_sub ''.'' (ts_text t @ s) = map_option ((+) 19) (find_sub ''.'' s)"
  by (cases "find_sub ''.'' s") (simp_all add: ts_text_def)

lemma string_length_int [simp]: "string_length s (int n) = n"
  by (simp add: string_length_def)

lemma fraction_of_text:
  assumes "f < 10 ^ 9"
  shows "\<exists>p. get_fractional_part None (ts_text t @ fraction_str f) (int (length (ts_text t @ fraction_str f))) = (p, f) \<and>
    filter isdigit_c (take (case p of None \<Rightarrow> length (ts_text t @ fraction_str f) | Some i \<Rightarrow> i) (ts_text t @ fraction_str f)) = ts_digits t"
proof (cases "f = 0")
  case True
  then have "fraction_str f = []" by (simp add: fraction_str_def)
  with True show ?thesis
    using find_point_text [of t "[]"]
    by (simp add: get_fractional_part_def string_length_def ts_text_def ts_digits_def)
next
  case False
  obtain ds where ds: "fraction_str f = CHR ''.'' # ds" "ds \<noteq> []" "\<forall>c \<in> set ds. isdigit_c c"
      "digits_value 0 (take 9 (fraction_digits 10 ds @ replicate 9 (CHR ''0''))) = f"
    using fraction_read [of f] False assms by auto
  have len: "length (ts_text t) = 19" by (simp add: ts_text_def)
  have p: "find_sub ''.'' (ts_text t @ CHR ''.'' # ds) = Some 19" using find_point_text [of t "CHR ''.'' # ds"] by simp
  have "get_fractional_part None (ts_text t @ fraction_str f) (int (length (ts_text t @ fraction_str f))) = (Some 19, f)"
    unfolding get_fractional_part_def string_length_int Let_def using ds p len by simp
  moreover have "filter isdigit_c (take 19 (ts_text t @ fraction_str f)) = ts_digits t"
    using len by (simp add: ts_text_def ts_digits_def)
  ultimately show ?thesis by (intro exI [of _ "Some 19"]) simp
qed

lemma ts_digits_fields:
  assumes "printable mz t"
  shows "two (ts_digits t) 0 * 100 + two (ts_digits t) 2 = dt_year t" "two (ts_digits t) 4 = dt_month t"
    "two (ts_digits t) 6 = dt_day t" "two (ts_digits t) 8 = ts_hour t" "two (ts_digits t) 10 = ts_minute t"
    "two (ts_digits t) 12 = ts_second t"
proof -
  show "two (ts_digits t) 0 * 100 + two (ts_digits t) 2 = dt_year t"
  proof -
    have "two (ts_digits t) 0 * 100 + two (ts_digits t) 2 =
        (dt_year t div 1000 mod 10 * 10 + dt_year t div 100 mod 10) * 100 + (dt_year t div 10 mod 10 * 10 + dt_year t mod 10)"
      by (simp add: two_def ts_digits_def)
    also have "\<dots> = dt_year t" using four_digits assms by (simp only: printable_def)
    finally show ?thesis .
  qed
qed (use assms in \<open>simp_all add: printable_def two_def ts_digits_def two_digits\<close>)

lemma ts_digits_not_zero:
  assumes "printable mz t"
  shows "take 2 (drop 4 (ts_digits t)) \<noteq> ''00''" "take 2 (drop 6 (ts_digits t)) \<noteq> ''00''"
proof -
  have z: "\<not> (n div 10 mod 10 = 0 \<and> n mod 10 = 0)" if "1 \<le> n" "n < 100" for n :: nat
    using that two_digits [of n] by auto
  show "take 2 (drop 4 (ts_digits t)) \<noteq> ''00''" "take 2 (drop 6 (ts_digits t)) \<noteq> ''00''"
    using z assms by (auto simp: printable_def ts_digits_def dec_char_zero_iff)
qed

text \<open>C28: a timestamp is read back as it was written: \<open>str_to_ts\<close> of the text that \<open>convert_c_type2str\<close> makes of it gives
  the same year, month, day, time and nanoseconds, as long as they fit the places they are
  written to, month and day are not zero and the date is not one that \<open>MIN_DATE_TO_ZERO\<close> replaces.\<close>

theorem timestamp_roundtrip:
  assumes "printable mz t"
  shows "str_to_ts (timestamp_str mz t) (- 1) z None = Timestamp t"
proof -
  let ?s = "ts_text t @ fraction_str (ts_fraction t)"
  have s: "timestamp_str mz t = ?s" by (rule timestamp_str_text [OF assms])
  have f: "ts_fraction t < 10 ^ 9" using assms by (simp add: printable_def)
  obtain p where p: "get_fractional_part None ?s (int (length ?s)) = (p, ts_fraction t)"
      "filter isdigit_c (take (case p of None \<Rightarrow> length ?s | Some i \<Rightarrow> i) ?s) = ts_digits t"
    using fraction_of_text [OF f] by blast
  have l: "length (ts_digits t) = 14" by (simp add: ts_digits_def)
  have z: "zero_to_min (ts_digits t) = ts_digits t"
    using ts_digits_not_zero [OF assms] by (simp add: zero_to_min_def)
  have n: "string_length ?s (- 1) = length ?s" by (simp add: string_length_def)
  have "str_to_ts ?s (- 1) z None = Timestamp
      \<lparr>dt_year = dt_year t, dt_month = dt_month t, dt_day = dt_day t,
       ts_hour = ts_hour t, ts_minute = ts_minute t, ts_second = ts_second t, ts_fraction = ts_fraction t\<rparr>"
    unfolding str_to_ts_def n p(1) Let_def prod.case p(2)
    using ts_digits_not_zero [OF assms]
    by (simp add: l DATETIME_DIGITS_def add_century_def z ts_digits_fields [OF assms])
  then show ?thesis unfolding s by simp
qed

theorem timestamp_roundtrip_witness:
  "str_to_ts (timestamp_str True
      \<lparr>dt_year = 2024, dt_month = 2, dt_day = 29, ts_hour = 23, ts_minute = 59, ts_second = 58, ts_fraction = 120000000\<rparr>)
      (- 1) False None =
    Timestamp \<lparr>dt_year = 2024, dt_month = 2, dt_day = 29, ts_hour = 23, ts_minute = 59, ts_second = 58, ts_fraction = 120000000\<rparr>"
  by (rule timestamp_roundtrip) (simp add: printable_def)

section \<open>Old timestamps\<close>

lemma digit_no_point: "isdigit_c c \<Longrightarrow> c \<noteq> CHR ''.''"
  by auto

lemma find_point_none: "CHR ''.'' \<notin> set s \<Longrightarrow> find_sub ''.'' s = None"
  by (induction s) auto

text \<open>A text without a fraction counts by its digits only, completed to fourteen.\<close>

definition ts_key :: "string \<Rightarrow> string" where
  "ts_key s = (let b = add_century (filter isdigit_c s) in b @ replicate (DATETIME_DIGITS - length b) (CHR ''0''))"

lemma str_to_ts_key:
  assumes "CHR ''.'' \<notin> set s" and "CHR ''.'' \<notin> set t" and "length (filter isdigit_c s) \<le> 14"
    and "length (filter isdigit_c t) \<le> 14" and "ts_key s = ts_key t"
  shows "str_to_ts s (- 1) z None = str_to_ts t (- 1) z None"
proof -
  have a: "str_to_ts u (- 1) z None =
      (let b = ts_key u in
       if (take 2 (drop 4 b) = ''00'' \<or> take 2 (drop 6 b) = ''00'') \<and> \<not> z then Null_date
       else Timestamp \<lparr>dt_year = two b 0 * 100 + two b 2, dt_month = two (zero_to_min b) 4, dt_day = two (zero_to_min b) 6,
                   ts_hour = two (zero_to_min b) 8, ts_minute = two (zero_to_min b) 10, ts_second = two (zero_to_min b) 12,
                   ts_fraction = 0\<rparr>)"
    if "CHR ''.'' \<notin> set u" "length (filter isdigit_c u) \<le> 14" for u
  proof -
    have n: "string_length u (- 1) = length u" by (simp add: string_length_def)
    have "get_fractional_part None u (int (length u)) = (None, 0)"
      using find_point_none [OF that(1)] by (simp add: get_fractional_part_def)
    then show ?thesis
      unfolding str_to_ts_def n ts_key_def Let_def using that(2) by (simp add: DATETIME_DIGITS_def)
  qed
  show ?thesis unfolding a [OF assms(1,3)] a [OF assms(2,4)] assms(5) ..
qed

text \<open>The layout of fourteen digits.\<close>

definition stamp :: "string \<Rightarrow> string" where
  "stamp k = [k ! 0, k ! 1, k ! 2, k ! 3, CHR ''-'', k ! 4, k ! 5, CHR ''-'', k ! 6, k ! 7, CHR '' '',
     k ! 8, k ! 9, CHR '':'', k ! 10, k ! 11, CHR '':'', k ! 12, k ! 13, CHR '':'']"

lemma filter_stamp:
  assumes "length k = 14" and "\<forall>c \<in> set k. isdigit_c c"
  shows "filter isdigit_c (stamp k) = k"
proof -
  have u: "[0 ..< 14] = [0, 1, 2, 3, 4, 5, 6, 7, 8, 9, 10, 11, 12, 13 :: nat]" by code_simp
  have k: "map ((!) k) [0 ..< 14] = k" using assms(1) by (metis map_nth)
  have "isdigit_c (k ! i)" if "i < 14" for i using assms that by simp
  then have "filter isdigit_c (stamp k) = map ((!) k) [0 ..< 14]" unfolding u by (simp add: stamp_def)
  then show ?thesis using k by simp
qed

lemma stamp_no_point:
  assumes "length k = 14" and "\<forall>c \<in> set k. isdigit_c c"
  shows "CHR ''.'' \<notin> set (stamp k)"
proof -
  have "CHR ''.'' \<noteq> k ! i" if "i < 14" for i
    using digit_no_point [of "k ! i"] nth_mem [of i k] assms that by fastforce
  then show ?thesis by (simp add: stamp_def)
qed

lemma digit_chars [simp]: "isdigit_c (CHR ''0'')" "isdigit_c (CHR ''1'')" "isdigit_c (CHR ''2'')" "isdigit_c (CHR ''9'')"
  by (simp_all add: isdigit_c_def code_def)

lemma copy_pairs_step:
  "2 \<le> n \<Longrightarrow> copy_pairs i n (a # b # v) buf =
     (if length buf + 3 \<le> 21 then copy_pairs (Suc i) (n - 2) v (buf @ [a, b, pair_end i]) else None)"
proof -
  assume "2 \<le> n"
  then obtain m where "n = Suc (Suc m)" by (metis add_2_eq_Suc le_Suc_ex)
  then show ?thesis by simp
qed

lemma complete_timestamp_stamp:
  assumes d: "\<forall>c \<in> set v. isdigit_c c" and l: "length v = n" and n: "n \<in> {6, 8, 12, 14}"
    and m: "take 2 (drop (if n = 6 \<or> n = 12 then 2 else 4) v) \<noteq> ''00''"
  shows "complete_timestamp v n = Some (Some (stamp (ts_key v)))"
proof -
  have f: "filter isdigit_c v = v" using d by (simp add: filter_id_conv)
  have key: "ts_key v = add_century v @ replicate (14 - length (add_century v)) (CHR ''0'')"
    by (simp add: ts_key_def f DATETIME_DIGITS_def Let_def)
  note defs = complete_timestamp_def pair_end_def add_century_def stamp_def Let_def copy_pairs_step
  have pad: "pad_pairs i b = (if length b = 20 then Some b else pad_pairs (Suc i) (b @ ''00'' @ [pair_end i]))"
    if "length b \<le> 18 \<or> length b = 20" for i b
    using that by (subst pad_pairs.simps) auto
  consider "n = 6" | "n = 8" | "n = 12" | "n = 14" using n by auto
  then show ?thesis
  proof cases
    case 1
    obtain c1 c2 c3 c4 c5 c6 where "v = [c1, c2, c3, c4, c5, c6]"
      using l 1 by (auto simp: length_Suc_conv eval_nat_numeral)
    then show ?thesis unfolding key using m 1 by (simp add: defs pad)
  next
    case 2
    obtain c1 c2 c3 c4 c5 c6 c7 c8 where "v = [c1, c2, c3, c4, c5, c6, c7, c8]"
      using l 2 by (auto simp: length_Suc_conv eval_nat_numeral)
    then show ?thesis unfolding key using m 2 by (simp add: defs pad)
  next
    case 3
    obtain c1 c2 c3 c4 c5 c6 c7 c8 c9 c10 c11 c12 where "v = [c1, c2, c3, c4, c5, c6, c7, c8, c9, c10, c11, c12]"
      using l 3 by (auto simp: length_Suc_conv eval_nat_numeral)
    then show ?thesis unfolding key using m 3 by (simp add: defs pad)
  next
    case 4
    obtain c1 c2 c3 c4 c5 c6 c7 c8 c9 c10 c11 c12 c13 c14 where
        "v = [c1, c2, c3, c4, c5, c6, c7, c8, c9, c10, c11, c12, c13, c14]"
      using l 4 by (auto simp: length_Suc_conv eval_nat_numeral)
    then show ?thesis unfolding key using m 4 by (simp add: defs pad)
  qed
qed

text \<open>C29: a timestamp in one of the old formats of six, eight, twelve or fourteen digits, with a month, is completed by
  \<open>complete_timestamp\<close>, and \<open>str_to_ts\<close> takes the result for what it takes the digits themselves for.\<close>

theorem complete_timestamp_meaning:
  assumes "\<forall>c \<in> set v. isdigit_c c" and "length v \<in> {6, 8, 12, 14}"
    and "take 2 (drop (if length v = 6 \<or> length v = 12 then 2 else 4) v) \<noteq> ''00''"
  shows "\<exists>b. complete_timestamp v (length v) = Some (Some b) \<and> str_to_ts b (- 1) z None = str_to_ts v (- 1) z None"
proof -
  have f: "filter isdigit_c v = v" using assms(1) by (simp add: filter_id_conv)
  let ?k = "ts_key v"
  have k: "?k = add_century v @ replicate (14 - length (add_century v)) (CHR ''0'')"
    by (simp add: ts_key_def f DATETIME_DIGITS_def Let_def)
  have a: "length (add_century v) \<le> 14" "\<forall>c \<in> set (add_century v). isdigit_c c"
    using assms(1,2) by (auto simp: add_century_def)
  then have l: "length ?k = 14" "\<forall>c \<in> set ?k. isdigit_c c" unfolding k by auto
  have s: "ts_key (stamp ?k) = ?k"
    using l filter_stamp [OF l] by (simp add: ts_key_def [of "stamp ?k"] add_century_def DATETIME_DIGITS_def)
  have "CHR ''.'' \<notin> set v" using assms(1) digit_no_point by blast
  then have "str_to_ts (stamp ?k) (- 1) z None = str_to_ts v (- 1) z None"
    by (intro str_to_ts_key stamp_no_point [OF l]) (use filter_stamp [OF l] l f s assms(2) in auto)
  then show ?thesis using complete_timestamp_stamp [OF assms(1) refl assms(2,3)] by blast
qed

theorem complete_timestamp_meaning_witness:
  "\<exists>b. complete_timestamp ''700229123456'' (length ''700229123456'') = Some (Some b) \<and>
    str_to_ts b (- 1) True None = str_to_ts ''700229123456'' (- 1) True None"
  by (rule complete_timestamp_meaning) (simp_all add: isdigit_c_def code_def)

text \<open>A text of sixteen to eighteen bytes, such as a timestamp without its seconds, leaves the buffer of 21 bytes.\<close>

lemma complete_timestamp_overflow:
  "complete_timestamp ''2024-01-02 10:11'' 16 = None"
  by (simp add: complete_timestamp_def copy_pairs_step pair_end_def pad_pairs.simps Let_def)

section \<open>Times\<close>

lemma normal_time_eq:
  "normal_time h m s =
     (if m + s div 60 \<le> INT_MAX \<and> h + (m + s div 60) div 60 \<le> INT_MAX
      then Some \<lparr>tm_hour = min 65535 (h + (m + s div 60) div 60), tm_minute = (m + s div 60) mod 60, tm_second = s mod 60\<rparr>
      else None)"
proof -
  have q: "(if n > 59 then n div 60 else 0) = n div 60" "(if n > 59 then n mod 60 else n) = n mod 60" for n :: nat
    by simp_all
  show ?thesis unfolding normal_time_def q int_add_def by (auto simp: min_def)
qed

lemma time_tokens_Nil: "time_tokens n num [] cur = [cur]"
  by (cases n) simp_all

lemma time_tokens_step:
  "0 < n \<Longrightarrow> time_tokens n num (c # cs) cur =
     (if isdigit_c c then time_tokens (n - 1) num cs (cur @ [c])
      else if num < 2 then cur # time_tokens (n - 1) (Suc num) cs [] else [cur])"
  by (cases n) simp_all

text \<open>The time of a string is normalised: minutes and seconds are below 60, and hours, minutes and seconds make the same
  time as the numbers in the string, unless the hours reach 65535, where they are cut off.\<close>

theorem time_normalised:
  assumes "str_to_time_st s = Some t"
  shows "\<exists>h m sec. token (time_tokens 23 0 s []) 0 = Some h \<and> token (time_tokens 23 0 s []) 1 = Some m \<and>
    token (time_tokens 23 0 s []) 2 = Some sec \<and> tm_minute t < 60 \<and> tm_second t < 60 \<and> tm_hour t \<le> 65535 \<and>
    (tm_hour t = 65535 \<or> (tm_hour t * 60 + tm_minute t) * 60 + tm_second t = (h * 60 + m) * 60 + sec)"
proof -
  obtain h m sec where tk: "token (time_tokens 23 0 s []) 0 = Some h" "token (time_tokens 23 0 s []) 1 = Some m"
      "token (time_tokens 23 0 s []) 2 = Some sec" and n: "normal_time h m sec = Some t"
    using assms by (auto simp: str_to_time_st_def Let_def split: option.splits)
  have t: "t = \<lparr>tm_hour = min 65535 (h + (m + sec div 60) div 60), tm_minute = (m + sec div 60) mod 60, tm_second = sec mod 60\<rparr>"
    using n by (simp add: normal_time_eq split: if_splits)
  define H M S where "H = h + (m + sec div 60) div 60" and "M = (m + sec div 60) mod 60" and "S = sec mod 60"
  have "H * 60 + M = h * 60 + (m + sec div 60)"
    using div_mult_mod_eq [of "m + sec div 60" 60] by (simp only: H_def M_def add_mult_distrib add.assoc)
  then have e: "(H * 60 + M) * 60 + S = (h * 60 + m) * 60 + sec"
    using div_mult_mod_eq [of sec 60] by (simp only: S_def add_mult_distrib)
  have t': "t = \<lparr>tm_hour = min 65535 H, tm_minute = M, tm_second = S\<rparr>" using t by (simp only: H_def M_def S_def)
  have b: "M < 60" "S < 60" by (simp_all add: M_def S_def)
  have "tm_hour t = 65535 \<or> (tm_hour t * 60 + tm_minute t) * 60 + tm_second t = (h * 60 + m) * 60 + sec"
  proof (cases "65535 \<le> H")
    case True
    then show ?thesis unfolding t' by simp
  next
    case False
    then have "min 65535 H = H" by simp
    then show ?thesis unfolding t' using e by simp
  qed
  with tk show ?thesis using b unfolding t' by simp
qed

theorem time_normalised_witness:
  "\<exists>h m sec. token (time_tokens 23 0 ''1:59:75'' []) 0 = Some h \<and> token (time_tokens 23 0 ''1:59:75'' []) 1 = Some m \<and>
    token (time_tokens 23 0 ''1:59:75'' []) 2 = Some sec \<and>
    tm_minute \<lparr>tm_hour = 2, tm_minute = 0, tm_second = 15\<rparr> < 60 \<and> tm_second \<lparr>tm_hour = 2, tm_minute = 0, tm_second = 15\<rparr> < 60 \<and>
    tm_hour \<lparr>tm_hour = 2, tm_minute = 0, tm_second = 15\<rparr> \<le> 65535 \<and>
    (tm_hour \<lparr>tm_hour = 2, tm_minute = 0, tm_second = 15\<rparr> = 65535 \<or>
     (tm_hour \<lparr>tm_hour = 2, tm_minute = 0, tm_second = 15\<rparr> * 60 + tm_minute \<lparr>tm_hour = 2, tm_minute = 0, tm_second = 15\<rparr>) * 60 +
       tm_second \<lparr>tm_hour = 2, tm_minute = 0, tm_second = 15\<rparr> = (h * 60 + m) * 60 + sec)"
  by (rule time_normalised) (simp add: str_to_time_st_def time_tokens_step time_tokens_Nil token_def atoi_def INT_MAX_def normal_time_eq
      isdigit_c_def code_def)

text \<open>A time that is written is read back, by either function.\<close>

theorem time_roundtrip:
  assumes "tm_hour t \<le> 23" and "tm_minute t < 60" and "tm_second t < 60"
  shows "\<exists>s. time_str t = Some s \<and> str_to_time_st s = Some t \<and>
    str_to_time_as_long s = Some (tm_hour t * 10000 + (tm_minute t * 100 + tm_second t))"
proof -
  let ?d = "\<lambda>n. [dec_char (n div 10), dec_char n]"
  have two: "digits_value 0 (?d n) = n" if "n < 100" for n
    using digits_value_fixed [of 0 2 n] that by (simp only: fixed_2 power2_eq_square) simp
  have two': "digits_value (n div 10 mod 10) [dec_char n] = n" if "n < 100" for n
    using two [OF that] by simp
  let ?s = "?d (tm_hour t) @ '':'' @ ?d (tm_minute t) @ '':'' @ ?d (tm_second t)"
  have s: "time_str t = Some ?s" using assms by (simp add: time_str_def time_fields_def padded_2)
  have lt: "tm_hour t < 100" "tm_minute t < 100" "tm_second t < 100" using assms by simp_all
  have tk: "time_tokens 23 0 ?s [] = [?d (tm_hour t), ?d (tm_minute t), ?d (tm_second t)]"
    by (simp add: time_tokens_step time_tokens_Nil)
  have "str_to_time_st ?s = normal_time (tm_hour t) (tm_minute t) (tm_second t)"
    unfolding str_to_time_st_def Let_def tk
    using two [OF lt(1)] two [OF lt(2)] two [OF lt(3)] lt by (simp add: token_def atoi_def INT_MAX_def del: digits_value.simps)
  also have "\<dots> = Some t"
    using assms by (cases t) (simp add: normal_time_eq INT_MAX_def)
  finally have 1: "str_to_time_st ?s = Some t" .
  have nd: "not_digit (dec_char n) \<longleftrightarrow> False" "not_digit (CHR '':'') \<longleftrightarrow> True" for n
    by (simp_all add: not_digit_def)
  have v: "(code (dec_char n) - 48) mod 256 = n mod 10" for n
    using mod_less_divisor [of 10 n] by simp
  have num: "digits_value (n div 10) (dec_char n # CHR '':'' # s) mod 4294967296 = n"
       "digits_value (n div 10) [dec_char n] mod 4294967296 = n" if "n < 100" for n s
    using two' [OF that] that by (simp_all add: less_mult_imp_div_less)
  have 2: "str_to_time_as_long ?s = Some (tm_hour t * 10000 + (tm_minute t * 100 + tm_second t))"
    using lt by (subst str_to_time_as_long.simps) (simp add: nd v num numeral_3_eq_3 del: digits_value.simps)
  show ?thesis using s 1 2 by blast
qed

end
