(* ===== verification/ColType.thy ===== *)
theory ColType
  imports Desc GetData DateTime
begin

unbundle bit_operations_syntax

text \<open>
  What the driver says of a column of a result (\<^verbatim>\<open>driver/utility.cc\<close>): its SQL type and the name of
  that type, the C type it is read as by default, its size, its decimal digits, its length in bytes and the
  width of its text, and the conversions that are allowed (\<^verbatim>\<open>driver/results.cc\<close>).

  A column is the part of a \<open>MYSQL_FIELD\<close> that these functions look at, a connection the options they depend
  on. \<open>long\<close> and \<open>SQLLEN\<close> have 64 bits.
\<close>

section \<open>Fields and connections\<close>

datatype mysql_type =
    T_DECIMAL | T_TINY | T_SHORT | T_LONG | T_FLOAT | T_DOUBLE | T_NULL | T_TIMESTAMP | T_LONGLONG
  | T_INT24 | T_DATE | T_TIME | T_DATETIME | T_YEAR | T_NEWDATE | T_VARCHAR | T_BIT | T_TIMESTAMP2
  | T_DATETIME2 | T_TIME2 | T_TYPED_ARRAY | T_VECTOR | T_INVALID | T_BOOL | T_JSON | T_NEWDECIMAL | T_ENUM
  | T_SET | T_TINY_BLOB | T_MEDIUM_BLOB | T_LONG_BLOB | T_BLOB | T_VAR_STRING | T_STRING | T_GEOMETRY

record field =
  f_type :: mysql_type
  f_flags :: u32
  f_length :: nat
  f_max_length :: nat
  f_decimals :: nat
  f_charsetnr :: nat
  f_org_table_length :: nat

record conn =
  c_no_binary_result :: bool
  c_no_bigint :: bool
  c_column_size_s32 :: bool
  c_pad_space :: bool
  c_zero_date_to_min :: bool
  c_unicode :: bool
  c_odbc_ver :: nat
  c_server_version :: "string option"

definition unsigned_flag :: "field \<Rightarrow> bool" where "unsigned_flag f \<longleftrightarrow> f_flags f AND 32 \<noteq> 0"
definition enum_flag :: "field \<Rightarrow> bool" where "enum_flag f \<longleftrightarrow> f_flags f AND 256 \<noteq> 0"
definition set_flag :: "field \<Rightarrow> bool" where "set_flag f \<longleftrightarrow> f_flags f AND 2048 \<noteq> 0"
definition num_flag :: "field \<Rightarrow> bool" where "num_flag f \<longleftrightarrow> f_flags f AND 32768 \<noteq> 0"

definition is_longdata :: "mysql_type \<Rightarrow> bool" where
  "is_longdata t \<longleftrightarrow> t \<in> {T_TINY_BLOB, T_MEDIUM_BLOB, T_LONG_BLOB, T_BLOB, T_VAR_STRING, T_STRING}"

definition SQL_OV_ODBC3 :: nat where "SQL_OV_ODBC3 = 3"
definition BINARY_CHARSET_NUMBER :: nat where "BINARY_CHARSET_NUMBER = 63"
definition INT_MAX32 :: nat where "INT_MAX32 = 0x7FFFFFFF"
definition UINT_MAX32 :: nat where "UINT_MAX32 = 0xFFFFFFFF"
definition SQL_NO_TOTAL :: int where "SQL_NO_TOTAL = -4"

text \<open>The column \<open>maxlen\<close> of \<open>charset_collation_info\<close>, as runs of equal entries.\<close>

definition charset_maxlen :: "nat list" where
  "charset_maxlen = concat (map (\<lambda>(m, n). replicate n m)
     [(0, 1), (2, 1), (1, 10), (3, 1), (2, 1), (1, 3), (0, 1), (1, 1), (2, 1), (1, 4), (2, 1), (1,
     3), (2, 1), (1, 4), (3, 1), (1, 1), (2, 1), (1, 9), (4, 2), (1, 7), (4, 3), (1, 3), (4, 3), (1,
     13), (3, 1), (1, 6), (3, 1), (2, 5), (1, 1), (2, 1), (3, 1), (1, 3), (2, 2), (3, 2), (1, 1),
     (0, 1), (4, 24), (0, 3), (2, 24), (0, 7), (2, 1), (4, 24), (0, 8), (3, 24), (0, 7), (3, 1), (4,
     27), (0, 4), (4, 17), (0, 1), (4, 3), (0, 1), (4, 18), (0, 1), (4, 3), (0, 1), (4, 1), (0, 2),
     (4, 21)])"

definition get_charset_maxlen :: "nat \<Rightarrow> nat" where
  "get_charset_maxlen num = (if num < 324 then charset_maxlen ! num else 0)"

section \<open>Codes of types\<close>

text \<open>The constants of ODBC, for SQL types and for C types.\<close>

abbreviation (input) SQL_UNKNOWN_TYPE :: int where "SQL_UNKNOWN_TYPE \<equiv> 0"
abbreviation (input) SQL_CHAR :: int where "SQL_CHAR \<equiv> 1"
abbreviation (input) SQL_DECIMAL :: int where "SQL_DECIMAL \<equiv> 3"
abbreviation (input) SQL_INTEGER :: int where "SQL_INTEGER \<equiv> 4"
abbreviation (input) SQL_SMALLINT :: int where "SQL_SMALLINT \<equiv> 5"
abbreviation (input) SQL_REAL :: int where "SQL_REAL \<equiv> 7"
abbreviation (input) SQL_DOUBLE :: int where "SQL_DOUBLE \<equiv> 8"
abbreviation (input) SQL_DATE :: int where "SQL_DATE \<equiv> 9"
abbreviation (input) SQL_TIME :: int where "SQL_TIME \<equiv> 10"
abbreviation (input) SQL_TIMESTAMP :: int where "SQL_TIMESTAMP \<equiv> 11"
abbreviation (input) SQL_T_VARCHAR :: int where "SQL_T_VARCHAR \<equiv> 12"
abbreviation (input) SQL_TYPE_DATE :: int where "SQL_TYPE_DATE \<equiv> 91"
abbreviation (input) SQL_TYPE_TIME :: int where "SQL_TYPE_TIME \<equiv> 92"
abbreviation (input) SQL_TYPE_TIMESTAMP :: int where "SQL_TYPE_TIMESTAMP \<equiv> 93"
abbreviation (input) SQL_LONGVARCHAR :: int where "SQL_LONGVARCHAR \<equiv> -1"
abbreviation (input) SQL_BINARY :: int where "SQL_BINARY \<equiv> -2"
abbreviation (input) SQL_VARBINARY :: int where "SQL_VARBINARY \<equiv> -3"
abbreviation (input) SQL_LONGVARBINARY :: int where "SQL_LONGVARBINARY \<equiv> -4"
abbreviation (input) SQL_BIGINT :: int where "SQL_BIGINT \<equiv> -5"
abbreviation (input) SQL_TINYINT :: int where "SQL_TINYINT \<equiv> -6"
abbreviation (input) SQL_BIT :: int where "SQL_BIT \<equiv> -7"
abbreviation (input) SQL_WCHAR :: int where "SQL_WCHAR \<equiv> -8"
abbreviation (input) SQL_WVARCHAR :: int where "SQL_WVARCHAR \<equiv> -9"
abbreviation (input) SQL_WLONGVARCHAR :: int where "SQL_WLONGVARCHAR \<equiv> -10"

datatype ctype =
    C_CHAR | C_WCHAR | C_BINARY | C_BIT | C_TINYINT | C_STINYINT | C_UTINYINT | C_SHORT | C_SSHORT | C_USHORT
  | C_LONG | C_SLONG | C_ULONG | C_SBIGINT | C_UBIGINT | C_FLOAT | C_DOUBLE | C_NUMERIC | C_DATE | C_TYPE_DATE
  | C_TIME | C_TYPE_TIME | C_TIMESTAMP | C_TYPE_TIMESTAMP | C_HOUR_TO_SECOND | C_HOUR_TO_MINUTE
  | C_DEFAULT | C_ARD_TYPE | C_OTHER

section \<open>SQL types\<close>

definition field_is_binary :: "conn \<Rightarrow> field \<Rightarrow> bool" where
  "field_is_binary c f \<longleftrightarrow>
     f_charsetnr f = BINARY_CHARSET_NUMBER \<and> (f_org_table_length f > 0 \<or> \<not> c_no_binary_result c)"

definition is_matrixone :: "conn \<Rightarrow> bool" where
  "is_matrixone c \<longleftrightarrow>
     (case c_server_version c of None \<Rightarrow> False | Some v \<Rightarrow> find_sub ''MatrixOne'' v \<noteq> None)"

definition blob_name :: "bool \<Rightarrow> nat \<Rightarrow> string" where
  "blob_name bin len =
     (if len = 255 then if bin then ''tinyblob'' else ''tinytext''
      else if len = 16777215 then if bin then ''mediumblob'' else ''mediumtext''
      else if len = 4294967295 then if bin then ''longblob'' else ''longtext''
      else if bin then ''blob'' else ''text'')"

text \<open>The type and its name, which is written when the caller has a buffer for it.\<close>

definition get_sql_data_type :: "conn \<Rightarrow> field \<Rightarrow> int \<times> string" where
  "get_sql_data_type c f =
     (let bin = field_is_binary c f;
          uns = (if unsigned_flag f then '' unsigned'' else []);
          multi = (c_unicode c \<and> get_charset_maxlen (f_charsetnr f) > 1);
          v3 = (c_odbc_ver c = SQL_OV_ODBC3);
          long = (if bin then SQL_LONGVARBINARY else if multi then SQL_WLONGVARCHAR else SQL_LONGVARCHAR)
      in case f_type f of
           T_BIT \<Rightarrow> (if f_length f > 1 then SQL_BINARY else SQL_BIT, ''bit'')
         | T_DECIMAL \<Rightarrow> (SQL_DECIMAL, ''decimal'')
         | T_NEWDECIMAL \<Rightarrow> (SQL_DECIMAL, ''decimal'')
         | T_TINY \<Rightarrow>
             if num_flag f \<and> f_length f = 1 \<and> is_matrixone c then (SQL_BIT, ''bit'')
             else (if num_flag f then SQL_TINYINT else SQL_CHAR,
                   (if num_flag f then ''tinyint'' else ''char'') @ uns)
         | T_SHORT \<Rightarrow> (SQL_SMALLINT, ''smallint'' @ uns)
         | T_INT24 \<Rightarrow> (SQL_INTEGER, ''mediumint'' @ uns)
         | T_LONG \<Rightarrow> (SQL_INTEGER, ''integer'' @ uns)
         | T_LONGLONG \<Rightarrow>
             (if c_no_bigint c then SQL_INTEGER else SQL_BIGINT,
              (if c_no_bigint c then ''int'' else ''bigint'') @ uns)
         | T_FLOAT \<Rightarrow> (SQL_REAL, ''float'' @ uns)
         | T_DOUBLE \<Rightarrow> (SQL_DOUBLE, ''double'' @ uns)
         | T_NULL \<Rightarrow> (SQL_T_VARCHAR, ''null'')
         | T_YEAR \<Rightarrow> (SQL_SMALLINT, ''year'')
         | T_TIMESTAMP \<Rightarrow> (if v3 then SQL_TYPE_TIMESTAMP else SQL_TIMESTAMP, ''timestamp'')
         | T_DATETIME \<Rightarrow> (if v3 then SQL_TYPE_TIMESTAMP else SQL_TIMESTAMP, ''datetime'')
         | T_NEWDATE \<Rightarrow> (if v3 then SQL_TYPE_DATE else SQL_DATE, ''date'')
         | T_DATE \<Rightarrow> (if v3 then SQL_TYPE_DATE else SQL_DATE, ''date'')
         | T_TIME \<Rightarrow> (if v3 then SQL_TYPE_TIME else SQL_TIME, ''time'')
         | T_STRING \<Rightarrow>
             (if bin then SQL_BINARY else if c_unicode c then SQL_WCHAR else SQL_CHAR,
              if bin then ''binary'' else ''char'')
         | T_VARCHAR \<Rightarrow>
             (if bin then SQL_VARBINARY else if multi then SQL_WVARCHAR else SQL_T_VARCHAR,
              if bin then ''varbinary'' else ''varchar'')
         | T_VAR_STRING \<Rightarrow>
             (if bin then SQL_VARBINARY else if multi then SQL_WVARCHAR else SQL_T_VARCHAR,
              if bin then ''varbinary'' else ''varchar'')
         | T_TINY_BLOB \<Rightarrow> (long, if bin then ''tinyblob'' else ''tinytext'')
         | T_BLOB \<Rightarrow> (long, blob_name bin (f_length f))
         | T_MEDIUM_BLOB \<Rightarrow> (long, if bin then ''mediumblob'' else ''mediumtext'')
         | T_LONG_BLOB \<Rightarrow> (long, if bin then ''longblob'' else ''longtext'')
         | T_ENUM \<Rightarrow> (SQL_CHAR, ''enum'')
         | T_SET \<Rightarrow> (SQL_CHAR, ''set'')
         | T_GEOMETRY \<Rightarrow> (SQL_LONGVARBINARY, ''geometry'')
         | T_JSON \<Rightarrow> (if c_unicode c then SQL_WLONGVARCHAR else SQL_LONGVARCHAR, ''json'')
         | T_VECTOR \<Rightarrow> (SQL_VARBINARY, ''vector'')
         | _ \<Rightarrow> (SQL_UNKNOWN_TYPE, []))"

definition sql_data_types_map :: "(string \<times> int) list" where
  "sql_data_types_map =
     [(''bit'', SQL_BIT), (''bool'', SQL_BIT), (''decimal'', SQL_DECIMAL), (''char'', SQL_CHAR),
      (''tinyint'', SQL_TINYINT), (''smallint'', SQL_SMALLINT), (''mediumint'', SQL_INTEGER),
      (''int'', SQL_INTEGER), (''bigint'', SQL_BIGINT), (''float'', SQL_REAL), (''double'', SQL_DOUBLE),
      (''year'', SQL_SMALLINT), (''timestamp'', SQL_TIMESTAMP), (''datetime'', SQL_TIMESTAMP),
      (''date'', SQL_TYPE_DATE), (''time'', SQL_TIME), (''binary'', SQL_BINARY),
      (''varbinary'', SQL_VARBINARY), (''vector'', SQL_VARBINARY), (''varchar'', SQL_T_VARCHAR),
      (''tinyblob'', SQL_LONGVARBINARY), (''tinytext'', SQL_LONGVARCHAR),
      (''mediumblob'', SQL_LONGVARBINARY), (''mediumtext'', SQL_LONGVARCHAR), (''blob'', SQL_LONGVARBINARY),
      (''text'', SQL_LONGVARCHAR), (''longblob'', SQL_LONGVARBINARY), (''longtext'', SQL_LONGVARCHAR),
      (''enum'', SQL_CHAR), (''set'', SQL_CHAR), (''geometry'', SQL_LONGVARBINARY),
      (''JSON'', SQL_LONGVARCHAR), (''json'', SQL_LONGVARCHAR)]"

definition get_sql_data_type_from_str :: "string option \<Rightarrow> int" where
  "get_sql_data_type_from_str name =
     (case name of
        None \<Rightarrow> SQL_UNKNOWN_TYPE
      | Some s \<Rightarrow> (case map_of sql_data_types_map (map tolower_c s) of None \<Rightarrow> SQL_UNKNOWN_TYPE | Some t \<Rightarrow> t))"

text \<open>\<open>octet_length\<close> is a \<open>char\<close>, which is compared as a signed number.\<close>

definition signed_char :: "char \<Rightarrow> int" where
  "signed_char c = (if code c < 128 then int (code c) else int (code c) - 256)"

definition compute_sql_data_type :: "conn \<Rightarrow> int \<Rightarrow> char \<Rightarrow> nat \<Rightarrow> int" where
  "compute_sql_data_type c sql_type octet_length col_size =
     (let wide = (signed_char octet_length > signed_char (CHR ''1'') \<and> c_unicode c) in
      if sql_type = SQL_TIMESTAMP then if c_odbc_ver c = SQL_OV_ODBC3 then SQL_TYPE_TIMESTAMP else sql_type
      else if sql_type = SQL_TYPE_DATE then if c_odbc_ver c < SQL_OV_ODBC3 then SQL_DATE else sql_type
      else if sql_type = SQL_TIME then if c_odbc_ver c = SQL_OV_ODBC3 then SQL_TYPE_TIME else sql_type
      else if sql_type = SQL_CHAR then if wide then SQL_WCHAR else sql_type
      else if sql_type = SQL_T_VARCHAR then if wide then SQL_WVARCHAR else sql_type
      else if sql_type = SQL_LONGVARCHAR then if wide then SQL_WLONGVARCHAR else sql_type
      else if sql_type = SQL_BIT then if col_size > 1 then SQL_BINARY else sql_type
      else sql_type)"

section \<open>Sizes\<close>

text \<open>\<open>strtoll\<close> in base 10: white space, a sign, digits; the value is the nearest one of its type.\<close>

definition sign_digits :: "string \<Rightarrow> bool \<times> nat" where
  "sign_digits s =
     (let cs = dropWhile isspace_c s in
      if cget cs 0 = CHR ''-'' then (True, digits_value 0 (tl cs))
      else if cget cs 0 = CHR ''+'' then (False, digits_value 0 (tl cs))
      else (False, digits_value 0 cs))"

definition strtoll10 :: "string \<Rightarrow> int" where
  "strtoll10 s =
     (let (neg, n) = sign_digits s in
      if neg then max (- int n) (- (2 ^ 63)) else min (int n) (2 ^ 63 - 1))"

definition cap_length :: "conn \<Rightarrow> nat \<Rightarrow> int" where
  "cap_length c real_length =
     (if c_column_size_s32 c \<and> real_length > INT_MAX32 then int INT_MAX32 else slong real_length)"

definition get_column_size_from_str :: "conn \<Rightarrow> string option \<Rightarrow> nat" where
  "get_column_size_from_str c size_str =
     ulong (cap_length c (case size_str of None \<Rightarrow> 0 | Some s \<Rightarrow> ulong (strtoll10 s)))"

definition get_column_size :: "conn \<Rightarrow> field \<Rightarrow> nat" where
  "get_column_size c f =
     (let len = ulong (cap_length c (if f_max_length f > f_length f then f_max_length f else f_length f));
          chars = (if len \<ge> INT_MAX32 then len
                   else let m = get_charset_maxlen (f_charsetnr f) in if m \<noteq> 0 then len div m else len)
      in case f_type f of
           T_TINY \<Rightarrow> if num_flag f then 3 else 1
         | T_SHORT \<Rightarrow> 5
         | T_LONG \<Rightarrow> 10
         | T_FLOAT \<Rightarrow> 7
         | T_DOUBLE \<Rightarrow> 15
         | T_NULL \<Rightarrow> 0
         | T_LONGLONG \<Rightarrow> if c_no_bigint c then 10 else if unsigned_flag f then 20 else 19
         | T_INT24 \<Rightarrow> 8
         | T_DATE \<Rightarrow> 10
         | T_TIME \<Rightarrow> 8
         | T_TIMESTAMP \<Rightarrow> 19
         | T_DATETIME \<Rightarrow> 19
         | T_NEWDATE \<Rightarrow> 19
         | T_YEAR \<Rightarrow> 4
         | T_DECIMAL \<Rightarrow> sub64 (sub64 len (if unsigned_flag f then 0 else 1)) (if f_decimals f \<noteq> 0 then 1 else 0)
         | T_NEWDECIMAL \<Rightarrow> sub64 (sub64 len (if unsigned_flag f then 0 else 1)) (if f_decimals f \<noteq> 0 then 1 else 0)
         | T_BIT \<Rightarrow> if len = 1 then 1 else add64 len 7 div 8
         | T_ENUM \<Rightarrow> chars
         | T_SET \<Rightarrow> chars
         | T_VARCHAR \<Rightarrow> chars
         | T_VAR_STRING \<Rightarrow> chars
         | T_STRING \<Rightarrow> chars
         | T_TINY_BLOB \<Rightarrow> chars
         | T_MEDIUM_BLOB \<Rightarrow> chars
         | T_LONG_BLOB \<Rightarrow> chars
         | T_BLOB \<Rightarrow> chars
         | T_GEOMETRY \<Rightarrow> chars
         | T_JSON \<Rightarrow> UINT_MAX32 div 4
         | T_VECTOR \<Rightarrow> len div 4
         | _ \<Rightarrow> ulong SQL_NO_TOTAL)"

definition sqlsmallint :: "nat \<Rightarrow> int" where
  "sqlsmallint n = (int n + 2 ^ 15) mod 2 ^ 16 - 2 ^ 15"

definition get_decimal_digits :: "field \<Rightarrow> int" where
  "get_decimal_digits f =
     (case f_type f of
        T_DECIMAL \<Rightarrow> sqlsmallint (f_decimals f)
      | T_NEWDECIMAL \<Rightarrow> sqlsmallint (f_decimals f)
      | T_TINY \<Rightarrow> 0 | T_SHORT \<Rightarrow> 0 | T_LONG \<Rightarrow> 0 | T_LONGLONG \<Rightarrow> 0 | T_INT24 \<Rightarrow> 0 | T_YEAR \<Rightarrow> 0
      | T_TIME \<Rightarrow> 0 | T_TIMESTAMP \<Rightarrow> 0 | T_DATETIME \<Rightarrow> 0
      | T_BIT \<Rightarrow> if f_length f = 1 then 0 else SQL_NO_TOTAL
      | _ \<Rightarrow> SQL_NO_TOTAL)"

text \<open>The sizes of the structures are 6, 6 and 16 bytes.\<close>

definition get_transfer_octet_length :: "conn \<Rightarrow> field \<Rightarrow> int" where
  "get_transfer_octet_length c f =
     (let len = (if f_length f > INT_MAX32 then int INT_MAX32 else int (f_length f));
          capped = (if c_column_size_s32 c \<and> len > int INT_MAX32 then int INT_MAX32 else len)
      in case f_type f of
           T_TINY \<Rightarrow> 1
         | T_SHORT \<Rightarrow> 2
         | T_INT24 \<Rightarrow> 3
         | T_LONG \<Rightarrow> 4
         | T_FLOAT \<Rightarrow> 4
         | T_DOUBLE \<Rightarrow> 8
         | T_NULL \<Rightarrow> 1
         | T_LONGLONG \<Rightarrow> 20
         | T_DATE \<Rightarrow> 6
         | T_TIME \<Rightarrow> 6
         | T_TIMESTAMP \<Rightarrow> 16
         | T_DATETIME \<Rightarrow> 16
         | T_NEWDATE \<Rightarrow> 16
         | T_YEAR \<Rightarrow> 1
         | T_DECIMAL \<Rightarrow> slong (f_length f)
         | T_NEWDECIMAL \<Rightarrow> slong (f_length f)
         | T_BIT \<Rightarrow> slong (add64 (f_length f) 7 div 8)
         | T_STRING \<Rightarrow>
             if c_pad_space c then
               let m = get_charset_maxlen (f_charsetnr f) in
               if m = 0 then SQL_NO_TOTAL
               else slong ((if f_max_length f > f_length f then f_max_length f else f_length f) div m)
             else capped
         | T_ENUM \<Rightarrow> capped
         | T_SET \<Rightarrow> capped
         | T_VARCHAR \<Rightarrow> capped
         | T_VAR_STRING \<Rightarrow> capped
         | T_TINY_BLOB \<Rightarrow> capped
         | T_MEDIUM_BLOB \<Rightarrow> capped
         | T_LONG_BLOB \<Rightarrow> capped
         | T_BLOB \<Rightarrow> capped
         | T_GEOMETRY \<Rightarrow> capped
         | T_JSON \<Rightarrow> capped
         | T_VECTOR \<Rightarrow> len
         | _ \<Rightarrow> SQL_NO_TOTAL)"

definition chars_displayed :: "conn \<Rightarrow> field \<Rightarrow> nat \<Rightarrow> int" where
  "chars_displayed c f mbmaxlen =
     (let len = (if f_charsetnr f = BINARY_CHARSET_NUMBER then f_length f * 2 mod 2 ^ 64 else f_length f div mbmaxlen)
      in slong (if c_column_size_s32 c \<and> len > INT_MAX32 then INT_MAX32 else len))"

definition get_display_size :: "conn \<Rightarrow> field \<Rightarrow> int" where
  "get_display_size c f =
     (let m = get_charset_maxlen (f_charsetnr f);
          mbmaxlen = (if m = 0 then 1 else m);
          uns = (if unsigned_flag f then 1 else 0)
      in case f_type f of
           T_TINY \<Rightarrow> 3 + uns
         | T_SHORT \<Rightarrow> 5 + uns
         | T_INT24 \<Rightarrow> 8 + uns
         | T_LONG \<Rightarrow> 10 + uns
         | T_FLOAT \<Rightarrow> 14
         | T_DOUBLE \<Rightarrow> 24
         | T_NULL \<Rightarrow> 1
         | T_LONGLONG \<Rightarrow> 20
         | T_DATE \<Rightarrow> 10
         | T_TIME \<Rightarrow> 8
         | T_TIMESTAMP \<Rightarrow> 19
         | T_DATETIME \<Rightarrow> 19
         | T_NEWDATE \<Rightarrow> 19
         | T_YEAR \<Rightarrow> 4
         | T_DECIMAL \<Rightarrow> slong (f_length f)
         | T_NEWDECIMAL \<Rightarrow> slong (f_length f)
         | T_BIT \<Rightarrow> if f_length f = 1 then 1 else slong (add64 (f_length f) 7 div 8 * 2)
         | T_TINY_BLOB \<Rightarrow> chars_displayed c f 1
         | T_MEDIUM_BLOB \<Rightarrow> chars_displayed c f 1
         | T_LONG_BLOB \<Rightarrow> chars_displayed c f 1
         | T_BLOB \<Rightarrow> chars_displayed c f 1
         | T_ENUM \<Rightarrow> chars_displayed c f mbmaxlen
         | T_SET \<Rightarrow> chars_displayed c f mbmaxlen
         | T_VARCHAR \<Rightarrow> chars_displayed c f mbmaxlen
         | T_VAR_STRING \<Rightarrow> chars_displayed c f mbmaxlen
         | T_STRING \<Rightarrow> chars_displayed c f mbmaxlen
         | T_GEOMETRY \<Rightarrow> chars_displayed c f mbmaxlen
         | T_JSON \<Rightarrow> int (UINT_MAX32 div 4)
         | T_VECTOR \<Rightarrow> slong ((15 * (f_length f div 4) + 1) mod 2 ^ 64)
         | _ \<Rightarrow> SQL_NO_TOTAL)"

text \<open>The texts of the sizes, cut off at 19 characters by the size of the buffer.\<close>

definition int_text :: "int \<Rightarrow> string" where
  "int_text i = (if i < 0 then CHR ''-'' # dec (nat (- i)) else dec (nat i))"

definition fill_display_size_buff :: "conn \<Rightarrow> field \<Rightarrow> string \<times> int" where
  "fill_display_size_buff c f = (let size = get_display_size c f in (take 19 (int_text size), size))"

definition fill_transfer_oct_len_buff :: "conn \<Rightarrow> field \<Rightarrow> string \<times> int" where
  "fill_transfer_oct_len_buff c f = (let len = get_transfer_octet_length c f in (take 19 (int_text len), len))"

definition fill_column_size_buff :: "conn \<Rightarrow> field \<Rightarrow> string \<times> nat" where
  "fill_column_size_buff c f = (let size = get_column_size c f in (take 19 (dec size), size))"

section \<open>C types\<close>

definition unireg_to_c_datatype :: "field \<Rightarrow> ctype" where
  "unireg_to_c_datatype f =
     (case f_type f of
        T_BIT \<Rightarrow> if f_length f > 1 then C_BINARY else C_BIT
      | T_TINY \<Rightarrow> C_TINYINT
      | T_YEAR \<Rightarrow> C_SHORT
      | T_SHORT \<Rightarrow> C_SHORT
      | T_INT24 \<Rightarrow> C_LONG
      | T_LONG \<Rightarrow> C_LONG
      | T_FLOAT \<Rightarrow> C_FLOAT
      | T_DOUBLE \<Rightarrow> C_DOUBLE
      | T_TIMESTAMP \<Rightarrow> C_TIMESTAMP
      | T_DATETIME \<Rightarrow> C_TIMESTAMP
      | T_NEWDATE \<Rightarrow> C_DATE
      | T_DATE \<Rightarrow> C_DATE
      | T_TIME \<Rightarrow> C_TIME
      | T_BLOB \<Rightarrow> C_BINARY
      | T_TINY_BLOB \<Rightarrow> C_BINARY
      | T_MEDIUM_BLOB \<Rightarrow> C_BINARY
      | T_LONG_BLOB \<Rightarrow> C_BINARY
      | T_JSON \<Rightarrow> C_BINARY
      | T_VECTOR \<Rightarrow> C_BINARY
      | _ \<Rightarrow> C_CHAR)"

definition bind_length :: "ctype \<Rightarrow> nat \<Rightarrow> nat" where
  "bind_length t len =
     (if t \<in> {C_BIT, C_TINYINT, C_STINYINT, C_UTINYINT} then 1
      else if t \<in> {C_SHORT, C_SSHORT, C_USHORT} then 2
      else if t \<in> {C_LONG, C_SLONG, C_ULONG} then 4
      else if t = C_FLOAT then 4
      else if t = C_DOUBLE then 8
      else if t \<in> {C_DATE, C_TYPE_DATE} then 6
      else if t \<in> {C_TIME, C_TYPE_TIME} then 6
      else if t \<in> {C_TIMESTAMP, C_TYPE_TIMESTAMP} then 16
      else if t \<in> {C_SBIGINT, C_UBIGINT} then 8
      else if t = C_NUMERIC then 19
      else len)"

definition is_binary_ctype :: "ctype \<Rightarrow> bool" where
  "is_binary_ctype t \<longleftrightarrow> t = C_CHAR \<or> t = C_BINARY \<or> t = C_WCHAR"

definition date_ctypes :: "ctype set" where
  "date_ctypes = {C_DATE, C_TYPE_DATE, C_TIME, C_TYPE_TIME, C_TIMESTAMP, C_TYPE_TIMESTAMP}"

definition odbc_supported_conversion :: "int \<Rightarrow> ctype \<Rightarrow> bool" where
  "odbc_supported_conversion sql_type t \<longleftrightarrow>
     (if sql_type = SQL_BIT then t \<notin> date_ctypes
      else if sql_type = SQL_BINARY then is_binary_ctype t
      else True)"

text \<open>A bit falls through to the types that a string is converted to.\<close>

definition driver_supported_conversion :: "mysql_type \<Rightarrow> ctype \<Rightarrow> bool" where
  "driver_supported_conversion ty t \<longleftrightarrow>
     (if ty = T_BIT then
        t \<in> {C_BIT, C_TINYINT, C_STINYINT, C_UTINYINT, C_SHORT, C_SSHORT, C_USHORT, C_LONG, C_SLONG,
             C_ULONG, C_FLOAT, C_DOUBLE, C_SBIGINT, C_UBIGINT, C_NUMERIC} \<or> t \<in> date_ctypes
      else if ty = T_STRING then t \<in> date_ctypes
      else False)"
end
