(* ===== verification/ColValue.thy ===== *)
theory ColValue
  imports ColType WString
begin

unbundle bit_operations_syntax

text \<open>
  The value of one column in the type the application asks for: the conversions of a value
  (\<^verbatim>\<open>driver/my_stmt.cc\<close>, \<^verbatim>\<open>driver/my_prepared_stmt.cc\<close>) and \<open>sql_get_data\<close> with \<open>SQLGetData\<close>
  (\<^verbatim>\<open>driver/results.cc\<close>).

  A value is the text of the row of a query, or the buffer of a column of a server-side prepared statement.
  Floating point numbers are a type \<open>'f\<close> whose conversions are a parameter. A function is \<open>None\<close> where
  the code reads or writes outside an object, follows a null pointer, overflows an \<open>int\<close> or does not return.
\<close>

section \<open>Values\<close>

record mysql_time =
  mt_year :: nat
  mt_month :: nat
  mt_day :: nat
  mt_hour :: nat
  mt_minute :: nat
  mt_second :: nat
  mt_second_part :: nat
  mt_neg :: bool

datatype 'f memory = Raw string | Time_memory mysql_time | Real_memory 'f

record 'f bind =
  b_type :: mysql_type
  b_buffer :: "'f memory"
  b_buffer_length :: nat
  b_length :: nat
  b_is_null :: bool
  b_unsigned :: bool

text \<open>The conversions of floating point numbers; the one to an integer is undefined when the number is out of range.\<close>

record 'f reals =
  r_text :: "'f \<Rightarrow> string"
  r_of_text :: "string \<Rightarrow> 'f"
  r_of_int :: "int \<Rightarrow> 'f"
  r_to_int :: "bool \<Rightarrow> 'f \<Rightarrow> u64 option"
  r_single :: "'f \<Rightarrow> 'f"

text \<open>A column: \<open>value\<close>, \<open>length\<close> and, when the statement was prepared on the server, its buffer.\<close>

record 'f column =
  k_value :: "string option"
  k_length :: nat
  k_bind :: "'f bind option"

definition cstr :: "string \<Rightarrow> string" where
  "cstr s = takeWhile (\<lambda>c. c \<noteq> CHR 0x00) s"

section \<open>Integers\<close>

text \<open>
  \<open>binary2numeric\<close>, for both types of 64 bits. While more bytes are left than the type has, the loop goes
  round without a change.
\<close>

partial_function (option) binary2numeric :: "string \<Rightarrow> nat \<Rightarrow> u64 \<Rightarrow> u64 option" where
  "binary2numeric src n dst =
     (if n = 0 then Some dst
      else if n > 8 then binary2numeric src n dst
      else case src of
             [] \<Rightarrow> None
           | c # cs \<Rightarrow> binary2numeric cs (n - 1) (dst + push_bit ((n - 1) * 8) (of_nat (code c))))"

definition binary2ll :: "string \<Rightarrow> nat \<Rightarrow> int option" where
  "binary2ll src n = map_option sint (binary2numeric src n 0)"

definition binary2ull :: "string \<Rightarrow> nat \<Rightarrow> nat option" where
  "binary2ull src n = map_option unat (binary2numeric src n 0)"

definition strtoull10 :: "string \<Rightarrow> u64" where
  "strtoull10 s =
     (let (neg, n) = sign_digits s in
      if n \<ge> 2 ^ 64 then - 1 else if neg then - of_nat n else of_nat n)"

fun little_endian :: "string \<Rightarrow> nat" where
  "little_endian [] = 0"
| "little_endian (c # cs) = code c + 256 * little_endian cs"

text \<open>An integer of \<open>n\<close> bytes in the buffer, extended to 64 bits.\<close>

definition load_int :: "bool \<Rightarrow> nat \<Rightarrow> 'f memory \<Rightarrow> u64 option" where
  "load_int sx n m =
     (case m of
        Raw s \<Rightarrow>
          if n \<le> length s then
            let v = little_endian (take n s) in
            Some (if sx then word_of_int (signed_take_bit (8 * n - 1) (int v)) else of_nat v)
          else None
      | _ \<Rightarrow> None)"

definition stored_int :: "'f bind \<Rightarrow> u64 option" where
  "stored_int b =
     (if b_buffer_length b \<notin> {1, 2, 4, 8} \<or> b_is_null b then Some 0
      else if b_buffer_length b = 1 then load_int True 1 (b_buffer b)
      else load_int (\<not> b_unsigned b) (b_buffer_length b) (b_buffer b))"

definition integer_types :: "mysql_type set" where
  "integer_types = {T_YEAR, T_TINY, T_SHORT, T_INT24, T_LONG, T_LONGLONG}"

definition text_types :: "mysql_type set" where
  "text_types = {T_DECIMAL, T_NEWDECIMAL, T_STRING, T_BLOB, T_VARCHAR, T_VAR_STRING}"

text \<open>A date, a time or a timestamp as text, with the length that is reported for it.\<close>

definition fraction6 :: "nat \<Rightarrow> string" where
  "fraction6 n = take 7 (''.'' @ zero_padded 6 n)"

definition time_text :: "mysql_type \<Rightarrow> mysql_time \<Rightarrow> string \<times> nat" where
  "time_text ty t =
     (let date = zero_padded 4 (mt_year t) @ ''-'' @ zero_padded 2 (mt_month t) @ ''-'' @ zero_padded 2 (mt_day t);
          time = zero_padded 2 (mt_hour t) @ '':'' @ zero_padded 2 (mt_minute t) @ '':'' @
            zero_padded 2 (mt_second t);
          with_fraction = (\<lambda>s len. if mt_second_part t > 0
            then (take len s @ fraction6 (mt_second_part t), len + 7) else (s, len))
      in if ty = T_DATE then (take 10 date, 10)
         else if ty = T_TIME then
           let extra = (if mt_hour t < 100 then 0 else 1) in
           with_fraction (take (9 + extra) ((if mt_neg t then ''-'' else []) @ time))
             ((if mt_neg t then 9 else 8) + extra)
         else with_fraction (take 19 (date @ '' '' @ time)) 19)"

definition bit_int :: "'f bind \<Rightarrow> u64 option" where
  "bit_int b = (case b_buffer b of Raw s \<Rightarrow> binary2numeric s (b_length b) 0 | _ \<Rightarrow> None)"

text \<open>
  \<open>ssps_get_string\<close>, \<open>ssps_get_double\<close> and \<open>ssps_get_int64\<close> call one another on the type of the column only
  in the cases written out here. The first gives the text and the length.
\<close>

definition ssps_get_string :: "'f reals \<Rightarrow> 'f bind \<Rightarrow> nat \<Rightarrow> (string option \<times> nat) option" where
  "ssps_get_string R b len =
     (let number = map_option (\<lambda>w. let s = int_text (if b_unsigned b then uint w else sint w) in (Some s, length s))
      in if b_is_null b then Some (None, len)
         else if b_type b \<in> {T_TIMESTAMP, T_DATETIME, T_DATE, T_TIME} then
           (case b_buffer b of
              Time_memory t \<Rightarrow> Some (map_prod Some id (time_text (b_type b) t))
            | _ \<Rightarrow> None)
         else if b_type b = T_BIT then number (bit_int b)
         else if b_type b \<in> integer_types then number (stored_int b)
         else if b_type b \<in> {T_FLOAT, T_DOUBLE} then
           (case b_buffer b of Real_memory x \<Rightarrow> Some (Some (r_text R x), length (r_text R x)) | _ \<Rightarrow> None)
         else
           (case b_buffer b of
              Raw s \<Rightarrow>
                if b_type b \<in> text_types \<union> {T_LONG_BLOB, T_JSON, T_VECTOR} then Some (Some s, b_length b)
                else Some (Some s, len)
            | _ \<Rightarrow> None))"

text \<open>\<open>ssps_get_int64<T>\<close> as 64 bits; \<open>sx\<close> says whether \<open>T\<close> is signed, which the
  conversion of a floating point number depends on.\<close>

definition ssps_get_int64 :: "'f reals \<Rightarrow> bool \<Rightarrow> 'f bind \<Rightarrow> nat \<Rightarrow> u64 option" where
  "ssps_get_int64 R sx b len =
     (if b_type b \<in> {T_FLOAT, T_DOUBLE} then
        (if b_is_null b then r_to_int R sx (r_of_int R 0)
         else case b_buffer b of Real_memory x \<Rightarrow> r_to_int R sx x | _ \<Rightarrow> None)
      else if b_type b \<in> text_types \<union> {T_TIMESTAMP, T_DATETIME, T_DATE, T_TIME} then
        (case ssps_get_string R b len of
           Some (Some s, _) \<Rightarrow> Some (word_of_int (strtoll10 s))
         | _ \<Rightarrow> None)
      else if b_type b = T_BIT then bit_int b
      else if b_type b \<in> integer_types then stored_int b
      else Some 0)"

definition ssps_get_double :: "'f reals \<Rightarrow> 'f bind \<Rightarrow> nat \<Rightarrow> 'f option" where
  "ssps_get_double R b len =
     (if b_is_null b then Some (r_of_int R 0)
      else if b_type b = T_BIT \<or> b_type b \<in> integer_types then
        map_option (\<lambda>w. r_of_int R (if b_unsigned b then uint w else sint w))
          (ssps_get_int64 R (\<not> b_unsigned b) b len)
      else if b_type b \<in> text_types \<union> {T_TIMESTAMP, T_DATETIME, T_DATE, T_TIME} then
        (case ssps_get_string R b len of
           Some (Some s, n) \<Rightarrow> Some (r_of_text R (take n s))
         | _ \<Rightarrow> None)
      else if b_type b \<in> {T_FLOAT, T_DOUBLE} then
        (case b_buffer b of Real_memory x \<Rightarrow> Some x | _ \<Rightarrow> None)
      else Some (r_of_int R 0))"

section \<open>The conversions of a value\<close>

definition is_null :: "'f column \<Rightarrow> bool" where
  "is_null k = (case k_bind k of Some b \<Rightarrow> b_is_null b | None \<Rightarrow> k_value k = None)"

definition int_of_u64 :: "u64 \<Rightarrow> int" where "int_of_u64 w = sint (ucast w :: u32)"

definition get_int64 :: "'f reals \<Rightarrow> 'f column \<Rightarrow> int option" where
  "get_int64 R k =
     (case k_bind k of
        Some b \<Rightarrow> map_option sint (ssps_get_int64 R True b (k_length k))
      | None \<Rightarrow> map_option strtoll10 (k_value k))"

definition get_uint64 :: "'f reals \<Rightarrow> 'f column \<Rightarrow> nat option" where
  "get_uint64 R k =
     (case k_bind k of
        Some b \<Rightarrow> map_option unat (ssps_get_int64 R False b (k_length k))
      | None \<Rightarrow> map_option (\<lambda>s. unat (strtoull10 s)) (k_value k))"

text \<open>The types of 64 bits are cut to an \<open>int\<close>.\<close>

definition get_int :: "'f reals \<Rightarrow> 'f column \<Rightarrow> int option" where
  "get_int R k =
     (case k_bind k of
        Some b \<Rightarrow> map_option int_of_u64 (ssps_get_int64 R True b (k_length k))
      | None \<Rightarrow> map_option (\<lambda>s. int_of_u64 (word_of_int (strtoll10 s))) (k_value k))"

definition get_uint :: "'f reals \<Rightarrow> 'f column \<Rightarrow> nat option" where
  "get_uint R k =
     (case k_bind k of
        Some b \<Rightarrow> map_option (\<lambda>w. unat (ucast w :: u32)) (ssps_get_int64 R False b (k_length k))
      | None \<Rightarrow> map_option (\<lambda>s. unat (ucast (strtoull10 s) :: u32)) (k_value k))"

definition get_string :: "'f reals \<Rightarrow> 'f column \<Rightarrow> (string option \<times> nat) option" where
  "get_string R k =
     (case k_bind k of
        Some b \<Rightarrow> ssps_get_string R b (k_length k)
      | None \<Rightarrow> Some (k_value k, k_length k))"

definition get_double :: "'f reals \<Rightarrow> 'f column \<Rightarrow> 'f option" where
  "get_double R k =
     (case k_bind k of
        Some b \<Rightarrow> ssps_get_double R b (k_length k)
      | None \<Rightarrow> map_option (\<lambda>s. r_of_text R (take (k_length k) s)) (k_value k))"

section \<open>The target\<close>

text \<open>
  The memory the application gives, and what is in it afterwards: bytes, UTF-16 units, or one object of
  the C type asked for, of which the content before the call does not matter.
\<close>

datatype 'f target =
    Null | Chars string | Units "u16 list" | Whole
  | Integer int | Real 'f | Date sql_date | Time sql_time | Timestamp_value sql_timestamp
  | Interval nat nat nat | Numeric_value sql_numeric

text \<open>What a call gives: \<open>q_ind\<close> is what \<open>*pcbValue\<close> is set to, \<open>q_type\<close> the type of the field after the call.\<close>

record 'f result =
  q_rc :: int
  q_gd :: getdata
  q_target :: "'f target"
  q_ind :: "int option"
  q_state :: "string option"
  q_type :: mysql_type

definition fail :: "string \<Rightarrow> 'f result \<Rightarrow> 'f result" where
  "fail state r = r\<lparr>q_rc := SQL_ERROR, q_state := Some state\<rparr>"

definition info :: "string \<Rightarrow> 'f result \<Rightarrow> 'f result" where
  "info state r = r\<lparr>q_rc := SQL_SUCCESS_WITH_INFO, q_state := Some state\<rparr>"

definition put_value :: "'f target \<Rightarrow> int \<Rightarrow> 'f result \<Rightarrow> 'f result" where
  "put_value v n r = r\<lparr>q_target := (if q_target r = Null then Null else v), q_ind := Some n\<rparr>"

definition put_null :: "'f result \<Rightarrow> 'f result" where
  "put_null r = r\<lparr>q_ind := Some (-1)\<rparr>"

text \<open>A \<open>return\<close>, and a \<open>break\<close> to the end of the function, where a second call for the column ends.\<close>

datatype 'f ending = Return "'f result" | Break "'f result"

definition last_test :: "'f ending \<Rightarrow> 'f result" where
  "last_test e =
     (case e of
        Return r \<Rightarrow> r
      | Break r \<Rightarrow> if gd_source (q_gd r) \<noteq> None then r\<lparr>q_rc := SQL_NO_DATA_FOUND\<rparr> else r)"

section \<open>Integer targets\<close>

definition checked :: "int \<Rightarrow> int \<Rightarrow> int \<Rightarrow> 'f result \<Rightarrow> int \<Rightarrow> 'f ending" where
  "checked lo hi sz r v =
     (if v < lo \<or> v > hi then Return (fail ''22003'' r) else Break (put_value (Integer v) sz r))"

text \<open>A number that a bit column was converted to before, \<open>None\<close> when \<open>convert\<close> is set.\<close>

type_synonym bit_value = "int option"

definition signed_value :: "'f reals \<Rightarrow> 'f column \<Rightarrow> bit_value \<Rightarrow> int option" where
  "signed_value R k bit_value = (case bit_value of Some v \<Rightarrow> Some v | None \<Rightarrow> get_int64 R k)"

text \<open>\<open>u_numeric_value\<close> is still 0 when \<open>convert\<close> is not set.\<close>

definition unsigned_value :: "'f reals \<Rightarrow> 'f column \<Rightarrow> bit_value \<Rightarrow> int option" where
  "unsigned_value R k bit_value =
     (case bit_value of Some v \<Rightarrow> Some 0 | None \<Rightarrow> map_option int (get_uint64 R k))"

definition bit_target :: "'f reals \<Rightarrow> 'f column \<Rightarrow> bit_value \<Rightarrow> 'f result \<Rightarrow> 'f ending option" where
  "bit_target R k bit_value r =
     (if q_target r = Null then Some (Break (put_value Null 1 r))
      else map_option (\<lambda>v. Break (put_value (Integer (if v > 0 then 1 else 0)) 1 r))
             (case bit_value of Some v \<Rightarrow> Some v | None \<Rightarrow> get_int R k))"

text \<open>A date that is read as a number: \<open>YYYYMMDD\<close>. \<open>atol\<close> is \<open>strtol\<close>.\<close>

definition is_date_text :: "nat \<Rightarrow> string \<Rightarrow> bool" where
  "is_date_text len s \<longleftrightarrow>
     len \<ge> 10 \<and> cget s 4 = CHR ''-'' \<and> cget s 7 = CHR ''-'' \<and> (cget s 10 = CHR 0x00 \<or> cget s 10 = CHR '' '')"

definition date_number :: "string \<Rightarrow> int" where
  "date_number s =
     sqlinteger (sqlinteger (strtoll10 s) * 10000 + sqlinteger (strtoll10 (drop 5 s)) * 100 +
       sqlinteger (strtoll10 (drop 8 s)))"

definition long_target :: "'f reals \<Rightarrow> 'f column \<Rightarrow> bit_value \<Rightarrow> 'f result \<Rightarrow> 'f ending option" where
  "long_target R k bit_value r =
     (if q_target r = Null then Some (Break (put_value Null 4 r))
      else case (bit_value, k_value k) of
        (None, Some s) \<Rightarrow>
          if is_date_text (k_length k) s then Some (Break (put_value (Integer (date_number s)) 4 r))
          else map_option (checked (- (2 ^ 31)) (2 ^ 31 - 1) 4 r) (get_int64 R k)
      | (None, None) \<Rightarrow>
          if k_length k \<ge> 10 then None
          else map_option (checked (- (2 ^ 31)) (2 ^ 31 - 1) 4 r) (get_int64 R k)
      | (Some v, _) \<Rightarrow> Some (checked (- (2 ^ 31)) (2 ^ 31 - 1) 4 r v))"

definition integer_target :: "'f reals \<Rightarrow> 'f column \<Rightarrow> ctype \<Rightarrow> bit_value \<Rightarrow> 'f result \<Rightarrow> 'f ending option" where
  "integer_target R k t bit_value r =
     (if t \<in> {C_TINYINT, C_STINYINT} then
        map_option (checked (- (2 ^ 7)) (2 ^ 7 - 1) 1 r) (signed_value R k bit_value)
      else if t = C_UTINYINT then map_option (checked 0 (2 ^ 8 - 1) 1 r) (unsigned_value R k bit_value)
      else if t \<in> {C_SHORT, C_SSHORT} then
        map_option (checked (- (2 ^ 15)) (2 ^ 15 - 1) 2 r) (signed_value R k bit_value)
      else if t = C_USHORT then map_option (checked 0 (2 ^ 16 - 1) 2 r) (unsigned_value R k bit_value)
      else if t \<in> {C_LONG, C_SLONG} then long_target R k bit_value r
      else if t = C_ULONG then map_option (checked 0 (2 ^ 32 - 1) 4 r) (unsigned_value R k bit_value)
      else if q_target r = Null then Some (Break (put_value Null 8 r))
      else map_option (\<lambda>v. Break (put_value (Integer v) 8 r))
        (if t = C_SBIGINT then signed_value R k bit_value else unsigned_value R k bit_value))"

text \<open>\<open>sizeof(float)\<close> is 4, \<open>sizeof(double)\<close> 8.\<close>

definition real_target :: "'f reals \<Rightarrow> 'f column \<Rightarrow> ctype \<Rightarrow> bit_value \<Rightarrow> 'f result \<Rightarrow> 'f ending option" where
  "real_target R k t bit_value r =
     (if q_target r = Null then Some (Break (put_value Null (if t = C_FLOAT then 4 else 8) r))
      else map_option (\<lambda>x. if t = C_FLOAT then Break (put_value (Real (r_single R x)) 4 r)
                          else Break (put_value (Real x) 8 r))
        (case bit_value of Some v \<Rightarrow> Some (r_of_int R v) | None \<Rightarrow> get_double R k))"

section \<open>Dates, times and numerics\<close>

text \<open>The C string that \<open>get_string\<close> returns; a null pointer is followed.\<close>

definition text_of :: "'f reals \<Rightarrow> 'f column \<Rightarrow> (string \<times> nat) option" where
  "text_of R k = (case get_string R k of Some (Some s, n) \<Rightarrow> Some (s, n) | _ \<Rightarrow> None)"

definition date_target :: "'f reals \<Rightarrow> conn \<Rightarrow> 'f column \<Rightarrow> 'f result \<Rightarrow> 'f ending option" where
  "date_target R c k r =
     Option.bind (text_of R k) (\<lambda>(s, n).
       map_option (\<lambda>d. case d of
           Some d \<Rightarrow> Break (put_value (Date d) 6 r)
         | None \<Rightarrow> Break (put_null r)) (str_to_date (take n s) (c_zero_date_to_min c)))"

text \<open>The test of the type of the field is an assignment.\<close>

definition interval_target :: "'f reals \<Rightarrow> 'f column \<Rightarrow> ctype \<Rightarrow> 'f result \<Rightarrow> 'f ending option" where
  "interval_target R k t r =
     Option.bind (text_of R k) (\<lambda>(s, n).
       Option.bind (str_to_time_st (cstr s)) (\<lambda>ts.
         if q_target r = Null then None
         else
           let r = r\<lparr>q_type := T_TIME\<rparr>;
               v = Interval (tm_hour ts) (tm_minute ts) (if t = C_HOUR_TO_SECOND then tm_second ts else 0);
               r' = put_value v 28 r
           in Some (Break (if t \<noteq> C_HOUR_TO_SECOND \<and> tm_second ts > 0 then info ''01S07'' r' else r'))))"

definition time_target :: "'f reals \<Rightarrow> conn \<Rightarrow> field \<Rightarrow> 'f column \<Rightarrow> 'f result \<Rightarrow> 'f ending option" where
  "time_target R c f k r =
     (if f_type f \<in> {T_TIMESTAMP, T_DATETIME} then
        map_option (\<lambda>(s, n).
          case str_to_ts (cstr s) (-3) (c_zero_date_to_min c) None of
            Bad_date \<Rightarrow> Return (fail ''22018'' r)
          | Null_date \<Rightarrow> Break (put_null r)
          | Timestamp ts \<Rightarrow>
              let r' = put_value (Time \<lparr>tm_hour = ts_hour ts, tm_minute = ts_minute ts, tm_second = ts_second ts\<rparr>) 6 r
              in Break (if q_target r \<noteq> Null \<and> ts_fraction ts > 0 then info ''01S07'' r' else r'))
          (text_of R k)
      else if f_type f = T_DATE then
        Some (Break (put_value (Time \<lparr>tm_hour = 0, tm_minute = 0, tm_second = 0\<rparr>) 6 r))
      else
        Option.bind (text_of R k) (\<lambda>(s, n).
          map_option (\<lambda>ts.
            if tm_hour ts > 23 then Return (fail ''22007'' r)
            else
              let r' = put_value (Time ts) 6 r
              in Break (if snd (get_fractional_part None (cstr s) (-3)) \<noteq> 0 then info ''01S07'' r' else r'))
            (str_to_time_st (cstr s))))"

text \<open>\<open>local_date\<close> gives the date that many seconds from now.\<close>

definition timestamp_target ::
    "'f reals \<Rightarrow> (nat \<Rightarrow> sql_date) \<Rightarrow> conn \<Rightarrow> field \<Rightarrow> 'f column \<Rightarrow> 'f result \<Rightarrow> 'f ending option" where
  "timestamp_target R local_date c f k r =
     Option.bind (text_of R k) (\<lambda>(s, n).
       if f_type f = T_TIME then
         Option.bind (str_to_time_st (cstr s)) (\<lambda>ts.
           let h = tm_hour ts;
               today = local_date (if h > 23 then h div 24 * 24 * 60 * 60 else 0)
           in if q_target r = Null then None
              else Some (Break (put_value (Timestamp_value
                \<lparr>dt_year = dt_year today, dt_month = dt_month today, dt_day = dt_day today,
                 ts_hour = h mod 24, ts_minute = tm_minute ts, ts_second = tm_second ts, ts_fraction = 0\<rparr>) 16 r)))
       else
         Some (case str_to_ts (cstr s) (-3) (c_zero_date_to_min c) None of
                 Bad_date \<Rightarrow> Return (fail ''22018'' r)
               | Null_date \<Rightarrow> Break (put_null r)
               | Timestamp ts \<Rightarrow> Break (put_value (Timestamp_value ts) 16 r)))"

definition numeric_target ::
    "'f reals \<Rightarrow> 'f column \<Rightarrow> u8 \<times> u8 \<Rightarrow> bit_value \<Rightarrow> 'f result \<Rightarrow> 'f ending option" where
  "numeric_target R k prec bit_value r =
     (if q_target r = Null then Some (Break r)
      else map_option (\<lambda>(s, sz).
             let (num, overflow) = sqlnum_from_str s
                   \<lparr>n_precision = fst prec, n_scale = snd prec, n_sign = 0, n_val = replicate 16 0\<rparr>;
                 r' = put_value (Numeric_value num) sz r
             in if overflow = 1 then Return (fail ''22003'' r')
                else Break (if overflow = 2 then info ''01S07'' r' else r'))
        (case bit_value of
           Some v \<Rightarrow> Some (int_text v, 8)
         | None \<Rightarrow> map_option (\<lambda>(s, n). (cstr s, 19)) (text_of R k)))"

section \<open>Strings, bytes and bits\<close>

text \<open>The outcome of the operations that copy in pieces, and the memory they get.\<close>

definition chars_of :: "'f target \<Rightarrow> string option option" where
  "chars_of tg = (case tg of Null \<Rightarrow> Some None | Chars s \<Rightarrow> Some (Some s) | _ \<Rightarrow> None)"

definition units_of :: "'f target \<Rightarrow> u16 list option option" where
  "units_of tg = (case tg of Null \<Rightarrow> Some None | Units u \<Rightarrow> Some (Some u) | _ \<Rightarrow> None)"

definition copied :: "('a list \<Rightarrow> 'f target) \<Rightarrow> 'f result \<Rightarrow> 'a out \<Rightarrow> 'f ending" where
  "copied mk r o' =
     Return (r\<lparr>q_rc := o_rc o', q_gd := o_gd o',
       q_target := (case o_buf o' of None \<Rightarrow> Null | Some b \<Rightarrow> mk b),
       q_ind := (case o_avail o' of None \<Rightarrow> q_ind r | Some n \<Rightarrow> Some (slong n)), q_state := o_state o'\<rparr>)"

text \<open>A bit column: what is copied at once, what is converted to a number and what is left to the switch below.\<close>

definition bit_column ::
    "get_opts \<Rightarrow> ctype \<Rightarrow> int \<Rightarrow> string \<Rightarrow> 'f result \<Rightarrow> ('f ending + bit_value) option" where
  "bit_column opts t cb v r =
     (if t = C_BIT then
        Option.bind (chars_of (q_target r)) (\<lambda>b.
          map_option (\<lambda>o'. Inl (copied Chars r o')) (copy_binary_result opts (q_gd r) b cb v))
      else if t = C_CHAR then
        Option.bind (chars_of (q_target r)) (\<lambda>b.
          map_option (\<lambda>o'. Inl (copied Chars r o')) (copy_bit_result opts (q_gd r) b cb v))
      else if t = C_WCHAR then
        Option.bind (units_of (q_target r)) (\<lambda>b.
          map_option (\<lambda>o'. Inl (copied Units r o')) (wcopy_bit_result opts (q_gd r) b cb v))
      else if t = C_UBIGINT then map_option (\<lambda>u. Inr None) (binary2ull v (length v))
      else map_option (\<lambda>n. Inr (Some n)) (binary2ll v (length v)))"

definition binary_text :: "field \<Rightarrow> bool" where
  "binary_text f \<longleftrightarrow> f_charsetnr f = BINARY_CHARSET_NUMBER \<and> is_longdata (f_type f) \<and> f_decimals f = 0"

text \<open>The targets \<open>SQL_C_CHAR\<close> and \<open>SQL_C_BINARY\<close>; a short timestamp is completed first, in the row's text only.\<close>

definition bytes_target ::
    "'f reals \<Rightarrow> get_opts \<Rightarrow> field \<Rightarrow> 'f column \<Rightarrow> ctype \<Rightarrow> int \<Rightarrow> 'f result \<Rightarrow> 'f ending option" where
  "bytes_target R opts f k t cb r =
     Option.bind (chars_of (q_target r)) (\<lambda>b.
       Option.bind (k_value k) (\<lambda>v.
         if t = C_CHAR \<and> binary_text f then
           map_option (copied Chars r)
             (copy_binhex_result (\<lambda>c. c) 1 opts (q_gd r) b (sqlinteger cb) (take (k_length k) v))
         else
           Option.bind (if f_type f = T_TIMESTAMP \<and> k_length k < 19
                        then complete_timestamp v (k_length k) else Some (Some (take (k_length k) v)))
             (\<lambda>done'. case done' of
                None \<Rightarrow> Some (Break (put_null r))
              | Some v' \<Rightarrow>
                  if t = C_BINARY then map_option (copied Chars r) (copy_binary_result opts (q_gd r) b cb v')
                  else
                    Option.bind (text_of R (k\<lparr>k_value := Some v', k_length := length v'\<rparr>)) (\<lambda>(s, n).
                      map_option (copied Chars r) (copy_ansi_result opts (q_gd r) b cb (take n s))))))"

definition wide_target ::
    "'f reals \<Rightarrow> get_opts \<Rightarrow> field \<Rightarrow> 'f column \<Rightarrow> int \<Rightarrow> 'f result \<Rightarrow> 'f ending option" where
  "wide_target R opts f k cb r =
     (let units = sqlinteger (int (ulong cb div 2)) in
      Option.bind (units_of (q_target r)) (\<lambda>b.
        Option.bind (text_of R k) (\<lambda>(s, n).
          map_option (copied Units r)
            (if binary_text f then copy_binhex_result wide_digit 2 opts (q_gd r) b units (take n s)
             else copy_wchar_result opts (q_gd r) b units (take n s)))))"

section \<open>\<open>sql_get_data\<close>\<close>

text \<open>
  The record of the application's descriptor: its concise type, precision and scale. The order of the tests is
  that of the code; the streams of output parameters, which \<open>OPS_STREAMS_PENDING\<close> announces, are not modelled.
\<close>

record arrec =
  a_concise_type :: ctype
  a_precision :: int
  a_scale :: int

definition convert_value ::
    "'f reals \<Rightarrow> (nat \<Rightarrow> sql_date) \<Rightarrow> conn \<Rightarrow> get_opts \<Rightarrow> field \<Rightarrow> 'f column \<Rightarrow> ctype \<Rightarrow> int \<Rightarrow> u8 \<times> u8 \<Rightarrow>
       bit_value \<Rightarrow> 'f result \<Rightarrow> 'f ending option" where
  "convert_value R local_date c opts f k t cb prec bit_value r =
     (if t \<in> {C_CHAR, C_BINARY} then bytes_target R opts f k t cb r
      else if t = C_WCHAR then wide_target R opts f k cb r
      else if t = C_BIT then bit_target R k bit_value r
      else if t \<in> {C_TINYINT, C_STINYINT, C_UTINYINT, C_SHORT, C_SSHORT, C_USHORT, C_LONG, C_SLONG, C_ULONG,
                  C_SBIGINT, C_UBIGINT} then integer_target R k t bit_value r
      else if t \<in> {C_FLOAT, C_DOUBLE} then real_target R k t bit_value r
      else if t \<in> {C_DATE, C_TYPE_DATE} then date_target R c k r
      else if t \<in> {C_HOUR_TO_SECOND, C_HOUR_TO_MINUTE} then interval_target R k t r
      else if t \<in> {C_TIME, C_TYPE_TIME} then time_target R c f k r
      else if t \<in> {C_TIMESTAMP, C_TYPE_TIMESTAMP} then timestamp_target R local_date c f k r
      else if t = C_NUMERIC then numeric_target R k prec bit_value r
      else Some (Return (fail ''07006'' r)))"

definition sql_get_data ::
    "'f reals \<Rightarrow> (nat \<Rightarrow> sql_date) \<Rightarrow> conn \<Rightarrow> get_opts \<Rightarrow> getdata \<Rightarrow> field \<Rightarrow> 'f column \<Rightarrow> ctype \<Rightarrow> arrec option \<Rightarrow>
       'f target \<Rightarrow> int \<Rightarrow> bool \<Rightarrow> 'f result option" where
  "sql_get_data R local_date c opts gd f k fCType ar tg cbValueMax has_ind =
     (let r = \<lparr>q_rc = SQL_SUCCESS, q_gd = gd, q_target = tg, q_ind = None, q_state = None, q_type = f_type f\<rparr>;
          t = (if fCType = C_DEFAULT then unireg_to_c_datatype f
               else if fCType = C_ARD_TYPE then (case ar of None \<Rightarrow> fCType | Some a \<Rightarrow> a_concise_type a)
               else fCType);
          cb = (if fCType = C_DEFAULT \<and> cbValueMax = 0 then int (bind_length t 0) else cbValueMax);
          prec = (case ar of None \<Rightarrow> (38, 0) | Some a \<Rightarrow> (word_of_int (a_precision a), word_of_int (a_scale a)))
      in if fCType = C_ARD_TYPE \<and> ar = None then Some (fail ''07009'' r)
         else if is_null k then
           if \<not> has_ind then Some (fail ''22002'' r) else Some (last_test (Break (put_null r)))
         else if \<not> odbc_supported_conversion (fst (get_sql_data_type c f)) t \<and>
                 \<not> driver_supported_conversion (f_type f) t
         then Some (fail ''07006'' r)
         else
           Option.bind (if f_type f = T_BIT
                        then (case k_value k of None \<Rightarrow> None
                              | Some v \<Rightarrow> bit_column opts t cb (take (k_length k) v) r)
                        else Some (Inr None))
             (\<lambda>b. map_option last_test
               (case b of Inl e \<Rightarrow> Some e
                | Inr bit_value \<Rightarrow> convert_value R local_date c opts f k t cb prec bit_value r)))"

section \<open>Bookmarks\<close>

text \<open>
  \<open>sql_get_bookmark_data\<close>. The value is the text of the bookmark; a prepared statement would look for it in
  \<open>result_bind[-1]\<close>. The target \<open>SQL_C_WCHAR\<close> has no \<open>break\<close>: its first byte is overwritten as that
  of a \<open>SQL_C_TINYINT\<close>.
\<close>

definition set_low_byte :: "u16 \<Rightarrow> int \<Rightarrow> u16" where
  "set_low_byte u v = (u AND 0xff00) OR (word_of_int v AND 0xff)"

definition terminate_bookmark :: "int \<Rightarrow> nat \<Rightarrow> 'f result \<Rightarrow> 'f result option" where
  "terminate_bookmark cb len r =
     (if q_rc r = SQL_SUCCESS \<or> q_rc r = SQL_SUCCESS_WITH_INFO then
        (case q_target r of
           Chars b \<Rightarrow> map_option (\<lambda>b'. r\<lparr>q_target := Chars b'\<rparr>) (store (int (min len (nat cb))) [CHR 0x00] b)
         | Null \<Rightarrow> if min len (nat cb) = 0 then Some r else None
         | _ \<Rightarrow> None)
      else Some r)"

definition bookmark_integer :: "'f reals \<Rightarrow> get_opts \<Rightarrow> ctype \<Rightarrow> 'f column \<Rightarrow> 'f result \<Rightarrow> 'f result option" where
  "bookmark_integer R opts t k r =
     (let put = (\<lambda>sz conv get. if q_target r \<noteq> Null \<and> g_retrieve opts
            then map_option (\<lambda>v. put_value (Integer (conv v)) sz r) get else Some (r\<lparr>q_ind := Some sz\<rparr>));
          unum = map_option int
      in if t \<in> {C_TINYINT, C_STINYINT} then put 1 (\<lambda>v. sint (word_of_int v :: u8)) (get_int R k)
         else if t = C_UTINYINT then put 1 (\<lambda>v. uint (word_of_int v :: u8)) (unum (get_uint R k))
         else if t \<in> {C_SHORT, C_SSHORT} then put 2 (\<lambda>v. sint (word_of_int v :: u16)) (get_int R k)
         else if t = C_USHORT then put 2 (\<lambda>v. uint (word_of_int v :: u16)) (unum (get_uint R k))
         else if t \<in> {C_LONG, C_SLONG} then
           (case k_value k of
              None \<Rightarrow> None
            | Some s \<Rightarrow>
                if is_date_text (k_length k) s then put 4 (\<lambda>v. v) (Some (date_number s))
                else put 4 sqlinteger (get_int64 R k))
         else if t = C_ULONG then put 4 (\<lambda>v. uint (word_of_int v :: u32)) (unum (get_uint64 R k))
         else if t = C_SBIGINT then put 8 (\<lambda>v. v) (get_int64 R k)
         else put 8 (\<lambda>v. v) (unum (get_uint64 R k)))"

definition bookmark_wide :: "'f reals \<Rightarrow> get_opts \<Rightarrow> 'f column \<Rightarrow> string \<Rightarrow> int \<Rightarrow> 'f result \<Rightarrow> 'f ending option" where
  "bookmark_wide R opts k v cb r =
     (if \<not> g_retrieve opts then Some (Break (r\<lparr>q_ind := Some 1\<rparr>))
      else
        Option.bind (utf8_as_sqlwchar (nat cb div 2) (map (\<lambda>c. of_nat (code c)) v) (length v)) (\<lambda>(us, n).
          case q_target r of
            Units b \<Rightarrow>
              Option.bind (store 0 us b) (\<lambda>b1.
                if n = 0 then Some (Return (info ''01004'' (r\<lparr>q_target := Units b1\<rparr>)))
                else map_option (\<lambda>i. Break (r\<lparr>q_target := Units (b1[0 := set_low_byte (b1 ! 0) i]), q_ind := Some 1\<rparr>))
                       (get_int R k))
          | _ \<Rightarrow> None))"

definition sql_get_bookmark_data ::
    "'f reals \<Rightarrow> get_opts \<Rightarrow> getdata \<Rightarrow> mysql_type \<Rightarrow> string \<Rightarrow> ctype \<Rightarrow> arrec option \<Rightarrow> 'f target \<Rightarrow> int \<Rightarrow>
       'f result option" where
  "sql_get_bookmark_data R opts gd ty v fCType ar tg cbValueMax =
     (let r = \<lparr>q_rc = SQL_SUCCESS, q_gd = gd, q_target = tg, q_ind = None, q_state = None, q_type = ty\<rparr>;
          k = \<lparr>k_value = Some v, k_length = length v, k_bind = None\<rparr>;
          t = (if fCType = C_DEFAULT then C_BINARY
               else if fCType = C_ARD_TYPE then (case ar of None \<Rightarrow> fCType | Some a \<Rightarrow> a_concise_type a)
               else fCType)
      in if cbValueMax < 0 then None
         else if cbValueMax < 8 then Some (fail ''HY090'' r)
         else if fCType = C_ARD_TYPE \<and> ar = None then Some (fail ''07009'' r)
         else if t \<in> {C_CHAR, C_BINARY} then
           Option.bind (chars_of tg) (\<lambda>b.
             Option.bind (copy_binary_result opts gd b cbValueMax v) (\<lambda>o'.
               terminate_bookmark cbValueMax (length v) (last_test (copied Chars r o'))))
         else if t = C_WCHAR then map_option last_test (bookmark_wide R opts k v cbValueMax r)
         else if t \<in> {C_TINYINT, C_STINYINT, C_UTINYINT, C_SHORT, C_SSHORT, C_USHORT, C_LONG, C_SLONG, C_ULONG,
                     C_SBIGINT, C_UBIGINT}
         then map_option (\<lambda>r'. last_test (Break r')) (bookmark_integer R opts t k r)
         else if t \<in> {C_FLOAT, C_DOUBLE} then
           (if tg \<noteq> Null \<and> g_retrieve opts
            then map_option (\<lambda>e. last_test e) (real_target R k t None r)
            else Some (last_test (Break (r\<lparr>q_ind := Some (if t = C_FLOAT then 4 else 8)\<rparr>))))
         else Some (fail ''07006'' r))"

section \<open>\<open>SQLGetData\<close>\<close>

text \<open>
  A column of the implementation row descriptor: the field, \<open>type\<close> and \<open>octet_length\<close> of its record. Padding
  makes an \<open>ENUM\<close> or \<open>SET\<close> as long as the column, with spaces; the string of a null pointer is empty.
\<close>

record ird_column =
  i_field :: field
  i_type :: int
  i_octet_length :: int

definition fix_padding :: "conn \<Rightarrow> ctype \<Rightarrow> ird_column \<Rightarrow> int \<Rightarrow> 'f column \<Rightarrow> 'f column option" where
  "fix_padding c t i cb k =
     (if c_pad_space c \<and> (enum_flag (i_field i) \<or> set_flag (i_field i)) \<and> i_type i \<in> {SQL_CHAR, SQL_WCHAR} \<and>
         t \<in> {C_CHAR, C_WCHAR, C_BINARY}
      then
        let s = (case k_value k of None \<Rightarrow> [] | Some v \<Rightarrow> take (k_length k) v);
            len = min (i_octet_length i) cb
        in if len < 0 then None
           else Some (k\<lparr>k_value := Some (take (nat len) s @ replicate (nat len - length s) (CHR '' '')),
                        k_length := nat len\<rparr>)
      else Some k)"

record 'f get_stmt =
  s_result :: bool
  s_ird :: "ird_column list"
  s_values :: "'f column list option"
  s_ard :: "int \<Rightarrow> arrec option"
  s_bookmarks :: bool
  s_getdata :: getdata
  s_cursor_row :: int

definition select_column :: "getdata \<Rightarrow> int \<Rightarrow> getdata" where
  "select_column gd col =
     (if col = sqlinteger (int (gd_column gd)) then gd
      else (reset_getdata_position gd)\<lparr>gd_column := nat (col mod 2 ^ 32)\<rparr>)"

definition get_error :: "getdata \<Rightarrow> 'f target \<Rightarrow> string \<Rightarrow> 'f result" where
  "get_error gd tg state =
     \<lparr>q_rc = SQL_ERROR, q_gd = gd, q_target = tg, q_ind = None, q_state = Some state, q_type = T_INVALID\<rparr>"

text \<open>
  The build is one without assertions. (With them the assertion on \<open>getdata.column\<close> before the new column is selected
  stops the driver at the second call for a column.)
\<close>

definition SQLGetData ::
    "'f reals \<Rightarrow> (nat \<Rightarrow> sql_date) \<Rightarrow> conn \<Rightarrow> get_opts \<Rightarrow> 'f get_stmt \<Rightarrow> nat \<Rightarrow> ctype \<Rightarrow> 'f target \<Rightarrow> int \<Rightarrow> bool \<Rightarrow>
       ('f result \<times> 'f get_stmt) option" where
  "SQLGetData R local_date c opts st number t tg cb has_ind =
     (let gd = s_getdata st; refuse = (\<lambda>state. Some (get_error gd tg state, st));
          col = sqlsmallint number - 1;
          gd' = select_column gd col;
          keep = (\<lambda>r. (r, st\<lparr>s_getdata := q_gd r,
                    s_ird := (if q_rc r = SQL_ERROR \<or> col < 0 then s_ird st
                              else (s_ird st)[nat col := (s_ird st ! nat col)
                                \<lparr>i_field := (i_field (s_ird st ! nat col))\<lparr>f_type := q_type r\<rparr>\<rparr>])\<rparr>))
      in case s_values st of
           None \<Rightarrow> refuse ''24000''
         | Some values \<Rightarrow>
             if \<not> s_result st then refuse ''24000''
             else if (col < 0 \<and> \<not> s_bookmarks st) \<or> number > length (s_ird st) then refuse ''07009''
             else if col = -1 \<and> t \<notin> {C_ULONG, C_BINARY} then refuse ''HY003''
             else if col = -1 \<and> s_bookmarks st then
               map_option keep (sql_get_bookmark_data R opts gd' T_INVALID (dec (nat (s_cursor_row st))) t
                 (s_ard st col) tg cb)
             else if col < 0 \<or> nat col \<ge> length values then None
             else
               Option.bind (fix_padding c t (s_ird st ! nat col) cb (values ! nat col)) (\<lambda>k.
                 map_option keep (sql_get_data R local_date c opts gd' (i_field (s_ird st ! nat col)) k t
                   (s_ard st col) tg cb has_ind)))"
end
