(* ===== verification/ColType_Props.thy ===== *)
theory ColType_Props
  imports ColType DateTime_Props
begin

text \<open>
  What the sizes a column is described with are good for: which values and texts of its type they hold.
\<close>

section \<open>Example columns\<close>

definition example_conn :: conn where
  "example_conn = \<lparr>c_no_binary_result = False, c_no_bigint = False, c_column_size_s32 = False, c_pad_space = False,
     c_zero_date_to_min = False, c_unicode = True, c_odbc_ver = 3, c_server_version = Some ''8.0.30-MatrixOne''\<rparr>"

definition example_field :: "mysql_type \<Rightarrow> u32 \<Rightarrow> nat \<Rightarrow> nat \<Rightarrow> field" where
  "example_field ty flags len cs = \<lparr>f_type = ty, f_flags = flags, f_length = len, f_max_length = 0, f_decimals = 0,
     f_charsetnr = cs, f_org_table_length = 1\<rparr>"

section \<open>The texts of numbers\<close>

lemma length_dec_le: "0 < k \<Longrightarrow> length (dec n) \<le> k \<longleftrightarrow> n < 10 ^ k"
proof (induction n arbitrary: k rule: dec.induct)
  case (1 n)
  show ?case
  proof (cases "n < 10")
    case True
    have "(10 :: nat) ^ 1 \<le> 10 ^ k" using \<open>0 < k\<close> by (intro power_increasing) auto
    with True \<open>0 < k\<close> show ?thesis by (simp add: dec.simps [of n])
  next
    case False
    show ?thesis
    proof (cases "k = 1")
      case True
      have "length (dec (n div 10)) \<noteq> 0" by (subst dec.simps) simp
      then show ?thesis using False True by (simp add: dec.simps [of n])
    next
      case k: False
      then obtain j where j: "k = Suc j" "0 < j" using \<open>0 < k\<close> by (cases k) auto
      have "n div 10 < 10 ^ j \<longleftrightarrow> n < 10 ^ k"
        using j by (simp add: div_less_iff_less_mult mult.commute)
      then show ?thesis using 1(1) [OF False j(2)] False j by (simp add: dec.simps [of n])
    qed
  qed
qed

lemma length_int_text_le:
  "1 < k \<Longrightarrow> length (int_text v) \<le> k \<longleftrightarrow> - (10 ^ (k - 1)) < v \<and> v < 10 ^ k"
proof (cases "v < 0")
  case True
  assume "1 < k"
  then have "length (dec (nat (- v))) \<le> k - 1 \<longleftrightarrow> nat (- v) < 10 ^ (k - 1)"
    by (intro length_dec_le) simp
  moreover have "nat (- v) < 10 ^ (k - 1) \<longleftrightarrow> - v < 10 ^ (k - 1)"
    using True by (simp add: nat_less_iff)
  moreover have "v < 10 ^ k" using True by (meson order_less_trans zero_less_numeral zero_less_power)
  ultimately show ?thesis using True \<open>1 < k\<close> by (auto simp: int_text_def)
next
  case False
  assume "1 < k"
  then have "length (dec (nat v)) \<le> k \<longleftrightarrow> nat v < 10 ^ k" by (intro length_dec_le) simp
  moreover have "nat v < 10 ^ k \<longleftrightarrow> v < 10 ^ k" using False by (simp add: nat_less_iff)
  moreover have "- (10 ^ (k - 1)) < v"
    using False by (meson le_less_trans leD not_le neg_less_0_iff_less order_less_le_trans zero_less_numeral zero_less_power)
  ultimately show ?thesis using False by (simp add: int_text_def)
qed

section \<open>Integer columns\<close>

text \<open>The values of an integer type of the server.\<close>

definition integer_bits :: "mysql_type \<Rightarrow> nat option" where
  "integer_bits t =
     (case t of T_TINY \<Rightarrow> Some 8 | T_SHORT \<Rightarrow> Some 16 | T_INT24 \<Rightarrow> Some 24 | T_LONG \<Rightarrow> Some 32
      | T_LONGLONG \<Rightarrow> Some 64 | _ \<Rightarrow> None)"

definition integer_values :: "nat \<Rightarrow> bool \<Rightarrow> int set" where
  "integer_values b uns = (if uns then {0 ..< 2 ^ b} else {- (2 ^ (b - 1)) ..< 2 ^ (b - 1)})"

lemma integer_type_cases:
  assumes "integer_bits t = Some b"
  obtains "t = T_TINY" "b = 8" | "t = T_SHORT" "b = 16" | "t = T_INT24" "b = 24" | "t = T_LONG" "b = 32"
    | "t = T_LONGLONG" "b = 64"
  using assms by (cases t) (auto simp: integer_bits_def)

text \<open>The ends of an interval decide whether all of it lies in another.\<close>

lemma all_between:
  fixes l h a b :: int
  assumes "l < h"
  shows "(\<forall>v \<in> {l ..< h}. a < v \<and> v < b) \<longleftrightarrow> a < l \<and> h \<le> b"
proof
  assume all: "\<forall>v \<in> {l ..< h}. a < v \<and> v < b"
  then have "a < l" using assms by auto
  moreover have "h - 1 < b" using all assms by auto
  ultimately show "a < l \<and> h \<le> b" by simp
qed auto

lemma texts_fit:
  "1 < k \<Longrightarrow> 0 < b \<Longrightarrow>
   (\<forall>v \<in> integer_values b uns. length (int_text v) \<le> k) \<longleftrightarrow>
     (if uns then 2 ^ b \<le> (10 :: int) ^ k else (2 :: int) ^ (b - 1) < 10 ^ (k - 1) \<and> (2 :: int) ^ (b - 1) \<le> 10 ^ k)"
  by (simp add: integer_values_def length_int_text_le all_between)

lemma digits_fit:
  assumes "0 < k" "0 < b"
  shows "(\<forall>v \<in> integer_values b uns. length (dec (nat \<bar>v\<bar>)) \<le> k) \<longleftrightarrow>
     (if uns then 2 ^ b \<le> (10 :: int) ^ k else (2 :: int) ^ (b - 1) < 10 ^ k)"
proof -
  have "length (dec (nat \<bar>v\<bar>)) \<le> k \<longleftrightarrow> - (10 ^ k) < v \<and> v < 10 ^ k" for v
    using length_dec_le [OF assms(1), of "nat \<bar>v\<bar>"] by (auto simp: nat_less_iff)
  note digits = this
  have "x < y \<and> x \<le> y \<longleftrightarrow> x < y" for x y :: int by linarith
  then show ?thesis unfolding digits using assms by (simp add: integer_values_def all_between)
qed

text \<open>C27: the display size of an integer column holds the texts of all its values exactly when the column is
  unsigned, or of a type whose size counts a sign anyway: the character for the sign is added for the
  unsigned columns instead of the signed ones.\<close>
theorem display_size_sign:
  assumes "integer_bits (f_type f) = Some b"
  shows "(\<forall>v \<in> integer_values b (unsigned_flag f). int (length (int_text v)) \<le> get_display_size c f) \<longleftrightarrow>
    unsigned_flag f \<or> f_type f \<in> {T_INT24, T_LONGLONG}"
  using assms by (cases rule: integer_type_cases) (auto simp: get_display_size_def texts_fit)

theorem display_size_sign_witness:
  "\<not> (\<forall>v \<in> integer_values 8 False. int (length (int_text v)) \<le>
      get_display_size example_conn (example_field T_TINY 0x8000 4 63))"
  using display_size_sign [of "example_field T_TINY 0x8000 4 63" 8 example_conn]
  by (simp add: integer_bits_def unsigned_flag_def example_field_def example_conn_def)

text \<open>The column size of an integer column holds the digits of every value of its type; with the option
  \<open>NO_BIGINT\<close>, which turns the size of a 64-bit column into that of a 32-bit one, it does not.\<close>
theorem column_size_digits:
  assumes "integer_bits (f_type f) = Some b" "num_flag f"
  shows "(\<forall>v \<in> integer_values b (unsigned_flag f). length (dec (nat \<bar>v\<bar>)) \<le> get_column_size c f) \<longleftrightarrow>
    \<not> (f_type f = T_LONGLONG \<and> c_no_bigint c)"
  using assms by (cases rule: integer_type_cases) (auto simp: get_column_size_def digits_fit)

theorem column_size_digits_witness:
  "\<forall>v \<in> integer_values 32 True. length (dec (nat \<bar>v\<bar>)) \<le>
      get_column_size example_conn (example_field T_LONG 0x8020 10 63)"
  using column_size_digits [of "example_field T_LONG 0x8020 10 63" 32 example_conn]
  by (simp add: integer_bits_def unsigned_flag_def num_flag_def example_field_def example_conn_def)

section \<open>Default C types\<close>

text \<open>A buffer of the length that a column reports as its transfer octet length holds what
  \<open>SQL_C_DEFAULT\<close> stores there, for the integers, the floating point numbers and the dates and times,
  except for \<open>MEDIUMINT\<close> (3 bytes reported, 4 stored) and \<open>YEAR\<close> (1 byte reported, 2 stored).\<close>
theorem default_type_transfer:
  assumes "f_type f \<in> {T_TINY, T_SHORT, T_INT24, T_LONG, T_FLOAT, T_DOUBLE, T_YEAR, T_DATE, T_NEWDATE, T_TIME,
    T_TIMESTAMP, T_DATETIME}"
  shows "int (bind_length (unireg_to_c_datatype f) 0) \<le> get_transfer_octet_length c f \<longleftrightarrow>
    f_type f \<notin> {T_INT24, T_YEAR}"
  using assms
  by (elim insertE emptyE) (simp_all add: bind_length_def unireg_to_c_datatype_def get_transfer_octet_length_def)

theorem default_type_transfer_witness:
  "\<not> int (bind_length (unireg_to_c_datatype (example_field T_INT24 0x8000 9 63)) 0)
     \<le> get_transfer_octet_length example_conn (example_field T_INT24 0x8000 9 63)"
  by (subst default_type_transfer) (simp_all add: example_field_def)

text \<open>Reading a column as \<open>SQL_C_DEFAULT\<close> is never refused as a conversion that is not supported: the
  default C type of every column is one its SQL type, or the exception the driver makes for it, allows.\<close>
theorem default_conversion_allowed:
  "odbc_supported_conversion (fst (get_sql_data_type c f)) (unireg_to_c_datatype f) \<or>
    driver_supported_conversion (f_type f) (unireg_to_c_datatype f)"
  by (cases "f_type f")
    (simp_all add: odbc_supported_conversion_def driver_supported_conversion_def unireg_to_c_datatype_def
      get_sql_data_type_def is_binary_ctype_def date_ctypes_def)

section \<open>Characters\<close>

text \<open>A character column of \<open>n\<close> characters in a character set of the table, whose length the server
  gives in bytes, has column size and display size \<open>n\<close>, as long as the bytes stay below the largest
  signed 32-bit number.\<close>
theorem character_sizes:
  assumes "f_type f \<in> {T_VARCHAR, T_VAR_STRING, T_STRING, T_ENUM, T_SET}"
    and "m = get_charset_maxlen (f_charsetnr f)" "m \<noteq> 0" "f_charsetnr f \<noteq> BINARY_CHARSET_NUMBER"
    and "f_length f = n * m" "f_max_length f \<le> f_length f" "f_length f < INT_MAX32"
  shows "get_column_size c f = n \<and> get_display_size c f = int n"
proof -
  have len: "f_length f div m = n" using assms by simp
  have "n \<le> f_length f" using assms by (cases m) auto
  then have n: "n < INT_MAX32" using assms(7) by linarith
  have "cap_length c (f_length f) = int (f_length f)"
    using assms(7) by (simp add: cap_length_def slong_def INT_MAX32_def)
  then have "ulong (cap_length c (f_length f)) = f_length f"
    using assms(7) by (simp add: ulong_def INT_MAX32_def)
  then have "get_column_size c f = n"
    using assms len by (auto simp: get_column_size_def Let_def)
  moreover have "chars_displayed c f m = int n"
    using assms(4) len n by (simp add: chars_displayed_def Let_def slong_def INT_MAX32_def)
  then have "get_display_size c f = int n"
    using assms by (auto simp: get_display_size_def Let_def)
  ultimately show ?thesis by simp
qed

theorem character_sizes_witness:
  "get_column_size example_conn (example_field T_VAR_STRING 0 80 255) = 20 \<and>
   get_display_size example_conn (example_field T_VAR_STRING 0 80 255) = 20"
proof -
  have "get_charset_maxlen 255 = 4" by (simp add: get_charset_maxlen_def charset_maxlen_def eval_nat_numeral(2-))
  then show ?thesis
    using character_sizes [of "example_field T_VAR_STRING 0 80 255" 4 20 example_conn]
    by (simp add: BINARY_CHARSET_NUMBER_def INT_MAX32_def example_field_def)
qed

text \<open>A character set that the table of the client does not know leaves the sizes in bytes: they are never
  smaller than the number of characters.\<close>
theorem unknown_charset_sizes:
  assumes "f_type f \<in> {T_VARCHAR, T_VAR_STRING, T_STRING, T_ENUM, T_SET}" "324 \<le> f_charsetnr f"
    "f_max_length f \<le> f_length f" "f_length f < INT_MAX32"
  shows "get_column_size c f = f_length f \<and> get_display_size c f = int (f_length f)"
proof -
  have m: "get_charset_maxlen (f_charsetnr f) = 0" "f_charsetnr f \<noteq> BINARY_CHARSET_NUMBER"
    using assms by (auto simp: get_charset_maxlen_def BINARY_CHARSET_NUMBER_def)
  have "ulong (cap_length c (f_length f)) = f_length f"
    using assms(4) by (simp add: cap_length_def ulong_def slong_def INT_MAX32_def)
  then have "get_column_size c f = f_length f" using assms m by (auto simp: get_column_size_def Let_def)
  moreover have "chars_displayed c f 1 = int (f_length f)"
    using assms(4) m by (simp add: chars_displayed_def Let_def slong_def INT_MAX32_def)
  then have "get_display_size c f = int (f_length f)" using assms m by (auto simp: get_display_size_def Let_def)
  ultimately show ?thesis by simp
qed

text \<open>A decimal column of \<open>p\<close> digits, \<open>d\<close> of them after the point, has column size \<open>p\<close>: the server counts the
  sign and the point in its length.\<close>
theorem decimal_column_size:
  assumes "f_type f \<in> {T_DECIMAL, T_NEWDECIMAL}" "f_decimals f = d"
    and "f_length f = p + (if unsigned_flag f then 0 else 1) + (if d \<noteq> 0 then 1 else 0)"
    and "f_max_length f \<le> f_length f" "p < 100"
  shows "get_column_size c f = p \<and> get_decimal_digits f = sqlsmallint d \<and>
    get_display_size c f = int (f_length f)"
proof -
  have "f_length f < 102" using assms by (simp split: if_splits)
  then have "ulong (cap_length c (f_length f)) = f_length f" "slong (f_length f) = int (f_length f)"
    by (simp_all add: cap_length_def ulong_def slong_def INT_MAX32_def)
  then have sizes: "\<not> f_max_length f > f_length f" "ulong (cap_length c (f_length f)) = f_length f"
      "slong (f_length f) = int (f_length f)" using assms by simp_all
  have sub: "sub64 (sub64 (f_length f) (if unsigned_flag f then 0 else 1)) (if f_decimals f \<noteq> 0 then 1 else 0) = p"
    using assms(2,3) by (simp add: sub64_def)
  have "get_column_size c f = p"
    using assms(1) sub by (elim insertE emptyE) (simp_all only: get_column_size_def Let_def sizes mysql_type.case if_False)
  moreover have "get_decimal_digits f = sqlsmallint d" "get_display_size c f = int (f_length f)"
    using assms(1,2) sizes by (auto simp: get_decimal_digits_def get_display_size_def)
  ultimately show ?thesis by simp
qed
end
