(* ===== verification/ColValue_Props.thy ===== *)
theory ColValue_Props
  imports ColValue ColType_Props
begin

unbundle bit_operations_syntax

text \<open>
  The values that reach the application: integers come through exactly or are refused, the two ways a
  value arrives agree, and the places where they do not.
\<close>

section \<open>Examples\<close>

text \<open>Floating point numbers by integers, for the examples only.\<close>

definition example_reals :: "int reals" where
  "example_reals = \<lparr>r_text = int_text, r_of_text = strtoll10, r_of_int = (\<lambda>i. i), r_to_int = (\<lambda>s x. Some (word_of_int x)),
     r_single = (\<lambda>x. x)\<rparr>"

definition example_opts :: get_opts where
  "example_opts = \<lparr>g_max_length = 0, g_retrieve = True\<rparr>"

definition example_date :: "nat \<Rightarrow> sql_date" where
  "example_date s = \<lparr>dt_year = 2026, dt_month = 1, dt_day = 1\<rparr>"

section \<open>Bits\<close>

fun big_endian :: "string \<Rightarrow> nat" where
  "big_endian [] = 0"
| "big_endian (c # cs) = code c * 256 ^ length cs + big_endian cs"

lemma big_endian_bound: "big_endian s < 256 ^ length s"
proof (induction s)
  case (Cons c cs)
  have "code c * 256 ^ length cs \<le> 255 * 256 ^ length cs"
    using code_less_256 [of c] by (intro mult_right_mono) auto
  with Cons.IH show ?case unfolding big_endian.simps list.size add_Suc_right add_0_right power_Suc by linarith
qed simp

lemma binary2numeric_value:
  "n \<le> 8 \<Longrightarrow> n \<le> length src \<Longrightarrow>
     binary2numeric src n dst = Some (dst + of_nat (big_endian (take n src)))"
proof (induction n arbitrary: src dst)
  case 0
  then show ?case by (simp add: binary2numeric.simps)
next
  case (Suc n)
  then obtain c cs where src: "src = c # cs" by (cases src) auto
  have "push_bit (n * 8) (of_nat (code c)) = (of_nat (code c * 256 ^ n) :: u64)"
    by (simp add: push_bit_eq_mult power_mult mult.commute [of n 8])
  then show ?case
    unfolding src using Suc.IH [of cs] Suc.prems src
    by (subst binary2numeric.simps) (auto simp: min_def algebra_simps)
qed

lemma binary2numeric_bound:
  assumes "binary2numeric src n dst = Some w"
  shows "n \<le> 8"
  by (rule binary2numeric.raw_induct [where P = "\<lambda>src n dst w. n \<le> 8", OF _ assms])
    (auto split: if_splits list.splits)

text \<open>C22: \<open>binary2numeric\<close> returns exactly for at most eight bytes, with the number they are in network order;
  for more it goes round for ever, where the comment says that only the eight minor bytes are considered.\<close>
theorem binary2numeric_ends:
  assumes "n \<le> length src"
  shows "(n \<le> 8 \<longrightarrow> binary2ull src n = Some (big_endian (take n src))) \<and> (8 < n \<longrightarrow> binary2ull src n = None)"
proof -
  have "binary2ull src n = Some (big_endian (take n src))" if "n \<le> 8"
  proof -
    have "big_endian (take n src) < 256 ^ n" using big_endian_bound [of "take n src"] assms by simp
    also have "(256 :: nat) ^ n \<le> 256 ^ 8" using that by (intro power_increasing) auto
    finally have "big_endian (take n src) < 2 ^ 64" by simp
    then show ?thesis
      using that assms by (simp add: binary2ull_def binary2numeric_value unat_of_nat take_bit_nat_eq_self)
  qed
  moreover have "binary2ull src n = None" if "8 < n"
    using that binary2numeric_bound [of src n 0] by (cases "binary2numeric src n 0") (auto simp: binary2ull_def)
  ultimately show ?thesis by blast
qed

theorem binary2numeric_ends_witness:
  "binary2ull (map char_of [0 :: nat, 0, 0, 0, 0, 0, 0, 1, 2]) 8 = Some 1 \<and>
   binary2ull (map char_of [0 :: nat, 0, 0, 0, 0, 0, 0, 1, 2]) 9 = None"
  using binary2numeric_ends [of 8 "map char_of [0 :: nat, 0, 0, 0, 0, 0, 0, 1, 2]"]
    binary2numeric_ends [of 9 "map char_of [0 :: nat, 0, 0, 0, 0, 0, 0, 1, 2]"]
  by simp

section \<open>Texts of integers\<close>

lemma dec_not_Nil [simp]: "dec n \<noteq> []"
  by (subst dec.simps) simp

lemma digits_dec: "c \<in> set (dec n) \<Longrightarrow> isdigit_c c"
  by (induction n rule: dec.induct) (metis Un_iff dec.simps empty_iff isdigit_dec_char list.set(1) list.set(2) set_ConsD set_append)

lemma digits_value_dec [simp]: "digits_value 0 (dec n) = n"
proof (induction n rule: dec.induct)
  case (1 n)
  then show ?case
    using digits_value_append [of "dec (n div 10)" 0 "[dec_char n]"] digits_dec
    by (subst dec.simps) auto
qed

lemma digit_char:
  assumes "isdigit_c c"
  shows "\<not> isspace_c c" "c \<noteq> CHR ''-''" "c \<noteq> CHR ''+''" "c \<noteq> CHR 0x00"
proof -
  have "48 \<le> code c" using assms by (simp add: isdigit_c_def)
  moreover have "code (CHR ''-'') = 45" "code (CHR ''+'') = 43" "code (CHR 0x00) = 0" by (simp_all add: code_def)
  ultimately show "\<not> isspace_c c" "c \<noteq> CHR ''-''" "c \<noteq> CHR ''+''" "c \<noteq> CHR 0x00"
    by (auto simp: isspace_c_def)
qed

lemma dec_Cons: obtains c cs where "dec n = c # cs" "isdigit_c c"
  by (metis dec_not_Nil digits_dec list.exhaust list.set_intros(1))

lemma sign_digits_int_text: "sign_digits (int_text v) = (v < 0, nat \<bar>v\<bar>)"
proof (cases "v < 0")
  case True
  have "\<not> isspace_c (CHR ''-'')" by (simp add: isspace_c_def code_def)
  with True show ?thesis by (simp add: sign_digits_def int_text_def cget_def)
next
  case False
  obtain c cs where d: "dec (nat v) = c # cs" "isdigit_c c" by (rule dec_Cons)
  then have "digits_value 0 (c # cs) = nat v" by (metis digits_value_dec)
  then show ?thesis
    using False d digit_char [of c] by (simp add: sign_digits_def int_text_def cget_def del: digits_value.simps)
qed

lemma strtoll10_int_text: "strtoll10 (int_text v) = max (min v (2 ^ 63 - 1)) (- (2 ^ 63))"
  by (simp add: strtoll10_def sign_digits_int_text)

lemma strtoull10_int_text:
  assumes "- (2 ^ 63) \<le> v" "v < 2 ^ 64"
  shows "strtoull10 (int_text v) = word_of_int v"
proof -
  have "nat \<bar>v\<bar> < 2 ^ 64" using assms by (simp add: nat_less_iff)
  moreover have "(of_nat (nat \<bar>v\<bar>) :: u64) = word_of_int \<bar>v\<bar>" by simp
  ultimately show ?thesis
    by (simp add: strtoull10_def sign_digits_int_text)
qed

lemma int_text_no_dash: "0 < i \<Longrightarrow> cget (int_text v) i \<noteq> CHR ''-''"
proof -
  assume i: "0 < i"
  have digits: "cget (dec n) j \<noteq> CHR ''-''" for n j
  proof (cases "j < length (dec n)")
    case True
    then have "isdigit_c (dec n ! j)" using digits_dec nth_mem by blast
    with True show ?thesis using digit_char(2) by (simp add: cget_def)
  qed (simp add: cget_def)
  from i obtain j where j: "i = Suc j" by (cases i) auto
  have "cget (c # cs) (Suc j) = cget cs j" for c cs by (simp add: cget_def)
  then show ?thesis using digits by (simp add: int_text_def j)
qed

section \<open>Integer targets\<close>

text \<open>The value \<open>v\<close> in a row of a query, and the ranges and sizes of the C types that are tested.\<close>

definition text_column :: "int \<Rightarrow> 'f column" where
  "text_column v = \<lparr>k_value = Some (int_text v), k_length = length (int_text v), k_bind = None\<rparr>"

definition checked_range :: "ctype \<Rightarrow> (int \<times> int \<times> int) option" where
  "checked_range t =
     (case t of
        C_TINYINT \<Rightarrow> Some (-128, 127, 1) | C_STINYINT \<Rightarrow> Some (-128, 127, 1) | C_UTINYINT \<Rightarrow> Some (0, 255, 1)
      | C_SHORT \<Rightarrow> Some (-32768, 32767, 2) | C_SSHORT \<Rightarrow> Some (-32768, 32767, 2) | C_USHORT \<Rightarrow> Some (0, 65535, 2)
      | C_LONG \<Rightarrow> Some (-2147483648, 2147483647, 4) | C_SLONG \<Rightarrow> Some (-2147483648, 2147483647, 4)
      | C_ULONG \<Rightarrow> Some (0, 4294967295, 4) | _ \<Rightarrow> None)"

lemma get_int64_text: "get_int64 R (text_column v) = Some (max (min v (2 ^ 63 - 1)) (- (2 ^ 63)))"
  by (simp add: get_int64_def text_column_def strtoll10_int_text)

lemma get_uint64_text:
  assumes "- (2 ^ 63) \<le> v" "v < 2 ^ 64"
  shows "get_uint64 R (text_column v) = Some (nat (v mod 2 ^ 64))"
proof -
  have "unat (word_of_int v :: u64) = nat (v mod 2 ^ 64)"
    by (simp flip: nat_uint_eq add: uint_word_of_int_eq take_bit_eq_mod)
  then show ?thesis by (simp add: get_uint64_def text_column_def strtoull10_int_text [OF assms])
qed

lemma not_null_text [simp]: "\<not> is_null (text_column v)"
  by (simp add: is_null_def text_column_def)

lemma integer_conversion_supported:
  assumes "integer_bits (f_type f) = Some b" "t \<notin> date_ctypes"
  shows "odbc_supported_conversion (fst (get_sql_data_type c f)) t"
  using assms by (cases rule: integer_type_cases) (auto simp: get_sql_data_type_def odbc_supported_conversion_def)

definition answer :: "getdata \<Rightarrow> field \<Rightarrow> 'f result" where
  "answer gd f = \<lparr>q_rc = SQL_SUCCESS, q_gd = gd, q_target = Whole, q_ind = None, q_state = None, q_type = f_type f\<rparr>"

text \<open>The dispatch for an integer column and a target that is no string, date or time.\<close>

lemma get_data_integer:
  assumes "integer_bits (f_type f) = Some b" "t \<notin> date_ctypes \<union> {C_DEFAULT, C_ARD_TYPE}" "\<not> is_null k"
  shows "sql_get_data R ld c opts gd f k t ar Whole cb has_ind =
    map_option last_test (convert_value R ld c opts f k t cb
      (case ar of None \<Rightarrow> (38, 0) | Some a \<Rightarrow> (word_of_int (a_precision a), word_of_int (a_scale a))) None (answer gd f))"
proof -
  have "f_type f \<noteq> T_BIT" using assms(1) by (auto simp: integer_bits_def)
  moreover have "odbc_supported_conversion (fst (get_sql_data_type c f)) t"
    using integer_conversion_supported [OF assms(1)] assms(2) by simp
  ultimately show ?thesis using assms(2,3) by (simp add: sql_get_data_def answer_def)
qed

lemmas get_data_text = get_data_integer [OF _ _ not_null_text]

lemma checked_answer:
  "gd_source gd = None \<Longrightarrow> last_test (checked lo hi n (answer gd f) v) =
     (if lo \<le> v \<and> v \<le> hi
      then \<lparr>q_rc = SQL_SUCCESS, q_gd = gd, q_target = Integer v, q_ind = Some n, q_state = None, q_type = f_type f\<rparr>
      else \<lparr>q_rc = SQL_ERROR, q_gd = gd, q_target = Whole, q_ind = None, q_state = Some ''22003'', q_type = f_type f\<rparr>)"
  by (auto simp: checked_def last_test_def put_value_def answer_def fail_def)

lemma long_target_text:
  "long_target R (text_column v) None (answer gd f) =
     map_option (checked (- (2 ^ 31)) (2 ^ 31 - 1) 4 (answer gd f)) (get_int64 R (text_column v))"
  using int_text_no_dash [of 4 v] by (simp add: long_target_def answer_def text_column_def is_date_text_def)

text \<open>C18: an integer column read into an integer type of at most 32 bits comes through exactly, with the size of
  the type, or is refused with 22003 when it is out of the range of the type; this holds for every number of
  64 bits, signed or unsigned, although the texts are read by functions that saturate and wrap around.\<close>
theorem integer_target_exact:
  fixes R :: "'f reals"
  assumes "checked_range t = Some (lo, hi, n)" "integer_bits (f_type f) = Some b"
    and "- (2 ^ 63) \<le> v" "v < 2 ^ 64" "gd_source gd = None"
  shows "sql_get_data R ld c opts gd f (text_column v) t ar Whole cb has_ind =
    Some (if lo \<le> v \<and> v \<le> hi
          then \<lparr>q_rc = SQL_SUCCESS, q_gd = gd, q_target = Integer v, q_ind = Some n, q_state = None, q_type = f_type f\<rparr>
          else \<lparr>q_rc = SQL_ERROR, q_gd = gd, q_target = Whole, q_ind = None, q_state = Some ''22003'',
                 q_type = f_type f\<rparr>)"
proof -
  let ?w = "max (min v (2 ^ 63 - 1)) (- (2 ^ 63))"
  have t: "t \<notin> date_ctypes \<union> {C_DEFAULT, C_ARD_TYPE}"
    using assms(1) by (auto simp: checked_range_def date_ctypes_def)
  have s: "get_int64 R (text_column v) = Some ?w" by (rule get_int64_text)
  have u: "get_uint64 R (text_column v) = Some (nat (v mod 2 ^ 64))" using assms(3,4) by (rule get_uint64_text)
  have wrap: "v mod 2 ^ 64 = (if v < 0 then v + 2 ^ 64 else v)"
  proof (cases "v < 0")
    case True
    then have "v mod 2 ^ 64 = (v + 2 ^ 64) mod 2 ^ 64" by simp
    also have "\<dots> = v + 2 ^ 64" using True assms(3) by (intro mod_pos_pos_trivial) auto
    finally show ?thesis using True by simp
  qed (use assms(4) in simp)
  show ?thesis
    unfolding get_data_text [OF assms(2) t] using assms(1,3,4,5) s u wrap
    by (cases t) (auto simp: checked_range_def convert_value_def integer_target_def signed_value_def
        unsigned_value_def long_target_text checked_answer)
qed

theorem integer_target_exact_witness:
  "\<exists>r. sql_get_data example_reals example_date example_conn example_opts new_getdata (example_field T_LONG 0x8000 11 63) (text_column 300) C_STINYINT None Whole 0 True = Some r \<and>
    q_state r = Some ''22003''"
  using integer_target_exact [of C_STINYINT "-128" 127 1 "example_field T_LONG 0x8000 11 63" 32 300 new_getdata example_reals example_date example_conn example_opts None 0 True]
  by (simp add: checked_range_def integer_bits_def new_getdata_def example_field_def)

text \<open>A target of 64 bits is never refused. What it gets is the value cut to the largest signed number for
  \<open>SQL_C_SBIGINT\<close>, and the value modulo two to the 64th for \<open>SQL_C_UBIGINT\<close>, so that a negative number becomes
  a large positive one, with SQL_SUCCESS in both cases.\<close>
theorem big_integer_unchecked:
  fixes R :: "'f reals"
  assumes "integer_bits (f_type f) = Some b" "- (2 ^ 63) \<le> v" "v < 2 ^ 64" "gd_source gd = None"
    and "t = C_SBIGINT \<and> w = min v (2 ^ 63 - 1) \<or> t = C_UBIGINT \<and> w = v mod 2 ^ 64"
  shows "sql_get_data R ld c opts gd f (text_column v) t ar Whole cb has_ind =
    Some \<lparr>q_rc = SQL_SUCCESS, q_gd = gd, q_target = Integer w, q_ind = Some 8, q_state = None, q_type = f_type f\<rparr>"
proof -
  have t: "t \<notin> date_ctypes \<union> {C_DEFAULT, C_ARD_TYPE}" using assms(5) by (auto simp: date_ctypes_def)
  show ?thesis
    unfolding get_data_text [OF assms(1) t]
    using assms get_int64_text [of R v] get_uint64_text [OF assms(2,3), of R]
    by (auto simp: convert_value_def integer_target_def signed_value_def unsigned_value_def answer_def last_test_def
        put_value_def)
qed

theorem big_integer_unchecked_witness:
  "\<exists>r. sql_get_data example_reals example_date example_conn example_opts new_getdata (example_field T_LONG 0x8000 11 63) (text_column (-1)) C_UBIGINT None Whole 0 True = Some r \<and>
    q_rc r = SQL_SUCCESS \<and> q_target r = Integer 18446744073709551615"
  using big_integer_unchecked [of "example_field T_LONG 0x8000 11 63" 32 "-1" new_getdata C_UBIGINT
      18446744073709551615 example_reals example_date example_conn example_opts None 0 True]
  by (simp add: integer_bits_def new_getdata_def example_field_def)

section \<open>Prepared statements\<close>

text \<open>The same value in the buffer of a column of a prepared statement: its bytes, the least significant
  first, in as many as \<open>allocate_buffer_for_field\<close> gives the type.\<close>

fun le_bytes :: "nat \<Rightarrow> nat \<Rightarrow> string" where
  "le_bytes 0 n = []"
| "le_bytes (Suc w) n = char_of (n mod 256) # le_bytes w (n div 256)"

lemma length_le_bytes [simp]: "length (le_bytes w n) = w"
  by (induction w arbitrary: n) simp_all

lemma little_endian_le_bytes: "little_endian (le_bytes w n) = n mod 256 ^ w"
proof (induction w arbitrary: n)
  case (Suc w)
  have "code (char_of n) = n mod 256" by (simp add: code_def)
  with Suc show ?case by (simp add: mod_mult2_eq)
qed simp

definition storage :: "mysql_type \<Rightarrow> nat" where
  "storage ty = (case ty of T_TINY \<Rightarrow> 1 | T_SHORT \<Rightarrow> 2 | T_LONGLONG \<Rightarrow> 8 | _ \<Rightarrow> 4)"

definition bound_column :: "mysql_type \<Rightarrow> bool \<Rightarrow> int \<Rightarrow> 'f column" where
  "bound_column ty uns v =
     (let s = le_bytes (storage ty) (nat (v mod 256 ^ storage ty)) in
      \<lparr>k_value = Some s, k_length = storage ty,
       k_bind = Some \<lparr>b_type = ty, b_buffer = Raw s, b_buffer_length = storage ty, b_length = storage ty,
         b_is_null = False, b_unsigned = uns\<rparr>\<rparr>)"

lemma load_signed:
  assumes "0 < n" "- (2 ^ (8 * n - 1)) \<le> v" "v < 2 ^ (8 * n - 1)" "u mod 256 ^ n = v mod 256 ^ n"
  shows "load_int True n (Raw (le_bytes n (nat (u mod 256 ^ n)))) = Some (word_of_int v)"
proof -
  have p: "(256 :: int) ^ n = 2 ^ (8 * n)" by (simp add: power_mult)
  have "\<not> 8 * n \<le> 8 * n - 1" using assms(1) by linarith
  then have "signed_take_bit (8 * n - 1) (take_bit (8 * n) v) = signed_take_bit (8 * n - 1) v"
    by (simp add: signed_take_bit_take_bit)
  also have "\<dots> = v" using assms(2,3) by (simp add: signed_take_bit_int_eq_self)
  finally have "signed_take_bit (8 * n - 1) (v mod 256 ^ n) = v" by (simp add: take_bit_eq_mod p)
  then show ?thesis using assms(4) by (simp add: load_int_def little_endian_le_bytes nat_mod_as_int)
qed

lemma load_unsigned:
  assumes "0 \<le> v" "v < 256 ^ n"
  shows "load_int False n (Raw (le_bytes n (nat (v mod 256 ^ n)))) = Some (word_of_int v)"
  using assms by (simp add: load_int_def little_endian_le_bytes nat_mod_as_int)

text \<open>What arrives: an unsigned \<open>TINYINT\<close> is read as a signed character.\<close>

definition arriving :: "mysql_type \<Rightarrow> bool \<Rightarrow> int \<Rightarrow> int" where
  "arriving ty uns v = (if ty = T_TINY \<and> uns \<and> 128 \<le> v then v - 256 else v)"

lemma bound_int64:
  assumes "integer_bits ty = Some b" "v \<in> integer_values b uns" "k_bind (bound_column ty uns v) = Some bd"
  shows "ssps_get_int64 R sx bd len = Some (word_of_int (arriving ty uns v))"
proof -
  have "ssps_get_int64 R sx bd len = stored_int bd"
    using assms(1,3) by (cases rule: integer_type_cases)
      (auto simp: ssps_get_int64_def bound_column_def Let_def text_types_def integer_types_def)
  also have "\<dots> = Some (word_of_int (arriving ty uns v))"
    using assms(1)
  proof (cases rule: integer_type_cases)
    case 1
    have "(v - 256) mod 256 = v mod 256" using mod_diff_right_eq [of v 256 256] by simp
    then show ?thesis
      using 1 assms(2,3) load_signed [of 1 v v] load_signed [of 1 "v - 256" v]
      by (auto simp: stored_int_def bound_column_def storage_def Let_def arriving_def integer_values_def split: if_splits)
  next
    case 2
    then show ?thesis using assms(2,3) load_signed [of 2 v v] load_unsigned [of v 2]
      by (auto simp: stored_int_def bound_column_def storage_def Let_def arriving_def integer_values_def split: if_splits)
  next
    case 3
    then show ?thesis using assms(2,3) load_signed [of 4 v v] load_unsigned [of v 4]
      by (auto simp: stored_int_def bound_column_def storage_def Let_def arriving_def integer_values_def split: if_splits)
  next
    case 4
    then show ?thesis using assms(2,3) load_signed [of 4 v v] load_unsigned [of v 4]
      by (auto simp: stored_int_def bound_column_def storage_def Let_def arriving_def integer_values_def split: if_splits)
  next
    case 5
    then show ?thesis using assms(2,3) load_signed [of 8 v v] load_unsigned [of v 8]
      by (auto simp: stored_int_def bound_column_def storage_def Let_def arriving_def integer_values_def split: if_splits)
  qed
  finally show ?thesis .
qed

lemma get_int64_bound:
  fixes R :: "'f reals"
  assumes "integer_bits ty = Some b" "v \<in> integer_values b uns"
  shows "get_int64 R (bound_column ty uns v) = Some (sint (word_of_int (arriving ty uns v) :: u64))"
    and "get_uint64 R (bound_column ty uns v) = Some (nat (arriving ty uns v mod 2 ^ 64))"
proof -
  obtain bd where bd: "k_bind (bound_column ty uns v :: 'f column) = Some bd" by (simp add: bound_column_def Let_def)
  note int64 = bound_int64 [OF assms bd]
  show "get_int64 R (bound_column ty uns v) = Some (sint (word_of_int (arriving ty uns v) :: u64))"
    using bd int64 by (simp add: get_int64_def)
  show "get_uint64 R (bound_column ty uns v) = Some (nat (arriving ty uns v mod 2 ^ 64))"
    using bd int64 by (simp add: get_uint64_def flip: nat_uint_eq) (simp add: uint_word_of_int_eq take_bit_eq_mod)
qed

lemma not_null_bound [simp]: "\<not> is_null (bound_column ty uns v)"
  by (simp add: is_null_def bound_column_def Let_def)

lemma long_target_bound:
  "long_target R (bound_column ty uns v) None (answer gd f) =
     map_option (checked (- (2 ^ 31)) (2 ^ 31 - 1) 4 (answer gd f)) (get_int64 R (bound_column ty uns v))"
proof -
  have "storage ty < 10" by (simp add: storage_def split: mysql_type.split)
  then show ?thesis by (simp add: long_target_def answer_def bound_column_def Let_def is_date_text_def)
qed

text \<open>The value that a checked target looks at, by its lower bound.\<close>

lemma checked_targets:
  assumes "checked_range t = Some (lo, hi, n)" "integer_bits (f_type f) = Some b" "\<not> is_null k" "gd_source gd = None"
    and "get_int64 R k = Some s" "get_uint64 R k = Some u"
    and "long_target R k None (answer gd f) =
      map_option (checked (- (2 ^ 31)) (2 ^ 31 - 1) 4 (answer gd f)) (get_int64 R k)"
  shows "sql_get_data R ld c opts gd f k t ar Whole cb has_ind =
    Some (let w = (if lo < 0 then s else int u) in
          if lo \<le> w \<and> w \<le> hi
          then \<lparr>q_rc = SQL_SUCCESS, q_gd = gd, q_target = Integer w, q_ind = Some n, q_state = None, q_type = f_type f\<rparr>
          else \<lparr>q_rc = SQL_ERROR, q_gd = gd, q_target = Whole, q_ind = None, q_state = Some ''22003'',
                 q_type = f_type f\<rparr>)"
proof -
  have t: "t \<notin> date_ctypes \<union> {C_DEFAULT, C_ARD_TYPE}"
    using assms(1) by (auto simp: checked_range_def date_ctypes_def)
  show ?thesis
    unfolding get_data_integer [OF assms(2) t assms(3)] using assms(1,4,5,6,7)
    by (cases t) (simp_all add: checked_range_def convert_value_def integer_target_def signed_value_def
        unsigned_value_def checked_answer)
qed

lemma sint_word: "- (2 ^ 63) \<le> w \<Longrightarrow> w < 2 ^ 63 \<Longrightarrow> sint (word_of_int w :: u64) = w"
  by (simp add: signed_of_int signed_take_bit_int_eq_self)

lemma wrapped: "- (2 ^ 63) \<le> w \<Longrightarrow> w < 2 ^ 64 \<Longrightarrow> w mod 2 ^ 64 = (if w < 0 then w + 2 ^ 64 else (w :: int))"
proof (cases "w < 0")
  case True
  assume "- (2 ^ 63) \<le> w"
  have "w mod 2 ^ 64 = (w + 2 ^ 64) mod 2 ^ 64" by simp
  also have "\<dots> = w + 2 ^ 64" using True \<open>- (2 ^ 63) \<le> w\<close> by (intro mod_pos_pos_trivial) auto
  finally show ?thesis using True by simp
qed simp

text \<open>C19: an integer that a server-side prepared statement returns in its buffer is converted exactly as the text
  of the same integer in a row of a query, for every integer type of the server and every checked C type,
  unless the column is an unsigned \<open>TINYINT\<close> or \<open>BIGINT\<close> and the value in the upper half of its range.\<close>
theorem prepared_like_text:
  fixes R :: "'f reals"
  assumes "checked_range t = Some (lo, hi, n)" "integer_bits (f_type f) = Some b"
    and "v \<in> integer_values b uns" "gd_source gd = None"
    and "\<not> (f_type f \<in> {T_TINY, T_LONGLONG} \<and> 2 ^ (b - 1) \<le> v)"
  shows "sql_get_data R ld c opts gd f (bound_column (f_type f) uns v) t ar Whole cb has_ind =
    sql_get_data R ld c opts gd f (text_column v) t ar Whole cb has_ind"
proof -
  have range: "- (2 ^ 63) \<le> v \<and> v < 2 ^ 63" and arr: "arriving (f_type f) uns v = v"
    using assms(2,3,5) by (auto elim!: integer_type_cases simp: integer_values_def arriving_def split: if_splits)
  then have "- (2 ^ 63) \<le> v" "v < 2 ^ 63" "v < 2 ^ 64" by simp_all
  note bound = get_int64_bound [OF assms(2,3), of R, unfolded arr sint_word [OF this(1,2)]]
    and row = get_int64_text [of R v] get_uint64_text [OF this(1,3), of R]
  have "max (min v (2 ^ 63 - 1)) (- (2 ^ 63)) = v" using range by simp
  note row' = row [unfolded this]
  show ?thesis
    unfolding checked_targets [OF assms(1,2) not_null_bound assms(4) bound long_target_bound]
      checked_targets [OF assms(1,2) not_null_text assms(4) row' long_target_text] ..
qed

text \<open>C20: in the upper half of an unsigned \<open>TINYINT\<close> or \<open>BIGINT\<close>, a prepared statement gives a signed C type the
  value less the number of values of the type: a negative number, and SQL_SUCCESS when it is in the range of
  the C type. The same value in a row of a query is stored or refused as it is.\<close>
theorem prepared_unsigned_wraps:
  fixes R :: "'f reals"
  assumes "checked_range t = Some (lo, hi, n)" "lo < 0"
    and "f_type f \<in> {T_TINY, T_LONGLONG}" "integer_bits (f_type f) = Some b"
    and "2 ^ (b - 1) \<le> v" "v < 2 ^ b" "gd_source gd = None"
  shows "sql_get_data R ld c opts gd f (bound_column (f_type f) True v) t ar Whole cb has_ind =
    Some (if lo \<le> v - 2 ^ b
          then \<lparr>q_rc = SQL_SUCCESS, q_gd = gd, q_target = Integer (v - 2 ^ b), q_ind = Some n, q_state = None,
                 q_type = f_type f\<rparr>
          else \<lparr>q_rc = SQL_ERROR, q_gd = gd, q_target = Whole, q_ind = None, q_state = Some ''22003'',
                 q_type = f_type f\<rparr>)"
proof -
  have v: "v \<in> integer_values b True" using assms(5,6) by (auto simp: integer_values_def intro: order_trans [of 0 "2 ^ (b - 1)"])
  have w: "- (2 ^ 63) \<le> v - 2 ^ b" "v - 2 ^ b < 2 ^ 63" "v - 2 ^ b \<le> hi"
    using assms(1,3,4,5,6) by (auto elim!: integer_type_cases simp: checked_range_def split: ctype.splits)
  have "(word_of_int (arriving (f_type f) True v) :: u64) = word_of_int (v - 2 ^ b)"
    using assms(3,4,5) by (elim integer_type_cases) (auto simp: arriving_def word_of_int_eq_iff take_bit_eq_mod)
  then have s: "sint (word_of_int (arriving (f_type f) True v) :: u64) = v - 2 ^ b"
    using sint_word [OF w(1,2)] by simp
  show ?thesis
    unfolding checked_targets [OF assms(1,4) not_null_bound assms(7) get_int64_bound [OF assms(4) v] long_target_bound] s
    using assms(2) w(3) by (simp add: Let_def)
qed

theorem prepared_like_text_witness:
  "sql_get_data example_reals example_date example_conn example_opts new_getdata (example_field T_INT24 0x8020 8 63) (bound_column T_INT24 True 16777215) C_SLONG None Whole 0 True =
    sql_get_data example_reals example_date example_conn example_opts new_getdata (example_field T_INT24 0x8020 8 63) (text_column 16777215) C_SLONG None Whole 0 True"
  using prepared_like_text [of C_SLONG "-2147483648" 2147483647 4 "example_field T_INT24 0x8020 8 63" 24 16777215 True new_getdata example_reals example_date example_conn example_opts
      None 0 True]
  by (simp add: checked_range_def integer_bits_def integer_values_def new_getdata_def example_field_def)

theorem prepared_unsigned_wraps_witness:
  "\<exists>r. sql_get_data example_reals example_date example_conn example_opts new_getdata (example_field T_LONGLONG 0x8020 20 63)
      (bound_column T_LONGLONG True 18446744073709551615) C_LONG None Whole 0 True = Some r \<and>
    q_rc r = SQL_SUCCESS \<and> q_target r = Integer (-1)"
  using prepared_unsigned_wraps [of C_LONG "-2147483648" 2147483647 4 "example_field T_LONGLONG 0x8020 20 63" 64 18446744073709551615
      new_getdata example_reals example_date example_conn example_opts None 0 True]
  by (simp add: checked_range_def integer_bits_def new_getdata_def example_field_def)

section \<open>Bit columns\<close>

text \<open>C21: a bit column that is read into an unsigned type of at most 32 bits gives 0, whatever its bits are: the
  number goes to the variable of the signed types only. A signed type gets the number, or is refused.\<close>
theorem bit_column_integers:
  fixes R :: "'f reals"
  assumes "checked_range t = Some (lo, hi, n)" "f_type f = T_BIT" "gd_source gd = None"
    and "\<not> is_null k" "k_value k = Some s" "k_length k = length s" "length s \<le> 8"
    and "w = (if lo = 0 then 0 else sint (of_nat (big_endian s) :: u64))"
  shows "sql_get_data R ld c opts gd f k t ar Whole cb has_ind =
    Some (if lo \<le> w \<and> w \<le> hi
          then \<lparr>q_rc = SQL_SUCCESS, q_gd = gd, q_target = Integer w, q_ind = Some n, q_state = None, q_type = T_BIT\<rparr>
          else \<lparr>q_rc = SQL_ERROR, q_gd = gd, q_target = Whole, q_ind = None, q_state = Some ''22003'', q_type = T_BIT\<rparr>)"
proof -
  let ?v = "sint (of_nat (big_endian s) :: u64)"
  have bits: "binary2ll s (length s) = Some ?v"
    using binary2numeric_value [of "length s" s 0] assms(7) by (simp add: binary2ll_def)
  have t: "t \<notin> {C_DEFAULT, C_ARD_TYPE, C_BIT, C_CHAR, C_WCHAR, C_UBIGINT}"
    "driver_supported_conversion T_BIT t"
    using assms(1) by (auto simp: checked_range_def driver_supported_conversion_def split: ctype.splits)
  have "sql_get_data R ld c opts gd f k t ar Whole cb has_ind =
      map_option last_test (convert_value R ld c opts f k t cb
        (case ar of None \<Rightarrow> (38, 0) | Some a \<Rightarrow> (word_of_int (a_precision a), word_of_int (a_scale a)))
        (Some ?v) (answer gd f))"
    using t assms(2,4,5,6) by (simp add: sql_get_data_def answer_def bit_column_def bits)
  then show ?thesis
    using assms(1,2,3,8)
    by (cases t) (simp_all add: checked_range_def convert_value_def integer_target_def signed_value_def
        unsigned_value_def long_target_def checked_answer, simp_all add: answer_def)
qed

theorem bit_column_integers_witness:
  "\<exists>r. sql_get_data example_reals example_date example_conn example_opts new_getdata (example_field T_BIT 0x20 8 63)
      \<lparr>k_value = Some ''5'', k_length = 1, k_bind = None\<rparr> C_UTINYINT None Whole 0 True = Some r \<and>
    q_rc r = SQL_SUCCESS \<and> q_target r = Integer 0"
  using bit_column_integers [of C_UTINYINT 0 255 1 "example_field T_BIT 0x20 8 63" new_getdata
      "\<lparr>k_value = Some ''5'', k_length = 1, k_bind = None\<rparr>" "''5''" 0 example_reals example_date example_conn example_opts
      None 0 True]
  by (simp add: checked_range_def new_getdata_def example_field_def is_null_def)
end
