(* ===== verification/ColValue_Get.thy ===== *)
theory ColValue_Get
  imports ColValue_Props GetData_Props
begin

unbundle bit_operations_syntax

text \<open>
  \<open>SQLGetData\<close> as a whole: the position of the statement, times, padded columns and bookmarks.
\<close>

section \<open>Times\<close>

lemma two_digits_value: "n < 100 \<Longrightarrow> digits_value 0 [dec_char (n div 10), dec_char n] = n"
  using digits_value_fixed [of 0 2 n] by (simp only: fixed_2 power2_eq_square) simp

text \<open>The hours of a time have two digits or three.\<close>

lemma hours_dec:
  assumes "h < 1000"
  shows "length (zero_padded 2 h) \<le> 3" "\<forall>c \<in> set (zero_padded 2 h). isdigit_c c"
    "digits_value 0 (zero_padded 2 h) = h" "CHR 0x00 \<notin> set (zero_padded 2 h)"
proof -
  have "length (dec h) \<le> 3" using assms by (simp add: length_dec_le)
  then show "length (zero_padded 2 h) \<le> 3" by (simp add: zero_padded_def)
  have z: "isdigit_c (CHR ''0'')" by (simp add: isdigit_c_def code_def)
  then show digits: "\<forall>c \<in> set (zero_padded 2 h). isdigit_c c"
    using digits_dec by (auto simp: zero_padded_def)
  have "\<not> isdigit_c (CHR 0x00)" by (simp add: isdigit_c_def code_def)
  with digits show "CHR 0x00 \<notin> set (zero_padded 2 h)" by blast
  have "digits_value 0 (replicate m (CHR ''0'')) = 0" for m
    using z by (induction m) (simp_all add: code_def)
  then show "digits_value 0 (zero_padded 2 h) = h"
    using z by (simp add: zero_padded_def digits_value_append)
qed

lemma time_tokens_digits:
  "\<forall>c \<in> set ds. isdigit_c c \<Longrightarrow> length ds \<le> n \<Longrightarrow>
     time_tokens n num (ds @ rest) cur = time_tokens (n - length ds) num rest (cur @ ds)"
proof (induction ds arbitrary: n cur)
  case (Cons d ds)
  then obtain m where "n = Suc m" by (cases n) auto
  with Cons show ?case by simp
qed simp

lemma negative_tokens:
  assumes "h < 1000" "m < 100"
  shows "take 3 (time_tokens 23 0 (''-'' @ time_fields h m s) []) =
    [[], zero_padded 2 h, [dec_char (m div 10), dec_char m]]"
proof -
  note H = hours_dec [OF assms(1)]
  have minus: "\<not> isdigit_c (CHR ''-'')" "\<not> isdigit_c (CHR '':'')" by (simp_all add: isdigit_c_def code_def)
  have "time_tokens 23 0 (''-'' @ time_fields h m s) [] =
      [] # time_tokens 22 1 (zero_padded 2 h @ '':'' @ zero_padded 2 m @ '':'' @ zero_padded 2 s) []"
    using minus by (simp add: time_fields_def time_tokens_step)
  also have "time_tokens 22 1 (zero_padded 2 h @ '':'' @ zero_padded 2 m @ '':'' @ zero_padded 2 s) [] =
      time_tokens (22 - length (zero_padded 2 h)) 1 ('':'' @ zero_padded 2 m @ '':'' @ zero_padded 2 s) (zero_padded 2 h)"
    using H(1,2) by (subst time_tokens_digits) auto
  also have "\<dots> = zero_padded 2 h #
      time_tokens (21 - length (zero_padded 2 h)) 2 (zero_padded 2 m @ '':'' @ zero_padded 2 s) []"
    using H(1) minus by (simp add: time_tokens_step numeral_2_eq_2)
  also have "time_tokens (21 - length (zero_padded 2 h)) 2 (zero_padded 2 m @ '':'' @ zero_padded 2 s) [] =
      [[dec_char (m div 10), dec_char m]]"
    using H(1) minus assms(2) by (simp add: padded_2 time_tokens_step)
  finally show ?thesis by simp
qed

lemma find_sub_None: "x \<notin> set s \<Longrightarrow> find_sub [x] s = None"
  by (induction s) auto

text \<open>The value of a \<open>TIME\<close> column in a row of a query.\<close>

definition time_column :: "string \<Rightarrow> 'f column" where
  "time_column s = \<lparr>k_value = Some s, k_length = length s, k_bind = None\<rparr>"

text \<open>C23: a negative time is read with its parts shifted by one place: the sign ends an empty first part, so that the
  hours of the server become the minutes, the minutes become the seconds and the seconds are lost; the
  call returns SQL_SUCCESS.\<close>
theorem negative_time_shifted:
  fixes R :: "'f reals"
  assumes "f_type f = T_TIME" "h < 1000" "m < 60" "s < 60" "gd_source gd = None"
  shows "sql_get_data R ld cn opts gd f (time_column (''-'' @ time_fields h m s)) C_TYPE_TIME ar Whole cb has_ind =
    Some \<lparr>q_rc = SQL_SUCCESS, q_gd = gd,
          q_target = Time \<lparr>tm_hour = h div 60, tm_minute = h mod 60, tm_second = m\<rparr>,
          q_ind = Some 6, q_state = None, q_type = T_TIME\<rparr>"
proof -
  let ?t = "''-'' @ time_fields h m s"
  note H = hours_dec [OF assms(2)]
  have chars: "isdigit_c x \<or> x = CHR ''-'' \<or> x = CHR '':''" if "x \<in> set ?t" for x
    using that H(2) assms(3,4) by (auto simp: time_fields_def padded_2)
  have "\<not> isdigit_c (CHR 0x00)" "\<not> isdigit_c (CHR ''.'')" by (simp_all add: isdigit_c_def code_def)
  then have no_nul: "CHR 0x00 \<notin> set ?t" and no_point: "CHR ''.'' \<notin> set ?t" using chars by blast+
  then have c: "cstr ?t = ?t" unfolding cstr_def by (intro takeWhile_eq_all_conv [THEN iffD2]) blast
  have "take 3 (time_tokens 23 0 ?t []) = [[], zero_padded 2 h, [dec_char (m div 10), dec_char m]]"
    using assms(2,3) by (intro negative_tokens) auto
  then have "\<exists>rest. time_tokens 23 0 ?t [] = [[], zero_padded 2 h, [dec_char (m div 10), dec_char m]] @ rest"
    by (metis append_take_drop_id)
  then have "token (time_tokens 23 0 ?t []) 0 = Some 0" "token (time_tokens 23 0 ?t []) 1 = Some h"
    "token (time_tokens 23 0 ?t []) 2 = Some m"
    using H(3) two_digits_value [of m] assms(2,3) by (auto simp: token_def atoi_def INT_MAX_def simp del: digits_value.simps(2))
  then have st: "str_to_time_st ?t = Some \<lparr>tm_hour = h div 60, tm_minute = h mod 60, tm_second = m\<rparr>"
    using assms(2,3) by (auto simp: str_to_time_st_def Let_def normal_time_def int_add_def INT_MAX_def)
  have "h div 60 \<le> 23" using assms(2) by simp
  moreover have "get_fractional_part None ?t (-3) = (None, 0)"
  proof -
    have "find_sub ''.'' ?t = None" using no_point by (rule find_sub_None)
    then show ?thesis by (simp add: get_fractional_part_def Let_def)
  qed
  ultimately have "time_target R cn f (time_column ?t) (answer gd f) =
      Some (Break (put_value (Time \<lparr>tm_hour = h div 60, tm_minute = h mod 60, tm_second = m\<rparr>) 6 (answer gd f)))"
    using assms(1) st c by (simp add: time_target_def text_of_def get_string_def time_column_def)
  moreover have "sql_get_data R ld cn opts gd f (time_column ?t) C_TYPE_TIME ar Whole cb has_ind =
      map_option last_test (time_target R cn f (time_column ?t) (answer gd f))"
    using assms(1)
    by (simp add: sql_get_data_def answer_def is_null_def time_column_def convert_value_def get_sql_data_type_def
        odbc_supported_conversion_def)
  ultimately show ?thesis using assms(1,5) by (simp add: last_test_def put_value_def answer_def)
qed

theorem negative_time_shifted_witness:
  "\<exists>r. sql_get_data example_reals example_date example_conn example_opts new_getdata (example_field T_TIME 0 10 63) (time_column (''-'' @ time_fields 10 30 15)) C_TYPE_TIME None
      Whole 0 True = Some r \<and>
    q_target r = Time \<lparr>tm_hour = 0, tm_minute = 10, tm_second = 30\<rparr>"
  using negative_time_shifted [of "example_field T_TIME 0 10 63" 10 30 15 new_getdata example_reals example_date example_conn example_opts None 0 True]
  by (simp add: new_getdata_def example_field_def)

section \<open>The position\<close>

text \<open>An ending that has the position and, if it is no success with information and no error, the return code of the start.\<close>

definition settled :: "'f result \<Rightarrow> 'f ending \<Rightarrow> bool" where
  "settled r e =
     (let r' = (case e of Return r' \<Rightarrow> r' | Break r' \<Rightarrow> r') in
      q_gd r' = q_gd r \<and> q_rc r' \<in> {q_rc r, SQL_SUCCESS_WITH_INFO, SQL_ERROR})"

named_theorems settles \<open>the targets of a fixed size do not move the position\<close>

lemma settled_simps [simp]:
  "settled r (Return r') \<longleftrightarrow> q_gd r' = q_gd r \<and> q_rc r' \<in> {q_rc r, SQL_SUCCESS_WITH_INFO, SQL_ERROR}"
  "settled r (Break r') \<longleftrightarrow> q_gd r' = q_gd r \<and> q_rc r' \<in> {q_rc r, SQL_SUCCESS_WITH_INFO, SQL_ERROR}"
  by (simp_all add: settled_def)

lemma result_simps [simp]:
  "q_gd (fail x r) = q_gd r" "q_gd (info x r) = q_gd r" "q_gd (put_value v n r) = q_gd r" "q_gd (put_null r) = q_gd r"
  "q_rc (fail x r) = SQL_ERROR" "q_rc (info x r) = SQL_SUCCESS_WITH_INFO" "q_rc (put_value v n r) = q_rc r"
  "q_rc (put_null r) = q_rc r"
  by (simp_all add: fail_def info_def put_value_def put_null_def)

lemma checked_settles [simp]: "settled r (checked lo hi n r v)"
  by (simp add: checked_def)

lemma bit_settles [settles]: "bit_target R k b r = Some e \<Longrightarrow> settled r e"
  by (auto simp: bit_target_def split: if_splits)

lemma long_settles [settles]: "long_target R k b r = Some e \<Longrightarrow> settled r e"
  by (auto simp: long_target_def split: if_splits option.splits)

lemma integer_settles [settles]: "integer_target R k t b r = Some e \<Longrightarrow> settled r e"
  by (auto simp: integer_target_def long_settles split: if_splits)

lemma real_settles [settles]: "real_target R k t b r = Some e \<Longrightarrow> settled r e"
  by (auto simp: real_target_def split: if_splits)

lemma date_settles [settles]: "date_target R c k r = Some e \<Longrightarrow> settled r e"
  by (cases "text_of R k") (auto simp: date_target_def split: option.splits)

lemma interval_settles [settles]: "interval_target R k t r = Some e \<Longrightarrow> settled r e"
  by (cases "text_of R k") (auto simp: interval_target_def Let_def bind_eq_Some_conv split: if_splits)

lemma time_settles [settles]: "time_target R c f k r = Some e \<Longrightarrow> settled r e"
  by (cases "text_of R k") (auto simp: time_target_def Let_def split: if_splits ts_result.splits)

lemma timestamp_settles [settles]: "timestamp_target R ld c f k r = Some e \<Longrightarrow> settled r e"
  by (cases "text_of R k")
    (auto simp: timestamp_target_def Let_def bind_eq_Some_conv split: if_splits ts_result.splits)

lemma numeric_settles [settles]: "numeric_target R k p b r = Some e \<Longrightarrow> settled r e"
  by (cases b; cases "text_of R k") (auto simp: numeric_target_def Let_def split: if_splits prod.splits)

definition copied_types :: "ctype set" where
  "copied_types = {C_CHAR, C_WCHAR, C_BINARY, C_DEFAULT, C_ARD_TYPE}"

lemma convert_settles:
  assumes "convert_value R ld c opts f k t cb p b r = Some e" "t \<notin> copied_types"
  shows "settled r e"
  using assms by (cases t) (simp_all add: convert_value_def copied_types_def settles, auto)

lemma bit_column_number:
  assumes "bit_column opts t cb v r = Some b" "t \<notin> copied_types" "t \<noteq> C_BIT"
  shows "\<exists>n. b = Inr n"
  using assms by (auto simp: bit_column_def copied_types_def split: if_splits)

lemma last_test_settled:
  assumes "settled r e" "gd_source (q_gd r) = None" "q_rc r = SQL_SUCCESS"
  shows "q_gd (last_test e) = q_gd r \<and> q_rc (last_test e) \<noteq> SQL_NO_DATA_FOUND"
  using assms by (cases e) (auto simp: last_test_def retcodes)

text \<open>C24: for a column that has not been read in pieces, a call that reads it into a type of a fixed size leaves the
  position in the column as it is. The column is read again by the next call, with the same result, and SQL_NO_DATA,
  which ODBC gives to a second call, is never returned. (A \<open>BIT\<close> column read as SQL_C_BIT is copied in pieces and is not
  among these.)\<close>
theorem fixed_size_read_again:
  fixes R :: "'f reals"
  assumes "sql_get_data R ld cn opts gd f k t ar tg cb has_ind = Some r"
    and "t \<notin> copied_types" "\<not> (f_type f = T_BIT \<and> t = C_BIT)" "gd_source gd = None"
  shows "q_gd r = gd \<and> sql_get_data R ld cn opts (q_gd r) f k t ar tg cb has_ind = Some r \<and> q_rc r \<noteq> SQL_NO_DATA_FOUND"
proof -
  define r0 where "r0 = \<lparr>q_rc = SQL_SUCCESS, q_gd = gd, q_target = tg, q_ind = None, q_state = None, q_type = f_type f\<rparr>"
  have r0: "q_gd r0 = gd" "q_rc r0 = SQL_SUCCESS" by (simp_all add: r0_def)
  have t: "t \<noteq> C_DEFAULT" "t \<noteq> C_ARD_TYPE" using assms(2) by (auto simp: copied_types_def)
  define bits where "bits = (if f_type f = T_BIT
      then (case k_value k of None \<Rightarrow> None | Some v \<Rightarrow> bit_column opts t cb (take (k_length k) v) r0)
      else Some (Inr None))"
  have inr: "\<exists>n. b = Inr n" if "bits = Some b" for b
    using that bit_column_number [OF _ assms(2)] assms(3) by (auto simp: bits_def split: if_splits option.splits)
  have eq: "sql_get_data R ld cn opts gd f k t ar tg cb has_ind =
      (if is_null k then
         if \<not> has_ind then Some (fail ''22002'' r0) else Some (last_test (Break (put_null r0)))
       else if \<not> odbc_supported_conversion (fst (get_sql_data_type cn f)) t \<and> \<not> driver_supported_conversion (f_type f) t
       then Some (fail ''07006'' r0)
       else Option.bind bits (\<lambda>b. map_option last_test (case b of Inl e \<Rightarrow> Some e
         | Inr n \<Rightarrow> convert_value R ld cn opts f k t cb
             (case ar of None \<Rightarrow> (38, 0) | Some a \<Rightarrow> (word_of_int (a_precision a), word_of_int (a_scale a))) n r0)))"
    unfolding sql_get_data_def Let_def bits_def r0_def using t by simp
  consider "r = fail ''22002'' r0" | "r = fail ''07006'' r0" | "r = last_test (Break (put_null r0))"
    | p b e where "r = last_test e" "convert_value R ld cn opts f k t cb p b r0 = Some e"
  proof (cases bits)
    case None
    then show ?thesis using assms(1) that(1-3) unfolding eq by (auto split: if_splits)
  next
    case (Some b)
    then obtain n where "b = Inr n" using inr by blast
    with Some show ?thesis using assms(1) unfolding eq by (auto split: if_splits intro: that)
  qed
  then have "q_gd r = gd \<and> q_rc r \<noteq> SQL_NO_DATA_FOUND"
  proof cases
    case 3
    then show ?thesis using last_test_settled [of r0 "Break (put_null r0)"] r0 assms(4) by simp
  next
    case 4
    then show ?thesis using last_test_settled [OF convert_settles [OF 4(2) assms(2)]] r0 assms(4) by simp
  qed (simp_all add: r0 retcodes)
  then show ?thesis using assms(1) by simp
qed

theorem fixed_size_read_again_witness:
  "\<exists>r. sql_get_data example_reals example_date example_conn example_opts new_getdata (example_field T_LONG 0x8000 11 63)
      (text_column 7) C_SLONG None Whole 0 True = Some r \<and> q_rc r = SQL_SUCCESS \<and>
    sql_get_data example_reals example_date example_conn example_opts (q_gd r) (example_field T_LONG 0x8000 11 63)
      (text_column 7) C_SLONG None Whole 0 True = Some r"
proof -
  have range: "checked_range C_SLONG = Some (- 2147483648, 2147483647, 4)" by (simp add: checked_range_def)
  have f: "f_type (example_field T_LONG 0x8000 11 63) = T_LONG" by (simp add: example_field_def)
  then have bits: "integer_bits (f_type (example_field T_LONG 0x8000 11 63)) = Some 32" by (simp add: integer_bits_def)
  have gd: "gd_source new_getdata = None" by (simp add: new_getdata_def)
  have v: "- (2 ^ 63) \<le> (7 :: int)" "(7 :: int) < 2 ^ 64" by simp_all
  obtain r where r: "sql_get_data example_reals example_date example_conn example_opts new_getdata
      (example_field T_LONG 0x8000 11 63) (text_column 7) C_SLONG None Whole 0 True = Some r" "q_rc r = SQL_SUCCESS"
    unfolding checked_targets [OF range bits not_null_text gd get_int64_text get_uint64_text [OF v] long_target_text]
    by simp
  with fixed_size_read_again [OF r(1)] show ?thesis by (auto simp: copied_types_def f gd)
qed

section \<open>Padded columns\<close>

lemma copy_ansi_fits:
  assumes "gd_source gd = None" "length src < n" "n < 2 ^ 63" "length b = n"
    "g_max_length opts = 0" "g_retrieve opts"
  shows "copy_ansi_result opts gd (Some b) (int n) src =
    Some \<lparr>o_rc = SQL_SUCCESS, o_gd = gd\<lparr>gd_source := Some (length src)\<rparr>,
          o_buf = Some (src @ CHR 0x00 # drop (Suc (length src)) b), o_avail = Some (length src), o_state = None\<rparr>"
proof -
  have room: "ulong (int n - 1) = n - 1" using assms(2,3) by (simp add: ulong_def)
  have sub: "sub64 (length src) 0 = length src" by (simp add: sub64_def)
  have min: "min (n - 1) (length src) = length src" using assms(2) by simp
  have "store 0 src b = Some (src @ drop (length src) b)"
    using assms(2,4) by (simp add: store_def put_at_def)
  moreover have "source_bytes src 0 (length src) = Some src" by (simp add: source_bytes_def)
  moreover have "slong (length src) = int (length src)" using assms(2,3) by (simp add: slong_def)
  moreover have "store (int (length src)) [CHR 0x00] (src @ drop (length src) b) =
      Some (src @ CHR 0x00 # drop (Suc (length src)) b)"
    using assms(2,4) by (simp add: store_def put_at_def)
  moreover have "min (int (length src)) (int n - 1) = int (length src)" using assms(2) by simp
  moreover have "src = []" if "n = Suc 0" using that assms(2) by simp
  ultimately show ?thesis
    using assms room sub min
    by (cases "n = Suc 0")
      (simp_all add: copy_ansi_result_def copy_binary_result_def copy_bytes_to_def limited_def pointer_def
        truncation_def terminate_ansi_def Let_def)
qed

text \<open>C25: with \<open>PAD_SPACE\<close>, a null \<open>ENUM\<close> or \<open>SET\<close> that is read as a string is not reported as null: \<open>SQLGetData\<close>
  returns success and gives the application spaces, as many as the column is long, a terminator, and their number as the
  length. The column is any column of the result that is not being read in pieces, with a record of type \<open>SQL_CHAR\<close> or \<open>SQL_WCHAR\<close> in the
  implementation row descriptor and a character set that is not binary; the row is that of a query sent as text (in the row of a
  server-side prepared statement the null is in its binding, and is reported); the target is \<open>SQL_C_CHAR\<close> in a buffer longer than the
  column, with a length indicator, no \<open>SQL_ATTR_MAX_LENGTH\<close> and data retrieval on.\<close>
theorem padded_null_is_spaces:
  fixes R :: "'f reals"
  assumes "c_pad_space cn" "enum_flag f \<or> set_flag f" "f_type f = T_STRING" "f_charsetnr f \<noteq> BINARY_CHARSET_NUMBER"
    and "s_result st" "j < length (s_ird st)" "j < 2 ^ 15 - 1" "s_ird st ! j = \<lparr>i_field = f, i_type = ty, i_octet_length = int m\<rparr>"
    and "ty \<in> {SQL_CHAR, SQL_WCHAR}"
    and "s_values st = Some cols" "j < length cols" "cols ! j = \<lparr>k_value = None, k_length = len, k_bind = None\<rparr>"
    and "sqlinteger (int (gd_column (s_getdata st))) = int j \<longrightarrow> gd_source (s_getdata st) = None"
    and "m < n" "n < 2 ^ 63" "length b = n" "g_max_length opts = 0" "g_retrieve opts"
  shows "\<exists>r st'. SQLGetData R ld cn opts st (Suc j) C_CHAR (Chars b) (int n) True = Some (r, st') \<and>
    q_rc r = SQL_SUCCESS \<and> q_ind r = Some (int m) \<and>
    q_target r = Chars (replicate m (CHR '' '') @ CHR 0x00 # drop (Suc m) b)"
proof -
  let ?k = "\<lparr>k_value = Some (replicate m (CHR '' '')), k_length = m, k_bind = None\<rparr> :: 'f column"
  let ?gd = "select_column (s_getdata st) (int j)"
  have col: "sqlsmallint (Suc j) = int (Suc j)" using assms(7) by (simp add: sqlsmallint_def)
  have gd: "gd_source ?gd = None"
    using assms(13) by (simp add: select_column_def reset_getdata_position_def)
  have pad: "fix_padding cn C_CHAR (s_ird st ! j) (int n) (cols ! j) = Some ?k"
    using assms(1,2,9,14) by (auto simp: fix_padding_def Let_def assms(8,12))
  have sl: "slong m = int m" using assms(14,15) by (simp add: slong_def)
  have copied: "copy_ansi_result opts ?gd (Some b) (int n) (replicate m (CHR '' '')) =
      Some \<lparr>o_rc = SQL_SUCCESS, o_gd = ?gd\<lparr>gd_source := Some m\<rparr>,
        o_buf = Some (replicate m (CHR '' '') @ CHR 0x00 # drop (Suc m) b), o_avail = Some m, o_state = None\<rparr>"
    using copy_ansi_fits [of ?gd "replicate m (CHR '' '')" n b opts] gd assms(14-18) by simp
  have tx: "text_of R ?k = Some (replicate m (CHR '' ''), m)" by (simp add: text_of_def get_string_def)
  have "odbc_supported_conversion (fst (get_sql_data_type cn f)) C_CHAR"
    using assms(3)
    by (simp add: get_sql_data_type_def odbc_supported_conversion_def is_binary_ctype_def date_ctypes_def Let_def)
  then have "\<exists>r. sql_get_data R ld cn opts ?gd f ?k C_CHAR (s_ard st (int j)) (Chars b) (int n) True = Some r \<and>
      q_rc r = SQL_SUCCESS \<and> q_ind r = Some (int m) \<and>
      q_target r = Chars (replicate m (CHR '' '') @ CHR 0x00 # drop (Suc m) b)"
    using assms(3,4) copied tx sl
    by (simp add: sql_get_data_def is_null_def convert_value_def bytes_target_def chars_of_def binary_text_def
        copied_def last_test_def)
  moreover have "i_field (s_ird st ! j) = f" by (simp add: assms(8))
  ultimately show ?thesis
    using assms(5,6,10,11) by (auto simp: SQLGetData_def Let_def col pad)
qed

text \<open>The statement of the witness: two columns, the position as a fetch leaves it.\<close>

definition fetched_enum :: "'f get_stmt" where
  "fetched_enum =
     \<lparr>s_result = True,
      s_ird = [\<lparr>i_field = example_field T_LONG 0 11 63, i_type = 4, i_octet_length = 4\<rparr>,
               \<lparr>i_field = example_field T_STRING 256 12 255, i_type = SQL_WCHAR, i_octet_length = 3\<rparr>],
      s_values = Some [\<lparr>k_value = Some ''7'', k_length = 1, k_bind = None\<rparr>, \<lparr>k_value = None, k_length = 0, k_bind = None\<rparr>],
      s_ard = (\<lambda>i. None), s_bookmarks = False, s_getdata = reset_getdata_position new_getdata, s_cursor_row = 0\<rparr>"

theorem padded_null_is_spaces_witness:
  "\<exists>r st'. SQLGetData example_reals example_date (example_conn\<lparr>c_pad_space := True\<rparr>) example_opts fetched_enum
      (Suc 1) C_CHAR (Chars ''xxxxxxxx'') (int 8) True = Some (r, st') \<and>
    q_rc r = SQL_SUCCESS \<and> q_ind r = Some (int 3) \<and>
    q_target r = Chars (replicate 3 (CHR '' '') @ CHR 0x00 # drop (Suc 3) ''xxxxxxxx'')"
  by (rule padded_null_is_spaces [where f = "example_field T_STRING 256 12 255" and ty = SQL_WCHAR and len = 0 and
      cols = "[\<lparr>k_value = Some ''7'', k_length = 1, k_bind = None\<rparr>, \<lparr>k_value = None, k_length = 0, k_bind = None\<rparr>]"])
    (simp_all add: fetched_enum_def example_conn_def example_field_def example_opts_def new_getdata_def
      reset_getdata_position_def enum_flag_def BINARY_CHARSET_NUMBER_def)

section \<open>Bookmarks\<close>

text \<open>C26: the text of a bookmark that is read as a string or as bytes is terminated behind the last byte copied, even when
  the buffer is full: the write leaves the buffer exactly when the text is as long as the buffer or longer.\<close>
theorem bookmark_text_bounds:
  fixes R :: "'f reals"
  assumes "t \<in> {C_CHAR, C_BINARY}" "cb = int (length b)" "8 \<le> length b" "length b < 2 ^ 63" "length v < 2 ^ 63"
    and "gd_source gd = None" "g_max_length opts = 0" "g_retrieve opts"
  shows "(sql_get_bookmark_data R opts gd ty v t ar (Chars b) cb = None \<longleftrightarrow> length b \<le> length v) \<and>
    (length v < length b \<longrightarrow> (\<exists>r. sql_get_bookmark_data R opts gd ty v t ar (Chars b) cb = Some r \<and>
       q_rc r = SQL_SUCCESS \<and> q_target r = Chars (v @ CHR 0x00 # drop (Suc (length v)) b)))"
proof -
  let ?m = "min (length b) (length v)"
  have room: "ulong cb = length b" using assms(2,4) by (simp add: ulong_def)
  have sub: "sub64 (length v) 0 = length v" by (simp add: sub64_def)
  define o' where "o' = \<lparr>o_rc = (if length b < length v then SQL_SUCCESS_WITH_INFO else SQL_SUCCESS),
      o_gd = gd\<lparr>gd_source := Some ?m\<rparr>, o_buf = Some (take ?m v @ drop ?m b), o_avail = Some (length v),
      o_state = (if length b < length v then Some ''01004'' else None)\<rparr>"
  define r where "r = \<lparr>q_rc = SQL_SUCCESS, q_gd = gd, q_target = Chars b :: 'f target, q_ind = None, q_state = None, q_type = ty\<rparr>"
  have copy: "copy_binary_result opts gd (Some b) cb v = Some o'"
    using assms room sub
    by (simp add: o'_def copy_binary_result_def copy_bytes_to_def limited_def pointer_def truncation_def Let_def
        store_def source_bytes_def put_at_def)
  have "cb = int (length b)" "\<not> cb < 0" "\<not> cb < 8" using assms(2,3) by simp_all
  moreover have "chars_of (Chars b :: 'f target) = Some (Some b)" by (simp add: chars_of_def)
  ultimately have whole: "sql_get_bookmark_data R opts gd ty v t ar (Chars b) cb =
      terminate_bookmark cb (length v) (last_test (copied Chars r o'))"
    using assms(1) copy unfolding sql_get_bookmark_data_def Let_def r_def by auto
  have ok: "q_rc (last_test (copied Chars r o')) \<in> {SQL_SUCCESS, SQL_SUCCESS_WITH_INFO}"
    "q_target (last_test (copied Chars r o')) = Chars (take ?m v @ drop ?m b)"
    "length v < length b \<Longrightarrow> q_rc (last_test (copied Chars r o')) = SQL_SUCCESS"
    by (simp_all add: copied_def last_test_def o'_def)
  have end_: "store (int (min (length v) (nat cb))) [CHR 0x00] (take ?m v @ drop ?m b) =
      (if length b \<le> length v then None else Some (v @ CHR 0x00 # drop (Suc (length v)) b))"
    using assms(2) by (simp add: store_def put_at_def)
  show ?thesis
    unfolding whole terminate_bookmark_def using ok end_ by (cases "length b \<le> length v") auto
qed

theorem bookmark_text_bounds_witness:
  "sql_get_bookmark_data example_reals example_opts new_getdata T_INVALID ''12345678'' C_CHAR None (Chars ''xxxxxxxx'') 8 = None"
  using bookmark_text_bounds [of C_CHAR 8 "''xxxxxxxx''" "''12345678''" new_getdata example_opts example_reals T_INVALID None]
  by (simp add: example_opts_def new_getdata_def)

text \<open>A bookmark that is read as \<open>SQL_C_WCHAR\<close>: the first character is replaced by the number itself.\<close>

theorem wide_bookmark_overwritten:
  "map_option (\<lambda>r. (q_rc r, q_target r, q_ind r)) (sql_get_bookmark_data example_reals example_opts new_getdata T_INVALID
     ''5'' C_WCHAR None (Units [0x78, 0x78, 0x78, 0x78]) 8) = Some (SQL_SUCCESS, Units [5, 0, 0x78, 0x78], Some 1)"
proof -
  have five: "code (CHR ''5'') = 53" by (simp add: code_def)
  have "utf8_as_sqlwchar 4 [0x35] 1 = Some ([0x35, 0], 1)"
    using from_utf8_loop_bmp [of "[0x35]" "[]" 4 "[]"]
    by (simp add: utf8_as_sqlwchar_def utf8_of_units_def bmp_unit_def utf32toutf8_def)
  moreover have "get_int example_reals \<lparr>k_value = Some ''5'', k_length = 1, k_bind = None\<rparr> = Some 5"
    by (simp add: get_int_def strtoll10_def sign_digits_def int_of_u64_def isspace_c_def isdigit_c_def five cget_def)
  ultimately show ?thesis
    by (simp add: sql_get_bookmark_data_def bookmark_wide_def example_opts_def new_getdata_def five store_def put_at_def
        set_low_byte_def last_test_def)
qed
end
