(* ===== verification/Spec2Isabelle.thy ===== *)
theory Spec2Isabelle
  imports WString Parse_Lex Diag Handle_Props Numeric_Props Fetch_Scroll DataSource_Props GetData_Safe DateTime_Props
    ColValue_Get
begin

text \<open>
  A verification development for the MatrixOne ODBC driver (a fork of the MySQL Connector/ODBC).

  \<^bold>\<open>The program.\<close> An application calls the ODBC entry points (\<^verbatim>\<open>driver/ansi.cc\<close>, \<^verbatim>\<open>driver/unicode.cc\<close>,
  \<^verbatim>\<open>driver/handle.cc\<close>) with handles of environments, connections, statements and descriptors
  (\<^verbatim>\<open>driver/driver.h\<close>). Entry points for wide strings convert their arguments
  (\<^verbatim>\<open>util/stringutil.cc\<close>, \<^verbatim>\<open>util/unicode_transcode.cc\<close>). A query is tokenized to find its parameter
  markers and its type (\<^verbatim>\<open>driver/parse.cc\<close>) by means of the classifiers of the connection's character
  set (\<^verbatim>\<open>mysql_strings\<close>); parameters and columns are described by descriptors (\<^verbatim>\<open>driver/desc.cc\<close>), their
  data is collected in growing buffers (\<open>tempBuf\<close> of \<^verbatim>\<open>driver/utility.cc\<close>) and converted
  (\<^verbatim>\<open>driver/utility.cc\<close>); every failure is recorded in the handle and read back with a SQLSTATE of a
  global table (\<^verbatim>\<open>driver/error.cc\<close>).

  \<^bold>\<open>The theories.\<close>
  \<^item> \<open>Prelude\<close>: machine types, C character classes, memory reads, \<open>myodbc_casecmp\<close>, lemma collections.
  \<^item> \<open>Transcode\<close>: \<^verbatim>\<open>util/unicode_transcode.cc\<close>, code points from and to UTF-16 units and UTF-8 bytes on
    machine words. Round trips, and the plane that the decoding of surrogates loses.
  \<^item> \<open>Charset\<close>: \<^verbatim>\<open>mb_wc.h\<close> and the \<open>ctype\<close> operations of \<^verbatim>\<open>ctype-mb.cc\<close> and \<^verbatim>\<open>ctype-simple.cc\<close> for utf8mb4 and
    latin1. Its locale \<open>classifier\<close> states what the tokenizer relies on, interpreted on both.
  \<^item> \<open>WString\<close>: \<^verbatim>\<open>util/stringutil.cc\<close>, on explicit buffers in which a store out of range is \<open>None\<close>: bounds of
    every copying routine, round trips of the conversions and of the quoting of values.
  \<^item> \<open>Parse\<close>, \<open>Parse_Props\<close>, \<open>Parse_Lex\<close>: \<^verbatim>\<open>driver/parse.cc\<close>. \<open>parse\<close> is the whole tokenizer, with its
    state in the record \<open>parser\<close> (class \<open>MY_PARSER\<close>) and the parsed query in \<open>parsed_query\<close>. Its invariant (with \<open>braces_blanked\<close>: only an
    outer pair of braces is overwritten), and the equivalence of its parameter scan with a lexer that knows nothing of tokens.
  \<^item> \<open>Diag\<close>: \<^verbatim>\<open>driver/error.cc\<close>, the table \<open>myodbc3_errors\<close>, its change by \<open>myodbc_ov_init\<close>, error records,
    \<open>translate_error\<close> and the diagnostics functions. An error reported to a descriptor without a statement is undefined.
  \<^item> \<open>TempBuf\<close>: \<open>tempBuf\<close>, with cells never written. It refines a list of bytes; its locale
    \<open>byte_sink\<close> is what its clients use, interpreted on it and on the parameter data of a descriptor record.
  \<^item> \<open>Desc\<close>, \<open>Desc_Props\<close>: \<^verbatim>\<open>driver/desc.cc\<close> and the type functions of \<^verbatim>\<open>driver/utility.cc\<close>. \<open>set_field\<close> and
    \<open>MySQLGetDescField\<close> are the two field operations on the record \<open>desc\<close> (\<open>struct DESC\<close>): what a store may change, records and
    bookmark records, and the arguments for which it returns (\<open>store_defined\<close>).
  \<^item> \<open>Handles\<close>, \<open>Handle_Graph\<close>, \<open>Machine\<close>, \<open>Handle_Safety\<close>, \<open>Handle_Props\<close>: \<^verbatim>\<open>driver/handle.cc\<close> with the operations it
    calls in \<^verbatim>\<open>my_prepared_stmt.cc\<close>, \<^verbatim>\<open>connect.cc\<close> and \<^verbatim>\<open>options.cc\<close>, on a heap of objects in which following
    a pointer to a freed object is \<open>None\<close>. \<open>Handle_Graph\<close> is the abstract specification, a graph of links;
    \<open>Handle_Safety\<close> proves the refinement and interprets the locale \<open>safe_machine\<close> of \<open>Machine\<close>, so that no sequence of
    legal calls of any length is undefined. Legal (\<open>legal\<close>) is a condition on the arguments and the state before a call: live handles, the
    order of releases that the driver manager keeps, \<open>store_defined\<close> for a descriptor store, and no assignment of a refused
    descriptor over an allocated one, of which \<open>refused_descriptor_dangles\<close> shows the harm.
  \<^item> \<open>Numeric\<close>, \<open>Numeric_Props\<close>: \<open>SQL_NUMERIC_STRUCT\<close> from a decimal string and back (\<^verbatim>\<open>driver/utility.cc\<close>).
  \<^item> \<open>DataSource\<close>, \<open>DataSource_Props\<close>: the options of a connection and connection strings (\<^verbatim>\<open>util/installer.cc\<close>). What
    \<open>to_kvpair\<close> writes, \<open>from_kvpair\<close> reads back; some strings it never finishes.
  \<^item> \<open>Scroller\<close>, \<open>Scroller_Props\<close>: the LIMIT clause of a query (\<open>find_position4limit\<close>) and the scroller that sends the query in
    windows (\<^verbatim>\<open>driver/my_stmt.cc\<close>); the windows tile the range that was read from the clause.
  \<^item> \<open>Fetch\<close>, \<open>Fetch_Props\<close>, \<open>Fetch_Scroll\<close>: \<open>my_SQLExtendedFetch\<close> (\<^verbatim>\<open>driver/results.cc\<close>) and \<open>STMT::compute_cur_row\<close>. On a
    result in memory a fetch refines a cursor: the datatype \<open>cursor\<close> cuts the list of the rows into those before, in and after the rowset, and
    \<open>cursor_move\<close> gives the cut after each type of fetch, by list operations alone. The errors that lose rows are theorems too.
    The completion of a row by \<open>fetch_varlength_columns\<close> (the callback \<open>fix_fields\<close>) is a service.
  \<^item> \<open>GetData\<close>, \<open>GetData_Props\<close>, \<open>GetData_Wide\<close>, \<open>GetData_Safe\<close>: the copying of a column in pieces (\<open>copy_binary_result\<close> to
    \<open>do_copy_bit_result\<close> of \<^verbatim>\<open>driver/utility.cc\<close>), with the record \<open>getdata\<close> (\<open>struct GETDATA\<close>) and the memory of the
    application's buffer. The locale \<open>piecewise\<close> says that pieces of any sizes are the consecutive parts of one list, its extension
    \<open>reporting\<close> that the end is reported when it is reached; they are interpreted on the routines for bytes, strings,
    hexadecimal (which reports the end too early) and UTF-16. \<open>GetData_Safe\<close> has the bounds that hold of any data, and the errors.
  \<^item> \<open>DateTime\<close>, \<open>DateTime_Props\<close>: \<open>str_to_ts\<close>, \<open>str_to_date\<close>, \<open>str_to_time_st\<close>, \<open>complete_timestamp\<close> and the text of a
    parameter (\<open>convert_c_type2str\<close> of \<^verbatim>\<open>driver/execute.cc\<close>): round trips and normal forms.
  \<^item> \<open>ColType\<close>, \<open>ColType_Props\<close>: what the driver says of a column, from the record \<open>field\<close> (\<open>MYSQL_FIELD\<close>): \<open>get_sql_data_type\<close>,
    \<open>get_column_size\<close>, \<open>get_display_size\<close> and their like in \<^verbatim>\<open>driver/utility.cc\<close>, the table of \<^verbatim>\<open>util/stringutil.cc\<close> and the
    conversions allowed (\<^verbatim>\<open>driver/results.cc\<close>). Which values and texts of a type the sizes hold.
  \<^item> \<open>ColValue\<close>, \<open>ColValue_Props\<close>, \<open>ColValue_Get\<close>: \<open>SQLGetData\<close>, \<open>sql_get_data\<close> and \<open>sql_get_bookmark_data\<close> (\<^verbatim>\<open>driver/results.cc\<close>), with a
    value as the text of a row or in the buffer of a prepared statement (\<^verbatim>\<open>driver/my_stmt.cc\<close>, \<^verbatim>\<open>driver/my_prepared_stmt.cc\<close>). They put
    \<open>GetData\<close>, \<open>DateTime\<close> and \<open>Numeric\<close> together. Integers come through exactly or are refused, both ways of a value agree, and the
    theorems name the values for which this fails. The type \<open>'f\<close> of floating point numbers and its conversions are a parameter
    (\<open>reals\<close>), and so is the date of today (\<open>local_date\<close>).

  \<^bold>\<open>Conventions.\<close> A C string is a list of bytes without its terminator, a pointer into a buffer an offset, a
  machine integer a word of its width where it can wrap. Undefined behaviour (a read or store outside an
  object, a null pointer, an object that was freed) and C++ exceptions are \<open>None\<close>. What is not in the repository is a
  parameter: the class pages of the Unicode tables (\<open>pages\<close>), the driver's version string (\<open>drv\<close>), the error
  numbers of the server (\<open>er\<close>), the memory behind an array (\<open>past\<close>). No definition needs fuel: every loop has a
  measure, except for the digits of a number, which the code itself bounds by 39, and the loops \<open>scroller_skip\<close>,
  \<open>from_kvpair\<close> and \<open>binary2numeric\<close>, which may not end and are partial functions (\<open>None\<close> when they do not). The calls of the client library that a fetch needs are the fields of
  the record \<open>services\<close>; what its manual says of a stored result is the hypothesis \<open>stored_result\<close> (an offset that was given leads back to its row; of
  other offsets nothing is said but that the rows remain). Assertions of the code are not modelled: the build is one without them.

  \<^bold>\<open>Not modelled.\<close> The exchange with the server, which goes through the client library
  (\<^verbatim>\<open>connect.cc\<close>, \<^verbatim>\<open>execute.cc\<close>, \<^verbatim>\<open>catalog.cc\<close>, \<^verbatim>\<open>results.cc\<close> apart from fetching and the data of a column (positioned updates, the
  streams of output parameters), most of \<^verbatim>\<open>my_stmt.cc\<close> and \<^verbatim>\<open>my_prepared_stmt.cc\<close>); the
  entry points themselves, which convert arguments and dispatch; locks and telemetry; the
  installer and its dialogs; the collations and multi-byte character sets of the vendored
  \<^verbatim>\<open>mysql_strings\<close>, and its \<^verbatim>\<open>mysql_sys\<close>, \<^verbatim>\<open>include\<close> and \<^verbatim>\<open>extra\<close>, which are third-party code.
\<close>

end
